(* ===== verification/Prelude.thy ===== *)
theory Prelude
  imports Main "HOL-Library.Word" "HOL-Library.Sublist" "HOL-Library.Multiset"
begin

text \<open>
  Shared base of the development: Rust strings as lists of Unicode scalar values, the
  operations of \<^verbatim>\<open>str\<close> and \<^verbatim>\<open>char\<close> the sources call, fixed-width and saturating
  arithmetic, and the generic lemmas on them.

  A scalar value is kept as an \<^typ>\<open>int\<close>, so that the kernel compares two of them in binary.
  Positions count scalar values. Where the source slices by byte offset it only uses offsets
  returned by a search on the same string, which are character boundaries, so both countings
  select the same slice; the one place where bytes are counted (a size limit) uses
  \<open>utf8_len\<close> below.
\<close>

section \<open>Collections of facts\<close>

named_theorems str_simps \<open>rewriting rules for the string operations\<close>
named_theorems io_intros \<open>preservation rules for effectful steps\<close>

section \<open>Strings\<close>

type_synonym uchar = int
type_synonym ustr = "uchar list"

text \<open>\<open>lit ''abc''\<close> is the Rust literal; code points beyond ASCII are written as numbers.\<close>

definition lit :: "string \<Rightarrow> ustr" where
  "lit s = map of_char s"

abbreviation ch :: "char \<Rightarrow> uchar" where
  "ch c \<equiv> of_char c"

definition newline :: uchar where "newline = 10"
definition carriage_return :: uchar where "carriage_return = 13"

subsection \<open>Character classes\<close>

text \<open>\<^verbatim>\<open>char::is_whitespace\<close>: the Unicode property White\_Space.\<close>

definition is_whitespace :: "uchar \<Rightarrow> bool" where
  "is_whitespace c \<longleftrightarrow> (9 \<le> c \<and> c \<le> 13) \<or> c = 32 \<or> c = 133 \<or> c = 160 \<or> c = 5760
     \<or> (8192 \<le> c \<and> c \<le> 8202) \<or> c = 8232 \<or> c = 8233 \<or> c = 8239 \<or> c = 8287 \<or> c = 12288"

definition is_ascii_digit :: "uchar \<Rightarrow> bool" where
  "is_ascii_digit c \<longleftrightarrow> 48 \<le> c \<and> c \<le> 57"

definition is_ascii_uppercase :: "uchar \<Rightarrow> bool" where
  "is_ascii_uppercase c \<longleftrightarrow> 65 \<le> c \<and> c \<le> 90"

definition is_ascii_lowercase :: "uchar \<Rightarrow> bool" where
  "is_ascii_lowercase c \<longleftrightarrow> 97 \<le> c \<and> c \<le> 122"

definition is_ascii_alphabetic :: "uchar \<Rightarrow> bool" where
  "is_ascii_alphabetic c \<longleftrightarrow> is_ascii_uppercase c \<or> is_ascii_lowercase c"

definition is_ascii_alphanumeric :: "uchar \<Rightarrow> bool" where
  "is_ascii_alphanumeric c \<longleftrightarrow> is_ascii_alphabetic c \<or> is_ascii_digit c"

definition is_ascii_hexdigit :: "uchar \<Rightarrow> bool" where
  "is_ascii_hexdigit c \<longleftrightarrow> is_ascii_digit c \<or> (65 \<le> c \<and> c \<le> 70) \<or> (97 \<le> c \<and> c \<le> 102)"

lemmas ascii_class_defs = is_ascii_digit_def is_ascii_uppercase_def is_ascii_lowercase_def
  is_ascii_alphabetic_def is_ascii_alphanumeric_def

definition to_ascii_lower :: "uchar \<Rightarrow> uchar" where
  "to_ascii_lower c = (if is_ascii_uppercase c then c + 32 else c)"

definition to_ascii_lowercase :: "ustr \<Rightarrow> ustr" where
  "to_ascii_lowercase s = map to_ascii_lower s"

definition eq_ignore_ascii_case :: "uchar \<Rightarrow> uchar \<Rightarrow> bool" where
  "eq_ignore_ascii_case a b \<longleftrightarrow> to_ascii_lower a = to_ascii_lower b"

subsection \<open>Prefixes, searching, trimming\<close>

definition starts_with :: "ustr \<Rightarrow> ustr \<Rightarrow> bool" where
  "starts_with s p \<longleftrightarrow> take (length p) s = p"

lemma starts_with_code [code]:
  "starts_with s [] \<longleftrightarrow> True"
  "starts_with [] (c # p) \<longleftrightarrow> False"
  "starts_with (x # s) (c # p) \<longleftrightarrow> x = c \<and> starts_with s p"
  by (auto simp: starts_with_def)

definition ends_with :: "ustr \<Rightarrow> ustr \<Rightarrow> bool" where
  "ends_with s p \<longleftrightarrow> starts_with (rev s) (rev p)"

definition strip_prefix :: "ustr \<Rightarrow> ustr \<Rightarrow> ustr option" where
  "strip_prefix s p = (if starts_with s p then Some (drop (length p) s) else None)"

text \<open>\<^verbatim>\<open>str::find\<close>: the position of the first occurrence.\<close>

fun str_find :: "ustr \<Rightarrow> ustr \<Rightarrow> nat option" where
  "str_find [] p = (if p = [] then Some 0 else None)"
| "str_find (c # s) p =
     (if starts_with (c # s) p then Some 0 else map_option Suc (str_find s p))"

definition str_contains :: "ustr \<Rightarrow> ustr \<Rightarrow> bool" where
  "str_contains s p \<longleftrightarrow> str_find s p \<noteq> None"

text \<open>\<^verbatim>\<open>find(char)\<close> and \<^verbatim>\<open>rfind(char)\<close>.\<close>

definition find_char :: "ustr \<Rightarrow> uchar \<Rightarrow> nat option" where
  "find_char s c = str_find s [c]"

definition rfind_char :: "ustr \<Rightarrow> uchar \<Rightarrow> nat option" where
  "rfind_char s c = map_option (\<lambda>i. length s - 1 - i) (find_char (rev s) c)"

definition trim_start :: "ustr \<Rightarrow> ustr" where
  "trim_start s = dropWhile is_whitespace s"

definition trim_end :: "ustr \<Rightarrow> ustr" where
  "trim_end s = rev (dropWhile is_whitespace (rev s))"

definition trim :: "ustr \<Rightarrow> ustr" where
  "trim s = trim_end (trim_start s)"

text \<open>\<^verbatim>\<open>trim_start_matches(c)\<close>, \<^verbatim>\<open>trim_matches(c)\<close>.\<close>

definition trim_start_matches :: "uchar \<Rightarrow> ustr \<Rightarrow> ustr" where
  "trim_start_matches c s = dropWhile (\<lambda>x. x = c) s"

definition trim_matches :: "uchar \<Rightarrow> ustr \<Rightarrow> ustr" where
  "trim_matches c s = rev (trim_start_matches c (rev (trim_start_matches c s)))"

text \<open>\<^verbatim>\<open>trim_end_matches(str)\<close>: drops every trailing copy of a non-empty pattern.\<close>

function trim_end_matches_str :: "ustr \<Rightarrow> ustr \<Rightarrow> ustr" where
  "trim_end_matches_str p s =
     (if p \<noteq> [] \<and> s \<noteq> [] \<and> ends_with s p then trim_end_matches_str p (take (length s - length p) s)
      else s)"
  by pat_completeness auto
termination
  by (relation "measure (\<lambda>(p, s). length s)") auto

declare trim_end_matches_str.simps [simp del]

subsection \<open>Splitting\<close>

text \<open>\<^verbatim>\<open>split(p)\<close> on a character predicate: one more segment than separators.\<close>

fun split_on :: "(uchar \<Rightarrow> bool) \<Rightarrow> ustr \<Rightarrow> ustr list" where
  "split_on p [] = [[]]"
| "split_on p (c # s) =
     (if p c then [] # split_on p s
      else (case split_on p s of [] \<Rightarrow> [[c]] | seg # segs \<Rightarrow> (c # seg) # segs))"

definition split_whitespace :: "ustr \<Rightarrow> ustr list" where
  "split_whitespace s = filter (\<lambda>w. w \<noteq> []) (split_on is_whitespace s)"

text \<open>
  \<^verbatim>\<open>str::lines\<close>: the pieces between line feeds, a carriage return before the line feed
  dropped, no empty piece after a final line feed.
\<close>

definition strip_cr :: "ustr \<Rightarrow> ustr" where
  "strip_cr l = (if l \<noteq> [] \<and> last l = carriage_return then butlast l else l)"

fun lines_of :: "ustr list \<Rightarrow> ustr list" where
  "lines_of [] = []"
| "lines_of [l] = (if l = [] then [] else [l])"
| "lines_of (l # ls) = strip_cr l # lines_of ls"

definition lines :: "ustr \<Rightarrow> ustr list" where
  "lines s = lines_of (split_on (\<lambda>c. c = newline) s)"

text \<open>\<^verbatim>\<open>[&str]::join(sep)\<close>.\<close>

fun str_join :: "ustr \<Rightarrow> ustr list \<Rightarrow> ustr" where
  "str_join sep [] = []"
| "str_join sep [x] = x"
| "str_join sep (x # xs) = x @ sep @ str_join sep xs"

subsection \<open>Order, sizes, numbers\<close>

text \<open>
  \<^verbatim>\<open>str::cmp\<close> compares UTF-8 bytes, which is the lexicographic order of the scalar values.
\<close>

fun str_less :: "ustr \<Rightarrow> ustr \<Rightarrow> bool" where
  "str_less _ [] = False"
| "str_less [] (_ # _) = True"
| "str_less (a # s) (b # t) = (a < b \<or> (a = b \<and> str_less s t))"

definition utf8_width :: "uchar \<Rightarrow> nat" where
  "utf8_width c = (if c < 128 then 1 else if c < 2048 then 2 else if c < 65536 then 3 else 4)"

definition utf8_len :: "ustr \<Rightarrow> nat" where
  "utf8_len s = sum_list (map utf8_width s)"

text \<open>Cutting at the last character boundary within a limit of bytes: the characters that fit.\<close>

fun clamp_bytes :: "nat \<Rightarrow> ustr \<Rightarrow> ustr" where
  "clamp_bytes n [] = []"
| "clamp_bytes n (c # s) = (if utf8_width c \<le> n then c # clamp_bytes (n - utf8_width c) s else [])"

lemma prefix_clamp_bytes: "prefix (clamp_bytes n s) s"
  by (induction n s rule: clamp_bytes.induct) auto

lemma utf8_len_clamp_bytes: "utf8_len (clamp_bytes n s) \<le> n"
  by (induction n s rule: clamp_bytes.induct) (auto simp: utf8_len_def)

text \<open>Decimal rendering of an unsigned number (\<^verbatim>\<open>{}\<close> in a format string).\<close>

fun show_nat :: "nat \<Rightarrow> ustr" where
  "show_nat n = (if n < 10 then [48 + int n] else show_nat (n div 10) @ [48 + int (n mod 10)])"

declare show_nat.simps [simp del]

definition parse_digits :: "ustr \<Rightarrow> int" where
  "parse_digits s = fold (\<lambda>c acc. acc * 10 + (c - 48)) s 0"

text \<open>\<^verbatim>\<open>str::parse::<u32>\<close>: an optional plus sign, one or more digits, no overflow.\<close>

definition parse_u32 :: "ustr \<Rightarrow> 32 word option" where
  "parse_u32 s =
     (let ds = (case s of c # r \<Rightarrow> if c = 43 \<and> r \<noteq> [] then r else s | [] \<Rightarrow> s) in
      if ds = [] \<or> \<not> list_all is_ascii_digit ds then None
      else if parse_digits ds < 2 ^ 32 then Some (word_of_int (parse_digits ds)) else None)"

section \<open>Fixed-width integers\<close>

text \<open>
  The release profile wraps on overflow. \<open>wrap_i64\<close> is the two's complement reading of a
  64-bit result; saturating operations clamp instead. \<^verbatim>\<open>usize\<close> is 64 bits wide.
\<close>

definition i64_max :: int where "i64_max = 9223372036854775807"
definition i64_min :: int where "i64_min = - 9223372036854775808"

definition wrap_i64 :: "int \<Rightarrow> int" where
  "wrap_i64 x = (x - i64_min) mod 2 ^ 64 + i64_min"

definition sat_i64 :: "int \<Rightarrow> int" where
  "sat_i64 x = max i64_min (min i64_max x)"

definition usize_max :: nat where "usize_max = 18446744073709551615"

definition sat_add :: "nat \<Rightarrow> nat \<Rightarrow> nat" where
  "sat_add a b = min usize_max (a + b)"

text \<open>Evaluation compares in binary and builds the large number only when it is the result.\<close>

lemma sat_add_code [code]:
  "sat_add a b = (if int a + int b \<le> 18446744073709551615 then a + b else usize_max)"
  by (auto simp: sat_add_def usize_max_def)

section \<open>Facts about strings\<close>

lemma dropWhile_idem: "dropWhile P (dropWhile P xs) = dropWhile P xs"
  by (induction xs) auto

lemma trim_start_trim_start [simp]: "trim_start (trim_start s) = trim_start s"
  by (simp add: trim_start_def dropWhile_idem)

lemma trim_end_trim_end [simp]: "trim_end (trim_end s) = trim_end s"
  by (simp add: trim_end_def dropWhile_idem)

lemma prefix_trim_end: "\<exists>t. s = trim_end s @ t"
proof -
  have "rev (rev s) = rev (takeWhile is_whitespace (rev s) @ dropWhile is_whitespace (rev s))" by simp
  then have "s = trim_end s @ rev (takeWhile is_whitespace (rev s))"
    unfolding trim_end_def by (simp del: takeWhile_dropWhile_id)
  then show ?thesis by blast
qed

lemma trim_start_hd: "trim_start s = s \<longleftrightarrow> s = [] \<or> \<not> is_whitespace (hd s)"
  by (simp add: trim_start_def dropWhile_eq_self_iff)

lemma trim_start_trim_end: "trim_start s = s \<Longrightarrow> trim_start (trim_end s) = trim_end s"
proof -
  assume s: "trim_start s = s"
  obtain t where t: "s = trim_end s @ t" using prefix_trim_end by blast
  show ?thesis
  proof (cases "trim_end s = []")
    case False
    with t have "hd s = hd (trim_end s)" "s \<noteq> []" by (metis hd_append2, auto)
    with s False show ?thesis by (simp add: trim_start_hd)
  qed (simp add: trim_start_def)
qed

lemma trim_trim [simp]: "trim (trim s) = trim s"
  by (simp add: trim_def trim_start_trim_end)

lemma length_trim_end_le: "length (trim_end s) \<le> length s"
  using length_dropWhile_le [of is_whitespace "rev s"] by (simp add: trim_end_def)

lemma length_trim_le: "length (trim s) \<le> length s"
  unfolding trim_def trim_start_def
  using length_trim_end_le le_trans length_dropWhile_le by blast

section \<open>Lines and numbers\<close>

lemma split_on_none: "\<forall>c \<in> set xs. \<not> p c \<Longrightarrow> split_on p xs = [xs]"
  by (induction xs) auto

lemma split_on_sep: "\<forall>c \<in> set xs. \<not> p c \<Longrightarrow> p c \<Longrightarrow> split_on p (xs @ c # ys) = xs # split_on p ys"
  by (induction xs) auto

definition unlines :: "ustr list \<Rightarrow> ustr" where
  "unlines ls = concat (map (\<lambda>l. l @ [newline]) ls)"

lemma split_on_unlines:
  "\<forall>l \<in> set ls. newline \<notin> set l \<Longrightarrow> split_on (\<lambda>c. c = newline) (unlines ls) = ls @ [[]]"
proof (induction ls)
  case (Cons l ls)
  then have "split_on (\<lambda>c. c = newline) (l @ newline # unlines ls) = l # split_on (\<lambda>c. c = newline) (unlines ls)"
    by (intro split_on_sep) auto
  with Cons show ?case by (simp add: unlines_def)
qed (simp add: unlines_def)

lemma lines_of_snoc_empty: "lines_of (ls @ [[]]) = map strip_cr ls"
proof (induction ls)
  case (Cons l ls)
  then show ?case by (cases ls) auto
qed simp

lemma strip_cr_id: "carriage_return \<notin> set l \<Longrightarrow> strip_cr l = l"
  unfolding strip_cr_def by (metis last_in_set)

lemma lines_unlines:
  assumes "\<forall>l \<in> set ls. newline \<notin> set l \<and> carriage_return \<notin> set l"
  shows "lines (unlines ls) = ls"
proof -
  have "lines (unlines ls) = map strip_cr ls"
    using assms by (simp add: lines_def split_on_unlines lines_of_snoc_empty)
  also have "\<dots> = ls" using assms by (intro map_idI) (simp add: strip_cr_id)
  finally show ?thesis .
qed

lemma show_nat_digits: "\<forall>c \<in> set (show_nat n). is_ascii_digit c"
proof (induction n rule: show_nat.induct)
  case (1 n)
  then show ?case
    by (subst show_nat.simps) (auto simp: is_ascii_digit_def)
qed

lemma show_nat_nonempty [simp]: "show_nat n \<noteq> []"
  by (subst show_nat.simps) simp

lemma parse_digits_snoc: "parse_digits (s @ [c]) = parse_digits s * 10 + (c - 48)"
  by (simp add: parse_digits_def)

lemma parse_digits_show_nat [simp]: "parse_digits (show_nat n) = int n"
proof (induction n rule: show_nat.induct)
  case (1 n)
  show ?case
  proof (cases "n < 10")
    case True
    then show ?thesis by (subst show_nat.simps) (simp add: parse_digits_def)
  next
    case False
    have "int (n div 10) * 10 + int (n mod 10) = int n" by (metis div_mult_mod_eq of_nat_add of_nat_mult of_nat_numeral)
    with 1 False show ?thesis by (subst show_nat.simps) (simp add: parse_digits_snoc del: of_nat_div of_nat_mod)
  qed
qed

lemma parse_u32_show_nat: "parse_u32 (show_nat (unat w)) = Some w"
proof -
  obtain c r where s: "show_nat (unat w) = c # r" by (cases "show_nat (unat w)") auto
  have d: "\<forall>c \<in> set (show_nat (unat w)). is_ascii_digit c" by (rule show_nat_digits)
  then have "c \<noteq> 43" using s by (auto simp: is_ascii_digit_def)
  then have ds: "(case show_nat (unat w) of c # r \<Rightarrow> if c = 43 \<and> r \<noteq> [] then r else show_nat (unat w)
      | [] \<Rightarrow> show_nat (unat w)) = show_nat (unat w)" by (simp add: s)
  have "int (unat w) < 2 ^ 32" using unsigned_less [of w] by (simp flip: of_nat_less_iff [where 'a = int])
  then show ?thesis
    using d unfolding parse_u32_def Let_def ds by (auto simp: list_all_iff)
qed

lemma digit_not_white: "is_ascii_digit c \<Longrightarrow> \<not> is_whitespace c"
  by (auto simp: is_ascii_digit_def is_whitespace_def)

lemma starts_with_append [simp]: "starts_with (p @ s) p"
  by (simp add: starts_with_def)

lemma strip_prefix_append [simp]: "strip_prefix (p @ s) p = Some s"
  by (simp add: strip_prefix_def)

lemma str_find_first: "c \<notin> set xs \<Longrightarrow> str_find (xs @ (c # p) @ ys) (c # p) = Some (length xs)"
proof (induction xs)
  case Nil
  then show ?case by (simp add: starts_with_def)
next
  case (Cons x xs)
  then show ?case by (simp add: starts_with_def)
qed

lemma trim_end_snoc: "trim_end (s @ [c]) = (if is_whitespace c then trim_end s else s @ [c])"
  by (simp add: trim_end_def)

section \<open>Searching\<close>

lemma str_find_bound: "str_find s p = Some n \<Longrightarrow> n + length p \<le> length s"
proof (induction s arbitrary: n)
  case (Cons c s)
  then show ?case
  proof (cases "starts_with (c # s) p")
    case True
    then have "length (take (length p) (c # s)) = length p" by (simp add: starts_with_def)
    then have "length p \<le> length (c # s)" by (simp add: min_def split: if_splits)
    with True Cons(2) show ?thesis by simp
  qed auto
qed (auto split: if_splits)

lemma starts_with_iff: "starts_with s p \<longleftrightarrow> (\<exists>t. s = p @ t)"
  unfolding starts_with_def by (metis append_eq_conv_conj append_take_drop_id)

lemma str_contains_iff: "str_contains s p \<longleftrightarrow> sublist p s"
proof (induction s)
  case Nil
  show ?case by (simp add: str_contains_def)
next
  case (Cons c s)
  then show ?case
    by (auto simp: str_contains_def starts_with_iff sublist_Cons_right prefix_def)
qed

lemma str_find_starts: "str_find s p = Some n \<Longrightarrow> starts_with (drop n s) p"
  by (induction s arbitrary: n) (auto simp: starts_with_def split: if_splits)

lemma str_find_least: "starts_with (drop m s) p \<Longrightarrow> m \<le> length s \<Longrightarrow> \<exists>n \<le> m. str_find s p = Some n"
proof (induction s arbitrary: m)
  case (Cons c s)
  then show ?case
  proof (cases "starts_with (c # s) p")
    case False
    with Cons.prems obtain k where "m = Suc k" by (cases m) auto
    with Cons.IH [of k] Cons.prems False show ?thesis by auto
  qed simp
qed (simp add: starts_with_def)

lemma sublist_sep:
  assumes "sublist p (a @ x # b)" "x \<notin> set p"
  shows "sublist p a \<or> sublist p b"
proof -
  from assms(1) obtain u v where uv: "a @ x # b = u @ p @ v" by (auto simp: sublist_def)
  show ?thesis
  proof (cases "length u + length p \<le> length a")
    case True
    then have "a = u @ p @ take (length a - length u - length p) v"
      using arg_cong [OF uv, of "take (length a)"] by simp
    then show ?thesis by (auto simp: sublist_def)
  next
    case False
    show ?thesis
    proof (cases "length u \<le> length a")
      case True
      then have lt: "length a - length u < length p" using False by linarith
      have "x = (u @ p @ v) ! length a" by (simp flip: uv)
      also have "\<dots> = p ! (length a - length u)" using True lt by (simp add: nth_append)
      also have "\<dots> \<in> set p" using lt by (rule nth_mem)
      finally show ?thesis using assms(2) by simp
    next
      case False
      then have "b = drop (Suc (length a)) u @ p @ v"
        using arg_cong [OF uv, of "drop (Suc (length a))"] by (simp add: Suc_le_eq)
      then show ?thesis by (auto simp: sublist_def)
    qed
  qed
qed

section \<open>Occurrences across a cut\<close>

text \<open>
  A pattern whose first character does not come again cannot straddle a cut in front of that character; one
  whose last character does not come earlier cannot straddle a cut behind it.
\<close>

definition clean_cut :: "ustr \<Rightarrow> ustr \<Rightarrow> ustr \<Rightarrow> bool" where
  "clean_cut m a b \<longleftrightarrow> a = [] \<or> b = [] \<or> hd b \<notin> set (tl m) \<or> last a \<notin> set (butlast m)"

lemma starts_with_clean_cut:
  assumes "clean_cut m a b" "a \<noteq> []" "starts_with (a @ b) m" "m \<noteq> []"
  shows "starts_with a m"
proof (cases "length m \<le> length a")
  case True
  with assms(3) show ?thesis by (simp add: starts_with_def)
next
  case False
  from assms(3) obtain t where t: "a @ b = m @ t" by (auto simp: starts_with_iff)
  from False t have m: "m = a @ take (length m - length a) b" "b \<noteq> []"
    by (auto simp: append_eq_append_conv2)
  have "take (length m - length a) b = hd b # take (length m - length a - 1) (tl b)"
    using False m(2) by (cases b) (simp_all add: take_Cons')
  with m(1) have "tl m = tl a @ hd b # take (length m - length a - 1) (tl b)" using assms(2) by (metis tl_append2)
  then have "hd b \<in> set (tl m)" by simp
  moreover have "last a \<in> set (butlast m)" using m False assms(2)
    by (metis Un_iff butlast_append last_in_set length_append less_not_refl2 append.right_neutral length_0_conv not_le set_append)
  ultimately show ?thesis using assms(1,2) m(2) by (auto simp: clean_cut_def)
qed

lemma clean_cut_tl: "clean_cut m (c # a) b \<Longrightarrow> clean_cut m a b"
  by (auto simp: clean_cut_def split: if_splits)

lemma str_find_clean_cut:
  assumes "clean_cut m a b" "m \<noteq> []"
  shows "str_find (a @ b) m = (case str_find a m of Some n \<Rightarrow> Some n | None \<Rightarrow> map_option ((+) (length a)) (str_find b m))"
  using assms(1)
proof (induction a)
  case Nil
  show ?case using assms(2) by (cases "str_find b m") simp_all
next
  case (Cons c a)
  have "starts_with (c # a) m \<Longrightarrow> starts_with ((c # a) @ b) m" unfolding starts_with_iff by (metis append.assoc)
  then have "starts_with (c # a @ b) m \<longleftrightarrow> starts_with (c # a) m"
    using starts_with_clean_cut [OF Cons.prems] assms(2) by auto
  then show ?case using Cons.IH [OF clean_cut_tl [OF Cons.prems]] assms(2)
    by (cases "str_find b m") (auto split: option.split)
qed

end
