(* ===== verification/Outbox_Core.thy ===== *)
theory Outbox_Core
  imports Prelude
begin

text \<open>
  \<^verbatim>\<open>crates/difflore-core/src/cloud/outbox_core.rs\<close>: the retry decision, the backoff and
  jitter arithmetic and the error truncation that the two upload queues share, and
  \<^verbatim>\<open>cloud/capture.rs\<close>, the kill switch both queues consult.

  A retry counter is an \<^typ>\<open>int\<close>: it grows by one per recorded failure, so leaving the
  64-bit range would take \<open>2 ^ 63\<close> failures of one row. The delays keep their saturation.
\<close>

section \<open>Retry decision\<close>

definition MAX_RETRY_COUNT :: int where "MAX_RETRY_COUNT = 8"

definition MAX_OBSERVATION_BATCH :: nat where "MAX_OBSERVATION_BATCH = 64"

datatype RetryDecision = Retry (next_count: int) | Abandon (next_count: int)

definition decide_retry :: "int \<Rightarrow> RetryDecision" where
  "decide_retry retry_count =
     (let next = retry_count + 1 in
      if next \<ge> MAX_RETRY_COUNT then Abandon next else Retry next)"

section \<open>Backoff and jitter\<close>

text \<open>\<^verbatim>\<open>1_i64.checked_shl(shift)\<close>.\<close>

definition checked_shl_one :: "nat \<Rightarrow> int option" where
  "checked_shl_one shift = (if shift < 64 then Some (wrap_i64 (2 ^ shift)) else None)"

definition backoff_delay_ms :: "int \<Rightarrow> int" where
  "backoff_delay_ms next =
     (let shift = nat (max 0 (min 5 next)) in
      sat_i64 (60000 * (case checked_shl_one shift of Some v \<Rightarrow> v | None \<Rightarrow> 32)))"

definition jitter_ms :: "int \<Rightarrow> int \<Rightarrow> int" where
  "jitter_ms base_ms seed =
     (let span = max 1 (sgn base_ms * (\<bar>base_ms\<bar> div 4)) in seed mod span)"

section \<open>Error text and the capture switch\<close>

definition truncate_str :: "ustr \<Rightarrow> nat \<Rightarrow> ustr" where
  "truncate_str s max_chars = (if length s \<le> max_chars then s else take max_chars s)"

text \<open>The argument is the value of \<^verbatim>\<open>DIFFLORE_CAPTURE\<close>, \<open>None\<close> when unset.\<close>

definition capture_enabled :: "ustr option \<Rightarrow> bool" where
  "capture_enabled v \<longleftrightarrow> v \<noteq> Some (lit ''false'')"

section \<open>Facts\<close>

lemma decide_retry_cases:
  "decide_retry rc = Retry n \<longleftrightarrow> n = rc + 1 \<and> n < MAX_RETRY_COUNT"
  "decide_retry rc = Abandon n \<longleftrightarrow> n = rc + 1 \<and> n \<ge> MAX_RETRY_COUNT"
  by (auto simp: decide_retry_def Let_def)

lemma length_truncate [simp]: "length (truncate_str s n) = min n (length s)"
  by (simp add: truncate_str_def)

lemma truncate_eq_take: "truncate_str s n = take n s"
  by (simp add: truncate_str_def)

text \<open>The run of decisions a row goes through when every one of its deliveries fails.\<close>

fun retry_run :: "nat \<Rightarrow> int \<Rightarrow> RetryDecision list" where
  "retry_run 0 rc = []"
| "retry_run (Suc k) rc =
     decide_retry rc # (case decide_retry rc of Retry n \<Rightarrow> retry_run k n | Abandon _ \<Rightarrow> [])"

lemma checked_shl_small: "n \<le> 5 \<Longrightarrow> checked_shl_one n = Some (2 ^ n)"
proof -
  assume "n \<le> 5"
  then have "n \<in> {0, 1, 2, 3, 4, 5}" by auto
  then show ?thesis by (auto simp: checked_shl_one_def wrap_i64_def i64_min_def)
qed

lemma backoff_closed_form: "backoff_delay_ms n = 60000 * 2 ^ nat (max 0 (min 5 n))"
proof -
  define k where "k = nat (max 0 (min 5 n))"
  have "k \<le> 5" by (simp add: k_def)
  then have "k \<in> {0, 1, 2, 3, 4, 5}" by auto
  then show ?thesis
    unfolding backoff_delay_ms_def Let_def k_def [symmetric] checked_shl_small [OF \<open>k \<le> 5\<close>]
    by (auto simp: sat_i64_def i64_min_def i64_max_def)
qed

lemma backoff_mono: "m \<le> n \<Longrightarrow> backoff_delay_ms m \<le> backoff_delay_ms n"
  unfolding backoff_closed_form by (intro mult_left_mono power_increasing) auto

lemma backoff_range: "60000 \<le> backoff_delay_ms n" "backoff_delay_ms n \<le> 1920000"
proof -
  have "(2::int) ^ nat (max 0 (min 5 n)) \<le> 2 ^ 5" by (intro power_increasing) auto
  then show "backoff_delay_ms n \<le> 1920000" by (simp add: backoff_closed_form)
  have "(1::int) \<le> 2 ^ nat (max 0 (min 5 n))" by simp
  then show "60000 \<le> backoff_delay_ms n" by (simp add: backoff_closed_form)
qed

lemma jitter_range: "0 \<le> jitter_ms b s" "jitter_ms b s < max 1 (sgn b * (\<bar>b\<bar> div 4))"
  by (simp_all add: jitter_ms_def Let_def)

text \<open>
  A row whose every delivery fails is retried seven times and abandoned at the eighth failure,
  however long one watches; every delay before a retry, jitter included, is at least a minute and
  less than 40 minutes, and a later retry never has a shorter base delay.
\<close>

theorem retry_schedule:
  "retry_run (8 + k) 0 = map Retry [1..7] @ [Abandon 8]
   \<and> 60000 \<le> backoff_delay_ms n + jitter_ms (backoff_delay_ms n) seed
   \<and> backoff_delay_ms n + jitter_ms (backoff_delay_ms n) seed < 2400000
   \<and> backoff_delay_ms n \<le> backoff_delay_ms (n + 1)"
proof (intro conjI)
  show "retry_run (8 + k) 0 = map Retry [1..7] @ [Abandon 8]"
    by (simp add: eval_nat_numeral decide_retry_def MAX_RETRY_COUNT_def upto.simps)
  have "jitter_ms (backoff_delay_ms n) seed < max 1 (backoff_delay_ms n div 4)"
    using jitter_range(2) [of "backoff_delay_ms n" seed] backoff_range(1) [of n] by simp
  then show "backoff_delay_ms n + jitter_ms (backoff_delay_ms n) seed < 2400000"
    using backoff_range [of n] by linarith
  show "60000 \<le> backoff_delay_ms n + jitter_ms (backoff_delay_ms n) seed"
    using jitter_range(1) [of "backoff_delay_ms n" seed] backoff_range(1) [of n] by linarith
qed (simp add: backoff_mono)

end
