(* ===== verification/Effects.thy ===== *)
theory Effects
  imports Prelude
begin

text \<open>
  Effects of the storage code as explicit state passing. A \<open>world\<close> holds the data of the
  component, the system clock as the sequence of its successive readings, and the outcome of
  every SQL statement (\<open>Some msg\<close>: the statement fails with that error text and changes
  nothing). A step returns \<open>Inl\<close> for an error that the source propagates with \<^verbatim>\<open>?\<close>.
  Properties hold for every clock and every pattern of failing statements.
\<close>

section \<open>Worlds and steps\<close>

record 'd world =
  db :: 'd
  clock :: "nat \<Rightarrow> int"
  clock_reads :: nat
  sql_fault :: "nat \<Rightarrow> ustr option"
  sql_calls :: nat

type_synonym ('d, 'a) io = "'d world \<Rightarrow> (ustr + 'a) \<times> 'd world"

definition ret :: "'a \<Rightarrow> ('d, 'a) io" where
  "ret a w = (Inr a, w)"

definition fail :: "ustr \<Rightarrow> ('d, 'a) io" where
  "fail e w = (Inl e, w)"

definition andthen :: "('d, 'a) io \<Rightarrow> ('a \<Rightarrow> ('d, 'b) io) \<Rightarrow> ('d, 'b) io" where
  "andthen m f w = (case m w of (Inl e, w') \<Rightarrow> (Inl e, w') | (Inr a, w') \<Rightarrow> f a w')"

text \<open>\<^verbatim>\<open>match m { Ok(a) => .., Err(e) => .. }\<close>: the error becomes a value.\<close>

definition attempt :: "('d, 'a) io \<Rightarrow> ('d, ustr + 'a) io" where
  "attempt m w = (case m w of (r, w') \<Rightarrow> (Inr r, w'))"

definition get :: "('d \<Rightarrow> 'a) \<Rightarrow> ('d, 'a) io" where
  "get f w = (Inr (f (db w)), w)"

definition modify :: "('d \<Rightarrow> 'd) \<Rightarrow> ('d, unit) io" where
  "modify f w = (Inr (), w\<lparr>db := f (db w)\<rparr>)"

text \<open>One SQL statement: all of its effect or none.\<close>

definition sql :: "('d \<Rightarrow> 'a \<times> 'd) \<Rightarrow> ('d, 'a) io" where
  "sql f w =
     (let w' = w\<lparr>sql_calls := Suc (sql_calls w)\<rparr> in
      case sql_fault w (sql_calls w) of
        Some e \<Rightarrow> (Inl e, w')
      | None \<Rightarrow> (let (a, d) = f (db w) in (Inr a, w'\<lparr>db := d\<rparr>)))"

text \<open>
  \<^verbatim>\<open>now_unix_ms\<close>: milliseconds since the epoch, 0 before it, saturated at the top.
\<close>

definition now_unix_ms :: "('d, int) io" where
  "now_unix_ms w =
     (Inr (max 0 (min i64_max (clock w (clock_reads w)))), w\<lparr>clock_reads := Suc (clock_reads w)\<rparr>)"

text \<open>\<^verbatim>\<open>chrono::Utc::now().timestamp_millis()\<close>: the same clock, not clamped.\<close>

definition utc_now_millis :: "('d, int) io" where
  "utc_now_millis w = (Inr (clock w (clock_reads w)), w\<lparr>clock_reads := Suc (clock_reads w)\<rparr>)"

text \<open>A step whose result is dropped; its error is not.\<close>

definition skip_result :: "('d, 'a) io \<Rightarrow> ('d, 'b) io \<Rightarrow> ('d, 'b) io" where
  "skip_result m n = andthen m (\<lambda>_. n)"

text \<open>A statement that reads the clock.\<close>

definition sql_now :: "(int \<Rightarrow> 'd \<Rightarrow> 'a \<times> 'd) \<Rightarrow> ('d, 'a) io" where
  "sql_now f = andthen utc_now_millis (\<lambda>now. sql (f now))"

text \<open>
  A transaction: begin, the statements of \<open>m\<close>, then a commit, or a rollback where \<open>m\<close> asks for one
  with \<^const>\<open>None\<close>. An error before the commit drops the transaction, which rolls it back.
\<close>

definition nothing_stmt :: "'d \<Rightarrow> unit \<times> 'd" where
  "nothing_stmt d = ((), d)"

definition transaction :: "('d, 'a option) io \<Rightarrow> ('d, 'a option) io" where
  "transaction m w =
     (case andthen (sql nothing_stmt) (\<lambda>_. m) w of
        (Inl e, w1) \<Rightarrow> (Inl e, w1\<lparr>db := db w\<rparr>)
      | (Inr r, w1) \<Rightarrow>
          (case sql nothing_stmt w1 of
             (Inl e, w2) \<Rightarrow> (Inl e, w2\<lparr>db := db w\<rparr>)
           | (Inr _, w2) \<Rightarrow> (Inr r, if r = None then w2\<lparr>db := db w\<rparr> else w2)))"

section \<open>What a step keeps\<close>

text \<open>\<open>keeps I m\<close>: the step \<open>m\<close> leaves the data in \<open>I\<close>, whether it fails or not.\<close>

definition keeps :: "('d \<Rightarrow> bool) \<Rightarrow> ('d, 'a) io \<Rightarrow> bool" where
  "keeps I m \<longleftrightarrow> (\<forall>w. I (db w) \<longrightarrow> I (db (snd (m w))))"

lemma keepsD: "keeps I m \<Longrightarrow> I (db w) \<Longrightarrow> I (db (snd (m w)))"
  by (simp add: keeps_def)

lemma keeps_ret [io_intros]: "keeps I (ret a)"
  by (simp add: keeps_def ret_def)

lemma keeps_fail [io_intros]: "keeps I (fail e)"
  by (simp add: keeps_def fail_def)

lemma keeps_andthen [io_intros]:
  fixes m :: "('d, 'a) io"
  assumes "keeps I m" and "\<And>a. keeps I (f a)"
  shows "keeps I (andthen m f)"
  unfolding keeps_def
proof (intro allI impI)
  fix w :: "'d world" assume "I (db w)"
  then have *: "I (db (snd (m w)))" by (rule keepsD [OF assms(1)])
  show "I (db (snd (andthen m f w)))"
  proof (cases "m w")
    case (Pair r w')
    with * have "I (db w')" by simp
    then show ?thesis
      using Pair keepsD [OF assms(2), of w'] by (cases r) (simp_all add: andthen_def)
  qed
qed

lemma keeps_attempt [io_intros]: "keeps I m \<Longrightarrow> keeps I (attempt m)"
  by (simp add: keeps_def attempt_def split: prod.splits) (metis snd_conv)

lemma keeps_get [io_intros]: "keeps I (get f)"
  by (simp add: keeps_def get_def)

lemma keeps_modify [io_intros]: "(\<And>d. I d \<Longrightarrow> I (f d)) \<Longrightarrow> keeps I (modify f)"
  by (simp add: keeps_def modify_def)

lemma keeps_sql [io_intros]:
  assumes "\<And>d. I d \<Longrightarrow> I (snd (f d))"
  shows "keeps I (sql f)"
  using assms by (auto simp: keeps_def sql_def Let_def split: option.splits prod.splits)
    (metis snd_conv)

text \<open>The rest of a step may rely on the invariant of the state a statement read.\<close>

lemma keeps_sql_andthen:
  fixes f :: "'d \<Rightarrow> 'a \<times> 'd" and g :: "'a \<Rightarrow> ('d, 'b) io"
  assumes "\<And>d. I d \<Longrightarrow> I (snd (f d)) \<and> keeps I (g (fst (f d)))"
  shows "keeps I (andthen (sql f) g)"
  unfolding keeps_def
proof (intro allI impI)
  fix w :: "'d world" assume I: "I (db w)"
  obtain a d where f: "f (db w) = (a, d)" by fastforce
  with assms [OF I] have "I d" and g: "keeps I (g a)" by auto
  then show "I (db (snd (andthen (sql f) g w)))"
    using I f by (auto simp: andthen_def sql_def Let_def split: option.splits intro: keepsD)
qed

lemma keeps_nothing_stmt: "I d \<Longrightarrow> I (snd (nothing_stmt d))"
  by (simp add: nothing_stmt_def)

lemma keeps_skip_result [io_intros]: "keeps I m \<Longrightarrow> keeps I n \<Longrightarrow> keeps I (skip_result m n)"
  by (simp add: skip_result_def keeps_andthen)

lemma keeps_transaction [io_intros]:
  assumes "keeps I m"
  shows "keeps I (transaction m)"
  unfolding keeps_def
proof (intro allI impI)
  fix w :: "'a world" assume I: "I (db w)"
  have m: "keeps I (andthen (sql nothing_stmt) (\<lambda>_. m))"
    by (intro io_intros assms) (simp add: nothing_stmt_def)
  obtain r w1 where r: "andthen (sql nothing_stmt) (\<lambda>_. m) w = (r, w1)" by fastforce
  with keepsD [OF m I] have I1: "I (db w1)" by simp
  obtain r2 w2 where r2: "sql nothing_stmt w1 = (r2, w2)" by fastforce
  have "db w2 = db w1"
    using r2 by (auto simp: sql_def nothing_stmt_def Let_def split: option.splits)
  then show "I (db (snd (transaction m w)))"
    using I I1 r r2 by (auto simp: transaction_def split: sum.splits)
qed

lemma keeps_now [io_intros]: "keeps I now_unix_ms"
  by (simp add: keeps_def now_unix_ms_def)

lemma keeps_utc_now [io_intros]: "keeps I utc_now_millis"
  by (simp add: keeps_def utc_now_millis_def)

lemma keeps_if [io_intros]: "keeps I m \<Longrightarrow> keeps I n \<Longrightarrow> keeps I (if b then m else n)"
  by simp

lemma keeps_option [io_intros]:
  "keeps I m \<Longrightarrow> (\<And>a. keeps I (f a)) \<Longrightarrow> keeps I (case x of None \<Rightarrow> m | Some a \<Rightarrow> f a)"
  by (cases x) auto

lemma keeps_sum [io_intros]:
  "(\<And>a. keeps I (f a)) \<Longrightarrow> (\<And>b. keeps I (g b)) \<Longrightarrow> keeps I (case x of Inl a \<Rightarrow> f a | Inr b \<Rightarrow> g b)"
  by (cases x) auto

section \<open>What a step establishes\<close>

text \<open>
  \<open>post m w Q\<close>: the step \<open>m\<close>, run in \<open>w\<close>, ends in \<open>Q\<close> of its result and the new state.
  Steps are total, so this is total correctness.
\<close>

definition post :: "('d, 'a) io \<Rightarrow> 'd world \<Rightarrow> (ustr + 'a \<Rightarrow> 'd world \<Rightarrow> bool) \<Rightarrow> bool" where
  "post m w Q \<longleftrightarrow> Q (fst (m w)) (snd (m w))"

lemma postD: "post m w Q \<Longrightarrow> m w = (r, w') \<Longrightarrow> Q r w'"
  by (simp add: post_def)

lemma post_mono: "post m w P \<Longrightarrow> (\<And>r w'. P r w' \<Longrightarrow> Q r w') \<Longrightarrow> post m w Q"
  by (simp add: post_def)

lemma post_ret [simp]: "post (ret a) w Q \<longleftrightarrow> Q (Inr a) w"
  by (simp add: post_def ret_def)

lemma post_andthen:
  "post (andthen m f) w Q \<longleftrightarrow>
     post m w (\<lambda>r w1. case r of Inl e \<Rightarrow> Q (Inl e) w1 | Inr a \<Rightarrow> post (f a) w1 Q)"
  by (auto simp: post_def andthen_def split: prod.splits sum.splits)

lemma post_attempt: "post (attempt m) w Q \<longleftrightarrow> post m w (\<lambda>r w'. Q (Inr r) w')"
  by (auto simp: post_def attempt_def split: prod.splits)

lemma post_get [simp]: "post (get f) w Q \<longleftrightarrow> Q (Inr (f (db w))) w"
  by (simp add: post_def get_def)

lemma post_modify [simp]: "post (modify f) w Q \<longleftrightarrow> Q (Inr ()) (w\<lparr>db := f (db w)\<rparr>)"
  by (simp add: post_def modify_def)

lemma post_sqlI:
  assumes "\<And>e. Q (Inl e) (w\<lparr>sql_calls := Suc (sql_calls w)\<rparr>)"
    and "Q (Inr (fst (f (db w)))) (w\<lparr>sql_calls := Suc (sql_calls w), db := snd (f (db w))\<rparr>)"
  shows "post (sql f) w Q"
  using assms by (auto simp: post_def sql_def Let_def split: option.splits prod.splits)

text \<open>A step whose every part leaves a view of the data alone leaves it alone.\<close>

definition stable :: "('d \<Rightarrow> 'v) \<Rightarrow> ('d, 'a) io \<Rightarrow> bool" where
  "stable f m \<longleftrightarrow> (\<forall>w. f (db (snd (m w))) = f (db w))"

lemma stable_iff_keeps: "stable f m \<longleftrightarrow> (\<forall>v. keeps (\<lambda>d. f d = v) m)"
  by (auto simp: stable_def keeps_def)

lemma stable_post: "stable f m \<Longrightarrow> post m w (\<lambda>r w'. f (db w') = f (db w))"
  by (simp add: stable_def post_def)

lemma andthen_ret [simp]: "andthen (ret a) f = f a"
  by (rule ext) (simp add: andthen_def ret_def)

lemma andthen_InrE:
  assumes "andthen m f w = (Inr b, w')"
  obtains a w1 where "m w = (Inr a, w1)" and "f a w1 = (Inr b, w')"
  using assms by (auto simp: andthen_def split: prod.splits sum.splits)

lemma andthen_Inl: "m w = (Inl e, w1) \<Longrightarrow> andthen m f w = (Inl e, w1)"
  by (simp add: andthen_def)

lemma andthen_Inr: "m w = (Inr a, w1) \<Longrightarrow> andthen m f w = f a w1"
  by (simp add: andthen_def)

lemmas step_defs = andthen_def ret_def fail_def get_def modify_def attempt_def

text \<open>The value the \<open>i\<close>-th reading of the clock gives \<^const>\<open>now_unix_ms\<close>.\<close>

definition clock_ms :: "'d world \<Rightarrow> nat \<Rightarrow> int" where
  "clock_ms w i = max 0 (min i64_max (clock w i))"

lemma now_unix_ms_eq:
  "now_unix_ms w = (Inr (clock_ms w (clock_reads w)), w\<lparr>clock_reads := Suc (clock_reads w)\<rparr>)"
  by (simp add: now_unix_ms_def clock_ms_def)

lemma clock_ms_frame [simp]:
  "clock_ms (w\<lparr>db := d\<rparr>) = clock_ms w"
  "clock_ms (w\<lparr>clock_reads := n\<rparr>) = clock_ms w"
  "clock_ms (w\<lparr>sql_calls := n\<rparr>) = clock_ms w"
  by (simp_all add: clock_ms_def fun_eq_iff)

lemma clock_ms_range: "0 \<le> clock_ms w i" "clock_ms w i \<le> i64_max"
  by (simp_all add: clock_ms_def i64_max_def)

lemma sql_ok_eq:
  "sql_fault w (sql_calls w) = None \<Longrightarrow> sql f w =
     (Inr (fst (f (db w))), w\<lparr>sql_calls := Suc (sql_calls w), db := snd (f (db w))\<rparr>)"
  by (simp add: sql_def Let_def split: prod.splits)

lemma sql_InrD:
  "sql f w = (Inr a, w') \<Longrightarrow> fst (f (db w)) = a
     \<and> w' = w\<lparr>sql_calls := Suc (sql_calls w), db := snd (f (db w))\<rparr>"
  by (auto simp: sql_def Let_def split: option.splits prod.splits)

text \<open>Reading the clock only moves to its next reading.\<close>

lemma now_unix_ms_range:
  "now_unix_ms w = (r, w') \<Longrightarrow> \<exists>t. r = Inr t \<and> 0 \<le> t \<and> t \<le> i64_max \<and> db w' = db w"
  by (auto simp: now_unix_ms_def i64_max_def)

section \<open>What a step does to the data\<close>

text \<open>
  \<open>ends_in m d Q\<close>: from data \<open>d\<close>, whatever the clock shows and whichever statements fail, \<open>m\<close> ends with
  a result and data in \<open>Q\<close>.
\<close>

named_theorems ends_intros \<open>rules for the outcome of a step\<close>

definition ends_in :: "('d, 'a) io \<Rightarrow> 'd \<Rightarrow> (ustr + 'a \<Rightarrow> 'd \<Rightarrow> bool) \<Rightarrow> bool" where
  "ends_in m d Q \<longleftrightarrow> (\<forall>w. db w = d \<longrightarrow> Q (fst (m w)) (db (snd (m w))))"

lemma endsD: "ends_in m (db w) Q \<Longrightarrow> m w = (r, w') \<Longrightarrow> Q r (db w')"
  by (auto simp: ends_in_def)

lemma ends_mono: "ends_in m d P \<Longrightarrow> (\<And>r d'. P r d' \<Longrightarrow> Q r d') \<Longrightarrow> ends_in m d Q"
  by (simp add: ends_in_def)

lemma ends_ret [ends_intros]: "Q (Inr a) d \<Longrightarrow> ends_in (ret a) d Q"
  by (simp add: ends_in_def ret_def)

lemma ends_fail [ends_intros]: "Q (Inl e) d \<Longrightarrow> ends_in (fail e) d Q"
  by (simp add: ends_in_def fail_def)

lemma ends_andthen [ends_intros]:
  assumes "ends_in m d (\<lambda>r d'. case r of Inl e \<Rightarrow> Q (Inl e) d' | Inr a \<Rightarrow> ends_in (f a) d' Q)"
  shows "ends_in (andthen m f) d Q"
  unfolding ends_in_def
proof (intro allI impI)
  fix w :: "'a world" assume w: "db w = d"
  obtain r w1 where m: "m w = (r, w1)" by fastforce
  from endsD [OF assms [folded w] m] show "Q (fst (andthen m f w)) (db (snd (andthen m f w)))"
    using m by (cases r) (auto simp: andthen_def ends_in_def)
qed

lemma ends_skip_result [ends_intros]:
  "ends_in m d (\<lambda>r d'. case r of Inl e \<Rightarrow> Q (Inl e) d' | Inr a \<Rightarrow> ends_in n d' Q) \<Longrightarrow> ends_in (skip_result m n) d Q"
  by (simp add: skip_result_def ends_andthen)

lemma ends_sql [ends_intros]:
  "(\<And>e. Q (Inl e) d) \<Longrightarrow> Q (Inr (fst (f d))) (snd (f d)) \<Longrightarrow> ends_in (sql f) d Q"
  by (auto simp: ends_in_def sql_def Let_def split: option.splits prod.splits)

lemma ends_sql_now [ends_intros]:
  "(\<And>e. Q (Inl e) d) \<Longrightarrow> (\<And>now. Q (Inr (fst (f now d))) (snd (f now d))) \<Longrightarrow> ends_in (sql_now f) d Q"
  by (auto simp: ends_in_def sql_now_def andthen_def utc_now_millis_def sql_def Let_def split: option.splits prod.splits)
    (metis fst_conv snd_conv)

lemma ends_transaction [ends_intros]:
  assumes "\<And>e. Q (Inl e) d"
    and "ends_in m d (\<lambda>r d'. case r of Inl e \<Rightarrow> True | Inr None \<Rightarrow> Q (Inr None) d | Inr (Some a) \<Rightarrow> Q (Inr (Some a)) d')"
  shows "ends_in (transaction m) d Q"
  unfolding ends_in_def
proof (intro allI impI)
  fix w :: "'b world" assume w: "db w = d"
  obtain r w1 where begin_m: "andthen (sql nothing_stmt) (\<lambda>_. m) w = (r, w1)" by fastforce
  have "ends_in (andthen (sql nothing_stmt) (\<lambda>_. m)) d
      (\<lambda>r d'. case r of Inl e \<Rightarrow> True | Inr None \<Rightarrow> Q (Inr None) d | Inr (Some a) \<Rightarrow> Q (Inr (Some a)) d')"
    by (rule ends_andthen, rule ends_sql) (use assms(2) in \<open>simp_all add: nothing_stmt_def\<close>)
  from endsD [OF this [folded w] begin_m]
  have r: "case r of Inl e \<Rightarrow> True | Inr None \<Rightarrow> Q (Inr None) d | Inr (Some a) \<Rightarrow> Q (Inr (Some a)) (db w1)"
    unfolding w .
  obtain r2 w2 where commit: "sql nothing_stmt w1 = (r2, w2)" by fastforce
  have "db w2 = db w1"
    using commit by (auto simp: sql_def nothing_stmt_def Let_def split: option.splits)
  then show "Q (fst (transaction m w)) (db (snd (transaction m w)))"
    using r begin_m commit assms(1) w by (auto simp: transaction_def split: sum.splits option.splits)
qed

section \<open>Loops over a list\<close>

fun for_each :: "('a \<Rightarrow> ('d, unit) io) \<Rightarrow> 'a list \<Rightarrow> ('d, unit) io" where
  "for_each f [] = ret ()"
| "for_each f (x # xs) = andthen (f x) (\<lambda>_. for_each f xs)"

text \<open>A relation to the data at the start that every round keeps holds at the end, and after an error.\<close>

lemma ends_for_each:
  assumes "\<And>x d. x \<in> set xs \<Longrightarrow> I d \<Longrightarrow> ends_in (f x) d (\<lambda>r d'. I d')" and "I d"
  shows "ends_in (for_each f xs) d (\<lambda>r d'. I d')"
  using assms
proof (induction xs arbitrary: d)
  case (Cons x xs)
  have "ends_in (for_each f xs) d' (\<lambda>r d'. I d')" if "I d'" for d'
    using Cons.IH [OF Cons.prems(1) that] by simp
  moreover have "ends_in (f x) d (\<lambda>r d'. I d')" using Cons.prems by simp
  ultimately show ?case
    by (auto intro!: ends_andthen elim!: ends_mono split: sum.splits)
qed (simp add: ends_ret)

text \<open>An invariant of the data through a sequence.\<close>

lemma ends_inv_andthen:
  assumes "ends_in m d (\<lambda>r d'. I d')" "\<And>a d'. I d' \<Longrightarrow> ends_in (f a) d' (\<lambda>r d'. I d')"
  shows "ends_in (andthen m f) d (\<lambda>r d'. I d')"
  by (rule ends_andthen, rule ends_mono [OF assms(1)]) (auto intro: assms(2) split: sum.splits)

lemma ends_inv_skip:
  assumes "ends_in m d (\<lambda>r d'. I d')" "\<And>d'. I d' \<Longrightarrow> ends_in n d' (\<lambda>r d'. I d')"
  shows "ends_in (skip_result m n) d (\<lambda>r d'. I d')"
  unfolding skip_result_def by (rule ends_inv_andthen) (rule assms, simp add: assms)

end
