(* ===== verification/Receipts.thy ===== *)
theory Receipts
  imports Effects
begin

text \<open>
  \<^verbatim>\<open>crates/difflore-core/src/cloud/accepted_edit_receipts.rs\<close> with the request and response
  types of \<^verbatim>\<open>contract/dto.rs\<close>: the local receipts of accepted edits, their idempotent
  insertion and the attribution summary over them. SHA-256 (as lower-case hex of the text fed
  to the hasher) and the JSON coding of a string list come from other crates: they are the
  parameters \<open>sha256_hex\<close> and \<open>string_list_json\<close>.
\<close>

section \<open>Data\<close>

record RecordAcceptedEditRequest =
  before_code :: ustr
  after_code :: ustr
  rq_file_path :: "ustr option"
  rq_repo_full_name :: "ustr option"
  rq_target_pr_number :: "int option"
  rq_language :: "ustr option"
  rq_acceptance_source :: "ustr option"
  rq_client :: "ustr option"
  rq_diff_signature :: "ustr option"
  rq_rule_ids :: "ustr list"

record RecordAcceptedEditResponse =
  rs_ok :: bool
  acceptance_recorded :: bool
  acceptance_id :: "ustr option"
  rs_diff_signature :: "ustr option"
  rs_team_id :: "ustr option"
  attributed_rule_ids :: "ustr list"
  rs_observations_inserted :: nat
  launch_grade_provenance_trusted :: bool
  launch_grade_paid_value_ready :: bool
  memory_reinforcement_recorded :: bool
  memory_reinforcement_deduped :: bool
  rs_error :: "ustr option"

record AcceptedEditReceiptInsert =
  cloud_acceptance_id :: "ustr option"
  receipt_key :: ustr
  repo_full_name :: "ustr option"
  target_pr_number :: "int option"
  receipt_file_path :: "ustr option"
  diff_signature :: ustr
  receipt_rule_ids :: "ustr list"
  acceptance_source :: ustr
  receipt_client :: "ustr option"
  team_id :: "ustr option"
  observations_inserted :: nat
  launch_grade :: bool

text \<open>A stored row: the inserted values with the identifiers encoded, and its timestamps.\<close>

record receipt_row =
  stored :: AcceptedEditReceiptInsert
  rule_ids_json :: ustr
  receipt_created_at :: int
  receipt_uploaded_at :: int

record receipts_db =
  receipts :: "receipt_row list"

record string_list_json =
  encode_strings :: "ustr list \<Rightarrow> ustr option"
  decode_strings :: "ustr \<Rightarrow> ustr list option"

section \<open>Signatures and keys\<close>

definition accepted_edit_diff_signature :: "(ustr \<Rightarrow> ustr) \<Rightarrow> ustr \<Rightarrow> ustr \<Rightarrow> ustr" where
  "accepted_edit_diff_signature sha256_hex before after =
     sha256_hex (before @ [newline] @ lit ''---'' @ [newline] @ after)"

definition opt_str :: "ustr option \<Rightarrow> ustr" where
  "opt_str v = (case v of None \<Rightarrow> [] | Some s \<Rightarrow> s)"

definition show_int :: "int \<Rightarrow> ustr" where
  "show_int n = (if n < 0 then 45 # show_nat (nat (- n)) else show_nat (nat n))"

definition local_receipt_key :: "(ustr \<Rightarrow> ustr) \<Rightarrow> RecordAcceptedEditRequest \<Rightarrow> ustr \<Rightarrow> ustr" where
  "local_receipt_key sha256_hex rq sig =
     lit ''accepted-edit-'' @ sha256_hex (
       lit ''accepted-edit-receipt-v1'' @ [newline]
       @ sig @ [newline]
       @ opt_str (rq_repo_full_name rq) @ [newline]
       @ (case rq_target_pr_number rq of None \<Rightarrow> [] | Some n \<Rightarrow> show_int n) @ [newline]
       @ opt_str (rq_file_path rq) @ [newline]
       @ opt_str (rq_acceptance_source rq) @ [newline]
       @ opt_str (rq_client rq)
       @ concat (map (\<lambda>r. newline # lit ''rule:'' @ trim r) (rq_rule_ids rq)))"

definition receipt_from_accepted_edit_response ::
  "(ustr \<Rightarrow> ustr) \<Rightarrow> RecordAcceptedEditRequest \<Rightarrow> RecordAcceptedEditResponse
    \<Rightarrow> AcceptedEditReceiptInsert option" where
  "receipt_from_accepted_edit_response sha256_hex rq rs =
     (if \<not> acceptance_recorded rs then None
      else let sig = (case rs_diff_signature rs of Some s \<Rightarrow> s
                 | None \<Rightarrow> (case rq_diff_signature rq of Some s \<Rightarrow> s
                     | None \<Rightarrow> accepted_edit_diff_signature sha256_hex (before_code rq) (after_code rq)));
               ids = (if attributed_rule_ids rs = [] then rq_rule_ids rq else attributed_rule_ids rs)
           in Some \<lparr>cloud_acceptance_id = acceptance_id rs,
                receipt_key = local_receipt_key sha256_hex rq sig,
                repo_full_name = rq_repo_full_name rq,
                target_pr_number = rq_target_pr_number rq,
                receipt_file_path = rq_file_path rq,
                diff_signature = sig,
                receipt_rule_ids = ids,
                acceptance_source = (case rq_acceptance_source rq of Some s \<Rightarrow> s | None \<Rightarrow> lit ''unknown''),
                receipt_client = rq_client rq,
                team_id = rs_team_id rs,
                observations_inserted = rs_observations_inserted rs,
                launch_grade = launch_grade_paid_value_ready rs\<rparr>)"

definition normalize_repo :: "ustr \<Rightarrow> ustr option" where
  "normalize_repo repo =
     (let r = to_ascii_lowercase (trim_end_matches_str (lit ''.git'') (trim repo)) in
      if r \<noteq> [] then Some r else None)"

definition normalize_optional_repo :: "ustr option \<Rightarrow> ustr option" where
  "normalize_optional_repo repo = Option.bind repo normalize_repo"

definition normalized_repo_set :: "ustr list \<Rightarrow> ustr list" where
  "normalized_repo_set repos = List.map_filter normalize_repo repos"

text \<open>A string that is not ASCII is longer in bytes than in scalar values and has no such byte.\<close>

definition looks_like_uuid :: "ustr \<Rightarrow> bool" where
  "looks_like_uuid v \<longleftrightarrow> utf8_len v = 36 \<and> length v = 36
     \<and> list_all (\<lambda>(i, c). if i \<in> {8, 13, 18, 23} then c = 45 else is_ascii_hexdigit c)
         (zip [0..<36] v)"

section \<open>Insertion\<close>

text \<open>
  \<^verbatim>\<open>INSERT OR IGNORE\<close> against the two unique indexes of the table: the local key, and the
  cloud identifier where it is neither null nor empty.
\<close>

definition receipt_conflicts :: "AcceptedEditReceiptInsert \<Rightarrow> AcceptedEditReceiptInsert \<Rightarrow> bool" where
  "receipt_conflicts a b \<longleftrightarrow> receipt_key a = receipt_key b
     \<or> (cloud_acceptance_id a = cloud_acceptance_id b
        \<and> cloud_acceptance_id a \<noteq> None \<and> cloud_acceptance_id a \<noteq> Some [])"

definition insert_receipt_stmt :: "receipt_row \<Rightarrow> receipt_row list \<Rightarrow> receipt_row list" where
  "insert_receipt_stmt r rs =
     (if list_ex (\<lambda>x. receipt_conflicts (stored x) (stored r)) rs then rs else rs @ [r])"

definition record_confirmed ::
  "string_list_json \<Rightarrow> AcceptedEditReceiptInsert \<Rightarrow> ('a receipts_db_scheme, unit) io" where
  "record_confirmed S rc =
     andthen utc_now_millis (\<lambda>now.
       sql (\<lambda>d. ((), d\<lparr>receipts := insert_receipt_stmt
         \<lparr>stored = rc\<lparr>repo_full_name := normalize_optional_repo (repo_full_name rc)\<rparr>,
          rule_ids_json = (case encode_strings S (receipt_rule_ids rc) of
             Some j \<Rightarrow> j | None \<Rightarrow> lit ''[]''),
          receipt_created_at = now, receipt_uploaded_at = now\<rparr> (receipts d)\<rparr>)))"

section \<open>Summary\<close>

record AcceptedEditReceiptSummary =
  rows_last30 :: nat
  rows_for_current_repo :: nat
  rows_without_repo :: nat
  rows_missing_rule_ids :: nat
  rows_missing_rule_ids_for_current_repo :: nat
  rows_with_cloud_rule_ids :: nat
  rows_with_cloud_rule_ids_for_current_repo :: nat
  rows_with_local_rule_ids :: nat
  rows_with_local_rule_ids_for_current_repo :: nat
  launch_grade_rows :: nat
  launch_grade_rows_for_current_repo :: nat

definition empty_summary :: AcceptedEditReceiptSummary where
  "empty_summary = \<lparr>rows_last30 = 0, rows_for_current_repo = 0, rows_without_repo = 0,
     rows_missing_rule_ids = 0, rows_missing_rule_ids_for_current_repo = 0,
     rows_with_cloud_rule_ids = 0, rows_with_cloud_rule_ids_for_current_repo = 0,
     rows_with_local_rule_ids = 0, rows_with_local_rule_ids_for_current_repo = 0,
     launch_grade_rows = 0, launch_grade_rows_for_current_repo = 0\<rparr>"

text \<open>The body of the loop over the selected rows.\<close>

definition summary_step ::
  "string_list_json \<Rightarrow> ustr list \<Rightarrow> receipt_row \<Rightarrow> AcceptedEditReceiptSummary \<Rightarrow> AcceptedEditReceiptSummary" where
  "summary_step S repo_set row s0 =
     (let s1 = s0\<lparr>rows_last30 := rows_last30 s0 + 1\<rparr>;
          repo = Option.bind (repo_full_name (stored row)) normalize_repo;
          (matches, s2) = (case repo of
             Some r \<Rightarrow> if r \<in> set repo_set
               then (True, s1\<lparr>rows_for_current_repo := rows_for_current_repo s1 + 1\<rparr>)
               else (False, s1)
           | None \<Rightarrow> (False, s1\<lparr>rows_without_repo := rows_without_repo s1 + 1\<rparr>));
          m = (if matches then 1 else 0);
          ids = filter (\<lambda>i. i \<noteq> []) (map trim
             (case decode_strings S (rule_ids_json row) of Some l \<Rightarrow> l | None \<Rightarrow> []));
          s3 = (if ids = [] then s2\<lparr>rows_missing_rule_ids := rows_missing_rule_ids s2 + 1,
                    rows_missing_rule_ids_for_current_repo := rows_missing_rule_ids_for_current_repo s2 + m\<rparr>
                else if list_all looks_like_uuid ids then
                  s2\<lparr>rows_with_cloud_rule_ids := rows_with_cloud_rule_ids s2 + 1,
                    rows_with_cloud_rule_ids_for_current_repo := rows_with_cloud_rule_ids_for_current_repo s2 + m\<rparr>
                else s2\<lparr>rows_with_local_rule_ids := rows_with_local_rule_ids s2 + 1,
                    rows_with_local_rule_ids_for_current_repo := rows_with_local_rule_ids_for_current_repo s2 + m\<rparr>)
      in if launch_grade (stored row) then
           s3\<lparr>launch_grade_rows := launch_grade_rows s3 + 1,
             launch_grade_rows_for_current_repo := launch_grade_rows_for_current_repo s3 + m\<rparr>
         else s3)"

definition summary_for_repos ::
  "string_list_json \<Rightarrow> ustr list \<Rightarrow> int \<Rightarrow> ('a receipts_db_scheme, AcceptedEditReceiptSummary) io" where
  "summary_for_repos S normalized_repos window_days =
     andthen utc_now_millis (\<lambda>now.
       let cutoff_ms = sat_i64 (now - wrap_i64 (max 1 window_days * 24 * 60 * 60 * 1000));
           repo_set = normalized_repo_set normalized_repos in
       andthen (sql (\<lambda>d. (filter (\<lambda>r. receipt_uploaded_at r \<ge> cutoff_ms) (receipts d), d))) (\<lambda>rows.
         ret (fold (summary_step S repo_set) rows empty_summary)))"

section \<open>Properties\<close>

lemma receipt_conflicts_refl [simp]: "receipt_conflicts a a"
  by (simp add: receipt_conflicts_def)

text \<open>No two stored receipts share a local key or a cloud identifier.\<close>

fun receipts_distinct :: "receipt_row list \<Rightarrow> bool" where
  "receipts_distinct [] = True"
| "receipts_distinct (r # rs) =
     (list_all (\<lambda>x. \<not> receipt_conflicts (stored r) (stored x)) rs \<and> receipts_distinct rs)"

lemma receipts_distinct_snoc:
  "receipts_distinct (rs @ [r]) \<longleftrightarrow>
     receipts_distinct rs \<and> list_all (\<lambda>x. \<not> receipt_conflicts (stored x) (stored r)) rs"
  by (induction rs) auto

lemma insert_receipt_distinct: "receipts_distinct rs \<Longrightarrow> receipts_distinct (insert_receipt_stmt r rs)"
  by (auto simp: insert_receipt_stmt_def receipts_distinct_snoc list_all_iff list_ex_iff)

lemma insert_receipt_same:
  "stored r' = stored r \<Longrightarrow> insert_receipt_stmt r' (insert_receipt_stmt r rs) = insert_receipt_stmt r rs"
  by (auto simp: insert_receipt_stmt_def list_ex_iff)

text \<open>
  Recording a receipt is idempotent: recording the same confirmed edit a second time, at any
  later moment, leaves the table as it is, and no two rows ever agree on the local key or on a
  cloud identifier.
\<close>

theorem record_confirmed_idempotent:
  assumes "receipts_distinct (receipts (db w))" and "record_confirmed S rc w = (Inr (), w1)"
  shows "receipts_distinct (receipts (db w1))
    \<and> (\<exists>row \<in> set (receipts (db w1)).
         receipt_conflicts (stored row) (rc\<lparr>repo_full_name := normalize_optional_repo (repo_full_name rc)\<rparr>))
    \<and> receipts (db (snd (record_confirmed S rc w1))) = receipts (db w1)"
proof -
  define row where "row = \<lparr>stored = rc\<lparr>repo_full_name := normalize_optional_repo (repo_full_name rc)\<rparr>,
     rule_ids_json = (case encode_strings S (receipt_rule_ids rc) of Some j \<Rightarrow> j | None \<Rightarrow> lit ''[]''),
     receipt_created_at = clock w (clock_reads w), receipt_uploaded_at = clock w (clock_reads w)\<rparr>"
  then have row: "stored row = rc\<lparr>repo_full_name := normalize_optional_repo (repo_full_name rc)\<rparr>"
    "receipts (db w1) = insert_receipt_stmt row (receipts (db w))"
    using assms(2) by (auto simp: record_confirmed_def andthen_def utc_now_millis_def sql_def Let_def
        split: option.splits)
  have "receipts (db (snd (record_confirmed S rc w1))) = receipts (db w1)"
    by (auto simp: record_confirmed_def andthen_def utc_now_millis_def sql_def Let_def row(2)
        insert_receipt_same row(1) split: option.splits)
  moreover have "\<exists>x \<in> set (insert_receipt_stmt row (receipts (db w))). receipt_conflicts (stored x) (stored row)"
    by (auto simp: insert_receipt_stmt_def list_ex_iff)
  ultimately show ?thesis using insert_receipt_distinct [OF assms(1)] by (simp add: row)
qed

definition demo_receipts_world :: "receipts_db world" where
  "demo_receipts_world = \<lparr>db = \<lparr>receipts = []\<rparr>, clock = (\<lambda>n. 100 + int n), clock_reads = 0,
     sql_fault = (\<lambda>_. None), sql_calls = 0\<rparr>"

definition demo_receipt :: AcceptedEditReceiptInsert where
  "demo_receipt = \<lparr>cloud_acceptance_id = Some (lit ''c1''), receipt_key = lit ''k1'',
     repo_full_name = Some (lit ''Acme/App.git''), target_pr_number = None, receipt_file_path = None,
     diff_signature = lit ''d'', receipt_rule_ids = [lit ''r1''], acceptance_source = lit ''hook'',
     receipt_client = None, team_id = None, observations_inserted = 1, launch_grade = True\<rparr>"

definition demo_strings :: string_list_json where
  "demo_strings = \<lparr>encode_strings = (\<lambda>l. Some (concat l)), decode_strings = (\<lambda>j. Some [j])\<rparr>"

theorem record_confirmed_idempotent_witness:
  "length (receipts (db (snd (record_confirmed demo_strings demo_receipt
     (snd (record_confirmed demo_strings demo_receipt demo_receipts_world)))))) = 1"
proof -
  let ?w1 = "snd (record_confirmed demo_strings demo_receipt demo_receipts_world)"
  have "fst (record_confirmed demo_strings demo_receipt demo_receipts_world) = Inr ()" by code_simp
  then have run: "record_confirmed demo_strings demo_receipt demo_receipts_world = (Inr (), ?w1)"
    by (simp add: prod_eq_iff)
  have "receipts_distinct (receipts (db demo_receipts_world))" by (simp add: demo_receipts_world_def)
  from record_confirmed_idempotent [OF this run]
  have "receipts (db (snd (record_confirmed demo_strings demo_receipt ?w1))) = receipts (db ?w1)" by blast
  moreover have "length (receipts (db ?w1)) = 1" by code_simp
  ultimately show ?thesis by simp
qed

text \<open>The counters a row adds to, and how they balance.\<close>

definition summary_balanced :: "AcceptedEditReceiptSummary \<Rightarrow> bool" where
  "summary_balanced s \<longleftrightarrow>
     rows_last30 s = rows_missing_rule_ids s + rows_with_cloud_rule_ids s + rows_with_local_rule_ids s
     \<and> rows_for_current_repo s = rows_missing_rule_ids_for_current_repo s
         + rows_with_cloud_rule_ids_for_current_repo s + rows_with_local_rule_ids_for_current_repo s
     \<and> rows_for_current_repo s + rows_without_repo s \<le> rows_last30 s
     \<and> launch_grade_rows_for_current_repo s \<le> launch_grade_rows s
     \<and> launch_grade_rows s \<le> rows_last30 s
     \<and> launch_grade_rows_for_current_repo s \<le> rows_for_current_repo s"

lemma summary_step_balanced:
  "summary_balanced s \<Longrightarrow> summary_balanced (summary_step S R row s) \<and> rows_last30 (summary_step S R row s) = Suc (rows_last30 s)"
  by (auto simp: summary_balanced_def summary_step_def Let_def split: option.split)

lemma summary_fold_balanced:
  "summary_balanced s \<Longrightarrow> summary_balanced (fold (summary_step S R) rows s)
     \<and> rows_last30 (fold (summary_step S R) rows s) = rows_last30 s + length rows"
  by (induction rows arbitrary: s) (simp_all add: summary_step_balanced)

text \<open>
  The attribution summary is a partition of the receipts inside its window: each counts once as
  missing, cloud or local identifiers, overall and for the current repository, and no counter for
  the current repository exceeds its total.
\<close>

theorem summary_partitions_window:
  assumes "summary_for_repos S repos days w = (Inr s, w')"
  shows "rows_last30 s = rows_missing_rule_ids s + rows_with_cloud_rule_ids s + rows_with_local_rule_ids s
    \<and> rows_for_current_repo s = rows_missing_rule_ids_for_current_repo s
         + rows_with_cloud_rule_ids_for_current_repo s + rows_with_local_rule_ids_for_current_repo s
    \<and> rows_for_current_repo s + rows_without_repo s \<le> rows_last30 s
    \<and> launch_grade_rows_for_current_repo s \<le> launch_grade_rows s
    \<and> rows_last30 s = length (filter (\<lambda>r. receipt_uploaded_at r
         \<ge> sat_i64 (clock w (clock_reads w) - wrap_i64 (max 1 days * 24 * 60 * 60 * 1000))) (receipts (db w)))"
proof -
  let ?rows = "filter (\<lambda>r. receipt_uploaded_at r
    \<ge> sat_i64 (clock w (clock_reads w) - wrap_i64 (max 1 days * 24 * 60 * 60 * 1000))) (receipts (db w))"
  have s: "s = fold (summary_step S (normalized_repo_set repos)) ?rows empty_summary"
    using assms by (auto simp: summary_for_repos_def andthen_def utc_now_millis_def Let_def ret_def sql_def
        split: option.splits)
  have "summary_balanced empty_summary" "rows_last30 empty_summary = 0"
    by (simp_all add: summary_balanced_def empty_summary_def)
  from summary_fold_balanced [OF this(1), of S "normalized_repo_set repos" ?rows] this(2)
  show ?thesis unfolding s [symmetric] by (simp add: summary_balanced_def)
qed

theorem summary_partitions_window_witness:
  "rows_last30 (projr (fst (summary_for_repos demo_strings [lit ''acme/app''] 30
     (snd (record_confirmed demo_strings demo_receipt demo_receipts_world))))) = 1"
  (is "rows_last30 (projr (fst (summary_for_repos _ _ _ ?w))) = 1")
proof -
  let ?r = "summary_for_repos demo_strings [lit ''acme/app''] 30 ?w"
  have "\<not> isl (fst ?r)" by code_simp
  then have "?r = (Inr (projr (fst ?r)), snd ?r)" by (simp add: prod_eq_iff)
  note fin = summary_partitions_window [OF this]
  have "length (filter (\<lambda>r. receipt_uploaded_at r
      \<ge> sat_i64 (clock ?w (clock_reads ?w) - wrap_i64 (max 1 30 * 24 * 60 * 60 * 1000))) (receipts (db ?w))) = 1"
    by code_simp
  with fin show ?thesis by linarith
qed

end
