(* ===== verification/Outbox.thy ===== *)
theory Outbox
  imports Outbox_Core Receipts
begin

text \<open>
  \<^verbatim>\<open>crates/difflore-core/src/cloud/outbox.rs\<close>, the queue \<^verbatim>\<open>OutboxQueue\<close>: the table
  \<^verbatim>\<open>cloud_outbox\<close>, the in-process circuit breaker, and every operation on them.
  Each SQL statement is a function on the table; an operation composes them with the clock
  and the breaker the way the method does. SQLite's JSON functions, which the claim
  statements call, are the parameter \<open>sqlite_json\<close>.
\<close>

section \<open>State\<close>

datatype outbox_status = Pending | Processing | Failed | Abandoned | OtherStatus ustr

record outbox_row =
  row_id :: int
  row_kind :: ustr
  payload_json :: ustr
  status :: outbox_status
  retry_count :: int
  created_at :: int
  claimed_at :: "int option"
  last_error :: "ustr option"

text \<open>The database of the queue holds the receipts table beside the queue's own.\<close>

record outbox = receipts_db +
  rows :: "outbox_row list"
  next_rowid :: int
  consecutive_failures :: "32 word"
  circuit_open_until_ms :: int

text \<open>A claimed row, as the drain loop sees it.\<close>

record OutboxItem =
  item_id :: int
  item_kind :: ustr
  item_payload :: ustr
  item_retry_count :: int

datatype EnqueueOutcome = Inserted int | CaptureDisabled

datatype CircuitState = Closed | Open int

record sqlite_json =
  json_valid :: "ustr \<Rightarrow> bool"
  json_extract :: "ustr \<Rightarrow> ustr \<Rightarrow> ustr option"

definition DEFAULT_STALE_SECONDS :: nat where "DEFAULT_STALE_SECONDS = 60"
definition CIRCUIT_FAILURE_THRESHOLD :: "32 word" where "CIRCUIT_FAILURE_THRESHOLD = 3"
definition CIRCUIT_OPEN_DURATION_MS :: int where "CIRCUIT_OPEN_DURATION_MS = 60000"

definition KIND_SESSION_MINED_CANDIDATE :: ustr where
  "KIND_SESSION_MINED_CANDIDATE = lit ''session_mined_candidate''"
definition LOCAL_REVIEW_STATUS_PATH :: ustr where
  "LOCAL_REVIEW_STATUS_PATH = lit ''$.localReview.status''"
definition LOCAL_REVIEW_APPROVED :: ustr where
  "LOCAL_REVIEW_APPROVED = lit ''approved''"

text \<open>\<^verbatim>\<open>OutboxQueue::new\<close> on a database with these tables: the breaker starts closed.\<close>

definition outbox_new :: "receipt_row list \<Rightarrow> outbox_row list \<Rightarrow> int \<Rightarrow> outbox" where
  "outbox_new recs rs n = \<lparr>receipts = recs, rows = rs, next_rowid = n, consecutive_failures = 0, circuit_open_until_ms = 0\<rparr>"

definition row_id_or_zero :: "EnqueueOutcome \<Rightarrow> int" where
  "row_id_or_zero r = (case r of Inserted i \<Rightarrow> i | CaptureDisabled \<Rightarrow> 0)"

definition outbox_item_from_row :: "outbox_row \<Rightarrow> OutboxItem" where
  "outbox_item_from_row r = \<lparr>item_id = row_id r, item_kind = row_kind r,
     item_payload = payload_json r, item_retry_count = retry_count r\<rparr>"

section \<open>SQL statements on the table\<close>

definition update_where :: "(outbox_row \<Rightarrow> bool) \<Rightarrow> (outbox_row \<Rightarrow> outbox_row) \<Rightarrow> outbox \<Rightarrow> outbox" where
  "update_where P f q = q\<lparr>rows := map (\<lambda>r. if P r then f r else r) (rows q)\<rparr>"

definition count_where :: "(outbox_row \<Rightarrow> bool) \<Rightarrow> outbox \<Rightarrow> int" where
  "count_where P q = int (length (filter P (rows q)))"

text \<open>\<^verbatim>\<open>ORDER BY created_at ASC, id ASC LIMIT 1\<close>.\<close>

definition earlier :: "outbox_row \<Rightarrow> outbox_row \<Rightarrow> bool" where
  "earlier r s \<longleftrightarrow> created_at r < created_at s \<or> (created_at r = created_at s \<and> row_id r < row_id s)"

fun oldest :: "outbox_row list \<Rightarrow> outbox_row option" where
  "oldest [] = None"
| "oldest (r # rs) =
     (case oldest rs of None \<Rightarrow> Some r | Some s \<Rightarrow> if earlier s r then Some s else Some r)"

text \<open>Rows a claim may take: waiting, or claimed so long ago that the claimer is presumed dead.\<close>

definition waiting_or_stale :: "int \<Rightarrow> outbox_row \<Rightarrow> bool" where
  "waiting_or_stale cutoff r \<longleftrightarrow> status r = Pending
     \<or> (status r = Processing \<and> (case claimed_at r of None \<Rightarrow> False | Some t \<Rightarrow> t < cutoff))"

text \<open>
  \<^verbatim>\<open>json_valid(p) AND LOWER(COALESCE(json_extract(p, path), '')) = 'approved'\<close>.
\<close>

definition locally_approved :: "sqlite_json \<Rightarrow> outbox_row \<Rightarrow> bool" where
  "locally_approved J r \<longleftrightarrow> json_valid J (payload_json r)
     \<and> to_ascii_lowercase (case json_extract J (payload_json r) LOCAL_REVIEW_STATUS_PATH of
          None \<Rightarrow> [] | Some v \<Rightarrow> v) = LOCAL_REVIEW_APPROVED"

definition uploadable :: "sqlite_json \<Rightarrow> outbox_row \<Rightarrow> bool" where
  "uploadable J r \<longleftrightarrow> row_kind r \<noteq> KIND_SESSION_MINED_CANDIDATE \<or> locally_approved J r"

definition claim_stmt :: "(outbox_row \<Rightarrow> bool) \<Rightarrow> int \<Rightarrow> outbox \<Rightarrow> OutboxItem option \<times> outbox" where
  "claim_stmt P now q =
     (case oldest (filter P (rows q)) of
        None \<Rightarrow> (None, q)
      | Some r \<Rightarrow> (Some (outbox_item_from_row r),
          update_where (\<lambda>x. row_id x = row_id r)
            (\<lambda>x. x\<lparr>status := Processing, claimed_at := Some now\<rparr>) q))"

definition insert_stmt :: "ustr \<Rightarrow> ustr \<Rightarrow> int \<Rightarrow> outbox \<Rightarrow> int \<times> outbox" where
  "insert_stmt kind payload now q =
     (next_rowid q,
      q\<lparr>rows := rows q @ [\<lparr>row_id = next_rowid q, row_kind = kind, payload_json = payload,
            status = Pending, retry_count = 0, created_at = now, claimed_at = None,
            last_error = None\<rparr>],
        next_rowid := next_rowid q + 1\<rparr>)"

definition delete_stmt :: "int \<Rightarrow> outbox \<Rightarrow> unit \<times> outbox" where
  "delete_stmt i q = ((), q\<lparr>rows := filter (\<lambda>r. row_id r \<noteq> i) (rows q)\<rparr>)"

definition select_stmt :: "int \<Rightarrow> outbox \<Rightarrow> outbox_row option \<times> outbox" where
  "select_stmt i q = (find (\<lambda>r. row_id r = i) (rows q), q)"

definition fail_stmt :: "int \<Rightarrow> outbox_status \<Rightarrow> int \<Rightarrow> ustr \<Rightarrow> outbox \<Rightarrow> unit \<times> outbox" where
  "fail_stmt i st n err q =
     ((), update_where (\<lambda>r. row_id r = i)
        (\<lambda>r. r\<lparr>status := st, retry_count := n, last_error := Some err, claimed_at := None\<rparr>) q)"

definition reset_stmt :: "int \<Rightarrow> outbox \<Rightarrow> int \<times> outbox" where
  "reset_stmt cutoff q =
     (let stale = (\<lambda>r. status r = Processing
            \<and> (case claimed_at r of None \<Rightarrow> False | Some t \<Rightarrow> t < cutoff)) in
      (count_where stale q,
       update_where stale (\<lambda>r. r\<lparr>status := Pending, claimed_at := None\<rparr>) q))"

text \<open>\<^verbatim>\<open>status = 'abandoned' AND COALESCE(claimed_at, created_at) < cutoff\<close>.\<close>

definition revivable :: "int \<Rightarrow> outbox_row \<Rightarrow> bool" where
  "revivable cutoff r \<longleftrightarrow> status r = Abandoned
     \<and> (case claimed_at r of None \<Rightarrow> created_at r | Some t \<Rightarrow> t) < cutoff"

definition revive_stmt :: "int \<Rightarrow> outbox \<Rightarrow> outbox" where
  "revive_stmt cutoff q = update_where (revivable cutoff)
     (\<lambda>r. r\<lparr>status := Pending, retry_count := 0, last_error := None, claimed_at := None\<rparr>) q"

text \<open>\<^verbatim>\<open>SELECT kind, COUNT(*) .. GROUP BY kind\<close>, then sorted by kind.\<close>

fun insort_kind :: "ustr \<Rightarrow> ustr list \<Rightarrow> ustr list" where
  "insort_kind k [] = [k]"
| "insort_kind k (x # xs) =
     (if str_less k x then k # x # xs else if k = x then x # xs else x # insort_kind k xs)"

definition counts_by_kind :: "outbox_row list \<Rightarrow> (ustr \<times> int) list" where
  "counts_by_kind rs =
     map (\<lambda>k. (k, int (length (filter (\<lambda>r. row_kind r = k) rs))))
       (foldr (\<lambda>r ks. insort_kind (row_kind r) ks) rs [])"

section \<open>Operations\<close>

definition enqueue_with_outcome :: "ustr option \<Rightarrow> ustr \<Rightarrow> ustr \<Rightarrow> (outbox, EnqueueOutcome) io" where
  "enqueue_with_outcome capture kind payload =
     (if \<not> capture_enabled capture then ret CaptureDisabled
      else andthen now_unix_ms (\<lambda>now.
           andthen (sql (insert_stmt kind payload now)) (\<lambda>i. ret (Inserted i))))"

definition enqueue :: "ustr option \<Rightarrow> ustr \<Rightarrow> ustr \<Rightarrow> (outbox, int) io" where
  "enqueue capture kind payload =
     andthen (enqueue_with_outcome capture kind payload) (\<lambda>r. ret (row_id_or_zero r))"

definition circuit_state :: "(outbox, CircuitState) io" where
  "circuit_state =
     andthen (get circuit_open_until_ms) (\<lambda>until.
       if until = 0 then ret Closed
       else andthen now_unix_ms (\<lambda>now.
         if now \<ge> until then
           andthen (modify (\<lambda>q. q\<lparr>circuit_open_until_ms := 0\<rparr>)) (\<lambda>_. ret Closed)
         else ret (Open until)))"

definition stale_cutoff :: "int \<Rightarrow> int" where
  "stale_cutoff now = now - int DEFAULT_STALE_SECONDS * 1000"

definition claim_next :: "sqlite_json \<Rightarrow> (outbox, OutboxItem option) io" where
  "claim_next J =
     andthen circuit_state (\<lambda>c. case c of
         Open _ \<Rightarrow> ret None
       | Closed \<Rightarrow> andthen now_unix_ms (\<lambda>now.
           sql (claim_stmt (\<lambda>r. waiting_or_stale (stale_cutoff now) r \<and> uploadable J r) now)))"

definition claim_next_kind :: "sqlite_json \<Rightarrow> ustr \<Rightarrow> (outbox, OutboxItem option) io" where
  "claim_next_kind J kind =
     andthen circuit_state (\<lambda>c. case c of
         Open _ \<Rightarrow> ret None
       | Closed \<Rightarrow> andthen now_unix_ms (\<lambda>now.
           sql (claim_stmt (\<lambda>r. row_kind r = kind \<and> waiting_or_stale (stale_cutoff now) r
             \<and> (kind \<noteq> KIND_SESSION_MINED_CANDIDATE \<or> locally_approved J r)) now)))"

definition confirm :: "int \<Rightarrow> (outbox, unit) io" where
  "confirm i =
     andthen (sql (delete_stmt i)) (\<lambda>_. modify (\<lambda>q. q\<lparr>consecutive_failures := 0\<rparr>))"

text \<open>\<^verbatim>\<open>fetch_add(1)\<close>: wraps, returns the previous value.\<close>

definition bump_failures :: "(outbox, 32 word) io" where
  "bump_failures =
     andthen (get consecutive_failures) (\<lambda>prev.
       andthen (modify (\<lambda>q. q\<lparr>consecutive_failures := prev + 1\<rparr>)) (\<lambda>_. ret prev))"

definition failure_outcome :: "int \<Rightarrow> outbox_status \<times> int" where
  "failure_outcome rc =
     (case decide_retry rc of Retry n \<Rightarrow> (Pending, n) | Abandon n \<Rightarrow> (Abandoned, n))"

definition mark_failed :: "int \<Rightarrow> ustr \<Rightarrow> (outbox, unit) io" where
  "mark_failed i err =
     (let err_trimmed = truncate_str err 2048 in
      andthen (sql (select_stmt i)) (\<lambda>current. case current of
        None \<Rightarrow> ret ()
      | Some row \<Rightarrow>
          (let (new_status, new_count) = failure_outcome (retry_count row) in
           andthen (sql (fail_stmt i new_status new_count err_trimmed)) (\<lambda>_.
           andthen bump_failures (\<lambda>prev.
             if prev + 1 \<ge> CIRCUIT_FAILURE_THRESHOLD then
               andthen now_unix_ms (\<lambda>now.
                 modify (\<lambda>q. q\<lparr>circuit_open_until_ms := wrap_i64 (now + CIRCUIT_OPEN_DURATION_MS)\<rparr>))
             else ret ())))))"

definition reset_stale :: "nat \<Rightarrow> (outbox, int) io" where
  "reset_stale threshold_secs =
     andthen now_unix_ms (\<lambda>now.
       sql (reset_stmt (wrap_i64 (now - wrap_i64 (wrap_i64 (int threshold_secs) * 1000)))))"

definition pending_counts_by_kind :: "sqlite_json \<Rightarrow> (outbox, (ustr \<times> int) list) io" where
  "pending_counts_by_kind J =
     sql (\<lambda>q. (counts_by_kind (filter (\<lambda>r. status r = Pending \<and> uploadable J r) (rows q)), q))"

record DrainSummary =
  total :: int
  per_kind :: "(ustr \<times> int) list"

text \<open>
  One transaction: its update takes effect at the commit, a failing statement rolls it back.
\<close>

definition drain_abandoned_older_than :: "int \<Rightarrow> bool \<Rightarrow> (outbox, DrainSummary) io" where
  "drain_abandoned_older_than cutoff dry_run =
     andthen (sql (\<lambda>q. ((), q))) (\<lambda>_.
     andthen (sql (\<lambda>q. (counts_by_kind (filter (revivable cutoff) (rows q)), q))) (\<lambda>per.
       let n = sum_list (map snd per) in
       if dry_run \<or> n = 0 then
         andthen (sql (\<lambda>q. ((), q))) (\<lambda>_. ret \<lparr>total = n, per_kind = per\<rparr>)
       else
         andthen (sql (\<lambda>q. (count_where (revivable cutoff) q, q))) (\<lambda>affected.
         andthen (sql (\<lambda>q. ((), revive_stmt cutoff q))) (\<lambda>_.
         andthen (modify (\<lambda>q. q\<lparr>consecutive_failures := 0\<rparr>)) (\<lambda>_.
         andthen (modify (\<lambda>q. q\<lparr>circuit_open_until_ms := 0\<rparr>)) (\<lambda>_.
           ret \<lparr>total = affected, per_kind = per\<rparr>))))))"

record OutboxCounts =
  n_pending :: int
  n_processing :: int
  n_failed :: int
  n_abandoned :: int

definition counts :: "(outbox, OutboxCounts) io" where
  "counts = sql (\<lambda>q. (\<lparr>n_pending = count_where (\<lambda>r. status r = Pending) q,
     n_processing = count_where (\<lambda>r. status r = Processing) q,
     n_failed = count_where (\<lambda>r. status r = Failed) q,
     n_abandoned = count_where (\<lambda>r. status r = Abandoned) q\<rparr>, q))"

section \<open>The table invariant\<close>

text \<open>
  A row is claimed exactly while it is being processed, abandoned exactly when its attempts
  are used up, and no other status occurs.
\<close>

definition row_wf :: "outbox_row \<Rightarrow> bool" where
  "row_wf r \<longleftrightarrow> 0 \<le> retry_count r
     \<and> status r \<in> {Pending, Processing, Abandoned}
     \<and> (status r = Processing \<longleftrightarrow> claimed_at r \<noteq> None)
     \<and> (status r = Abandoned \<longleftrightarrow> MAX_RETRY_COUNT \<le> retry_count r)"

definition outbox_wf :: "outbox \<Rightarrow> bool" where
  "outbox_wf q \<longleftrightarrow> distinct (map row_id (rows q))
     \<and> (\<forall>r \<in> set (rows q). row_id r < next_rowid q \<and> row_wf r)"

lemma rows_update_where [simp]:
  "rows (update_where P f q) = map (\<lambda>r. if P r then f r else r) (rows q)"
  by (simp add: update_where_def)

lemma update_where_frame [simp]:
  "next_rowid (update_where P f q) = next_rowid q"
  "receipts (update_where P f q) = receipts q"
  "consecutive_failures (update_where P f q) = consecutive_failures q"
  "circuit_open_until_ms (update_where P f q) = circuit_open_until_ms q"
  by (simp_all add: update_where_def)

text \<open>An update that keeps the identifiers and row well-formedness keeps the invariant.\<close>

lemma outbox_wf_update_where:
  assumes "outbox_wf q"
    and "\<And>r. r \<in> set (rows q) \<Longrightarrow> P r \<Longrightarrow> row_wf r \<Longrightarrow> row_id (f r) = row_id r \<and> row_wf (f r)"
  shows "outbox_wf (update_where P f q)"
proof -
  have ids: "map row_id (rows (update_where P f q)) = map row_id (rows q)"
    using assms by (auto simp: outbox_wf_def)
  have "\<forall>r \<in> set (rows (update_where P f q)). row_id r < next_rowid q \<and> row_wf r"
    using assms by (auto simp: outbox_wf_def)
  then show ?thesis
    using assms(1) by (simp only: outbox_wf_def ids update_where_frame)
qed

lemma outbox_wf_breaker [simp]:
  "outbox_wf (q\<lparr>consecutive_failures := n\<rparr>) = outbox_wf q"
  "outbox_wf (q\<lparr>circuit_open_until_ms := t\<rparr>) = outbox_wf q"
  "outbox_wf (q\<lparr>receipts := rs\<rparr>) = outbox_wf q"
  by (simp_all add: outbox_wf_def)

lemma oldest_None [simp]: "oldest rs = None \<longleftrightarrow> rs = []"
  by (cases rs) (auto split: option.splits)

lemma oldest_in: "oldest rs = Some r \<Longrightarrow> r \<in> set rs"
  by (induction rs arbitrary: r) (auto split: option.splits if_splits)

lemma not_earlier_trans: "\<not> earlier s y \<Longrightarrow> \<not> earlier y x \<Longrightarrow> \<not> earlier s x"
  by (auto simp: earlier_def)

lemma earlier_asym: "earlier y x \<Longrightarrow> \<not> earlier x y"
  by (auto simp: earlier_def)

lemma earlier_irrefl [simp]: "\<not> earlier x x"
  by (simp add: earlier_def)

lemma oldest_least: "oldest rs = Some r \<Longrightarrow> s \<in> set rs \<Longrightarrow> \<not> earlier s r"
proof (induction rs arbitrary: r)
  case (Cons x xs)
  show ?case
  proof (cases "oldest xs")
    case None
    with Cons.prems show ?thesis by simp
  next
    case (Some y)
    have min_y: "s \<in> set xs \<Longrightarrow> \<not> earlier s y" using Cons.IH Some by simp
    show ?thesis
    proof (cases "earlier y x")
      case True
      with Some Cons.prems have "r = y" by simp
      with True Cons.prems(2) min_y show ?thesis by (auto dest: earlier_asym)
    next
      case False
      with Some Cons.prems have "r = x" by simp
      with False Cons.prems(2) min_y show ?thesis by (auto dest: not_earlier_trans)
    qed
  qed
qed simp

lemma claim_stmt_wf:
  assumes "outbox_wf q" and "\<And>r. P r \<Longrightarrow> status r \<in> {Pending, Processing}"
  shows "outbox_wf (snd (claim_stmt P now q))"
proof (cases "oldest (filter P (rows q))")
  case None
  with assms show ?thesis by (simp add: claim_stmt_def)
next
  case (Some r)
  then have r: "r \<in> set (rows q)" "P r" by (auto dest: oldest_in)
  have eq: "x = r" if "x \<in> set (rows q)" "row_id x = row_id r" for x
    using that r assms(1) by (auto simp: outbox_wf_def distinct_map inj_on_def)
  have "status r \<in> {Pending, Processing}" using assms(2) r by blast
  moreover have "row_wf r" using assms(1) r by (auto simp: outbox_wf_def)
  ultimately have "row_wf (r\<lparr>status := Processing, claimed_at := Some now\<rparr>)"
    by (auto simp: row_wf_def)
  then have "outbox_wf (update_where (\<lambda>x. row_id x = row_id r)
      (\<lambda>x. x\<lparr>status := Processing, claimed_at := Some now\<rparr>) q)"
    using eq by (intro outbox_wf_update_where [OF assms(1)]) auto
  then show ?thesis using Some by (simp add: claim_stmt_def)
qed

lemma insert_stmt_wf: "outbox_wf q \<Longrightarrow> outbox_wf (snd (insert_stmt k p now q))"
  by (fastforce simp: insert_stmt_def outbox_wf_def row_wf_def MAX_RETRY_COUNT_def)

lemma delete_stmt_wf: "outbox_wf q \<Longrightarrow> outbox_wf (snd (delete_stmt i q))"
  by (auto simp: delete_stmt_def outbox_wf_def distinct_map_filter)

lemma fail_stmt_wf:
  assumes "outbox_wf q" and "0 \<le> rc" and "failure_outcome rc = (st, n)"
  shows "outbox_wf (snd (fail_stmt i st n err q))"
  using assms unfolding fail_stmt_def
  by (auto intro!: outbox_wf_update_where
      simp: row_wf_def failure_outcome_def decide_retry_def Let_def split: if_splits)

lemma reset_stmt_wf: "outbox_wf q \<Longrightarrow> outbox_wf (snd (reset_stmt cutoff q))"
  unfolding reset_stmt_def Let_def snd_conv
  by (rule outbox_wf_update_where) (auto simp: row_wf_def)

lemma revive_stmt_wf: "outbox_wf q \<Longrightarrow> outbox_wf (revive_stmt cutoff q)"
  unfolding revive_stmt_def
  by (rule outbox_wf_update_where) (auto simp: row_wf_def MAX_RETRY_COUNT_def)

lemmas stmt_wf = claim_stmt_wf insert_stmt_wf delete_stmt_wf reset_stmt_wf revive_stmt_wf

section \<open>Every operation keeps the invariant\<close>

lemma keeps_circuit_state [io_intros]:
  "(\<And>q t. I q \<Longrightarrow> I (q\<lparr>circuit_open_until_ms := t\<rparr>)) \<Longrightarrow> keeps I circuit_state"
  unfolding circuit_state_def by (intro io_intros) auto

lemma keeps_CircuitState_case [io_intros]:
  "keeps I m \<Longrightarrow> (\<And>t. keeps I (f t)) \<Longrightarrow> keeps I (case c of Closed \<Rightarrow> m | Open t \<Rightarrow> f t)"
  by (cases c) auto

lemma keeps_enqueue_with_outcome: "keeps outbox_wf (enqueue_with_outcome c k p)"
  unfolding enqueue_with_outcome_def by (intro io_intros) (rule insert_stmt_wf)

lemma keeps_claim_next: "keeps outbox_wf (claim_next J)"
  unfolding claim_next_def
  by (intro io_intros claim_stmt_wf) (auto simp: waiting_or_stale_def)

lemma keeps_claim_next_kind: "keeps outbox_wf (claim_next_kind J k)"
  unfolding claim_next_kind_def
  by (intro io_intros claim_stmt_wf) (auto simp: waiting_or_stale_def)

lemma keeps_confirm: "keeps outbox_wf (confirm i)"
  unfolding confirm_def by (intro io_intros) (auto intro: delete_stmt_wf)

lemma keeps_bump_failures: "keeps outbox_wf bump_failures"
  unfolding bump_failures_def by (intro io_intros) auto

lemma keeps_mark_failed: "keeps outbox_wf (mark_failed i err)"
  unfolding mark_failed_def Let_def
proof (rule keeps_sql_andthen)
  fix q assume wf: "outbox_wf q"
  show "outbox_wf (snd (select_stmt i q)) \<and>
    keeps outbox_wf (case fst (select_stmt i q) of None \<Rightarrow> ret ()
      | Some row \<Rightarrow> case failure_outcome (retry_count row) of (st, n) \<Rightarrow>
          andthen (sql (fail_stmt i st n (truncate_str err 2048)))
            (\<lambda>_. andthen bump_failures (\<lambda>prev. if CIRCUIT_FAILURE_THRESHOLD \<le> prev + 1
              then andthen now_unix_ms (\<lambda>now. modify
                (circuit_open_until_ms_update (\<lambda>_. wrap_i64 (now + CIRCUIT_OPEN_DURATION_MS))))
              else ret ())))"
  proof (cases "fst (select_stmt i q)")
    case None
    with wf show ?thesis by (simp add: select_stmt_def keeps_ret)
  next
    case (Some row)
    then have "row \<in> set (rows q)" by (auto simp: select_stmt_def find_Some_iff)
    with wf have "0 \<le> retry_count row" by (auto simp: outbox_wf_def row_wf_def)
    then show ?thesis
      using wf Some by (auto simp: select_stmt_def split: prod.splits
        intro!: keeps_andthen keeps_sql keeps_bump_failures keeps_now keeps_modify keeps_ret
        dest: fail_stmt_wf)
  qed
qed

lemma keeps_reset_stale: "keeps outbox_wf (reset_stale n)"
  unfolding reset_stale_def by (intro io_intros) (rule reset_stmt_wf)

lemma keeps_drain_abandoned: "keeps outbox_wf (drain_abandoned_older_than cutoff dry)"
  unfolding drain_abandoned_older_than_def Let_def
  by (intro io_intros) (auto intro: revive_stmt_wf)

section \<open>What the operations do\<close>

lemma circuit_state_eq:
  "circuit_state w =
     (if circuit_open_until_ms (db w) = 0 then (Inr Closed, w)
      else if clock_ms w (clock_reads w) \<ge> circuit_open_until_ms (db w) then
        (Inr Closed, w\<lparr>clock_reads := Suc (clock_reads w),
           db := (db w)\<lparr>circuit_open_until_ms := 0\<rparr>\<rparr>)
      else (Inr (Open (circuit_open_until_ms (db w))), w\<lparr>clock_reads := Suc (clock_reads w)\<rparr>))"
  by (simp add: circuit_state_def step_defs now_unix_ms_eq)

lemma circuit_state_frame:
  "circuit_state w = (Inr c, w') \<Longrightarrow> rows (db w') = rows (db w) \<and> receipts (db w') = receipts (db w)
     \<and> next_rowid (db w') = next_rowid (db w) \<and> clock_ms w' = clock_ms w"
  by (auto simp: circuit_state_eq split: if_splits)

text \<open>The predicate of the claim statement, read at the time \<open>now\<close>.\<close>

definition claimable :: "sqlite_json \<Rightarrow> int \<Rightarrow> outbox_row \<Rightarrow> bool" where
  "claimable J now r \<longleftrightarrow> waiting_or_stale (stale_cutoff now) r \<and> uploadable J r"

lemma claim_stmt_Some:
  assumes "claim_stmt P now q = (Some item, q')"
  obtains r where "r \<in> set (rows q)" "P r" "item = outbox_item_from_row r"
    "\<forall>s \<in> set (rows q). P s \<longrightarrow> \<not> earlier s r"
    "q' = update_where (\<lambda>x. row_id x = row_id r)
       (\<lambda>x. x\<lparr>status := Processing, claimed_at := Some now\<rparr>) q"
proof -
  from assms obtain r where r: "oldest (filter P (rows q)) = Some r"
    and eqs: "item = outbox_item_from_row r"
      "q' = update_where (\<lambda>x. row_id x = row_id r)
         (\<lambda>x. x\<lparr>status := Processing, claimed_at := Some now\<rparr>) q"
    by (auto simp: claim_stmt_def split: option.splits)
  from oldest_in [OF r] oldest_least [OF r] show thesis
    by (intro that [of r] eqs) auto
qed

lemma claim_stmt_None: "claim_stmt P now q = (None, q') \<Longrightarrow> q' = q \<and> (\<forall>s \<in> set (rows q). \<not> P s)"
  by (auto simp: claim_stmt_def filter_empty_conv split: option.splits)

lemma claim_next_Inr:
  assumes "claim_next J w = (Inr x, w')"
  shows "(x = None \<and> rows (db w') = rows (db w)) \<or>
    (\<exists>q. fst (claim_stmt (claimable J (clock_ms w (clock_reads w' - 1)))
            (clock_ms w (clock_reads w' - 1)) q) = x
      \<and> db w' = snd (claim_stmt (claimable J (clock_ms w (clock_reads w' - 1)))
            (clock_ms w (clock_reads w' - 1)) q)
      \<and> rows q = rows (db w))"
proof -
  from assms obtain c w1 where c: "circuit_state w = (Inr c, w1)"
    and rest: "(case c of Open _ \<Rightarrow> ret None | Closed \<Rightarrow> andthen now_unix_ms (\<lambda>now.
       sql (claim_stmt (\<lambda>r. waiting_or_stale (stale_cutoff now) r \<and> uploadable J r) now))) w1 = (Inr x, w')"
    unfolding claim_next_def by (rule andthen_InrE)
  note fr = circuit_state_frame [OF c]
  show ?thesis
  proof (cases c)
    case (Open t)
    with rest fr show ?thesis by (auto simp: ret_def)
  next
    case Closed
    with rest fr have "sql (claim_stmt (claimable J (clock_ms w (clock_reads w1))) (clock_ms w (clock_reads w1)))
        (w1\<lparr>clock_reads := Suc (clock_reads w1)\<rparr>) = (Inr x, w')"
      by (simp add: andthen_def now_unix_ms_eq claimable_def [abs_def])
    from sql_InrD [OF this] fr show ?thesis
      by (intro disjI2 exI [of _ "db w1"]) auto
  qed
qed

lemma claim_next_SomeE:
  assumes claim: "claim_next J w = (Inr (Some item), w')"
  obtains r where "r \<in> set (rows (db w))" "item = outbox_item_from_row r"
    "claimable J (clock_ms w (clock_reads w' - 1)) r"
    "\<forall>s \<in> set (rows (db w)). claimable J (clock_ms w (clock_reads w' - 1)) s \<longrightarrow> \<not> earlier s r"
    "rows (db w') = map (\<lambda>x. if row_id x = row_id r
       then x\<lparr>status := Processing, claimed_at := Some (clock_ms w (clock_reads w' - 1))\<rparr> else x) (rows (db w))"
proof -
  define now where "now = clock_ms w (clock_reads w' - 1)"
  obtain q where q: "claim_stmt (claimable J now) now q = (Some item, db w')"
    and rows: "rows q = rows (db w)"
    using claim_next_Inr [OF claim] by (auto simp: now_def prod_eq_iff)
  from q obtain r where "r \<in> set (rows q)" "claimable J now r" "item = outbox_item_from_row r"
    "\<forall>s \<in> set (rows q). claimable J now s \<longrightarrow> \<not> earlier s r"
    "db w' = update_where (\<lambda>x. row_id x = row_id r)
       (\<lambda>x. x\<lparr>status := Processing, claimed_at := Some now\<rparr>) q"
    by (rule claim_stmt_Some)
  then show thesis using rows by (intro that [of r]) (auto simp: now_def)
qed

text \<open>
  Whatever the clock reads and whichever SQL statements fail, every operation of the queue
  keeps the table well-formed: row identifiers stay unique and below the next identifier, a row
  carries a claim time exactly while it is being processed, and it is abandoned exactly when its
  attempts are used up.
\<close>

theorem outbox_operations_keep_wf:
  "keeps outbox_wf (enqueue c k p) \<and> keeps outbox_wf (claim_next J)
   \<and> keeps outbox_wf (claim_next_kind J k) \<and> keeps outbox_wf (confirm i)
   \<and> keeps outbox_wf (mark_failed i err) \<and> keeps outbox_wf (reset_stale n)
   \<and> keeps outbox_wf (drain_abandoned_older_than cutoff dry)"
  unfolding enqueue_def
  by (intro conjI keeps_andthen keeps_ret keeps_enqueue_with_outcome keeps_claim_next
      keeps_claim_next_kind keeps_confirm keeps_mark_failed keeps_reset_stale keeps_drain_abandoned)

text \<open>
  C15. A claim takes the oldest row that may be taken (by creation time, then identifier), marks
  exactly that row as being processed since the time of the claim and leaves every other row
  alone; a session-mined candidate is only ever taken after it was approved locally.
\<close>

theorem claim_next_takes_oldest:
  assumes claim: "claim_next J w = (Inr (Some item), w')"
  shows "\<exists>r now. now = clock_ms w (clock_reads w' - 1)
    \<and> r \<in> set (rows (db w)) \<and> item = outbox_item_from_row r
    \<and> waiting_or_stale (stale_cutoff now) r
    \<and> (row_kind r = KIND_SESSION_MINED_CANDIDATE \<longrightarrow> locally_approved J r)
    \<and> (\<forall>s \<in> set (rows (db w)). waiting_or_stale (stale_cutoff now) s \<and> uploadable J s \<longrightarrow> \<not> earlier s r)
    \<and> rows (db w') = map (\<lambda>x. if row_id x = row_id r
         then x\<lparr>status := Processing, claimed_at := Some now\<rparr> else x) (rows (db w))"
proof -
  obtain r where "r \<in> set (rows (db w))" "item = outbox_item_from_row r"
    "claimable J (clock_ms w (clock_reads w' - 1)) r"
    "\<forall>s \<in> set (rows (db w)). claimable J (clock_ms w (clock_reads w' - 1)) s \<longrightarrow> \<not> earlier s r"
    "rows (db w') = map (\<lambda>x. if row_id x = row_id r
       then x\<lparr>status := Processing, claimed_at := Some (clock_ms w (clock_reads w' - 1))\<rparr> else x) (rows (db w))"
    using claim by (rule claim_next_SomeE)
  then show ?thesis
    by (intro exI [of _ r] exI [of _ "clock_ms w (clock_reads w' - 1)"])
      (auto simp: claimable_def uploadable_def)
qed

text \<open>
  No double delivery inside the stale window: two consecutive claims return different rows as
  long as the second happens within sixty seconds of the first.
\<close>

theorem claims_within_stale_window_differ:
  assumes first: "claim_next J w = (Inr (Some a), w1)"
    and second: "claim_next J w1 = (Inr (Some b), w2)"
    and window: "clock_ms w1 (clock_reads w2 - 1) \<le> clock_ms w (clock_reads w1 - 1) + 60000"
  shows "item_id a \<noteq> item_id b"
proof
  assume same: "item_id a = item_id b"
  define now where "now = clock_ms w (clock_reads w1 - 1)"
  obtain r where r: "r \<in> set (rows (db w))" "a = outbox_item_from_row r"
    and rows1: "rows (db w1) = map (\<lambda>x. if row_id x = row_id r
         then x\<lparr>status := Processing, claimed_at := Some now\<rparr> else x) (rows (db w))"
    unfolding now_def by (rule claim_next_SomeE [OF first])
  obtain s where s: "s \<in> set (rows (db w1))" "b = outbox_item_from_row s"
    and old: "claimable J (clock_ms w1 (clock_reads w2 - 1)) s"
    by (rule claim_next_SomeE [OF second])
  from same r s have "row_id s = row_id r" by (simp add: outbox_item_from_row_def)
  with s(1) rows1 have "status s = Processing" "claimed_at s = Some now" by (auto split: if_splits)
  with old window show False
    by (auto simp: claimable_def waiting_or_stale_def stale_cutoff_def DEFAULT_STALE_SECONDS_def now_def)
qed


lemma bump_failures_eq:
  "bump_failures w = (Inr (consecutive_failures (db w)),
     w\<lparr>db := (db w)\<lparr>consecutive_failures := consecutive_failures (db w) + 1\<rparr>\<rparr>)"
  by (simp add: bump_failures_def step_defs)

lemma mark_failed_absent:
  "mark_failed i err w = (Inr u, w') \<Longrightarrow> find (\<lambda>r. row_id r = i) (rows (db w)) = None \<Longrightarrow> db w' = db w"
  unfolding mark_failed_def Let_def
  by (elim andthen_InrE) (auto dest!: sql_InrD simp: select_stmt_def ret_def)

lemma mark_failed_present:
  assumes run: "mark_failed i err w = (Inr u, w')"
    and row: "find (\<lambda>r. row_id r = i) (rows (db w)) = Some row"
  shows "rows (db w') = map (\<lambda>r. if row_id r = i
            then r\<lparr>status := fst (failure_outcome (retry_count row)),
                   retry_count := snd (failure_outcome (retry_count row)),
                   last_error := Some (truncate_str err 2048), claimed_at := None\<rparr> else r) (rows (db w))"
    and "consecutive_failures (db w') = consecutive_failures (db w) + 1"
    and "circuit_open_until_ms (db w') =
      (if consecutive_failures (db w) + 1 \<ge> CIRCUIT_FAILURE_THRESHOLD
       then wrap_i64 (clock_ms w (clock_reads w) + CIRCUIT_OPEN_DURATION_MS)
       else circuit_open_until_ms (db w))"
    and "clock_ms w' = clock_ms w"
proof -
  obtain st n where out: "failure_outcome (retry_count row) = (st, n)" by fastforce
  from run obtain x w1 where sel: "sql (select_stmt i) w = (Inr x, w1)"
    and rest: "(case x of None \<Rightarrow> ret () | Some row \<Rightarrow> (case failure_outcome (retry_count row) of (st, n) \<Rightarrow>
       andthen (sql (fail_stmt i st n (truncate_str err 2048))) (\<lambda>_. andthen bump_failures (\<lambda>prev.
         if CIRCUIT_FAILURE_THRESHOLD \<le> prev + 1 then andthen now_unix_ms (\<lambda>now. modify
           (circuit_open_until_ms_update (\<lambda>_. wrap_i64 (now + CIRCUIT_OPEN_DURATION_MS)))) else ret ())))) w1
         = (Inr u, w')"
    unfolding mark_failed_def Let_def by (rule andthen_InrE)
  from sql_InrD [OF sel] row have x: "x = Some row" and w1: "w1 = w\<lparr>sql_calls := Suc (sql_calls w)\<rparr>"
    by (simp_all add: select_stmt_def)
  define tail_step :: "(outbox, unit) io" where "tail_step =
    andthen bump_failures (\<lambda>prev. if CIRCUIT_FAILURE_THRESHOLD \<le> prev + 1
      then andthen now_unix_ms (\<lambda>now. modify
        (circuit_open_until_ms_update (\<lambda>_. wrap_i64 (now + CIRCUIT_OPEN_DURATION_MS)))) else ret ())"
  from rest x out have "andthen (sql (fail_stmt i st n (truncate_str err 2048))) (\<lambda>_. tail_step) w1 = (Inr u, w')"
    by (simp add: tail_step_def)
  then obtain y w2 where upd: "sql (fail_stmt i st n (truncate_str err 2048)) w1 = (Inr y, w2)"
    and tail: "tail_step w2 = (Inr u, w')"
    by (rule andthen_InrE)
  from sql_InrD [OF upd] w1 have w2: "w2 = w\<lparr>sql_calls := Suc (Suc (sql_calls w)),
      db := snd (fail_stmt i st n (truncate_str err 2048) (db w))\<rparr>" by simp
  note defs = w2 tail_step_def fail_stmt_def andthen_def bump_failures_eq now_unix_ms_eq modify_def ret_def
  show "rows (db w') = map (\<lambda>r. if row_id r = i
            then r\<lparr>status := fst (failure_outcome (retry_count row)),
                   retry_count := snd (failure_outcome (retry_count row)),
                   last_error := Some (truncate_str err 2048), claimed_at := None\<rparr> else r) (rows (db w))"
    using tail out by (auto simp: defs split: if_splits)
  show "consecutive_failures (db w') = consecutive_failures (db w) + 1"
    using tail out by (auto simp: defs split: if_splits)
  show "circuit_open_until_ms (db w') =
      (if consecutive_failures (db w) + 1 \<ge> CIRCUIT_FAILURE_THRESHOLD
       then wrap_i64 (clock_ms w (clock_reads w) + CIRCUIT_OPEN_DURATION_MS)
       else circuit_open_until_ms (db w))"
    using tail out by (auto simp: defs split: if_splits)
  show "clock_ms w' = clock_ms w"
    using tail out by (auto simp: defs split: if_splits)
qed

text \<open>
  C23. Recording a failure on every branch: a row that is gone is a no-op (the failure counter does
  not move); otherwise exactly that row loses its claim, keeps at most 2048 characters of the error
  and either returns to the queue with one more attempt on its account or, at the eighth, is
  abandoned.
\<close>

theorem mark_failed_accounting:
  assumes "mark_failed i err w = (Inr u, w')"
  shows "(case find (\<lambda>r. row_id r = i) (rows (db w)) of
      None \<Rightarrow> db w' = db w
    | Some row \<Rightarrow>
        consecutive_failures (db w') = consecutive_failures (db w) + 1
        \<and> rows (db w') = map (\<lambda>r. if row_id r = i
            then r\<lparr>status := (if retry_count row + 1 < 8 then Pending else Abandoned),
                   retry_count := retry_count row + 1,
                   last_error := Some (take 2048 err), claimed_at := None\<rparr> else r) (rows (db w)))"
proof (cases "find (\<lambda>r. row_id r = i) (rows (db w))")
  case None
  with mark_failed_absent [OF assms] show ?thesis by simp
next
  case (Some row)
  have "failure_outcome (retry_count row) =
      ((if retry_count row + 1 < 8 then Pending else Abandoned), retry_count row + 1)"
    by (simp add: failure_outcome_def decide_retry_def Let_def MAX_RETRY_COUNT_def)
  with mark_failed_present [OF assms Some] Some show ?thesis by (simp add: truncate_eq_take)
qed

text \<open>
  The circuit breaker: the third failure in a row without a confirmed upload in between opens
  the circuit, and for the next sixty seconds claims return nothing and leave the queue untouched.
\<close>

theorem breaker_blocks_claims:
  assumes run: "mark_failed i err w = (Inr u, w1)"
    and row: "i \<in> row_id ` set (rows (db w))"
    and third: "consecutive_failures (db w) = 2"
    and early: "clock_ms w (clock_reads w) \<le> i64_max - 60000"
    and window: "clock_ms w (clock_reads w1) < clock_ms w (clock_reads w) + 60000"
  shows "claim_next J w1 = (Inr None, w1\<lparr>clock_reads := Suc (clock_reads w1)\<rparr>)
    \<and> claim_next_kind J k w1 = (Inr None, w1\<lparr>clock_reads := Suc (clock_reads w1)\<rparr>)"
proof -
  from row obtain rw where "find (\<lambda>r. row_id r = i) (rows (db w)) = Some rw"
    by (cases "find (\<lambda>r. row_id r = i) (rows (db w))") (auto simp: find_None_iff)
  note mf = mark_failed_present [OF run this]
  let ?until = "clock_ms w (clock_reads w) + 60000"
  have "0 < ?until" "?until \<le> i64_max" using early clock_ms_range(1) [of w "clock_reads w"] by auto
  then have "wrap_i64 ?until = ?until"
    by (simp add: wrap_i64_def i64_min_def i64_max_def)
  then have until: "circuit_open_until_ms (db w1) = ?until"
    using mf(3) third by (simp add: CIRCUIT_FAILURE_THRESHOLD_def CIRCUIT_OPEN_DURATION_MS_def)
  have "circuit_state w1 = (Inr (Open ?until), w1\<lparr>clock_reads := Suc (clock_reads w1)\<rparr>)"
    using until window mf(4) \<open>0 < ?until\<close> by (simp add: circuit_state_eq)
  then show ?thesis by (simp add: claim_next_def claim_next_kind_def andthen_def ret_def)
qed

text \<open>
  Reviving abandoned rows looks at nothing but the age of the row: on a well-formed table an
  abandoned row is eligible exactly when it was created before the cutoff, however recently it was
  abandoned.
\<close>

theorem revivable_ignores_abandon_time:
  assumes "outbox_wf q" and "r \<in> set (rows q)"
  shows "revivable cutoff r \<longleftrightarrow> status r = Abandoned \<and> created_at r < cutoff"
  using assms by (auto simp: revivable_def outbox_wf_def row_wf_def)


section \<open>Example runs\<close>

text \<open>
  A small queue: an older and a newer waiting row, a session-mined candidate that was never
  approved, a row that failed seven times, and an abandoned one. The clock advances by one
  millisecond per reading and no statement fails.
\<close>

definition demo_json :: sqlite_json where
  "demo_json = \<lparr>json_valid = (\<lambda>_. True), json_extract = (\<lambda>_ _. None)\<rparr>"

definition demo_row :: "int \<Rightarrow> ustr \<Rightarrow> outbox_status \<Rightarrow> int \<Rightarrow> int \<Rightarrow> outbox_row" where
  "demo_row i k st n t = \<lparr>row_id = i, row_kind = k, payload_json = lit ''{}'', status = st,
     retry_count = n, created_at = t, claimed_at = None, last_error = None\<rparr>"

definition demo_queue :: outbox where
  "demo_queue = outbox_new []
     [demo_row 1 KIND_SESSION_MINED_CANDIDATE Pending 0 100, demo_row 2 (lit ''mcp_query'') Pending 0 300,
      demo_row 3 (lit ''trajectory'') Pending 7 200, demo_row 4 (lit ''trajectory'') Abandoned 8 50] 5"

definition demo_world :: "outbox \<Rightarrow> outbox world" where
  "demo_world q = \<lparr>db = q, clock = (\<lambda>n. 1000000 + int n), clock_reads = 0,
     sql_fault = (\<lambda>_. None), sql_calls = 0\<rparr>"

lemma demo_queue_wf: "outbox_wf demo_queue"
  by (simp add: outbox_wf_def demo_queue_def outbox_new_def demo_row_def row_wf_def MAX_RETRY_COUNT_def)

theorem claim_next_takes_oldest_witness:
  "\<exists>r \<in> set (rows demo_queue). row_id r = 3
     \<and> fst (claim_next demo_json (demo_world demo_queue)) = Inr (Some (outbox_item_from_row r))"
proof -
  let ?w = "demo_world demo_queue"
  let ?item = "\<lparr>item_id = 3, item_kind = lit ''trajectory'', item_payload = lit ''{}'', item_retry_count = 7\<rparr>"
  have run: "fst (claim_next demo_json ?w) = Inr (Some ?item)" by code_simp
  then have "claim_next demo_json ?w = (Inr (Some ?item), snd (claim_next demo_json ?w))"
    by (simp add: prod_eq_iff)
  from claim_next_takes_oldest [OF this] obtain r
    where "r \<in> set (rows (db ?w))" "?item = outbox_item_from_row r" by blast
  then show ?thesis using run by (intro bexI [of _ r]) (auto simp: demo_world_def outbox_item_from_row_def)
qed

theorem claims_within_stale_window_differ_witness:
  "\<exists>a b. fst (claim_next demo_json (demo_world demo_queue)) = Inr (Some a)
     \<and> fst (claim_next demo_json (snd (claim_next demo_json (demo_world demo_queue)))) = Inr (Some b)
     \<and> item_id a \<noteq> item_id b"
proof -
  let ?w = "demo_world demo_queue"
  let ?w1 = "snd (claim_next demo_json ?w)"
  let ?w2 = "snd (claim_next demo_json ?w1)"
  let ?a = "\<lparr>item_id = 3, item_kind = lit ''trajectory'', item_payload = lit ''{}'', item_retry_count = 7\<rparr>"
  let ?b = "\<lparr>item_id = 2, item_kind = lit ''mcp_query'', item_payload = lit ''{}'', item_retry_count = 0\<rparr>"
  have a: "fst (claim_next demo_json ?w) = Inr (Some ?a)" by code_simp
  have b: "fst (claim_next demo_json ?w1) = Inr (Some ?b)" by code_simp
  have t: "clock_ms ?w1 (clock_reads ?w2 - 1) \<le> clock_ms ?w (clock_reads ?w1 - 1) + 60000" by code_simp
  from a have "claim_next demo_json ?w = (Inr (Some ?a), ?w1)" by (simp add: prod_eq_iff)
  moreover from b have "claim_next demo_json ?w1 = (Inr (Some ?b), ?w2)" by (simp add: prod_eq_iff)
  ultimately have "item_id ?a \<noteq> item_id ?b" using t by (rule claims_within_stale_window_differ)
  with a b show ?thesis by blast
qed

theorem mark_failed_accounting_witness:
  "fst (mark_failed 3 (lit ''500'') (demo_world demo_queue)) = Inr ()
   \<and> map status (rows (db (snd (mark_failed 3 (lit ''500'') (demo_world demo_queue)))))
     = [Pending, Pending, Abandoned, Abandoned]"
proof -
  let ?w = "demo_world demo_queue"
  let ?w' = "snd (mark_failed 3 (lit ''500'') ?w)"
  have run: "fst (mark_failed 3 (lit ''500'') ?w) = Inr ()" by code_simp
  then have "mark_failed 3 (lit ''500'') ?w = (Inr (), ?w')" by (simp add: prod_eq_iff)
  note acc = mark_failed_accounting [OF this]
  have q: "db ?w = demo_queue" by (simp add: demo_world_def)
  have f: "find (\<lambda>r. row_id r = 3) (rows demo_queue) = Some (demo_row 3 (lit ''trajectory'') Pending 7 200)"
    by (simp add: demo_queue_def outbox_new_def demo_row_def)
  have "rows (db ?w') = map (\<lambda>r. if row_id r = 3
      then r\<lparr>status := Abandoned, retry_count := 8, last_error := Some (take 2048 (lit ''500'')),
             claimed_at := None\<rparr> else r) (rows demo_queue)"
    using acc by (simp add: q f) (simp add: demo_row_def)
  then have "map status (rows (db ?w')) = [Pending, Pending, Abandoned, Abandoned]"
    by (simp add: demo_queue_def outbox_new_def demo_row_def)
  with run show ?thesis by blast
qed

theorem breaker_blocks_claims_witness:
  "fst (claim_next demo_json (snd (mark_failed 2 (lit ''timeout'')
     (demo_world (demo_queue\<lparr>consecutive_failures := 2\<rparr>))))) = Inr None"
proof -
  let ?w = "demo_world (demo_queue\<lparr>consecutive_failures := 2\<rparr>)"
  let ?w' = "snd (mark_failed 2 (lit ''timeout'') ?w)"
  have "fst (mark_failed 2 (lit ''timeout'') ?w) = Inr ()" by code_simp
  then have run: "mark_failed 2 (lit ''timeout'') ?w = (Inr (), ?w')" by (simp add: prod_eq_iff)
  have row: "2 \<in> row_id ` set (rows (db ?w))" by code_simp
  have third: "consecutive_failures (db ?w) = 2" by (simp add: demo_world_def)
  have early: "clock_ms ?w (clock_reads ?w) \<le> i64_max - 60000" by code_simp
  have "clock_ms ?w (clock_reads ?w') < clock_ms ?w (clock_reads ?w) + 60000" by code_simp
  from breaker_blocks_claims [OF run row third early this] show ?thesis by simp
qed

theorem revivable_ignores_abandon_time_witness:
  "demo_row 4 (lit ''trajectory'') Abandoned 8 50 \<in> set (rows demo_queue)
   \<and> revivable 60 (demo_row 4 (lit ''trajectory'') Abandoned 8 50)"
proof -
  have m: "demo_row 4 (lit ''trajectory'') Abandoned 8 50 \<in> set (rows demo_queue)"
    by (simp add: demo_queue_def outbox_new_def)
  from revivable_ignores_abandon_time [OF demo_queue_wf m, of 60] m show ?thesis
    by (simp add: demo_row_def)
qed


end
