(* ===== verification/Session_Mined.thy ===== *)
theory Session_Mined
  imports Prelude
begin

text \<open>
  \<^verbatim>\<open>crates/difflore-core/src/cloud/session_mined.rs\<close>: candidate rules mined from sessions, the
  constructor that builds them from the output of the gate, and the validation that runs again
  before a queued candidate is uploaded. The hex digest of SHA-256 is the parameter
  \<open>sha256_hex\<close>. A \<^verbatim>\<open>RepoScope\<close> is represented by the string it wraps.
\<close>

section \<open>Data\<close>

definition TITLE_MAX_CHARS :: nat where "TITLE_MAX_CHARS = 120"
definition BODY_MAX_CHARS :: nat where "BODY_MAX_CHARS = 2000"
definition MAX_FILE_PATTERNS :: nat where "MAX_FILE_PATTERNS = 3"
definition ORIGIN :: ustr where "ORIGIN = lit ''session_mined''"

datatype SessionMinedLocalTriageStatus = SupersededBy | ClusteredInto | DroppedLowSignal | UnknownTriage

record SessionMinedLocalTriage =
  triage_status :: SessionMinedLocalTriageStatus
  triage_reason :: ustr
  triage_ref :: "ustr option"
  triage_at :: int

record SessionMinedLocalEvidence =
  distinct_evidence_count :: nat
  evidence_updated_at :: int

record SessionMinedCandidate =
  session_id :: ustr
  ts_ms :: int
  source_repo :: ustr
  title :: ustr
  body :: ustr
  file_patterns :: "ustr list"
  gate_model :: ustr
  gate_verdict :: ustr
  content_hash :: ustr
  origin :: ustr
  requires_human_approval :: bool
  local_triage :: "SessionMinedLocalTriage option"
  local_evidence :: "SessionMinedLocalEvidence option"

record SessionMinedCandidateArgs =
  arg_session_id :: ustr
  arg_ts_ms :: int
  arg_source_repo :: ustr
  arg_title :: ustr
  arg_body :: ustr
  arg_file_patterns :: "ustr list"
  arg_gate_model :: ustr
  arg_gate_verdict :: ustr

datatype CandidateError =
    MissingSourceRepo | MissingSessionId | InvalidTitle | InvalidBody | InvalidFilePatterns
  | MissingGateModel | InvalidGateVerdict | NotDraft | WrongOrigin | InvalidLocalTriageStatus
  | MissingLocalTriageReason | MissingLocalTriageRef | InvalidLocalTriageAt
  | SelfReferentialLocalTriageRef

section \<open>Operations\<close>

definition ellipsis :: uchar where "ellipsis = 8230"

definition truncate_chars :: "ustr \<Rightarrow> nat \<Rightarrow> ustr" where
  "truncate_chars s max_chars =
     (if length s \<le> max_chars then s else take (max_chars - 1) s @ [ellipsis])"

definition is_valid_verdict :: "ustr \<Rightarrow> bool" where
  "is_valid_verdict verdict =
     (if verdict = lit ''KEEP'' then True
      else case strip_prefix verdict (lit ''MERGE:'') of
        Some rest \<Rightarrow> trim rest \<noteq> [] | None \<Rightarrow> False)"

definition candidate_content_hash :: "(ustr \<Rightarrow> ustr) \<Rightarrow> ustr \<Rightarrow> ustr \<Rightarrow> ustr \<Rightarrow> ustr" where
  "candidate_content_hash sha256_hex repo t b = take 16 (sha256_hex (repo @ lit ''|'' @ t @ lit ''|'' @ b))"

definition needs_reference :: "SessionMinedLocalTriageStatus \<Rightarrow> bool" where
  "needs_reference st \<longleftrightarrow> st = SupersededBy \<or> st = ClusteredInto"

definition triage_new ::
  "SessionMinedLocalTriageStatus \<Rightarrow> ustr \<Rightarrow> ustr option \<Rightarrow> int
    \<Rightarrow> CandidateError + SessionMinedLocalTriage" where
  "triage_new st reason reference at =
     (if st = UnknownTriage then Inl InvalidLocalTriageStatus
      else let reason = trim reason in
        if reason = [] then Inl MissingLocalTriageReason
        else if at \<le> 0 then Inl InvalidLocalTriageAt
        else let reference = Option.bind (map_option trim reference)
                   (\<lambda>v. if v \<noteq> [] then Some v else None) in
          if needs_reference st \<and> reference = None then Inl MissingLocalTriageRef
          else Inr \<lparr>triage_status = st, triage_reason = reason, triage_ref = reference, triage_at = at\<rparr>)"

definition triage_validate :: "SessionMinedLocalTriage \<Rightarrow> CandidateError + unit" where
  "triage_validate t =
     (if triage_status t = UnknownTriage then Inr ()
      else if trim (triage_reason t) = [] then Inl MissingLocalTriageReason
      else if triage_at t \<le> 0 then Inl InvalidLocalTriageAt
      else if needs_reference (triage_status t)
        \<and> (case triage_ref t of None \<Rightarrow> True | Some v \<Rightarrow> trim v = []) then Inl MissingLocalTriageRef
      else Inr ())"

definition try_new ::
  "(ustr \<Rightarrow> ustr) \<Rightarrow> SessionMinedCandidateArgs \<Rightarrow> CandidateError + SessionMinedCandidate" where
  "try_new sha256_hex a =
     (let sid = trim (arg_session_id a) in
      if sid = [] then Inl MissingSessionId
      else if trim (arg_source_repo a) = [] then Inl MissingSourceRepo
      else let t = truncate_chars (trim (arg_title a)) TITLE_MAX_CHARS in
      if t = [] then Inl InvalidTitle
      else let b = truncate_chars (trim (arg_body a)) BODY_MAX_CHARS in
      if b = [] then Inl InvalidBody
      else let pats = take MAX_FILE_PATTERNS (filter (\<lambda>p. p \<noteq> []) (map trim (arg_file_patterns a))) in
      if pats = [] then Inl InvalidFilePatterns
      else let model = trim (arg_gate_model a) in
      if model = [] then Inl MissingGateModel
      else let verdict = trim (arg_gate_verdict a) in
      if \<not> is_valid_verdict verdict then Inl InvalidGateVerdict
      else Inr \<lparr>session_id = sid, ts_ms = arg_ts_ms a, source_repo = arg_source_repo a,
         title = t, body = b, file_patterns = pats, gate_model = model, gate_verdict = verdict,
         content_hash = candidate_content_hash sha256_hex (arg_source_repo a) t b,
         origin = ORIGIN, requires_human_approval = True,
         local_triage = None, local_evidence = None\<rparr>)"

definition candidate_validate :: "SessionMinedCandidate \<Rightarrow> CandidateError + unit" where
  "candidate_validate c =
     (if trim (session_id c) = [] then Inl MissingSessionId
      else if trim (source_repo c) = [] then Inl MissingSourceRepo
      else if title c = [] \<or> length (title c) > TITLE_MAX_CHARS then Inl InvalidTitle
      else if body c = [] \<or> length (body c) > BODY_MAX_CHARS then Inl InvalidBody
      else if file_patterns c = [] \<or> length (file_patterns c) > MAX_FILE_PATTERNS then Inl InvalidFilePatterns
      else if trim (gate_model c) = [] then Inl MissingGateModel
      else if \<not> is_valid_verdict (gate_verdict c) then Inl InvalidGateVerdict
      else if origin c \<noteq> ORIGIN then Inl WrongOrigin
      else if \<not> requires_human_approval c then Inl NotDraft
      else case local_triage c of
          None \<Rightarrow> Inr ()
        | Some t \<Rightarrow> (case triage_validate t of
              Inl e \<Rightarrow> Inl e
            | Inr _ \<Rightarrow> if needs_reference (triage_status t)
                \<and> (case triage_ref t of None \<Rightarrow> False | Some r \<Rightarrow> trim r = content_hash c)
              then Inl SelfReferentialLocalTriageRef else Inr ()))"

section \<open>Properties\<close>

lemma truncate_chars_length: "0 < n \<Longrightarrow> length (truncate_chars s n) \<le> n"
  by (auto simp: truncate_chars_def)

lemma truncate_chars_empty [simp]: "0 < n \<Longrightarrow> truncate_chars s n = [] \<longleftrightarrow> s = []"
  by (auto simp: truncate_chars_def)

lemmas candidate_limits = TITLE_MAX_CHARS_def BODY_MAX_CHARS_def MAX_FILE_PATTERNS_def

text \<open>
  The constructor establishes everything the validation demands: a candidate built from any
  gate output, if it is built at all, passes the validation that guards the upload.
\<close>

theorem try_new_validates:
  assumes "try_new sha256_hex a = Inr c"
  shows "candidate_validate c = Inr ()"
proof -
  let ?t = "truncate_chars (trim (arg_title a)) TITLE_MAX_CHARS"
  let ?b = "truncate_chars (trim (arg_body a)) BODY_MAX_CHARS"
  let ?p = "take MAX_FILE_PATTERNS (filter (\<lambda>p. p \<noteq> []) (map trim (arg_file_patterns a)))"
  from assms have "trim (arg_session_id a) \<noteq> []" "trim (arg_source_repo a) \<noteq> []"
      "?t \<noteq> []" "?b \<noteq> []" "?p \<noteq> []" "trim (arg_gate_model a) \<noteq> []"
      "is_valid_verdict (trim (arg_gate_verdict a))"
    and "session_id c = trim (arg_session_id a)" "source_repo c = arg_source_repo a"
      "title c = ?t" "body c = ?b" "file_patterns c = ?p" "gate_model c = trim (arg_gate_model a)"
      "gate_verdict c = trim (arg_gate_verdict a)" "origin c = ORIGIN"
      "requires_human_approval c" "local_triage c = None"
    unfolding try_new_def Let_def by (simp_all split: if_split_asm) auto
  moreover have "length ?t \<le> TITLE_MAX_CHARS" "length ?b \<le> BODY_MAX_CHARS" "length ?p \<le> MAX_FILE_PATTERNS"
    by (simp_all add: truncate_chars_length TITLE_MAX_CHARS_def BODY_MAX_CHARS_def)
  ultimately show ?thesis
    by (simp add: candidate_validate_def del: length_take)
qed

theorem try_new_validates_witness:
  "candidate_validate (projr (try_new (\<lambda>s. s) \<lparr>arg_session_id = lit '' s1 '', arg_ts_ms = 5,
     arg_source_repo = lit ''acme/app'', arg_title = lit ''Use the retry helper'',
     arg_body = lit ''Call retry() instead of a loop.'', arg_file_patterns = [lit ''src/*.rs''],
     arg_gate_model = lit ''claude:haiku'', arg_gate_verdict = lit ''KEEP''\<rparr>)) = Inr ()"
  (is "candidate_validate (projr ?r) = _")
proof -
  have "isl ?r = False" by code_simp
  then have "?r = Inr (projr ?r)" by simp
  then show ?thesis by (rule try_new_validates)
qed

text \<open>
  The same for a local triage mark: what \<^const>\<open>triage_new\<close> accepts, \<^const>\<open>triage_validate\<close>
  accepts, and marks that point to another rule always carry a reference.
\<close>

theorem triage_new_validates:
  assumes "triage_new st reason reference at = Inr t"
  shows "triage_validate t = Inr () \<and> triage_status t = st
    \<and> (needs_reference st \<longrightarrow> (\<exists>r. triage_ref t = Some r \<and> r \<noteq> []))"
  using assms
  by (auto simp: triage_new_def triage_validate_def Let_def trim_trim bind_eq_Some_conv
      split: if_splits option.splits)

theorem triage_new_validates_witness:
  "triage_validate (projr (triage_new SupersededBy (lit '' dup '') (Some (lit '' r7 '')) 10)) = Inr ()"
  (is "triage_validate (projr ?r) = _")
proof -
  have "isl ?r = False" by code_simp
  then have "?r = Inr (projr ?r)" by simp
  from triage_new_validates [OF this] show ?thesis by blast
qed

end
