(* ===== verification/Json.thy ===== *)
theory Json
  imports Prelude
begin

text \<open>
  The value type of \<^verbatim>\<open>serde_json\<close> as the sources use it: the constructors of
  \<^verbatim>\<open>serde_json::Value\<close> and the accessors \<^verbatim>\<open>get\<close>, \<^verbatim>\<open>as_str\<close>, \<^verbatim>\<open>as_u64\<close>, \<^verbatim>\<open>as_i64\<close>,
  \<^verbatim>\<open>as_array\<close>, \<^verbatim>\<open>as_object\<close>. The parser itself is not part of the repository; every function
  that parses takes it as an argument. Floating-point numbers are an opaque type \<open>'f\<close>.
\<close>

datatype 'f json =
    JNull
  | JBool bool
  | JPosInt nat
  | JNegInt int
  | JFloat 'f
  | JString ustr
  | JArray "'f json list"
  | JObject "(ustr \<times> 'f json) list"

fun as_object :: "'f json \<Rightarrow> (ustr \<times> 'f json) list option" where
  "as_object (JObject m) = Some m"
| "as_object _ = None"

fun as_str :: "'f json \<Rightarrow> ustr option" where
  "as_str (JString s) = Some s"
| "as_str _ = None"

fun as_u64 :: "'f json \<Rightarrow> nat option" where
  "as_u64 (JPosInt n) = Some n"
| "as_u64 _ = None"

fun as_i64 :: "'f json \<Rightarrow> int option" where
  "as_i64 (JPosInt n) = (if int n \<le> i64_max then Some (int n) else None)"
| "as_i64 (JNegInt n) = Some n"
| "as_i64 _ = None"

fun as_array :: "'f json \<Rightarrow> 'f json list option" where
  "as_array (JArray xs) = Some xs"
| "as_array _ = None"

definition is_object :: "'f json \<Rightarrow> bool" where
  "is_object v \<longleftrightarrow> as_object v \<noteq> None"

text \<open>\<^verbatim>\<open>Value::get(key)\<close> and \<^verbatim>\<open>Map::get(key)\<close>.\<close>

definition json_get :: "'f json \<Rightarrow> ustr \<Rightarrow> 'f json option" where
  "json_get v k = Option.bind (as_object v) (\<lambda>m. map_of m k)"

text \<open>\<^verbatim>\<open>v.get(key).and_then(Value::as_str)\<close>.\<close>

definition get_str :: "'f json \<Rightarrow> ustr \<Rightarrow> ustr option" where
  "get_str v k = Option.bind (json_get v k) as_str"

definition get_str_or :: "'f json \<Rightarrow> ustr \<Rightarrow> ustr \<Rightarrow> ustr" where
  "get_str_or v k d = (case get_str v k of Some s \<Rightarrow> s | None \<Rightarrow> d)"

definition get_usize_or_zero :: "'f json \<Rightarrow> ustr \<Rightarrow> nat" where
  "get_usize_or_zero v k = (case Option.bind (json_get v k) as_u64 of Some n \<Rightarrow> n | None \<Rightarrow> 0)"

definition get_strings :: "'f json \<Rightarrow> ustr \<Rightarrow> ustr list" where
  "get_strings v k = (case Option.bind (json_get v k) as_array of
     Some xs \<Rightarrow> List.map_filter as_str xs | None \<Rightarrow> [])"

end
