(* ===== verification/Outbox_Drain.thy ===== *)
theory Outbox_Drain
  imports Outbox Session_Mined Json
begin

text \<open>
  The drain of \<^verbatim>\<open>crates/difflore-core/src/cloud/outbox.rs\<close>: routing a claimed row to its upload
  (\<^verbatim>\<open>dispatch\<close>) and the drain loops. The cloud service is the parameter \<open>cloud_client\<close>: the loop asks the
  client of the \<open>n\<close>-th attempt, so answers may change between attempts. The decoders generated by
  serde are the parameter \<open>payload_codec\<close>.
\<close>

section \<open>Dispatch\<close>

datatype OutboxFailure = Http nat ustr ustr | Transport ustr

definition format_for_outbox_last_error :: "OutboxFailure \<Rightarrow> ustr" where
  "format_for_outbox_last_error f = (case f of
      Http code reason body_snippet \<Rightarrow>
        if body_snippet = [] then show_nat code @ lit '' '' @ reason
        else show_nat code @ lit '' '' @ reason @ lit '': '' @ body_snippet
    | Transport msg \<Rightarrow> lit ''transport: '' @ msg)"

record ('f, 'm, 'o) payload_codec =
  parse_value :: "ustr \<Rightarrow> ustr + 'f json"
  decode_metrics :: "'f json \<Rightarrow> ustr + 'm"
  decode_accepted_edit :: "ustr \<Rightarrow> ustr + RecordAcceptedEditRequest"
  decode_observation :: "ustr \<Rightarrow> ustr + 'o"
  decode_candidate :: "ustr \<Rightarrow> ustr + SessionMinedCandidate"
  sha256_hex :: "ustr \<Rightarrow> ustr"
  id_list_json :: string_list_json

record ('f, 'm, 'o) cloud_client =
  save_trajectory_outcome :: "ustr \<Rightarrow> 'f json \<Rightarrow> OutboxFailure option"
  record_review_metrics_outcome :: "ustr \<Rightarrow> 'm \<Rightarrow> OutboxFailure option"
  record_accepted_edit_response :: "RecordAcceptedEditRequest \<Rightarrow> ustr + RecordAcceptedEditResponse"
  track_mcp_query_outcome :: "ustr \<Rightarrow> ustr option \<Rightarrow> nat \<Rightarrow> nat \<Rightarrow> ustr list \<Rightarrow> ustr list
    \<Rightarrow> ustr option \<Rightarrow> ustr option \<Rightarrow> OutboxFailure option"
  post_observations_outcome :: "'o list \<Rightarrow> OutboxFailure option"
  post_session_mined_candidate_outcome :: "SessionMinedCandidate \<Rightarrow> OutboxFailure option"

record AcceptedEditAttributionSummary =
  uploaded :: nat
  launch_grade_count :: nat
  missing_team_workspace :: nat
  missing_rule_ids :: nat
  unlinked_rule_observations :: nat

definition no_attribution :: AcceptedEditAttributionSummary where
  "no_attribution = \<lparr>uploaded = 0, launch_grade_count = 0, missing_team_workspace = 0,
     missing_rule_ids = 0, unlinked_rule_observations = 0\<rparr>"

definition warning_count :: "AcceptedEditAttributionSummary \<Rightarrow> nat" where
  "warning_count s = missing_team_workspace s + missing_rule_ids s + unlinked_rule_observations s"

definition attribution_add ::
  "AcceptedEditAttributionSummary \<Rightarrow> AcceptedEditAttributionSummary \<Rightarrow> AcceptedEditAttributionSummary" where
  "attribution_add a b = \<lparr>uploaded = uploaded a + uploaded b,
     launch_grade_count = launch_grade_count a + launch_grade_count b,
     missing_team_workspace = missing_team_workspace a + missing_team_workspace b,
     missing_rule_ids = missing_rule_ids a + missing_rule_ids b,
     unlinked_rule_observations = unlinked_rule_observations a + unlinked_rule_observations b\<rparr>"

definition accepted_edit_attribution_summary ::
  "nat \<Rightarrow> RecordAcceptedEditResponse \<Rightarrow> AcceptedEditAttributionSummary" where
  "accepted_edit_attribution_summary expected rs =
     \<lparr>uploaded = (if acceptance_recorded rs then 1 else 0),
      launch_grade_count = (if launch_grade_paid_value_ready rs then 1 else 0),
      missing_team_workspace = (if acceptance_recorded rs \<and> rs_team_id rs = None then 1 else 0),
      missing_rule_ids = (if acceptance_recorded rs \<and> expected = 0 then 1 else 0),
      unlinked_rule_observations =
        (if acceptance_recorded rs \<and> expected > 0 \<and> rs_observations_inserted rs = 0 then 1 else 0)\<rparr>"

record DispatchOutcome =
  dispatch_ok :: bool
  attribution :: "AcceptedEditAttributionSummary option"
  receipt :: "AcceptedEditReceiptInsert option"
  dispatch_error :: "ustr option"

definition outcome_ok :: "bool \<Rightarrow> DispatchOutcome" where
  "outcome_ok b = \<lparr>dispatch_ok = b, attribution = None, receipt = None, dispatch_error = None\<rparr>"

definition failed_with :: "ustr \<Rightarrow> DispatchOutcome" where
  "failed_with e = \<lparr>dispatch_ok = False, attribution = None, receipt = None, dispatch_error = Some e\<rparr>"

definition from_upload :: "OutboxFailure option \<Rightarrow> DispatchOutcome" where
  "from_upload r = (case r of None \<Rightarrow> outcome_ok True
     | Some f \<Rightarrow> failed_with (format_for_outbox_last_error f))"

text \<open>The display text of \<^verbatim>\<open>CoreError::internal(msg)\<close>.\<close>

definition core_internal :: "ustr \<Rightarrow> ustr" where
  "core_internal msg = lit ''Internal error: '' @ msg"

fun candidate_error_text :: "CandidateError \<Rightarrow> ustr" where
  "candidate_error_text MissingSourceRepo =
     lit ''session-mined candidate is missing source_repo '' @ [8212] @ lit '' drop''"
| "candidate_error_text MissingSessionId =
     lit ''session-mined candidate is missing session_id '' @ [8212] @ lit '' drop''"
| "candidate_error_text InvalidTitle =
     lit ''session-mined candidate title invalid (empty or > 120 chars)''"
| "candidate_error_text InvalidBody =
     lit ''session-mined candidate body invalid (empty or > 2000 chars)''"
| "candidate_error_text InvalidFilePatterns =
     lit ''session-mined candidate must carry 1-3 file patterns''"
| "candidate_error_text MissingGateModel = lit ''session-mined candidate is missing gate_model''"
| "candidate_error_text InvalidGateVerdict =
     lit ''session-mined candidate gate_verdict must be '' @ [39] @ lit ''KEEP'' @ [39] @ lit '' or ''
       @ [39] @ lit ''MERGE:<id>'' @ [39]"
| "candidate_error_text NotDraft =
     lit ''session-mined candidates must keep requires_human_approval = true''"
| "candidate_error_text WrongOrigin =
     lit ''session-mined candidate has wrong origin (expected session_mined)''"
| "candidate_error_text InvalidLocalTriageStatus =
     lit ''session-mined candidate local triage status is invalid''"
| "candidate_error_text MissingLocalTriageReason =
     lit ''session-mined candidate local triage reason is missing''"
| "candidate_error_text MissingLocalTriageRef =
     lit ''session-mined candidate local triage ref is missing''"
| "candidate_error_text InvalidLocalTriageAt =
     lit ''session-mined candidate local triage timestamp is invalid''"
| "candidate_error_text SelfReferentialLocalTriageRef =
     lit ''session-mined candidate local triage ref points at itself''"

definition KIND_TRAJECTORY :: ustr where "KIND_TRAJECTORY = lit ''trajectory''"
definition KIND_REVIEW_METRICS :: ustr where "KIND_REVIEW_METRICS = lit ''review_metrics''"
definition KIND_ACCEPTED_EDIT :: ustr where "KIND_ACCEPTED_EDIT = lit ''accepted_edit''"
definition KIND_LEGACY_FIX_ACCEPTANCE :: ustr where "KIND_LEGACY_FIX_ACCEPTANCE = lit ''fix_acceptance''"
definition KIND_MCP_QUERY :: ustr where "KIND_MCP_QUERY = lit ''mcp_query''"
definition KIND_IMPORTED_REVIEWS :: ustr where "KIND_IMPORTED_REVIEWS = lit ''imported_reviews''"
definition KIND_OBSERVATION :: ustr where "KIND_OBSERVATION = lit ''observation''"

definition parse_as :: "ustr \<Rightarrow> (ustr + 'a) \<Rightarrow> ('a \<Rightarrow> ustr + 'b) \<Rightarrow> ustr + 'b" where
  "parse_as what r f = (case r of Inl e \<Rightarrow> Inl (core_internal (what @ lit '': '' @ e)) | Inr v \<Rightarrow> f v)"

definition dispatch_trajectory ::
  "('f, 'm, 'o) payload_codec \<Rightarrow> ('f, 'm, 'o) cloud_client \<Rightarrow> ustr \<Rightarrow> ustr + DispatchOutcome" where
  "dispatch_trajectory C cl payload =
     parse_as (lit ''trajectory parse'') (parse_value C payload) (\<lambda>v.
       case get_str v (lit ''pr_review_id'') of
         None \<Rightarrow> Inl (core_internal (lit ''trajectory missing pr_review_id''))
       | Some pid \<Rightarrow> Inr (from_upload (save_trajectory_outcome cl pid
           (case json_get v (lit ''steps'') of Some s \<Rightarrow> s | None \<Rightarrow> JArray []))))"

definition dispatch_review_metrics ::
  "('f, 'm, 'o) payload_codec \<Rightarrow> ('f, 'm, 'o) cloud_client \<Rightarrow> ustr \<Rightarrow> ustr + DispatchOutcome" where
  "dispatch_review_metrics C cl payload =
     parse_as (lit ''review_metrics parse'') (parse_value C payload) (\<lambda>v.
       case get_str v (lit ''review_id'') of
         None \<Rightarrow> Inl (core_internal (lit ''review_metrics missing review_id''))
       | Some rid \<Rightarrow>
           parse_as (lit ''review_metrics decode req'')
             (decode_metrics C (case json_get v (lit ''req'') of Some r \<Rightarrow> r | None \<Rightarrow> JObject [])) (\<lambda>req.
             Inr (from_upload (record_review_metrics_outcome cl rid req))))"

definition dispatch_accepted_edit ::
  "('f, 'm, 'o) payload_codec \<Rightarrow> ('f, 'm, 'o) cloud_client \<Rightarrow> ustr \<Rightarrow> ustr + DispatchOutcome" where
  "dispatch_accepted_edit C cl payload =
     parse_as (lit ''accepted_edit parse'') (decode_accepted_edit C payload) (\<lambda>req.
       let expected = length (filter (\<lambda>r. trim r \<noteq> []) (rq_rule_ids req)) in
       case record_accepted_edit_response cl req of
         Inl e \<Rightarrow> Inl e
       | Inr rs \<Rightarrow> Inr \<lparr>dispatch_ok = acceptance_recorded rs,
           attribution = Some (accepted_edit_attribution_summary expected rs),
           receipt = receipt_from_accepted_edit_response (sha256_hex C) req rs,
           dispatch_error = (if acceptance_recorded rs then None
             else Some (lit ''accepted_edit rejected: ''
               @ (case rs_error rs of Some e \<Rightarrow> e | None \<Rightarrow> lit ''no detail'')))\<rparr>)"

definition dispatch_mcp_query ::
  "('f, 'm, 'o) payload_codec \<Rightarrow> ('f, 'm, 'o) cloud_client \<Rightarrow> ustr \<Rightarrow> ustr + DispatchOutcome" where
  "dispatch_mcp_query C cl payload =
     parse_as (lit ''mcp_query parse'') (parse_value C payload) (\<lambda>v.
       Inr (from_upload (track_mcp_query_outcome cl
         (get_str_or v (lit ''file'') []) (get_str v (lit ''intent''))
         (get_usize_or_zero v (lit ''rules_injected'')) (get_usize_or_zero v (lit ''strict_match_count''))
         (get_strings v (lit ''rule_titles'')) (get_strings v (lit ''rule_ids''))
         (get_str v (lit ''client_label'')) (get_str v (lit ''repo_full_name'')))))"

definition dispatch_session_mined ::
  "('f, 'm, 'o) payload_codec \<Rightarrow> ('f, 'm, 'o) cloud_client \<Rightarrow> ustr \<Rightarrow> ustr + DispatchOutcome" where
  "dispatch_session_mined C cl payload =
     parse_as (lit ''session_mined_candidate parse'') (decode_candidate C payload) (\<lambda>cand.
       case candidate_validate cand of
         Inl e \<Rightarrow> Inl (core_internal (lit ''session_mined_candidate validate: '' @ candidate_error_text e))
       | Inr _ \<Rightarrow> Inr (from_upload (post_session_mined_candidate_outcome cl cand)))"

definition dispatch ::
  "('f, 'm, 'o) payload_codec \<Rightarrow> ('f, 'm, 'o) cloud_client \<Rightarrow> OutboxItem \<Rightarrow> ustr + DispatchOutcome" where
  "dispatch C cl item =
     (let k = item_kind item; p = item_payload item in
      if k = KIND_TRAJECTORY then dispatch_trajectory C cl p
      else if k = KIND_REVIEW_METRICS then dispatch_review_metrics C cl p
      else if k = KIND_ACCEPTED_EDIT then dispatch_accepted_edit C cl p
      else if k = KIND_LEGACY_FIX_ACCEPTANCE then Inr (outcome_ok True)
      else if k = KIND_IMPORTED_REVIEWS then Inr (outcome_ok True)
      else if k = KIND_MCP_QUERY then dispatch_mcp_query C cl p
      else if k = KIND_OBSERVATION then
        parse_as (lit ''observation parse'') (decode_observation C p) (\<lambda>obs.
          Inr (from_upload (post_observations_outcome cl [obs])))
      else if k = KIND_SESSION_MINED_CANDIDATE then dispatch_session_mined C cl p
      else Inl (core_internal (lit ''unknown outbox kind '' @ [39] @ k @ [39])))"

section \<open>The drain loop\<close>

record OutboxDrainReport =
  attempted :: nat
  confirmed :: nat
  report_attribution :: AcceptedEditAttributionSummary

definition empty_report :: OutboxDrainReport where
  "empty_report = \<lparr>attempted = 0, confirmed = 0, report_attribution = no_attribution\<rparr>"

text \<open>
  Settling a claimed row from the answer of its dispatch, then going on with the loop (\<open>again\<close>). A
  failing \<^verbatim>\<open>mark_failed\<close> is ignored, a failing confirm ends the drain with the error.
\<close>

definition settle_claimed ::
  "(int \<Rightarrow> ('q, unit) io) \<Rightarrow> (int \<Rightarrow> ustr \<Rightarrow> ('q, unit) io)
    \<Rightarrow> (AcceptedEditReceiptInsert \<Rightarrow> ('q, unit) io)
    \<Rightarrow> (OutboxDrainReport \<Rightarrow> ('q, OutboxDrainReport) io) \<Rightarrow> OutboxDrainReport \<Rightarrow> int
    \<Rightarrow> ustr + DispatchOutcome \<Rightarrow> ('q, OutboxDrainReport) io" where
  "settle_claimed confirm_row fail_row record_receipt again rep i answer =
     (case answer of
        Inl err \<Rightarrow> andthen (attempt (fail_row i err)) (\<lambda>_. again rep)
      | Inr outcome \<Rightarrow>
          if dispatch_ok outcome then
            andthen (case receipt outcome of None \<Rightarrow> ret (Inr ())
                     | Some rc \<Rightarrow> attempt (record_receipt rc)) (\<lambda>recorded.
            case recorded of
              Inl e \<Rightarrow> andthen (attempt (fail_row i (lit ''accepted_edit receipt: '' @ e))) (\<lambda>_. again rep)
            | Inr _ \<Rightarrow> andthen (confirm_row i) (\<lambda>_.
                again (rep\<lparr>confirmed := Suc (confirmed rep),
                  report_attribution := (case attribution outcome of None \<Rightarrow> report_attribution rep
                    | Some s \<Rightarrow> attribution_add (report_attribution rep) s)\<rparr>)))
          else andthen (attempt (fail_row i (case dispatch_error outcome of
              Some e \<Rightarrow> e | None \<Rightarrow> lit ''upload returned non-2xx (no detail)''))) (\<lambda>_. again rep))"

text \<open>The loop over the operations of the queue it drains; a failing claim ends it with the error.\<close>

fun drain_loop ::
  "('q, CircuitState) io \<Rightarrow> ('q, OutboxItem option) io \<Rightarrow> (int \<Rightarrow> ('q, unit) io)
    \<Rightarrow> (int \<Rightarrow> ustr \<Rightarrow> ('q, unit) io) \<Rightarrow> (AcceptedEditReceiptInsert \<Rightarrow> ('q, unit) io)
    \<Rightarrow> (nat \<Rightarrow> OutboxItem \<Rightarrow> ustr + DispatchOutcome) \<Rightarrow> nat \<Rightarrow> OutboxDrainReport
    \<Rightarrow> ('q, OutboxDrainReport) io" where
  "drain_loop circuit claim confirm_row fail_row record_receipt disp 0 rep = ret rep"
| "drain_loop circuit claim confirm_row fail_row record_receipt disp (Suc n) rep =
     andthen circuit (\<lambda>c. case c of Open _ \<Rightarrow> ret rep | Closed \<Rightarrow>
     andthen claim (\<lambda>claimed. case claimed of None \<Rightarrow> ret rep | Some item \<Rightarrow>
       settle_claimed confirm_row fail_row record_receipt
         (drain_loop circuit claim confirm_row fail_row record_receipt disp n)
         (rep\<lparr>attempted := Suc (attempted rep)\<rparr>) (item_id item) (disp (attempted rep) item)))"

definition drain_rows ::
  "sqlite_json \<Rightarrow> ('f, 'm, 'o) payload_codec \<Rightarrow> (nat \<Rightarrow> ('f, 'm, 'o) cloud_client)
    \<Rightarrow> ustr option \<Rightarrow> nat \<Rightarrow> (outbox, OutboxDrainReport) io" where
  "drain_rows J C client kind max_items =
     drain_loop circuit_state
       (case kind of Some k \<Rightarrow> claim_next_kind J k | None \<Rightarrow> claim_next J)
       confirm mark_failed (record_confirmed (id_list_json C)) (\<lambda>n. dispatch C (client n)) max_items empty_report"

definition drain_outbox_report ::
  "bool \<Rightarrow> sqlite_json \<Rightarrow> ('f, 'm, 'o) payload_codec \<Rightarrow> (nat \<Rightarrow> ('f, 'm, 'o) cloud_client)
    \<Rightarrow> nat \<Rightarrow> (outbox, OutboxDrainReport) io" where
  "drain_outbox_report logged_in J C client max_items =
     (if \<not> logged_in then ret empty_report else drain_rows J C client None max_items)"

definition drain_outbox ::
  "bool \<Rightarrow> sqlite_json \<Rightarrow> ('f, 'm, 'o) payload_codec \<Rightarrow> (nat \<Rightarrow> ('f, 'm, 'o) cloud_client)
    \<Rightarrow> nat \<Rightarrow> (outbox, nat \<times> nat) io" where
  "drain_outbox logged_in J C client max_items =
     andthen (drain_outbox_report logged_in J C client max_items) (\<lambda>r. ret (attempted r, confirmed r))"

section \<open>What a drain may rely on, and what it then guarantees\<close>

text \<open>
  The contract between a queue and the loop that drains it. \<open>owed\<close> are the rows the queue still
  owes to the cloud, each by its id, kind and payload, and \<open>ready\<close> those that may be uploaded.
  A claim returns a ready row; only a confirmation takes a row away, and only the confirmed one.
\<close>

type_synonym row_key = "int \<times> ustr \<times> ustr"

definition item_key :: "OutboxItem \<Rightarrow> row_key" where
  "item_key item = (item_id item, item_kind item, item_payload item)"

locale delivery_queue =
  fixes owed :: "'q \<Rightarrow> row_key set"
    and ready :: "row_key \<Rightarrow> bool"
    and circuit :: "('q, CircuitState) io"
    and claim :: "('q, OutboxItem option) io"
    and confirm_row :: "int \<Rightarrow> ('q, unit) io"
    and fail_row :: "int \<Rightarrow> ustr \<Rightarrow> ('q, unit) io"
    and record_receipt :: "AcceptedEditReceiptInsert \<Rightarrow> ('q, unit) io"
  assumes finite_owed: "finite (owed q)"
    and circuit_owed: "stable owed circuit"
    and claim_owed: "stable owed claim"
    and claim_present: "post claim w (\<lambda>r w'. \<forall>item. r = Inr (Some item)
      \<longrightarrow> item_key item \<in> owed (db w') \<and> ready (item_key item))"
    and confirm_owed: "post (confirm_row i) w (\<lambda>r w'.
      case r of Inl _ \<Rightarrow> owed (db w') = owed (db w) | Inr _ \<Rightarrow> owed (db w') = {x \<in> owed (db w). fst x \<noteq> i})"
    and fail_owed: "stable owed (fail_row i err)"
    and receipt_owed: "stable owed (record_receipt rc)"
begin

text \<open>A row that is gone was ready and uploaded: some attempt on it was answered with success.\<close>

definition delivered :: "(nat \<Rightarrow> OutboxItem \<Rightarrow> ustr + DispatchOutcome) \<Rightarrow> row_key \<Rightarrow> bool" where
  "delivered disp x \<longleftrightarrow> ready x \<and> (\<exists>n item outcome. item_key item = x \<and> disp n item = Inr outcome \<and> dispatch_ok outcome)"

definition ids :: "'q \<Rightarrow> int set" where
  "ids q = fst ` owed q"

definition settled ::
  "(nat \<Rightarrow> OutboxItem \<Rightarrow> ustr + DispatchOutcome) \<Rightarrow> nat \<Rightarrow> OutboxDrainReport \<Rightarrow> 'q world
    \<Rightarrow> ustr + OutboxDrainReport \<Rightarrow> 'q world \<Rightarrow> bool" where
  "settled disp n rep w r w' \<longleftrightarrow>
     owed (db w') \<subseteq> owed (db w)
     \<and> (\<forall>i \<in> ids (db w) - ids (db w'). \<exists>x \<in> owed (db w). fst x = i \<and> delivered disp x)
     \<and> (case r of Inl _ \<Rightarrow> True | Inr rep' \<Rightarrow>
          attempted rep \<le> attempted rep' \<and> attempted rep' \<le> attempted rep + n
          \<and> confirmed rep' + card (ids (db w')) = confirmed rep + card (ids (db w))
          \<and> confirmed rep' + attempted rep \<le> confirmed rep + attempted rep')"

lemma settled_same:
  "owed (db w') = owed (db w) \<Longrightarrow> settled disp n rep w (Inr rep) w'"
  "owed (db w') = owed (db w) \<Longrightarrow> settled disp n rep w (Inl e) w'"
  by (simp_all add: settled_def ids_def)

text \<open>One more attempt, which leaves the row in the queue or takes it off.\<close>

lemma settled_failed:
  assumes "owed (db w1) = owed (db w)" and "settled disp n (rep\<lparr>attempted := Suc (attempted rep)\<rparr>) w1 r w'"
  shows "settled disp (Suc n) rep w r w'"
  using assms by (auto simp: settled_def ids_def split: sum.splits)

lemma settled_confirmed:
  assumes w1: "owed (db w1) = {y \<in> owed (db w). fst y \<noteq> fst x}" and x: "x \<in> owed (db w)" "delivered disp x"
    and rest: "settled disp n (rep\<lparr>attempted := Suc (attempted rep), confirmed := Suc (confirmed rep),
           report_attribution := a\<rparr>) w1 r w'"
  shows "settled disp (Suc n) rep w r w'"
proof -
  have i1: "ids (db w1) = ids (db w) - {fst x}" using w1 by (auto simp: ids_def)
  have "finite (ids (db w))" "fst x \<in> ids (db w)" using finite_owed x(1) by (auto simp: ids_def)
  then have "card (ids (db w)) = Suc (card (ids (db w1)))"
    unfolding i1 by (metis card_Suc_Diff1)
  moreover have "\<exists>y \<in> owed (db w). fst y = i \<and> delivered disp y" if "i \<in> ids (db w) - ids (db w')" for i
  proof (cases "i = fst x")
    case False
    then have "i \<in> ids (db w1) - ids (db w')" using that i1 by blast
    then obtain y where "y \<in> owed (db w1)" "fst y = i" "delivered disp y"
      using rest unfolding settled_def by blast
    then show ?thesis using w1 by blast
  qed (use x in blast)
  ultimately show ?thesis using rest w1 by (auto simp: settled_def split: sum.splits)
qed

lemma settle_failed_row:
  assumes IH: "\<And>rep w. post (again rep) w (settled disp n rep w)" and w1: "owed (db w1) = owed (db w)"
  shows "post (andthen (attempt (fail_row i err)) (\<lambda>_. again (rep\<lparr>attempted := Suc (attempted rep)\<rparr>))) w1
    (settled disp (Suc n) rep w)"
  unfolding post_andthen post_attempt
  by (rule post_mono [OF stable_post [OF fail_owed]]) (auto simp: w1 intro: post_mono [OF IH] settled_failed)

lemma settle_confirmed_row:
  assumes IH: "\<And>rep w. post (again rep) w (settled disp n rep w)" and w1: "owed (db w1) = owed (db w)"
    and x: "x \<in> owed (db w)" "delivered disp x"
  shows "post (andthen (confirm_row (fst x)) (\<lambda>_. again (rep\<lparr>attempted := Suc (attempted rep),
    confirmed := Suc (confirmed rep), report_attribution := a\<rparr>))) w1 (settled disp (Suc n) rep w)"
  unfolding post_andthen
proof (rule post_mono [OF confirm_owed], goal_cases)
  case (1 r w2)
  then show ?case
    by (cases r) (auto simp: w1 settled_same(2) intro: post_mono [OF IH] settled_confirmed [OF _ x])
qed

lemma settle_receipt:
  "post (case x of None \<Rightarrow> ret (Inr ()) | Some rc \<Rightarrow> attempt (record_receipt rc)) w
     (\<lambda>r w'. owed (db w') = owed (db w) \<and> (\<exists>x. r = Inr x))"
  by (cases x) (auto simp: post_attempt intro: post_mono [OF stable_post [OF receipt_owed]])

lemma settle_claimed_settles:
  assumes IH: "\<And>rep w. post (again rep) w (settled disp n rep w)" and w1: "owed (db w1) = owed (db w)"
    and i: "item_key item \<in> owed (db w)" and rdy: "ready (item_key item)"
  shows "post (settle_claimed confirm_row fail_row record_receipt again
      (rep\<lparr>attempted := Suc (attempted rep)\<rparr>) (item_id item) (disp k item)) w1 (settled disp (Suc n) rep w)"
proof (cases "\<exists>outcome. disp k item = Inr outcome \<and> dispatch_ok outcome")
  case False
  then show ?thesis
    using settle_failed_row [OF IH w1] by (auto simp: settle_claimed_def split: sum.splits)
next
  case True
  then obtain outcome where out: "disp k item = Inr outcome" "dispatch_ok outcome" by blast
  then have "delivered disp (item_key item)" using rdy by (auto simp: delivered_def)
  note ok = settle_confirmed_row [OF IH _ i this, unfolded item_key_def fst_conv]
  show ?thesis
    unfolding settle_claimed_def out sum.case if_P [OF out(2)] post_andthen [of "case receipt outcome of None \<Rightarrow> _ | Some rc \<Rightarrow> _ rc"]
    by (rule post_mono [OF settle_receipt])
      (auto simp: w1 split: sum.splits intro: settle_failed_row [OF IH] ok)
qed

lemma drain_loop_settles:
  "post (drain_loop circuit claim confirm_row fail_row record_receipt disp n rep) w (settled disp n rep w)"
proof (induction n arbitrary: rep w)
  case 0
  show ?case by (simp add: settled_same)
next
  case (Suc n)
  have claim: "post claim w1 (\<lambda>r w2. owed (db w2) = owed (db w1)
      \<and> (\<forall>item. r = Inr (Some item) \<longrightarrow> item_key item \<in> owed (db w1) \<and> ready (item_key item)))" for w1
    using claim_present [of w1] stable_post [OF claim_owed, of w1] by (auto simp: post_def)
  show ?case
    unfolding drain_loop.simps post_andthen [of circuit]
  proof (rule post_mono [OF stable_post [OF circuit_owed]], goal_cases)
    case (1 rc w1)
    have "post (andthen claim (\<lambda>claimed. case claimed of None \<Rightarrow> ret rep | Some item \<Rightarrow>
        settle_claimed confirm_row fail_row record_receipt
          (drain_loop circuit claim confirm_row fail_row record_receipt disp n)
          (rep\<lparr>attempted := Suc (attempted rep)\<rparr>) (item_id item) (disp (attempted rep) item)))
        w1 (settled disp (Suc n) rep w)"
      unfolding post_andthen [of claim]
    proof (rule post_mono [OF claim], goal_cases)
      case (1 r w2)
      with \<open>owed (db w1) = owed (db w)\<close> show ?case
        by (auto simp: settled_same split: sum.split option.split intro: settle_claimed_settles [OF Suc.IH])
    qed
    with 1 show ?case by (auto simp: settled_same split: sum.split CircuitState.split)
  qed
qed

end

section \<open>The queue meets the contract\<close>

definition row_entry :: "outbox_row \<Rightarrow> row_key" where
  "row_entry r = (row_id r, row_kind r, payload_json r)"

definition owed_rows :: "outbox \<Rightarrow> row_key set" where
  "owed_rows q = row_entry ` set (rows q)"

lemma finite_owed_rows: "finite (owed_rows q)"
  by (simp add: owed_rows_def)

lemma fst_owed_rows: "fst ` owed_rows q = row_id ` set (rows q)"
  by (simp add: owed_rows_def row_entry_def image_image)

lemma owed_rows_update_where [simp]:
  assumes "\<And>r. row_entry (f r) = row_entry r"
  shows "owed_rows (update_where P f q) = owed_rows q"
proof -
  have "row_entry (if P r then f r else r) = row_entry r" for r using assms by simp
  then have "row_entry ` (\<lambda>r. if P r then f r else r) ` set (rows q) = row_entry ` set (rows q)"
    by (simp only: image_image)
  then show ?thesis by (simp only: owed_rows_def rows_update_where set_map)
qed

lemma owed_rows_breaker [simp]:
  "owed_rows (q\<lparr>consecutive_failures := n\<rparr>) = owed_rows q"
  "owed_rows (q\<lparr>circuit_open_until_ms := t\<rparr>) = owed_rows q"
  "owed_rows (q\<lparr>receipts := rs\<rparr>) = owed_rows q"
  by (simp_all add: owed_rows_def)

lemma owed_rows_stmts [simp]:
  "owed_rows (snd (claim_stmt P now q)) = owed_rows q"
  "owed_rows (snd (select_stmt i q)) = owed_rows q"
  "owed_rows (snd (fail_stmt i st n err q)) = owed_rows q"
  "owed_rows (snd (delete_stmt i q)) = {x \<in> owed_rows q. fst x \<noteq> i}"
  by (auto simp: claim_stmt_def select_stmt_def fail_stmt_def delete_stmt_def row_entry_def split: option.splits)
    (auto simp: owed_rows_def row_entry_def)

lemma stable_circuit_state: "stable owed_rows circuit_state"
  unfolding stable_iff_keeps by (auto intro: keeps_circuit_state)

lemma stable_claim_next: "stable owed_rows (claim_next J)"
  unfolding stable_iff_keeps claim_next_def by (auto intro!: io_intros)

lemma stable_claim_next_kind: "stable owed_rows (claim_next_kind J k)"
  unfolding stable_iff_keeps claim_next_kind_def by (auto intro!: io_intros)

lemma stable_mark_failed: "stable owed_rows (mark_failed i err)"
  unfolding stable_iff_keeps mark_failed_def Let_def bump_failures_def
  by (auto intro!: io_intros split: prod.splits)

lemma stable_record_confirmed: "stable owed_rows (record_confirmed S rc)"
  unfolding stable_iff_keeps record_confirmed_def by (auto intro!: io_intros)

lemma claim_stmt_present:
  "fst (claim_stmt P now q) = Some item \<Longrightarrow> \<exists>r \<in> set (rows q). P r \<and> item = outbox_item_from_row r"
  by (auto simp: claim_stmt_def split: option.splits dest!: oldest_in)

lemma post_claim_present:
  assumes "\<And>now r. P now r \<Longrightarrow> K (row_entry r)"
  shows "post (andthen circuit_state (\<lambda>c. case c of Open _ \<Rightarrow> ret None
     | Closed \<Rightarrow> andthen now_unix_ms (\<lambda>now. sql (claim_stmt (P now) now)))) w
     (\<lambda>r w'. \<forall>item. r = Inr (Some item) \<longrightarrow> item_key item \<in> owed_rows (db w') \<and> K (item_key item))"
  unfolding post_andthen [of circuit_state]
proof (rule post_mono [OF stable_post [OF stable_circuit_state]], goal_cases)
  case (1 r w1)
  have "item_key item \<in> owed_rows q' \<and> K (item_key item)"
    if "claim_stmt (P now) now q = (Some item, q')" for now q item q'
  proof -
    from that claim_stmt_present [of "P now" now q item] obtain r
      where "r \<in> set (rows q)" "P now r" "item = outbox_item_from_row r" by auto
    moreover have "owed_rows q' = owed_rows q" using that owed_rows_stmts(1) [of "P now" now q] by simp
    ultimately show ?thesis
      using assms by (auto simp: owed_rows_def row_entry_def item_key_def outbox_item_from_row_def)
  qed
  then show ?case
    by (auto split: sum.split CircuitState.split simp: post_andthen)
      (auto simp: post_def now_unix_ms_eq sql_def Let_def split: option.splits prod.splits)
qed

lemma post_confirm:
  "post (confirm i) w (\<lambda>r w'. case r of Inl _ \<Rightarrow> owed_rows (db w') = owed_rows (db w)
     | Inr _ \<Rightarrow> owed_rows (db w') = {x \<in> owed_rows (db w). fst x \<noteq> i})"
  unfolding confirm_def post_andthen by (rule post_sqlI) auto

text \<open>What the claims demand of a row beyond its age: a session-mined candidate was approved locally.\<close>

definition approved_key :: "sqlite_json \<Rightarrow> row_key \<Rightarrow> bool" where
  "approved_key J = (\<lambda>(i, k, p). k = KIND_SESSION_MINED_CANDIDATE \<longrightarrow>
     json_valid J p \<and> to_ascii_lowercase (case json_extract J p LOCAL_REVIEW_STATUS_PATH of
       None \<Rightarrow> [] | Some v \<Rightarrow> v) = LOCAL_REVIEW_APPROVED)"

lemma approved_row: "approved_key J (row_entry r) \<longleftrightarrow> row_kind r \<noteq> KIND_SESSION_MINED_CANDIDATE \<or> locally_approved J r"
  by (auto simp: approved_key_def row_entry_def locally_approved_def)

lemma post_claim_next:
  "post (claim_next J) w (\<lambda>r w'. \<forall>item. r = Inr (Some item)
     \<longrightarrow> item_key item \<in> owed_rows (db w') \<and> approved_key J (item_key item))"
  unfolding claim_next_def by (rule post_claim_present) (auto simp: approved_row uploadable_def)

lemma post_claim_next_kind:
  "post (claim_next_kind J k) w (\<lambda>r w'. \<forall>item. r = Inr (Some item)
     \<longrightarrow> item_key item \<in> owed_rows (db w') \<and> approved_key J (item_key item) \<and> item_kind item = k)"
  unfolding claim_next_kind_def
  by (rule post_mono [OF post_claim_present [where K = "\<lambda>x. approved_key J x \<and> fst (snd x) = k"]])
    (auto simp: approved_row item_key_def, auto simp: row_entry_def)

interpretation all_kinds: delivery_queue owed_rows "approved_key J" circuit_state "claim_next J" confirm
  mark_failed "record_confirmed S" for J S
  by unfold_locales (simp_all add: finite_owed_rows stable_circuit_state stable_claim_next
    stable_mark_failed stable_record_confirmed post_confirm post_claim_next)

interpretation one_kind: delivery_queue owed_rows "approved_key J" circuit_state "claim_next_kind J k" confirm
  mark_failed "record_confirmed S" for J k S
proof unfold_locales
  show "post (claim_next_kind J k) w (\<lambda>r w'. \<forall>item. r = Inr (Some item)
      \<longrightarrow> item_key item \<in> owed_rows (db w') \<and> approved_key J (item_key item))" for w
    by (rule post_mono [OF post_claim_next_kind]) simp
qed (simp_all add: finite_owed_rows stable_circuit_state stable_claim_next_kind
    stable_mark_failed stable_record_confirmed post_confirm)

section \<open>Properties of the drain\<close>

lemma dispatch_kinds:
  "KIND_SESSION_MINED_CANDIDATE \<noteq> KIND_TRAJECTORY"
  "KIND_SESSION_MINED_CANDIDATE \<noteq> KIND_REVIEW_METRICS"
  "KIND_SESSION_MINED_CANDIDATE \<noteq> KIND_ACCEPTED_EDIT"
  "KIND_SESSION_MINED_CANDIDATE \<noteq> KIND_LEGACY_FIX_ACCEPTANCE"
  "KIND_SESSION_MINED_CANDIDATE \<noteq> KIND_IMPORTED_REVIEWS"
  "KIND_SESSION_MINED_CANDIDATE \<noteq> KIND_MCP_QUERY"
  "KIND_SESSION_MINED_CANDIDATE \<noteq> KIND_OBSERVATION"
  by code_simp+

lemma drain_rows_settled:
  assumes "drain_rows J C client kind n w = (r, w')"
  shows "all_kinds.settled J (\<lambda>k. dispatch C (client k)) n empty_report w r w'"
proof (cases kind)
  case None
  show ?thesis
    using assms postD [OF all_kinds.drain_loop_settles] unfolding drain_rows_def None option.case by blast
next
  case (Some k)
  show ?thesis
    using assms postD [OF one_kind.drain_loop_settles] unfolding drain_rows_def Some option.case by blast
qed

lemma keeps_drain_loop:
  assumes "keeps I circuit" "keeps I claim" "\<And>i. keeps I (confirm_row i)"
    "\<And>i e. keeps I (fail_row i e)" "\<And>rc. keeps I (record_receipt rc)"
  shows "keeps I (drain_loop circuit claim confirm_row fail_row record_receipt disp n rep)"
proof (induction n arbitrary: rep)
  case 0
  show ?case by (simp add: keeps_ret)
next
  case (Suc n)
  have settle: "keeps I (settle_claimed confirm_row fail_row record_receipt
      (drain_loop circuit claim confirm_row fail_row record_receipt disp n) rep' i answer)" for rep' i answer
    unfolding settle_claimed_def
    by (intro keeps_sum keeps_andthen keeps_attempt keeps_if keeps_option keeps_ret assms Suc.IH)
  show ?case
    unfolding drain_loop.simps
    by (intro keeps_andthen keeps_CircuitState_case keeps_option keeps_ret assms settle)
qed

lemma keeps_drain_rows: "keeps outbox_wf (drain_rows J C client kind n)"
proof -
  have "keeps outbox_wf (case kind of Some k \<Rightarrow> claim_next_kind J k | None \<Rightarrow> claim_next J)"
    by (cases kind) (simp_all add: keeps_claim_next keeps_claim_next_kind)
  moreover have "keeps outbox_wf (record_confirmed S rc)" for S rc
    unfolding record_confirmed_def by (intro io_intros) auto
  ultimately show ?thesis
    unfolding drain_rows_def
    by (intro keeps_drain_loop keeps_confirm keeps_mark_failed) (auto intro: keeps_circuit_state)
qed

text \<open>
  What it means that the cloud took an upload: the endpoint of the kind was called with what the
  payload decodes to and answered with success.
\<close>

definition endpoint_accepted ::
  "('f, 'm, 'o) payload_codec \<Rightarrow> ('f, 'm, 'o) cloud_client \<Rightarrow> ustr \<Rightarrow> ustr \<Rightarrow> bool" where
  "endpoint_accepted C cl k p \<longleftrightarrow>
     (if k = KIND_TRAJECTORY then \<exists>v pid. parse_value C p = Inr v \<and> get_str v (lit ''pr_review_id'') = Some pid
        \<and> save_trajectory_outcome cl pid (case json_get v (lit ''steps'') of Some s \<Rightarrow> s | None \<Rightarrow> JArray []) = None
      else if k = KIND_REVIEW_METRICS then \<exists>v rid req. parse_value C p = Inr v \<and> get_str v (lit ''review_id'') = Some rid
        \<and> decode_metrics C (case json_get v (lit ''req'') of Some r \<Rightarrow> r | None \<Rightarrow> JObject []) = Inr req
        \<and> record_review_metrics_outcome cl rid req = None
      else if k = KIND_ACCEPTED_EDIT then \<exists>req rs. decode_accepted_edit C p = Inr req
        \<and> record_accepted_edit_response cl req = Inr rs \<and> acceptance_recorded rs
      else if k = KIND_MCP_QUERY then \<exists>v. parse_value C p = Inr v
        \<and> track_mcp_query_outcome cl (get_str_or v (lit ''file'') []) (get_str v (lit ''intent''))
            (get_usize_or_zero v (lit ''rules_injected'')) (get_usize_or_zero v (lit ''strict_match_count''))
            (get_strings v (lit ''rule_titles'')) (get_strings v (lit ''rule_ids''))
            (get_str v (lit ''client_label'')) (get_str v (lit ''repo_full_name'')) = None
      else if k = KIND_OBSERVATION then \<exists>obs. decode_observation C p = Inr obs \<and> post_observations_outcome cl [obs] = None
      else if k = KIND_SESSION_MINED_CANDIDATE then \<exists>cand. decode_candidate C p = Inr cand
        \<and> candidate_validate cand = Inr () \<and> requires_human_approval cand
        \<and> post_session_mined_candidate_outcome cl cand = None
      else False)"

lemma from_upload_ok [simp]: "dispatch_ok (from_upload r) \<longleftrightarrow> r = None"
  by (simp add: from_upload_def outcome_ok_def failed_with_def split: option.split)

lemma endpoint_kinds:
  "KIND_REVIEW_METRICS \<noteq> KIND_TRAJECTORY"
  "KIND_ACCEPTED_EDIT \<noteq> KIND_TRAJECTORY"
  "KIND_ACCEPTED_EDIT \<noteq> KIND_REVIEW_METRICS"
  "KIND_MCP_QUERY \<noteq> KIND_TRAJECTORY"
  "KIND_MCP_QUERY \<noteq> KIND_REVIEW_METRICS"
  "KIND_MCP_QUERY \<noteq> KIND_ACCEPTED_EDIT"
  "KIND_OBSERVATION \<noteq> KIND_TRAJECTORY"
  "KIND_OBSERVATION \<noteq> KIND_REVIEW_METRICS"
  "KIND_OBSERVATION \<noteq> KIND_ACCEPTED_EDIT"
  "KIND_OBSERVATION \<noteq> KIND_MCP_QUERY"
  by code_simp+

lemma dispatch_trajectory_accepted:
  "dispatch_trajectory C cl p = Inr out \<Longrightarrow> dispatch_ok out \<Longrightarrow> endpoint_accepted C cl KIND_TRAJECTORY p"
  by (simp add: endpoint_accepted_def dispatch_kinds endpoint_kinds)
    (auto simp: dispatch_trajectory_def parse_as_def split: sum.splits option.splits)

lemma dispatch_review_metrics_accepted:
  "dispatch_review_metrics C cl p = Inr out \<Longrightarrow> dispatch_ok out \<Longrightarrow> endpoint_accepted C cl KIND_REVIEW_METRICS p"
  by (simp add: endpoint_accepted_def dispatch_kinds endpoint_kinds)
    (auto simp: dispatch_review_metrics_def parse_as_def split: sum.splits option.splits)

lemma dispatch_accepted_edit_accepted:
  "dispatch_accepted_edit C cl p = Inr out \<Longrightarrow> dispatch_ok out \<Longrightarrow> endpoint_accepted C cl KIND_ACCEPTED_EDIT p"
  by (simp add: endpoint_accepted_def dispatch_kinds endpoint_kinds)
    (auto simp: dispatch_accepted_edit_def parse_as_def Let_def split: sum.splits option.splits)

lemma dispatch_mcp_query_accepted:
  "dispatch_mcp_query C cl p = Inr out \<Longrightarrow> dispatch_ok out \<Longrightarrow> endpoint_accepted C cl KIND_MCP_QUERY p"
  by (simp add: endpoint_accepted_def dispatch_kinds endpoint_kinds)
    (auto simp: dispatch_mcp_query_def parse_as_def split: sum.splits option.splits)

lemma validated_needs_approval: "candidate_validate cand = Inr () \<Longrightarrow> requires_human_approval cand"
  by (rule ccontr) (simp add: candidate_validate_def split: if_split_asm)

lemma dispatch_session_mined_accepted:
  "dispatch_session_mined C cl p = Inr out \<Longrightarrow> dispatch_ok out \<Longrightarrow> endpoint_accepted C cl KIND_SESSION_MINED_CANDIDATE p"
  by (simp add: endpoint_accepted_def dispatch_kinds)
    (auto simp: dispatch_session_mined_def parse_as_def validated_needs_approval split: sum.splits)

lemmas dispatch_by_kind_accepted = dispatch_trajectory_accepted dispatch_review_metrics_accepted dispatch_accepted_edit_accepted
  dispatch_mcp_query_accepted dispatch_session_mined_accepted

lemma dispatch_observation_accepted:
  assumes "parse_as what (decode_observation C p) (\<lambda>obs. Inr (from_upload (post_observations_outcome cl [obs]))) = Inr out"
    and "dispatch_ok out"
  shows "endpoint_accepted C cl KIND_OBSERVATION p"
  using assms by (auto simp: endpoint_accepted_def endpoint_kinds parse_as_def split: sum.splits)

lemma dispatch_accepted:
  assumes d: "dispatch C cl item = Inr out" and ok: "dispatch_ok out"
    and kind: "item_kind item \<notin> {KIND_LEGACY_FIX_ACCEPTANCE, KIND_IMPORTED_REVIEWS}"
  shows "endpoint_accepted C cl (item_kind item) (item_payload item)"
proof -
  let ?p = "item_payload item"
  consider "item_kind item = KIND_TRAJECTORY" "dispatch_trajectory C cl ?p = Inr out"
    | "item_kind item = KIND_REVIEW_METRICS" "dispatch_review_metrics C cl ?p = Inr out"
    | "item_kind item = KIND_ACCEPTED_EDIT" "dispatch_accepted_edit C cl ?p = Inr out"
    | "item_kind item = KIND_MCP_QUERY" "dispatch_mcp_query C cl ?p = Inr out"
    | "item_kind item = KIND_OBSERVATION" "parse_as (lit ''observation parse'') (decode_observation C ?p)
        (\<lambda>obs. Inr (from_upload (post_observations_outcome cl [obs]))) = Inr out"
    | "item_kind item = KIND_SESSION_MINED_CANDIDATE" "dispatch_session_mined C cl ?p = Inr out"
    using d kind unfolding dispatch_def Let_def by (auto split: if_split_asm)
  then show ?thesis
    by cases (use ok dispatch_by_kind_accepted dispatch_observation_accepted in metis)+
qed


text \<open>
  C37. The report of a drain is exact: it never attempts more than it was allowed to, and the number
  of confirmed rows is the number of rows that left the queue; nothing is ever added to it.
\<close>

theorem drain_report_exact:
  assumes "drain_rows J C client kind n w = (Inr rep, w')"
  shows "attempted rep \<le> n \<and> confirmed rep \<le> attempted rep
    \<and> row_id ` set (rows (db w')) \<subseteq> row_id ` set (rows (db w))
    \<and> confirmed rep + card (row_id ` set (rows (db w'))) = card (row_id ` set (rows (db w)))"
  using drain_rows_settled [OF assms]
  by (auto simp: all_kinds.settled_def all_kinds.ids_def fst_owed_rows empty_report_def
      simp flip: fst_owed_rows)

text \<open>
  A session-mined candidate reaches the cloud endpoint only in its validated draft form: a
  dispatch of that kind that gets as far as an upload has decoded a candidate that passes
  validation and still requires human approval.
\<close>

theorem dispatch_uploads_only_valid_candidates:
  assumes "item_kind item = KIND_SESSION_MINED_CANDIDATE" and "dispatch C cl item = Inr outcome"
  shows "\<exists>cand. decode_candidate C (item_payload item) = Inr cand
    \<and> candidate_validate cand = Inr () \<and> requires_human_approval cand \<and> origin cand = ORIGIN
    \<and> outcome = from_upload (post_session_mined_candidate_outcome cl cand)"
proof -
  have "dispatch_session_mined C cl (item_payload item) = Inr outcome"
    using assms by (simp add: dispatch_def Let_def dispatch_kinds)
  then show ?thesis
    by (auto simp: dispatch_session_mined_def parse_as_def candidate_validate_def
        split: sum.splits if_splits)
qed

section \<open>Witnesses\<close>

text \<open>A service that accepts everything, and decoders that read every payload as the empty object.\<close>

definition demo_codec :: "(unit, unit, ustr) payload_codec" where
  "demo_codec = \<lparr>parse_value = (\<lambda>_. Inr (JObject [])), decode_metrics = (\<lambda>_. Inr ()),
     decode_accepted_edit = (\<lambda>_. Inl (lit ''no edit'')),
     decode_observation = (\<lambda>p. if p = lit ''{}'' then Inr p else Inl (lit ''bad'')),
     decode_candidate = (\<lambda>_. map_sum (\<lambda>_. lit ''invalid'') id (try_new (\<lambda>s. s) \<lparr>arg_session_id = lit ''s1'', arg_ts_ms = 5,
       arg_source_repo = lit ''acme/app'', arg_title = lit ''Use the retry helper'',
       arg_body = lit ''Call retry().'', arg_file_patterns = [lit ''src/*.rs''],
       arg_gate_model = lit ''claude:haiku'', arg_gate_verdict = lit ''KEEP''\<rparr>)),
     sha256_hex = (\<lambda>s. s),
     id_list_json = \<lparr>encode_strings = (\<lambda>_. None), decode_strings = (\<lambda>_. None)\<rparr>\<rparr>"

definition demo_client :: "(unit, unit, ustr) cloud_client" where
  "demo_client = \<lparr>save_trajectory_outcome = (\<lambda>_ _. None), record_review_metrics_outcome = (\<lambda>_ _. None),
     record_accepted_edit_response = (\<lambda>_. Inl (lit ''offline'')),
     track_mcp_query_outcome = (\<lambda>_ _ _ _ _ _ _ _. None), post_observations_outcome = (\<lambda>_. None),
     post_session_mined_candidate_outcome = (\<lambda>_. Some (Transport (lit ''offline'')))\<rparr>"

abbreviation demo_drain :: "(ustr + OutboxDrainReport) \<times> outbox world" where
  "demo_drain \<equiv> drain_rows demo_json demo_codec (\<lambda>_. demo_client) None 5 (demo_world demo_queue)"


theorem drain_report_exact_witness:
  "attempted (projr (fst demo_drain)) = 2 \<and> confirmed (projr (fst demo_drain)) = 1
   \<and> card (row_id ` set (rows (db (snd demo_drain)))) = 3"
proof -
  have ok: "\<not> isl (fst demo_drain)" and n: "attempted (projr (fst demo_drain)) = 2"
    "confirmed (projr (fst demo_drain)) = 1" by code_simp+
  from ok have "demo_drain = (Inr (projr (fst demo_drain)), snd demo_drain)" by (simp add: prod_eq_iff)
  from drain_report_exact [OF this] n
  have "1 + card (row_id ` set (rows (db (snd demo_drain)))) = card (row_id ` set (rows (db (demo_world demo_queue))))"
    by simp
  moreover have "card (row_id ` set (rows (db (demo_world demo_queue)))) = 4" by code_simp
  ultimately show ?thesis using n by simp
qed

theorem dispatch_uploads_only_valid_candidates_witness:
  "\<exists>cand. decode_candidate demo_codec [] = Inr cand \<and> candidate_validate cand = Inr ()
    \<and> requires_human_approval cand"
proof -
  let ?item = "\<lparr>item_id = 1, item_kind = KIND_SESSION_MINED_CANDIDATE, item_payload = [], item_retry_count = 0\<rparr>"
  have "\<not> isl (dispatch demo_codec demo_client ?item)" by code_simp
  then have "dispatch demo_codec demo_client ?item = Inr (projr (dispatch demo_codec demo_client ?item))" by simp
  from dispatch_uploads_only_valid_candidates [OF _ this] show ?thesis by auto
qed

end
