(* ===== verification/Outbox_Batch.thy ===== *)
theory Outbox_Batch
  imports Outbox_Drain
begin

text \<open>
  The batched drain of observations (\<^verbatim>\<open>drain_observation_outbox_kind_report\<close>), the entry point
  that selects it (\<^verbatim>\<open>drain_outbox_kind_report\<close>), and the spill files that hooks write when the
  database is unavailable, of \<^verbatim>\<open>crates/difflore-core/src/cloud/outbox.rs\<close>.

  The outer loop of the batched drain is given \<open>max_items\<close> units of fuel. Every turn that continues
  has attempted at least one more row, so the loop condition fails before the fuel does:
  \<open>obs_loop_fuel\<close> shows that more fuel never changes the result.
\<close>

section \<open>Claiming and settling a batch\<close>

record 'o obs_batch =
  batch_ids :: "int list"
  batch_obs :: "'o list"
  claimed_any :: bool
  batch_attempted :: nat

fun claim_batch ::
  "sqlite_json \<Rightarrow> ('f, 'm, 'o) payload_codec \<Rightarrow> nat \<Rightarrow> 'o obs_batch \<Rightarrow> (outbox, 'o obs_batch) io" where
  "claim_batch J C 0 b = ret b"
| "claim_batch J C (Suc n) b =
     andthen (claim_next_kind J KIND_OBSERVATION) (\<lambda>claimed. case claimed of
       None \<Rightarrow> ret b
     | Some item \<Rightarrow>
         (let b' = b\<lparr>claimed_any := True, batch_attempted := Suc (batch_attempted b)\<rparr> in
          case decode_observation C (item_payload item) of
            Inr obs \<Rightarrow> claim_batch J C n (b'\<lparr>batch_ids := batch_ids b' @ [item_id item],
              batch_obs := batch_obs b' @ [obs]\<rparr>)
          | Inl e \<Rightarrow> andthen (attempt (mark_failed (item_id item) (lit ''observation parse: '' @ e)))
              (\<lambda>_. claim_batch J C n b')))"

fun confirm_all :: "int list \<Rightarrow> nat \<Rightarrow> (outbox, nat) io" where
  "confirm_all [] n = ret n"
| "confirm_all (i # is) n = andthen (confirm i) (\<lambda>_. confirm_all is (Suc n))"

fun fail_all :: "int list \<Rightarrow> ustr \<Rightarrow> (outbox, unit) io" where
  "fail_all [] err = ret ()"
| "fail_all (i # is) err = andthen (attempt (mark_failed i err)) (\<lambda>_. fail_all is err)"

text \<open>What one turn does with its batch; \<open>again\<close> is the next turn.\<close>

definition settle_batch ::
  "(nat \<Rightarrow> ('f, 'm, 'o) cloud_client) \<Rightarrow> (nat \<Rightarrow> nat \<Rightarrow> (outbox, nat \<times> nat) io) \<Rightarrow> nat
    \<Rightarrow> 'o obs_batch \<Rightarrow> (outbox, nat \<times> nat) io" where
  "settle_batch client again conf b =
     (if batch_obs b = [] then
        (if \<not> claimed_any b then ret (batch_attempted b, conf) else again (batch_attempted b) conf)
      else case post_observations_outcome (client (batch_attempted b)) (batch_obs b) of
          None \<Rightarrow> andthen (confirm_all (batch_ids b) conf) (\<lambda>conf'. again (batch_attempted b) conf')
        | Some failure \<Rightarrow>
            andthen (fail_all (batch_ids b) (format_for_outbox_last_error failure)) (\<lambda>_.
              ret (batch_attempted b, conf)))"

fun obs_loop ::
  "sqlite_json \<Rightarrow> ('f, 'm, 'o) payload_codec \<Rightarrow> (nat \<Rightarrow> ('f, 'm, 'o) cloud_client) \<Rightarrow> nat
    \<Rightarrow> nat \<Rightarrow> nat \<Rightarrow> nat \<Rightarrow> (outbox, nat \<times> nat) io" where
  "obs_loop J C client max_items 0 att conf = ret (att, conf)"
| "obs_loop J C client max_items (Suc fuel) att conf =
     (if att \<ge> max_items then ret (att, conf)
      else andthen circuit_state (\<lambda>c. case c of Open _ \<Rightarrow> ret (att, conf) | Closed \<Rightarrow>
        andthen (claim_batch J C (min (max_items - att) MAX_OBSERVATION_BATCH)
            \<lparr>batch_ids = [], batch_obs = [], claimed_any = False, batch_attempted = att\<rparr>)
          (settle_batch client (obs_loop J C client max_items fuel) conf)))"

definition drain_observation_outbox_kind_report ::
  "sqlite_json \<Rightarrow> ('f, 'm, 'o) payload_codec \<Rightarrow> (nat \<Rightarrow> ('f, 'm, 'o) cloud_client) \<Rightarrow> nat
    \<Rightarrow> (outbox, OutboxDrainReport) io" where
  "drain_observation_outbox_kind_report J C client max_items =
     andthen (obs_loop J C client max_items max_items 0 0) (\<lambda>(att, conf).
       ret \<lparr>attempted = att, confirmed = conf, report_attribution = no_attribution\<rparr>)"

definition drain_outbox_kind_report ::
  "bool \<Rightarrow> sqlite_json \<Rightarrow> ('f, 'm, 'o) payload_codec \<Rightarrow> (nat \<Rightarrow> ('f, 'm, 'o) cloud_client)
    \<Rightarrow> ustr \<Rightarrow> nat \<Rightarrow> (outbox, OutboxDrainReport) io" where
  "drain_outbox_kind_report logged_in J C client kind max_items =
     (if \<not> logged_in then ret empty_report
      else if kind = KIND_OBSERVATION then drain_observation_outbox_kind_report J C client max_items
      else drain_rows J C client (Some kind) max_items)"

section \<open>Spilled payloads\<close>

record HookSpillRecord =
  spill_version :: nat
  spill_kind :: ustr
  spill_payload_json :: ustr
  spill_created_at_ms :: int
  spill_last_error :: "ustr option"

text \<open>
  A file of the spill directory: its name, whether it can be read, whether removing or renaming it
  succeeds (a failure is ignored), its size, and the record it decodes to, if it does. A record that
  does not decode, or is of another kind, is renamed to \<^verbatim>\<open>.bad\<close>.
\<close>

record spill_file =
  file_name :: ustr
  file_readable :: bool
  file_movable :: bool
  file_bytes :: nat
  file_record :: "HookSpillRecord option"

record HookSpillReplayReport =
  replay_attempted :: nat
  replayed :: nat
  replay_failed :: nat

text \<open>\<^verbatim>\<open>Path::extension\<close> of a file name: what follows the last dot, unless that dot is its first character.\<close>

definition file_extension :: "ustr \<Rightarrow> ustr option" where
  "file_extension n = (case rfind_char n 46 of
     None \<Rightarrow> None | Some i \<Rightarrow> if i = 0 then None else Some (drop (Suc i) n))"

definition is_spill_json :: "ustr \<Rightarrow> bool" where
  "is_spill_json n \<longleftrightarrow> file_extension n = Some (lit ''json'')"

definition with_extension_bad :: "ustr \<Rightarrow> ustr" where
  "with_extension_bad n = (case rfind_char n 46 of
     None \<Rightarrow> n @ lit ''.bad'' | Some i \<Rightarrow> if i = 0 then n @ lit ''.bad'' else take i n @ lit ''.bad'')"

definition quarantine_bad_spill :: "ustr \<Rightarrow> spill_file list \<Rightarrow> spill_file list" where
  "quarantine_bad_spill n dir =
     (if list_ex (\<lambda>f. file_name f = n \<and> file_movable f) dir then
        map (\<lambda>f. if file_name f = n then f\<lparr>file_name := with_extension_bad n\<rparr> else f)
          (filter (\<lambda>f. file_name f = n \<or> file_name f \<noteq> with_extension_bad n) dir)
      else dir)"

definition remove_spill :: "ustr \<Rightarrow> spill_file list \<Rightarrow> spill_file list" where
  "remove_spill n dir = filter (\<lambda>f. file_name f \<noteq> n \<or> \<not> file_movable f) dir"

fun insort_file :: "spill_file \<Rightarrow> spill_file list \<Rightarrow> spill_file list" where
  "insort_file f [] = [f]"
| "insort_file f (g # gs) =
     (if str_less (file_name g) (file_name f) then g # insort_file f gs else f # g # gs)"

fun replay_loop ::
  "ustr option \<Rightarrow> spill_file list \<Rightarrow> HookSpillReplayReport \<Rightarrow> spill_file list
    \<Rightarrow> (outbox, HookSpillReplayReport \<times> spill_file list) io" where
  "replay_loop capture [] rep dir = ret (rep, dir)"
| "replay_loop capture (f # fs) rep dir =
     (let rep1 = rep\<lparr>replay_attempted := Suc (replay_attempted rep)\<rparr>;
          failed1 = rep1\<lparr>replay_failed := Suc (replay_failed rep1)\<rparr> in
      if \<not> file_readable f then replay_loop capture fs failed1 dir
      else case file_record f of
          None \<Rightarrow> replay_loop capture fs failed1 (quarantine_bad_spill (file_name f) dir)
        | Some r \<Rightarrow>
            if spill_kind r \<noteq> KIND_OBSERVATION then
              replay_loop capture fs failed1 (quarantine_bad_spill (file_name f) dir)
            else andthen (attempt (enqueue_with_outcome capture (spill_kind r) (spill_payload_json r)))
              (\<lambda>result. case result of
                 Inr (Inserted _) \<Rightarrow> replay_loop capture fs (rep1\<lparr>replayed := Suc (replayed rep1)\<rparr>)
                   (remove_spill (file_name f) dir)
               | Inr CaptureDisabled \<Rightarrow> ret (failed1, dir)
               | Inl _ \<Rightarrow> ret (failed1, dir)))"

definition replay_spilled_observations ::
  "ustr option \<Rightarrow> nat \<Rightarrow> spill_file list \<Rightarrow> (outbox, HookSpillReplayReport \<times> spill_file list) io" where
  "replay_spilled_observations capture max_items dir =
     (let zero = \<lparr>replay_attempted = 0, replayed = 0, replay_failed = 0\<rparr> in
      if max_items = 0 then ret (zero, dir)
      else replay_loop capture
        (take max_items (foldr insort_file (filter (\<lambda>f. is_spill_json (file_name f)) dir) [])) zero dir)"

record HookSpillStats =
  stat_count :: nat
  stat_bytes :: nat
  oldest_created_at_ms :: "int option"
  newest_created_at_ms :: "int option"
  newest_error :: "ustr option"

definition spill_stats_step :: "spill_file \<Rightarrow> HookSpillStats \<Rightarrow> HookSpillStats" where
  "spill_stats_step f s =
     (if \<not> is_spill_json (file_name f) then s
      else let s1 = s\<lparr>stat_count := Suc (stat_count s), stat_bytes := sat_add (stat_bytes s) (file_bytes f)\<rparr> in
        case (if file_readable f then file_record f else None) of
          None \<Rightarrow> s1
        | Some r \<Rightarrow>
            (let t = spill_created_at_ms r;
                 s2 = s1\<lparr>oldest_created_at_ms := Some (case oldest_created_at_ms s1 of
                    Some cur \<Rightarrow> min cur t | None \<Rightarrow> t)\<rparr> in
             if (case newest_created_at_ms s2 of None \<Rightarrow> True | Some cur \<Rightarrow> t \<ge> cur) then
               s2\<lparr>newest_created_at_ms := Some t, newest_error := spill_last_error r\<rparr>
             else s2))"

definition hook_spill_stats :: "spill_file list \<Rightarrow> HookSpillStats" where
  "hook_spill_stats dir = fold spill_stats_step dir
     \<lparr>stat_count = 0, stat_bytes = 0, oldest_created_at_ms = None, newest_created_at_ms = None,
      newest_error = None\<rparr>"

section \<open>The batched drain\<close>

text \<open>
  Claiming a batch takes no row off the queue, every row it takes counts as an attempt, and every
  observation of the batch is the decoded payload of a queued row whose id goes with it.
\<close>

definition batch_sound :: "('f, 'm, 'o) payload_codec \<Rightarrow> outbox \<Rightarrow> 'o obs_batch \<Rightarrow> bool" where
  "batch_sound C q b \<longleftrightarrow> list_all2 (\<lambda>i obs. \<exists>p. (i, KIND_OBSERVATION, p) \<in> owed_rows q
     \<and> decode_observation C p = Inr obs) (batch_ids b) (batch_obs b)"

definition batch_step ::
  "('f, 'm, 'o) payload_codec \<Rightarrow> nat \<Rightarrow> 'o obs_batch \<Rightarrow> outbox world \<Rightarrow> ustr + 'o obs_batch \<Rightarrow> outbox world \<Rightarrow> bool" where
  "batch_step C n b w r w' \<longleftrightarrow> owed_rows (db w') = owed_rows (db w)
     \<and> (\<forall>b'. r = Inr b' \<longrightarrow> batch_attempted b \<le> batch_attempted b' \<and> batch_attempted b' \<le> batch_attempted b + n
          \<and> (batch_attempted b' = batch_attempted b \<longrightarrow> b' = b)
          \<and> (batch_sound C (db w) b \<longrightarrow> batch_sound C (db w) b')
          \<and> length (batch_ids b') + batch_attempted b \<le> length (batch_ids b) + batch_attempted b')"

lemma batch_step_more:
  assumes "batch_step C n b1 w1 r w'" "owed_rows (db w1) = owed_rows (db w)"
    "batch_attempted b1 = Suc (batch_attempted b)" "length (batch_ids b1) \<le> Suc (length (batch_ids b))"
    "batch_sound C (db w) b \<Longrightarrow> batch_sound C (db w1) b1"
  shows "batch_step C (Suc n) b w r w'"
proof -
  have "batch_sound C (db w) = batch_sound C (db w1)" using assms(2) by (simp add: batch_sound_def fun_eq_iff)
  then show ?thesis using assms by (auto simp: batch_step_def)
qed

lemma claim_observation:
  "post (claim_next_kind J k) w (\<lambda>r w'. owed_rows (db w') = owed_rows (db w)
     \<and> (\<forall>item. r = Inr (Some item) \<longrightarrow> (item_id item, k, item_payload item) \<in> owed_rows (db w)))"
  using post_claim_next_kind [of J k w] stable_post [OF stable_claim_next_kind, of J k w]
  by (auto simp: post_def item_key_def)

lemma claim_batch_step: "post (claim_batch J C n b) w (batch_step C n b w)"
proof (induction n arbitrary: b w)
  case 0
  show ?case by (simp add: batch_step_def)
next
  case (Suc n)
  show ?case
    unfolding claim_batch.simps post_andthen [of "claim_next_kind J KIND_OBSERVATION"] Let_def
  proof (rule post_mono [OF claim_observation], goal_cases)
    case (1 r w1)
    then have w1: "owed_rows (db w1) = owed_rows (db w)" by blast
    have failed: "post (andthen (attempt (mark_failed i e)) (\<lambda>_. claim_batch J C n
        (b\<lparr>claimed_any := True, batch_attempted := Suc (batch_attempted b)\<rparr>))) w1 (batch_step C (Suc n) b w)"
      for i e
      unfolding post_andthen [of "attempt (mark_failed i e)"] post_attempt sum.case
      by (rule post_mono [OF stable_post [OF stable_mark_failed]], rule post_mono [OF Suc.IH],
          erule batch_step_more) (simp_all add: w1 batch_sound_def)
    have pushed: "post (claim_batch J C n (b\<lparr>claimed_any := True, batch_attempted := Suc (batch_attempted b),
        batch_ids := batch_ids b @ [i], batch_obs := batch_obs b @ [x]\<rparr>)) w1 (batch_step C (Suc n) b w)"
      if "(i, KIND_OBSERVATION, p) \<in> owed_rows (db w)" "decode_observation C p = Inr x" for i x p
      using that by (intro post_mono [OF Suc.IH], elim batch_step_more)
        (auto simp: w1 batch_sound_def intro!: list_all2_appendI)
    show ?case
      using 1 by (auto simp: batch_step_def [of _ _ _ _ "Inr b"] batch_step_def [of _ _ _ _ "Inl e" for e] failed pushed
          split: sum.split option.split)
  qed
qed

lemma confirm_all_step:
  "post (confirm_all is n) w (\<lambda>r w'. owed_rows (db w') \<subseteq> owed_rows (db w)
     \<and> {x \<in> owed_rows (db w). fst x \<notin> set is} \<subseteq> owed_rows (db w') \<and> (\<forall>m. r = Inr m \<longrightarrow> m = n + length is))"
proof (induction "is" arbitrary: n w)
  case (Cons i "is")
  show ?case
    unfolding confirm_all.simps post_andthen
  proof (rule post_mono [OF post_confirm], goal_cases)
    case (1 r w1)
    show ?case
    proof (cases r)
      case (Inr u)
      have "post (confirm_all is (Suc n)) w1 (\<lambda>r w'. owed_rows (db w') \<subseteq> owed_rows (db w)
        \<and> {x \<in> owed_rows (db w). fst x \<notin> set (i # is)} \<subseteq> owed_rows (db w')
        \<and> (\<forall>m. r = Inr m \<longrightarrow> m = n + length (i # is)))"
        by (rule post_mono [OF Cons.IH]) (use 1 Inr in auto)
      with Inr show ?thesis by simp
    qed (use 1 in auto)
  qed
qed simp

lemma fail_all_step: "post (fail_all is err) w (\<lambda>r w'. owed_rows (db w') = owed_rows (db w))"
proof (induction "is" arbitrary: w)
  case (Cons i "is")
  show ?case
    unfolding fail_all.simps post_andthen post_attempt
    by (rule post_mono [OF stable_post [OF stable_mark_failed]]) (auto intro: post_mono [OF Cons.IH])
qed simp

text \<open>A row that left the queue was part of a batch the cloud accepted, in its decoded form.\<close>

definition accepted_rows ::
  "('f, 'm, 'o) payload_codec \<Rightarrow> (nat \<Rightarrow> ('f, 'm, 'o) cloud_client) \<Rightarrow> outbox \<Rightarrow> outbox \<Rightarrow> bool" where
  "accepted_rows C client q q' \<longleftrightarrow> owed_rows q' \<subseteq> owed_rows q
     \<and> (\<forall>i \<in> fst ` owed_rows q - fst ` owed_rows q'. \<exists>k p obs batch.
          (i, KIND_OBSERVATION, p) \<in> owed_rows q \<and> decode_observation C p = Inr obs
          \<and> obs \<in> set batch \<and> post_observations_outcome (client k) batch = None)"

lemma accepted_rows_same: "owed_rows q' = owed_rows q \<Longrightarrow> accepted_rows C client q q'"
  by (simp add: accepted_rows_def)

lemma accepted_rows_trans:
  assumes "accepted_rows C client q q1" "accepted_rows C client q1 q'"
  shows "accepted_rows C client q q'"
  unfolding accepted_rows_def
proof (intro conjI ballI)
  show "owed_rows q' \<subseteq> owed_rows q" using assms by (auto simp: accepted_rows_def)
  fix i assume i: "i \<in> fst ` owed_rows q - fst ` owed_rows q'"
  show "\<exists>k p obs batch. (i, KIND_OBSERVATION, p) \<in> owed_rows q \<and> decode_observation C p = Inr obs
      \<and> obs \<in> set batch \<and> post_observations_outcome (client k) batch = None"
  proof (cases "i \<in> fst ` owed_rows q1")
    case True
    with i assms(2) obtain k p obs batch where "(i, KIND_OBSERVATION, p) \<in> owed_rows q1"
      "decode_observation C p = Inr obs" "obs \<in> set batch" "post_observations_outcome (client k) batch = None"
      unfolding accepted_rows_def by blast
    with assms(1) show ?thesis unfolding accepted_rows_def by blast
  qed (use i assms(1) in \<open>unfold accepted_rows_def, blast\<close>)
qed

lemma accepted_rows_batch:
  assumes "batch_sound C q b" "post_observations_outcome (client k) (batch_obs b) = None"
    "owed_rows q' \<subseteq> owed_rows q" "{x \<in> owed_rows q. fst x \<notin> set (batch_ids b)} \<subseteq> owed_rows q'"
  shows "accepted_rows C client q q'"
  unfolding accepted_rows_def
proof (intro conjI ballI)
  show "owed_rows q' \<subseteq> owed_rows q" by (rule assms(3))
  fix i assume "i \<in> fst ` owed_rows q - fst ` owed_rows q'"
  with assms(4) have "i \<in> set (batch_ids b)" by (auto simp: image_iff)
  with assms(1) obtain obs p where "obs \<in> set (batch_obs b)" "(i, KIND_OBSERVATION, p) \<in> owed_rows q"
    "decode_observation C p = Inr obs"
    unfolding batch_sound_def list_all2_conv_all_nth in_set_conv_nth by fastforce
  with assms(2) show "\<exists>k p obs batch. (i, KIND_OBSERVATION, p) \<in> owed_rows q \<and> decode_observation C p = Inr obs
      \<and> obs \<in> set batch \<and> post_observations_outcome (client k) batch = None" by blast
qed

definition batches_settled ::
  "('f, 'm, 'o) payload_codec \<Rightarrow> (nat \<Rightarrow> ('f, 'm, 'o) cloud_client) \<Rightarrow> nat \<Rightarrow> nat \<Rightarrow> nat \<Rightarrow> outbox world
    \<Rightarrow> ustr + nat \<times> nat \<Rightarrow> outbox world \<Rightarrow> bool" where
  "batches_settled C client max_items att conf w r w' \<longleftrightarrow>
     accepted_rows C client (db w) (db w')
     \<and> (\<forall>a c. r = Inr (a, c) \<longrightarrow> att \<le> a \<and> (att \<le> max_items \<longrightarrow> a \<le> max_items) \<and> c + att \<le> conf + a)"

lemma batches_settled_again:
  assumes "batches_settled C client max_items a1 c1 w1 r w'" and "accepted_rows C client (db w) (db w1)"
    and "att \<le> a1" "a1 \<le> max_items" "c1 + att \<le> conf + a1"
  shows "batches_settled C client max_items att conf w r w'"
  using assms by (auto simp: batches_settled_def intro: accepted_rows_trans)

lemma batches_settled_stop:
  assumes "owed_rows (db w') = owed_rows (db w)"
    and "\<And>a c. r = Inr (a, c) \<Longrightarrow> att \<le> a \<and> a \<le> max_items \<and> c = conf"
  shows "batches_settled C client max_items att conf w r w'"
  using assms by (auto simp: batches_settled_def accepted_rows_same)

lemma settle_batch_settles:
  assumes IH: "\<And>a c w. post (again a c) w (batches_settled C client max_items a c w)"
    and w2: "owed_rows (db w2) = owed_rows (db w)" and b: "batch_sound C (db w) b"
    and att: "att \<le> batch_attempted b" "batch_attempted b \<le> max_items"
      "length (batch_ids b) + att \<le> batch_attempted b"
  shows "post (settle_batch client again conf b) w2 (batches_settled C client max_items att conf w)"
proof (cases "batch_obs b = []")
  case True
  have "post (again (batch_attempted b) conf) w2 (batches_settled C client max_items att conf w)"
    by (rule post_mono [OF IH], erule batches_settled_again) (use w2 att in \<open>auto simp: accepted_rows_same\<close>)
  then show ?thesis
    using True w2 att by (auto simp: settle_batch_def intro: batches_settled_stop)
next
  case False
  show ?thesis
  proof (cases "post_observations_outcome (client (batch_attempted b)) (batch_obs b)")
    case None
    have "post (andthen (confirm_all (batch_ids b) conf) (again (batch_attempted b))) w2
        (batches_settled C client max_items att conf w)"
      unfolding post_andthen
    proof (rule post_mono [OF confirm_all_step], goal_cases)
      case (1 r w3)
      with w2 have acc: "accepted_rows C client (db w) (db w3)"
        by (intro accepted_rows_batch [of C "db w" b client "batch_attempted b"] b None) auto
      show ?case
      proof (cases r)
        case (Inl e)
        with acc show ?thesis by (auto simp: batches_settled_def)
      next
        case (Inr c)
        have "post (again (batch_attempted b) c) w3 (batches_settled C client max_items att conf w)"
          by (rule post_mono [OF IH], erule batches_settled_again) (use 1 Inr att acc in auto)
        with Inr show ?thesis by simp
      qed
    qed
    with False None show ?thesis by (simp add: settle_batch_def)
  next
    case (Some failure)
    have "post (andthen (fail_all (batch_ids b) e) (\<lambda>_. ret (batch_attempted b, conf))) w2
        (batches_settled C client max_items att conf w)" for e
      unfolding post_andthen
      by (rule post_mono [OF fail_all_step]) (use att w2 in \<open>auto split: sum.split intro: batches_settled_stop\<close>)
    with False Some show ?thesis by (simp add: settle_batch_def)
  qed
qed

lemma obs_loop_settles:
  "post (obs_loop J C client max_items fuel att conf) w (batches_settled C client max_items att conf w)"
proof (induction fuel arbitrary: att conf w)
  case 0
  show ?case by (simp add: batches_settled_def accepted_rows_same)
next
  case (Suc fuel)
  show ?case
  proof (cases "att \<ge> max_items")
    case True
    then show ?thesis by (auto simp: batches_settled_def accepted_rows_same)
  next
    case False
    let ?n = "min (max_items - att) MAX_OBSERVATION_BATCH"
    let ?b0 = "\<lparr>batch_ids = [], batch_obs = [], claimed_any = False, batch_attempted = att\<rparr>"
    have turn: "post (andthen (claim_batch J C ?n ?b0) (settle_batch client (obs_loop J C client max_items fuel) conf)) w1
        (batches_settled C client max_items att conf w)" if w1: "owed_rows (db w1) = owed_rows (db w)" for w1
      unfolding post_andthen
    proof (rule post_mono [OF claim_batch_step], goal_cases)
      case (1 r w2)
      then have w2: "owed_rows (db w2) = owed_rows (db w)" using w1 by (simp add: batch_step_def)
      show ?case
      proof (cases r)
        case (Inl e)
        with w2 show ?thesis by (auto intro: batches_settled_stop)
      next
        case (Inr b)
        with 1 False have "att \<le> batch_attempted b" "batch_attempted b \<le> max_items"
          "length (batch_ids b) + att \<le> batch_attempted b" by (auto simp: batch_step_def)
        moreover from 1 Inr w1 have "batch_sound C (db w) b" by (simp add: batch_step_def batch_sound_def)
        ultimately have "post (settle_batch client (obs_loop J C client max_items fuel) conf b) w2
          (batches_settled C client max_items att conf w)" using settle_batch_settles [OF Suc.IH w2] by blast
        with Inr show ?thesis by simp
      qed
    qed
    show ?thesis
      unfolding obs_loop.simps if_not_P [OF False] post_andthen [of circuit_state]
    proof (rule post_mono [OF stable_post [OF stable_circuit_state]], goal_cases)
      case (1 r w1)
      with turn False show ?case
        by (auto split: sum.split CircuitState.split intro: batches_settled_stop)
    qed
  qed
qed

text \<open>The fuel of the outer loop is enough.\<close>

lemma settle_batch_cong:
  assumes "\<And>c. batch_obs b \<noteq> [] \<or> claimed_any b \<Longrightarrow> f (batch_attempted b) c = g (batch_attempted b) c"
  shows "settle_batch client f conf b = settle_batch client g conf b"
  using assms by (auto simp: settle_batch_def split: option.split intro!: arg_cong2 [where f = andthen])

lemma obs_loop_fuel:
  "max_items \<le> att + fuel \<Longrightarrow>
    obs_loop J C client max_items (Suc fuel) att conf = obs_loop J C client max_items fuel att conf"
proof (induction fuel arbitrary: att conf)
  case (Suc fuel)
  show ?case
  proof (cases "att \<ge> max_items")
    case False
    let ?n = "min (max_items - att) MAX_OBSERVATION_BATCH"
    let ?b0 = "\<lparr>batch_ids = [], batch_obs = [], claimed_any = False, batch_attempted = att\<rparr>"
    have "andthen (claim_batch J C ?n ?b0) (settle_batch client (obs_loop J C client max_items (Suc fuel)) conf)
        = andthen (claim_batch J C ?n ?b0) (settle_batch client (obs_loop J C client max_items fuel) conf)"
    proof (rule ext)
      fix w
      obtain r w1 where run: "claim_batch J C ?n ?b0 w = (r, w1)" by fastforce
      note b = postD [OF claim_batch_step run]
      have "settle_batch client (obs_loop J C client max_items (Suc fuel)) conf b1
          = settle_batch client (obs_loop J C client max_items fuel) conf b1" if "r = Inr b1" for b1
      proof (rule settle_batch_cong)
        fix c assume "batch_obs b1 \<noteq> [] \<or> claimed_any b1"
        moreover have "att \<le> batch_attempted b1" "batch_attempted b1 = att \<Longrightarrow> b1 = ?b0"
          using b that by (auto simp: batch_step_def)
        ultimately have "att < batch_attempted b1" by (cases "batch_attempted b1 = att") auto
        with Suc show "obs_loop J C client max_items (Suc fuel) (batch_attempted b1) c
            = obs_loop J C client max_items fuel (batch_attempted b1) c" by simp
      qed
      then show "andthen (claim_batch J C ?n ?b0) (settle_batch client (obs_loop J C client max_items (Suc fuel)) conf) w
          = andthen (claim_batch J C ?n ?b0) (settle_batch client (obs_loop J C client max_items fuel) conf) w"
        by (cases r) (simp_all add: andthen_def run)
    qed
    then show ?thesis by (simp only: obs_loop.simps(2) [of _ _ _ _ _ att])
  qed simp
qed simp


section \<open>The replay\<close>

lemma enqueue_rows:
  "post (enqueue_with_outcome capture k p) w (\<lambda>r w'. case r of
      Inr (Inserted _) \<Rightarrow> capture_enabled capture \<and> length (rows (db w')) = Suc (length (rows (db w)))
    | _ \<Rightarrow> rows (db w') = rows (db w))"
  by (cases "capture_enabled capture")
    (auto simp: enqueue_with_outcome_def post_def andthen_def now_unix_ms_eq sql_def Let_def
      insert_stmt_def ret_def split: option.splits)

definition replay_counted ::
  "ustr option \<Rightarrow> nat \<Rightarrow> HookSpillReplayReport \<Rightarrow> outbox world
    \<Rightarrow> ustr + HookSpillReplayReport \<times> spill_file list \<Rightarrow> outbox world \<Rightarrow> bool" where
  "replay_counted capture n rep w r w' \<longleftrightarrow> (\<exists>rep' dir'. r = Inr (rep', dir')
     \<and> replay_attempted rep \<le> replay_attempted rep' \<and> replay_attempted rep' \<le> replay_attempted rep + n
     \<and> replay_attempted rep' + replayed rep + replay_failed rep
         = replay_attempted rep + replayed rep' + replay_failed rep'
     \<and> length (rows (db w')) + replayed rep = length (rows (db w)) + replayed rep'
     \<and> (capture_enabled capture \<or> replayed rep' = replayed rep))"

lemma replay_loop_counted: "post (replay_loop capture fs rep dir) w (replay_counted capture (length fs) rep w)"
proof (induction fs arbitrary: rep dir w)
  case Nil
  show ?case by (simp add: replay_counted_def)
next
  case (Cons f fs)
  let ?r1 = "rep\<lparr>replay_attempted := Suc (replay_attempted rep)\<rparr>"
  let ?f1 = "?r1\<lparr>replay_failed := Suc (replay_failed ?r1)\<rparr>"
  let ?ok = "?r1\<lparr>replayed := Suc (replayed ?r1)\<rparr>"
  have bad: "post (replay_loop capture fs ?f1 d) w (replay_counted capture (length (f # fs)) rep w)" for d
    by (rule post_mono [OF Cons.IH]) (auto simp: replay_counted_def)
  have stop: "replay_counted capture (length (f # fs)) rep w (Inr (?f1, d)) w1"
    if "rows (db w1) = rows (db w)" for d w1
    using that by (auto simp: replay_counted_def)
  have good: "post (replay_loop capture fs ?ok d) w1 (replay_counted capture (length (f # fs)) rep w)"
    if "capture_enabled capture" "length (rows (db w1)) = Suc (length (rows (db w)))" for d w1
    by (rule post_mono [OF Cons.IH]) (use that in \<open>auto simp: replay_counted_def\<close>)
  have enq: "post (andthen (attempt (enqueue_with_outcome capture k p)) (\<lambda>result. case result of
       Inr (Inserted _) \<Rightarrow> replay_loop capture fs ?ok d
     | Inr CaptureDisabled \<Rightarrow> ret (?f1, dir) | Inl _ \<Rightarrow> ret (?f1, dir))) w
     (replay_counted capture (length (f # fs)) rep w)" for k p d
    unfolding post_andthen post_attempt sum.case
  proof (rule post_mono [OF enqueue_rows], goal_cases)
    case (1 r w1)
    then show ?case
      using good [of w1 d] stop [of w1 dir]
      by (simp split: sum.splits EnqueueOutcome.splits)
  qed
  show ?case
    unfolding replay_loop.simps Let_def
    by (cases "file_readable f"; cases "file_record f"; simp only: option.case not_False_eq_True not_True_eq_False if_True if_False)
      (intro bad enq | (split if_split, intro conjI impI; intro bad enq))+
qed

section \<open>Properties\<close>

text \<open>
  The batched drain of observations attempts at most as many rows as it was allowed to,
  confirms at most what it attempted, adds no row, and takes a row off the queue only after the
  cloud accepted a batch holding the decoded payload of that row; its outer loop ends by its own
  condition, never for lack of fuel.
\<close>

theorem observation_drain_bounds:
  assumes "drain_observation_outbox_kind_report J C client max_items w = (r, w')"
  shows "row_id ` set (rows (db w')) \<subseteq> row_id ` set (rows (db w))
    \<and> (\<forall>i \<in> row_id ` set (rows (db w)) - row_id ` set (rows (db w')).
         \<exists>row \<in> set (rows (db w)). \<exists>k obs batch. row_id row = i \<and> row_kind row = KIND_OBSERVATION
           \<and> decode_observation C (payload_json row) = Inr obs \<and> obs \<in> set batch
           \<and> post_observations_outcome (client k) batch = None)
    \<and> (\<forall>rep. r = Inr rep \<longrightarrow> attempted rep \<le> max_items \<and> confirmed rep \<le> attempted rep)
    \<and> obs_loop J C client max_items (Suc max_items) 0 0 = obs_loop J C client max_items max_items 0 0"
proof -
  have "post (drain_observation_outbox_kind_report J C client max_items) w
      (\<lambda>r w'. accepted_rows C client (db w) (db w')
        \<and> (\<forall>rep. r = Inr rep \<longrightarrow> attempted rep \<le> max_items \<and> confirmed rep \<le> attempted rep))"
    unfolding drain_observation_outbox_kind_report_def post_andthen
    by (rule post_mono [OF obs_loop_settles])
      (auto simp: batches_settled_def split: sum.splits)
  note fin = postD [OF this assms]
  then have acc: "accepted_rows C client (db w) (db w')" by blast
  then have sub: "row_id ` set (rows (db w')) \<subseteq> row_id ` set (rows (db w))"
    by (simp add: accepted_rows_def image_mono flip: fst_owed_rows)
  have "\<exists>row \<in> set (rows (db w)). \<exists>k obs batch. row_id row = i \<and> row_kind row = KIND_OBSERVATION
      \<and> decode_observation C (payload_json row) = Inr obs \<and> obs \<in> set batch
      \<and> post_observations_outcome (client k) batch = None"
    if i: "i \<in> row_id ` set (rows (db w)) - row_id ` set (rows (db w'))" for i
  proof -
    from acc i obtain k p obs batch where x: "(i, KIND_OBSERVATION, p) \<in> owed_rows (db w)"
      "decode_observation C p = Inr obs" "obs \<in> set batch" "post_observations_outcome (client k) batch = None"
      unfolding accepted_rows_def fst_owed_rows by blast
    from x(1) obtain row where "row \<in> set (rows (db w))" "row_id row = i" "row_kind row = KIND_OBSERVATION"
      "payload_json row = p" by (auto simp: owed_rows_def row_entry_def)
    with x(2-4) show ?thesis by blast
  qed
  with sub fin show ?thesis by (simp add: obs_loop_fuel del: obs_loop.simps)
qed

text \<open>
  The replay of spilled payloads always completes and accounts for every file it looked at:
  each one is replayed or failed, at most \<open>max_items\<close> are looked at, the queue grows by exactly the
  replayed ones, and nothing is replayed while capture is switched off.
\<close>

theorem replay_accounts_for_files:
  assumes "replay_spilled_observations capture max_items dir w = (r, w')"
  shows "\<exists>rep dir'. r = Inr (rep, dir')
    \<and> replay_attempted rep = replayed rep + replay_failed rep \<and> replay_attempted rep \<le> max_items
    \<and> length (rows (db w')) = length (rows (db w)) + replayed rep
    \<and> (\<not> capture_enabled capture \<longrightarrow> replayed rep = 0)"
proof (cases "max_items = 0")
  case True
  with assms show ?thesis by (auto simp: replay_spilled_observations_def Let_def ret_def)
next
  case False
  let ?fs = "take max_items (foldr insort_file (filter (\<lambda>f. is_spill_json (file_name f)) dir) [])"
  let ?zero = "\<lparr>replay_attempted = 0, replayed = 0, replay_failed = 0\<rparr>"
  from False assms have "replay_loop capture ?fs ?zero dir w = (r, w')"
    by (simp add: replay_spilled_observations_def Let_def)
  from postD [OF replay_loop_counted this] show ?thesis by (auto simp: replay_counted_def)
qed


section \<open>Witnesses\<close>

definition demo_observations :: outbox where
  "demo_observations = outbox_new [] [demo_row 1 KIND_OBSERVATION Pending 0 100,
     demo_row 2 (lit ''mcp_query'') Pending 0 300] 3"

abbreviation demo_batch_drain :: "(ustr + OutboxDrainReport) \<times> outbox world" where
  "demo_batch_drain \<equiv> drain_observation_outbox_kind_report demo_json demo_codec (\<lambda>_. demo_client) 3
     (demo_world demo_observations)"

theorem observation_drain_bounds_witness:
  "(\<exists>row \<in> set (rows demo_observations). \<exists>obs. row_id row = 1 \<and> row_kind row = KIND_OBSERVATION
     \<and> decode_observation demo_codec (payload_json row) = Inr obs)
   \<and> 1 \<notin> row_id ` set (rows (db (snd demo_batch_drain))) \<and> attempted (projr (fst demo_batch_drain)) \<le> 3"
proof -
  have db0: "db (demo_world demo_observations) = demo_observations" by (simp add: demo_world_def)
  have gone: "1 \<in> row_id ` set (rows demo_observations) - row_id ` set (rows (db (snd demo_batch_drain)))"
    by code_simp
  have "\<not> isl (fst demo_batch_drain)" by code_simp
  then have "demo_batch_drain = (Inr (projr (fst demo_batch_drain)), snd demo_batch_drain)"
    by (simp add: prod_eq_iff)
  note fin = observation_drain_bounds [OF this, unfolded db0]
  from fin gone have "\<exists>row \<in> set (rows demo_observations). \<exists>obs. row_id row = 1
      \<and> row_kind row = KIND_OBSERVATION \<and> decode_observation demo_codec (payload_json row) = Inr obs"
    by blast
  moreover from fin have "attempted (projr (fst demo_batch_drain)) \<le> 3" by blast
  ultimately show ?thesis using gone by blast
qed

definition demo_spill :: "ustr \<Rightarrow> ustr \<Rightarrow> spill_file" where
  "demo_spill n k = \<lparr>file_name = n, file_readable = True, file_movable = True, file_bytes = 10,
     file_record = Some \<lparr>spill_version = 1, spill_kind = k, spill_payload_json = lit ''{}'',
       spill_created_at_ms = 5, spill_last_error = None\<rparr>\<rparr>"

abbreviation demo_replay :: "(ustr + HookSpillReplayReport \<times> spill_file list) \<times> outbox world" where
  "demo_replay \<equiv> replay_spilled_observations None 5
     [demo_spill (lit ''b.json'') KIND_OBSERVATION, demo_spill (lit ''a.json'') (lit ''other''),
      demo_spill (lit ''c.bad'') KIND_OBSERVATION] (demo_world demo_observations)"

theorem replay_accounts_for_files_witness:
  "replay_attempted (fst (projr (fst demo_replay))) = 2 \<and> replayed (fst (projr (fst demo_replay))) = 1
   \<and> replay_failed (fst (projr (fst demo_replay))) = 1 \<and> length (rows (db (snd demo_replay))) = 3"
proof -
  have n: "replay_attempted (fst (projr (fst demo_replay))) = 2" "replayed (fst (projr (fst demo_replay))) = 1"
    by code_simp+
  have len: "length (rows (db (demo_world demo_observations))) = 2" by code_simp
  obtain rep dir where "fst demo_replay = Inr (rep, dir)"
    "replay_attempted rep = replayed rep + replay_failed rep"
    "length (rows (db (snd demo_replay))) = 2 + replayed rep"
    using replay_accounts_for_files [OF prod.collapse [symmetric, of demo_replay]] by (auto simp: len)
  with n show ?thesis by simp
qed

end
