(* ===== verification/Outbox_Concurrency.thy ===== *)
theory Outbox_Concurrency
  imports Outbox
begin

text \<open>
  Several processes drain one database: hooks, CLI commands and the background daemon each hold
  their own \<^verbatim>\<open>OutboxQueue\<close>. SQLite serialises single statements, so an execution is an
  interleaving of them. \<^verbatim>\<open>mark_failed\<close> is two statements; between them the retry count it read
  is in flight. The step relation below has one rule per statement of \<open>Outbox\<close>, taken by any
  process at any time, one for every statement by which other modules write to the table, and one for a process
  that dies between the two statements.
\<close>

section \<open>The other writers of the table\<close>

text \<open>
  The inbox (\<^verbatim>\<open>memory_inbox.rs\<close>) marks candidates that were triaged, notes how much evidence they have, puts an
  approved candidate back into the queue under a payload that says so, and deletes rejected ones
  (\<^const>\<open>delete_stmt\<close>); publishing a rule (\<^verbatim>\<open>commands/cloud/team.rs\<close>) puts accepted edits back under the identifier of the
  rule in the cloud. \<open>json_set\<close> is the function of SQLite.
\<close>

definition json_set_stmt :: "(ustr \<Rightarrow> ustr \<Rightarrow> ustr \<Rightarrow> ustr) \<Rightarrow> ustr \<Rightarrow> ustr \<Rightarrow> int \<Rightarrow> outbox \<Rightarrow> unit \<times> outbox" where
  "json_set_stmt json_set path v i q =
     ((), update_where (\<lambda>r. row_id r = i) (\<lambda>r. r\<lparr>payload_json := json_set (payload_json r) path v\<rparr>) q)"

definition set_triage_stmt :: "(ustr \<Rightarrow> ustr \<Rightarrow> ustr \<Rightarrow> ustr) \<Rightarrow> ustr \<Rightarrow> int \<Rightarrow> outbox \<Rightarrow> unit \<times> outbox" where
  "set_triage_stmt json_set triage_json = json_set_stmt json_set (lit ''$.localTriage'') triage_json"

definition set_evidence_stmt :: "(ustr \<Rightarrow> ustr \<Rightarrow> ustr \<Rightarrow> ustr) \<Rightarrow> ustr \<Rightarrow> int \<Rightarrow> outbox \<Rightarrow> unit \<times> outbox" where
  "set_evidence_stmt json_set evidence_json = json_set_stmt json_set (lit ''$.localEvidence'') evidence_json"

definition requeue_stmt :: "ustr \<Rightarrow> int \<Rightarrow> outbox \<Rightarrow> unit \<times> outbox" where
  "requeue_stmt marked i q =
     ((), update_where (\<lambda>r. row_id r = i) (\<lambda>r. r\<lparr>payload_json := marked, status := Pending, retry_count := 0,
        claimed_at := None, last_error := None\<rparr>) q)"

definition relink_stmt :: "ustr \<Rightarrow> int \<Rightarrow> outbox \<Rightarrow> unit \<times> outbox" where
  "relink_stmt payload i q =
     ((), update_where (\<lambda>r. row_id r = i) (\<lambda>r. r\<lparr>payload_json := payload, status := Pending, retry_count := 0,
        claimed_at := None, last_error := None\<rparr>) q)"

lemma other_writers_wf:
  assumes "outbox_wf q"
  shows "outbox_wf (snd (set_triage_stmt js t i q))" "outbox_wf (snd (set_evidence_stmt js t i q))"
    "outbox_wf (snd (requeue_stmt p i q))" "outbox_wf (snd (relink_stmt p i q))"
  unfolding set_triage_stmt_def set_evidence_stmt_def json_set_stmt_def requeue_stmt_def relink_stmt_def snd_conv
  by (auto intro!: outbox_wf_update_where [OF assms] simp: row_wf_def MAX_RETRY_COUNT_def)

section \<open>Interleaved statements\<close>

record outbox_sys =
  shared :: outbox
  in_flight :: "(int \<times> int) list"

inductive outbox_step :: "sqlite_json \<Rightarrow> outbox_sys \<Rightarrow> outbox_sys \<Rightarrow> bool" for J where
  enqueue_row: "outbox_step J s (s\<lparr>shared := snd (insert_stmt k p now (shared s))\<rparr>)"
| claim_row: "outbox_step J s (s\<lparr>shared := snd (claim_stmt (claimable J now) now (shared s))\<rparr>)"
| claim_row_of_kind: "outbox_step J s (s\<lparr>shared := snd (claim_stmt
      (\<lambda>r. row_kind r = k \<and> waiting_or_stale (stale_cutoff now) r
         \<and> (k \<noteq> KIND_SESSION_MINED_CANDIDATE \<or> locally_approved J r)) now (shared s))\<rparr>)"
| confirm_row: "outbox_step J s (s\<lparr>shared := snd (delete_stmt i (shared s))\<rparr>)"
| fail_read: "fst (select_stmt i (shared s)) = Some row \<Longrightarrow>
    outbox_step J s (s\<lparr>in_flight := (i, retry_count row) # in_flight s\<rparr>)"
| fail_write: "(i, rc) \<in> set (in_flight s) \<Longrightarrow> failure_outcome rc = (st, n) \<Longrightarrow>
    outbox_step J s (s\<lparr>shared := snd (fail_stmt i st n err (shared s)),
      in_flight := remove1 (i, rc) (in_flight s)\<rparr>)"
| reset_rows: "outbox_step J s (s\<lparr>shared := snd (reset_stmt cutoff (shared s))\<rparr>)"
| revive_rows: "outbox_step J s (s\<lparr>shared := revive_stmt cutoff (shared s)\<rparr>)"
| triage_row: "outbox_step J s (s\<lparr>shared := snd (set_triage_stmt json_set triage_json i (shared s))\<rparr>)"
| evidence_row: "outbox_step J s (s\<lparr>shared := snd (set_evidence_stmt json_set evidence_json i (shared s))\<rparr>)"
| approve_row: "outbox_step J s (s\<lparr>shared := snd (requeue_stmt marked i (shared s))\<rparr>)"
| reject_row: "outbox_step J s (s\<lparr>shared := snd (delete_stmt i (shared s))\<rparr>)"
| relink_row: "outbox_step J s (s\<lparr>shared := snd (relink_stmt payload i (shared s))\<rparr>)"
| crash: "outbox_step J s (s\<lparr>in_flight := remove1 x (in_flight s)\<rparr>)"

definition empty_sys :: outbox_sys where
  "empty_sys = \<lparr>shared = outbox_new [] [] 1, in_flight = []\<rparr>"

inductive outbox_reachable :: "sqlite_json \<Rightarrow> outbox_sys \<Rightarrow> bool" for J where
  initially: "outbox_reachable J empty_sys"
| later: "outbox_reachable J s \<Longrightarrow> outbox_step J s t \<Longrightarrow> outbox_reachable J t"

section \<open>The invariant under interleaving\<close>

definition sys_inv :: "outbox_sys \<Rightarrow> bool" where
  "sys_inv s \<longleftrightarrow> outbox_wf (shared s) \<and> (\<forall>(i, rc) \<in> set (in_flight s). 0 \<le> rc)"

lemma set_remove1_subset': "x \<in> set (remove1 y xs) \<Longrightarrow> x \<in> set xs"
  using set_remove1_subset by fastforce

lemma outbox_step_inv: "outbox_step J s t \<Longrightarrow> sys_inv s \<Longrightarrow> sys_inv t"
proof (induction rule: outbox_step.induct)
  case (fail_read i s row)
  then have "row \<in> set (rows (shared s))" by (auto simp: select_stmt_def find_Some_iff)
  with fail_read show ?case by (auto simp: sys_inv_def outbox_wf_def row_wf_def)
next
  case (fail_write i rc s st n err)
  then have "outbox_wf (snd (fail_stmt i st n err (shared s)))"
    by (intro fail_stmt_wf) (auto simp: sys_inv_def)
  with fail_write show ?case by (auto simp: sys_inv_def dest: set_remove1_subset')
next
  case (crash s x)
  then show ?case by (auto simp: sys_inv_def dest: set_remove1_subset')
next
  case (claim_row s now)
  have "outbox_wf (snd (claim_stmt (claimable J now) now (shared s)))"
    using claim_row by (intro claim_stmt_wf) (auto simp: sys_inv_def claimable_def waiting_or_stale_def)
  with claim_row show ?case by (simp add: sys_inv_def)
next
  case (claim_row_of_kind s k now)
  then have "outbox_wf (snd (claim_stmt (\<lambda>r. row_kind r = k \<and> waiting_or_stale (stale_cutoff now) r
      \<and> (k \<noteq> KIND_SESSION_MINED_CANDIDATE \<or> locally_approved J r)) now (shared s)))"
    by (intro claim_stmt_wf) (auto simp: sys_inv_def waiting_or_stale_def)
  with claim_row_of_kind show ?case by (simp add: sys_inv_def)
qed (auto simp: sys_inv_def stmt_wf other_writers_wf)

lemma empty_sys_inv: "sys_inv empty_sys"
  by (simp add: sys_inv_def empty_sys_def outbox_new_def outbox_wf_def)

lemma outbox_reachable_inv: "outbox_reachable J s \<Longrightarrow> sys_inv s"
  by (induction rule: outbox_reachable.induct) (auto intro: empty_sys_inv outbox_step_inv)

section \<open>Executing an interleaving\<close>

text \<open>The same statements as a function, so that a concrete interleaving can be computed.\<close>

datatype sys_event =
    EvEnqueue ustr ustr int
  | EvClaim int
  | EvFailRead int
  | EvFailWrite int int ustr
  | EvApprove ustr int
  | EvReject int

fun exec_event :: "sqlite_json \<Rightarrow> sys_event \<Rightarrow> outbox_sys \<Rightarrow> outbox_sys option" where
  "exec_event J (EvEnqueue k p now) s = Some (s\<lparr>shared := snd (insert_stmt k p now (shared s))\<rparr>)"
| "exec_event J (EvClaim now) s =
     Some (s\<lparr>shared := snd (claim_stmt (claimable J now) now (shared s))\<rparr>)"
| "exec_event J (EvFailRead i) s =
     (case fst (select_stmt i (shared s)) of None \<Rightarrow> None
      | Some row \<Rightarrow> Some (s\<lparr>in_flight := (i, retry_count row) # in_flight s\<rparr>))"
| "exec_event J (EvFailWrite i rc err) s =
     (if (i, rc) \<in> set (in_flight s) then
        (let (st, n) = failure_outcome rc in
         Some (s\<lparr>shared := snd (fail_stmt i st n err (shared s)),
           in_flight := remove1 (i, rc) (in_flight s)\<rparr>))
      else None)"
| "exec_event J (EvApprove p i) s = Some (s\<lparr>shared := snd (requeue_stmt p i (shared s))\<rparr>)"
| "exec_event J (EvReject i) s = Some (s\<lparr>shared := snd (delete_stmt i (shared s))\<rparr>)"

fun exec_events :: "sqlite_json \<Rightarrow> sys_event list \<Rightarrow> outbox_sys \<Rightarrow> outbox_sys option" where
  "exec_events J [] s = Some s"
| "exec_events J (e # es) s = Option.bind (exec_event J e s) (exec_events J es)"

lemma exec_event_step: "exec_event J e s = Some t \<Longrightarrow> outbox_step J s t"
  by (cases e) (auto intro: outbox_step.intros split: option.splits if_splits prod.splits)

lemma exec_events_reachable:
  "outbox_reachable J s \<Longrightarrow> exec_events J es s = Some t \<Longrightarrow> outbox_reachable J t"
proof (induction es arbitrary: s)
  case (Cons e es)
  from Cons.prems(2) obtain u where "exec_event J e s = Some u" "exec_events J es u = Some t"
    by (auto simp: bind_eq_Some_conv)
  with Cons show ?case by (blast intro: outbox_reachable.later exec_event_step)
qed simp

lemma exec_events_append:
  "exec_events J (es @ [e]) s = Option.bind (exec_events J es s) (exec_event J e)"
  by (induction es arbitrary: s) (auto split: bind_splits)

text \<open>
  One process reads the retry count and is delayed; the other uses up every attempt of the row.
\<close>

definition exhaust_round :: "int \<Rightarrow> sys_event list" where
  "exhaust_round n = [EvClaim (100000 * (n + 2)), EvFailRead 1, EvFailWrite 1 n []]"

definition delayed_writer_trace :: "sys_event list" where
  "delayed_writer_trace =
     [EvEnqueue (lit ''trajectory'') [] 0, EvClaim 1, EvFailRead 1]
     @ concat (map exhaust_round [0, 1, 2, 3, 4, 5, 6, 7])"

section \<open>Properties\<close>

text \<open>
  C25. However the statements by which the program writes to the table interleave (those of the queue in several
  processes, of the inbox and of the publication of a rule), and wherever a process dies between two of them, the
  table is well-formed: identifiers are unique and below the next one to be given, a row being processed is claimed, and a row is abandoned
  exactly when its attempts are used up.
\<close>

theorem reachable_outbox_wf:
  assumes "outbox_reachable J s"
  shows "outbox_wf (shared s)"
  using outbox_reachable_inv [OF assms] by (simp add: sys_inv_def)

definition mixed_trace :: "sys_event list" where
  "mixed_trace = delayed_writer_trace
     @ [EvEnqueue (lit ''mcp_query'') [] 5, EvClaim 2000000, EvFailRead 2, EvApprove (lit ''{}'') 1, EvFailWrite 2 0 (lit ''offline''),
        EvReject 1, EvEnqueue (lit ''trajectory'') [] 9, EvClaim 3000000]"

theorem reachable_outbox_wf_witness:
  "\<exists>s. outbox_reachable demo_json s
     \<and> map (\<lambda>r. (row_id r, status r, retry_count r)) (rows (shared s)) = [(2, Processing, 1), (3, Pending, 0)]
     \<and> outbox_wf (shared s)"
proof -
  have "map_option (\<lambda>s. map (\<lambda>r. (row_id r, status r, retry_count r)) (rows (shared s)))
      (exec_events demo_json mixed_trace empty_sys) = Some [(2, Processing, 1), (3, Pending, 0)]" by code_simp
  then obtain s where s: "exec_events demo_json mixed_trace empty_sys = Some s"
    "map (\<lambda>r. (row_id r, status r, retry_count r)) (rows (shared s)) = [(2, Processing, 1), (3, Pending, 0)]" by auto
  have reach: "outbox_reachable demo_json s" by (rule exec_events_reachable [OF outbox_reachable.initially s(1)])
  note wf = reachable_outbox_wf [OF reach]
  show ?thesis by (intro exI conjI, rule reach, rule s(2), rule wf)
qed

text \<open>
  Abandoned is not final when two processes hold the same row: a process that read the retry
  count before the other used up the attempts still writes its own outcome, and puts the abandoned
  row back in the queue.
\<close>

theorem delayed_writer_revives_abandoned_row:
  "\<exists>s t. outbox_reachable demo_json s \<and> outbox_step demo_json s t
     \<and> map status (rows (shared s)) = [Abandoned] \<and> map status (rows (shared t)) = [Pending]"
proof -
  have run: "map_option (\<lambda>s. map status (rows (shared s)))
      (exec_events demo_json delayed_writer_trace empty_sys) = Some [Abandoned]" by code_simp
  then obtain s where s: "exec_events demo_json delayed_writer_trace empty_sys = Some s"
    and "map status (rows (shared s)) = [Abandoned]" by auto
  have "map_option (\<lambda>t. map status (rows (shared t)))
      (exec_events demo_json (delayed_writer_trace @ [EvFailWrite 1 0 []]) empty_sys) = Some [Pending]"
    by code_simp
  then obtain t where t: "exec_event demo_json (EvFailWrite 1 0 []) s = Some t"
    and "map status (rows (shared t)) = [Pending]"
    using s by (auto simp: exec_events_append)
  moreover have "outbox_reachable demo_json s"
    using outbox_reachable.initially s by (rule exec_events_reachable)
  moreover note exec_event_step [OF t]
  ultimately show ?thesis
    using \<open>map status (rows (shared s)) = [Abandoned]\<close> by (intro exI [of _ s] exI [of _ t]) simp
qed

end
