(* ===== verification/Comparators.thy ===== *)
theory Comparators
  imports Prelude
begin

text \<open>
  \<^verbatim>\<open>std::cmp::Ordering\<close> and \<^verbatim>\<open>slice::sort_by\<close>, as the sources use them. The library sort is
  stable, so on any comparator its result is that of the insertion sort below whenever the
  comparator is a total preorder; \<open>total_comparator\<close> states those laws, and every comparator that a
  component sorts with is built from the combinators shown here to satisfy them.
\<close>

section \<open>Comparators\<close>

datatype ordering = Less | Equal | Greater

definition then_with :: "ordering \<Rightarrow> ordering \<Rightarrow> ordering" where
  "then_with a b = (case a of Equal \<Rightarrow> b | _ \<Rightarrow> a)"

definition cmp_int :: "int \<Rightarrow> int \<Rightarrow> ordering" where
  "cmp_int a b = (if a < b then Less else if a = b then Equal else Greater)"

definition cmp_nat :: "nat \<Rightarrow> nat \<Rightarrow> ordering" where
  "cmp_nat a b = (if a < b then Less else if a = b then Equal else Greater)"

definition cmp_str :: "ustr \<Rightarrow> ustr \<Rightarrow> ordering" where
  "cmp_str a b = (if str_less a b then Less else if a = b then Equal else Greater)"

fun insert_by :: "('a \<Rightarrow> 'a \<Rightarrow> ordering) \<Rightarrow> 'a \<Rightarrow> 'a list \<Rightarrow> 'a list" where
  "insert_by cmp x [] = [x]"
| "insert_by cmp x (y # ys) = (if cmp y x = Less then y # insert_by cmp x ys else x # y # ys)"

text \<open>Inserting from the right keeps equal elements in their order.\<close>

definition sort_by :: "('a \<Rightarrow> 'a \<Rightarrow> ordering) \<Rightarrow> 'a list \<Rightarrow> 'a list" where
  "sort_by cmp xs = foldr (insert_by cmp) xs []"

lemma mset_insert_by [simp]: "mset (insert_by cmp x ys) = add_mset x (mset ys)"
  by (induction ys) auto

lemma mset_sort_by [simp]: "mset (sort_by cmp xs) = mset xs"
  by (induction xs) (auto simp: sort_by_def)

lemma set_insert_by [simp]: "set (insert_by cmp x ys) = insert x (set ys)"
  using mset_insert_by [of cmp x ys] by (metis set_mset_add_mset_insert set_mset_mset)

lemma set_sort_by [simp]: "set (sort_by cmp xs) = set xs"
  using mset_sort_by [of cmp xs] by (metis set_mset_mset)

lemma length_sort_by [simp]: "length (sort_by cmp xs) = length xs"
  using mset_sort_by [of cmp xs] by (metis size_mset)

section \<open>The contract of a comparator\<close>

locale total_comparator =
  fixes cmp :: "'a \<Rightarrow> 'a \<Rightarrow> ordering"
  assumes dual: "cmp x y = Less \<longleftrightarrow> cmp y x = Greater"
    and trans: "cmp x y \<noteq> Greater \<Longrightarrow> cmp y z \<noteq> Greater \<Longrightarrow> cmp x z \<noteq> Greater"
    and equal_right: "cmp x y = Equal \<Longrightarrow> cmp x z = cmp y z"
begin

lemma refl: "cmp x x = Equal"
  using dual [of x x] by (cases "cmp x x") auto

lemma equal_sym: "cmp x y = Equal \<longleftrightarrow> cmp y x = Equal"
  using dual [of x y] dual [of y x] by (cases "cmp x y"; cases "cmp y x") auto

abbreviation le :: "'a \<Rightarrow> 'a \<Rightarrow> bool" where
  "le x y \<equiv> cmp x y \<noteq> Greater"

lemma not_less_le: "cmp y x \<noteq> Less \<Longrightarrow> le x y"
  using dual [of y x] by simp

lemma sorted_insert_by: "sorted_wrt le ys \<Longrightarrow> sorted_wrt le (insert_by cmp x ys)"
proof (induction ys)
  case (Cons y ys)
  have "le x z" if "cmp y x \<noteq> Less" "z = y \<or> z \<in> set ys" for z
    using that Cons.prems not_less_le [OF that(1)] trans [of x y z] by auto
  with Cons show ?case by auto
qed simp

lemma sorted_sort_by: "sorted_wrt le (sort_by cmp xs)"
  by (induction xs) (auto simp: sort_by_def sorted_insert_by)

lemma sort_by_sorted: "sorted_wrt le xs \<Longrightarrow> sort_by cmp xs = xs"
proof (induction xs)
  case (Cons x xs)
  then show ?case
    using dual [of "hd xs" x] by (cases xs) (auto simp: sort_by_def)
qed (simp add: sort_by_def)

text \<open>Sorting leaves a sorted list alone, so sorting twice is sorting once.\<close>

lemma sort_by_idem: "sort_by cmp (sort_by cmp xs) = sort_by cmp xs"
  by (rule sort_by_sorted [OF sorted_sort_by])

text \<open>Without ties between different elements, the result does not depend on the order given.\<close>

lemma sorted_unique:
  assumes "sorted_wrt le xs" "sorted_wrt le ys" "mset xs = mset ys"
    and "\<And>x y. x \<in> set xs \<Longrightarrow> y \<in> set xs \<Longrightarrow> cmp x y = Equal \<Longrightarrow> x = y"
  shows "xs = ys"
  using assms
proof (induction xs arbitrary: ys)
  case (Cons x xs)
  then obtain y zs where ys: "ys = y # zs" by (cases ys) auto
  have sets: "set (x # xs) = set (y # zs)" using Cons.prems(3) ys by (metis set_mset_mset)
  then have "y = x \<or> y \<in> set xs" "x = y \<or> x \<in> set zs" by auto
  then have "le x y" "le y x" using Cons.prems(1,2) ys refl [of x] by auto
  then have "cmp x y = Equal" using dual [of y x] dual [of x y] by (cases "cmp x y") auto
  then have "x = y" using Cons.prems(4) sets by auto
  moreover from this Cons.prems ys have "xs = zs" by (intro Cons.IH) auto
  ultimately show ?case using ys by simp
qed simp

lemma sort_by_perm:
  assumes "mset xs = mset ys"
    and "\<And>x y. x \<in> set xs \<Longrightarrow> y \<in> set xs \<Longrightarrow> cmp x y = Equal \<Longrightarrow> x = y"
  shows "sort_by cmp xs = sort_by cmp ys"
  by (rule sorted_unique) (use assms sorted_sort_by in auto)

end

section \<open>Comparators built from others\<close>

lemma str_less_irrefl [simp]: "\<not> str_less s s"
  by (induction s) auto

lemma str_less_trans: "str_less s t \<Longrightarrow> str_less t u \<Longrightarrow> str_less s u"
proof (induction s t arbitrary: u rule: str_less.induct)
  case (3 a s b t)
  then show ?case by (cases u) auto
qed (auto elim: str_less.elims)

lemma str_less_linear: "str_less s t \<or> s = t \<or> str_less t s"
  by (induction s t rule: str_less.induct) (auto elim: str_less.elims)

lemma str_less_asym: "str_less s t \<Longrightarrow> \<not> str_less t s"
  using str_less_trans str_less_irrefl by blast

interpretation ints: total_comparator cmp_int
  by unfold_locales (auto simp: cmp_int_def split: if_splits)

interpretation nats: total_comparator cmp_nat
  by unfold_locales (auto simp: cmp_nat_def split: if_splits)

interpretation strings: total_comparator cmp_str
proof unfold_locales
  show "cmp_str x y = Less \<longleftrightarrow> cmp_str y x = Greater" for x y
    using str_less_linear [of x y] str_less_asym [of x y] by (auto simp: cmp_str_def)
  show "cmp_str x z \<noteq> Greater" if "cmp_str x y \<noteq> Greater" "cmp_str y z \<noteq> Greater" for x y z
    using that str_less_trans [of x y z] by (auto simp: cmp_str_def split: if_splits)
qed (auto simp: cmp_str_def split: if_splits)

lemma total_comparator_key:
  "total_comparator cmp \<Longrightarrow> total_comparator (\<lambda>x y. cmp (f x) (f y))"
  unfolding total_comparator_def by blast

text \<open>\<^verbatim>\<open>b.cmp(a)\<close>: the descending order.\<close>

lemma total_comparator_flip:
  assumes "total_comparator cmp"
  shows "total_comparator (\<lambda>x y. cmp y x)"
proof unfold_locales
  note laws = total_comparator.dual [OF assms] total_comparator.trans [OF assms]
    total_comparator.equal_right [OF assms] total_comparator.equal_sym [OF assms]
  show "cmp y x = Less \<longleftrightarrow> cmp x y = Greater" for x y by (rule laws(1))
  show "cmp z x \<noteq> Greater" if "cmp y x \<noteq> Greater" "cmp z y \<noteq> Greater" for x y z
    using laws(2) that by blast
  show "cmp z x = cmp z y" if "cmp y x = Equal" for x y z
    using laws(3) [OF that, of z] laws(1) [of z x] laws(1) [of x z] laws(1) [of z y] laws(1) [of y z]
    by (cases "cmp z x"; cases "cmp z y"; cases "cmp x z") auto
qed

lemma total_comparator_then:
  assumes c: "total_comparator c" and d: "total_comparator d"
  shows "total_comparator (\<lambda>x y. then_with (c x y) (d x y))"
proof unfold_locales
  fix x y z
  note eq = total_comparator.equal_sym [OF c]
  show "then_with (c x y) (d x y) = Less \<longleftrightarrow> then_with (c y x) (d y x) = Greater"
    using total_comparator.dual [OF c, of x y] total_comparator.dual [OF c, of y x]
      total_comparator.dual [OF d, of x y] eq [of x y]
    by (cases "c x y"; cases "c y x") (auto simp: then_with_def)
  show "then_with (c x z) (d x z) = then_with (c y z) (d y z)" if "then_with (c x y) (d x y) = Equal"
    using that total_comparator.equal_right [OF c, of x y z] total_comparator.equal_right [OF d, of x y z]
    by (auto simp: then_with_def split: ordering.splits)
  assume a: "then_with (c x y) (d x y) \<noteq> Greater" "then_with (c y z) (d y z) \<noteq> Greater"
  show "then_with (c x z) (d x z) \<noteq> Greater"
  proof (cases "c x y = Equal")
    case True
    then have "c x z = c y z" by (rule total_comparator.equal_right [OF c])
    with True a total_comparator.trans [OF d, of x y z] show ?thesis
      by (auto simp: then_with_def split: ordering.splits)
  next
    case False
    with a have xy: "c x y = Less" by (auto simp: then_with_def split: ordering.splits)
    from a have yz: "c y z \<noteq> Greater" by (auto simp: then_with_def split: ordering.splits)
    have "c x z = Less"
    proof (cases "c x z")
      case Equal
      then have "c z y = Less" using xy total_comparator.equal_right [OF c, of x z y] by simp
      then show ?thesis using yz total_comparator.dual [OF c, of z y] by simp
    next
      case Greater
      then show ?thesis using total_comparator.trans [OF c, of x y z] xy yz by simp
    qed simp
    then show ?thesis by (simp add: then_with_def)
  qed
qed

lemmas comparator_intros = total_comparator_then total_comparator_key total_comparator_flip
  ints.total_comparator_axioms nats.total_comparator_axioms strings.total_comparator_axioms

end
