(* ===== verification/Diff_Context.thy ===== *)
theory Diff_Context
  imports Comparators
begin

text \<open>
  \<^verbatim>\<open>crates/difflore-core/src/review_engine/diff_context.rs\<close>: packing the patches of a merge-base diff
  into one block of text under a character budget. Character counts are \<^verbatim>\<open>usize\<close> and saturate as in
  the source.
\<close>

section \<open>Data\<close>

datatype DiffContextMode = ReviewExtraction | FixPr

datatype DiffContextFileChange = Added | Modified | Renamed | Deleted

fun change_as_str :: "DiffContextFileChange \<Rightarrow> ustr" where
  "change_as_str Added = lit ''added''"
| "change_as_str Modified = lit ''modified''"
| "change_as_str Renamed = lit ''renamed''"
| "change_as_str Deleted = lit ''deleted''"

record DiffContextFile =
  dc_path :: ustr
  dc_patch :: ustr
  dc_relevance :: nat
  dc_change :: DiffContextFileChange

record DiffContextOptions =
  opt_char_budget :: "nat option"
  opt_mode :: DiffContextMode

record PackedDiffFile =
  pf_path :: ustr
  pf_change :: DiffContextFileChange
  pf_relevance :: nat
  pf_original_chars :: nat
  pf_included_chars :: nat
  pf_additions :: nat
  pf_deletions :: nat
  pf_truncated :: bool

datatype DiffContextSummaryReason = DeletedFile | EmptyPatch | OmittedForBudget | TruncatedForBudget

record DiffContextSummary =
  ds_path :: ustr
  ds_change :: DiffContextFileChange
  ds_reason :: DiffContextSummaryReason
  ds_original_chars :: nat
  ds_included_chars :: nat
  ds_additions :: nat
  ds_deletions :: nat
  ds_summary :: ustr

record PackedDiffContext =
  pc_text :: ustr
  included_files :: "PackedDiffFile list"
  summaries :: "DiffContextSummary list"
  pc_char_budget :: "nat option"
  packed_chars :: nat
  pc_original_chars :: nat

section \<open>Reading a patch\<close>

definition char_count :: "ustr \<Rightarrow> nat" where
  "char_count s = length s"

definition take_chars :: "ustr \<Rightarrow> nat \<Rightarrow> ustr" where
  "take_chars s max_chars = take max_chars s"

definition is_changed_line :: "ustr \<Rightarrow> bool" where
  "is_changed_line l \<longleftrightarrow>
     (starts_with l (lit ''+'') \<and> \<not> starts_with l (lit ''+++''))
     \<or> (starts_with l (lit ''-'') \<and> \<not> starts_with l (lit ''---''))"

definition is_context_line :: "ustr \<Rightarrow> bool" where
  "is_context_line l \<longleftrightarrow> starts_with l (lit '' '')"

definition is_key_patch_line :: "ustr \<Rightarrow> bool" where
  "is_key_patch_line l \<longleftrightarrow>
     starts_with l (lit ''diff --git '') \<or> starts_with l (lit ''index '')
     \<or> starts_with l (lit ''old mode '') \<or> starts_with l (lit ''new mode '')
     \<or> starts_with l (lit ''new file mode '') \<or> starts_with l (lit ''deleted file mode '')
     \<or> starts_with l (lit ''similarity index '') \<or> starts_with l (lit ''rename from '')
     \<or> starts_with l (lit ''rename to '') \<or> starts_with l (lit ''--- '')
     \<or> starts_with l (lit ''+++ '') \<or> starts_with l (lit ''@@ '')
     \<or> starts_with l (lit ''Binary files '') \<or> is_changed_line l"

definition count_changed_lines :: "ustr \<Rightarrow> nat \<times> nat" where
  "count_changed_lines patch = fold (\<lambda>l (additions, deletions).
      if starts_with l (lit ''+'') \<and> \<not> starts_with l (lit ''+++'') then (sat_add additions 1, deletions)
      else if starts_with l (lit ''-'') \<and> \<not> starts_with l (lit ''---'') then (additions, sat_add deletions 1)
      else (additions, deletions)) (lines patch) (0, 0)"

definition changed_line_total :: "ustr \<Rightarrow> nat" where
  "changed_line_total patch = (let (additions, deletions) = count_changed_lines patch in
     sat_add additions deletions)"

definition patch_indicates_deleted_file :: "ustr \<Rightarrow> bool" where
  "patch_indicates_deleted_file patch \<longleftrightarrow> list_ex (\<lambda>l. trim l = lit ''+++ /dev/null''
     \<or> starts_with l (lit ''deleted file mode '')) (lines patch)"

definition effective_change :: "DiffContextFile \<Rightarrow> DiffContextFileChange" where
  "effective_change f =
     (if dc_change f = Deleted \<or> patch_indicates_deleted_file (dc_patch f) then Deleted else dc_change f)"

fun active_rank :: "DiffContextFileChange \<Rightarrow> nat" where
  "active_rank Deleted = 1"
| "active_rank Added = 0"
| "active_rank Modified = 0"
| "active_rank Renamed = 0"

section \<open>Priority\<close>

definition compare_files ::
  "DiffContextMode \<Rightarrow> nat \<times> DiffContextFile \<Rightarrow> nat \<times> DiffContextFile \<Rightarrow> ordering" where
  "compare_files mode = (\<lambda>(a_idx, a) (b_idx, b).
     case mode of
       ReviewExtraction \<Rightarrow>
         then_with (cmp_nat (dc_relevance b) (dc_relevance a))
        (then_with (cmp_nat (active_rank (effective_change a)) (active_rank (effective_change b)))
        (then_with (cmp_nat (char_count (trim_end (dc_patch a))) (char_count (trim_end (dc_patch b))))
        (then_with (cmp_str (trim (dc_path a)) (trim (dc_path b)))
           (cmp_nat a_idx b_idx))))
     | FixPr \<Rightarrow>
         then_with (cmp_nat (dc_relevance b) (dc_relevance a))
        (then_with (cmp_nat (active_rank (effective_change a)) (active_rank (effective_change b)))
        (then_with (cmp_nat (changed_line_total (dc_patch b)) (changed_line_total (dc_patch a)))
        (then_with (cmp_nat (char_count (trim_end (dc_patch a))) (char_count (trim_end (dc_patch b))))
        (then_with (cmp_str (trim (dc_path a)) (trim (dc_path b)))
           (cmp_nat a_idx b_idx))))))"

section \<open>Rendering\<close>

definition fits_budget :: "nat \<Rightarrow> nat \<Rightarrow> nat option \<Rightarrow> bool" where
  "fits_budget current added budget \<longleftrightarrow>
     (case budget of None \<Rightarrow> True | Some limit \<Rightarrow> sat_add current added \<le> limit)"

definition file_heading :: "ustr \<Rightarrow> ustr" where
  "file_heading path = [newline, newline] @ lit ''## File: '' @ path
     @ [newline, newline] @ lit ''```diff'' @ [newline]"

definition render_file_section :: "ustr \<Rightarrow> ustr \<Rightarrow> ustr" where
  "render_file_section path patch = file_heading path @ trim_end patch @ [newline] @ lit ''```'' @ [newline]"

definition TRUNCATED_MARKER :: ustr where
  "TRUNCATED_MARKER = lit ''... [diff context truncated]'' @ [newline]"

definition try_push_line :: "ustr \<times> nat \<Rightarrow> ustr \<Rightarrow> nat \<Rightarrow> (ustr \<times> nat) option" where
  "try_push_line oc l max_chars = (case oc of (out, out_chars) \<Rightarrow>
     let needed = sat_add (char_count l) 1 in
     if sat_add out_chars needed > max_chars then None
     else Some (out @ l @ [newline], sat_add out_chars needed))"

definition push_partial_line :: "ustr \<times> nat \<Rightarrow> ustr \<Rightarrow> nat \<Rightarrow> ustr \<times> nat" where
  "push_partial_line oc l max_chars = (case oc of (out, out_chars) \<Rightarrow>
     let remaining = max_chars - out_chars in
     if remaining = 0 then (out, out_chars)
     else let part = (if remaining > 1 then take_chars l (remaining - 1) else []) in
       (out @ part @ (if remaining > 1 then [newline] else []), max_chars))"

text \<open>The lines worth keeping: the key lines and the context lines next to them.\<close>

definition mark_keep :: "ustr list \<Rightarrow> nat \<Rightarrow> bool list \<Rightarrow> bool list" where
  "mark_keep ls idx keep =
     (if is_key_patch_line (ls ! idx) then
        let k1 = keep[idx := True];
            k2 = (if idx > 0 \<and> is_context_line (ls ! (idx - 1)) then k1[idx - 1 := True] else k1)
        in if idx + 1 < length ls \<and> is_context_line (ls ! (idx + 1)) then k2[idx + 1 := True] else k2
      else keep)"

definition keep_flags :: "ustr list \<Rightarrow> bool list" where
  "keep_flags ls = fold (mark_keep ls) [0..<length ls] (replicate (length ls) False)"

fun compact_loop :: "nat \<Rightarrow> (ustr \<times> bool) list \<Rightarrow> ustr \<times> nat \<Rightarrow> bool \<Rightarrow> bool \<Rightarrow> ustr \<times> nat" where
  "compact_loop max_chars [] oc skipped included_any = oc"
| "compact_loop max_chars ((l, keep) # ls) oc skipped included_any =
     (if \<not> keep then compact_loop max_chars ls oc True included_any
      else
        let (oc1, skipped1) =
          (if skipped \<and> included_any then
             (case try_push_line oc (lit ''...'') max_chars of Some oc' \<Rightarrow> (oc', False) | None \<Rightarrow> (oc, skipped))
           else (oc, skipped))
        in case try_push_line oc1 l max_chars of
             Some oc2 \<Rightarrow> compact_loop max_chars ls oc2 skipped1 True
           | None \<Rightarrow> if \<not> included_any then push_partial_line oc1 l max_chars else oc1)"

definition compact_patch_lines :: "ustr \<Rightarrow> nat \<Rightarrow> ustr" where
  "compact_patch_lines patch max_chars =
     (if max_chars = 0 then []
      else let ls = lines (trim_end patch) in
        if ls = [] then []
        else if \<not> list_ex (\<lambda>k. k) (keep_flags ls) then take_chars (trim patch) max_chars
        else trim_end (fst (compact_loop max_chars (zip ls (keep_flags ls)) ([], 0) False False)))"

definition compact_overhead :: "ustr \<Rightarrow> nat" where
  "compact_overhead path = sat_add (sat_add (sat_add (char_count (file_heading path)) (char_count [newline]))
     (char_count TRUNCATED_MARKER)) (char_count (lit ''```'' @ [newline]))"

definition render_compact_file_section :: "ustr \<Rightarrow> ustr \<Rightarrow> nat \<Rightarrow> ustr option" where
  "render_compact_file_section path patch max_chars =
     (let overhead = compact_overhead path in
      if max_chars \<le> overhead then None
      else let compact = compact_patch_lines patch (max_chars - overhead) in
        if trim compact = [] then None
        else let section = file_heading path @ trim_end compact @ [newline] @ TRUNCATED_MARKER
               @ lit ''```'' @ [newline]
          in if char_count section \<le> max_chars then Some section else None)"

fun reason_text :: "DiffContextSummaryReason \<Rightarrow> ustr" where
  "reason_text DeletedFile = lit ''summarized because the file was deleted''"
| "reason_text EmptyPatch = lit ''omitted because the patch was empty''"
| "reason_text OmittedForBudget = lit ''deferred because the char budget was exhausted''"
| "reason_text TruncatedForBudget =
     lit ''partially included with key patch context because the full patch exceeded budget''"

definition build_summary ::
  "ustr \<Rightarrow> DiffContextFileChange \<Rightarrow> DiffContextSummaryReason \<Rightarrow> nat \<Rightarrow> nat \<Rightarrow> nat \<Rightarrow> nat \<Rightarrow> DiffContextSummary" where
  "build_summary path change reason orig included additions deletions =
     \<lparr>ds_path = path, ds_change = change, ds_reason = reason, ds_original_chars = orig,
      ds_included_chars = included, ds_additions = additions, ds_deletions = deletions,
      ds_summary = path @ lit '' ('' @ change_as_str change @ lit '', +'' @ show_nat additions
        @ lit '', -'' @ show_nat deletions @ lit '', '' @ show_nat orig @ lit '' chars): '' @ reason_text reason\<rparr>"

section \<open>Packing\<close>

text \<open>The body of the loop over the ordered records; every \<^verbatim>\<open>continue\<close> is a branch.\<close>

definition pack_step :: "DiffContextOptions \<Rightarrow> DiffContextFile \<Rightarrow> PackedDiffContext \<Rightarrow> PackedDiffContext" where
  "pack_step options file c0 =
     (let path = trim (dc_path file);
          patch = trim_end (dc_patch file);
          change = effective_change file;
          patch_chars = char_count patch;
          (additions, deletions) = count_changed_lines patch;
          c = c0\<lparr>pc_original_chars := sat_add (pc_original_chars c0) patch_chars\<rparr>;
          summarise = (\<lambda>reason included c. c\<lparr>summaries := summaries c
            @ [build_summary path change reason patch_chars included additions deletions]\<rparr>);
          include_section = (\<lambda>section truncated c. c\<lparr>pc_text := pc_text c @ section,
            packed_chars := sat_add (packed_chars c) (char_count section),
            included_files := included_files c @ [\<lparr>pf_path = path, pf_change = change,
              pf_relevance = dc_relevance file, pf_original_chars = patch_chars,
              pf_included_chars = char_count section, pf_additions = additions,
              pf_deletions = deletions, pf_truncated = truncated\<rparr>]\<rparr>)
      in
      if path = [] \<or> trim patch = [] then summarise EmptyPatch 0 c
      else if change = Deleted then summarise DeletedFile 0 c
      else if fits_budget (packed_chars c) (char_count (render_file_section path patch)) (opt_char_budget options)
      then include_section (render_file_section path patch) False c
      else case opt_char_budget options of
          None \<Rightarrow> c
        | Some char_budget \<Rightarrow>
            (case render_compact_file_section path patch (char_budget - packed_chars c) of
               Some section \<Rightarrow>
                 summarise TruncatedForBudget (char_count section) (include_section section True c)
             | None \<Rightarrow> summarise OmittedForBudget 0 c))"

definition ordered_files :: "DiffContextFile list \<Rightarrow> DiffContextMode \<Rightarrow> (nat \<times> DiffContextFile) list" where
  "ordered_files files mode = sort_by (compare_files mode) (zip [0..<length files] files)"

definition pack_diff_context :: "DiffContextFile list \<Rightarrow> DiffContextOptions \<Rightarrow> PackedDiffContext" where
  "pack_diff_context files options =
     fold (\<lambda>(_, file). pack_step options file) (ordered_files files (opt_mode options))
       \<lparr>pc_text = [], included_files = [], summaries = [], pc_char_budget = opt_char_budget options,
        packed_chars = 0, pc_original_chars = 0\<rparr>"

section \<open>The order\<close>

text \<open>The comparison without the tie-breaking position.\<close>

definition compare_priority :: "DiffContextMode \<Rightarrow> DiffContextFile \<Rightarrow> DiffContextFile \<Rightarrow> ordering" where
  "compare_priority mode a b =
     then_with (cmp_nat (dc_relevance b) (dc_relevance a))
    (then_with (cmp_nat (active_rank (effective_change a)) (active_rank (effective_change b)))
    (then_with (case mode of ReviewExtraction \<Rightarrow> Equal
       | FixPr \<Rightarrow> cmp_nat (changed_line_total (dc_patch b)) (changed_line_total (dc_patch a)))
    (then_with (cmp_nat (char_count (trim_end (dc_patch a))) (char_count (trim_end (dc_patch b))))
       (cmp_str (trim (dc_path a)) (trim (dc_path b))))))"

lemma then_with_simps [simp]: "then_with Equal x = x" "then_with Less x = Less" "then_with Greater x = Greater"
  by (simp_all add: then_with_def)

lemma then_with_assoc: "then_with (then_with a b) c = then_with a (then_with b c)"
  by (cases a) simp_all

lemma compare_files_priority:
  "compare_files mode = (\<lambda>x y. then_with (compare_priority mode (snd x) (snd y)) (cmp_nat (fst x) (fst y)))"
  by (cases mode) (auto simp: fun_eq_iff compare_files_def compare_priority_def then_with_assoc)

interpretation priority: total_comparator "compare_priority mode" for mode
proof -
  have "total_comparator (\<lambda>a b. case mode of ReviewExtraction \<Rightarrow> Equal
       | FixPr \<Rightarrow> cmp_nat (changed_line_total (dc_patch b)) (changed_line_total (dc_patch a)))"
    by (cases mode) (auto intro!: total_comparator.intro total_comparator_key
      [OF total_comparator_flip [OF nats.total_comparator_axioms], of "\<lambda>a. changed_line_total (dc_patch a)"])
  then show "total_comparator (compare_priority mode)"
    unfolding compare_priority_def
    by (intro total_comparator_then
        total_comparator_key [OF total_comparator_flip [OF nats.total_comparator_axioms], of dc_relevance]
        total_comparator_key [OF nats.total_comparator_axioms, of "\<lambda>a. active_rank (effective_change a)"]
        total_comparator_key [OF nats.total_comparator_axioms, of "\<lambda>a. char_count (trim_end (dc_patch a))"]
        total_comparator_key [OF strings.total_comparator_axioms, of "\<lambda>a. trim (dc_path a)"])
qed

interpretation file_order: total_comparator "compare_files mode" for mode
  unfolding compare_files_priority
  by (intro total_comparator_then total_comparator_key [OF priority.total_comparator_axioms]
      total_comparator_key [OF nats.total_comparator_axioms])

lemma mset_ordered_files: "mset (map snd (ordered_files files mode)) = mset files"
proof -
  have "mset (map snd (ordered_files files mode)) = image_mset snd (mset (zip [0..<length files] files))"
    by (simp add: ordered_files_def)
  also have "\<dots> = mset (map snd (zip [0..<length files] files))" by (simp only: mset_map)
  finally show ?thesis by (simp only: map_snd_zip length_upt diff_zero)
qed

lemma sorted_ordered_files:
  "sorted_wrt (\<lambda>a b. compare_priority mode a b \<noteq> Greater) (map snd (ordered_files files mode))"
  unfolding sorted_wrt_map ordered_files_def
  by (rule sorted_wrt_mono_rel [OF _ file_order.sorted_sort_by]) (auto simp: compare_files_priority)

section \<open>The bounds of the compact form\<close>

lemma try_push_line_length:
  assumes "try_push_line oc l max_chars = Some oc'" "snd oc = length (fst oc)" "max_chars < usize_max"
  shows "length (fst oc') \<le> max_chars" "snd oc' = length (fst oc')"
proof -
  show "length (fst oc') \<le> max_chars" "snd oc' = length (fst oc')"
    using assms by (cases oc; auto simp: try_push_line_def char_count_def sat_add_def Let_def split: if_splits)+
qed

lemma push_partial_line_length:
  "length (fst oc) \<le> max_chars \<Longrightarrow> snd oc = length (fst oc) \<Longrightarrow>
     length (fst (push_partial_line oc l max_chars)) \<le> max_chars"
  by (cases oc) (auto simp: push_partial_line_def Let_def take_chars_def)

lemma compact_loop_length:
  assumes "max_chars < usize_max" "length (fst oc) \<le> max_chars" "snd oc = length (fst oc)"
  shows "length (fst (compact_loop max_chars ls oc skipped inc)) \<le> max_chars"
  using assms
proof (induction max_chars ls oc skipped inc rule: compact_loop.induct)
  case (2 max_chars l keep ls oc skipped inc)
  obtain oc1 sk1 where step: "(oc1, sk1) = (if skipped \<and> inc then
      (case try_push_line oc (lit ''...'') max_chars of Some oc' \<Rightarrow> (oc', False) | None \<Rightarrow> (oc, skipped))
    else (oc, skipped))" by (metis surj_pair)
  have oc1: "length (fst oc1) \<le> max_chars" "snd oc1 = length (fst oc1)"
    using step "2.prems" try_push_line_length [of oc "lit ''...''" max_chars oc1]
    by (auto split: if_splits option.splits)
  show ?case
  proof (cases keep)
    case True
    show ?thesis
    proof (cases "try_push_line oc1 l max_chars")
      case None
      then show ?thesis
        using True oc1 push_partial_line_length [of oc1 max_chars l] by (simp add: step [symmetric])
    next
      case (Some oc2)
      then have "length (fst oc2) \<le> max_chars" "snd oc2 = length (fst oc2)"
        using oc1 "2.prems"(1) try_push_line_length [of oc1 l max_chars oc2] by auto
      with "2.IH"(2) [OF _ step refl Some] "2.prems"(1) True Some show ?thesis
        by (simp add: step [symmetric])
    qed
  qed (use "2.IH"(1) "2.prems" in simp)
qed simp

lemma compact_patch_lines_length:
  assumes "max_chars < usize_max"
  shows "length (compact_patch_lines patch max_chars) \<le> max_chars"
proof -
  have "length (trim_end (fst (compact_loop max_chars ls ([], 0) False False))) \<le> max_chars" for ls
    using compact_loop_length [OF assms, of "([], 0)" ls False False] length_trim_end_le le_trans by fastforce
  then show ?thesis by (simp add: compact_patch_lines_def Let_def take_chars_def)
qed

text \<open>
  The size check that ends \<^const>\<open>render_compact_file_section\<close> never rejects: the overhead was
  subtracted before the lines were chosen.
\<close>

lemma compact_section_fits:
  assumes "max_chars < usize_max" "compact_overhead path < max_chars"
  shows "char_count (file_heading path @ trim_end (compact_patch_lines patch (max_chars - compact_overhead path))
    @ [newline] @ TRUNCATED_MARKER @ lit ''```'' @ [newline]) \<le> max_chars"
proof -
  have "length (trim_end (compact_patch_lines patch (max_chars - compact_overhead path)))
      \<le> max_chars - compact_overhead path"
    using compact_patch_lines_length [of "max_chars - compact_overhead path" patch] length_trim_end_le
      assms le_trans less_imp_diff_less by blast
  moreover have "compact_overhead path = length (file_heading path @ [newline] @ TRUNCATED_MARKER @ lit ''```'' @ [newline])"
    using assms by (auto simp: compact_overhead_def sat_add_def char_count_def)
  ultimately show ?thesis using assms by (simp add: char_count_def)
qed

lemma render_compact_length:
  "render_compact_file_section path patch n = Some s \<Longrightarrow> length s \<le> n"
  by (auto simp: render_compact_file_section_def char_count_def Let_def split: if_splits)

section \<open>What the loop maintains\<close>

definition pack_inv :: "DiffContextOptions \<Rightarrow> DiffContextFile list \<Rightarrow> PackedDiffContext \<Rightarrow> bool" where
  "pack_inv options seen c \<longleftrightarrow>
     packed_chars c = min usize_max (length (pc_text c))
     \<and> sum_list (map pf_included_chars (included_files c)) = length (pc_text c)
     \<and> (\<forall>b. opt_char_budget options = Some b \<and> b < usize_max \<longrightarrow> length (pc_text c) \<le> b)
     \<and> mset (map pf_path (filter (\<lambda>f. \<not> pf_truncated f) (included_files c))) + mset (map ds_path (summaries c))
         = mset (map (\<lambda>f. trim (dc_path f)) seen)
     \<and> map pf_path (filter pf_truncated (included_files c))
         = map ds_path (filter (\<lambda>s. ds_reason s = TruncatedForBudget) (summaries c))"

lemma sat_add_packed: "p = min usize_max n \<Longrightarrow> sat_add p k = min usize_max (n + k)"
  by (auto simp: sat_add_def)

lemma pack_step_inv:
  assumes "pack_inv options seen c"
  shows "pack_inv options (seen @ [file]) (pack_step options file c)"
proof -
  define path where "path = trim (dc_path file)"
  define patch where "patch = trim_end (dc_patch file)"
  obtain adds dels where cnt: "count_changed_lines patch = (adds, dels)" by fastforce
  have packed: "packed_chars c = min usize_max (length (pc_text c))" using assms by (simp add: pack_inv_def)
  have full: "length (pc_text c) + length s \<le> b"
    if "sat_add (packed_chars c) (length s) \<le> b" "b < usize_max" for s b
    using that sat_add_packed [OF packed, of "length s"] by simp
  have compact: "length (pc_text c) + length s \<le> b"
    if "render_compact_file_section path patch (b - length (pc_text c)) = Some s" "length (pc_text c) \<le> b" for s b
    using render_compact_length [OF that(1)] that(2) by simp
  show ?thesis
    using assms
    by (auto simp: pack_inv_def pack_step_def Let_def path_def [symmetric] patch_def [symmetric] cnt
        char_count_def build_summary_def fits_budget_def sat_add_packed split: option.split
        dest: full compact)
qed

lemma fold_pack_inv:
  assumes "pack_inv options seen c"
  shows "pack_inv options (seen @ map snd fs) (fold (\<lambda>(_, file). pack_step options file) fs c)"
  using assms
proof (induction fs arbitrary: seen c)
  case (Cons f fs)
  then show ?case using Cons.IH [of "seen @ [snd f]"] pack_step_inv [of options seen c "snd f"]
    by (cases f) auto
qed simp

lemma pack_diff_context_inv:
  "pack_inv options (map snd (ordered_files files (opt_mode options))) (pack_diff_context files options)"
proof -
  have "pack_inv options [] \<lparr>pc_text = [], included_files = [], summaries = [],
      pc_char_budget = opt_char_budget options, packed_chars = 0, pc_original_chars = 0\<rparr>"
    by (simp add: pack_inv_def)
  from fold_pack_inv [OF this] show ?thesis by (simp add: pack_diff_context_def)
qed

text \<open>Without a budget, a patch that can be shown is shown in full.\<close>

definition shown :: "DiffContextFile \<Rightarrow> bool" where
  "shown f \<longleftrightarrow> trim (dc_path f) \<noteq> [] \<and> trim (trim_end (dc_patch f)) \<noteq> [] \<and> effective_change f \<noteq> Deleted"

lemma pack_step_unbudgeted:
  assumes "opt_char_budget options = None"
  shows "pc_text (pack_step options f c) = pc_text c
      @ (if shown f then render_file_section (trim (dc_path f)) (trim_end (dc_patch f)) else [])"
    and "map ds_reason (summaries (pack_step options f c)) = map ds_reason (summaries c)
      @ (if shown f then [] else if trim (dc_path f) = [] \<or> trim (trim_end (dc_patch f)) = [] then [EmptyPatch] else [DeletedFile])"
  using assms
  by (auto simp: pack_step_def shown_def fits_budget_def build_summary_def Let_def split: prod.split)

lemma fold_pack_unbudgeted:
  assumes "opt_char_budget options = None"
  shows "pc_text (fold (\<lambda>(_, file). pack_step options file) fs c) = pc_text c
      @ concat (map (\<lambda>f. render_file_section (trim (dc_path f)) (trim_end (dc_patch f))) (filter shown (map snd fs)))"
    and "set (map ds_reason (summaries (fold (\<lambda>(_, file). pack_step options file) fs c)))
      \<subseteq> set (map ds_reason (summaries c)) \<union> {EmptyPatch, DeletedFile}"
proof (induction fs arbitrary: c)
  case (Cons f fs)
  obtain i g where f: "f = (i, g)" by fastforce
  {
    case 1
    then show ?case using Cons(1) by (simp add: f pack_step_unbudgeted(1) [OF assms])
  next
    case 2
    have "set (map ds_reason (summaries (pack_step options g c))) \<subseteq> set (map ds_reason (summaries c)) \<union> {EmptyPatch, DeletedFile}"
      unfolding pack_step_unbudgeted(2) [OF assms] by auto
    then show ?case using Cons(2) [of "pack_step options g c"] unfolding f by (simp del: set_map) blast
  }
qed auto

section \<open>Properties\<close>

text \<open>
  C11. The packed text respects its budget and its bookkeeping is exact: it never exceeds the
  character budget, its recorded length is its length (up to the saturation of the counter) and the
  sum of what the included files report, every input file is accounted for exactly once by being
  included in full or being summarised, and a file is marked truncated exactly when a summary says so.
\<close>

theorem packed_context_within_budget:
  "packed_chars (pack_diff_context files options) = min usize_max (length (pc_text (pack_diff_context files options)))
   \<and> sum_list (map pf_included_chars (included_files (pack_diff_context files options)))
       = length (pc_text (pack_diff_context files options))
   \<and> (opt_char_budget options = Some b \<and> b < usize_max \<longrightarrow> length (pc_text (pack_diff_context files options)) \<le> b)
   \<and> mset (map pf_path (filter (\<lambda>f. \<not> pf_truncated f) (included_files (pack_diff_context files options))))
       + mset (map ds_path (summaries (pack_diff_context files options)))
       = mset (map (\<lambda>f. trim (dc_path f)) files)
   \<and> map pf_path (filter pf_truncated (included_files (pack_diff_context files options)))
       = map ds_path (filter (\<lambda>s. ds_reason s = TruncatedForBudget) (summaries (pack_diff_context files options)))"
proof -
  have "mset (map (\<lambda>f. trim (dc_path f)) (map snd (ordered_files files (opt_mode options))))
      = mset (map (\<lambda>f. trim (dc_path f)) files)"
    unfolding mset_map [of "\<lambda>f. trim (dc_path f)"] mset_ordered_files ..
  with pack_diff_context_inv [of options files] show ?thesis
    unfolding pack_inv_def by simp
qed

definition demo_patch :: "ustr \<Rightarrow> ustr" where
  "demo_patch t = lit ''@@ -1 +1,2 @@'' @ [newline] @ lit '' ctx'' @ [newline] @ lit ''+'' @ t"

definition demo_files :: "DiffContextFile list" where
  "demo_files =
     [\<lparr>dc_path = lit ''a.rs'', dc_patch = demo_patch (lit ''one''), dc_relevance = 0, dc_change = Modified\<rparr>,
      \<lparr>dc_path = lit ''b.rs'', dc_patch = demo_patch (lit ''two lines of code''), dc_relevance = 5, dc_change = Added\<rparr>,
      \<lparr>dc_path = lit ''c.rs'', dc_patch = demo_patch (lit ''x''), dc_relevance = 9, dc_change = Deleted\<rparr>]"

theorem packed_context_within_budget_witness:
  "length (pc_text (pack_diff_context demo_files \<lparr>opt_char_budget = Some 80, opt_mode = FixPr\<rparr>)) \<le> 80
   \<and> map pf_path (included_files (pack_diff_context demo_files \<lparr>opt_char_budget = Some 80, opt_mode = FixPr\<rparr>)) \<noteq> []"
proof -
  have "map pf_path (included_files (pack_diff_context demo_files \<lparr>opt_char_budget = Some 80, opt_mode = FixPr\<rparr>)) \<noteq> []"
    by code_simp
  moreover have "(80::nat) < usize_max" by (simp add: usize_max_def)
  ultimately show ?thesis
    using packed_context_within_budget [of demo_files "\<lparr>opt_char_budget = Some 80, opt_mode = FixPr\<rparr>" 80] by simp
qed

text \<open>
  Without a budget nothing is lost: the text is the full section of every file that has a path,
  a patch and is not deleted, in priority order, and a summary only ever says that a file is empty
  or deleted.
\<close>

theorem unbudgeted_context_is_complete:
  assumes "opt_char_budget options = None"
  shows "\<exists>order. mset order = mset files
      \<and> sorted_wrt (\<lambda>a b. compare_priority (opt_mode options) a b \<noteq> Greater) order
      \<and> pc_text (pack_diff_context files options)
          = concat (map (\<lambda>f. render_file_section (trim (dc_path f)) (trim_end (dc_patch f))) (filter shown order))
      \<and> (\<forall>s \<in> set (summaries (pack_diff_context files options)). ds_reason s \<in> {EmptyPatch, DeletedFile})"
proof (intro exI conjI)
  let ?order = "map snd (ordered_files files (opt_mode options))"
  show "mset ?order = mset files" by (rule mset_ordered_files)
  show "sorted_wrt (\<lambda>a b. compare_priority (opt_mode options) a b \<noteq> Greater) ?order" by (rule sorted_ordered_files)
  show "pc_text (pack_diff_context files options)
      = concat (map (\<lambda>f. render_file_section (trim (dc_path f)) (trim_end (dc_patch f))) (filter shown ?order))"
    unfolding pack_diff_context_def fold_pack_unbudgeted(1) [OF assms] by simp
  have "set (map ds_reason (summaries (pack_diff_context files options))) \<subseteq> {EmptyPatch, DeletedFile}"
    unfolding pack_diff_context_def
    by (rule subset_trans [OF fold_pack_unbudgeted(2) [OF assms]]) simp
  then show "\<forall>s \<in> set (summaries (pack_diff_context files options)). ds_reason s \<in> {EmptyPatch, DeletedFile}" by auto
qed

theorem unbudgeted_context_is_complete_witness:
  "ds_reason ` set (summaries (pack_diff_context demo_files \<lparr>opt_char_budget = None, opt_mode = FixPr\<rparr>))
     \<subseteq> {EmptyPatch, DeletedFile}"
  using unbudgeted_context_is_complete [of "\<lparr>opt_char_budget = None, opt_mode = FixPr\<rparr>" demo_files] by auto

text \<open>
  Packing does not depend on the order in which the diff listed the files: two listings of the
  same files give the same context, unless two different files tie on every criterion.
\<close>

theorem packing_ignores_listing_order:
  assumes "mset files = mset files'"
    and "\<forall>a \<in> set files. \<forall>b \<in> set files. compare_priority (opt_mode options) a b = Equal \<longrightarrow> a = b"
  shows "pack_diff_context files options = pack_diff_context files' options"
proof -
  let ?m = "opt_mode options"
  have "map snd (ordered_files files ?m) = map snd (ordered_files files' ?m)"
  proof (rule priority.sorted_unique [OF sorted_ordered_files sorted_ordered_files])
    show "mset (map snd (ordered_files files ?m)) = mset (map snd (ordered_files files' ?m))"
      by (simp only: mset_ordered_files assms(1))
    have "set (map snd (ordered_files files ?m)) = set files" by (metis mset_ordered_files set_mset_mset)
    then show "x = y" if "x \<in> set (map snd (ordered_files files ?m))" "y \<in> set (map snd (ordered_files files ?m))"
      "compare_priority ?m x y = Equal" for x y using that assms(2) by blast
  qed
  moreover have "fold (\<lambda>(_, file). pack_step options file) fs = fold (pack_step options) (map snd fs)"
    for fs :: "(nat \<times> DiffContextFile) list" by (simp add: fold_map comp_def case_prod_unfold)
  ultimately show ?thesis by (simp only: pack_diff_context_def)
qed

theorem packing_ignores_listing_order_witness:
  "pack_diff_context demo_files \<lparr>opt_char_budget = Some 80, opt_mode = ReviewExtraction\<rparr>
   = pack_diff_context (rev demo_files) \<lparr>opt_char_budget = Some 80, opt_mode = ReviewExtraction\<rparr>"
proof (rule packing_ignores_listing_order)
  show "\<forall>a \<in> set demo_files. \<forall>b \<in> set demo_files.
      compare_priority (opt_mode \<lparr>opt_char_budget = Some 80, opt_mode = ReviewExtraction\<rparr>) a b = Equal \<longrightarrow> a = b"
    by code_simp
qed simp

end
