(* ===== verification/Issue_Parse.thy ===== *)
theory Issue_Parse
  imports Json
begin

text \<open>
  \<^verbatim>\<open>crates/difflore-core/src/review_engine/parse.rs\<close>: reading the answers of a reviewing model. The
  JSON parser is the parameter \<open>parse_json\<close> (\<^verbatim>\<open>serde_json::from_str::<Value>\<close>; parsing to
  \<^verbatim>\<open>Vec<Value>\<close> succeeds exactly on the arrays). Floating-point arithmetic is the parameter
  \<open>float_ops\<close>: \<open>'f\<close> stands for \<^verbatim>\<open>f64\<close>, \<open>'g\<close> for \<^verbatim>\<open>f32\<close>.
\<close>

section \<open>Data\<close>

record ('f, 'g) float_ops =
  f64_of_u64 :: "nat \<Rightarrow> 'f"
  f64_of_i64 :: "int \<Rightarrow> 'f"
  f64_one :: 'f
  f64_zero :: 'f
  as_f32 :: "'f \<Rightarrow> 'g"
  clamp_unit :: "'g \<Rightarrow> 'g"
  f32_one :: 'g

fun as_f64 :: "('f, 'g) float_ops \<Rightarrow> 'f json \<Rightarrow> 'f option" where
  "as_f64 F (JPosInt n) = Some (f64_of_u64 F n)"
| "as_f64 F (JNegInt n) = Some (f64_of_i64 F n)"
| "as_f64 F (JFloat x) = Some x"
| "as_f64 F _ = None"

record 'g ReviewIssueRecord =
  severity :: ustr
  rule :: ustr
  rule_id :: "ustr option"
  message :: ustr
  issue_file :: "ustr option"
  issue_line :: "int option"
  suggestion :: "ustr option"
  source_badge :: "ustr option"
  perspectives :: "ustr list"
  confidence :: 'g

record FileIntent =
  fi_file :: ustr
  intent :: ustr

record ReviewSummary =
  one_line_summary :: ustr
  walkthrough_by_file :: "FileIntent list"
  blocking_count :: nat
  non_blocking_count :: nat

definition severity_rank :: "ustr \<Rightarrow> nat" where
  "severity_rank s = (if s = lit ''error'' then 3 else if s = lit ''warning'' then 2
     else if s = lit ''info'' then 1 else 0)"

section \<open>Finding the JSON in an answer\<close>

definition fence :: ustr where "fence = [96, 96, 96]"

text \<open>The contents of the first fenced block, if it is closed.\<close>

definition fenced_block :: "ustr \<Rightarrow> ustr option" where
  "fenced_block text =
     Option.bind (str_find text fence) (\<lambda>start.
       let after = drop (start + 3) text;
           content_start = (case find_char after newline of None \<Rightarrow> 0 | Some i \<Rightarrow> i + 1) in
       map_option (\<lambda>e. take e (drop content_start after)) (str_find (drop content_start after) fence))"

text \<open>From the first opening to the last closing bracket.\<close>

definition bracket_slice :: "uchar \<Rightarrow> uchar \<Rightarrow> ustr \<Rightarrow> ustr option" where
  "bracket_slice op cl text =
     (case (find_char text op, rfind_char text cl) of
        (Some s, Some e) \<Rightarrow> if e > s then Some (take (e + 1 - s) (drop s text)) else None
      | _ \<Rightarrow> None)"

definition parse_array :: "(ustr \<Rightarrow> 'f json option) \<Rightarrow> ustr \<Rightarrow> 'f json list option" where
  "parse_array parse_json t = Option.bind (parse_json t) as_array"

definition parse_issue_array :: "(ustr \<Rightarrow> 'f json option) \<Rightarrow> ustr \<Rightarrow> 'f json list" where
  "parse_issue_array parse_json text =
     (case parse_array parse_json (trim text) of
        Some arr \<Rightarrow> arr
      | None \<Rightarrow>
          (case Option.bind (fenced_block text) (\<lambda>block. parse_array parse_json (trim block)) of
             Some arr \<Rightarrow> arr
           | None \<Rightarrow>
               (case Option.bind (bracket_slice 91 93 text) (parse_array parse_json) of
                  Some arr \<Rightarrow> arr
                | None \<Rightarrow> [])))"

definition parse_value_object :: "(ustr \<Rightarrow> 'f json option) \<Rightarrow> ustr \<Rightarrow> 'f json option" where
  "parse_value_object parse_json text =
     (let object = (\<lambda>t. case parse_json t of Some v \<Rightarrow> if is_object v then Some v else None | None \<Rightarrow> None) in
      case parse_json (trim text) of
        Some v \<Rightarrow> if is_object v then Some v else None
      | None \<Rightarrow>
          (case Option.bind (fenced_block text) (\<lambda>block. object (trim block)) of
             Some v \<Rightarrow> Some v
           | None \<Rightarrow> Option.bind (bracket_slice 123 125 text) object))"

section \<open>Issues\<close>

definition i32_of :: "int \<Rightarrow> int option" where
  "i32_of n = (if - 2147483648 \<le> n \<and> n \<le> 2147483647 then Some n else None)"

definition issue_of_object :: "('f, 'g) float_ops \<Rightarrow> 'f json \<Rightarrow> 'g ReviewIssueRecord" where
  "issue_of_object F v =
     \<lparr>severity = get_str_or v (lit ''severity'') (lit ''info''),
      rule = get_str_or v (lit ''rule'') (lit ''unknown''),
      rule_id = get_str v (lit ''ruleId''),
      message = get_str_or v (lit ''message'') [],
      issue_file = get_str v (lit ''file''),
      issue_line = Option.bind (Option.bind (json_get v (lit ''line'')) as_i64) i32_of,
      suggestion = get_str v (lit ''suggestion''),
      source_badge = None,
      perspectives = [],
      confidence = f32_one F\<rparr>"

definition map_issues :: "('f, 'g) float_ops \<Rightarrow> 'f json list \<Rightarrow> 'g ReviewIssueRecord list" where
  "map_issues F arr = List.map_filter (\<lambda>item. case as_object item of
     None \<Rightarrow> None | Some _ \<Rightarrow> Some (issue_of_object F item)) arr"

definition parse_issues ::
  "('f, 'g) float_ops \<Rightarrow> (ustr \<Rightarrow> 'f json option) \<Rightarrow> ustr \<Rightarrow> 'g ReviewIssueRecord list" where
  "parse_issues F parse_json text =
     (case parse_array parse_json (trim text) of
        Some arr \<Rightarrow> map_issues F arr
      | None \<Rightarrow>
          (case Option.bind (fenced_block text) (\<lambda>block. parse_array parse_json (trim block)) of
             Some arr \<Rightarrow> map_issues F arr
           | None \<Rightarrow>
               (case Option.bind (bracket_slice 91 93 text) (parse_array parse_json) of
                  Some arr \<Rightarrow> map_issues F arr
                | None \<Rightarrow> [])))"

text \<open>
  \<^verbatim>\<open>find_map(|key| obj.get(key))\<close>: the value of the first key that is present, whatever its type.
\<close>

fun first_present :: "'f json \<Rightarrow> ustr list \<Rightarrow> 'f json option" where
  "first_present v [] = None"
| "first_present v (k # ks) = (case json_get v k of Some x \<Rightarrow> Some x | None \<Rightarrow> first_present v ks)"

definition snippet_keys :: "ustr list" where
  "snippet_keys = [lit ''existingCode'', lit ''existing_code'', lit ''code'', lit ''snippet'']"

definition snippet_of_object :: "'f json \<Rightarrow> ustr option" where
  "snippet_of_object v =
     (case Option.bind (first_present v snippet_keys) as_str of
        None \<Rightarrow> None
      | Some s \<Rightarrow> if trim s \<noteq> [] then Some (trim s) else None)"

definition extract_issue_snippets :: "(ustr \<Rightarrow> 'f json option) \<Rightarrow> ustr \<Rightarrow> ustr option list" where
  "extract_issue_snippets parse_json text =
     map snippet_of_object (filter is_object (parse_issue_array parse_json text))"

section \<open>Verdicts and summaries\<close>

text \<open>A map as the list of its insertions, the latest first: \<open>map_of\<close> finds the latest.\<close>

definition verify_entry :: "('f, 'g) float_ops \<Rightarrow> 'f json \<Rightarrow> (nat \<times> ('g \<times> bool)) option" where
  "verify_entry F item =
     (if \<not> is_object item then None
      else map_option (\<lambda>id.
        (id, (clamp_unit F (as_f32 F (case Option.bind (json_get item (lit ''confidence'')) (as_f64 F) of
                Some c \<Rightarrow> c | None \<Rightarrow> f64_one F)),
              get_str_or item (lit ''verdict'') (lit ''keep'') \<noteq> lit ''drop'')))
        (Option.bind (json_get item (lit ''id'')) as_u64))"

definition parse_verify_response ::
  "('f, 'g) float_ops \<Rightarrow> (ustr \<Rightarrow> 'f json option) \<Rightarrow> ustr \<Rightarrow> (nat \<times> ('g \<times> bool)) list option" where
  "parse_verify_response F parse_json text =
     (let arr = parse_issue_array parse_json text in
      if arr = [] then None else Some (rev (List.map_filter (verify_entry F) arr)))"

definition intent_of_object :: "'f json \<Rightarrow> FileIntent option" where
  "intent_of_object v =
     (if is_object v then
        map_option (\<lambda>f. \<lparr>fi_file = f, intent = get_str_or v (lit ''intent'') []\<rparr>) (get_str v (lit ''file''))
      else None)"

definition parse_summary_response ::
  "(ustr \<Rightarrow> 'f json option) \<Rightarrow> ustr \<Rightarrow> (ustr \<times> FileIntent list) option" where
  "parse_summary_response parse_json text =
     map_option (\<lambda>v.
       (get_str_or v (lit ''oneLineSummary'') [],
        (case Option.bind (json_get v (lit ''walkthroughByFile'')) as_array of
           Some arr \<Rightarrow> List.map_filter intent_of_object arr | None \<Rightarrow> [])))
       (parse_value_object parse_json text)"

section \<open>Properties\<close>

lemma parse_issues_array: "parse_issues F parse_json text = map_issues F (parse_issue_array parse_json text)"
  by (simp add: parse_issues_def parse_issue_array_def map_issues_def split: option.split)

lemma map_issues_objects: "map_issues F arr = map (issue_of_object F) (filter is_object arr)"
  by (induction arr) (auto simp: map_issues_def is_object_def List.map_filter_simps split: option.split)

text \<open>
  The issues of an answer and the snippets quoted with them stay aligned: both lists come from the
  same JSON objects in the same order, so the snippet at a position belongs to the issue there.
\<close>

theorem snippets_align_with_issues:
  "\<exists>objs. list_all is_object objs
     \<and> parse_issues F parse_json text = map (issue_of_object F) objs
     \<and> extract_issue_snippets parse_json text = map snippet_of_object objs"
  by (rule exI [of _ "filter is_object (parse_issue_array parse_json text)"])
    (simp add: parse_issues_array map_issues_objects extract_issue_snippets_def list_all_iff)

text \<open>
  A present but unusable \<^verbatim>\<open>existingCode\<close> hides the other spellings: an object whose
  \<^verbatim>\<open>existingCode\<close> is null yields no snippet, even when its \<^verbatim>\<open>code\<close> field carries one.
\<close>

theorem null_existing_code_hides_code:
  "snippet_of_object (JObject [(lit ''existingCode'', JNull), (lit ''code'', JString (lit ''x = 1''))]) = None
   \<and> snippet_of_object (JObject [(lit ''code'', JString (lit ''x = 1''))]) = Some (lit ''x = 1'')"
  by (simp add: snippet_of_object_def snippet_keys_def json_get_def lit_def trim_def trim_start_def
      trim_end_def is_whitespace_def)

end
