(* ===== verification/Review_Checks.thy ===== *)
theory Review_Checks
  imports Issue_Parse
begin

text \<open>
  The advisory model calls of a review: \<^verbatim>\<open>verify_pass\<close> and \<^verbatim>\<open>run_review_summary\<close> of
  \<^verbatim>\<open>review_engine/pipeline/validate.rs\<close>, the applicability judge of \<^verbatim>\<open>pipeline/judge.rs\<close>, their
  prompts (\<^verbatim>\<open>review_engine/prompts.rs\<close>), and the two helpers they use from \<^verbatim>\<open>pipeline/mod.rs\<close>.
  The model is the parameter \<open>chat\<close>, from system and user prompt to an error or an answer.

  Both calls may only narrow what they are given and never empty it; the locale \<open>advisory_filter\<close>
  states that contract once, and both are interpretations of it.
\<close>

section \<open>Prompts\<close>

type_synonym chat = "ustr \<Rightarrow> ustr \<Rightarrow> ustr + ustr"

definition VERIFY_SYSTEM_PROMPT :: ustr where
  "VERIFY_SYSTEM_PROMPT =
     lit ''You are a strict code-review verifier. Given the diff and a list of candidate issues, for EACH issue decide whether it is a true positive.''
     @ [newline, newline] @ lit ''Return ONLY a JSON array. Each element must be an object:''
     @ [newline] @ lit ''{'' @ [34] @ lit ''id'' @ [34] @ lit '': <index>, '' @ [34]
     @ lit ''confidence'' @ [34] @ lit '': <float 0..1>, '' @ [34] @ lit ''verdict'' @ [34] @ lit '': ''
     @ [34] @ lit ''keep'' @ [34] @ lit ''|'' @ [34] @ lit ''drop'' @ [34] @ lit '', '' @ [34]
     @ lit ''reason'' @ [34] @ lit '': '' @ [34] @ lit ''<short>'' @ [34] @ lit ''}''
     @ [newline, newline] @ lit ''Be strict '' @ [8212]
     @ lit '' drop obvious false positives. Keep an issue when the changed line directly matches the cited rule''
     @ [39] @ lit ''s bad pattern or contradicts the cited rule'' @ [39]
     @ lit ''s recommendation, even if surrounding pre-existing code has similar style. Do NOT invent new issues.''
     @ [newline] @ lit ''Return the raw JSON array only, no markdown, no explanation.''"

definition SUMMARY_SYSTEM_PROMPT :: ustr where
  "SUMMARY_SYSTEM_PROMPT =
     lit ''You are a code-review summarizer. Given a diff, produce a concise one-line PR summary plus per-file intent descriptions.''
     @ [newline, newline] @ lit ''Return ONLY a JSON object with this exact shape:'' @ [newline]
     @ lit ''{'' @ [newline] @ lit ''  '' @ [34] @ lit ''oneLineSummary'' @ [34] @ lit '': '' @ [34]
     @ lit ''<one sentence>'' @ [34] @ lit '','' @ [newline] @ lit ''  '' @ [34]
     @ lit ''walkthroughByFile'' @ [34] @ lit '': ['' @ [newline] @ lit ''    {'' @ [34] @ lit ''file''
     @ [34] @ lit '': '' @ [34] @ lit ''<path>'' @ [34] @ lit '', '' @ [34] @ lit ''intent'' @ [34]
     @ lit '': '' @ [34] @ lit ''<one sentence describing what this file'' @ [39]
     @ lit ''s change does>'' @ [34] @ lit ''}'' @ [newline] @ lit ''  ]'' @ [newline] @ lit ''}''
     @ [newline] @ lit ''No markdown, no code blocks, no extra commentary.''"

definition JUDGE_SYSTEM_PROMPT :: ustr where
  "JUDGE_SYSTEM_PROMPT =
     lit ''You are a code-review rule-relevance judge. You are given a diff and a numbered list of candidate review rules. For EACH rule, decide whether that rule''
     @ [39] @ lit ''s lesson actually applies to THIS diff '' @ [8212]
     @ lit '' i.e. the diff touches the kind of code, pattern, or concern the rule is about.''
     @ [newline, newline] @ lit ''Return ONLY a JSON array. Each element must be an object:''
     @ [newline] @ lit ''{'' @ [34] @ lit ''id'' @ [34] @ lit '': <index>, '' @ [34] @ lit ''applies''
     @ [34] @ lit '': true|false, '' @ [34] @ lit ''relevance'' @ [34] @ lit '': <float 0..1>, '' @ [34]
     @ lit ''reason'' @ [34] @ lit '': '' @ [34] @ lit ''<short>'' @ [34] @ lit ''}''
     @ [newline, newline] @ lit ''Judge relevance only '' @ [8212]
     @ lit '' do NOT report code issues, do NOT invent rules, do NOT rewrite the rule. A rule '' @ [34]
     @ lit ''applies'' @ [34] @ lit '' when the diff plausibly involves the rule'' @ [39]
     @ lit ''s subject, even if the diff does not necessarily violate it. When you are unsure, set ''
     @ [34] @ lit ''applies'' @ [34] @ lit '': true (keep the rule). Mark '' @ [34] @ lit ''applies''
     @ [34] @ lit '': false only when the rule is clearly about unrelated code or concerns.''
     @ [newline] @ lit ''Return the raw JSON array only, no markdown, no explanation.''"

definition clamp_str_to_char_boundary :: "ustr \<Rightarrow> nat \<Rightarrow> ustr" where
  "clamp_str_to_char_boundary s max_bytes = (if utf8_len s \<le> max_bytes then s else clamp_bytes max_bytes s)"

definition show_i32 :: "int \<Rightarrow> ustr" where
  "show_i32 n = (if n < 0 then 45 # show_nat (nat (- n)) else show_nat (nat n))"

definition or_empty :: "ustr option \<Rightarrow> ustr" where
  "or_empty v = (case v of Some s \<Rightarrow> s | None \<Rightarrow> [])"

definition diff_block :: "ustr \<Rightarrow> ustr" where
  "diff_block diff = lit ''## Diff'' @ [newline] @ fence @ lit ''diff'' @ [newline]
     @ clamp_str_to_char_boundary diff 8000 @ [newline] @ fence @ [newline]"

definition verify_prompt_issue :: "nat \<times> 'g ReviewIssueRecord \<Rightarrow> ustr" where
  "verify_prompt_issue = (\<lambda>(i, issue).
     lit ''- id: '' @ show_nat i @ [newline] @ lit ''  severity: '' @ severity issue @ [newline]
     @ lit ''  rule: '' @ rule issue @ [newline] @ lit ''  file: '' @ or_empty (issue_file issue) @ [newline]
     @ lit ''  line: '' @ (case issue_line issue of Some n \<Rightarrow> show_i32 n | None \<Rightarrow> []) @ [newline]
     @ lit ''  message: '' @ message issue @ [newline]
     @ lit ''  suggestion: '' @ or_empty (suggestion issue) @ [newline])"

definition build_verify_user_prompt :: "ustr \<Rightarrow> 'g ReviewIssueRecord list \<Rightarrow> ustr" where
  "build_verify_user_prompt diff issues =
     diff_block diff @ [newline] @ lit ''## Candidate issues'' @ [newline]
     @ concat (map verify_prompt_issue (zip [0..<length issues] issues))"

definition build_summary_user_prompt :: "ustr \<Rightarrow> ustr list \<Rightarrow> ustr" where
  "build_summary_user_prompt diff files =
     lit ''## Files touched'' @ [newline] @ concat (map (\<lambda>f. lit ''- '' @ f @ [newline]) files)
     @ [newline] @ diff_block diff"

section \<open>Summary\<close>

text \<open>The counters are \<^verbatim>\<open>u32\<close>; a review has far fewer than \<open>2 ^ 32\<close> issues.\<close>

definition count_blocking :: "'g ReviewIssueRecord list \<Rightarrow> nat \<times> nat" where
  "count_blocking issues = fold (\<lambda>i (blocking, non_blocking).
     if severity i = lit ''error'' \<or> severity i = lit ''critical'' then (blocking + 1, non_blocking)
     else (blocking, non_blocking + 1)) issues (0, 0)"

text \<open>The path a \<^verbatim>\<open>+++\<close> line names, if it names one.\<close>

definition new_side_path :: "ustr \<Rightarrow> ustr option" where
  "new_side_path l =
     Option.bind (strip_prefix l (lit ''+++ '')) (\<lambda>rest.
       let f = trim (case strip_prefix rest (lit ''b/'') of Some r \<Rightarrow> r | None \<Rightarrow> rest) in
       if f = [] \<or> f = lit ''/dev/null'' then None else Some f)"

definition collect_diff_files :: "ustr \<Rightarrow> ustr list" where
  "collect_diff_files diff = fold (\<lambda>l out. case new_side_path l of
       None \<Rightarrow> out | Some f \<Rightarrow> if f \<in> set out then out else out @ [f]) (lines diff) []"

definition run_review_summary ::
  "(ustr \<Rightarrow> 'f json option) \<Rightarrow> chat \<Rightarrow> bool \<Rightarrow> ustr \<Rightarrow> 'g ReviewIssueRecord list \<Rightarrow> ReviewSummary option" where
  "run_review_summary parse_json chat review_summary_enabled diff issues =
     (if \<not> review_summary_enabled \<or> diff = [] then None
      else case chat SUMMARY_SYSTEM_PROMPT (build_summary_user_prompt diff (collect_diff_files diff)) of
          Inl _ \<Rightarrow> None
        | Inr response \<Rightarrow>
            map_option (\<lambda>(one_line, walkthrough).
              \<lparr>one_line_summary = one_line, walkthrough_by_file = walkthrough,
               blocking_count = fst (count_blocking issues), non_blocking_count = snd (count_blocking issues)\<rparr>)
              (parse_summary_response parse_json response))"

section \<open>Verification of issues\<close>

fun apply_verdicts ::
  "(nat \<times> ('g \<times> bool)) list \<Rightarrow> nat \<Rightarrow> 'g ReviewIssueRecord list \<Rightarrow> 'g ReviewIssueRecord list" where
  "apply_verdicts m idx [] = []"
| "apply_verdicts m idx (issue # issues) =
     (case map_of m idx of
        Some (conf, keep) \<Rightarrow>
          if \<not> keep then apply_verdicts m (Suc idx) issues
          else issue\<lparr>confidence := conf\<rparr> # apply_verdicts m (Suc idx) issues
      | None \<Rightarrow> issue # apply_verdicts m (Suc idx) issues)"

definition verify_pass ::
  "('f, 'g) float_ops \<Rightarrow> (ustr \<Rightarrow> 'f json option) \<Rightarrow> chat \<Rightarrow> bool \<Rightarrow> ustr
    \<Rightarrow> 'g ReviewIssueRecord list \<Rightarrow> 'g ReviewIssueRecord list" where
  "verify_pass F parse_json chat self_check_enabled diff issues =
     (if \<not> self_check_enabled \<or> issues = [] then issues
      else case chat VERIFY_SYSTEM_PROMPT (build_verify_user_prompt diff issues) of
          Inl _ \<Rightarrow> issues
        | Inr response \<Rightarrow>
            (case parse_verify_response F parse_json response of
               None \<Rightarrow> issues
             | Some m \<Rightarrow>
                 if m = [] then issues
                 else let out = apply_verdicts m 0 issues in if out = [] then issues else out))"

section \<open>The applicability judge\<close>

record 'f ContextSourceItemRecord =
  source_type :: ustr
  source_id :: ustr
  relative_path :: "ustr option"
  start_line :: "int option"
  end_line :: "int option"
  item_title :: "ustr option"
  item_content :: ustr
  item_score :: 'f

record 'g JudgeVerdict =
  applies :: bool
  relevance :: 'g

definition candidate_title :: "'f ContextSourceItemRecord \<Rightarrow> ustr" where
  "candidate_title item = (case item_title item of
     Some t \<Rightarrow> if trim t \<noteq> [] then trim t else source_id item | None \<Rightarrow> source_id item)"

definition judge_prompt_rule :: "nat \<times> 'f ContextSourceItemRecord \<Rightarrow> ustr" where
  "judge_prompt_rule = (\<lambda>(i, item).
     lit ''- id: '' @ show_nat i @ [newline] @ lit ''  title: '' @ candidate_title item @ [newline]
     @ lit ''  rule: '' @ take 600 (trim (item_content item)) @ [newline])"

definition build_judge_user_prompt :: "ustr \<Rightarrow> 'f ContextSourceItemRecord list \<Rightarrow> ustr" where
  "build_judge_user_prompt diff rules =
     diff_block diff @ [newline] @ lit ''## Candidate rules'' @ [newline]
     @ concat (map judge_prompt_rule (zip [0..<length rules] rules))"

fun as_bool :: "'f json \<Rightarrow> bool option" where
  "as_bool (JBool b) = Some b"
| "as_bool _ = None"

definition judge_entry :: "('f, 'g) float_ops \<Rightarrow> 'f json \<Rightarrow> (nat \<times> 'g JudgeVerdict) option" where
  "judge_entry F item =
     (if \<not> is_object item then None
      else map_option (\<lambda>id.
        let ap = (case Option.bind (json_get item (lit ''applies'')) as_bool of Some b \<Rightarrow> b | None \<Rightarrow> True);
            rel = (case Option.bind (json_get item (lit ''relevance'')) (as_f64 F) of
                     Some x \<Rightarrow> x | None \<Rightarrow> if ap then f64_one F else f64_zero F)
        in (id, \<lparr>applies = ap, relevance = clamp_unit F (as_f32 F rel)\<rparr>))
        (Option.bind (json_get item (lit ''id'')) as_u64))"

definition parse_judge_response ::
  "('f, 'g) float_ops \<Rightarrow> (ustr \<Rightarrow> 'f json option) \<Rightarrow> ustr \<Rightarrow> (nat \<times> 'g JudgeVerdict) list option" where
  "parse_judge_response F parse_json text =
     (if parse_array parse_json (trim text) = Some [] then Some []
      else let arr = parse_issue_array parse_json text in
        if arr = [] then None else Some (rev (List.map_filter (judge_entry F) arr)))"

definition judge_filter_rules ::
  "'r list \<Rightarrow> (nat \<times> 'g JudgeVerdict) list \<Rightarrow> 'r list" where
  "judge_filter_rules rules verdicts =
     (if rules = [] then rules
      else let kept = map snd (filter (\<lambda>(idx, _). case map_of verdicts idx of None \<Rightarrow> True | Some v \<Rightarrow> applies v)
             (zip [0..<length rules] rules))
        in if kept = [] then rules else kept)"

definition run_applicability_judge ::
  "('f, 'g) float_ops \<Rightarrow> (ustr \<Rightarrow> 'f json option) \<Rightarrow> chat \<Rightarrow> bool \<Rightarrow> ustr
    \<Rightarrow> 'f ContextSourceItemRecord list \<Rightarrow> 'f ContextSourceItemRecord list" where
  "run_applicability_judge F parse_json chat enabled diff rules =
     (if \<not> enabled \<or> length rules < 2 \<or> diff = [] then rules
      else case chat JUDGE_SYSTEM_PROMPT (build_judge_user_prompt diff rules) of
          Inl _ \<Rightarrow> rules
        | Inr response \<Rightarrow>
            (case parse_judge_response F parse_json response of
               None \<Rightarrow> rules
             | Some verdicts \<Rightarrow> if verdicts = [] then rules else judge_filter_rules rules verdicts))"

section \<open>The contract of an advisory filter\<close>

text \<open>
  \<open>run v xs\<close> narrows \<open>xs\<close> by the verdicts \<open>v\<close>: it leaves out the positions \<open>v\<close> drops, unless that
  would leave nothing. \<open>view\<close> is what a filter may not change of an element.
\<close>

locale advisory_filter =
  fixes run :: "'v \<Rightarrow> 'a list \<Rightarrow> 'a list"
    and view :: "'a \<Rightarrow> 'b"
    and dropped :: "'v \<Rightarrow> nat \<Rightarrow> bool"
  assumes run_view: "map view (run v xs) =
    (if filter (\<lambda>i. \<not> dropped v i) [0..<length xs] = [] then map view xs
     else map (\<lambda>i. view (xs ! i)) (filter (\<lambda>i. \<not> dropped v i) [0..<length xs]))"
begin

lemma run_nonempty: "run v xs = [] \<longleftrightarrow> xs = []"
  using run_view [of v xs] by (auto split: if_splits)

lemma run_subseq: "subseq (map view (run v xs)) (map view xs)"
proof -
  have "map view xs = map (\<lambda>i. view (xs ! i)) [0..<length xs]" by (simp add: map_nth flip: map_map [unfolded comp_def])
  moreover have "subseq (filter (\<lambda>i. \<not> dropped v i) [0..<length xs]) [0..<length xs]" by simp
  ultimately show ?thesis unfolding run_view by (auto intro: subseq_map)
qed

lemma run_keeps: "i < length xs \<Longrightarrow> \<not> dropped v i \<Longrightarrow> view (xs ! i) \<in> view ` set (run v xs)"
proof -
  assume i: "i < length xs" "\<not> dropped v i"
  then have "view (xs ! i) \<in> set (map view (run v xs))" unfolding run_view by (auto simp: filter_empty_conv)
  then show ?thesis by simp
qed

end

subsection \<open>Verification as an advisory filter\<close>

definition narrow_issues ::
  "(nat \<times> ('g \<times> bool)) list \<Rightarrow> 'g ReviewIssueRecord list \<Rightarrow> 'g ReviewIssueRecord list" where
  "narrow_issues m issues = (let out = apply_verdicts m 0 issues in if out = [] then issues else out)"

definition drops_issue :: "(nat \<times> ('g \<times> bool)) list \<Rightarrow> nat \<Rightarrow> bool" where
  "drops_issue m i \<longleftrightarrow> (case map_of m i of Some (_, keep) \<Rightarrow> \<not> keep | None \<Rightarrow> False)"

lemma apply_verdicts_view:
  "map (\<lambda>i. i\<lparr>confidence := c\<rparr>) (apply_verdicts m k issues)
     = map (\<lambda>i. (issues ! i)\<lparr>confidence := c\<rparr>) (filter (\<lambda>i. \<not> drops_issue m (k + i)) [0..<length issues])"
proof (induction issues arbitrary: k)
  case (Cons x xs)
  have "[0..<length (x # xs)] = 0 # map Suc [0..<length xs]" by (simp add: upt_conv_Cons map_Suc_upt del: upt_Suc)
  then show ?case
    using Cons [of "Suc k"] by (auto simp: drops_issue_def filter_map comp_def split: option.split)
qed simp

interpretation verifier: advisory_filter narrow_issues "\<lambda>i. i\<lparr>confidence := c\<rparr>" drops_issue for c :: 'g
proof unfold_locales
  fix m and xs :: "'g ReviewIssueRecord list"
  show "map (\<lambda>i. i\<lparr>confidence := c\<rparr>) (narrow_issues m xs) =
      (if filter (\<lambda>i. \<not> drops_issue m i) [0..<length xs] = [] then map (\<lambda>i. i\<lparr>confidence := c\<rparr>) xs
       else map (\<lambda>i. (xs ! i)\<lparr>confidence := c\<rparr>) (filter (\<lambda>i. \<not> drops_issue m i) [0..<length xs]))"
  proof (cases "apply_verdicts m 0 xs = []")
    case True
    with apply_verdicts_view [of c m 0 xs] show ?thesis by (simp add: narrow_issues_def)
  next
    case False
    then have "filter (\<lambda>i. \<not> drops_issue m i) [0..<length xs] \<noteq> []"
      using apply_verdicts_view [of c m 0 xs] by auto
    with False apply_verdicts_view [of c m 0 xs] show ?thesis by (simp add: narrow_issues_def)
  qed
qed

lemma verify_pass_cases:
  "verify_pass F parse_json chat en diff issues = issues
   \<or> (\<exists>response m. chat VERIFY_SYSTEM_PROMPT (build_verify_user_prompt diff issues) = Inr response
        \<and> parse_verify_response F parse_json response = Some m
        \<and> verify_pass F parse_json chat en diff issues = narrow_issues m issues)"
  by (auto simp: verify_pass_def narrow_issues_def Let_def split: sum.split option.split)

subsection \<open>The judge as an advisory filter\<close>

definition drops_rule :: "(nat \<times> 'g JudgeVerdict) list \<Rightarrow> nat \<Rightarrow> bool" where
  "drops_rule m i \<longleftrightarrow> (case map_of m i of Some v \<Rightarrow> \<not> applies v | None \<Rightarrow> False)"

lemma zip_upt_filter:
  "map snd (filter (\<lambda>(i, _). P i) (zip [0..<length xs] xs)) = map ((!) xs) (filter P [0..<length xs])"
proof -
  have "zip [0..<length xs] xs = map (\<lambda>i. (i, xs ! i)) [0..<length xs]" by (rule nth_equalityI) auto
  then show ?thesis by (simp add: filter_map comp_def)
qed

interpretation judge: advisory_filter "\<lambda>m xs. judge_filter_rules xs m" "\<lambda>x. x" drops_rule
proof unfold_locales
  fix m :: "(nat \<times> 'g JudgeVerdict) list" and xs :: "'r list"
  have "(\<lambda>(idx, _). case map_of m idx of None \<Rightarrow> True | Some v \<Rightarrow> applies v) = (\<lambda>(idx, _ :: 'r). \<not> drops_rule m idx)"
    by (auto simp: fun_eq_iff drops_rule_def split: option.split)
  then show "map (\<lambda>x. x) (judge_filter_rules xs m) =
      (if filter (\<lambda>i. \<not> drops_rule m i) [0..<length xs] = [] then map (\<lambda>x. x) xs
       else map (\<lambda>i. xs ! i) (filter (\<lambda>i. \<not> drops_rule m i) [0..<length xs]))"
    using zip_upt_filter [of "\<lambda>i. \<not> drops_rule m i" xs] by (auto simp: judge_filter_rules_def Let_def)
qed

lemma run_applicability_judge_cases:
  "run_applicability_judge F parse_json chat en diff rules = rules
   \<or> (\<exists>response m. chat JUDGE_SYSTEM_PROMPT (build_judge_user_prompt diff rules) = Inr response
        \<and> parse_judge_response F parse_json response = Some m
        \<and> run_applicability_judge F parse_json chat en diff rules = judge_filter_rules rules m)"
  by (auto simp: run_applicability_judge_def split: sum.split option.split)

section \<open>Properties\<close>

text \<open>
  C14. The self-check degrades gracefully. Whatever the model answers, or fails to answer, a review that
  found issues still reports some; the result is a subsequence of the issues with at most their
  confidence changed; an issue is missing only if the answer parsed and said to drop it; and with
  the check switched off, an error, or an answer that does not parse, nothing changes at all.
\<close>

theorem verify_pass_degrades_gracefully:
  "(verify_pass F parse_json chat en diff issues = [] \<longleftrightarrow> issues = [])
   \<and> subseq (map (\<lambda>i. i\<lparr>confidence := c\<rparr>) (verify_pass F parse_json chat en diff issues))
        (map (\<lambda>i. i\<lparr>confidence := c\<rparr>) issues)
   \<and> (k < length issues \<and> (issues ! k)\<lparr>confidence := c\<rparr>
          \<notin> (\<lambda>i. i\<lparr>confidence := c\<rparr>) ` set (verify_pass F parse_json chat en diff issues)
        \<longrightarrow> (\<exists>response m conf. chat VERIFY_SYSTEM_PROMPT (build_verify_user_prompt diff issues) = Inr response
             \<and> parse_verify_response F parse_json response = Some m \<and> map_of m k = Some (conf, False)))
   \<and> (\<not> en \<or> (\<forall>response. chat VERIFY_SYSTEM_PROMPT (build_verify_user_prompt diff issues) = Inr response
          \<longrightarrow> parse_verify_response F parse_json response = None)
        \<longrightarrow> verify_pass F parse_json chat en diff issues = issues)"
proof (intro conjI)
  show "(verify_pass F parse_json chat en diff issues = []) = (issues = [])"
    using verify_pass_cases [of F parse_json chat en diff issues] verifier.run_nonempty by metis
  show "subseq (map (\<lambda>i. i\<lparr>confidence := c\<rparr>) (verify_pass F parse_json chat en diff issues))
      (map (\<lambda>i. i\<lparr>confidence := c\<rparr>) issues)"
    using verify_pass_cases [of F parse_json chat en diff issues] verifier.run_subseq [of c] by auto
  show "k < length issues \<and> (issues ! k)\<lparr>confidence := c\<rparr>
      \<notin> (\<lambda>i. i\<lparr>confidence := c\<rparr>) ` set (verify_pass F parse_json chat en diff issues)
    \<longrightarrow> (\<exists>response m conf. chat VERIFY_SYSTEM_PROMPT (build_verify_user_prompt diff issues) = Inr response
         \<and> parse_verify_response F parse_json response = Some m \<and> map_of m k = Some (conf, False))"
  proof (intro impI, elim conjE)
    assume k: "k < length issues" and gone: "(issues ! k)\<lparr>confidence := c\<rparr>
      \<notin> (\<lambda>i. i\<lparr>confidence := c\<rparr>) ` set (verify_pass F parse_json chat en diff issues)"
    have "verify_pass F parse_json chat en diff issues \<noteq> issues" using k gone by auto
    then obtain response m where m: "chat VERIFY_SYSTEM_PROMPT (build_verify_user_prompt diff issues) = Inr response"
      "parse_verify_response F parse_json response = Some m"
      "verify_pass F parse_json chat en diff issues = narrow_issues m issues"
      using verify_pass_cases [of F parse_json chat en diff issues] by blast
    have "drops_issue m k" using verifier.run_keeps [OF k, of m c] gone m(3) by auto
    then have "\<exists>conf. map_of m k = Some (conf, False)" by (auto simp: drops_issue_def split: option.splits)
    with m show "\<exists>response m conf. chat VERIFY_SYSTEM_PROMPT (build_verify_user_prompt diff issues) = Inr response
      \<and> parse_verify_response F parse_json response = Some m \<and> map_of m k = Some (conf, False)" by blast
  qed
  show "\<not> en \<or> (\<forall>response. chat VERIFY_SYSTEM_PROMPT (build_verify_user_prompt diff issues) = Inr response
      \<longrightarrow> parse_verify_response F parse_json response = None)
    \<longrightarrow> verify_pass F parse_json chat en diff issues = issues"
    using verify_pass_cases [of F parse_json chat en diff issues] by (auto simp: verify_pass_def)
qed

text \<open>
  The applicability judge only ever narrows the pool of rules: the result is a subsequence of the
  pool, is empty only if the pool was, and lacks a rule only if the judge's answer parsed and said
  that this rule does not apply.
\<close>

theorem judge_only_narrows:
  "(run_applicability_judge F parse_json chat en diff rules = [] \<longleftrightarrow> rules = [])
   \<and> subseq (run_applicability_judge F parse_json chat en diff rules) rules
   \<and> (k < length rules \<and> rules ! k \<notin> set (run_applicability_judge F parse_json chat en diff rules)
        \<longrightarrow> (\<exists>response m v. chat JUDGE_SYSTEM_PROMPT (build_judge_user_prompt diff rules) = Inr response
             \<and> parse_judge_response F parse_json response = Some m \<and> map_of m k = Some v \<and> \<not> applies v))"
proof (cases "run_applicability_judge F parse_json chat en diff rules = rules")
  case False
  then obtain response m where m: "chat JUDGE_SYSTEM_PROMPT (build_judge_user_prompt diff rules) = Inr response"
    "parse_judge_response F parse_json response = Some m"
    "run_applicability_judge F parse_json chat en diff rules = judge_filter_rules rules m"
    using run_applicability_judge_cases [of F parse_json chat en diff rules] by blast
  have "drops_rule m k" if "k < length rules" "rules ! k \<notin> set (judge_filter_rules rules m)"
    using judge.run_keeps [OF that(1), of m] that(2) by auto
  then have "\<exists>v. map_of m k = Some v \<and> \<not> applies v"
    if "k < length rules" "rules ! k \<notin> set (judge_filter_rules rules m)"
    using that by (auto simp: drops_rule_def split: option.splits)
  moreover have "subseq (judge_filter_rules rules m) rules" using judge.run_subseq [of rules m] by simp
  ultimately show ?thesis using m judge.run_nonempty [of rules m] by simp
qed auto

definition demo_floats :: "(unit, unit) float_ops" where
  "demo_floats = \<lparr>f64_of_u64 = (\<lambda>_. ()), f64_of_i64 = (\<lambda>_. ()), f64_one = (), f64_zero = (),
     as_f32 = (\<lambda>_. ()), clamp_unit = (\<lambda>_. ()), f32_one = ()\<rparr>"

definition demo_issue :: "ustr \<Rightarrow> unit ReviewIssueRecord" where
  "demo_issue msg = issue_of_object demo_floats (JObject [(lit ''message'', JString msg)])"

text \<open>An answer that drops the first element, in the words of both calls.\<close>

definition drop_first :: "ustr \<Rightarrow> unit json option" where
  "drop_first t = Some (JArray [JObject [(lit ''id'', JPosInt 0), (lit ''verdict'', JString (lit ''drop'')),
     (lit ''applies'', JBool False)]])"

theorem verify_pass_degrades_gracefully_witness:
  "\<exists>conf. map_of (the (parse_verify_response demo_floats drop_first (lit ''answer''))) 0 = Some (conf, False)"
proof -
  let ?issues = "[demo_issue (lit ''a''), demo_issue (lit ''b'')]" and ?chat = "\<lambda>_ _. Inr (lit ''answer'')"
  have m: "parse_verify_response demo_floats drop_first (lit ''answer'') = Some [(0, ((), False))]" by code_simp
  have out: "verify_pass demo_floats drop_first ?chat True (lit ''diff'') ?issues = [demo_issue (lit ''b'')]"
    unfolding verify_pass_def by (simp add: m)
  have "demo_issue (lit ''a'')\<lparr>confidence := ()\<rparr> \<noteq> demo_issue (lit ''b'')\<lparr>confidence := ()\<rparr>" by code_simp
  then show ?thesis
    using verify_pass_degrades_gracefully
      [of demo_floats drop_first ?chat True "lit ''diff''" ?issues "()" 0] unfolding out by auto
qed

definition demo_rule :: "ustr \<Rightarrow> unit ContextSourceItemRecord" where
  "demo_rule n = \<lparr>source_type = lit ''rule'', source_id = n, relative_path = None, start_line = None,
     end_line = None, item_title = None, item_content = n, item_score = ()\<rparr>"

theorem judge_only_narrows_witness:
  "\<exists>v. map_of (the (parse_judge_response demo_floats drop_first (lit ''answer''))) 0 = Some v \<and> \<not> applies v"
proof -
  let ?rules = "[demo_rule (lit ''a''), demo_rule (lit ''b'')]" and ?chat = "\<lambda>_ _. Inr (lit ''answer'')"
  have m: "parse_judge_response demo_floats drop_first (lit ''answer'')
      = Some [(0, \<lparr>applies = False, relevance = ()\<rparr>)]" by code_simp
  have f: "judge_filter_rules ?rules [(0, \<lparr>applies = False, relevance = ()\<rparr>)] = [demo_rule (lit ''b'')]" by code_simp
  have out: "run_applicability_judge demo_floats drop_first ?chat True (lit ''diff'') ?rules = [demo_rule (lit ''b'')]"
    unfolding run_applicability_judge_def by (simp add: m f) (simp add: lit_def)
  have "demo_rule (lit ''a'') \<noteq> demo_rule (lit ''b'')" by code_simp
  then show ?thesis
    using judge_only_narrows [of demo_floats drop_first ?chat True "lit ''diff''" ?rules 0] unfolding out by auto
qed

text \<open>
  A judge that answers with an empty array inside a fence is not recognised as having answered:
  the same empty array gives an empty set of verdicts when it is the whole answer, and a structural
  failure when it is fenced.
\<close>

theorem fenced_empty_verdicts_not_recognised:
  "parse_judge_response demo_floats (\<lambda>t. if t = lit ''[]'' then Some (JArray []) else None) (lit ''[]'') = Some []
   \<and> parse_judge_response demo_floats (\<lambda>t. if t = lit ''[]'' then Some (JArray []) else None)
       (fence @ [newline] @ lit ''[]'' @ [newline] @ fence) = None"
  by code_simp

end
