(* ===== verification/Hunk_Resolver.thy ===== *)
theory Hunk_Resolver
  imports Prelude
begin

text \<open>
  \<^verbatim>\<open>crates/difflore-core/src/review_engine/pipeline/resolver.rs\<close>: snapping the line a reviewing model
  claims to the lines of the parsed diff. Line numbers are \<^verbatim>\<open>u32\<close>, kept as 32-bit words with the
  wrap-around of the release profile; the results are \<^verbatim>\<open>i32\<close>, kept as integers.
\<close>

section \<open>Data\<close>

datatype LineKind = Context | Added | Deleted

record HunkLine =
  kind :: LineKind
  content :: ustr

record DiffHunk =
  old_start :: "32 word"
  new_start :: "32 word"
  hunk_lines :: "HunkLine list"

record IndexedLine =
  line_num :: "32 word"
  il_content :: ustr

record ResolveTarget =
  snippet :: "ustr option"
  claimed_line :: "int option"

section \<open>Parsing\<close>

definition parse_hunk_header :: "ustr \<Rightarrow> DiffHunk option" where
  "parse_hunk_header header =
     Option.bind (strip_prefix header (lit ''@@'')) (\<lambda>inner.
     Option.bind (str_find inner (lit ''@@'')) (\<lambda>end_pos.
       (case split_whitespace (trim (take end_pos inner)) of
          old0 # new0 # _ \<Rightarrow>
            Option.bind (strip_prefix old0 (lit ''-'')) (\<lambda>old.
            Option.bind (strip_prefix new0 (lit ''+'')) (\<lambda>new.
            Option.bind (parse_u32 (hd (split_on (\<lambda>c. c = 44) old))) (\<lambda>os.
            Option.bind (parse_u32 (hd (split_on (\<lambda>c. c = 44) new))) (\<lambda>ns.
              Some \<lparr>old_start = os, new_start = ns, hunk_lines = []\<rparr>))))
        | _ \<Rightarrow> None)))"

definition push_line :: "LineKind \<Rightarrow> ustr \<Rightarrow> DiffHunk \<Rightarrow> DiffHunk" where
  "push_line k c h = h\<lparr>hunk_lines := hunk_lines h @ [\<lparr>kind = k, content = c\<rparr>]\<rparr>"

text \<open>The state of the scan: the finished hunks and the current one.\<close>

definition scan_line :: "ustr \<Rightarrow> DiffHunk list \<times> DiffHunk option \<Rightarrow> DiffHunk list \<times> DiffHunk option" where
  "scan_line raw st = (case st of (hunks, current) \<Rightarrow>
     let l = strip_cr raw in
     if starts_with l (lit ''@@'') then
       (case current of Some h \<Rightarrow> hunks @ [h] | None \<Rightarrow> hunks, parse_hunk_header l)
     else case current of
         None \<Rightarrow> (hunks, None)
       | Some h \<Rightarrow>
           (hunks, Some (case l of
              [] \<Rightarrow> push_line Context [] h
            | c # rest \<Rightarrow>
                if c = 92 then h
                else if c = 43 then push_line Added rest h
                else if c = 45 then push_line Deleted rest h
                else if c = 32 then push_line Context rest h
                else h)))"

definition parse_hunks :: "ustr \<Rightarrow> DiffHunk list" where
  "parse_hunks diff_section =
     (let (hunks, current) = fold scan_line (lines diff_section) ([], None) in
      case current of Some h \<Rightarrow> hunks @ [h] | None \<Rightarrow> hunks)"

section \<open>Matching\<close>

definition normalize_line :: "ustr \<Rightarrow> ustr" where
  "normalize_line s =
     (let t = trim s;
          u = (case strip_prefix t (lit ''+'') of Some r \<Rightarrow> r
                | None \<Rightarrow> (case strip_prefix t (lit ''-'') of Some r \<Rightarrow> r | None \<Rightarrow> t))
      in trim u)"

definition split_and_normalize :: "ustr \<Rightarrow> ustr list" where
  "split_and_normalize code = filter (\<lambda>s. s \<noteq> []) (map normalize_line (lines code))"

definition to_i32 :: "32 word \<Rightarrow> int" where
  "to_i32 n = (if uint n \<le> 2147483647 then uint n else 2147483647)"

definition abs_diff :: "32 word \<Rightarrow> 32 word \<Rightarrow> 32 word" where
  "abs_diff a b = (if a < b then b - a else a - b)"

fun side_lines :: "bool \<Rightarrow> HunkLine list \<Rightarrow> 32 word \<Rightarrow> 32 word \<Rightarrow> IndexedLine list" where
  "side_lines new_side [] old_line new_line = []"
| "side_lines new_side (l # ls) old_line new_line =
     (case kind l of
        Context \<Rightarrow> \<lparr>line_num = (if new_side then new_line else old_line), il_content = normalize_line (content l)\<rparr>
          # side_lines new_side ls (old_line + 1) (new_line + 1)
      | Added \<Rightarrow> (if new_side then [\<lparr>line_num = new_line, il_content = normalize_line (content l)\<rparr>] else [])
          @ side_lines new_side ls old_line (new_line + 1)
      | Deleted \<Rightarrow> (if \<not> new_side then [\<lparr>line_num = old_line, il_content = normalize_line (content l)\<rparr>] else [])
          @ side_lines new_side ls (old_line + 1) new_line)"

definition extract_side_lines :: "DiffHunk \<Rightarrow> bool \<Rightarrow> IndexedLine list" where
  "extract_side_lines h new_side = side_lines new_side (hunk_lines h) (old_start h) (new_start h)"

text \<open>\<^verbatim>\<open>best.map_or(cand, ..)\<close>: the candidate whose start is nearer, the earlier one on a tie.\<close>

definition nearer :: "32 word \<Rightarrow> 32 word \<times> 32 word \<Rightarrow> (32 word \<times> 32 word) option \<Rightarrow> 32 word \<times> 32 word" where
  "nearer claimed cand best = (case best of None \<Rightarrow> cand
     | Some prev \<Rightarrow> if abs_diff (fst cand) claimed < abs_diff (fst prev) claimed then cand else prev)"

definition matches_at :: "IndexedLine list \<Rightarrow> ustr list \<Rightarrow> nat \<Rightarrow> bool" where
  "matches_at side targets i \<longleftrightarrow> list_all (\<lambda>(s, t). il_content s = t) (zip (drop i side) targets)"

fun match_loop ::
  "IndexedLine list \<Rightarrow> ustr list \<Rightarrow> 32 word option \<Rightarrow> nat list \<Rightarrow> (32 word \<times> 32 word) option
    \<Rightarrow> (32 word \<times> 32 word) option" where
  "match_loop side targets prefer_near [] best = best"
| "match_loop side targets prefer_near (i # is) best =
     (if matches_at side targets i then
        let cand = (line_num (side ! i), line_num (side ! (i + length targets - 1))) in
        (case prefer_near of
           None \<Rightarrow> Some cand
         | Some claimed \<Rightarrow> match_loop side targets prefer_near is (Some (nearer claimed cand best)))
      else match_loop side targets prefer_near is best)"

definition match_consecutive ::
  "IndexedLine list \<Rightarrow> ustr list \<Rightarrow> 32 word option \<Rightarrow> (32 word \<times> 32 word) option" where
  "match_consecutive side targets prefer_near =
     (if targets = [] \<or> length side < length targets then None
      else match_loop side targets prefer_near [0..<Suc (length side - length targets)] None)"

section \<open>Resolution\<close>

fun search_side ::
  "bool \<Rightarrow> ustr list \<Rightarrow> 32 word option \<Rightarrow> DiffHunk list \<Rightarrow> (32 word \<times> 32 word) option
    \<Rightarrow> (32 word \<times> 32 word) option" where
  "search_side new_side targets prefer [] best = best"
| "search_side new_side targets prefer (h # hs) best =
     (case match_consecutive (extract_side_lines h new_side) targets prefer of
        None \<Rightarrow> search_side new_side targets prefer hs best
      | Some cand \<Rightarrow>
          (case prefer of
             None \<Rightarrow> Some cand
           | Some claimed \<Rightarrow> search_side new_side targets prefer hs (Some (nearer claimed cand best))))"

definition snap_hunk :: "32 word \<Rightarrow> DiffHunk \<Rightarrow> (32 word \<times> 32 word) option \<Rightarrow> (32 word \<times> 32 word) option" where
  "snap_hunk claimed h best =
     (let side = extract_side_lines h True in
      if side = [] then best
      else let lo = line_num (hd side); hi = line_num (last side) in
        if claimed + 2 < lo \<or> claimed > hi + 2 then best
        else fold (\<lambda>l best. let dist = abs_diff (line_num l) claimed in
            if (case best of None \<Rightarrow> True | Some (bd, _) \<Rightarrow> dist < bd) then Some (dist, line_num l) else best)
          side best)"

definition snap_claimed_line :: "int \<Rightarrow> DiffHunk list \<Rightarrow> int option" where
  "snap_claimed_line claimed hunks =
     (if claimed < 0 then None
      else map_option (\<lambda>(_, l). to_i32 l) (fold (snap_hunk (word_of_int claimed)) hunks None))"

definition positive_claim :: "ResolveTarget \<Rightarrow> int option" where
  "positive_claim t = (case claimed_line t of Some n \<Rightarrow> if n > 0 then Some n else None | None \<Rightarrow> None)"

definition resolve_by_snippet :: "ResolveTarget \<Rightarrow> DiffHunk list \<Rightarrow> (int \<times> int) option" where
  "resolve_by_snippet t hunks =
     (case snippet t of
        None \<Rightarrow> None
      | Some s \<Rightarrow>
          (let targets = split_and_normalize s; prefer = map_option word_of_int (positive_claim t) in
           if targets = [] then None
           else case search_side True targets prefer hunks None of
               Some (a, b) \<Rightarrow> Some (to_i32 a, to_i32 b)
             | None \<Rightarrow> map_option (\<lambda>(a, b). (to_i32 a, to_i32 b)) (search_side False targets prefer hunks None)))"

definition resolve_issue_lines :: "ResolveTarget \<Rightarrow> DiffHunk list \<Rightarrow> (int \<times> int) option" where
  "resolve_issue_lines t hunks =
     (if hunks = [] then None
      else case resolve_by_snippet t hunks of
          Some r \<Rightarrow> Some r
        | None \<Rightarrow>
            (case positive_claim t of
               None \<Rightarrow> None
             | Some claimed \<Rightarrow> map_option (\<lambda>l. (l, l)) (snap_claimed_line claimed hunks)))"

section \<open>Choosing among candidates\<close>

text \<open>
  Both loops choose a candidate the same way: without a claim the first one, with a claim the
  nearest one.
\<close>

fun pick ::
  "32 word option \<Rightarrow> (32 word \<times> 32 word) list \<Rightarrow> (32 word \<times> 32 word) option \<Rightarrow> (32 word \<times> 32 word) option" where
  "pick prefer [] best = best"
| "pick prefer (c # cs) best =
     (case prefer of None \<Rightarrow> Some c | Some claimed \<Rightarrow> pick prefer cs (Some (nearer claimed c best)))"

lemma pick_None_iff: "pick prefer cs best = None \<longleftrightarrow> cs = [] \<and> best = None"
proof (induction cs arbitrary: best)
  case (Cons c cs)
  then show ?case by (cases "prefer") (simp_all del: not_None_eq)
qed simp

lemma nearer_cases: "nearer claimed c best = c \<or> best = Some (nearer claimed c best)"
  by (auto simp: nearer_def split: option.split)

lemma pick_mem: "pick prefer cs best = Some r \<Longrightarrow> r \<in> set cs \<or> best = Some r"
  using nearer_cases by (induction cs arbitrary: best) (fastforce split: option.splits)+

lemma nearer_le:
  "abs_diff (fst (nearer claimed c best)) claimed \<le> abs_diff (fst c) claimed"
  "best = Some x \<Longrightarrow> abs_diff (fst (nearer claimed c best)) claimed \<le> abs_diff (fst x) claimed"
  by (auto simp: nearer_def split: option.split)

lemma pick_nearest:
  assumes "pick (Some claimed) cs best = Some r" "x \<in> set cs \<or> best = Some x"
  shows "abs_diff (fst r) claimed \<le> abs_diff (fst x) claimed"
  using assms
proof (induction cs arbitrary: best x)
  case (Cons c cs)
  let ?b = "nearer claimed c best"
  have step: "abs_diff (fst r) claimed \<le> abs_diff (fst y) claimed" if "y \<in> set cs \<or> Some ?b = Some y" for y
    using Cons.IH [of "Some ?b" y] Cons.prems(1) that by simp
  show ?case
    using Cons.prems(2) step [of x] step [of ?b] nearer_le(1) [of claimed c best] nearer_le(2) [of best x claimed c] by (auto intro: order_trans)
qed auto

section \<open>Occurrences\<close>

text \<open>\<open>occurs_at\<close>: the lines of the snippet stand at position \<open>i\<close> of one side of a hunk.\<close>

definition occurs_at :: "IndexedLine list \<Rightarrow> ustr list \<Rightarrow> nat \<Rightarrow> bool" where
  "occurs_at side targets i \<longleftrightarrow> i + length targets \<le> length side
     \<and> map il_content (take (length targets) (drop i side)) = targets"

definition run_at :: "IndexedLine list \<Rightarrow> nat \<Rightarrow> nat \<Rightarrow> 32 word \<times> 32 word" where
  "run_at side n i = (line_num (side ! i), line_num (side ! (i + n - 1)))"

definition occurrence :: "bool \<Rightarrow> ustr list \<Rightarrow> DiffHunk list \<Rightarrow> 32 word \<times> 32 word \<Rightarrow> bool" where
  "occurrence new_side targets hunks x \<longleftrightarrow> (\<exists>h \<in> set hunks. \<exists>i.
     occurs_at (extract_side_lines h new_side) targets i
     \<and> x = run_at (extract_side_lines h new_side) (length targets) i)"

lemma list_all_zip_iff:
  "length xs \<le> length ys \<Longrightarrow> list_all (\<lambda>(s, t). f s = t) (zip ys xs) \<longleftrightarrow> map f (take (length xs) ys) = xs"
  by (induction xs ys rule: list_induct2') auto

lemma matches_at_iff:
  "i + length targets \<le> length side \<Longrightarrow> matches_at side targets i \<longleftrightarrow> occurs_at side targets i"
  using list_all_zip_iff [of targets "drop i side" il_content] by (simp add: matches_at_def occurs_at_def)

lemma match_loop_pick:
  "match_loop side targets prefer is best
     = pick prefer (map (run_at side (length targets)) (filter (matches_at side targets) is)) best"
  by (induction "is" arbitrary: best) (auto simp: run_at_def split: option.split)

lemma match_consecutive_pick:
  assumes "targets \<noteq> []"
  shows "match_consecutive side targets prefer
    = pick prefer (map (run_at side (length targets)) (filter (occurs_at side targets) [0..<length side])) None"
proof (cases "length side < length targets")
  case True
  then have "\<not> occurs_at side targets i" for i by (auto simp: occurs_at_def)
  with True show ?thesis by (simp add: match_consecutive_def)
next
  case False
  have "filter (matches_at side targets) [0..<Suc (length side - length targets)]
      = filter (occurs_at side targets) [0..<Suc (length side - length targets)]"
    by (rule filter_cong) (use False in \<open>auto simp: matches_at_iff\<close>)
  also have "\<dots> = filter (occurs_at side targets) [0..<length side]"
  proof -
    have "[0..<length side] = [0..<Suc (length side - length targets)] @ [Suc (length side - length targets)..<length side]"
    proof -
      have "length side = Suc (length side - length targets) + (length targets - 1)"
        using False assms by (cases targets) auto
      then show ?thesis using upt_add_eq_append [of 0 "Suc (length side - length targets)"] by (metis zero_le)
    qed
    moreover have "filter (occurs_at side targets) [Suc (length side - length targets)..<length side] = []"
      by (auto simp: filter_empty_conv occurs_at_def)
    ultimately show ?thesis by (metis append_Nil2 filter_append)
  qed
  finally show ?thesis using False assms by (simp add: match_consecutive_def match_loop_pick)
qed

lemma occurs_at_bound: "targets \<noteq> [] \<Longrightarrow> occurs_at side targets i \<Longrightarrow> i < length side"
  by (cases targets) (auto simp: occurs_at_def)

text \<open>The numbers on one side of a hunk are consecutive.\<close>

lemma side_lines_num:
  "i < length (side_lines new_side ls o1 n1) \<Longrightarrow>
     line_num (side_lines new_side ls o1 n1 ! i) = (if new_side then n1 else o1) + of_nat i"
proof (induction ls arbitrary: o1 n1 i)
  case (Cons l ls)
  then show ?case by (cases i) (auto split: LineKind.splits simp: nth_Cons')
qed simp

lemma occurrence_length:
  assumes "occurrence new_side targets hunks (a, b)" "targets \<noteq> []"
  shows "b = a + of_nat (length targets - 1)"
proof -
  from assms(1) obtain h i where h: "occurs_at (extract_side_lines h new_side) targets i"
    "a = line_num (extract_side_lines h new_side ! i)"
    "b = line_num (extract_side_lines h new_side ! (i + length targets - 1))"
    by (auto simp: occurrence_def run_at_def)
  then have "i + length targets \<le> length (extract_side_lines h new_side)" by (simp add: occurs_at_def)
  with h assms(2) side_lines_num [of i new_side "hunk_lines h" "old_start h" "new_start h"]
    side_lines_num [of "i + length targets - 1" new_side "hunk_lines h" "old_start h" "new_start h"]
  show ?thesis by (cases targets) (auto simp: extract_side_lines_def)
qed

text \<open>The candidates a search over all hunks chooses from are exactly the occurrences.\<close>

definition hunk_matches :: "bool \<Rightarrow> ustr list \<Rightarrow> 32 word option \<Rightarrow> DiffHunk list \<Rightarrow> (32 word \<times> 32 word) list" where
  "hunk_matches new_side targets prefer hunks
     = List.map_filter (\<lambda>h. match_consecutive (extract_side_lines h new_side) targets prefer) hunks"

lemma search_side_pick:
  "search_side new_side targets prefer hunks best = pick prefer (hunk_matches new_side targets prefer hunks) best"
  by (induction hunks arbitrary: best) (auto simp: hunk_matches_def List.map_filter_simps split: option.split)

lemma match_consecutive_sound:
  assumes "match_consecutive side targets prefer = Some r" "targets \<noteq> []"
  shows "\<exists>i. occurs_at side targets i \<and> r = run_at side (length targets) i"
  using assms pick_mem by (fastforce simp: match_consecutive_pick)

lemma match_consecutive_complete:
  assumes "occurs_at side targets i" "targets \<noteq> []"
  shows "\<exists>r. match_consecutive side targets prefer = Some r
    \<and> (\<forall>c. prefer = Some c \<longrightarrow> abs_diff (fst r) c \<le> abs_diff (fst (run_at side (length targets) i)) c)"
proof -
  let ?cands = "map (run_at side (length targets)) (filter (occurs_at side targets) [0..<length side])"
  have mem: "run_at side (length targets) i \<in> set ?cands"
    using assms occurs_at_bound [OF assms(2,1)] by auto
  then have "pick prefer ?cands None \<noteq> None" unfolding pick_None_iff by fastforce
  then obtain r where r: "pick prefer ?cands None = Some r" by blast
  with mem pick_nearest show ?thesis by (metis assms(2) match_consecutive_pick)
qed

lemma hunk_matches_sound:
  "x \<in> set (hunk_matches new_side targets prefer hunks) \<Longrightarrow> targets \<noteq> [] \<Longrightarrow> occurrence new_side targets hunks x"
proof -
  assume x: "x \<in> set (hunk_matches new_side targets prefer hunks)" and t: "targets \<noteq> []"
  then obtain h where "h \<in> set hunks" "match_consecutive (extract_side_lines h new_side) targets prefer = Some x"
    by (auto simp: hunk_matches_def List.map_filter_def)
  with match_consecutive_sound [OF _ t] show ?thesis unfolding occurrence_def by blast
qed

lemma search_side_sound:
  "search_side new_side targets prefer hunks None = Some x \<Longrightarrow> targets \<noteq> [] \<Longrightarrow> occurrence new_side targets hunks x"
  unfolding search_side_pick by (auto dest!: pick_mem intro: hunk_matches_sound)

lemma search_side_complete:
  assumes "occurrence new_side targets hunks x" "targets \<noteq> []"
  shows "\<exists>r. search_side new_side targets prefer hunks None = Some r
    \<and> (\<forall>c. prefer = Some c \<longrightarrow> abs_diff (fst r) c \<le> abs_diff (fst x) c)"
proof -
  from assms(1) obtain h i where h: "h \<in> set hunks" "occurs_at (extract_side_lines h new_side) targets i"
    "x = run_at (extract_side_lines h new_side) (length targets) i" by (auto simp: occurrence_def)
  from match_consecutive_complete [OF h(2) assms(2), of "prefer"] obtain m
    where m: "match_consecutive (extract_side_lines h new_side) targets prefer = Some m"
      "\<And>c. prefer = Some c \<Longrightarrow> abs_diff (fst m) c \<le> abs_diff (fst x) c" using h(3) by blast
  have mem: "m \<in> set (hunk_matches new_side targets prefer hunks)"
    using h(1) m(1) by (force simp: hunk_matches_def List.map_filter_def)
  then have "search_side new_side targets prefer hunks None \<noteq> None"
    unfolding search_side_pick pick_None_iff by fastforce
  then obtain r where r: "search_side new_side targets prefer hunks None = Some r" by blast
  have "abs_diff (fst r) c \<le> abs_diff (fst m) c" if "prefer = Some c" for c
    using pick_nearest [of c _ None r m] r mem that unfolding search_side_pick by blast
  with r m(2) show ?thesis by (meson order_trans)
qed

lemma resolve_by_snippet_sound:
  assumes "resolve_by_snippet t hunks = Some r"
  shows "\<exists>s new_side a b. snippet t = Some s \<and> occurrence new_side (split_and_normalize s) hunks (a, b)
    \<and> r = (to_i32 a, to_i32 b)"
proof -
  let ?p = "map_option word_of_int (positive_claim t)"
  obtain s where s: "snippet t = Some s" "split_and_normalize s \<noteq> []"
    using assms by (auto simp: resolve_by_snippet_def Let_def split: option.splits if_splits)
  from assms s obtain new_side a b where "search_side new_side (split_and_normalize s) ?p hunks None = Some (a, b)"
    "r = (to_i32 a, to_i32 b)"
    by (auto simp: resolve_by_snippet_def Let_def split: option.splits)
  with search_side_sound [OF _ s(2)] s(1) show ?thesis by blast
qed

text \<open>The snap: the nearest of all new-side lines of the hunks near the claim.\<close>

definition near_lines :: "32 word \<Rightarrow> DiffHunk \<Rightarrow> 32 word list" where
  "near_lines claimed h =
     (let side = extract_side_lines h True in
      if side = [] \<or> claimed + 2 < line_num (hd side) \<or> claimed > line_num (last side) + 2 then []
      else map line_num side)"

definition snap_line :: "32 word \<Rightarrow> 32 word \<Rightarrow> (32 word \<times> 32 word) option \<Rightarrow> (32 word \<times> 32 word) option" where
  "snap_line claimed n best = (let dist = abs_diff n claimed in
     if (case best of None \<Rightarrow> True | Some (bd, _) \<Rightarrow> dist < bd) then Some (dist, n) else best)"

lemma snap_hunk_fold: "snap_hunk claimed h best = fold (snap_line claimed) (near_lines claimed h) best"
  by (simp add: snap_hunk_def near_lines_def Let_def fold_map comp_def snap_line_def [abs_def])

lemma snap_hunks_fold:
  "fold (snap_hunk claimed) hunks best = fold (snap_line claimed) (concat (map (near_lines claimed) hunks)) best"
  by (induction hunks arbitrary: best) (simp_all add: snap_hunk_fold)

lemma fold_snap_line:
  assumes "fold (snap_line claimed) ns best = r" "\<And>d n. best = Some (d, n) \<Longrightarrow> d = abs_diff n claimed"
  shows "(r = None \<longleftrightarrow> ns = [] \<and> best = None)
    \<and> (\<forall>d n. r = Some (d, n) \<longrightarrow> d = abs_diff n claimed \<and> (n \<in> set ns \<or> best = Some (d, n))
         \<and> (\<forall>m \<in> set ns. d \<le> abs_diff m claimed) \<and> (\<forall>e m. best = Some (e, m) \<longrightarrow> d \<le> e))"
  using assms
proof (induction ns arbitrary: best)
  case Nil
  then show ?case by auto
next
  case (Cons n ns)
  define b where "b = snap_line claimed n best"
  have ok: "d = abs_diff m claimed" if "b = Some (d, m)" for d m
    using that Cons.prems(2) by (auto simp: b_def snap_line_def Let_def split: if_splits)
  obtain d1 m1 where b: "b = Some (d1, m1)" "d1 \<le> abs_diff n claimed" "m1 = n \<or> best = Some (d1, m1)"
    "\<And>e m. best = Some (e, m) \<Longrightarrow> d1 \<le> e"
  proof (cases "case best of None \<Rightarrow> True | Some (bd, _) \<Rightarrow> abs_diff n claimed < bd")
    case True
    then show ?thesis using that [of "abs_diff n claimed" n]
      by (auto simp: b_def snap_line_def Let_def split: option.splits)
  next
    case False
    then obtain d m where "best = Some (d, m)" "\<not> abs_diff n claimed < d" by (auto split: option.splits)
    then show ?thesis using that [of d m] by (auto simp: b_def snap_line_def Let_def)
  qed
  have "fold (snap_line claimed) ns b = r" using Cons.prems(1) by (simp add: b_def)
  from Cons.IH [OF this ok] b ok show ?case by (fastforce intro: order_trans)
qed

section \<open>Printing and parsing hunks\<close>

text \<open>
  The hunks of a diff as git prints them. A range is a start line and, unless it is left out, a length;
  the closing \<^verbatim>\<open>@@\<close> may be followed by a heading. The body holds the marked lines, context lines that
  are empty and whose blank was stripped, and remarks such as \<^verbatim>\<open>\ No newline at end of file\<close>.
\<close>

fun marker :: "LineKind \<Rightarrow> uchar" where
  "marker Context = 32"
| "marker Added = 43"
| "marker Deleted = 45"

datatype PrintedLine = Line HunkLine | Stripped | Remark ustr

record PrintedHunk =
  old_range :: "32 word \<times> nat option"
  new_range :: "32 word \<times> nat option"
  heading :: ustr
  hunk_body :: "PrintedLine list"

fun range_text :: "32 word \<times> nat option \<Rightarrow> ustr" where
  "range_text (start, None) = show_nat (unat start)"
| "range_text (start, Some len) = show_nat (unat start) @ lit '','' @ show_nat len"

fun line_text :: "PrintedLine \<Rightarrow> ustr" where
  "line_text (Line l) = marker (kind l) # content l"
| "line_text Stripped = []"
| "line_text (Remark r) = 92 # r"

definition hunk_header_text :: "PrintedHunk \<Rightarrow> ustr" where
  "hunk_header_text h = lit ''@@'' @ (lit '' -'' @ range_text (old_range h) @ lit '' +''
     @ range_text (new_range h) @ lit '' '') @ lit ''@@'' @ heading h"

definition hunk_text :: "PrintedHunk \<Rightarrow> ustr list" where
  "hunk_text h = hunk_header_text h # map line_text (hunk_body h)"

text \<open>The hunk such a text stands for.\<close>

fun lines_meant :: "PrintedLine \<Rightarrow> HunkLine list" where
  "lines_meant (Line l) = [l]"
| "lines_meant Stripped = [\<lparr>kind = Context, content = []\<rparr>]"
| "lines_meant (Remark r) = []"

definition hunk_head :: "PrintedHunk \<Rightarrow> DiffHunk" where
  "hunk_head h = \<lparr>old_start = fst (old_range h), new_start = fst (new_range h), hunk_lines = []\<rparr>"

definition hunk_meant :: "PrintedHunk \<Rightarrow> DiffHunk" where
  "hunk_meant h = (hunk_head h)\<lparr>hunk_lines := concat (map lines_meant (hunk_body h))\<rparr>"

lemma range_text_chars: "c \<in> set (range_text r) \<Longrightarrow> is_ascii_digit c \<or> c = 44"
  using show_nat_digits by (cases r rule: range_text.cases) (auto simp: lit_def)

lemma show_nat_free: "\<not> is_ascii_digit c \<Longrightarrow> c \<notin> set (show_nat n)"
  using show_nat_digits [of n] by blast

lemma range_text_free: "\<not> is_ascii_digit c \<Longrightarrow> c \<noteq> 44 \<Longrightarrow> c \<notin> set (range_text r)"
  using range_text_chars by blast

lemma range_text_start: "hd (split_on (\<lambda>c. c = 44) (range_text r)) = show_nat (unat (fst r))"
proof (cases r rule: range_text.cases)
  case (1 start)
  have "split_on (\<lambda>c. c = 44) (show_nat (unat start)) = [show_nat (unat start)]"
    using show_nat_free [of 44] by (intro split_on_none) (auto simp: is_ascii_digit_def)
  with 1 show ?thesis by simp
next
  case (2 start len)
  have "split_on (\<lambda>c. c = 44) (show_nat (unat start) @ 44 # show_nat len)
      = show_nat (unat start) # split_on (\<lambda>c. c = 44) (show_nat len)"
    using show_nat_free [of 44] by (intro split_on_sep) (auto simp: is_ascii_digit_def)
  with 2 show ?thesis by (simp add: lit_def)
qed

lemma range_text_snoc: obtains xs d where "range_text r = xs @ [d]"
proof -
  have "range_text r \<noteq> []" by (cases r rule: range_text.cases) (simp_all add: show_nat_nonempty)
  then show ?thesis using that by (metis append_butlast_last_id)
qed

lemma parse_hunk_header_text: "parse_hunk_header (hunk_header_text h) = Some (hunk_head h)"
proof -
  let ?o = "range_text (old_range h)" and ?n = "range_text (new_range h)"
  let ?inner = "lit '' -'' @ ?o @ lit '' +'' @ ?n @ lit '' ''"
  have at: "64 \<notin> set ?inner" by (simp add: lit_def range_text_free is_ascii_digit_def)
  have find: "str_find (?inner @ lit ''@@'' @ heading h) (lit ''@@'') = Some (length ?inner)"
    using str_find_first [OF at, of "[64]" "heading h"] by (simp add: lit_def)
  have white: "\<not> is_whitespace c" if "c \<in> set (range_text r)" for c r
    using range_text_chars [OF that] digit_not_white by (auto simp: is_whitespace_def)
  have ws: "\<forall>c \<in> set (45 # ?o). \<not> is_whitespace c" "\<forall>c \<in> set (43 # ?n). \<not> is_whitespace c"
    using white by (auto simp: is_whitespace_def)
  have spaces: "is_whitespace 32" "\<not> is_whitespace 45" by (simp_all add: is_whitespace_def)
  have "trim ?inner = 45 # ?o @ 32 # 43 # ?n"
  proof -
    obtain n1 d where nd: "?n = n1 @ [d]" by (rule range_text_snoc)
    with ws have d: "\<not> is_whitespace d" by simp
    have "trim_start ?inner = ((45 # ?o @ 32 # 43 # n1) @ [d]) @ [32]"
      by (simp add: lit_def trim_start_def spaces nd)
    then have "trim ?inner = (45 # ?o @ 32 # 43 # n1) @ [d]"
      unfolding trim_def trim_end_snoc using spaces d by (simp add: trim_end_snoc del: append_assoc append_Cons)
    then show ?thesis by (simp add: nd)
  qed
  moreover have "split_whitespace (45 # ?o @ 32 # 43 # ?n) = [45 # ?o, 43 # ?n]"
    using split_on_sep [OF ws(1) spaces(1), of "43 # ?n"] split_on_none [OF ws(2)]
    by (simp add: split_whitespace_def)
  moreover have "strip_prefix (45 # ?o) (lit ''-'') = Some ?o" "strip_prefix (43 # ?n) (lit ''+'') = Some ?n"
    by (simp_all add: strip_prefix_def starts_with_def lit_def)
  ultimately show ?thesis
    unfolding parse_hunk_header_def hunk_header_text_def append_assoc [of _ "lit ''@@'' @ heading h", symmetric]
      strip_prefix_append Option.bind.bind_lunit find
    by (simp add: parse_u32_show_nat range_text_start hunk_head_def del: append_assoc)
qed

text \<open>Lines without line ends, and the hunks that can be printed.\<close>

definition one_line :: "ustr \<Rightarrow> bool" where
  "one_line l \<longleftrightarrow> newline \<notin> set l \<and> carriage_return \<notin> set l"

fun line_ok :: "PrintedLine \<Rightarrow> bool" where
  "line_ok (Line l) \<longleftrightarrow> one_line (content l)"
| "line_ok Stripped \<longleftrightarrow> True"
| "line_ok (Remark r) \<longleftrightarrow> one_line r"

definition wf_hunk :: "PrintedHunk \<Rightarrow> bool" where
  "wf_hunk h \<longleftrightarrow> one_line (heading h) \<and> (\<forall>l \<in> set (hunk_body h). line_ok l)"

lemma one_line_Nil [simp]: "one_line []"
  by (simp add: one_line_def)

lemma one_line_strip [simp]: "one_line l \<Longrightarrow> strip_cr l = l"
  by (simp add: one_line_def strip_cr_id)

lemma line_text_one_line: "line_ok l \<Longrightarrow> one_line (line_text l)"
  by (cases l rule: line_ok.cases; (cases "kind (case l of Line x \<Rightarrow> x)")?)
    (auto simp: one_line_def newline_def carriage_return_def)

lemma hunk_header_one_line:
  assumes "one_line (heading h)"
  shows "one_line (hunk_header_text h)"
  using assms by (simp add: one_line_def hunk_header_text_def lit_def carriage_return_def newline_def
      range_text_free is_ascii_digit_def)

lemma hunk_text_one_line: "wf_hunk h \<Longrightarrow> l \<in> set (hunk_text h) \<Longrightarrow> one_line l"
  by (auto simp: hunk_text_def wf_hunk_def intro: line_text_one_line hunk_header_one_line)

lemma scan_line_header:
  assumes "one_line (heading h)"
  shows "scan_line (hunk_header_text h) (hunks, current)
     = (hunks @ (case current of Some h' \<Rightarrow> [h'] | None \<Rightarrow> []), Some (hunk_head h))"
proof -
  have "starts_with (hunk_header_text h) (lit ''@@'')" by (simp add: hunk_header_text_def)
  then show ?thesis
    by (simp add: scan_line_def hunk_header_one_line [OF assms] parse_hunk_header_text split: option.split)
qed

lemma scan_line_body:
  assumes "line_ok l"
  shows "scan_line (line_text l) (hunks, Some h) = (hunks, Some (h\<lparr>hunk_lines := hunk_lines h @ lines_meant l\<rparr>))"
proof -
  note cr = one_line_strip [OF line_text_one_line [OF assms]]
  show ?thesis
  proof (cases l)
    case (Line x)
    have "\<not> starts_with (marker (kind x) # content x) (lit ''@@'')"
      by (cases "kind x") (simp_all add: starts_with_def lit_def)
    with cr Line show ?thesis by (cases "kind x"; cases x) (simp_all add: scan_line_def push_line_def)
  next
    case Stripped
    with cr show ?thesis by (simp add: scan_line_def push_line_def starts_with_def lit_def)
  next
    case (Remark r)
    with cr show ?thesis by (simp add: scan_line_def starts_with_def lit_def)
  qed
qed

lemma fold_scan_body:
  "\<forall>l \<in> set ls. line_ok l \<Longrightarrow> fold scan_line (map line_text ls) (hunks, Some h)
     = (hunks, Some (h\<lparr>hunk_lines := hunk_lines h @ concat (map lines_meant ls)\<rparr>))"
  by (induction ls arbitrary: h) (simp_all add: scan_line_body)

lemma fold_scan_hunks:
  "\<forall>h \<in> set hs. wf_hunk h \<Longrightarrow>
     (let (hunks', cur') = fold scan_line (concat (map hunk_text hs)) (hunks, current)
      in hunks' @ (case cur' of Some h \<Rightarrow> [h] | None \<Rightarrow> []))
     = hunks @ (case current of Some h \<Rightarrow> [h] | None \<Rightarrow> []) @ map hunk_meant hs"
proof (induction hs arbitrary: hunks current)
  case (Cons h hs)
  then have "one_line (heading h)" "\<forall>l \<in> set (hunk_body h). line_ok l" by (simp_all add: wf_hunk_def)
  then have step: "fold scan_line (hunk_text h) (hunks, current)
      = (hunks @ (case current of Some h' \<Rightarrow> [h'] | None \<Rightarrow> []), Some (hunk_meant h))"
    by (simp add: hunk_text_def scan_line_header fold_scan_body hunk_meant_def hunk_head_def)
  show ?case using Cons by (simp add: step)
qed simp

lemma fold_scan_preamble:
  "\<forall>l \<in> set pre. one_line l \<and> \<not> starts_with l (lit ''@@'') \<Longrightarrow> fold scan_line pre ([], None) = ([], None)"
  by (induction pre) (simp_all add: scan_line_def)

lemma parse_hunks_printed:
  assumes "\<forall>l \<in> set pre. one_line l \<and> \<not> starts_with l (lit ''@@'')" and "\<forall>h \<in> set hs. wf_hunk h"
  shows "parse_hunks (unlines (pre @ concat (map hunk_text hs))) = map hunk_meant hs"
proof -
  have "one_line l" if "l \<in> set (pre @ concat (map hunk_text hs))" for l
    using that assms hunk_text_one_line by auto
  then have "\<forall>l \<in> set (pre @ concat (map hunk_text hs)). newline \<notin> set l \<and> carriage_return \<notin> set l"
    by (simp add: one_line_def)
  then have "lines (unlines (pre @ concat (map hunk_text hs))) = pre @ concat (map hunk_text hs)"
    by (rule lines_unlines)
  moreover have "(let (hunks, cur) = fold scan_line (concat (map hunk_text hs)) ([], None)
      in hunks @ (case cur of Some h \<Rightarrow> [h] | None \<Rightarrow> [])) = map hunk_meant hs"
    using fold_scan_hunks [OF assms(2), of "[]" None] by simp
  ultimately show ?thesis
    using fold_scan_preamble [OF assms(1)] by (auto simp: parse_hunks_def split: option.splits prod.splits)
qed

text \<open>
  Parsing inverts printing: a file section made of any header lines and any number of hunks, each with
  its two ranges, its heading, its marked lines and its remarks, parses back to exactly those hunks.
\<close>

theorem parse_hunks_roundtrip:
  assumes "\<forall>l \<in> set pre. one_line l \<and> \<not> starts_with l (lit ''@@'')" and "\<forall>h \<in> set hs. wf_hunk h"
  shows "parse_hunks (unlines (pre @ concat (map hunk_text hs))) = map hunk_meant hs"
  using assms by (rule parse_hunks_printed)

definition demo_printed :: PrintedHunk where
  "demo_printed = \<lparr>old_range = (10, Some 2), new_range = (12, Some 4), heading = lit '' impl X'', hunk_body =
     [Line \<lparr>kind = Context, content = lit ''fn f() {''\<rparr>, Line \<lparr>kind = Deleted, content = lit ''  a();''\<rparr>,
      Remark (lit '' No newline at end of file''),
      Line \<lparr>kind = Added, content = lit ''  log(x);''\<rparr>, Line \<lparr>kind = Added, content = lit ''  b();''\<rparr>,
      Line \<lparr>kind = Added, content = lit ''  log(x);''\<rparr>]\<rparr>"

definition demo_hunk :: DiffHunk where
  "demo_hunk = \<lparr>old_start = 10, new_start = 12, hunk_lines =
     [\<lparr>kind = Context, content = lit ''fn f() {''\<rparr>, \<lparr>kind = Deleted, content = lit ''  a();''\<rparr>,
      \<lparr>kind = Added, content = lit ''  log(x);''\<rparr>, \<lparr>kind = Added, content = lit ''  b();''\<rparr>,
      \<lparr>kind = Added, content = lit ''  log(x);''\<rparr>]\<rparr>"

lemma demo_printed_meant: "hunk_meant demo_printed = demo_hunk"
  by (simp add: demo_printed_def demo_hunk_def hunk_meant_def hunk_head_def)

lemma demo_printed_wf: "wf_hunk demo_printed"
  by (auto simp: demo_printed_def wf_hunk_def one_line_def lit_def newline_def carriage_return_def)

theorem parse_hunks_roundtrip_witness:
  "parse_hunks (unlines (lit ''+++ b/x.rs'' # hunk_text demo_printed @ hunk_text demo_printed)) = [demo_hunk, demo_hunk]"
proof -
  have "one_line (lit ''+++ b/x.rs'')" "\<not> starts_with (lit ''+++ b/x.rs'') (lit ''@@'')"
    by (simp_all add: one_line_def lit_def newline_def carriage_return_def starts_with_def)
  then show ?thesis
    using parse_hunks_roundtrip [of "[lit ''+++ b/x.rs'']" "[demo_printed, demo_printed]"]
    by (simp add: demo_printed_wf demo_printed_meant)
qed

section \<open>Properties of the resolution\<close>

text \<open>
  A flagged snippet is found wherever it stands: if its non-blank normalized lines occur
  consecutively on the new side of some hunk (or, when they do not, on the old side), the resolution
  returns such an occurrence, as a range of as many lines, and with a claimed line it returns the
  occurrence whose start is nearest to the claim among all hunks.
\<close>

theorem resolve_finds_nearest_occurrence:
  assumes "snippet t = Some s" and "occurrence new_side (split_and_normalize s) hunks x"
    and "new_side \<or> (\<forall>y. \<not> occurrence True (split_and_normalize s) hunks y)"
    and "split_and_normalize s \<noteq> []"
  shows "\<exists>a b. resolve_issue_lines t hunks = Some (to_i32 a, to_i32 b)
    \<and> occurrence new_side (split_and_normalize s) hunks (a, b)
    \<and> b = a + of_nat (length (split_and_normalize s) - 1)
    \<and> (\<forall>c y. positive_claim t = Some c \<and> occurrence new_side (split_and_normalize s) hunks y
         \<longrightarrow> abs_diff a (word_of_int c) \<le> abs_diff (fst y) (word_of_int c))"
proof -
  let ?ts = "split_and_normalize s" and ?p = "map_option word_of_int (positive_claim t)"
  have ne: "hunks \<noteq> []" using assms(2) by (auto simp: occurrence_def)
  obtain a b where r: "search_side new_side ?ts ?p hunks None = Some (a, b)"
    using search_side_complete [OF assms(2,4), of ?p] by auto
  have res: "resolve_issue_lines t hunks = Some (to_i32 a, to_i32 b)"
  proof (cases new_side)
    case True
    with r ne assms(1,4) show ?thesis by (simp add: resolve_issue_lines_def resolve_by_snippet_def Let_def)
  next
    case False
    have "search_side True ?ts ?p hunks None = None"
      using search_side_sound [of True ?ts ?p hunks] assms(3,4) False by (metis option.exhaust)
    with False r ne assms(1,4) show ?thesis by (simp add: resolve_issue_lines_def resolve_by_snippet_def Let_def)
  qed
  have occ: "occurrence new_side ?ts hunks (a, b)" using search_side_sound [OF r assms(4)] .
  have "abs_diff a (word_of_int c) \<le> abs_diff (fst y) (word_of_int c)"
    if "positive_claim t = Some c" "occurrence new_side ?ts hunks y" for c y
    using search_side_complete [OF that(2) assms(4), of ?p] r that(1) by auto
  with res occ occurrence_length [OF occ assms(4)] show ?thesis by blast
qed

theorem resolve_finds_nearest_occurrence_witness:
  "\<exists>a b. resolve_issue_lines \<lparr>snippet = Some (lit ''log(x);''), claimed_line = Some 14\<rparr> [demo_hunk]
       = Some (to_i32 a, to_i32 b)
     \<and> abs_diff a 14 \<le> abs_diff (fst (15 :: 32 word, 15 :: 32 word)) 14"
proof -
  let ?t = "\<lparr>snippet = Some (lit ''log(x);''), claimed_line = Some 14\<rparr>"
  have ts: "split_and_normalize (lit ''log(x);'') = [lit ''log(x);'']" by code_simp
  have "occurs_at (extract_side_lines demo_hunk True) [lit ''log(x);''] 3" by code_simp
  moreover have "run_at (extract_side_lines demo_hunk True) 1 3 = (15, 15)" by code_simp
  ultimately have "occurrence True [lit ''log(x);''] [demo_hunk] (15, 15)"
    unfolding occurrence_def by (intro bexI [of _ demo_hunk] exI [of _ 3]) auto
  then show ?thesis
    using resolve_finds_nearest_occurrence [of ?t "lit ''log(x);''" True "[demo_hunk]" "(15, 15)"]
    by (fastforce simp: ts positive_claim_def)
qed

text \<open>
  The resolution never invents a line: a result is an occurrence of the snippet on one side of a
  hunk, or one line that exists on the new side of a hunk near a positive claim and is nearest to it
  among all such lines.
\<close>

theorem resolve_returns_existing_lines:
  assumes "resolve_issue_lines t hunks = Some (start, finish)"
  shows "(\<exists>s new_side a b. snippet t = Some s \<and> occurrence new_side (split_and_normalize s) hunks (a, b)
       \<and> start = to_i32 a \<and> finish = to_i32 b)
    \<or> (\<exists>c h n. positive_claim t = Some c \<and> h \<in> set hunks \<and> n \<in> set (near_lines (word_of_int c) h)
       \<and> start = to_i32 n \<and> finish = start
       \<and> (\<forall>h' \<in> set hunks. \<forall>m \<in> set (near_lines (word_of_int c) h').
            abs_diff n (word_of_int c) \<le> abs_diff m (word_of_int c)))"
proof (cases "resolve_by_snippet t hunks")
  case (Some r)
  with assms have "r = (start, finish)" by (auto simp: resolve_issue_lines_def split: if_splits)
  with resolve_by_snippet_sound [OF Some] show ?thesis by (intro disjI1) blast
next
  case None
  have "hunks \<noteq> []" using assms by (auto simp: resolve_issue_lines_def)
  with None assms have claim: "(case positive_claim t of None \<Rightarrow> None
      | Some c \<Rightarrow> map_option (\<lambda>l. (l, l)) (snap_claimed_line c hunks)) = Some (start, finish)"
    unfolding resolve_issue_lines_def by simp
  then obtain c where c0: "positive_claim t = Some c" by (cases "positive_claim t") simp_all
  with claim have c: "positive_claim t = Some c" "snap_claimed_line c hunks = Some start" "finish = start"
    by auto
  let ?c = "word_of_int c :: 32 word"
  let ?ns = "concat (map (near_lines ?c) hunks)"
  from c(2) obtain d n where f: "fold (snap_line ?c) ?ns None = Some (d, n)" "start = to_i32 n"
    by (auto simp: snap_claimed_line_def snap_hunks_fold split: if_splits)
  from fold_snap_line [OF f(1)] have "n \<in> set ?ns" "\<forall>m \<in> set ?ns. abs_diff n ?c \<le> abs_diff m ?c" by auto
  with c f(2) show ?thesis by (intro disjI2) auto
qed

theorem resolve_returns_existing_lines_witness:
  "resolve_issue_lines \<lparr>snippet = None, claimed_line = Some 17\<rparr> [demo_hunk] = Some (15, 15)
   \<and> (\<exists>n \<in> set (near_lines 17 demo_hunk). to_i32 n = 15)"
proof -
  have r: "resolve_issue_lines \<lparr>snippet = None, claimed_line = Some 17\<rparr> [demo_hunk] = Some (15, 15)" by code_simp
  from resolve_returns_existing_lines [OF r] r show ?thesis by (auto simp: positive_claim_def)
qed

text \<open>
  A verbatim snippet with a blank line inside is not found: the blank line is dropped from the
  snippet but kept in the hunk, so three consecutive lines of the new file, quoted exactly, resolve to
  nothing.
\<close>

theorem snippet_with_blank_line_not_found:
  "resolve_issue_lines \<lparr>snippet = Some (unlines [lit ''a'', [], lit ''b'']), claimed_line = None\<rparr>
     [\<lparr>old_start = 1, new_start = 1, hunk_lines = [\<lparr>kind = Added, content = lit ''a''\<rparr>,
        \<lparr>kind = Added, content = []\<rparr>, \<lparr>kind = Added, content = lit ''b''\<rparr>]\<rparr>] = None"
  by code_simp

end
