(* ===== verification/Review_Merge.thy ===== *)
theory Review_Merge
  imports Review_Checks Hunk_Resolver
begin

text \<open>
  The pure steps of \<^verbatim>\<open>review_engine/pipeline/mod.rs\<close> around the model calls: merging the issues of
  several perspectives, merging the pools of recalled rules, splitting a diff by file, and snapping the
  lines of issues to the diff. A hash map is a partial function; a cache that only memoises a pure
  function is left out.
\<close>

section \<open>Merging perspectives\<close>

datatype ReviewPerspective = Safety | Performance | Style | Docs | ApiDesign

fun perspective_name :: "ReviewPerspective \<Rightarrow> ustr" where
  "perspective_name Safety = lit ''safety''"
| "perspective_name Performance = lit ''performance''"
| "perspective_name Style = lit ''style''"
| "perspective_name Docs = lit ''docs''"
| "perspective_name ApiDesign = lit ''api_design''"

definition merge_key :: "'g ReviewIssueRecord \<Rightarrow> ustr" where
  "merge_key i = or_empty (issue_file i) @ lit ''|''
     @ (case issue_line i of Some n \<Rightarrow> show_i32 n | None \<Rightarrow> []) @ lit ''|''
     @ (case rule_id i of Some r \<Rightarrow> r | None \<Rightarrow> rule i)"

definition add_perspective :: "ustr \<Rightarrow> ustr list \<Rightarrow> ustr list" where
  "add_perspective n ps = (if n \<in> set ps then ps else ps @ [n])"

type_synonym 'g merge_state = "ustr list \<times> (ustr \<Rightarrow> 'g ReviewIssueRecord option)"

definition merge_step :: "ustr \<Rightarrow> 'g ReviewIssueRecord \<Rightarrow> 'g merge_state \<Rightarrow> 'g merge_state" where
  "merge_step name issue st = (case st of (order, merged) \<Rightarrow>
     let key = merge_key issue in
     case merged key of
       Some existing \<Rightarrow>
         (order, merged(key := Some (
            if severity_rank (severity issue) > severity_rank (severity existing)
            then issue\<lparr>perspectives := add_perspective name (perspectives existing)\<rparr>
            else existing\<lparr>perspectives := add_perspective name (perspectives existing)\<rparr>)))
     | None \<Rightarrow>
         (order @ [key], merged(key := Some (issue\<lparr>perspectives := add_perspective name (perspectives issue)\<rparr>))))"

definition canonical_names :: "ustr list" where
  "canonical_names = map perspective_name [Safety, Performance, Style, Docs, ApiDesign]"

definition canonical_order :: "ustr list \<Rightarrow> ustr list" where
  "canonical_order ps = fold (\<lambda>p sorted. if p \<in> set sorted then sorted else sorted @ [p]) ps
     (filter (\<lambda>c. c \<in> set ps) canonical_names)"

fun collect_merged :: "ustr list \<Rightarrow> (ustr \<Rightarrow> 'g ReviewIssueRecord option) \<Rightarrow> 'g ReviewIssueRecord list" where
  "collect_merged [] merged = []"
| "collect_merged (k # ks) merged =
     (case merged k of
        Some i \<Rightarrow> i\<lparr>perspectives := canonical_order (perspectives i)\<rparr> # collect_merged ks (merged(k := None))
      | None \<Rightarrow> collect_merged ks merged)"

definition merge_perspective_issues ::
  "(ReviewPerspective \<times> 'g ReviewIssueRecord list) list \<Rightarrow> 'g ReviewIssueRecord list" where
  "merge_perspective_issues per_perspective =
     (let (order, merged) = fold (\<lambda>(persp, issues). fold (merge_step (perspective_name persp)) issues)
            per_perspective ([], Map.empty)
      in collect_merged order merged)"

section \<open>Merging recall pools\<close>

text \<open>
  One round over the pools: every pool that still has an unseen item seats its first one. The set of
  seen identifiers is the set of the identifiers merged so far. The last component tells whether the
  round seated anything.
\<close>

definition unseen :: "'f ContextSourceItemRecord list \<Rightarrow> 'f ContextSourceItemRecord list
    \<Rightarrow> 'f ContextSourceItemRecord list" where
  "unseen merged it = dropWhile (\<lambda>x. source_id x \<in> source_id ` set merged) it"

fun recall_round ::
  "nat \<Rightarrow> 'f ContextSourceItemRecord list list \<Rightarrow> 'f ContextSourceItemRecord list
    \<Rightarrow> 'f ContextSourceItemRecord list list \<times> 'f ContextSourceItemRecord list \<times> bool" where
  "recall_round cap [] merged = ([], merged, False)"
| "recall_round cap (it # its) merged =
     (if length merged \<ge> cap then (it # its, merged, False)
      else case unseen merged it of
          [] \<Rightarrow> (case recall_round cap its merged of (its', m, seated) \<Rightarrow> ([] # its', m, seated))
        | x # rest \<Rightarrow> (case recall_round cap its (merged @ [x]) of (its', m, _) \<Rightarrow> (rest # its', m, True)))"

definition pool_size :: "'a list list \<Rightarrow> nat" where
  "pool_size pools = sum_list (map length pools)"

lemma recall_round_size:
  "case recall_round cap pools merged of (pools', merged', seated) \<Rightarrow>
     pool_size pools' \<le> pool_size pools \<and> (seated \<longrightarrow> pool_size pools' < pool_size pools)"
proof (induction pools arbitrary: merged)
  case (Cons it its)
  show ?case
  proof (cases "length merged \<ge> cap")
    case False
    have d: "length (unseen merged it) \<le> length it" by (simp add: unseen_def length_dropWhile_le)
    show ?thesis
    proof (cases "unseen merged it")
      case Nil
      with False d Cons [of merged] show ?thesis by (auto simp: pool_size_def split: prod.splits)
    next
      case (Cons x rest)
      with False d Cons.IH [of "merged @ [x]"] show ?thesis by (auto simp: pool_size_def split: prod.splits)
    qed
  qed simp
qed (simp add: pool_size_def)

function recall_loop ::
  "nat \<Rightarrow> 'f ContextSourceItemRecord list list \<Rightarrow> 'f ContextSourceItemRecord list
    \<Rightarrow> 'f ContextSourceItemRecord list" where
  "recall_loop cap pools merged =
     (if length merged \<ge> cap then merged
      else case recall_round cap pools merged of
          (pools', merged', seated) \<Rightarrow> if seated then recall_loop cap pools' merged' else merged')"
  by pat_completeness auto
termination
proof (relation "measure (\<lambda>(cap, pools, merged). pool_size pools)", goal_cases)
  case (2 cap pools merged x y xa ya)
  then have "recall_round cap pools merged = (x, xa, True)" by simp
  with recall_round_size [where cap = cap and pools = pools and merged = merged] show ?case by simp
qed simp

declare recall_loop.simps [simp del]

definition merge_recall_pools ::
  "'f ContextSourceItemRecord list list \<Rightarrow> nat \<Rightarrow> 'f ContextSourceItemRecord list" where
  "merge_recall_pools pools cap = recall_loop cap pools []"

section \<open>Rule bookkeeping\<close>

definition rules_text_from_items :: "'f ContextSourceItemRecord list \<Rightarrow> ustr option" where
  "rules_text_from_items items =
     (if items = [] then None else Some (str_join [newline, newline] (map item_content items)))"

definition matched_rule_ids_and_titles :: "'f ContextSourceItemRecord list \<Rightarrow> ustr list \<times> ustr list" where
  "matched_rule_ids_and_titles items =
     (map source_id items,
      map (\<lambda>item. case item_title item of
         Some t \<Rightarrow> if trim t \<noteq> [] then t else source_id item | None \<Rightarrow> source_id item) items)"

section \<open>Snapping issues to the diff\<close>

type_synonym split_state = "(ustr \<Rightarrow> ustr option) \<times> ustr option \<times> ustr"

definition flush_section :: "split_state \<Rightarrow> split_state" where
  "flush_section st = (case st of (out, path, body) \<Rightarrow>
     case path of
       None \<Rightarrow> (out, None, body)
     | Some p \<Rightarrow> if trim body = [] then (out, None, []) else (out(p \<mapsto> body), None, []))"

definition split_step :: "ustr \<Rightarrow> split_state \<Rightarrow> split_state" where
  "split_step l st =
     (let (out, path, body) =
        (if starts_with l (lit ''diff --git '') then
           (case flush_section st of (out, _, _) \<Rightarrow> (out, None, []))
         else case new_side_path l of
             Some p \<Rightarrow> (fst st, Some p, snd (snd st))
           | None \<Rightarrow> st)
      in if path = None then (out, path, body) else (out, path, body @ l @ [newline]))"

definition split_diff_by_file :: "ustr \<Rightarrow> ustr \<Rightarrow> ustr option" where
  "split_diff_by_file diff = fst (flush_section (fold split_step (lines diff) (Map.empty, None, [])))"

definition resolve_line :: "(ustr \<Rightarrow> ustr option) \<Rightarrow> ustr option \<Rightarrow> 'g ReviewIssueRecord \<Rightarrow> 'g ReviewIssueRecord" where
  "resolve_line sections snip issue =
     (case issue_file issue of
        None \<Rightarrow> issue
      | Some f \<Rightarrow>
          (let hunks = (case sections f of Some section \<Rightarrow> parse_hunks section | None \<Rightarrow> []) in
           if hunks = [] then issue
           else case resolve_issue_lines \<lparr>snippet = snip, claimed_line = issue_line issue\<rparr> hunks of
               Some (start, _) \<Rightarrow> issue\<lparr>issue_line := Some start\<rparr>
             | None \<Rightarrow> issue))"

definition apply_hunk_line_resolution ::
  "'g ReviewIssueRecord list \<Rightarrow> ustr option list \<Rightarrow> ustr \<Rightarrow> 'g ReviewIssueRecord list" where
  "apply_hunk_line_resolution issues snippets diff =
     map (\<lambda>(idx, issue). resolve_line (split_diff_by_file diff)
            (if idx < length snippets then snippets ! idx else None) issue)
       (zip [0..<length issues] issues)"

section \<open>What the merge of pools guarantees\<close>

abbreviation ids_of :: "'f ContextSourceItemRecord list \<Rightarrow> ustr set" where
  "ids_of xs \<equiv> source_id ` set xs"

lemma unseen_ids: "ids_of it \<subseteq> ids_of merged \<union> ids_of (unseen merged it)" "set (unseen merged it) \<subseteq> set it"
proof -
  have "x \<in> set (unseen merged it) \<or> source_id x \<in> ids_of merged" if "x \<in> set it" for x
  proof -
    have "x \<in> set (takeWhile (\<lambda>x. source_id x \<in> ids_of merged) it @ unseen merged it)"
      unfolding unseen_def using that by (simp only: takeWhile_dropWhile_id)
    then show ?thesis by (auto dest: set_takeWhileD)
  qed
  then show "ids_of it \<subseteq> ids_of merged \<union> ids_of (unseen merged it)" by blast
  show "set (unseen merged it) \<subseteq> set it" by (auto simp: unseen_def dest: set_dropWhileD)
qed

lemma unseen_Cons: "unseen merged it = x # rest \<Longrightarrow> source_id x \<notin> ids_of merged"
  unfolding unseen_def dropWhile_eq_Cons_conv by blast

text \<open>
  One round extends what is merged by new identifiers out of the pools, loses no identifier, and
  stops seating only when the cap is reached or nothing new is left.
\<close>

definition round_ok ::
  "nat \<Rightarrow> 'f ContextSourceItemRecord list list \<Rightarrow> 'f ContextSourceItemRecord list
    \<Rightarrow> 'f ContextSourceItemRecord list list \<times> 'f ContextSourceItemRecord list \<times> bool \<Rightarrow> bool" where
  "round_ok cap pools merged r \<longleftrightarrow> (case r of (pools', merged', seated) \<Rightarrow>
     prefix merged merged' \<and> (distinct (map source_id merged) \<longrightarrow> distinct (map source_id merged'))
     \<and> set merged' \<union> set (concat pools') \<subseteq> set merged \<union> set (concat pools)
     \<and> length merged' \<le> max cap (length merged) \<and> length merged' \<le> length merged + length pools
     \<and> ids_of (concat pools) \<subseteq> ids_of merged' \<union> ids_of (concat pools')
     \<and> (\<not> seated \<longrightarrow> merged' = merged \<and> (length merged < cap \<longrightarrow> ids_of (concat pools) \<subseteq> ids_of merged))
     \<and> (length merged + length pools \<le> cap \<longrightarrow> (\<forall>p \<in> set pools. p \<noteq> [] \<longrightarrow> source_id (hd p) \<in> ids_of merged')))"

lemma cover_un: "A \<subseteq> M \<union> R \<Longrightarrow> B \<subseteq> M \<union> S \<Longrightarrow> A \<union> B \<subseteq> M \<union> (R \<union> S)"
  by blast

lemma cover_insert: "A \<subseteq> G \<union> insert x R \<Longrightarrow> G \<subseteq> M \<Longrightarrow> x \<in> M \<Longrightarrow> A \<subseteq> M \<union> R"
  by blast

lemma round_ok_skip:
  assumes "unseen merged it = []" "length merged < cap" "round_ok cap its merged (its', m, seated)"
  shows "round_ok cap (it # its) merged ([] # its', m, seated)"
proof -
  have "ids_of it \<subseteq> ids_of merged" using unseen_ids(1) [of it merged] assms(1) by simp
  moreover have "ids_of merged \<subseteq> ids_of m"
    using assms(3) image_mono [OF set_mono_prefix [of merged m]] by (simp add: round_ok_def)
  moreover have "source_id (hd it) \<in> ids_of it" if "it \<noteq> []" using that by simp
  ultimately have it: "ids_of it \<subseteq> ids_of merged" "ids_of it \<subseteq> ids_of m"
    "it \<noteq> [] \<Longrightarrow> source_id (hd it) \<in> ids_of m" by blast+
  have "set m \<union> set (concat its') \<subseteq> set merged \<union> set (concat its)"
    "ids_of (concat its) \<subseteq> ids_of m \<union> ids_of (concat its')"
    using assms(3) unfolding round_ok_def prod.case by - (elim conjE, assumption)+
  then have "ids_of (concat (it # its)) \<subseteq> ids_of m \<union> ids_of (concat ([] # its'))"
    "ids_of (concat its) \<subseteq> ids_of merged \<Longrightarrow> ids_of (concat (it # its)) \<subseteq> ids_of merged"
    "set m \<union> set (concat ([] # its')) \<subseteq> set merged \<union> set (concat (it # its))"
    using it(1) cover_un [of "ids_of it" "ids_of m" "{}"] it(2) unfolding concat.simps set_append image_Un
    by (simp_all only: Un_empty_right Un_empty_left append_Nil Un_least Un_subset_iff simp_thms subset_refl)
      (auto intro: subset_trans)
  with it(3) assms(2,3) show ?thesis unfolding round_ok_def prod.case by simp
qed

lemma round_ok_seat:
  assumes "unseen merged it = x # rest" "length merged < cap" "round_ok cap its (merged @ [x]) (its', m, seated)"
  shows "round_ok cap (it # its) merged (rest # its', m, True)"
proof -
  have sub: "prefix (merged @ [x]) m" using assms(3) by (simp add: round_ok_def)
  then have pre: "prefix merged m" by (meson append_prefixD)
  have mem: "set merged \<union> {x} \<subseteq> set m" using set_mono_prefix [OF sub] by auto
  have it: "ids_of it \<subseteq> ids_of merged \<union> ids_of (x # rest)" "set (x # rest) \<subseteq> set it"
    using unseen_ids(1) [of it merged] unseen_ids(2) [of merged it] assms(1) by auto
  have dist: "distinct (map source_id merged) \<Longrightarrow> distinct (map source_id (merged @ [x]))"
    using unseen_Cons [OF assms(1)] by auto
  have head: "source_id (hd it) \<in> ids_of m" if "it \<noteq> []"
  proof (cases "source_id (hd it) \<in> ids_of merged")
    case False
    with that assms(1) have "x = hd it" by (cases it) (auto simp: unseen_def)
    then show ?thesis using mem by auto
  qed (use mem in auto)
  have ids: "ids_of (concat (it # its)) \<subseteq> ids_of m \<union> ids_of (concat (rest # its'))"
  proof -
    have "ids_of (concat its) \<subseteq> ids_of m \<union> ids_of (concat its')"
      using assms(3) unfolding round_ok_def prod.case by - (elim conjE, assumption)
    moreover have "ids_of it \<subseteq> ids_of m \<union> ids_of rest" 
    proof -
      have "ids_of merged \<subseteq> ids_of m" "source_id x \<in> ids_of m" using mem by auto
      with it(1) [unfolded list.set image_insert] show ?thesis by (rule cover_insert)
    qed
    ultimately show ?thesis unfolding concat.simps set_append image_Un by (intro cover_un)
  qed
  have set: "set m \<union> set (concat (rest # its')) \<subseteq> set merged \<union> set (concat (it # its))"
  proof -
    have "set m \<union> set (concat its') \<subseteq> set (merged @ [x]) \<union> set (concat its)"
      using assms(3) unfolding round_ok_def prod.case by - (elim conjE, assumption)
    then show ?thesis using it(2) unfolding concat.simps set_append list.set by blast
  qed
  have "length m \<le> max cap (length merged)" "length m \<le> length merged + length (it # its)"
    "distinct (map source_id merged) \<Longrightarrow> distinct (map source_id m)"
    "length merged + length (it # its) \<le> cap \<Longrightarrow> p \<in> set its \<Longrightarrow> p \<noteq> [] \<Longrightarrow> source_id (hd p) \<in> ids_of m" for p
    using assms(2,3) dist unfolding round_ok_def by auto
  with pre head ids set show ?thesis unfolding round_ok_def by simp
qed

lemma recall_round_ok: "round_ok cap pools merged (recall_round cap pools merged)"
proof (induction pools arbitrary: merged)
  case Nil
  show ?case by (simp add: round_ok_def)
next
  case (Cons it its)
  show ?case
  proof (cases "length merged \<ge> cap")
    case True
    then show ?thesis by (auto simp: round_ok_def)
  next
    case False
    show ?thesis
    proof (cases "unseen merged it")
      case Nil
      with False Cons.IH [of merged] round_ok_skip [OF Nil] show ?thesis by (auto split: prod.split)
    next
      case (Cons x rest)
      with False Cons.IH [of "merged @ [x]"] round_ok_seat [OF Cons] show ?thesis by (auto split: prod.split)
    qed
  qed
qed

lemma recall_loop_ok:
  assumes "distinct (map source_id merged)" "length merged \<le> cap"
  shows "prefix merged (recall_loop cap pools merged)
    \<and> distinct (map source_id (recall_loop cap pools merged))
    \<and> set (recall_loop cap pools merged) \<subseteq> set merged \<union> set (concat pools)
    \<and> length (recall_loop cap pools merged) \<le> cap
    \<and> (length (recall_loop cap pools merged) < cap
         \<longrightarrow> ids_of (concat pools) \<subseteq> ids_of (recall_loop cap pools merged))"
  using assms
proof (induction cap pools merged rule: recall_loop.induct)
  case (1 cap pools merged)
  show ?case
  proof (cases "length merged \<ge> cap")
    case True
    then show ?thesis using "1.prems" by (auto simp: recall_loop.simps)
  next
    case False
    obtain pools' merged' seated where r: "recall_round cap pools merged = (pools', merged', seated)"
      by (metis prod_cases3)
    have ok: "round_ok cap pools merged (pools', merged', seated)" using recall_round_ok r by metis
    show ?thesis
    proof (cases seated)
      case False': False
      with ok False "1.prems" show ?thesis
        by (subst (1 2 3 4 5 6) recall_loop.simps) (auto simp: r round_ok_def)
    next
      case True
      have "distinct (map source_id merged')" "length merged' \<le> cap"
        using ok "1.prems" False unfolding round_ok_def by auto
      note IH = "1.IH" [OF False r [symmetric] refl True this]
      have eq: "recall_loop cap pools merged = recall_loop cap pools' merged'"
        using False True by (subst recall_loop.simps) (simp add: r)
      have "prefix merged merged'" "set merged' \<union> set (concat pools') \<subseteq> set merged \<union> set (concat pools)"
        "ids_of (concat pools) \<subseteq> ids_of merged' \<union> ids_of (concat pools')"
        using ok unfolding round_ok_def by auto
      moreover have "ids_of merged' \<subseteq> ids_of (recall_loop cap pools' merged')"
        using IH set_mono_prefix by blast
      ultimately show ?thesis
        unfolding eq using IH by (meson prefix_order.trans subset_trans Un_least)
    qed
  qed
qed

text \<open>
  Merging the recall pools keeps within the cap, never repeats a rule, only returns rules of the
  pools, returns every rule if the cap leaves room, and is fair: with at least as many seats as
  pools, the best rule of every pool is among the first seats, one round long.
\<close>

theorem merge_recall_pools_fair:
  "length (merge_recall_pools pools cap) \<le> cap
   \<and> distinct (map source_id (merge_recall_pools pools cap))
   \<and> set (merge_recall_pools pools cap) \<subseteq> set (concat pools)
   \<and> (length (merge_recall_pools pools cap) < cap
        \<longrightarrow> source_id ` set (concat pools) \<subseteq> source_id ` set (merge_recall_pools pools cap))
   \<and> (length pools \<le> cap \<and> p \<in> set pools \<and> p \<noteq> []
        \<longrightarrow> source_id (hd p) \<in> source_id ` set (take (length pools) (merge_recall_pools pools cap)))"
proof -
  have ok: "prefix [] (merge_recall_pools pools cap) \<and> distinct (map source_id (merge_recall_pools pools cap))
      \<and> set (merge_recall_pools pools cap) \<subseteq> set (concat pools) \<and> length (merge_recall_pools pools cap) \<le> cap
      \<and> (length (merge_recall_pools pools cap) < cap
           \<longrightarrow> ids_of (concat pools) \<subseteq> ids_of (merge_recall_pools pools cap))"
    unfolding merge_recall_pools_def using recall_loop_ok [of "[]" cap pools] by simp
  have "source_id (hd p) \<in> ids_of (take (length pools) (merge_recall_pools pools cap))"
    if p: "length pools \<le> cap" "p \<in> set pools" "p \<noteq> []"
  proof -
    obtain pools' merged' seated where r: "recall_round cap pools [] = (pools', merged', seated)"
      by (metis prod_cases3)
    have rok: "round_ok cap pools [] (pools', merged', seated)" using recall_round_ok r by metis
    have m: "source_id (hd p) \<in> ids_of merged'" "length merged' \<le> length pools" "length merged' \<le> cap"
      "distinct (map source_id merged')" using rok p unfolding round_ok_def by auto
    have "0 < cap" using p by (cases pools) auto
    then have "merge_recall_pools pools cap = (if seated then recall_loop cap pools' merged' else merged')"
      unfolding merge_recall_pools_def by (subst recall_loop.simps) (simp add: r)
    then have "prefix merged' (merge_recall_pools pools cap)"
      using recall_loop_ok [OF m(4,3)] by auto
    then have "set merged' \<subseteq> set (take (length pools) (merge_recall_pools pools cap))"
      using m(2) by (auto simp: prefix_def)
    with m(1) show ?thesis by blast
  qed
  with ok show ?thesis by blast
qed

definition demo_pools :: "unit ContextSourceItemRecord list list" where
  "demo_pools = [[demo_rule (lit ''a''), demo_rule (lit ''b'')], [demo_rule (lit ''a''), demo_rule (lit ''c'')]]"

theorem merge_recall_pools_fair_witness:
  "source_id (hd [demo_rule (lit ''a''), demo_rule (lit ''c'')])
     \<in> source_id ` set (take 2 (merge_recall_pools demo_pools 3))"
  using merge_recall_pools_fair [of demo_pools 3 "[demo_rule (lit ''a''), demo_rule (lit ''c'')]"]
  by (simp add: demo_pools_def numeral_2_eq_2)

section \<open>What the merge of perspectives guarantees\<close>

text \<open>The flagged issues in the order of the passes, each with the name of its perspective.\<close>

definition flagged :: "(ReviewPerspective \<times> 'g ReviewIssueRecord list) list \<Rightarrow> (ustr \<times> 'g ReviewIssueRecord) list" where
  "flagged per_perspective =
     concat (map (\<lambda>(persp, issues). map (\<lambda>i. (perspective_name persp, i)) issues) per_perspective)"

definition first_seen :: "'a list \<Rightarrow> 'a list" where
  "first_seen xs = rev (remdups (rev xs))"

lemma first_seen_snoc: "first_seen (xs @ [x]) = (if x \<in> set xs then first_seen xs else first_seen xs @ [x])"
  by (simp add: first_seen_def)

lemma set_first_seen [simp]: "set (first_seen xs) = set xs"
  by (simp add: first_seen_def)

lemma distinct_first_seen [simp]: "distinct (first_seen xs)"
  by (simp add: first_seen_def)

lemma merge_key_perspectives [simp]: "merge_key (i\<lparr>perspectives := ps\<rparr>) = merge_key i"
  by (simp add: merge_key_def split: option.split)

lemma set_add_perspective [simp]: "set (add_perspective n ps) = insert n (set ps)"
  by (auto simp: add_perspective_def)

text \<open>What is stored for a key after the issues \<open>seen\<close>.\<close>

definition represents :: "(ustr \<times> 'g ReviewIssueRecord) list \<Rightarrow> ustr \<Rightarrow> 'g ReviewIssueRecord \<Rightarrow> bool" where
  "represents seen k i \<longleftrightarrow> merge_key i = k
     \<and> (\<exists>(n, j) \<in> set seen. i\<lparr>perspectives := []\<rparr> = j\<lparr>perspectives := []\<rparr>)
     \<and> (\<forall>(n, j) \<in> set seen. merge_key j = k \<longrightarrow> severity_rank (severity j) \<le> severity_rank (severity i))
     \<and> ((\<forall>(n, j) \<in> set seen. perspectives j = []) \<longrightarrow>
          set (perspectives i) = {n. \<exists>j. (n, j) \<in> set seen \<and> merge_key j = k})"

definition merge_inv :: "(ustr \<times> 'g ReviewIssueRecord) list \<Rightarrow> 'g merge_state \<Rightarrow> bool" where
  "merge_inv seen st \<longleftrightarrow> (case st of (order, merged) \<Rightarrow>
     order = first_seen (map (\<lambda>(n, j). merge_key j) seen) \<and> dom merged = set order
     \<and> (\<forall>k i. merged k = Some i \<longrightarrow> represents seen k i))"

lemma represents_other:
  assumes "represents seen k i" "merge_key j \<noteq> k"
  shows "represents (seen @ [(n, j)]) k i"
  using assms unfolding represents_def by auto

lemma represents_new:
  assumes "merge_key j \<notin> set (map (\<lambda>(n, j). merge_key j) seen)"
  shows "represents (seen @ [(n, j)]) (merge_key j) (j\<lparr>perspectives := add_perspective n (perspectives j)\<rparr>)"
  using assms unfolding represents_def by (auto simp: image_iff split_beta)

lemma represents_again:
  assumes "represents seen (merge_key j) e" "severity_rank (severity j) \<le> severity_rank (severity e)"
  shows "represents (seen @ [(n, j)]) (merge_key j) (e\<lparr>perspectives := add_perspective n (perspectives e)\<rparr>)"
  using assms unfolding represents_def by auto

lemma represents_replace:
  assumes "represents seen (merge_key j) e" "severity_rank (severity e) < severity_rank (severity j)"
  shows "represents (seen @ [(n, j)]) (merge_key j) (j\<lparr>perspectives := add_perspective n (perspectives e)\<rparr>)"
  using assms unfolding represents_def by (auto dest: order.trans order.strict_implies_order)

lemma merge_step_inv:
  assumes "merge_inv seen (order, merged)"
  shows "merge_inv (seen @ [(n, j)]) (merge_step n j (order, merged))"
proof (cases "merged (merge_key j)")
  case None
  then have new: "merge_key j \<notin> set (map (\<lambda>(n, j). merge_key j) seen)"
  proof -
    have "dom merged = set (map (\<lambda>(n, j). merge_key j) seen)" using assms by (simp add: merge_inv_def)
    with None show ?thesis by (metis domIff)
  qed
  with assms None represents_new [OF new] show ?thesis
    by (auto simp: merge_inv_def merge_step_def Let_def first_seen_snoc intro: represents_other)
next
  case (Some e)
  then have rep: "represents seen (merge_key j) e" and old: "merge_key j \<in> set (map (\<lambda>(n, j). merge_key j) seen)"
    using assms by (auto simp: merge_inv_def)
  with assms Some represents_again [OF rep] represents_replace [OF rep] show ?thesis
    by (auto simp: merge_inv_def merge_step_def Let_def first_seen_snoc intro: represents_other)
qed

lemma fold_merge_inv:
  assumes "merge_inv seen st"
  shows "merge_inv (seen @ fs) (fold (\<lambda>(n, j). merge_step n j) fs st)"
  using assms
proof (induction fs arbitrary: seen st)
  case (Cons f fs)
  obtain n j order merged where f: "f = (n, j)" "st = (order, merged)" by (metis surj_pair)
  with Cons.prems have "merge_inv (seen @ [(n, j)]) (merge_step n j (order, merged))" by (simp add: merge_step_inv)
  from Cons.IH [OF this] show ?case by (simp add: f)
qed simp

lemma fold_flagged:
  "fold (\<lambda>(persp, issues). fold (merge_step (perspective_name persp)) issues) pp st
     = fold (\<lambda>(n, j). merge_step n j) (flagged pp) st"
proof (induction pp arbitrary: st)
  case (Cons p pp)
  obtain persp issues where p: "p = (persp, issues)" by fastforce
  have "fold (\<lambda>(n, j). merge_step n j) (map (\<lambda>i. (perspective_name persp, i)) issues)
      = fold (merge_step (perspective_name persp)) issues" by (simp add: fold_map comp_def)
  with Cons show ?case by (simp add: p flagged_def)
qed (simp add: flagged_def)

lemma set_canonical_order [simp]: "set (canonical_order ps) = set ps"
proof -
  have "set (fold (\<lambda>p sorted. if p \<in> set sorted then sorted else sorted @ [p]) ps s) = set s \<union> set ps" for s
    by (induction ps arbitrary: s) auto
  then show ?thesis by (auto simp: canonical_order_def)
qed

lemma collect_merged_eq:
  assumes "distinct ks" "set ks \<subseteq> dom merged"
  shows "collect_merged ks merged
    = map (\<lambda>k. (the (merged k))\<lparr>perspectives := canonical_order (perspectives (the (merged k)))\<rparr>) ks"
  using assms
proof (induction ks arbitrary: merged)
  case (Cons k ks)
  from Cons.prems obtain i where i: "merged k = Some i" by auto
  have "collect_merged ks (merged(k := None)) = map (\<lambda>k'. (the ((merged(k := None)) k'))
      \<lparr>perspectives := canonical_order (perspectives (the ((merged(k := None)) k')))\<rparr>) ks"
    using Cons.prems by (intro Cons.IH) auto
  also have "\<dots> = map (\<lambda>k. (the (merged k))\<lparr>perspectives := canonical_order (perspectives (the (merged k)))\<rparr>) ks"
    using Cons.prems(1) by (intro map_cong) auto
  finally show ?case by (simp add: i)
qed simp

text \<open>
  Merging the issues of several perspectives loses none and repeats none: the result has one issue
  per key (file, line, rule), in the order the keys were first flagged; each is one of the issues
  flagged under its key, of the highest severity among them; and when the passes tag nothing
  themselves, its perspectives are exactly those whose pass flagged it.
\<close>

theorem merge_perspectives_exact:
  fixes pp :: "(ReviewPerspective \<times> 'g ReviewIssueRecord list) list"
  assumes "i \<in> set (merge_perspective_issues pp)"
  shows "map merge_key (merge_perspective_issues pp) = first_seen (map (\<lambda>(n, j). merge_key j) (flagged pp))
    \<and> (\<exists>(n, j) \<in> set (flagged pp). i\<lparr>perspectives := []\<rparr> = j\<lparr>perspectives := []\<rparr>)
    \<and> (\<forall>(n, j) \<in> set (flagged pp). merge_key j = merge_key i
         \<longrightarrow> severity_rank (severity j) \<le> severity_rank (severity i))
    \<and> ((\<forall>(n, j) \<in> set (flagged pp). perspectives j = []) \<longrightarrow>
         set (perspectives i) = {n. \<exists>j. (n, j) \<in> set (flagged pp) \<and> merge_key j = merge_key i})"
proof -
  obtain order merged where st: "fold (\<lambda>(n, j). merge_step n j) (flagged pp) ([], Map.empty) = (order, merged)"
    by fastforce
  have "merge_inv [] ([], Map.empty :: ustr \<Rightarrow> 'g ReviewIssueRecord option)"
    by (simp add: merge_inv_def first_seen_def)
  from fold_merge_inv [OF this, of "flagged pp"] st
  have inv: "order = first_seen (map (\<lambda>(n, j). merge_key j) (flagged pp))" "dom merged = set order"
    "\<And>k i. merged k = Some i \<Longrightarrow> represents (flagged pp) k i" by (auto simp: merge_inv_def)
  have res: "merge_perspective_issues pp
      = map (\<lambda>k. (the (merged k))\<lparr>perspectives := canonical_order (perspectives (the (merged k)))\<rparr>) order"
    using collect_merged_eq [of order merged] inv(1,2) st
    by (simp add: merge_perspective_issues_def fold_flagged)
  have key: "merge_key (the (merged k)) = k" if "k \<in> set order" for k
  proof -
    from that have "k \<in> dom merged" by (simp only: inv(2))
    then obtain i where "merged k = Some i" by (auto simp: dom_def)
    with inv(3) [OF this] show ?thesis by (simp add: represents_def)
  qed
  have keys: "map merge_key (merge_perspective_issues pp) = order"
    unfolding res by (simp add: comp_def) (rule map_idI, erule key)
  from assms obtain k where k: "k \<in> set order"
    "i = (the (merged k))\<lparr>perspectives := canonical_order (perspectives (the (merged k)))\<rparr>" by (auto simp: res)
  from k(1) have "k \<in> dom merged" by (simp only: inv(2))
  then obtain e where e: "merged k = Some e" by (auto simp: dom_def)
  have i: "i = e\<lparr>perspectives := canonical_order (perspectives e)\<rparr>" "merge_key i = k"
    using k e key [of k] by simp_all
  have rep: "represents (flagged pp) k e" using inv(3) [OF e] .
  have "i\<lparr>perspectives := []\<rparr> = e\<lparr>perspectives := []\<rparr>" "severity i = severity e" "set (perspectives i) = set (perspectives e)"
    by (simp_all add: i(1))
  with rep show ?thesis
    unfolding represents_def keys inv(1) [symmetric] i(2) by simp
qed

theorem merge_perspectives_exact_witness:
  "\<exists>i \<in> set (merge_perspective_issues [(Style, [demo_issue (lit ''a'')]), (Safety, [demo_issue (lit ''b'')])]).
     set (perspectives i) = {lit ''style'', lit ''safety''}"
proof -
  let ?pp = "[(Style, [demo_issue (lit ''a'')]), (Safety, [demo_issue (lit ''b'')])]"
  have fl: "flagged ?pp = [(lit ''style'', demo_issue (lit ''a'')), (lit ''safety'', demo_issue (lit ''b''))]"
    by (simp add: flagged_def)
  have key: "merge_key (demo_issue m) = lit ''||unknown''" and ps: "perspectives (demo_issue m) = []" for m
    by (simp_all add: merge_key_def demo_issue_def issue_of_object_def get_str_def get_str_or_def json_get_def
        or_empty_def lit_def)
  have "map merge_key (merge_perspective_issues ?pp) \<noteq> []" by code_simp
  then obtain i where i: "i \<in> set (merge_perspective_issues ?pp)" by (cases "merge_perspective_issues ?pp") auto
  note m = merge_perspectives_exact [OF i]
  have "merge_key i \<in> set (map merge_key (merge_perspective_issues ?pp))" using i by simp
  then have "merge_key i = lit ''||unknown''" using m by (simp add: fl key)
  moreover have "\<forall>(n, j) \<in> set (flagged ?pp). perspectives j = []" by (simp add: fl ps)
  with m have "set (perspectives i) = {n. \<exists>j. (n, j) \<in> set (flagged ?pp) \<and> merge_key j = merge_key i}" by blast
  ultimately have "set (perspectives i) = {n. \<exists>j. (n, j) \<in> set (flagged ?pp) \<and> merge_key j = lit ''||unknown''}"
    by simp
  also have "\<dots> = {lit ''style'', lit ''safety''}" unfolding fl using key by (simp add: Collect_disj_eq conj_disj_distribR ex_disj_distrib insert_commute)
  finally show ?thesis using i by blast
qed

section \<open>From a printed diff to resolved lines\<close>

text \<open>
  A file of a diff as git prints it: the \<^verbatim>\<open>diff --git\<close> line, the lines before the new side (the index,
  the modes, the \<^verbatim>\<open>---\<close> line and, for a file that has no new side, everything else), and the new side, if
  there is one, with its hunks.
\<close>

record PrintedFile =
  git_line :: ustr
  header_lines :: "ustr list"
  new_side :: "(ustr \<times> PrintedHunk list) option"

definition section_text :: "ustr \<Rightarrow> PrintedHunk list \<Rightarrow> ustr list" where
  "section_text p hs = (lit ''+++ b/'' @ p) # concat (map hunk_text hs)"

definition file_diff :: "PrintedFile \<Rightarrow> ustr list" where
  "file_diff f = (lit ''diff --git '' @ git_line f) # header_lines f
     @ (case new_side f of Some (p, hs) \<Rightarrow> section_text p hs | None \<Rightarrow> [])"

text \<open>The new sides of a diff, and the hunks each of them stands for.\<close>

definition new_sides :: "PrintedFile list \<Rightarrow> (ustr \<times> PrintedHunk list) list" where
  "new_sides files = List.map_filter new_side files"

definition hunks_by_file :: "PrintedFile list \<Rightarrow> ustr \<Rightarrow> DiffHunk list option" where
  "hunks_by_file files p = map_option (map hunk_meant) (map_of (new_sides files) p)"

definition plain_hunk :: "PrintedHunk \<Rightarrow> bool" where
  "plain_hunk h \<longleftrightarrow> wf_hunk h
     \<and> (\<forall>l. Line l \<in> set (hunk_body h) \<and> kind l = Added \<longrightarrow> \<not> starts_with (content l) (lit ''++ ''))"

definition plain_path :: "ustr \<Rightarrow> bool" where
  "plain_path p \<longleftrightarrow> one_line p \<and> trim p = p \<and> p \<noteq> [] \<and> p \<noteq> lit ''/dev/null''"

definition plain_line :: "ustr \<Rightarrow> bool" where
  "plain_line l \<longleftrightarrow> one_line l \<and> new_side_path l = None \<and> \<not> starts_with l (lit ''diff --git '')"

definition plain_file :: "PrintedFile \<Rightarrow> bool" where
  "plain_file f \<longleftrightarrow> one_line (git_line f) \<and> list_all plain_line (header_lines f)
     \<and> (case new_side f of Some (p, hs) \<Rightarrow> plain_path p \<and> list_all plain_hunk hs | None \<Rightarrow> True)"

definition plain_diff :: "PrintedFile list \<Rightarrow> bool" where
  "plain_diff files \<longleftrightarrow> list_all plain_file files \<and> distinct (map fst (new_sides files))"

lemma trim_Nil_ws: "trim s = [] \<Longrightarrow> c \<in> set s \<Longrightarrow> is_whitespace c"
proof -
  assume "trim s = []" "c \<in> set s"
  then have "dropWhile is_whitespace s = []"
    unfolding trim_def trim_end_def trim_start_def
    by (metis dropWhile_eq_Nil_conv dropWhile_idem hd_dropWhile rev_is_Nil_conv set_rev hd_in_set)
  with \<open>c \<in> set s\<close> show ?thesis by (simp add: dropWhile_eq_Nil_conv)
qed

lemma hunk_text_plain:
  assumes "plain_hunk h" "l \<in> set (hunk_text h)"
  shows "plain_line l"
proof -
  have one: "one_line l" using assms by (auto simp: plain_hunk_def intro: hunk_text_one_line)
  from assms(2) consider (head) "l = hunk_header_text h"
    | (body) x where "x \<in> set (hunk_body h)" "l = line_text x"
    by (auto simp: hunk_text_def)
  then have "\<not> starts_with l (lit ''+++ '') \<and> \<not> starts_with l (lit ''diff --git '')"
  proof cases
    case head
    then show ?thesis by (simp add: hunk_header_text_def starts_with_def lit_def)
  next
    case body
    show ?thesis
    proof (cases x)
      case (Line y)
      with assms(1) body show ?thesis
        by (cases "kind y") (auto simp: plain_hunk_def starts_with_def lit_def)
    qed (simp_all add: body starts_with_def lit_def)
  qed
  with one show ?thesis by (simp add: plain_line_def new_side_path_def strip_prefix_def)
qed

lemma split_step_plain:
  "plain_line l \<Longrightarrow> split_step l (out, None, body) = (out, None, body)"
  "plain_line l \<Longrightarrow> split_step l (out, Some p, body) = (out, Some p, body @ l @ [newline])"
  by (simp_all add: plain_line_def split_step_def)

lemma fold_split_header: "list_all plain_line ls \<Longrightarrow> fold split_step ls (out, None, body) = (out, None, body)"
  by (induction ls) (simp_all add: split_step_plain)

lemma fold_split_body:
  "list_all plain_line ls \<Longrightarrow> fold split_step ls (out, Some p, body) = (out, Some p, body @ unlines ls)"
  by (induction ls arbitrary: body) (simp_all add: split_step_plain unlines_def)

lemma fold_split_section:
  assumes "plain_path p" "list_all plain_hunk hs"
  shows "fold split_step (section_text p hs) (out, None, []) = (out, Some p, unlines (section_text p hs))"
proof -
  have "new_side_path (lit ''+++ b/'' @ p) = Some p"
    using assms(1) by (simp add: new_side_path_def strip_prefix_def starts_with_def plain_path_def lit_def)
  then have new: "split_step (lit ''+++ b/'' @ p) (out, None, []) = (out, Some p, lit ''+++ b/'' @ p @ [newline])"
    by (simp add: split_step_def starts_with_def lit_def)
  have "list_all plain_line (concat (map hunk_text hs))"
    using assms(2) by (auto simp: list_all_iff intro: hunk_text_plain)
  from fold_split_body [OF this] new show ?thesis
    by (simp add: section_text_def unlines_def del: map_concat)
qed

lemma flush_section_file:
  "fst (flush_section (out, Some p, unlines (section_text p hs))) = out(p \<mapsto> unlines (section_text p hs))"
proof -
  have "43 \<in> set (unlines (section_text p hs))" by (simp add: unlines_def section_text_def lit_def)
  then have "trim (unlines (section_text p hs)) \<noteq> []" using trim_Nil_ws by (fastforce simp: is_whitespace_def)
  then show ?thesis by (simp add: flush_section_def)
qed

lemma flush_split_file:
  assumes "plain_file f"
  shows "fst (flush_section (fold split_step (file_diff f) st))
    = (case new_side f of Some (p, hs) \<Rightarrow> (fst (flush_section st))(p \<mapsto> unlines (section_text p hs))
         | None \<Rightarrow> fst (flush_section st))"
proof -
  have git: "split_step (lit ''diff --git '' @ git_line f) st = (fst (flush_section st), None, [])"
    by (simp add: split_step_def starts_with_def lit_def split: prod.split)
  have "fold split_step (header_lines f) (fst (flush_section st), None, []) = (fst (flush_section st), None, [])"
    using assms by (simp add: plain_file_def fold_split_header)
  with assms show ?thesis
    by (auto simp: file_diff_def git plain_file_def fold_split_section flush_section_file
        flush_section_def [of "(_, None, _)"] split: option.split)
qed

lemma fold_split_files:
  assumes "list_all plain_file files"
  shows "fst (flush_section (fold split_step (concat (map file_diff files)) st)) q
    = (case map_of (rev (new_sides files)) q of Some hs \<Rightarrow> Some (unlines (section_text q hs))
         | None \<Rightarrow> fst (flush_section st) q)"
  using assms
proof (induction files rule: rev_induct)
  case (snoc f files)
  then have "plain_file f" by simp
  from flush_split_file [OF this] snoc show ?case
    by (auto simp: new_sides_def map_filter_def split: option.splits)
qed (simp add: new_sides_def map_filter_def)

lemma map_of_rev: "distinct (map fst xs) \<Longrightarrow> map_of (rev xs) = map_of xs"
  by (rule map_of_eqI) (auto simp: rev_map [symmetric] intro: map_of_is_SomeI)

lemma split_diff_printed:
  assumes "plain_diff files" and "lines diff = concat (map file_diff files)"
  shows "map_option parse_hunks (split_diff_by_file diff q) = hunks_by_file files q"
proof -
  have "list_all plain_file files" "distinct (map fst (new_sides files))"
    using assms(1) by (simp_all add: plain_diff_def)
  then have sec: "split_diff_by_file diff q
      = map_option (\<lambda>hs. unlines (section_text q hs)) (map_of (new_sides files) q)"
    using fold_split_files [of files "(Map.empty, None, [])" q]
    by (simp add: split_diff_by_file_def assms(2) flush_section_def map_of_rev split: option.split)
  show ?thesis
  proof (cases "map_of (new_sides files) q")
    case (Some hs)
    then obtain f where "f \<in> set files" "new_side f = Some (q, hs)"
      by (auto dest!: map_of_SomeD simp: new_sides_def map_filter_def)
    with assms(1) have q: "one_line q" "\<forall>h \<in> set hs. wf_hunk h"
      by (fastforce simp: plain_diff_def plain_file_def plain_path_def plain_hunk_def list_all_iff)+
    have "one_line (lit ''+++ b/'' @ q)" using q(1) by (simp add: one_line_def lit_def newline_def carriage_return_def)
    with q(2) have "parse_hunks (unlines ([lit ''+++ b/'' @ q] @ concat (map hunk_text hs))) = map hunk_meant hs"
      by (intro parse_hunks_printed) (auto simp: starts_with_def lit_def)
    with sec Some show ?thesis by (simp add: section_text_def hunks_by_file_def)
  qed (simp add: sec hunks_by_file_def)
qed

text \<open>
  Splitting and parsing a printed diff gives back its files: for a diff that prints any number of
  files, their new sides under different paths and no added line starting with \<^verbatim>\<open>++ \<close>, the section
  found under a path parses to exactly the hunks of that file, and no other path has a section.
\<close>

theorem split_diff_roundtrip:
  assumes "plain_diff files" and "lines diff = concat (map file_diff files)"
  shows "map_option parse_hunks (split_diff_by_file diff q) = hunks_by_file files q"
  using assms by (rule split_diff_printed)

text \<open>The diff of the pipeline's own tests, in its printed parts.\<close>

definition ctx_line :: "string \<Rightarrow> PrintedLine" where
  "ctx_line t = Line \<lparr>kind = Context, content = lit t\<rparr>"

definition add_line :: "string \<Rightarrow> PrintedLine" where
  "add_line t = Line \<lparr>kind = Added, content = lit t\<rparr>"

definition demo_hunk_a :: PrintedHunk where
  "demo_hunk_a = \<lparr>old_range = (5, Some 4), new_range = (5, Some 5), heading = lit '' fn a() {'', hunk_body =
     [ctx_line ''    let x = 1;'', ctx_line ''    let y = 2;'', add_line ''    let z = dangerous(x, y);'',
      ctx_line ''    done();'', ctx_line ''}'']\<rparr>"

definition demo_hunk_b :: PrintedHunk where
  "demo_hunk_b = \<lparr>old_range = (20, Some 3), new_range = (20, Some 4), heading = lit '' fn b() {'', hunk_body =
     [ctx_line ''    setup();'', add_line ''    let secret = read_env();'', ctx_line ''    teardown();'']\<rparr>"

definition demo_file_a :: PrintedFile where
  "demo_file_a = \<lparr>git_line = lit ''a/src/a.rs b/src/a.rs'', header_lines =
     [lit ''index 1111111..2222222 100644'', lit ''--- a/src/a.rs''],
     new_side = Some (lit ''src/a.rs'', [demo_hunk_a])\<rparr>"

definition demo_file_b :: PrintedFile where
  "demo_file_b = \<lparr>git_line = lit ''a/src/b.rs b/src/b.rs'', header_lines =
     [lit ''index 3333333..4444444 100644'', lit ''--- a/src/b.rs''],
     new_side = Some (lit ''src/b.rs'', [demo_hunk_b])\<rparr>"

definition multi_file_diff :: ustr where
  "multi_file_diff = str_join [newline] (map lit
     [''diff --git a/src/a.rs b/src/a.rs'', ''index 1111111..2222222 100644'', ''--- a/src/a.rs'',
      ''+++ b/src/a.rs'', ''@@ -5,4 +5,5 @@ fn a() {'', ''     let x = 1;'', ''     let y = 2;'',
      ''+    let z = dangerous(x, y);'', ''     done();'', '' }'',
      ''diff --git a/src/b.rs b/src/b.rs'', ''index 3333333..4444444 100644'', ''--- a/src/b.rs'',
      ''+++ b/src/b.rs'', ''@@ -20,3 +20,4 @@ fn b() {'', ''     setup();'',
      ''+    let secret = read_env();'', ''     teardown();'', ''''])"

lemma multi_file_diff_lines: "lines multi_file_diff = concat (map file_diff [demo_file_a, demo_file_b])"
  by code_simp

lemma demo_hunks_plain: "plain_hunk demo_hunk_a" "plain_hunk demo_hunk_b" "plain_hunk demo_printed"
  by (auto simp: plain_hunk_def wf_hunk_def demo_hunk_a_def demo_hunk_b_def demo_printed_def ctx_line_def add_line_def
      one_line_def lit_def newline_def carriage_return_def starts_with_def)

lemma demo_paths_plain: "plain_path (lit ''src/a.rs'')" "plain_path (lit ''src/b.rs'')"
  by (simp_all add: plain_path_def one_line_def lit_def newline_def carriage_return_def trim_def trim_start_def
      trim_end_def is_whitespace_def)

lemma demo_diff_plain: "plain_diff [demo_file_a, demo_file_b]"
proof -
  have "list_all plain_line (header_lines demo_file_a)" "list_all plain_line (header_lines demo_file_b)"
    "one_line (git_line demo_file_a)" "one_line (git_line demo_file_b)"
    by (simp_all add: demo_file_a_def demo_file_b_def plain_line_def one_line_def lit_def newline_def
        carriage_return_def new_side_path_def strip_prefix_def starts_with_def)
  then have "plain_file demo_file_a" "plain_file demo_file_b"
    by (simp_all add: plain_file_def demo_file_a_def demo_file_b_def demo_hunks_plain demo_paths_plain)
  moreover have "distinct (map fst (new_sides [demo_file_a, demo_file_b]))" by code_simp
  ultimately show ?thesis by (simp add: plain_diff_def)
qed

theorem split_diff_roundtrip_witness:
  "map_option parse_hunks (split_diff_by_file multi_file_diff (lit ''src/b.rs'')) = Some [hunk_meant demo_hunk_b]"
proof -
  have "hunks_by_file [demo_file_a, demo_file_b] (lit ''src/b.rs'') = Some [hunk_meant demo_hunk_b]" by code_simp
  then show ?thesis
    using split_diff_roundtrip [OF demo_diff_plain multi_file_diff_lines, of "lit ''src/b.rs''"] by simp
qed

text \<open>
  An added line that starts with \<^verbatim>\<open>++ \<close> is taken for a file header: in a diff of one file whose hunk
  adds such a line, the hunk that git printed for \<^verbatim>\<open>a.rs\<close> is filed under the text of that line, and
  \<^verbatim>\<open>a.rs\<close> itself has no section.
\<close>

definition plus_line_diff :: ustr where
  "plus_line_diff = unlines (file_diff \<lparr>git_line = lit ''a/a.rs b/a.rs'', header_lines = [lit ''--- a/a.rs''],
     new_side = Some (lit ''a.rs'', [\<lparr>old_range = (0, Some 0), new_range = (1, None), heading = [],
       hunk_body = [add_line ''++ x'']\<rparr>])\<rparr>)"

theorem added_plus_line_hijacks_section:
  "split_diff_by_file plus_line_diff (lit ''a.rs'') = None
   \<and> split_diff_by_file plus_line_diff (lit ''x'') \<noteq> None"
  by code_simp

section \<open>Resolving the lines of issues\<close>

lemma resolve_line_frame [simp]: "(resolve_line sections snip issue)\<lparr>issue_line := l\<rparr> = issue\<lparr>issue_line := l\<rparr>"
  by (auto simp: resolve_line_def Let_def split: option.split)

lemma apply_hunk_line_resolution_nth:
  assumes "k < length issues"
  shows "apply_hunk_line_resolution issues snippets diff ! k = resolve_line (split_diff_by_file diff)
    (if k < length snippets then snippets ! k else None) (issues ! k)"
  using assms by (simp add: apply_hunk_line_resolution_def)

lemma length_apply_hunk_line_resolution [simp]:
  "length (apply_hunk_line_resolution issues snippets diff) = length issues"
  by (simp add: apply_hunk_line_resolution_def)

lemma apply_hunk_line_resolution_frame:
  "map (\<lambda>i. i\<lparr>issue_line := l\<rparr>) (apply_hunk_line_resolution issues snippets diff) = map (\<lambda>i. i\<lparr>issue_line := l\<rparr>) issues"
  by (rule nth_equalityI) (simp_all add: apply_hunk_line_resolution_nth)

text \<open>
  The snap can put an old-file number on an issue that the reader takes for a new-file line: a
  snippet that only occurs among the deleted lines is given its line in the old file.
\<close>

theorem deleted_snippet_gets_old_line:
  "map issue_line (apply_hunk_line_resolution
     [(demo_issue (lit ''m''))\<lparr>issue_file := Some (lit ''a.rs'')\<rparr>] [Some (lit ''a();'')]
     (unlines (section_text (lit ''a.rs'') [demo_printed]))) = [Some 11]
   \<and> list_all (\<lambda>l. line_num l \<noteq> 11) (extract_side_lines demo_hunk True)"
  by code_simp

end
