(* ===== verification/Privacy.thy ===== *)
theory Privacy
  imports Prelude
begin

text \<open>
  \<^verbatim>\<open>crates/difflore-core/src/observability/privacy.rs\<close>: the redaction of secrets in drafted rule text
  (\<^verbatim>\<open>redact_secrets\<close> with its matchers) and the removal of regions that the author tagged as private
  (\<^verbatim>\<open>strip_private_tagged_regions\<close>). Positions are character indices; the tagged regions use byte offsets
  in the source, which are the same cuts because lower-casing keeps every character in its place.
\<close>

section \<open>Characters and runs\<close>

definition PRIVATE_REDACTION :: ustr where
  "PRIVATE_REDACTION = lit ''[redacted private content]''"

definition SECRET_REDACTION_PLACEHOLDER :: ustr where
  "SECRET_REDACTION_PLACEHOLDER = 8249 # lit ''redacted-secret'' @ [8250]"

definition is_token_char :: "uchar \<Rightarrow> bool" where
  "is_token_char c \<longleftrightarrow> is_ascii_alphanumeric c \<or> c \<in> set (lit ''_.~+/=-'')"

definition is_word_char :: "uchar \<Rightarrow> bool" where
  "is_word_char c \<longleftrightarrow> is_ascii_alphanumeric c \<or> c = ch CHR ''_''"

definition at_word_boundary :: "ustr \<Rightarrow> nat \<Rightarrow> bool" where
  "at_word_boundary chars i \<longleftrightarrow> i = 0 \<or> \<not> is_word_char (chars ! (i - 1))"

text \<open>\<^verbatim>\<open>while end < chars.len() && pred(chars[end]) { end += 1 }\<close>.\<close>

definition run_end :: "(uchar \<Rightarrow> bool) \<Rightarrow> ustr \<Rightarrow> nat \<Rightarrow> nat" where
  "run_end p chars start = start + length (takeWhile p (drop start chars))"

definition secret_token_len :: "ustr \<Rightarrow> nat \<Rightarrow> nat" where
  "secret_token_len chars start = run_end is_token_char chars start - start"

definition starts_with_chars :: "ustr \<Rightarrow> nat \<Rightarrow> ustr \<Rightarrow> bool" where
  "starts_with_chars chars start p \<longleftrightarrow> starts_with (drop start chars) p"

definition starts_with_chars_ci :: "ustr \<Rightarrow> nat \<Rightarrow> ustr \<Rightarrow> bool" where
  "starts_with_chars_ci chars start p \<longleftrightarrow>
     start + length p \<le> length chars
     \<and> list_all (\<lambda>k. eq_ignore_ascii_case (chars ! (start + k)) (p ! k)) [0..<length p]"

text \<open>\<^verbatim>\<open>chars.get(i)\<close> is one of the given characters.\<close>

definition char_among :: "ustr \<Rightarrow> nat \<Rightarrow> ustr \<Rightarrow> bool" where
  "char_among chars i cs \<longleftrightarrow> i < length chars \<and> chars ! i \<in> set cs"

section \<open>Matchers\<close>

definition match_prefix_run :: "ustr \<Rightarrow> nat \<Rightarrow> nat \<Rightarrow> (uchar \<Rightarrow> bool) \<Rightarrow> nat option" where
  "match_prefix_run chars body_start least p =
     (let e = run_end p chars body_start in
      if e - body_start < least then None
      else if e < length chars \<and> is_word_char (chars ! e) then None
      else Some e)"

definition jwt_segment :: "ustr \<Rightarrow> nat \<Rightarrow> nat option" where
  "jwt_segment chars start =
     (let e = run_end (\<lambda>c. is_word_char c \<or> c = ch CHR ''-'') chars start in
      if e - start \<ge> 10 then Some e else None)"

definition match_jwt :: "ustr \<Rightarrow> nat \<Rightarrow> nat option" where
  "match_jwt chars start =
     Option.bind (jwt_segment chars start) (\<lambda>s1.
     if \<not> char_among chars s1 (lit ''.'') then None else
     Option.bind (jwt_segment chars (s1 + 1)) (\<lambda>s2.
     if \<not> char_among chars s2 (lit ''.'') then None else
     Option.bind (jwt_segment chars (s2 + 1)) (\<lambda>s3.
     if s3 < length chars \<and> is_word_char (chars ! s3) then None else Some s3)))"

text \<open>The first arm that matches; each arm falls through when its run is too short.\<close>

fun first_some :: "'a option list \<Rightarrow> 'a option" where
  "first_some [] = None"
| "first_some (Some x # _) = Some x"
| "first_some (None # xs) = first_some xs"

definition match_known_prefix_secret :: "ustr \<Rightarrow> nat \<Rightarrow> nat option" where
  "match_known_prefix_secret chars start = first_some
     [(if starts_with_chars chars start (lit ''gh'') \<and> char_among chars (start + 2) (lit ''opsu'')
          \<and> char_among chars (start + 3) (lit ''_'')
       then match_prefix_run chars (start + 4) 20 is_ascii_alphanumeric else None),
      (if starts_with_chars chars start (lit ''github_pat_'')
       then match_prefix_run chars (start + 11) 20 (\<lambda>c. is_ascii_alphanumeric c \<or> c = ch CHR ''_'') else None),
      (if starts_with_chars chars start (lit ''sk-'')
       then match_prefix_run chars (start + 3) 20 is_ascii_alphanumeric else None),
      (if starts_with_chars chars start (lit ''xox'') \<and> char_among chars (start + 3) (lit ''baprs'')
          \<and> char_among chars (start + 4) (lit ''-'')
       then match_prefix_run chars (start + 5) 20 (\<lambda>c. is_ascii_alphanumeric c \<or> c = ch CHR ''-'') else None),
      (if starts_with_chars chars start (lit ''AKIA'')
       then match_prefix_run chars (start + 4) 16 (\<lambda>c. is_ascii_uppercase c \<or> is_ascii_digit c) else None),
      (if starts_with_chars chars start (lit ''eyJ'') then match_jwt chars start else None)]"

definition match_bearer_secret :: "ustr \<Rightarrow> nat \<Rightarrow> (nat \<times> nat) option" where
  "match_bearer_secret chars start =
     (if \<not> starts_with_chars chars start (lit ''Bearer'') then None
      else let ws_start = start + 6; j = run_end is_whitespace chars ws_start in
        if j = ws_start then None
        else let n = secret_token_len chars j in if n < 12 then None else Some (j, j + n))"

record NamedAssignMatch =
  value_start :: nat
  value_end :: nat
  open_quote :: "uchar option"
  match_end :: nat

definition KEYWORDS :: "ustr list" where
  "KEYWORDS = map lit [''api_key'', ''apikey'', ''api-key'', ''access_token'', ''accesstoken'', ''access-token'',
     ''refresh_token'', ''refreshtoken'', ''refresh-token'', ''id_token'', ''idtoken'', ''id-token'',
     ''auth_token'', ''authtoken'', ''auth-token'', ''bearer_token'', ''bearertoken'', ''bearer-token'',
     ''client_secret'', ''clientsecret'', ''client-secret'', ''webhook_secret'', ''webhooksecret'',
     ''webhook-secret'', ''secret'', ''password'', ''passwd'', ''pwd'']"

definition quote_chars :: ustr where
  "quote_chars = [34, 39, 96]"

text \<open>The length of the longest keyword at a position.\<close>

definition keyword_len :: "ustr \<Rightarrow> nat \<Rightarrow> nat option" where
  "keyword_len chars start =
     (case map length (filter (starts_with_chars_ci chars start) KEYWORDS) of
        [] \<Rightarrow> None
      | n # ns \<Rightarrow> Some (fold max ns n))"

definition match_named_secret_assign :: "ustr \<Rightarrow> nat \<Rightarrow> NamedAssignMatch option" where
  "match_named_secret_assign chars start =
     Option.bind (keyword_len chars start) (\<lambda>kw_len.
       let j0 = start + kw_len in
       if j0 < length chars \<and> is_word_char (chars ! j0) then None
       else let j1 = run_end is_whitespace chars j0 in
         if \<not> char_among chars j1 (lit '':='') then None
         else let j2 = run_end is_whitespace chars (j1 + 1);
                  quoted = char_among chars j2 quote_chars;
                  vs = (if quoted then j2 + 1 else j2);
                  n = secret_token_len chars vs in
           if n < 12 then None
           else Some \<lparr>value_start = vs, value_end = vs + n,
                  open_quote = (if quoted then Some (chars ! j2) else None),
                  match_end = (if char_among chars (vs + n) quote_chars then vs + n + 1 else vs + n)\<rparr>)"

section \<open>References and entropy\<close>

definition ident_start :: "uchar \<Rightarrow> bool" where
  "ident_start c \<longleftrightarrow> is_ascii_alphabetic c \<or> c = ch CHR ''_'' \<or> c = ch CHR ''$''"

fun is_js_identifier :: "ustr \<Rightarrow> bool" where
  "is_js_identifier [] = False"
| "is_js_identifier (c # cs) \<longleftrightarrow> ident_start c
     \<and> list_all (\<lambda>x. is_ascii_alphanumeric x \<or> x = ch CHR ''_'' \<or> x = ch CHR ''$'') cs"

definition is_dotted_member_access :: "ustr \<Rightarrow> bool" where
  "is_dotted_member_access value \<longleftrightarrow>
     ch CHR ''.'' \<in> set value
     \<and> list_all is_js_identifier (split_on (\<lambda>c. c = ch CHR ''.'') value)
     \<and> length (split_on (\<lambda>c. c = ch CHR ''.'') value) \<ge> 2"

fun word_tail :: "bool \<Rightarrow> ustr \<Rightarrow> bool" where
  "word_tail seen_digit [] = True"
| "word_tail seen_digit (c # cs) =
     (if is_ascii_digit c then word_tail True cs
      else if seen_digit then False
      else if \<not> ident_start c then False
      else word_tail seen_digit cs)"

fun is_word_identifier :: "ustr \<Rightarrow> bool" where
  "is_word_identifier [] = False"
| "is_word_identifier (c # cs) \<longleftrightarrow> ident_start c \<and> word_tail False cs"

definition looks_like_code_reference :: "ustr \<Rightarrow> bool" where
  "looks_like_code_reference value \<longleftrightarrow>
     list_ex (\<lambda>c. c \<in> set (lit ''()[]'')) value \<or> is_dotted_member_access value \<or> is_word_identifier value"

definition has_secret_entropy :: "ustr \<Rightarrow> bool" where
  "has_secret_entropy value \<longleftrightarrow>
     (list_ex is_ascii_alphabetic value \<and> list_ex is_ascii_digit value)
     \<or> (list_ex (\<lambda>c. c \<in> set (lit ''+/='')) value \<and> length value \<ge> 16)
     \<or> length value \<ge> 40"

section \<open>The redaction\<close>

definition slice :: "ustr \<Rightarrow> nat \<Rightarrow> nat \<Rightarrow> ustr" where
  "slice chars a b = take (b - a) (drop a chars)"

text \<open>One turn of the loop: where the scan goes on, and what is appended to the output.\<close>

definition keep_char :: "ustr \<Rightarrow> nat \<Rightarrow> nat \<times> ustr" where
  "keep_char chars i = (i + 1, [chars ! i])"

definition redact_named :: "ustr \<Rightarrow> nat \<Rightarrow> nat \<times> ustr" where
  "redact_named chars i =
     (case match_named_secret_assign chars i of
        None \<Rightarrow> keep_char chars i
      | Some m \<Rightarrow>
          (let v = slice chars (value_start m) (value_end m) in
           if \<not> looks_like_code_reference v \<and> has_secret_entropy v
           then (match_end m, slice chars i (value_start m) @ SECRET_REDACTION_PLACEHOLDER
                   @ (case open_quote m of None \<Rightarrow> [] | Some q \<Rightarrow> [q]))
           else keep_char chars i))"

definition redact_step :: "ustr \<Rightarrow> nat \<Rightarrow> nat \<times> ustr" where
  "redact_step chars i =
     (if at_word_boundary chars i then
        (case match_known_prefix_secret chars i of
           Some e \<Rightarrow> (e, SECRET_REDACTION_PLACEHOLDER)
         | None \<Rightarrow>
             (case match_bearer_secret chars i of
                Some (prefix_end, token_end) \<Rightarrow>
                  if \<not> looks_like_code_reference (slice chars prefix_end token_end)
                  then (token_end, slice chars i prefix_end @ SECRET_REDACTION_PLACEHOLDER)
                  else redact_named chars i
              | None \<Rightarrow> redact_named chars i))
      else keep_char chars i)"

subsection \<open>The scan advances\<close>

lemma run_end_ge: "start \<le> run_end p chars start"
  by (simp add: run_end_def)

lemma run_end_le: "start \<le> length chars \<Longrightarrow> run_end p chars start \<le> length chars"
  using length_takeWhile_le [of p "drop start chars"] by (simp add: run_end_def)

lemma run_end_in: "start \<le> k \<Longrightarrow> k < run_end p chars start \<Longrightarrow> p (chars ! k)"
proof -
  assume k: "start \<le> k" "k < run_end p chars start"
  let ?w = "takeWhile p (drop start chars)"
  have lt: "k - start < length ?w" using k by (simp add: run_end_def)
  then have "?w ! (k - start) = chars ! k"
    using k(1) length_takeWhile_le [of p "drop start chars"] by (simp add: takeWhile_nth)
  with nth_mem [OF lt] set_takeWhileD show ?thesis by metis
qed

lemma run_end_stop: "run_end p chars start < length chars \<Longrightarrow> \<not> p (chars ! run_end p chars start)"
proof -
  assume lt: "run_end p chars start < length chars"
  let ?w = "takeWhile p (drop start chars)"
  have "length ?w < length (drop start chars)" using lt by (simp add: run_end_def)
  from nth_length_takeWhile [OF this] lt show ?thesis by (simp add: run_end_def)
qed

text \<open>The characters from one position to another are all token characters.\<close>

definition token_span :: "ustr \<Rightarrow> nat \<Rightarrow> nat \<Rightarrow> bool" where
  "token_span chars i e \<longleftrightarrow> i \<le> e \<and> e \<le> length chars \<and> (\<forall>k \<in> {i..<e}. is_token_char (chars ! k))"

definition at_stop :: "ustr \<Rightarrow> nat \<Rightarrow> bool" where
  "at_stop chars e \<longleftrightarrow> e \<le> length chars \<and> (e < length chars \<longrightarrow> \<not> is_word_char (chars ! e))"

lemma word_char_token: "is_word_char c \<Longrightarrow> is_token_char c"
  by (auto simp: is_word_char_def is_token_char_def lit_def)

lemma token_span_append: "token_span chars i b \<Longrightarrow> token_span chars b e \<Longrightarrow> token_span chars i e"
  by (auto simp: token_span_def)

lemma token_span_prefix:
  assumes "starts_with_chars chars i p" "p \<noteq> []" "list_all is_token_char p"
  shows "token_span chars i (i + length p)"
proof -
  have take: "take (length p) (drop i chars) = p" using assms(1) by (simp add: starts_with_chars_def starts_with_def)
  have len: "i + length p \<le> length chars"
    using arg_cong [OF take, of length] assms(2) by (cases "i \<le> length chars") auto
  have "is_token_char (chars ! k)" if "k \<in> {i..<i + length p}" for k
  proof -
    have "chars ! k = p ! (k - i)"
      using arg_cong [OF take, of "\<lambda>xs. xs ! (k - i)"] that len by auto
    moreover have "p ! (k - i) \<in> set p" using that by (intro nth_mem) auto
    ultimately show ?thesis using assms(3) by (simp add: list_all_iff)
  qed
  with len show ?thesis by (simp add: token_span_def)
qed

lemma token_span_among: "char_among chars b cs \<Longrightarrow> list_all is_token_char cs \<Longrightarrow> token_span chars b (b + 1)"
  by (auto simp: token_span_def char_among_def list_all_iff)

lemma token_span_run:
  assumes "\<And>c. p c \<Longrightarrow> is_token_char c" "b \<le> length chars"
  shows "token_span chars b (run_end p chars b)"
  using assms run_end_in [of b _ p chars] by (auto simp: token_span_def run_end_ge run_end_le)

lemma token_span_prefix_run:
  assumes "token_span chars i b" "match_prefix_run chars b n p = Some e" "\<And>c. p c \<Longrightarrow> is_token_char c"
  shows "token_span chars i e \<and> b + n \<le> e \<and> at_stop chars e"
proof -
  have b: "b \<le> length chars" using assms(1) by (simp add: token_span_def)
  have e: "e = run_end p chars b" "n \<le> e - b" "\<not> (e < length chars \<and> is_word_char (chars ! e))"
    using assms(2) by (auto simp: match_prefix_run_def Let_def split: if_splits)
  have run: "token_span chars b e" unfolding e(1) using assms(3) b by (rule token_span_run)
  then have "b \<le> e" "e \<le> length chars" by (simp_all add: token_span_def)
  with e(2,3) token_span_append [OF assms(1) run] show ?thesis by (auto simp: at_stop_def)
qed

lemma token_span_jwt_segment:
  assumes "token_span chars i b" "jwt_segment chars b = Some e"
  shows "token_span chars i e \<and> b + 10 \<le> e"
proof -
  let ?p = "\<lambda>c. is_word_char c \<or> c = ch CHR ''-''"
  have b: "b \<le> length chars" using assms(1) by (simp add: token_span_def)
  have e: "e = run_end ?p chars b" "10 \<le> e - b"
    using assms(2) by (auto simp: jwt_segment_def Let_def split: if_splits)
  have "is_token_char c" if "?p c" for c
    using that word_char_token by (auto simp: is_token_char_def lit_def)
  then have "token_span chars b e" unfolding e(1) using b by (rule token_span_run)
  from token_span_append [OF assms(1) this] e(2) show ?thesis by simp
qed

lemma match_jwt_span:
  assumes "match_jwt chars i = Some e" "i \<le> length chars"
  shows "token_span chars i e \<and> i + 20 \<le> e \<and> at_stop chars e"
proof -
  obtain s1 s2 where s: "jwt_segment chars i = Some s1" "char_among chars s1 (lit ''.'')"
    "jwt_segment chars (s1 + 1) = Some s2" "char_among chars s2 (lit ''.'')"
    "jwt_segment chars (s2 + 1) = Some e" "\<not> (e < length chars \<and> is_word_char (chars ! e))"
    using assms(1) by (auto simp: match_jwt_def bind_eq_Some_conv split: if_splits)
  have dot: "list_all is_token_char (lit ''.'')" by code_simp
  have "token_span chars i i" using assms(2) by (simp add: token_span_def)
  note 1 = token_span_jwt_segment [OF this s(1)]
  note 2 = token_span_jwt_segment [OF token_span_append [OF conjunct1 [OF 1] token_span_among [OF s(2) dot]] s(3)]
  note 3 = token_span_jwt_segment [OF token_span_append [OF conjunct1 [OF 2] token_span_among [OF s(4) dot]] s(5)]
  show ?thesis using 1 2 3 s(6) by (auto simp: at_stop_def token_span_def)
qed

lemma first_some_mem: "first_some xs = Some x \<Longrightarrow> Some x \<in> set xs"
  by (induction xs rule: first_some.induct) auto

lemma token_classes:
  "is_ascii_alphanumeric c \<Longrightarrow> is_token_char c"
  "is_ascii_alphanumeric c \<or> c = ch CHR ''_'' \<Longrightarrow> is_token_char c"
  "is_ascii_alphanumeric c \<or> c = ch CHR ''-'' \<Longrightarrow> is_token_char c"
  "is_ascii_uppercase c \<or> is_ascii_digit c \<Longrightarrow> is_token_char c"
  by (auto simp: is_token_char_def is_ascii_alphanumeric_def is_ascii_alphabetic_def lit_def)

lemma token_span_prefix_among:
  assumes "starts_with_chars chars i p" "char_among chars (i + n) cs" "char_among chars (i + n + 1) ds"
    "length p = n" "n > 0" "list_all is_token_char (p @ cs @ ds)"
  shows "token_span chars i (i + n + 2)"
proof -
  have "token_span chars i (i + n)" using token_span_prefix [OF assms(1)] assms(4,5,6) by auto
  moreover have "token_span chars (i + n) (i + n + 1)" by (rule token_span_among [OF assms(2)]) (use assms(6) in simp)
  moreover have "token_span chars (i + n + 1) (i + n + 1 + 1)"
    by (rule token_span_among [OF assms(3)]) (use assms(6) in simp)
  ultimately have "token_span chars i (i + n + 1 + 1)" by (blast intro: token_span_append)
  then show ?thesis by (simp add: eval_nat_numeral)
qed

lemma known_arms:
  assumes "match_known_prefix_secret chars i = Some e"
  obtains (gh) "starts_with_chars chars i (lit ''gh'')" "char_among chars (i + 2) (lit ''opsu'')"
      "char_among chars (i + 3) (lit ''_'')" "match_prefix_run chars (i + 4) 20 is_ascii_alphanumeric = Some e"
    | (pat) "starts_with_chars chars i (lit ''github_pat_'')"
      "match_prefix_run chars (i + 11) 20 (\<lambda>c. is_ascii_alphanumeric c \<or> c = ch CHR ''_'') = Some e"
    | (sk) "starts_with_chars chars i (lit ''sk-'')" "match_prefix_run chars (i + 3) 20 is_ascii_alphanumeric = Some e"
    | (xox) "starts_with_chars chars i (lit ''xox'')" "char_among chars (i + 3) (lit ''baprs'')"
      "char_among chars (i + 4) (lit ''-'')"
      "match_prefix_run chars (i + 5) 20 (\<lambda>c. is_ascii_alphanumeric c \<or> c = ch CHR ''-'') = Some e"
    | (akia) "starts_with_chars chars i (lit ''AKIA'')"
      "match_prefix_run chars (i + 4) 16 (\<lambda>c. is_ascii_uppercase c \<or> is_ascii_digit c) = Some e"
    | (jwt) "match_jwt chars i = Some e"
  using first_some_mem [OF assms [unfolded match_known_prefix_secret_def]]
  unfolding list.set insert_iff empty_iff
  by (elim disjE) (metis option.distinct(1))+

lemma match_known_span:
  assumes "match_known_prefix_secret chars i = Some e" "i \<le> length chars"
  shows "token_span chars i e \<and> i + 20 \<le> e \<and> at_stop chars e"
  using assms(1)
proof (cases rule: known_arms)
  case gh
  have "token_span chars i (i + 2 + 2)"
  proof (rule token_span_prefix_among [OF gh(1)])
    show "char_among chars (i + 2 + 1) (lit ''_'')" using gh(3) by (simp add: eval_nat_numeral)
    show "list_all is_token_char (lit ''gh'' @ lit ''opsu'' @ lit ''_'')" by code_simp
  qed (use gh(2) in \<open>simp_all add: lit_def\<close>)
  then have "token_span chars i (i + 4)" by (simp add: eval_nat_numeral)
  from token_span_prefix_run [OF this gh(4) token_classes(1)] show ?thesis by simp
next
  case pat
  have "token_span chars i (i + length (lit ''github_pat_''))" by (rule token_span_prefix [OF pat(1)]) code_simp+
  then have "token_span chars i (i + 11)" by (simp add: lit_def eval_nat_numeral)
  from token_span_prefix_run [OF this pat(2) token_classes(2)] show ?thesis by simp
next
  case sk
  have "token_span chars i (i + length (lit ''sk-''))" by (rule token_span_prefix [OF sk(1)]) code_simp+
  then have "token_span chars i (i + 3)" by (simp add: lit_def eval_nat_numeral)
  from token_span_prefix_run [OF this sk(2) token_classes(1)] show ?thesis by simp
next
  case xox
  have "token_span chars i (i + 3 + 2)"
  proof (rule token_span_prefix_among [OF xox(1)])
    show "char_among chars (i + 3 + 1) (lit ''-'')" using xox(3) by (simp add: eval_nat_numeral)
    show "list_all is_token_char (lit ''xox'' @ lit ''baprs'' @ lit ''-'')" by code_simp
  qed (use xox(2) in \<open>simp_all add: lit_def\<close>)
  then have "token_span chars i (i + 5)" by (simp add: eval_nat_numeral)
  from token_span_prefix_run [OF this xox(4) token_classes(3)] show ?thesis by simp
next
  case akia
  have "token_span chars i (i + length (lit ''AKIA''))" by (rule token_span_prefix [OF akia(1)]) code_simp+
  then have "token_span chars i (i + 4)" by (simp add: lit_def eval_nat_numeral)
  from token_span_prefix_run [OF this akia(2) token_classes(4)] show ?thesis by simp
next
  case jwt
  with assms(2) show ?thesis by (intro match_jwt_span)
qed

lemma secret_token_span: "b \<le> length chars \<Longrightarrow> token_span chars b (b + secret_token_len chars b)"
  using token_span_run [of is_token_char b chars] run_end_ge [of b is_token_char chars]
  by (simp add: secret_token_len_def)

lemma secret_token_stop: "b \<le> length chars \<Longrightarrow> at_stop chars (b + secret_token_len chars b)"
  using run_end_ge [of b is_token_char chars] run_end_le [of b chars is_token_char]
    run_end_stop [of is_token_char chars b] word_char_token
  by (auto simp: at_stop_def secret_token_len_def)

lemma secret_token_len_ge: "token_span chars b e \<Longrightarrow> e \<le> b + secret_token_len chars b"
proof (rule ccontr)
  assume span: "token_span chars b e" and "\<not> e \<le> b + secret_token_len chars b"
  then have "run_end is_token_char chars b < e"
    using run_end_ge [of b is_token_char chars] by (simp add: secret_token_len_def)
  then show False
    using span run_end_stop [of is_token_char chars b] run_end_ge [of b is_token_char chars]
    by (auto simp: token_span_def)
qed

lemma match_bearer_span:
  assumes "match_bearer_secret chars i = Some (a, b)"
  shows "i + 6 < a" "\<forall>k \<in> {i + 6..<a}. is_whitespace (chars ! k)" "starts_with_chars chars i (lit ''Bearer'')"
    "token_span chars a b" "a + 12 \<le> b" "at_stop chars b"
proof -
  have m: "starts_with_chars chars i (lit ''Bearer'')" "a = run_end is_whitespace chars (i + 6)" "a \<noteq> i + 6"
    "b = a + secret_token_len chars a" "12 \<le> secret_token_len chars a"
    using assms by (auto simp: match_bearer_secret_def Let_def split: if_splits)
  have "take (length (lit ''Bearer'')) (drop i chars) = lit ''Bearer''"
    using m(1) by (simp add: starts_with_chars_def starts_with_def)
  then have "length (take (length (lit ''Bearer'')) (drop i chars)) = 6" by (simp add: lit_def)
  then have "i + 6 \<le> length chars" by (simp add: lit_def)
  then have a: "a \<le> length chars" unfolding m(2) by (rule run_end_le)
  show "i + 6 < a" using m(2,3) run_end_ge [of "i + 6" is_whitespace chars] by simp
  show "\<forall>k \<in> {i + 6..<a}. is_whitespace (chars ! k)" using m(2) run_end_in [of "i + 6" _ is_whitespace chars] by auto
  show "starts_with_chars chars i (lit ''Bearer'')" "a + 12 \<le> b" using m by simp_all
  show "token_span chars a b" "at_stop chars b" using secret_token_span [OF a] secret_token_stop [OF a] m(4) by simp_all
qed

lemma keyword_len_mem: "keyword_len chars i = Some n \<Longrightarrow> \<exists>kw \<in> set KEYWORDS. starts_with_chars_ci chars i kw \<and> length kw = n"
proof -
  assume n: "keyword_len chars i = Some n"
  let ?ns = "map length (filter (starts_with_chars_ci chars i) KEYWORDS)"
  obtain m ms where ms: "?ns = m # ms" and "n = fold max ms m"
    using n by (auto simp: keyword_len_def split: list.splits)
  then have "n = Max (set ?ns)" by (simp only: ms Max.set_eq_fold)
  then have "n \<in> set ?ns" using ms by (metis Max_in List.finite_set list.distinct(1) set_empty)
  then show ?thesis by auto
qed

lemma match_named_span:
  assumes "match_named_secret_assign chars i = Some m"
  shows "i + 3 < value_start m" "token_span chars (value_start m) (value_end m)" "value_start m + 12 \<le> value_end m"
    "at_stop chars (value_end m)" "value_end m \<le> match_end m" "match_end m \<le> length chars"
    "match_end m \<noteq> value_end m \<longrightarrow> match_end m = value_end m + 1 \<and> chars ! value_end m \<in> set quote_chars"
    "\<exists>kw \<in> set KEYWORDS. starts_with_chars_ci chars i kw \<and> i + length kw < value_start m
       \<and> (\<forall>k \<in> {i + length kw..<value_start m}. \<not> is_word_char (chars ! k))"
proof -
  obtain n where n: "keyword_len chars i = Some n"
    using assms by (auto simp: match_named_secret_assign_def bind_eq_Some_conv)
  from keyword_len_mem [OF this] obtain kw where kw: "kw \<in> set KEYWORDS" "starts_with_chars_ci chars i kw"
    "length kw = n" by blast
  let ?j1 = "run_end is_whitespace chars (i + n)"
  let ?j2 = "run_end is_whitespace chars (?j1 + 1)"
  let ?vs = "if char_among chars ?j2 quote_chars then ?j2 + 1 else ?j2"
  have m: "char_among chars ?j1 (lit '':='')" "value_start m = ?vs" "12 \<le> secret_token_len chars ?vs"
    "value_end m = ?vs + secret_token_len chars ?vs"
    "match_end m = (if char_among chars (value_end m) quote_chars then value_end m + 1 else value_end m)"
    using assms by (auto simp: match_named_secret_assign_def n Let_def split: if_splits)
  have "list_all (\<lambda>w. 3 \<le> length w) KEYWORDS" by code_simp
  then have n3: "3 \<le> n" using kw by (auto simp: list_all_iff)
  have len: "i + n \<le> length chars" using kw by (simp add: starts_with_chars_ci_def)
  have j1: "i + n \<le> ?j1" "?j1 < length chars" using m(1) run_end_ge by (auto simp: char_among_def)
  then have j2: "?j1 + 1 \<le> ?j2" "?j2 \<le> length chars" using run_end_ge run_end_le by (auto simp: Suc_le_eq)
  then have vs: "?vs \<le> length chars" "?j2 \<le> ?vs" by (auto simp: char_among_def)
  show "i + 3 < value_start m" using n3 j1 j2 vs(2) m(2) by linarith
  show "token_span chars (value_start m) (value_end m)" "at_stop chars (value_end m)"
    unfolding m(4) m(2) using secret_token_span [OF vs(1)] secret_token_stop [OF vs(1)] by auto
  then show "value_end m \<le> match_end m" "match_end m \<le> length chars"
    "match_end m \<noteq> value_end m \<longrightarrow> match_end m = value_end m + 1 \<and> chars ! value_end m \<in> set quote_chars"
    using m(5) by (auto simp: char_among_def token_span_def)
  show "value_start m + 12 \<le> value_end m" using m(2,3,4) by simp
  have ws: "is_whitespace c \<Longrightarrow> \<not> is_word_char c" for c
    by (auto simp: is_whitespace_def is_word_char_def ascii_class_defs)
  have "\<not> is_word_char (chars ! k)" if k: "i + n \<le> k" "k < value_start m" for k
  proof -
    from k(2) m(2) consider "k < ?j1" | "k = ?j1" | "?j1 < k" "k < ?j2" | "k = ?j2" "char_among chars ?j2 quote_chars"
      by (fastforce split: if_splits)
    then show ?thesis
    proof cases
      case 1
      with k(1) show ?thesis by (intro ws run_end_in)
    next
      case 2
      with m(1) show ?thesis by (auto simp: char_among_def lit_def is_word_char_def ascii_class_defs)
    next
      case 3
      then show ?thesis using run_end_in [of "?j1 + 1" k is_whitespace chars] by (intro ws) auto
    next
      case 4
      then show ?thesis by (auto simp: char_among_def quote_chars_def is_word_char_def ascii_class_defs)
    qed
  qed
  then show "\<exists>kw \<in> set KEYWORDS. starts_with_chars_ci chars i kw \<and> i + length kw < value_start m
       \<and> (\<forall>k \<in> {i + length kw..<value_start m}. \<not> is_word_char (chars ! k))"
    using kw j1 j2 vs(2) m(2) by (intro bexI [of _ kw]) (auto intro: less_le_trans)
qed

lemma redact_step_cases:
  assumes "redact_step chars i = (j, t)"
  obtains (keep) "j = i + 1" "t = [chars ! i]" "at_word_boundary chars i \<Longrightarrow> match_known_prefix_secret chars i = None"
    | (known) "match_known_prefix_secret chars i = Some j" "t = SECRET_REDACTION_PLACEHOLDER"
    | (bearer) a where "match_known_prefix_secret chars i = None" "match_bearer_secret chars i = Some (a, j)"
        "t = slice chars i a @ SECRET_REDACTION_PLACEHOLDER"
    | (named) m where "match_known_prefix_secret chars i = None" "match_named_secret_assign chars i = Some m"
        "j = match_end m" "t = slice chars i (value_start m) @ SECRET_REDACTION_PLACEHOLDER
           @ (case open_quote m of None \<Rightarrow> [] | Some q \<Rightarrow> [q])"
  using assms
  by (auto simp: redact_step_def redact_named_def keep_char_def Let_def split: if_splits option.splits prod.splits)

lemma redact_step_span:
  assumes "redact_step chars i = (j, t)" "i < length chars"
  shows "i < j" "j \<le> length chars"
proof -
  have "i < j \<and> j \<le> length chars"
    using assms(1)
  proof (cases rule: redact_step_cases)
    case keep
    with assms(2) show ?thesis by simp
  next
    case known
    from match_known_span [OF known(1)] assms(2) show ?thesis by (auto simp: token_span_def)
  next
    case bearer
    from match_bearer_span [OF bearer(2)] show ?thesis by (auto simp: token_span_def)
  next
    case named
    from match_named_span [OF named(2)] show ?thesis unfolding named(3) by auto
  qed
  then show "i < j" "j \<le> length chars" by simp_all
qed

text \<open>
  The loop. Every turn moves forward, which is what makes it end; the output is appended to on every
  turn and never read, so it is the concatenation of what the turns append.
\<close>

function redact_loop :: "ustr \<Rightarrow> nat \<Rightarrow> ustr" where
  "redact_loop chars i =
     (if i < length chars then (case redact_step chars i of (j, t) \<Rightarrow> t @ redact_loop chars j) else [])"
  by pat_completeness auto
termination
proof (relation "measure (\<lambda>(chars, i). length chars - i)")
  fix chars i j t
  assume "i < length chars" "(j, t) = redact_step chars i"
  then show "((chars, j), (chars, i)) \<in> measure (\<lambda>(chars, i). length chars - i)"
    using redact_step_span(1) [of chars i j t] by simp
qed simp

declare redact_loop.simps [simp del]

definition redact_secrets :: "ustr \<Rightarrow> ustr" where
  "redact_secrets text = (if text = [] then [] else redact_loop text 0)"

section \<open>What the redaction does to a text\<close>

text \<open>
  The texts that arise from one text by replacing pieces of it with the placeholder; a piece that opened
  with a quote is replaced together with its closing quote, and the quote is put back.
\<close>

inductive redaction :: "ustr \<Rightarrow> ustr \<Rightarrow> bool" where
  redaction_Nil: "redaction [] []"
| redaction_keep: "redaction s t \<Longrightarrow> redaction (c # s) (c # t)"
| redaction_replace: "redaction s t \<Longrightarrow> r \<noteq> [] \<Longrightarrow> set u \<subseteq> set quote_chars
    \<Longrightarrow> redaction (r @ s) (SECRET_REDACTION_PLACEHOLDER @ u @ t)"

lemma redaction_keep_all: "redaction s t \<Longrightarrow> redaction (r @ s) (r @ t)"
  by (induction r) (auto intro: redaction_keep)

lemma slice_drop: "i \<le> j \<Longrightarrow> slice chars i j @ drop j chars = drop i chars"
  by (simp add: slice_def) (metis append_take_drop_id drop_drop le_add_diff_inverse2)

lemma slice_split: "i \<le> j \<Longrightarrow> j \<le> k \<Longrightarrow> slice chars i k = slice chars i j @ slice chars j k"
proof -
  assume "i \<le> j" "j \<le> k"
  then have "take ((j - i) + (k - j)) (drop i chars) = take (j - i) (drop i chars) @ take (k - j) (drop (j - i) (drop i chars))"
    by (simp only: take_add)
  with \<open>i \<le> j\<close> \<open>j \<le> k\<close> show ?thesis by (simp add: slice_def)
qed

lemma slice_self [simp]: "slice chars i i = []"
  by (simp add: slice_def)

lemma slice_nonempty: "i < j \<Longrightarrow> j \<le> length chars \<Longrightarrow> slice chars i j \<noteq> []"
  by (simp add: slice_def)

lemma slice_Suc: "i < length chars \<Longrightarrow> slice chars i (i + 1) = [chars ! i]"
  by (simp add: slice_def take_Suc_conv_app_nth hd_drop_conv_nth take_Suc)

lemma open_quote_chars: "match_named_secret_assign chars i = Some m
    \<Longrightarrow> set (case open_quote m of None \<Rightarrow> [] | Some q \<Rightarrow> [q]) \<subseteq> set quote_chars"
  by (auto simp: match_named_secret_assign_def bind_eq_Some_conv Let_def char_among_def split: if_splits)

text \<open>What one turn appends: a piece of the input, and then either nothing or the placeholder for the rest.\<close>

lemma token_span_take: "token_span chars a b \<Longrightarrow> a + n \<le> b \<Longrightarrow> token_span chars a (a + n)"
  by (auto simp: token_span_def)

lemma redact_step_form:
  assumes "redact_step chars i = (j, t)" "i < length chars"
  obtains (keep) "j = i + 1" "t = slice chars i j" "at_word_boundary chars i \<Longrightarrow> match_known_prefix_secret chars i = None"
    | (hide) p u where "i \<le> p" "p + 12 \<le> j" "j \<le> length chars" "set u \<subseteq> set quote_chars"
        "token_span chars p (p + 12)" "t = slice chars i p @ SECRET_REDACTION_PLACEHOLDER @ u"
  using assms(1)
proof (cases rule: redact_step_cases)
  case keep
  with that(1) slice_Suc [OF assms(2)] show ?thesis by simp
next
  case known
  from match_known_span [OF known(1)] assms(2) that(2) [of i "[]"] token_span_take [of chars i j 12] known(2)
  show ?thesis by (auto simp: token_span_def)
next
  case (bearer a)
  from match_bearer_span(1,4,5) [OF bearer(2)] that(2) [of a "[]"] token_span_take [of chars a j 12] bearer(3)
  show ?thesis by (auto simp: token_span_def)
next
  case (named m)
  from match_named_span(1,3,5,6) [OF named(2)] open_quote_chars [OF named(2)]
    token_span_take [OF match_named_span(2,3) [OF named(2)]]
    that(2) [of "value_start m" "case open_quote m of None \<Rightarrow> [] | Some q \<Rightarrow> [q]"] named(3,4)
  show ?thesis by auto
qed

lemma redaction_loop: "i \<le> length chars \<Longrightarrow> redaction (drop i chars) (redact_loop chars i)"
proof (induction chars i rule: redact_loop.induct)
  case (1 chars i)
  show ?case
  proof (cases "i < length chars")
    case True
    obtain j t where st: "redact_step chars i = (j, t)" by fastforce
    have rest: "redaction (drop j chars) (redact_loop chars j)"
      using 1 True st redact_step_span(2) [OF st True] by auto
    have loop: "redact_loop chars i = t @ redact_loop chars j" using True st by (subst redact_loop.simps) simp
    from st True show ?thesis
    proof (cases rule: redact_step_form)
      case keep
      then show ?thesis unfolding loop using redaction_keep_all [OF rest, of "slice chars i j"] slice_drop [of i j chars] by simp
    next
      case (hide p u)
      have "redaction (slice chars i p @ slice chars p j @ drop j chars)
          (slice chars i p @ SECRET_REDACTION_PLACEHOLDER @ u @ redact_loop chars j)"
        using hide by (intro redaction_keep_all redaction_replace rest slice_nonempty) auto
      moreover have "slice chars i p @ slice chars p j @ drop j chars = drop i chars" using hide slice_drop by simp
      ultimately show ?thesis unfolding loop hide(6) by simp
    qed
  qed (use 1 in \<open>subst redact_loop.simps, simp add: redaction_Nil\<close>)
qed

subsection \<open>Tokens at a word boundary\<close>

text \<open>A run of word characters that starts at a boundary and that a matcher recognises.\<close>

definition recognised :: "ustr \<Rightarrow> nat \<Rightarrow> nat \<Rightarrow> bool" where
  "recognised chars i0 n \<longleftrightarrow> at_word_boundary chars i0 \<and> 20 \<le> n \<and> i0 + n \<le> length chars
     \<and> (\<forall>k \<in> {i0..<i0 + n}. is_word_char (chars ! k)) \<and> match_known_prefix_secret chars i0 \<noteq> None"

lemma recognised_stop: "recognised chars i0 n \<Longrightarrow> at_stop chars e \<Longrightarrow> i0 \<le> e \<Longrightarrow> i0 + n \<le> e"
  by (rule ccontr) (auto simp: recognised_def at_stop_def)

lemma bearer_before_token:
  assumes rec: "recognised chars i0 n" and "i < i0" "match_bearer_secret chars i = Some (a, j)"
  shows "a \<le> i0"
proof (rule ccontr)
  assume "\<not> a \<le> i0"
  note span = match_bearer_span [OF assms(3)]
  have w0: "is_word_char (chars ! i0)" "at_word_boundary chars i0" using rec by (auto simp: recognised_def)
  have "take 6 (drop i chars) = lit ''Bearer''"
    using span(3) by (simp add: starts_with_chars_def starts_with_def lit_def eval_nat_numeral)
  then have head: "take 6 (drop i chars) ! d = lit ''Bearer'' ! d" for d by simp
  show False
  proof (cases "i0 < i + 6")
    case True
    have "i + 6 \<le> length chars" using span(1,4) by (simp add: token_span_def)
    with True assms(2) have "chars ! (i0 - 1) = lit ''Bearer'' ! (i0 - 1 - i)" using head [of "i0 - 1 - i"] by simp
    moreover have "lit ''Bearer'' ! (i0 - 1 - i) \<in> set (lit ''Bearer'')"
      using True assms(2) by (intro nth_mem) (simp add: lit_def)
    moreover have "list_all is_word_char (lit ''Bearer'')" by code_simp
    ultimately show False using w0(2) assms(2) by (auto simp: at_word_boundary_def list_all_iff)
  next
    case False
    with \<open>\<not> a \<le> i0\<close> span(2) have "is_whitespace (chars ! i0)" by auto
    with w0(1) show False by (auto simp: is_whitespace_def is_word_char_def ascii_class_defs)
  qed
qed

lemma named_before_token:
  assumes rec: "recognised chars i0 n" and "i < i0" "match_named_secret_assign chars i = Some m"
  shows "value_start m \<le> i0"
proof (rule ccontr)
  assume vs: "\<not> value_start m \<le> i0"
  obtain kw where kw: "kw \<in> set KEYWORDS" "i + length kw < value_start m"
    "\<forall>k \<in> {i + length kw..<value_start m}. \<not> is_word_char (chars ! k)"
    using match_named_span(8) [OF assms(3)] by blast
  have "list_all (\<lambda>w. length w \<le> 14) KEYWORDS" by code_simp
  then have short: "length kw \<le> 14" using kw(1) by (simp add: list_all_iff)
  have w: "is_word_char (chars ! k)" if "i0 \<le> k" "k < i0 + n" for k using rec that by (simp add: recognised_def)
  have "20 \<le> n" using rec by (simp add: recognised_def)
  show False
  proof (cases "i + length kw \<le> i0")
    case True
    with vs kw(3) w [of i0] \<open>20 \<le> n\<close> show False by auto
  next
    case False
    then have "is_word_char (chars ! (i + length kw))" using w [of "i + length kw"] short \<open>20 \<le> n\<close> assms(2) by simp
    with kw(2,3) show False by auto
  qed
qed

text \<open>A turn that starts before the token either ends before it, or hides all of it.\<close>

lemma redact_step_token:
  assumes rec: "recognised chars i0 n" and "i \<le> i0" and st: "redact_step chars i = (j, t)"
  shows "j \<le> i0 \<or> (\<exists>p u. i \<le> p \<and> p \<le> i0 \<and> i0 + n \<le> j \<and> set u \<subseteq> set quote_chars
    \<and> t = slice chars i p @ SECRET_REDACTION_PLACEHOLDER @ u)"
proof -
  have len: "i < length chars" using rec assms(2) by (auto simp: recognised_def)
  have w0: "is_word_char (chars ! i0)" using rec by (auto simp: recognised_def)
  have stop: "at_stop chars e \<Longrightarrow> i0 \<le> e \<Longrightarrow> i0 + n \<le> e" for e by (rule recognised_stop [OF rec])
  from st show ?thesis
  proof (cases rule: redact_step_cases)
    case keep
    then have "i \<noteq> i0" using rec by (auto simp: recognised_def)
    with keep assms(2) show ?thesis by simp
  next
    case known
    from match_known_span [OF known(1)] len have "at_stop chars j" by simp
    with known(2) stop [of j] assms(2) show ?thesis
      by (cases "j \<le> i0") (auto intro!: exI [of _ i] exI [of _ "[]"])
  next
    case (bearer a)
    then have "i < i0" using rec assms(2) by (cases "i = i0") (auto simp: recognised_def)
    from bearer_before_token [OF rec this bearer(2)] match_bearer_span(1,6) [OF bearer(2)] stop [of j] bearer(3)
    show ?thesis by (cases "j \<le> i0") (auto intro!: exI [of _ a] exI [of _ "[]"])
  next
    case (named m)
    then have "i < i0" using rec assms(2) by (cases "i = i0") (auto simp: recognised_def)
    note vs = named_before_token [OF rec this named(2)]
    note span = match_named_span [OF named(2)]
    have "i0 + n \<le> j" if "\<not> j \<le> i0"
    proof -
      have "chars ! i0 \<notin> set quote_chars" using w0 by (auto simp: quote_chars_def is_word_char_def ascii_class_defs)
      then have "i0 < value_end m" using span(7) that named(3) by (metis Suc_eq_plus1 less_antisym not_le)
      from stop [OF span(4)] this span(5) named(3) show ?thesis by simp
    qed
    then show ?thesis
      using vs span(1) open_quote_chars [OF named(2)] named(4) by (cases "j \<le> i0") (auto intro!: exI [of _ "value_start m"])
  qed
qed

lemma redaction_slice:
  assumes st: "redact_step chars i = (j, t)" and len: "i < length chars" and rest: "redaction s r"
  shows "redaction (slice chars i j @ s) (t @ r)"
  using st len
proof (cases rule: redact_step_form)
  case keep
  then show ?thesis using redaction_keep_all [OF rest] by simp
next
  case (hide p u)
  have "redaction (slice chars i p @ slice chars p j @ s) (slice chars i p @ SECRET_REDACTION_PLACEHOLDER @ u @ r)"
    using hide by (intro redaction_keep_all redaction_replace rest slice_nonempty) auto
  with hide slice_split [of i p j chars] show ?thesis by simp
qed

lemma redact_loop_token:
  assumes "recognised chars i0 n" "i \<le> i0"
  shows "\<exists>p q a u b. i \<le> p \<and> p \<le> i0 \<and> i0 + n \<le> q \<and> q \<le> length chars \<and> set u \<subseteq> set quote_chars
    \<and> redact_loop chars i = a @ SECRET_REDACTION_PLACEHOLDER @ u @ b
    \<and> redaction (slice chars i p) a \<and> redaction (drop q chars) b"
  using assms
proof (induction chars i rule: redact_loop.induct)
  case (1 chars i)
  have len: "i < length chars" using 1(2,3) by (auto simp: recognised_def)
  obtain j t where st: "redact_step chars i = (j, t)" by fastforce
  have loop: "redact_loop chars i = t @ redact_loop chars j" using len st by (subst redact_loop.simps) simp
  note adv = redact_step_span [OF st len]
  from redact_step_token [OF 1(2,3) st] show ?case
  proof (elim disjE exE conjE)
    assume "j \<le> i0"
    with 1(1) [OF len st [symmetric] 1(2)] obtain p q a u b where *: "j \<le> p" "p \<le> i0" "i0 + n \<le> q" "q \<le> length chars"
      "set u \<subseteq> set quote_chars" "redact_loop chars j = a @ SECRET_REDACTION_PLACEHOLDER @ u @ b"
      "redaction (slice chars j p) a" "redaction (drop q chars) b" by blast
    have "redaction (slice chars i j @ slice chars j p) (t @ a)" using redaction_slice [OF st len *(7)] .
    then have "redaction (slice chars i p) (t @ a)" using slice_split [of i j p chars] adv(1) *(1) by simp
    then show ?thesis unfolding loop using * adv(1)
      by (intro exI [of _ p] exI [of _ q] exI [of _ "t @ a"] exI [of _ u] exI [of _ b]) simp
  next
    fix p u
    assume hide: "i \<le> p" "p \<le> i0" "i0 + n \<le> j" "set u \<subseteq> set quote_chars"
      "t = slice chars i p @ SECRET_REDACTION_PLACEHOLDER @ u"
    have "redaction (slice chars i p) (slice chars i p)"
      using redaction_keep_all [OF redaction_Nil, of "slice chars i p"] by simp
    with hide adv redaction_loop [OF adv(2)] show ?thesis unfolding loop
      by (intro exI [of _ p] exI [of _ j] exI [of _ "slice chars i p"] exI [of _ u] exI [of _ "redact_loop chars j"]) simp
  qed
qed

text \<open>The shapes of provider tokens that consist of word characters only.\<close>

definition provider_token :: "ustr \<Rightarrow> bool" where
  "provider_token s \<longleftrightarrow>
     (starts_with s (lit ''gh'') \<and> char_among s 2 (lit ''opsu'') \<and> char_among s 3 (lit ''_'')
        \<and> 20 \<le> length (drop 4 s) \<and> list_all is_ascii_alphanumeric (drop 4 s))
     \<or> (starts_with s (lit ''github_pat_'') \<and> 20 \<le> length (drop 11 s)
        \<and> list_all (\<lambda>c. is_ascii_alphanumeric c \<or> c = ch CHR ''_'') (drop 11 s))
     \<or> (starts_with s (lit ''AKIA'') \<and> 16 \<le> length (drop 4 s)
        \<and> list_all (\<lambda>c. is_ascii_uppercase c \<or> is_ascii_digit c) (drop 4 s))"

lemma provider_token_cases:
  assumes "provider_token s"
  obtains (gh) "starts_with s (lit ''gh'')" "char_among s 2 (lit ''opsu'')" "char_among s 3 (lit ''_'')"
      "20 \<le> length (drop 4 s)" "list_all is_ascii_alphanumeric (drop 4 s)"
    | (pat) "starts_with s (lit ''github_pat_'')" "20 \<le> length (drop 11 s)"
      "list_all (\<lambda>c. is_ascii_alphanumeric c \<or> c = ch CHR ''_'') (drop 11 s)"
    | (akia) "starts_with s (lit ''AKIA'')" "16 \<le> length (drop 4 s)"
      "list_all (\<lambda>c. is_ascii_uppercase c \<or> is_ascii_digit c) (drop 4 s)"
  using assms unfolding provider_token_def by blast

lemma first_some_not_None: "Some x \<in> set xs \<Longrightarrow> first_some xs \<noteq> None"
  by (induction xs rule: first_some.induct) auto

lemma match_prefix_run_token:
  assumes "k \<le> length s" "list_all p (drop k s)" "n \<le> length (drop k s)"
    and "\<And>c. p c \<Longrightarrow> is_word_char c" "post = [] \<or> \<not> is_word_char (hd post)"
  shows "match_prefix_run (pre @ s @ post) (length pre + k) n p = Some (length pre + length s)"
proof -
  have "takeWhile p (drop k s @ post) = drop k s"
    using assms(2,4,5) by (cases post) (auto simp: list_all_iff takeWhile_append)
  moreover have "drop (length pre + k) (pre @ s @ post) = drop k s @ post" using assms(1) by simp
  ultimately have e: "run_end p (pre @ s @ post) (length pre + k) = length pre + length s"
    using assms(1) by (simp add: run_end_def)
  have "\<not> is_word_char ((pre @ s @ post) ! (length pre + length s))" if "post \<noteq> []"
    using assms(5) that by (cases post) (simp_all add: nth_append)
  then show ?thesis using assms(1,3) by (auto simp: match_prefix_run_def e Let_def)
qed

lemma starts_with_chars_token: "starts_with s p \<Longrightarrow> starts_with_chars (pre @ s @ post) (length pre) p"
  by (auto simp: starts_with_chars_def starts_with_def) (metis take_append append_take_drop_id append_same_eq diff_is_0_eq
      length_take min.absorb_iff2 nle_le take0 self_append_conv take_all_iff)

lemma char_among_token: "char_among s k cs \<Longrightarrow> char_among (pre @ s @ post) (length pre + k) cs"
  by (auto simp: char_among_def nth_append)

lemma provider_token_word: "provider_token s \<Longrightarrow> list_all is_word_char s \<and> 20 \<le> length s"
proof -
  assume tok: "provider_token s"
  have word: "is_ascii_alphanumeric c \<Longrightarrow> is_word_char c" "is_ascii_uppercase c \<or> is_ascii_digit c \<Longrightarrow> is_word_char c" for c
    by (auto simp: is_word_char_def is_ascii_alphanumeric_def is_ascii_alphabetic_def)
  have split: "starts_with s p \<Longrightarrow> s = p @ drop (length p) s" for p
    unfolding starts_with_def by (metis append_take_drop_id)
  from tok show ?thesis
  proof (cases rule: provider_token_cases)
    case gh
    have "drop 2 s = s ! 2 # s ! 3 # drop 4 s" using gh(4) by (simp add: Cons_nth_drop_Suc eval_nat_numeral)
    with split [OF gh(1)] have s: "s = lit ''gh'' @ s ! 2 # s ! 3 # drop 4 s" by (simp add: lit_def eval_nat_numeral)
    have "list_all is_word_char (lit ''gh'' @ lit ''opsu'' @ lit ''_'')" by code_simp
    then have "list_all is_word_char (lit ''gh'' @ s ! 2 # s ! 3 # drop 4 s)"
      using gh(2,3,5) word(1) by (auto simp: list_all_iff char_among_def)
    with s gh(4) show ?thesis by simp
  next
    case pat
    have "list_all is_word_char (lit ''github_pat_'')" by code_simp
    then have "list_all is_word_char (lit ''github_pat_'' @ drop 11 s)"
      using pat(3) word(1) by (auto simp: list_all_iff is_word_char_def)
    moreover have "s = lit ''github_pat_'' @ drop 11 s" using split [OF pat(1)] by (simp add: lit_def eval_nat_numeral)
    ultimately show ?thesis using pat(2) by simp
  next
    case akia
    have "list_all is_word_char (lit ''AKIA'')" by code_simp
    then have "list_all is_word_char (lit ''AKIA'' @ drop 4 s)" using akia(3) word(2) by (auto simp: list_all_iff)
    moreover have "s = lit ''AKIA'' @ drop 4 s" using split [OF akia(1)] by (simp add: lit_def eval_nat_numeral)
    ultimately show ?thesis using akia(2) by simp
  qed
qed

lemma provider_token_matches:
  assumes tok: "provider_token s" and post: "post = [] \<or> \<not> is_word_char (hd post)"
  shows "match_known_prefix_secret (pre @ s @ post) (length pre) \<noteq> None"
proof -
  let ?c = "pre @ s @ post" and ?i = "length pre"
  note run = match_prefix_run_token [OF _ _ _ _ post, of _ s _ _ pre]
  have word: "is_ascii_alphanumeric c \<Longrightarrow> is_word_char c" "is_ascii_uppercase c \<or> is_ascii_digit c \<Longrightarrow> is_word_char c"
    "is_ascii_alphanumeric c \<or> c = ch CHR ''_'' \<Longrightarrow> is_word_char c" for c
    by (auto simp: is_word_char_def is_ascii_alphanumeric_def is_ascii_alphabetic_def)
  from tok show ?thesis
  proof (cases rule: provider_token_cases)
    case gh
    have m: "match_prefix_run ?c (?i + 4) 20 is_ascii_alphanumeric = Some (?i + length s)"
      using gh(4,5) word(1) by (intro run) auto
    from starts_with_chars_token [OF gh(1)] char_among_token [OF gh(2)] char_among_token [OF gh(3)] m
    show ?thesis unfolding match_known_prefix_secret_def by simp
  next
    case pat
    have m: "match_prefix_run ?c (?i + 11) 20 (\<lambda>c. is_ascii_alphanumeric c \<or> c = ch CHR ''_'') = Some (?i + length s)"
      using pat(2,3) word(3) by (intro run) auto
    show ?thesis unfolding match_known_prefix_secret_def
      by (rule first_some_not_None [of "?i + length s"]) (simp only: m starts_with_chars_token [OF pat(1)] if_True list.set insert_iff simp_thms)
  next
    case akia
    have m: "match_prefix_run ?c (?i + 4) 16 (\<lambda>c. is_ascii_uppercase c \<or> is_ascii_digit c) = Some (?i + length s)"
      using akia(2,3) word(2) by (intro run) auto
    show ?thesis unfolding match_known_prefix_secret_def
      by (rule first_some_not_None [of "?i + length s"]) (simp only: m starts_with_chars_token [OF akia(1)] if_True list.set insert_iff simp_thms)
  qed
qed

lemma provider_token_recognised:
  assumes "provider_token s" "pre = [] \<or> \<not> is_word_char (last pre)" "post = [] \<or> \<not> is_word_char (hd post)"
  shows "recognised (pre @ s @ post) (length pre) (length s)"
proof -
  have "at_word_boundary (pre @ s @ post) (length pre)"
    using assms(2) by (auto simp: at_word_boundary_def nth_append last_conv_nth)
  moreover have "is_word_char ((pre @ s @ post) ! k)" if "k \<in> {length pre..<length pre + length s}" for k
    using that provider_token_word [OF assms(1)] by (auto simp: nth_append list_all_length)
  ultimately show ?thesis
    using provider_token_word [OF assms(1)] provider_token_matches [OF assms(1,3)] by (simp add: recognised_def)
qed

section \<open>Properties of the redaction\<close>

text \<open>
  C2. Provider tokens never survive the redaction: a GitHub token or an AWS key that stands in a text as a
  word of its own is replaced by the placeholder as a whole, and what surrounds the placeholder in the output is
  made of a prefix of the text before the token, a suffix of the text after it, placeholders for pieces
  of these and quotes, so that no character of the token is left.
\<close>

theorem redact_hides_provider_tokens:
  assumes "provider_token s" and "pre = [] \<or> \<not> is_word_char (last pre)" and "post = [] \<or> \<not> is_word_char (hd post)"
  shows "\<exists>a u b pre' post'. redact_secrets (pre @ s @ post) = a @ SECRET_REDACTION_PLACEHOLDER @ u @ b
    \<and> prefix pre' pre \<and> redaction pre' a \<and> set u \<subseteq> set quote_chars \<and> suffix post' post \<and> redaction post' b"
proof -
  let ?c = "pre @ s @ post"
  obtain p q a u b where *: "p \<le> length pre" "length pre + length s \<le> q" "q \<le> length ?c" "set u \<subseteq> set quote_chars"
    "redact_loop ?c 0 = a @ SECRET_REDACTION_PLACEHOLDER @ u @ b" "redaction (slice ?c 0 p) a" "redaction (drop q ?c) b"
    using redact_loop_token [OF provider_token_recognised [OF assms], of 0] by auto
  have "s \<noteq> []" using provider_token_word [OF assms(1)] by auto
  then have "redact_secrets ?c = a @ SECRET_REDACTION_PLACEHOLDER @ u @ b" using *(5) by (simp add: redact_secrets_def)
  moreover have "slice ?c 0 p = take p pre" using *(1) by (simp add: slice_def)
  moreover have "drop q ?c = drop (q - length pre - length s) post" using *(2) by simp
  ultimately show ?thesis using *(4,6,7) take_is_prefix suffix_drop by metis
qed

theorem redact_hides_provider_tokens_witness:
  "\<exists>a u b pre' post'. redact_secrets (lit ''key='' @ lit ''AKIA0123456789ABCDEF'' @ lit '' ok'')
      = a @ SECRET_REDACTION_PLACEHOLDER @ u @ b
    \<and> prefix pre' (lit ''key='') \<and> redaction pre' a \<and> set u \<subseteq> set quote_chars
    \<and> suffix post' (lit '' ok'') \<and> redaction post' b"
proof (rule redact_hides_provider_tokens)
  show "provider_token (lit ''AKIA0123456789ABCDEF'')" by code_simp
  have "\<not> is_word_char (last (lit ''key=''))" "\<not> is_word_char (hd (lit '' ok''))" by code_simp+
  then show "lit ''key='' = [] \<or> \<not> is_word_char (last (lit ''key=''))" "lit '' ok'' = [] \<or> \<not> is_word_char (hd (lit '' ok''))"
    by simp_all
qed

lemma redact_loop_id:
  assumes "\<And>k. k < length chars \<Longrightarrow> redact_step chars k = keep_char chars k" "i \<le> length chars"
  shows "redact_loop chars i = drop i chars"
  using assms
proof (induction chars i rule: redact_loop.induct)
  case (1 chars i)
  show ?case
  proof (cases "i < length chars")
    case True
    note step = 1(2) [OF True]
    have "redact_loop chars (i + 1) = drop (i + 1) chars"
      by (rule 1(1) [OF True]) (use 1(2) True in \<open>auto simp: step keep_char_def\<close>)
    then show ?thesis using True
      by (subst redact_loop.simps) (simp add: step keep_char_def Cons_nth_drop_Suc)
  qed (use 1(3) in \<open>subst redact_loop.simps, simp\<close>)
qed

lemma redact_secrets_id:
  assumes "\<And>k. k < length text \<Longrightarrow> redact_step text k = keep_char text k"
  shows "redact_secrets text = text"
  using redact_loop_id [OF assms, of 0] by (auto simp: redact_secrets_def)

lemma short_words_kept:
  assumes "\<And>k. secret_token_len chars k < 12" "i < length chars"
  shows "redact_step chars i = keep_char chars i"
proof -
  obtain j t where st: "redact_step chars i = (j, t)" by fastforce
  from st assms(2) show ?thesis
  proof (cases rule: redact_step_form)
    case keep
    then show ?thesis using st slice_Suc [OF assms(2)] by (simp add: keep_char_def)
  next
    case (hide p u)
    from secret_token_len_ge [OF hide(5)] assms(1) [of p] show ?thesis by simp
  qed
qed

text \<open>Lower-case hexadecimal identifiers, with dashes and white space between them.\<close>

definition hex_or_separator :: "uchar \<Rightarrow> bool" where
  "hex_or_separator c \<longleftrightarrow> is_ascii_digit c \<or> c \<in> set (lit ''abcdef-'') \<or> is_whitespace c"

lemma hex_kept:
  assumes hex: "list_all hex_or_separator chars" and i: "i < length chars"
  shows "redact_step chars i = keep_char chars i"
proof -
  have c: "hex_or_separator (chars ! k)" if "k < length chars" for k using hex that by (simp add: list_all_length)
  have no: "\<not> starts_with_chars chars i p" if "p \<noteq> []" "\<not> list_all hex_or_separator p" for p
  proof
    assume st: "starts_with_chars chars i p"
    then have "p = take (length p) (drop i chars)" by (simp add: starts_with_chars_def starts_with_def)
    with hex have "list_all hex_or_separator p" by (metis in_set_dropD in_set_takeD list_all_iff)
    with that show False by simp
  qed
  have lits: "\<not> list_all hex_or_separator (lit ''gh'')" "\<not> list_all hex_or_separator (lit ''github_pat_'')"
    "\<not> list_all hex_or_separator (lit ''sk-'')" "\<not> list_all hex_or_separator (lit ''xox'')"
    "\<not> list_all hex_or_separator (lit ''AKIA'')" "\<not> list_all hex_or_separator (lit ''eyJ'')"
    "\<not> list_all hex_or_separator (lit ''Bearer'')" by code_simp+
  have nonempty: "lit (x # xs) \<noteq> []" for x xs by (simp add: lit_def)
  have known: "match_known_prefix_secret chars i = None"
    unfolding match_known_prefix_secret_def using no [OF nonempty] lits by simp
  have bearer: "match_bearer_secret chars i = None" unfolding match_bearer_secret_def using no [OF nonempty lits(7)] by simp
  have "\<not> starts_with_chars_ci chars i kw" if kw: "kw \<in> set KEYWORDS" for kw
  proof
    assume ci: "starts_with_chars_ci chars i kw"
    have "list_all (\<lambda>w. list_ex (\<lambda>x. \<not> hex_or_separator x \<and> is_ascii_lowercase x) w) KEYWORDS" by code_simp
    with kw obtain x where x: "x \<in> set kw" "\<not> hex_or_separator x" "is_ascii_lowercase x"
      by (auto simp: list_all_iff list_ex_iff)
    then obtain k where k: "k < length kw" "kw ! k = x" by (meson in_set_conv_nth)
    with ci have "to_ascii_lower (chars ! (i + k)) = x" "hex_or_separator (chars ! (i + k))"
      using x(3) by (auto simp: starts_with_chars_ci_def list_all_iff eq_ignore_ascii_case_def to_ascii_lower_def
          ascii_class_defs intro!: c)
    with x(2,3) show False
      by (auto simp: to_ascii_lower_def hex_or_separator_def ascii_class_defs is_whitespace_def lit_def split: if_splits)
  qed
  then have "filter (starts_with_chars_ci chars i) KEYWORDS = []" by (auto simp: filter_empty_conv)
  then have "match_named_secret_assign chars i = None" by (simp add: match_named_secret_assign_def keyword_len_def)
  with known bearer show ?thesis by (simp add: redact_step_def redact_named_def)
qed

text \<open>
  The redaction leaves prose and identifiers alone: a text in which no run of token characters
  reaches twelve is returned unchanged, and so is a text of lower-case hexadecimal identifiers such as commit
  hashes and UUIDs.
\<close>

theorem redact_leaves_prose_alone:
  "((\<forall>i. secret_token_len text i < 12) \<longrightarrow> redact_secrets text = text)
   \<and> (list_all hex_or_separator text \<longrightarrow> redact_secrets text = text)"
  using redact_secrets_id short_words_kept hex_kept by metis

theorem redact_leaves_prose_alone_witness:
  "redact_secrets (lit ''3f786850e387550fdab836ed7e6dc881de23001b'') = lit ''3f786850e387550fdab836ed7e6dc881de23001b''"
  by (rule mp [OF conjunct2 [OF redact_leaves_prose_alone]]) code_simp

section \<open>Private regions\<close>

definition PRIVATE_TAG_PAIRS :: "(ustr \<times> ustr) list" where
  "PRIVATE_TAG_PAIRS = [(lit ''<private>'', lit ''</private>''), (lit ''<secret>'', lit ''</secret>''),
     (lit ''<sensitive>'', lit ''</sensitive>'')]"

text \<open>\<^verbatim>\<open>min_by_key\<close>: the first of the smallest elements.\<close>

fun min_by_start :: "(nat \<times> 'a) list \<Rightarrow> (nat \<times> 'a) option" where
  "min_by_start [] = None"
| "min_by_start (x # xs) = Some (fold (\<lambda>y best. if fst y < fst best then y else best) xs x)"

definition next_private_open_tag :: "ustr \<Rightarrow> nat \<Rightarrow> (nat \<times> ustr \<times> ustr) option" where
  "next_private_open_tag lower cursor = min_by_start (List.map_filter
     (\<lambda>(open_tag, close_tag). map_option (\<lambda>rel. (cursor + rel, open_tag, close_tag)) (str_find (drop cursor lower) open_tag))
     PRIVATE_TAG_PAIRS)"

text \<open>Where the scan goes on after an opening tag: behind the closing tag, or at the end of an unclosed region.\<close>

definition region_end :: "ustr \<Rightarrow> nat \<Rightarrow> ustr \<Rightarrow> nat" where
  "region_end lower content_start close_tag =
     (case str_find (drop content_start lower) close_tag of
        Some rel_end \<Rightarrow> content_start + rel_end + length close_tag
      | None \<Rightarrow> length lower)"

lemma min_by_start_mem: "min_by_start xs = Some x \<Longrightarrow> x \<in> set xs \<and> (\<forall>y \<in> set xs. fst x \<le> fst y)"
proof -
  have "fold (\<lambda>y best. if fst y < fst best then y else best) ys z \<in> insert z (set ys)
      \<and> (\<forall>y \<in> insert z (set ys). fst (fold (\<lambda>y best. if fst y < fst best then y else best) ys z) \<le> fst y)"
    for ys :: "(nat \<times> 'a) list" and z
    by (induction ys arbitrary: z) (auto, (meson le_trans less_imp_le not_le)+)
  then show "min_by_start xs = Some x \<Longrightarrow> x \<in> set xs \<and> (\<forall>y \<in> set xs. fst x \<le> fst y)"
    by (cases xs) auto
qed

lemma tag_pairs_nonempty: "(open_tag, close_tag) \<in> set PRIVATE_TAG_PAIRS \<Longrightarrow> open_tag \<noteq> [] \<and> close_tag \<noteq> []"
  by (auto simp: PRIVATE_TAG_PAIRS_def lit_def)

lemma next_private_open_tag_Some:
  assumes "next_private_open_tag lower cursor = Some (start, open_tag, close_tag)"
  shows "(open_tag, close_tag) \<in> set PRIVATE_TAG_PAIRS"
    and "\<exists>rel. start = cursor + rel \<and> str_find (drop cursor lower) open_tag = Some rel"
    and "\<forall>(o', c') \<in> set PRIVATE_TAG_PAIRS. \<forall>rel. str_find (drop cursor lower) o' = Some rel \<longrightarrow> start \<le> cursor + rel"
  using min_by_start_mem [OF assms [unfolded next_private_open_tag_def]]
  by (fastforce simp: List.map_filter_def)+

lemma region_end_advances:
  assumes "next_private_open_tag lower cursor = Some (start, open_tag, close_tag)"
  shows "cursor < length lower" "cursor < region_end lower (start + length open_tag) close_tag"
    "region_end lower (start + length open_tag) close_tag \<le> length lower"
proof -
  note tag = next_private_open_tag_Some [OF assms]
  obtain rel where rel: "start = cursor + rel" "str_find (drop cursor lower) open_tag = Some rel" using tag(2) by blast
  have ne: "0 < length open_tag" using tag_pairs_nonempty [OF tag(1)] by simp
  have len: "start + length open_tag \<le> length lower"
    using str_find_bound [OF rel(2), unfolded length_drop] rel(1) ne by linarith
  with ne rel(1) show "cursor < length lower" by linarith
  show "cursor < region_end lower (start + length open_tag) close_tag"
    using \<open>cursor < length lower\<close> ne rel(1) by (auto simp: region_end_def split: option.split)
  show "region_end lower (start + length open_tag) close_tag \<le> length lower"
    using len str_find_bound [of "drop (start + length open_tag) lower" close_tag]
    by (auto simp: region_end_def split: option.split)
qed

function strip_loop :: "ustr \<Rightarrow> ustr \<Rightarrow> nat \<Rightarrow> ustr" where
  "strip_loop input lower cursor =
     (case next_private_open_tag lower cursor of
        Some (start, open_tag, close_tag) \<Rightarrow>
          slice input cursor start @ PRIVATE_REDACTION
          @ strip_loop input lower (region_end lower (start + length open_tag) close_tag)
      | None \<Rightarrow> drop cursor input)"
  by pat_completeness auto
termination
proof (relation "measure (\<lambda>(input, lower, cursor). length lower - cursor)")
  fix input lower cursor a start b open_tag close_tag
  assume "next_private_open_tag lower cursor = Some a" "(start, b) = a" "(open_tag, close_tag) = b"
  then show "((input, lower, region_end lower (start + length open_tag) close_tag), input, lower, cursor)
      \<in> measure (\<lambda>(input, lower, cursor). length lower - cursor)"
    using region_end_advances(1,2) [of lower cursor start open_tag close_tag] by auto
qed simp

declare strip_loop.simps [simp del]

definition strip_private_tagged_regions :: "ustr \<Rightarrow> ustr" where
  "strip_private_tagged_regions input = strip_loop input (to_ascii_lowercase input) 0"

subsection \<open>No tag survives\<close>

definition tag_free :: "ustr \<Rightarrow> bool" where
  "tag_free s \<longleftrightarrow> list_all (\<lambda>(open_tag, _). \<not> str_contains (to_ascii_lowercase s) open_tag) PRIVATE_TAG_PAIRS"

lemma tag_freeI: "(\<And>p c. (p, c) \<in> set PRIVATE_TAG_PAIRS \<Longrightarrow> \<not> sublist p (to_ascii_lowercase s)) \<Longrightarrow> tag_free s"
  by (auto simp: tag_free_def list_all_iff str_contains_iff)

lemma tag_freeD: "tag_free s \<Longrightarrow> (p, c) \<in> set PRIVATE_TAG_PAIRS \<Longrightarrow> \<not> sublist p (to_ascii_lowercase s)"
  by (auto simp: tag_free_def list_all_iff str_contains_iff)

lemma tag_free_redaction:
  assumes "tag_free a" "tag_free b"
  shows "tag_free (a @ PRIVATE_REDACTION @ b)"
proof (rule tag_freeI, rule notI)
  let ?l = to_ascii_lowercase
  fix p c
  assume p: "(p, c) \<in> set PRIVATE_TAG_PAIRS" and sub: "sublist p (?l (a @ PRIVATE_REDACTION @ b))"
  show False
  proof -
    have q: "91 \<notin> set p" "93 \<notin> set p" "60 \<in> set p" using p by (auto simp: PRIVATE_TAG_PAIRS_def lit_def)
    define mid where "mid = lit ''redacted private content''"
    have red: "?l PRIVATE_REDACTION = 91 # mid @ [93]" unfolding mid_def by code_simp
    from sub have "sublist p (?l a @ 91 # mid @ 93 # ?l b)" using red by (simp add: to_ascii_lowercase_def)
    then have "sublist p (?l a) \<or> sublist p mid \<or> sublist p (?l b)" using sublist_sep [OF _ q(1)] sublist_sep [OF _ q(2)] by blast
    moreover have "60 \<notin> set mid" by (simp add: mid_def lit_def)
    then have "\<not> sublist p mid" using q(3) set_mono_sublist [of p mid] by auto
    ultimately show False using tag_freeD [OF assms(1) p] tag_freeD [OF assms(2) p] by blast
  qed
qed

lemma next_private_open_tag_None:
  "next_private_open_tag lower cursor = None
   \<longleftrightarrow> (\<forall>(open_tag, _) \<in> set PRIVATE_TAG_PAIRS. \<not> str_contains (drop cursor lower) open_tag)"
proof -
  have "min_by_start xs = None \<longleftrightarrow> xs = []" for xs :: "(nat \<times> ustr \<times> ustr) list" by (cases xs) auto
  then show ?thesis
    by (auto simp: next_private_open_tag_def List.map_filter_def filter_empty_conv str_contains_def)
qed

lemma lower_drop: "to_ascii_lowercase (drop n s) = drop n (to_ascii_lowercase s)"
  and lower_take: "to_ascii_lowercase (take n s) = take n (to_ascii_lowercase s)"
  and length_lower [simp]: "length (to_ascii_lowercase s) = length s"
  by (simp_all add: to_ascii_lowercase_def drop_map take_map)

lemma tag_free_before:
  assumes "next_private_open_tag (to_ascii_lowercase s) cursor = Some (start, open_tag, close_tag)"
  shows "tag_free (slice s cursor start)"
proof -
  let ?l = "to_ascii_lowercase s"
  note tag = next_private_open_tag_Some [OF assms]
  have "\<not> sublist p (to_ascii_lowercase (slice s cursor start))" if p: "(p, c) \<in> set PRIVATE_TAG_PAIRS" for p c
  proof
    assume "sublist p (to_ascii_lowercase (slice s cursor start))"
    then obtain u v where uv: "take (start - cursor) (drop cursor ?l) = u @ p @ v"
      by (auto simp: slice_def lower_take lower_drop sublist_def)
    have "drop cursor ?l = u @ p @ (v @ drop (start - cursor) (drop cursor ?l))"
      using append_take_drop_id [of "start - cursor" "drop cursor ?l"] unfolding uv by simp
    then obtain w where w: "drop cursor ?l = u @ p @ w" by blast
    have "starts_with (drop (length u) (drop cursor ?l)) p" unfolding w by (simp add: starts_with_iff)
    from str_find_least [OF this] obtain n where n: "n \<le> length u" "str_find (drop cursor ?l) p = Some n"
      unfolding w by auto
    with tag(3) p have "start \<le> cursor + length u" by fastforce
    moreover have "length u + length p \<le> start - cursor" using arg_cong [OF uv, of length] by simp
    moreover have "p \<noteq> []" using tag_pairs_nonempty [OF p] by simp
    ultimately show False by (cases p) auto
  qed
  then show ?thesis by (rule tag_freeI)
qed

lemma strip_loop_tag_free:
  assumes "lower = to_ascii_lowercase s"
  shows "tag_free (strip_loop s lower cursor)"
  using assms
proof (induction s lower cursor rule: strip_loop.induct)
  case (1 s lower cursor)
  show ?case
  proof (cases "next_private_open_tag lower cursor")
    case None
    then have "tag_free (drop cursor s)"
      unfolding 1(2) next_private_open_tag_None by (auto simp: tag_free_def list_all_iff lower_drop)
    with None show ?thesis by (subst strip_loop.simps) simp
  next
    case (Some x)
    obtain start o' c' where x: "x = (start, o', c')" by (cases x) auto
    from tag_free_redaction [OF tag_free_before 1(1) [OF Some x [symmetric] refl 1(2)]] Some x 1(2) show ?thesis
      by (subst strip_loop.simps) simp
  qed
qed

lemma strip_loop_id: "tag_free s \<Longrightarrow> strip_loop s (to_ascii_lowercase s) 0 = s"
proof -
  assume "tag_free s"
  then have "next_private_open_tag (to_ascii_lowercase s) 0 = None"
    unfolding next_private_open_tag_None by (auto simp: tag_free_def list_all_iff)
  then show ?thesis by (subst strip_loop.simps) simp
qed

text \<open>The loop works on what is left of the text.\<close>

lemma next_private_open_tag_shift:
  "next_private_open_tag lower (n + k)
   = map_option (\<lambda>(start, o', c'). (n + start, o', c')) (next_private_open_tag (drop n lower) k)"
proof -
  have fold_min: "fold (\<lambda>y best. if fst y < fst best then y else best) (map (map_prod ((+) n) id) ys) (map_prod ((+) n) id x)
      = map_prod ((+) n) id (fold (\<lambda>y best. if fst y < fst best then y else best) ys x)"
    for ys :: "(nat \<times> ustr \<times> ustr) list" and x
    by (induction ys arbitrary: x) (auto simp: if_distrib [symmetric])
  have min: "min_by_start (map (map_prod ((+) n) id) xs) = map_option (map_prod ((+) n) id) (min_by_start xs)"
    for xs :: "(nat \<times> ustr \<times> ustr) list" by (cases xs) (simp_all add: fold_min)
  have mf: "List.map_filter (\<lambda>(o', c'). map_option (\<lambda>rel. (n + k + rel, o', c')) (str_find (drop (n + k) lower) o')) ps
      = map (map_prod ((+) n) id) (List.map_filter (\<lambda>(o', c'). map_option (\<lambda>rel. (k + rel, o', c'))
          (str_find (drop k (drop n lower)) o')) ps)" for ps
    by (induction ps) (auto simp: List.map_filter_simps add.commute split: option.split)
  have lam: "(\<lambda>(start, o', c'). (n + start, o', c')) = map_prod ((+) n) (id :: ustr \<times> ustr \<Rightarrow> _)" by auto
  show ?thesis by (simp only: next_private_open_tag_def mf lam min)
qed

lemma region_end_shift:
  "n \<le> length lower \<Longrightarrow> region_end lower (n + k) c = n + region_end (drop n lower) k c"
  by (auto simp: region_end_def add.commute split: option.split)

lemma strip_loop_shift:
  "length input = length lower \<Longrightarrow> n + k \<le> length lower
    \<Longrightarrow> strip_loop input lower (n + k) = strip_loop (drop n input) (drop n lower) k"
proof (induction input lower "n + k" arbitrary: k rule: strip_loop.induct)
  case (1 input lower)
  show ?case
  proof (cases "next_private_open_tag (drop n lower) k")
    case None
    then have "next_private_open_tag lower (n + k) = None" by (simp add: next_private_open_tag_shift)
    with None show ?thesis by (subst (1 2) strip_loop.simps) (simp add: add.commute [of k n])
  next
    case (Some x)
    obtain start o' c' where x: "x = (start, o', c')" by (cases x) auto
    have big: "next_private_open_tag lower (n + k) = Some (n + start, o', c')"
      using Some by (simp add: next_private_open_tag_shift x)
    note adv = region_end_advances [OF big]
    have re: "region_end lower (n + start + length o') c' = n + region_end (drop n lower) (start + length o') c'"
      using region_end_shift [of n lower "start + length o'" c'] 1(3) by (simp add: add.assoc)
    have "strip_loop input lower (n + region_end (drop n lower) (start + length o') c')
        = strip_loop (drop n input) (drop n lower) (region_end (drop n lower) (start + length o') c')"
      by (rule 1(1) [OF big refl refl re]) (use 1(2) adv(3) re in simp_all)
    then show ?thesis
      by (subst (1 2) strip_loop.simps) (simp add: big Some x re slice_def add.commute [of k n])
  qed
qed

lemma lower_append: "to_ascii_lowercase (a @ b) = to_ascii_lowercase a @ to_ascii_lowercase b"
  by (simp add: to_ascii_lowercase_def)

lemma tag_shapes:
  assumes "(open_tag, close_tag) \<in> set PRIVATE_TAG_PAIRS"
  shows "\<exists>t. open_tag = 60 # t" "\<exists>t. close_tag = 60 # t"
    "(o', c') \<in> set PRIVATE_TAG_PAIRS \<Longrightarrow> starts_with (open_tag @ w) o' \<Longrightarrow> o' = open_tag \<and> c' = close_tag"
  using assms by (auto simp: PRIVATE_TAG_PAIRS_def lit_def starts_with_def)

lemma tag_clean_cut:
  assumes "(p, c) \<in> set PRIVATE_TAG_PAIRS" "hd b = 60"
  shows "clean_cut p a b" "clean_cut c a b"
  using assms by (auto simp: clean_cut_def PRIVATE_TAG_PAIRS_def lit_def)

lemma tag_free_find: "tag_free s \<Longrightarrow> (p, c) \<in> set PRIVATE_TAG_PAIRS \<Longrightarrow> str_find (to_ascii_lowercase s) p = None"
  by (auto simp: tag_free_def list_all_iff str_contains_def)

lemma next_tag_after:
  assumes tag: "(open_tag, close_tag) \<in> set PRIVATE_TAG_PAIRS" and pre: "tag_free pre"
  shows "next_private_open_tag (to_ascii_lowercase pre @ open_tag @ w) 0 = Some (length pre, open_tag, close_tag)"
proof -
  let ?l = "to_ascii_lowercase pre @ open_tag @ w"
  have hd: "hd (open_tag @ w) = 60" using tag_shapes(1) [OF tag] by auto
  have find: "str_find ?l p = map_option ((+) (length pre)) (str_find (open_tag @ w) p)" if "(p, c) \<in> set PRIVATE_TAG_PAIRS" for p c
    using str_find_clean_cut [OF tag_clean_cut(1) [OF that hd]] tag_free_find [OF pre that] tag_pairs_nonempty [OF that] by simp
  have here: "str_find (open_tag @ w) open_tag = Some 0"
    using tag_shapes(1) [OF tag] by (auto simp: starts_with_def)
  with find [OF tag] have "next_private_open_tag ?l 0 \<noteq> None"
    unfolding next_private_open_tag_None using tag by (fastforce simp: str_contains_def)
  then obtain start o' c' where some: "next_private_open_tag ?l 0 = Some (start, o', c')" by (metis prod_cases3 not_None_eq)
  note n = next_private_open_tag_Some [OF some]
  have "str_find ?l o' = Some start" "start \<le> length pre" using n(2,3) tag find [OF tag] here by auto
  with find [OF n(1)] have "str_find (open_tag @ w) o' = Some 0" "start = length pre"
    by (cases "str_find (open_tag @ w) o'"; simp)+
  moreover from str_find_starts [OF this(1)] have "starts_with (open_tag @ w) o'" by simp
  ultimately show ?thesis using tag_shapes(3) [OF tag n(1)] some by simp
qed

lemma strip_region:
  assumes tag: "(to_ascii_lowercase o', close_tag) \<in> set PRIVATE_TAG_PAIRS" and pre: "tag_free pre"
  shows "strip_private_tagged_regions (pre @ o' @ rest) = pre @ PRIVATE_REDACTION
    @ strip_private_tagged_regions (drop (region_end (to_ascii_lowercase rest) 0 close_tag) rest)"
proof -
  let ?s = "pre @ o' @ rest" and ?l = to_ascii_lowercase
  let ?n = "length pre + length o'"
  have nxt: "next_private_open_tag (?l ?s) 0 = Some (length pre, ?l o', close_tag)"
    using next_tag_after [OF tag pre, of "?l rest"] by (simp add: lower_append)
  have re: "region_end (?l ?s) ?n close_tag = ?n + region_end (?l rest) 0 close_tag"
    using region_end_shift [of ?n "?l ?s" 0 close_tag] by (simp add: lower_append)
  have le: "region_end (?l ?s) ?n close_tag \<le> length ?s" using region_end_advances(3) [OF nxt] by simp
  have "strip_loop ?s (?l ?s) (region_end (?l ?s) ?n close_tag + 0)
      = strip_loop (drop (region_end (?l ?s) ?n close_tag) ?s) (drop (region_end (?l ?s) ?n close_tag) (?l ?s)) 0"
    using le by (intro strip_loop_shift) simp_all
  also have "\<dots> = strip_private_tagged_regions (drop (region_end (?l ?s) ?n close_tag) ?s)"
    by (simp only: strip_private_tagged_regions_def lower_drop)
  finally show ?thesis
    unfolding strip_private_tagged_regions_def
    by (subst strip_loop.simps) (simp add: nxt slice_def re strip_private_tagged_regions_def)
qed

text \<open>
  C36. Private regions are removed: whatever the letter case of the tags, the first tagged region is replaced by the marker
  together with its tags, up to the first closing tag of its own kind and whatever other markup or tags
  it holds, and the scan goes on behind it. A region that is never closed is replaced up to the
  end of the text. No opening tag is left in the output, so that stripping a stripped text changes nothing.
\<close>

theorem private_regions_removed:
  assumes "(to_ascii_lowercase o', to_ascii_lowercase c') \<in> set PRIVATE_TAG_PAIRS"
    and "tag_free pre" and "\<not> str_contains (to_ascii_lowercase secret) (to_ascii_lowercase c')"
  shows "strip_private_tagged_regions (pre @ o' @ secret @ c' @ post)
      = pre @ PRIVATE_REDACTION @ strip_private_tagged_regions post
    \<and> strip_private_tagged_regions (pre @ o' @ secret) = pre @ PRIVATE_REDACTION
    \<and> tag_free (strip_private_tagged_regions text)
    \<and> strip_private_tagged_regions (strip_private_tagged_regions text) = strip_private_tagged_regions text"
proof (intro conjI)
  let ?l = to_ascii_lowercase
  note region = strip_region [OF assms(1,2)]
  obtain t where t: "?l c' = 60 # t" using tag_shapes(2) [OF assms(1)] by blast
  have no: "str_find (?l secret) (?l c') = None" using assms(3) by (simp add: str_contains_def)
  have "str_find (?l secret @ ?l c' @ ?l post) (?l c') = Some (length secret)"
    using str_find_clean_cut [OF tag_clean_cut(2) [OF assms(1), of "?l c' @ ?l post" "?l secret"]] no
    by (simp add: t starts_with_def)
  then have "region_end (?l (secret @ c' @ post)) 0 (?l c') = length secret + length c'"
    by (simp add: region_end_def lower_append)
  then show "strip_private_tagged_regions (pre @ o' @ secret @ c' @ post)
      = pre @ PRIVATE_REDACTION @ strip_private_tagged_regions post"
    using region [of "secret @ c' @ post"] by simp
  have "region_end (?l secret) 0 (?l c') = length secret" using no by (simp add: region_end_def)
  moreover have "strip_private_tagged_regions [] = []" by code_simp
  ultimately show "strip_private_tagged_regions (pre @ o' @ secret) = pre @ PRIVATE_REDACTION"
    using region [of secret] by simp
  show free: "tag_free (strip_private_tagged_regions text)"
    unfolding strip_private_tagged_regions_def by (rule strip_loop_tag_free) simp
  show "strip_private_tagged_regions (strip_private_tagged_regions text) = strip_private_tagged_regions text"
    using strip_loop_id [OF free] by (simp add: strip_private_tagged_regions_def)
qed

theorem private_regions_removed_witness:
  "strip_private_tagged_regions (lit ''1 < 2 '' @ lit ''<Private>'' @ lit ''<b>a</b>KEY <secret>'' @ lit ''</PRIVATE>'' @ lit '' b'')
   = lit ''1 < 2 '' @ PRIVATE_REDACTION @ lit '' b''"
proof -
  have "(to_ascii_lowercase (lit ''<Private>''), to_ascii_lowercase (lit ''</PRIVATE>'')) \<in> set PRIVATE_TAG_PAIRS"
    "tag_free (lit ''1 < 2 '')"
    "\<not> str_contains (to_ascii_lowercase (lit ''<b>a</b>KEY <secret>'')) (to_ascii_lowercase (lit ''</PRIVATE>''))" by code_simp+
  note m = private_regions_removed [OF this, of "lit '' b''" "[]"]
  have "strip_private_tagged_regions (lit '' b'') = lit '' b''" by code_simp
  with m show ?thesis by simp
qed

end
