(* ===== verification/Classifier.thy ===== *)
theory Classifier
  imports Privacy
begin

text \<open>
  \<^verbatim>\<open>crates/difflore-core/src/observability/classifier.rs\<close>: turning an edit that a coding agent reports
  into an observation for the cloud, or dropping it. The hash (\<open>sha256_hex\<close>) and the clock are parameters.
\<close>

section \<open>Data\<close>

record ClassifyInput =
  in_tool :: ustr
  in_file_path :: "ustr option"
  in_diff :: "ustr option"
  in_new_text :: "ustr option"
  in_old_text :: "ustr option"
  in_session_id :: "ustr option"
  in_ts_ms :: "int option"

record ObservationScope =
  anchor_kind :: ustr
  anchor_key :: ustr
  parent_path :: "ustr option"
  display_name :: "ustr option"

record Observation =
  obs_session_id :: ustr
  obs_ts_ms :: int
  obs_type :: ustr
  obs_tool :: ustr
  obs_file_path :: "ustr option"
  obs_scope :: "ObservationScope option"
  obs_title :: ustr
  obs_narrative :: "ustr option"
  obs_diff_excerpt :: "ustr option"
  obs_content_hash :: ustr

definition DIFF_EXCERPT_MAX_BYTES :: nat where "DIFF_EXCERPT_MAX_BYTES = 1024"
definition OBS_TITLE_MAX_CHARS :: nat where "OBS_TITLE_MAX_CHARS = 120"
definition NARRATIVE_MAX_CHARS :: nat where "NARRATIVE_MAX_CHARS = 500"

section \<open>Operations\<close>

definition is_privacy_denied :: "ustr \<Rightarrow> bool" where
  "is_privacy_denied path \<longleftrightarrow> list_ex (\<lambda>segment.
     let name = to_ascii_lowercase segment in
       name = lit ''.env'' \<or> starts_with name (lit ''.env.'') \<or> str_contains name (lit ''.secrets'')
       \<or> ends_with name (lit ''.key'') \<or> ends_with name (lit ''.pem'')
       \<or> name = lit ''id_rsa'' \<or> starts_with name (lit ''id_rsa.'')
       \<or> name = lit ''credentials'' \<or> starts_with name (lit ''credentials.''))
     (split_on (\<lambda>c. c = 47 \<or> c = 92) path)"

text \<open>
  Counting standalone words. The bytes of a character beyond ASCII are neither part of a marker nor word
  bytes, so the count over characters is the count over bytes. \<open>prev_word\<close> says whether the byte before the
  current position is a word byte.
\<close>

function count_words :: "ustr \<Rightarrow> bool \<Rightarrow> ustr \<Rightarrow> nat" where
  "count_words needle prev_word haystack =
     (case haystack of [] \<Rightarrow> 0
      | c # rest \<Rightarrow>
          if needle \<noteq> [] \<and> starts_with haystack needle \<and> \<not> prev_word
             \<and> (drop (length needle) haystack = [] \<or> \<not> is_word_char (hd (drop (length needle) haystack)))
          then Suc (count_words needle (is_word_char (last needle)) (drop (length needle) haystack))
          else count_words needle (is_word_char c) rest)"
  by pat_completeness auto
termination by (relation "measure (\<lambda>(n, p, h). length h)") auto

declare count_words.simps [simp del]

definition count_word_occurrences :: "ustr \<Rightarrow> ustr \<Rightarrow> nat" where
  "count_word_occurrences haystack needle = (if needle = [] then 0 else count_words needle False haystack)"

definition removes_bug_marker :: "ustr \<Rightarrow> ustr \<Rightarrow> bool" where
  "removes_bug_marker old new \<longleftrightarrow>
     list_ex (\<lambda>marker. count_word_occurrences old marker > count_word_occurrences new marker)
       (map lit [''FIXME'', ''BUG'', ''TODO''])"

definition strip_ws :: "ustr \<Rightarrow> ustr" where
  "strip_ws s = filter (\<lambda>c. \<not> is_whitespace c) s"

text \<open>The lines of one side of a diff, the file headers skipped.\<close>

definition diff_body :: "ustr \<Rightarrow> ustr list" where
  "diff_body diff = filter (\<lambda>l. \<not> starts_with l (lit ''---'') \<and> \<not> starts_with l (lit ''+++'')) (lines diff)"

definition side_text :: "uchar \<Rightarrow> ustr \<Rightarrow> ustr" where
  "side_text sign diff = unlines (List.map_filter (\<lambda>l. strip_prefix l [sign]) (diff_body diff))"

definition diff_has_change_lines :: "ustr \<Rightarrow> bool" where
  "diff_has_change_lines diff \<longleftrightarrow>
     list_ex (\<lambda>l. starts_with l (lit ''-'') \<or> starts_with l (lit ''+'')) (diff_body diff)"

definition diff_is_whitespace_only :: "ustr \<Rightarrow> bool" where
  "diff_is_whitespace_only diff \<longleftrightarrow>
     list_ex (\<lambda>l. starts_with l (lit ''-'') \<or> starts_with l (lit ''+'')) (diff_body diff)
     \<and> strip_ws (side_text 45 diff) = strip_ws (side_text 43 diff)"

definition determine_obs_type :: "ClassifyInput \<Rightarrow> ustr" where
  "determine_obs_type input =
     (if in_tool input = lit ''Write'' \<and> in_old_text input = None then lit ''feature''
      else if (case in_old_text input of None \<Rightarrow> False
               | Some old \<Rightarrow> removes_bug_marker old (case in_new_text input of Some n \<Rightarrow> n | None \<Rightarrow> []))
      then lit ''bugfix''
      else if (case in_diff input of None \<Rightarrow> False | Some d \<Rightarrow> diff_is_whitespace_only d) then lit ''refactor''
      else if (case in_diff input of None \<Rightarrow> False | Some d \<Rightarrow> diff_has_change_lines d) then lit ''change''
      else if (case (in_old_text input, in_new_text input) of
                 (Some old, Some new) \<Rightarrow> strip_ws old = strip_ws new \<and> old \<noteq> new | _ \<Rightarrow> False)
      then lit ''refactor''
      else lit ''change'')"

text \<open>\<^verbatim>\<open>truncate_chars\<close> with its trailing ellipsis.\<close>

definition truncate_with_ellipsis :: "ustr \<Rightarrow> nat \<Rightarrow> ustr" where
  "truncate_with_ellipsis s max_chars = (if length s \<le> max_chars then s else take (max_chars - 1) s @ [8230])"

definition build_title :: "ustr \<Rightarrow> ustr \<Rightarrow> ustr \<Rightarrow> ustr" where
  "build_title tool file_path ty =
     (let hint = (if ty = lit ''feature'' then lit ''new file''
                  else if ty = lit ''bugfix'' then lit ''remove bug marker''
                  else if ty = lit ''refactor'' then lit ''whitespace/rename'' else lit ''edit'')
      in truncate_with_ellipsis (tool @ lit '' '' @ file_path @ lit '': '' @ hint) OBS_TITLE_MAX_CHARS)"

text \<open>A line feed goes before every line but those in front of the first non-empty one.\<close>

definition collect_line :: "ustr \<Rightarrow> ustr \<Rightarrow> ustr" where
  "collect_line line collected = (if collected \<noteq> [] then collected @ [newline] else collected) @ line"

definition build_narrative :: "ClassifyInput \<Rightarrow> ustr option" where
  "build_narrative input =
     Option.bind (in_diff input) (\<lambda>d.
       let collected = fold collect_line (take 6 (lines (strip_private_tagged_regions d))) [] in
       if collected = [] then None else Some (truncate_with_ellipsis collected NARRATIVE_MAX_CHARS))"

definition truncate_diff_excerpt :: "ustr \<Rightarrow> ustr" where
  "truncate_diff_excerpt diff =
     (if utf8_len diff \<le> DIFF_EXCERPT_MAX_BYTES then diff
      else clamp_bytes DIFF_EXCERPT_MAX_BYTES diff @ [newline, 8230] @ lit ''[truncated]'')"

definition compute_content_hash :: "(ustr \<Rightarrow> ustr) \<Rightarrow> ustr \<Rightarrow> ustr option \<Rightarrow> ustr \<Rightarrow> ustr option \<Rightarrow> ustr" where
  "compute_content_hash sha256_hex session_id file_path title narrative =
     take 16 (sha256_hex (session_id @ lit ''|'' @ (case file_path of Some p \<Rightarrow> p | None \<Rightarrow> []) @ lit ''|''
       @ title @ lit ''|'' @ (case narrative of Some n \<Rightarrow> n | None \<Rightarrow> [])))"

definition derive_scope :: "ustr \<Rightarrow> ObservationScope option" where
  "derive_scope file_path =
     (let trimmed = trim_matches 47 file_path in
      if trimmed = [] then None
      else let parts = filter (\<lambda>p. p \<noteq> []) (split_on (\<lambda>c. c = 47) trimmed) in
        if parts = [] then None
        else Some \<lparr>anchor_kind = lit ''file'', anchor_key = str_join (lit ''/'') parts,
               parent_path = (if length parts > 1 then Some (str_join (lit ''/'') (butlast parts)) else None),
               display_name = Some (last parts)\<rparr>)"

definition classify :: "(ustr \<Rightarrow> ustr) \<Rightarrow> int \<Rightarrow> ClassifyInput \<Rightarrow> Observation option" where
  "classify sha256_hex now input =
     (if in_tool input \<notin> set (map lit [''Edit'', ''MultiEdit'', ''Write'']) then None
      else Option.bind (in_file_path input) (\<lambda>path.
        if is_privacy_denied path then None
        else if in_diff input = None \<and> in_new_text input = None then None
        else let ty = determine_obs_type input;
                 title = build_title (in_tool input) path ty;
                 narrative = build_narrative input;
                 session = (case in_session_id input of Some s \<Rightarrow> s | None \<Rightarrow> []) in
          Some \<lparr>obs_session_id = session,
            obs_ts_ms = (case in_ts_ms input of Some t \<Rightarrow> t | None \<Rightarrow> now),
            obs_type = ty, obs_tool = in_tool input, obs_file_path = Some path, obs_scope = derive_scope path,
            obs_title = title, obs_narrative = narrative,
            obs_diff_excerpt = map_option (\<lambda>d. truncate_diff_excerpt (strip_private_tagged_regions d)) (in_diff input),
            obs_content_hash = compute_content_hash sha256_hex session (Some path) title narrative\<rparr>))"

section \<open>Tags and truncation\<close>

lemma tag_free_sublist: "tag_free s \<Longrightarrow> sublist t s \<Longrightarrow> tag_free t"
proof (rule tag_freeI, rule notI)
  fix p c
  assume *: "tag_free s" "sublist t s" "(p, c) \<in> set PRIVATE_TAG_PAIRS" "sublist p (to_ascii_lowercase t)"
  have "sublist (to_ascii_lowercase t) (to_ascii_lowercase s)"
    using *(2) unfolding to_ascii_lowercase_def by (rule map_mono_sublist)
  with *(4) have "sublist p (to_ascii_lowercase s)" by (rule sublist_order.order_trans)
  with tag_freeD [OF *(1,3)] show False by simp
qed

lemma tag_free_sep:
  assumes "tag_free a" "tag_free b" "x \<in> {newline, 8230}"
  shows "tag_free (a @ x # b)"
proof (rule tag_freeI, rule notI)
  fix p c
  assume tag: "(p, c) \<in> set PRIVATE_TAG_PAIRS" and "sublist p (to_ascii_lowercase (a @ x # b))"
  moreover have "to_ascii_lower x = x" using assms(3) by (auto simp: to_ascii_lower_def newline_def ascii_class_defs)
  ultimately have "sublist p (to_ascii_lowercase a @ x # to_ascii_lowercase b)" by (simp add: to_ascii_lowercase_def)
  moreover have "x \<notin> set p" using tag assms(3) by (auto simp: PRIVATE_TAG_PAIRS_def lit_def newline_def)
  ultimately show False using sublist_sep [of p _ x] tag_freeD [OF assms(1) tag] tag_freeD [OF assms(2) tag] by blast
qed

lemma tag_free_Nil: "tag_free []"
  by code_simp

lemma sublist_split_on: "seg \<in> set (split_on p s) \<Longrightarrow> sublist seg s"
proof (induction s arbitrary: seg)
  case (Cons c s)
  obtain x xs where sp: "split_on p s = x # xs" by (cases "split_on p s"; cases s) (auto split: list.splits if_splits)
  have head: "prefix x s" using sp
  proof (induction s arbitrary: x xs)
    case (Cons d s)
    then show ?case by (auto split: if_splits list.splits)
  qed simp
  have "sublist seg (c # s)" if "seg \<in> set (split_on p s)" using Cons.IH [OF that] by (simp add: sublist_Cons_right)
  moreover have "sublist (c # x) (c # s)" using head by (simp add: prefix_imp_sublist)
  ultimately show ?case using Cons.prems sp by (auto split: if_splits)
qed simp

lemma sublist_lines: "l \<in> set (lines s) \<Longrightarrow> sublist l s"
proof -
  have "l \<in> set (lines_of segs) \<Longrightarrow> \<exists>seg \<in> set segs. prefix l seg" for segs
    by (induction segs rule: lines_of.induct) (auto simp: strip_cr_def prefixeq_butlast split: if_splits)
  then show "l \<in> set (lines s) \<Longrightarrow> sublist l s"
    unfolding lines_def using sublist_split_on prefix_imp_sublist sublist_order.order_trans by meson
qed

lemma tag_free_collect:
  "tag_free acc \<Longrightarrow> \<forall>l \<in> set ls. tag_free l \<Longrightarrow> tag_free (fold collect_line ls acc)"
proof (induction ls arbitrary: acc)
  case (Cons l ls)
  have "tag_free (collect_line l acc)" using Cons.prems tag_free_sep [of acc l newline] by (auto simp: collect_line_def)
  with Cons show ?case by simp
qed simp

lemma length_truncate_with_ellipsis: "0 < n \<Longrightarrow> length (truncate_with_ellipsis s n) \<le> n"
  by (auto simp: truncate_with_ellipsis_def)

lemma tag_free_truncate: "tag_free s \<Longrightarrow> tag_free (truncate_with_ellipsis s n)"
  using tag_free_sep [OF tag_free_sublist [of s "take (n - 1) s"] tag_free_Nil, of 8230]
  by (simp add: truncate_with_ellipsis_def prefix_imp_sublist take_is_prefix)

lemma tag_free_stripped: "tag_free (strip_private_tagged_regions d)"
  unfolding strip_private_tagged_regions_def by (rule strip_loop_tag_free) simp

lemma truncate_diff_excerpt_bounds:
  "utf8_len (truncate_diff_excerpt d) \<le> 1039"
proof -
  have "utf8_len ([newline, 8230] @ lit ''[truncated]'') = 15" by code_simp
  then show ?thesis using utf8_len_clamp_bytes [of 1024 d]
    by (auto simp: truncate_diff_excerpt_def DIFF_EXCERPT_MAX_BYTES_def utf8_len_def)
qed

lemma tag_free_excerpt:
  assumes "tag_free d"
  shows "tag_free (truncate_diff_excerpt d)"
proof -
  have "tag_free (clamp_bytes DIFF_EXCERPT_MAX_BYTES d)"
    by (rule tag_free_sublist [OF assms prefix_imp_sublist [OF prefix_clamp_bytes]])
  moreover have "tag_free (8230 # lit ''[truncated]'')" by code_simp
  ultimately show ?thesis using assms tag_free_sep [of _ "8230 # lit ''[truncated]''" newline]
    by (auto simp: truncate_diff_excerpt_def)
qed

section \<open>Properties\<close>

text \<open>
  What leaves the machine as an observation is bounded and clean: an observation is only made of an edit by one of
  the three editing tools to a path that is not denied; its title has at most 120 characters, its
  narrative at most 500 and its excerpt at most 1039 bytes, and neither narrative nor excerpt
  contains the start of a region tagged as private.
\<close>

theorem observation_bounded_and_clean:
  assumes "classify sha256_hex now input = Some obs"
  shows "(\<exists>path. in_file_path input = Some path \<and> obs_file_path obs = Some path \<and> \<not> is_privacy_denied path)
    \<and> obs_tool obs \<in> {lit ''Edit'', lit ''MultiEdit'', lit ''Write''}
    \<and> length (obs_title obs) \<le> 120
    \<and> (case obs_narrative obs of None \<Rightarrow> True | Some n \<Rightarrow> length n \<le> 500 \<and> tag_free n)
    \<and> (case obs_diff_excerpt obs of None \<Rightarrow> True | Some e \<Rightarrow> utf8_len e \<le> 1039 \<and> tag_free e)"
proof -
  obtain path where path: "in_tool input \<in> {lit ''Edit'', lit ''MultiEdit'', lit ''Write''}"
    "in_file_path input = Some path" "\<not> is_privacy_denied path"
    and obs: "obs_tool obs = in_tool input" "obs_file_path obs = Some path"
    "obs_title obs = build_title (in_tool input) path (determine_obs_type input)"
    "obs_narrative obs = build_narrative input"
    "obs_diff_excerpt obs = map_option (\<lambda>d. truncate_diff_excerpt (strip_private_tagged_regions d)) (in_diff input)"
    using assms by (auto simp: classify_def bind_eq_Some_conv Let_def split: if_splits)
  have "length (obs_title obs) \<le> 120"
    using length_truncate_with_ellipsis [of 120] by (simp add: obs build_title_def OBS_TITLE_MAX_CHARS_def)
  moreover have "length n \<le> 500 \<and> tag_free n" if n: "build_narrative input = Some n" for n
  proof -
    obtain d where d: "n = truncate_with_ellipsis (fold collect_line (take 6 (lines (strip_private_tagged_regions d))) []) 500"
      using n by (auto simp: build_narrative_def bind_eq_Some_conv Let_def NARRATIVE_MAX_CHARS_def split: if_splits)
    have "tag_free l" if "l \<in> set (take 6 (lines (strip_private_tagged_regions d)))" for l
      using in_set_takeD [OF that] tag_free_sublist [OF tag_free_stripped sublist_lines] by blast
    then show ?thesis unfolding d
      by (intro conjI length_truncate_with_ellipsis tag_free_truncate tag_free_collect) (auto simp: tag_free_Nil)
  qed
  moreover have "utf8_len e \<le> 1039 \<and> tag_free e" if "obs_diff_excerpt obs = Some e" for e
    using that truncate_diff_excerpt_bounds tag_free_excerpt [OF tag_free_stripped] by (auto simp: obs(5))
  ultimately show ?thesis using path obs by (auto split: option.split)
qed

definition demo_edit :: ClassifyInput where
  "demo_edit = \<lparr>in_tool = lit ''Edit'', in_file_path = Some (lit ''/src/a.rs''),
     in_diff = Some (lit ''-x <private>k'' @ [newline] @ lit ''+y''), in_new_text = None, in_old_text = None,
     in_session_id = None, in_ts_ms = Some 7\<rparr>"

theorem observation_bounded_and_clean_witness:
  "\<exists>obs. classify id 0 demo_edit = Some obs \<and> length (obs_title obs) \<le> 120
     \<and> obs_tool obs \<in> {lit ''Edit'', lit ''MultiEdit'', lit ''Write''}"
proof -
  have "classify id 0 demo_edit \<noteq> None" by code_simp
  then obtain obs where "classify id 0 demo_edit = Some obs" by auto
  with observation_bounded_and_clean [OF this] show ?thesis by blast
qed

text \<open>
  The deny list is narrower than its description: of the families \<^verbatim>\<open>.env*\<close>, \<^verbatim>\<open>id_rsa*\<close> and
  \<^verbatim>\<open>credentials*\<close> only the plain names and those that go on with a dot are denied.
\<close>

theorem deny_list_misses_variants:
  "list_all (\<lambda>p. \<not> is_privacy_denied p) [lit ''.envrc'', lit ''.env-production'', lit ''keys/id_rsa_backup'',
     lit ''aws/credentials_old'']
   \<and> list_all is_privacy_denied [lit ''.env'', lit ''a/.ENV.local'', lit ''keys/id_rsa.bak'', lit ''aws/credentials.json'']"
  by code_simp

end
