(* ===== verification/Autopilot_Schedule.thy ===== *)
theory Autopilot_Schedule
  imports Effects Json
begin

text \<open>
  \<^verbatim>\<open>crates/difflore-core/src/memory_autopilot_schedule.rs\<close>: the single row of the schedule table, by which
  hooks, commands and background workers agree on who runs the memory autopilot, and the events it logs
  (\<^verbatim>\<open>memory_autopilot/log.rs\<close>).

  SQLite's timestamps are milliseconds: \<^verbatim>\<open>strftime('%Y-%m-%dT%H:%M:%f')\<close> writes them at that resolution and
  \<^verbatim>\<open>julianday\<close> compares them at that resolution; \<^verbatim>\<open>'now'\<close> is one reading of the clock for a whole statement.
  The run of the autopilot itself is a parameter, and so are the printer and the parser of JSON.
\<close>

section \<open>Data\<close>

record schedule_row =
  enabled :: bool
  dirty :: bool
  last_dirty_at :: "int option"
  last_dirty_reason :: "ustr option"
  last_trigger_at :: "int option"
  last_trigger_reason :: "ustr option"
  last_run_at :: "int option"
  lease_owner :: "ustr option"
  lease_expires_at :: "int option"
  last_result :: ustr
  trigger_count :: int
  dirty_mark_count :: int
  spawn_attempt_count :: int
  spawn_success_count :: int
  run_count :: int
  productive_run_count :: int
  skip_count :: int
  last_skip_reason :: "ustr option"

record autopilot_event =
  event_type :: ustr
  event_rule_id :: "ustr option"
  event_item_ids :: "ustr list"
  event_group_id :: "ustr option"
  event_title :: ustr
  event_reason :: ustr
  event_payload :: ustr

record autopilot_db =
  schedule :: "schedule_row option"
  events :: "autopilot_event list"

record AutopilotScheduleRequest =
  request_reason :: ustr
  cooldown_secs :: int
  request_owner :: ustr

record MemoryAutopilotReport =
  auto_enabled :: nat
  skipped :: nat
  auto_enable_groups :: nat
  needs_review_groups :: nat
  max_auto_enable :: nat

record MemoryAutopilotOptions =
  opt_dry_run :: bool
  opt_max_auto_enable :: nat
  opt_curator_max_candidates :: "nat option"

record 'f MemoryAutopilotScheduleStatus =
  status_row :: schedule_row
  status_last_result :: "'f json"

record 'f MemoryAutopilotBackgroundRun =
  run_lease_owner :: ustr
  productive :: bool
  enabled_count :: nat
  skipped_count :: nat
  remaining_auto_enable_groups :: nat
  run_needs_review_groups :: nat
  started_at :: int
  run_result :: "'f json"

definition BACKGROUND_LEASE_SECS :: int where "BACKGROUND_LEASE_SECS = 600"
definition BACKGROUND_AUTOPILOT_LIMIT :: nat where "BACKGROUND_AUTOPILOT_LIMIT = 3"
definition BACKGROUND_CURATOR_LIMIT :: nat where "BACKGROUND_CURATOR_LIMIT = 3"
definition SESSION_END_AUTOPILOT_COOLDOWN_SECS :: int where "SESSION_END_AUTOPILOT_COOLDOWN_SECS = 300"
definition EXPLICIT_AUTOPILOT_COOLDOWN_SECS :: int where "EXPLICIT_AUTOPILOT_COOLDOWN_SECS = 60"

section \<open>Statements\<close>

text \<open>The values of \<^verbatim>\<open>DEFAULT\<close> in the table definition.\<close>

definition default_row :: schedule_row where
  "default_row = \<lparr>enabled = True, dirty = False, last_dirty_at = None, last_dirty_reason = None,
     last_trigger_at = None, last_trigger_reason = None, last_run_at = None, lease_owner = None,
     lease_expires_at = None, last_result = lit ''{}'', trigger_count = 0, dirty_mark_count = 0,
     spawn_attempt_count = 0, spawn_success_count = 0, run_count = 0, productive_run_count = 0,
     skip_count = 0, last_skip_reason = None\<rparr>"

definition insert_default_stmt :: "'x autopilot_db_scheme \<Rightarrow> unit \<times> 'x autopilot_db_scheme" where
  "insert_default_stmt d = ((), case schedule d of None \<Rightarrow> d\<lparr>schedule := Some default_row\<rparr> | Some _ \<Rightarrow> d)"

text \<open>\<^verbatim>\<open>UPDATE .. WHERE id = 1 AND ..\<close>: the number of rows affected.\<close>

definition update_row ::
  "(schedule_row \<Rightarrow> bool) \<Rightarrow> (schedule_row \<Rightarrow> schedule_row) \<Rightarrow> 'x autopilot_db_scheme \<Rightarrow> nat \<times> 'x autopilot_db_scheme" where
  "update_row P f d = (case schedule d of
     Some r \<Rightarrow> if P r then (1, d\<lparr>schedule := Some (f r)\<rparr>) else (0, d)
   | None \<Rightarrow> (0, d))"

text \<open>\<^verbatim>\<open>julianday(lease_expires_at) < julianday('now')\<close>, not true of a missing value.\<close>

definition before :: "int option \<Rightarrow> int \<Rightarrow> bool" where
  "before t now \<longleftrightarrow> (case t of Some x \<Rightarrow> x < now | None \<Rightarrow> False)"

definition not_before :: "int option \<Rightarrow> int \<Rightarrow> bool" where
  "not_before t now \<longleftrightarrow> (case t of Some x \<Rightarrow> x \<ge> now | None \<Rightarrow> False)"

definition lease_free :: "int \<Rightarrow> schedule_row \<Rightarrow> bool" where
  "lease_free now r \<longleftrightarrow> lease_owner r = None \<or> before (lease_expires_at r) now"

definition cooled_down :: "int \<Rightarrow> int \<Rightarrow> schedule_row \<Rightarrow> bool" where
  "cooled_down cooldown now r \<longleftrightarrow> last_run_at r = None \<or> before (last_run_at r) (now - cooldown * 1000)"

definition dirty_stmt :: "ustr \<Rightarrow> int \<Rightarrow> 'x autopilot_db_scheme \<Rightarrow> nat \<times> 'x autopilot_db_scheme" where
  "dirty_stmt reason now = update_row (\<lambda>_. True) (\<lambda>r. r\<lparr>dirty := True, last_dirty_at := Some now,
     last_dirty_reason := Some reason, last_trigger_at := Some now, last_trigger_reason := Some reason,
     trigger_count := trigger_count r + 1, dirty_mark_count := dirty_mark_count r + 1\<rparr>)"

definition acquire_stmt ::
  "ustr \<Rightarrow> ustr \<Rightarrow> int \<Rightarrow> int \<Rightarrow> 'x autopilot_db_scheme \<Rightarrow> nat \<times> 'x autopilot_db_scheme" where
  "acquire_stmt owner reason cooldown now = update_row
     (\<lambda>r. enabled r \<and> dirty r \<and> lease_free now r \<and> cooled_down cooldown now r)
     (\<lambda>r. r\<lparr>lease_owner := Some owner, lease_expires_at := Some (now + BACKGROUND_LEASE_SECS * 1000),
        last_trigger_at := Some now, last_trigger_reason := Some reason,
        trigger_count := trigger_count r + 1, spawn_attempt_count := spawn_attempt_count r + 1,
        last_skip_reason := None\<rparr>)"

definition skip_reason :: "int \<Rightarrow> int \<Rightarrow> schedule_row \<Rightarrow> ustr" where
  "skip_reason cooldown now r =
     (if \<not> enabled r then lit ''disabled''
      else if \<not> dirty r then lit ''not_dirty''
      else if lease_owner r \<noteq> None \<and> not_before (lease_expires_at r) now then lit ''lease_held''
      else if last_run_at r \<noteq> None \<and> not_before (last_run_at r) (now - cooldown * 1000) then lit ''cooldown''
      else lit ''unknown'')"

definition skip_stmt :: "ustr \<Rightarrow> int \<Rightarrow> int \<Rightarrow> 'x autopilot_db_scheme \<Rightarrow> nat \<times> 'x autopilot_db_scheme" where
  "skip_stmt reason cooldown now = update_row (\<lambda>_. True) (\<lambda>r. r\<lparr>trigger_count := trigger_count r + 1,
     spawn_attempt_count := spawn_attempt_count r + 1, skip_count := skip_count r + 1,
     last_trigger_at := Some now, last_trigger_reason := Some reason,
     last_skip_reason := Some (skip_reason cooldown now r)\<rparr>)"

definition manual_stmt :: "ustr \<Rightarrow> int \<Rightarrow> 'x autopilot_db_scheme \<Rightarrow> nat \<times> 'x autopilot_db_scheme" where
  "manual_stmt owner now = update_row (lease_free now)
     (\<lambda>r. r\<lparr>lease_owner := Some owner, lease_expires_at := Some (now + BACKGROUND_LEASE_SECS * 1000),
        last_trigger_at := Some now, last_trigger_reason := Some (lit ''manual''),
        trigger_count := trigger_count r + 1\<rparr>)"

definition spawned_stmt :: "ustr \<Rightarrow> 'x autopilot_db_scheme \<Rightarrow> nat \<times> 'x autopilot_db_scheme" where
  "spawned_stmt owner = update_row (\<lambda>r. lease_owner r = Some owner)
     (\<lambda>r. r\<lparr>spawn_success_count := spawn_success_count r + 1\<rparr>)"

definition release_stmt :: "ustr \<Rightarrow> ustr \<Rightarrow> 'x autopilot_db_scheme \<Rightarrow> nat \<times> 'x autopilot_db_scheme" where
  "release_stmt owner reason = update_row (\<lambda>r. lease_owner r = Some owner)
     (\<lambda>r. r\<lparr>lease_owner := None, lease_expires_at := None, last_skip_reason := Some reason\<rparr>)"

definition owns_stmt :: "ustr \<Rightarrow> int \<Rightarrow> 'x autopilot_db_scheme \<Rightarrow> nat \<times> 'x autopilot_db_scheme" where
  "owns_stmt owner now d = ((case schedule d of
     Some r \<Rightarrow> if lease_owner r = Some owner \<and> not_before (lease_expires_at r) now then 1 else 0
   | None \<Rightarrow> 0), d)"

definition finish_stmt ::
  "ustr \<Rightarrow> int \<Rightarrow> bool \<Rightarrow> ustr \<Rightarrow> int \<Rightarrow> 'x autopilot_db_scheme \<Rightarrow> nat \<times> 'x autopilot_db_scheme" where
  "finish_stmt owner started was_productive result now = update_row (\<lambda>r. lease_owner r = Some owner)
     (\<lambda>r. r\<lparr>last_run_at := Some now,
        dirty := (if last_dirty_at r = None \<or> before (last_dirty_at r) started then False else dirty r),
        lease_owner := None, lease_expires_at := None, last_result := result, run_count := run_count r + 1,
        productive_run_count := productive_run_count r + (if was_productive then 1 else 0), last_skip_reason := None\<rparr>)"

definition event_stmt :: "autopilot_event \<Rightarrow> 'x autopilot_db_scheme \<Rightarrow> unit \<times> 'x autopilot_db_scheme" where
  "event_stmt e d = ((), d\<lparr>events := events d @ [e]\<rparr>)"

section \<open>Operations\<close>

definition ensure_autopilot_schedule_table :: "('x autopilot_db_scheme, unit) io" where
  "ensure_autopilot_schedule_table = skip_result (sql (\<lambda>d. ((), d))) (sql insert_default_stmt)"

definition ensure_autopilot_events_table :: "('x autopilot_db_scheme, unit) io" where
  "ensure_autopilot_events_table = sql (\<lambda>d. ((), d))"

definition record_autopilot_event :: "autopilot_event \<Rightarrow> ('x autopilot_db_scheme, unit) io" where
  "record_autopilot_event e = skip_result ensure_autopilot_events_table (sql (event_stmt e))"

definition mark_autopilot_dirty :: "ustr \<Rightarrow> ('x autopilot_db_scheme, unit) io" where
  "mark_autopilot_dirty reason =
     skip_result ensure_autopilot_schedule_table (andthen (sql_now (dirty_stmt reason)) (\<lambda>_. ret ()))"

definition record_autopilot_skip :: "ustr \<Rightarrow> int \<Rightarrow> ('x autopilot_db_scheme, unit) io" where
  "record_autopilot_skip reason cooldown = andthen (sql_now (skip_stmt reason cooldown)) (\<lambda>_. ret ())"

definition try_acquire_autopilot_lease :: "AutopilotScheduleRequest \<Rightarrow> ('x autopilot_db_scheme, bool) io" where
  "try_acquire_autopilot_lease request =
     (let cooldown = max 0 (cooldown_secs request) in
      skip_result ensure_autopilot_schedule_table
       (andthen (sql_now (acquire_stmt (request_owner request) (request_reason request) cooldown)) (\<lambda>affected.
          if affected = 1 then ret True
          else andthen (record_autopilot_skip (request_reason request) cooldown) (\<lambda>_. ret False))))"

definition try_acquire_manual_autopilot_lease :: "ustr \<Rightarrow> ('x autopilot_db_scheme, bool) io" where
  "try_acquire_manual_autopilot_lease owner =
     skip_result ensure_autopilot_schedule_table
       (andthen (sql_now (manual_stmt owner)) (\<lambda>affected. ret (affected = 1)))"

definition note_autopilot_spawn_success :: "ustr \<Rightarrow> ('x autopilot_db_scheme, unit) io" where
  "note_autopilot_spawn_success owner =
     skip_result ensure_autopilot_schedule_table (andthen (sql (spawned_stmt owner)) (\<lambda>_. ret ()))"

definition release_autopilot_lease :: "ustr \<Rightarrow> ustr \<Rightarrow> ('x autopilot_db_scheme, unit) io" where
  "release_autopilot_lease owner reason =
     skip_result ensure_autopilot_schedule_table (andthen (sql (release_stmt owner reason)) (\<lambda>_. ret ()))"

definition finish_autopilot_run ::
  "('f json \<Rightarrow> ustr) \<Rightarrow> ustr \<Rightarrow> int \<Rightarrow> bool \<Rightarrow> 'f json \<Rightarrow> ('x autopilot_db_scheme, unit) io" where
  "finish_autopilot_run to_text owner started was_productive result =
     andthen (sql_now (finish_stmt owner started was_productive (to_text result))) (\<lambda>_. ret ())"

text \<open>The stored results; \<open>show_time\<close> renders a timestamp.\<close>

definition ok_result :: "(int \<Rightarrow> ustr) \<Rightarrow> int \<Rightarrow> MemoryAutopilotReport \<Rightarrow> 'f json" where
  "ok_result show_time started report = JObject
     [(lit ''status'', JString (lit ''ok'')), (lit ''productive'', JBool (auto_enabled report > 0)),
      (lit ''enabledCount'', JPosInt (auto_enabled report)), (lit ''skippedCount'', JPosInt (skipped report)),
      (lit ''remainingAutoEnableGroups'', JPosInt (auto_enable_groups report)),
      (lit ''needsReviewGroups'', JPosInt (needs_review_groups report)),
      (lit ''maxAutoEnable'', JPosInt (max_auto_enable report)), (lit ''startedAt'', JString (show_time started))]"

definition error_result :: "(int \<Rightarrow> ustr) \<Rightarrow> int \<Rightarrow> ustr \<Rightarrow> 'f json" where
  "error_result show_time started err = JObject
     [(lit ''status'', JString (lit ''error'')), (lit ''productive'', JBool False),
      (lit ''error'', JString err), (lit ''startedAt'', JString (show_time started))]"

definition background_event :: "('f json \<Rightarrow> ustr) \<Rightarrow> ustr \<Rightarrow> ustr \<Rightarrow> 'f json \<Rightarrow> autopilot_event" where
  "background_event to_text ty reason payload = \<lparr>event_type = ty, event_rule_id = None, event_item_ids = [],
     event_group_id = None, event_title = lit ''Background memory autopilot'', event_reason = reason,
     event_payload = to_text payload\<rparr>"

definition background_options :: MemoryAutopilotOptions where
  "background_options = \<lparr>opt_dry_run = False, opt_max_auto_enable = BACKGROUND_AUTOPILOT_LIMIT,
     opt_curator_max_candidates = Some BACKGROUND_CURATOR_LIMIT\<rparr>"

text \<open>What a background run does with the outcome of the autopilot.\<close>

definition settle_background ::
  "('f json \<Rightarrow> ustr) \<Rightarrow> (int \<Rightarrow> ustr) \<Rightarrow> ustr \<Rightarrow> int \<Rightarrow> ustr + MemoryAutopilotReport
    \<Rightarrow> ('x autopilot_db_scheme, 'f MemoryAutopilotBackgroundRun) io" where
  "settle_background to_text show_time owner started outcome =
     (case outcome of
        Inr report \<Rightarrow>
          (let was_productive = auto_enabled report > 0; result = ok_result show_time started report in
           skip_result (finish_autopilot_run to_text owner started was_productive result)
            (skip_result (record_autopilot_event (background_event to_text (lit ''background_run_finished'')
                (if was_productive then lit ''enabled high-confidence memory'' else lit ''no high-confidence memory enabled'')
                result))
             (ret \<lparr>run_lease_owner = owner, productive = was_productive, enabled_count = auto_enabled report,
                skipped_count = skipped report, remaining_auto_enable_groups = auto_enable_groups report,
                run_needs_review_groups = needs_review_groups report, started_at = started, run_result = result\<rparr>)))
      | Inl err \<Rightarrow>
          (let result = error_result show_time started err in
           skip_result (finish_autopilot_run to_text owner started False result)
            (skip_result (record_autopilot_event (background_event to_text (lit ''background_run_failed'')
                (get_str_or result (lit ''error'') (lit ''background autopilot failed'')) result))
             (fail err))))"

definition run_background_memory_autopilot ::
  "('f json \<Rightarrow> ustr) \<Rightarrow> (int \<Rightarrow> ustr) \<Rightarrow> (MemoryAutopilotOptions \<Rightarrow> ('x autopilot_db_scheme, MemoryAutopilotReport) io) \<Rightarrow> ustr
    \<Rightarrow> ('x autopilot_db_scheme, 'f MemoryAutopilotBackgroundRun) io" where
  "run_background_memory_autopilot to_text show_time run_memory_autopilot owner =
     skip_result ensure_autopilot_schedule_table (skip_result ensure_autopilot_events_table
      (andthen (sql_now (\<lambda>now d. (now, d))) (\<lambda>started.
       andthen (sql_now (owns_stmt owner)) (\<lambda>owned.
        if owned = 0 then fail (lit ''Validation error: autopilot background lease is not held'')
        else andthen (attempt (run_memory_autopilot background_options)) (settle_background to_text show_time owner started)))))"

definition load_autopilot_schedule_status ::
  "(ustr \<Rightarrow> 'f json option) \<Rightarrow> ('x autopilot_db_scheme, 'f MemoryAutopilotScheduleStatus) io" where
  "load_autopilot_schedule_status parse_json =
     skip_result ensure_autopilot_schedule_table
       (andthen (sql (\<lambda>d. (schedule d, d))) (\<lambda>row. case row of
          None \<Rightarrow> fail (lit ''Database error: no rows returned by a query that expected to return at least one row'')
        | Some r \<Rightarrow> ret \<lparr>status_row = r, status_last_result =
            (case parse_json (last_result r) of Some v \<Rightarrow> v | None \<Rightarrow> JObject [])\<rparr>))"

section \<open>Leases\<close>

text \<open>Who holds the lease, and until when.\<close>

definition holder :: "'x autopilot_db_scheme \<Rightarrow> (ustr \<times> int) option" where
  "holder d = Option.bind (schedule d) (\<lambda>r. case (lease_owner r, lease_expires_at r) of
     (Some owner, Some e) \<Rightarrow> Some (owner, e) | _ \<Rightarrow> None)"

text \<open>
  What a client may rely on: a grant names the new holder and its term, and while somebody holds an unexpired lease
  nobody is granted one and the holder stays.
\<close>

locale lease =
  fixes acquire :: "'o \<Rightarrow> int \<Rightarrow> 'd \<Rightarrow> nat \<times> 'd"
    and held :: "'d \<Rightarrow> ('o \<times> int) option"
    and lease_term :: int
  assumes granted: "fst (acquire me now d) = 1 \<Longrightarrow> held (snd (acquire me now d)) = Some (me, now + lease_term)"
    and refused: "held d = Some (you, e) \<Longrightarrow> now \<le> e \<Longrightarrow> fst (acquire me now d) = 0"
    and undisturbed: "fst (acquire me now d) \<noteq> 1 \<Longrightarrow> snd (acquire me now d) = d"
begin

lemma second_grant_waits:
  assumes "fst (acquire a t d) = 1" "t' \<le> t + lease_term"
  shows "acquire b t' (snd (acquire a t d)) = (0, snd (acquire a t d))"
proof -
  have "fst (acquire b t' (snd (acquire a t d))) = 0" using refused [OF granted [OF assms(1)] assms(2)] .
  with undisturbed show ?thesis by (metis prod.collapse zero_neq_one)
qed

lemma refused_keeps:
  assumes "held d = Some (you, e)" "now \<le> e"
  shows "acquire me now d = (0, d)"
  using refused [OF assms, of me] undisturbed [of me now d] by (metis prod.collapse zero_neq_one)

end

lemma update_row_eq:
  "fst (update_row P f d) = (case schedule d of Some r \<Rightarrow> if P r then 1 else 0 | None \<Rightarrow> 0)"
  "snd (update_row P f d) = (case schedule d of Some r \<Rightarrow> if P r then d\<lparr>schedule := Some (f r)\<rparr> else d | None \<Rightarrow> d)"
  by (simp_all add: update_row_def split: option.split)

lemma schedule_update_row:
  "schedule (snd (update_row P f d)) = map_option (\<lambda>r. if P r then f r else r) (schedule d)"
  by (auto simp: update_row_eq split: option.split)

lemma holder_Some: "holder d = Some (owner, e) \<longleftrightarrow>
    (\<exists>r. schedule d = Some r \<and> lease_owner r = Some owner \<and> lease_expires_at r = Some e)"
  by (auto simp: holder_def bind_eq_Some_conv split: option.splits)

lemma held_not_free: "lease_owner r = Some owner \<Longrightarrow> lease_expires_at r = Some e \<Longrightarrow> now \<le> e \<Longrightarrow> \<not> lease_free now r"
  by (simp add: lease_free_def before_def)

interpretation background: lease "\<lambda>me. acquire_stmt me reason cooldown" holder "BACKGROUND_LEASE_SECS * 1000"
  by unfold_locales
    (auto simp: acquire_stmt_def update_row_eq holder_Some held_not_free split: option.splits if_splits)

interpretation manual: lease manual_stmt holder "BACKGROUND_LEASE_SECS * 1000"
  by unfold_locales
    (auto simp: manual_stmt_def update_row_eq holder_Some held_not_free split: option.splits if_splits)

section \<open>Interleavings\<close>

text \<open>The statements that any process may issue at any time; \<open>EvFinish\<close> carries the start of its run.\<close>

datatype sched_event =
    EvDirty ustr
  | EvAcquire ustr ustr int
  | EvSkip ustr int
  | EvManual ustr
  | EvSpawned ustr
  | EvRelease ustr ustr
  | EvFinish ustr int bool ustr

fun exec_sched :: "sched_event \<Rightarrow> int \<Rightarrow> 'x autopilot_db_scheme \<Rightarrow> nat \<times> 'x autopilot_db_scheme" where
  "exec_sched (EvDirty reason) now = dirty_stmt reason now"
| "exec_sched (EvAcquire owner reason cooldown) now = acquire_stmt owner reason cooldown now"
| "exec_sched (EvSkip reason cooldown) now = skip_stmt reason cooldown now"
| "exec_sched (EvManual owner) now = manual_stmt owner now"
| "exec_sched (EvSpawned owner) now = spawned_stmt owner"
| "exec_sched (EvRelease owner reason) now = release_stmt owner reason"
| "exec_sched (EvFinish owner started was_productive result) now = finish_stmt owner started was_productive result now"

fun wants_lease :: "sched_event \<Rightarrow> bool" where
  "wants_lease (EvAcquire _ _ _) = True"
| "wants_lease (EvManual _) = True"
| "wants_lease _ = False"

fun gives_up :: "ustr \<Rightarrow> sched_event \<Rightarrow> bool" where
  "gives_up me (EvRelease owner _) = (owner = me)"
| "gives_up me (EvFinish owner _ _ _) = (owner = me)"
| "gives_up me _ = False"

definition exec_all :: "(sched_event \<times> int) list \<Rightarrow> 'x autopilot_db_scheme \<Rightarrow> 'x autopilot_db_scheme" where
  "exec_all es d = fold (\<lambda>(e, now) d. snd (exec_sched e now d)) es d"

lemma holder_update_row:
  assumes "holder d = Some (me, e)"
    and "\<And>r. lease_owner r = Some me \<Longrightarrow> P r \<Longrightarrow> lease_owner (f r) = Some me \<and> lease_expires_at (f r) = lease_expires_at r"
  shows "holder (snd (update_row P f d)) = Some (me, e)"
proof -
  obtain r where "schedule d = Some r" "lease_owner r = Some me" "lease_expires_at r = Some e"
    using assms(1) by (auto simp: holder_Some)
  with assms(2) [of r] show ?thesis by (cases "P r") (auto simp: holder_Some schedule_update_row)
qed

lemma held_step:
  assumes "holder d = Some (me, e)" "now \<le> e" "\<not> gives_up me ev"
  shows "holder (snd (exec_sched ev now d)) = Some (me, e)" "wants_lease ev \<Longrightarrow> fst (exec_sched ev now d) = 0"
  using assms
proof (induction ev)
  case (EvAcquire owner reason cooldown)
  { case 1 then show ?case using background.refused_keeps [of d me e now owner reason cooldown] by simp
  next case 2 then show ?case using background.refused_keeps [of d me e now owner reason cooldown] by simp }
next
  case (EvManual owner)
  { case 1 then show ?case using manual.refused_keeps [of d me e now owner] by simp
  next case 2 then show ?case using manual.refused_keeps [of d me e now owner] by simp }
qed (auto simp: dirty_stmt_def skip_stmt_def spawned_stmt_def release_stmt_def finish_stmt_def intro!: holder_update_row)

lemma held_all:
  assumes "holder d = Some (me, e)" "\<forall>(ev, now) \<in> set es. now \<le> e \<and> \<not> gives_up me ev"
  shows "holder (exec_all es d) = Some (me, e)"
  using assms
proof (induction es arbitrary: d)
  case (Cons x es)
  obtain ev now where x: "x = (ev, now)" by fastforce
  with Cons.prems have "holder (snd (exec_sched ev now d)) = Some (me, e)" by (intro held_step(1)) auto
  with Cons x show ?case by (simp add: exec_all_def)
qed (simp add: exec_all_def)

text \<open>
  C10. The autopilot lease excludes: once a process was granted the lease, in the background or by hand, every
  other request that reaches the table within the ten minutes of the lease is refused and the holder stays, in every
  interleaving of statements of any number of processes, until the holder itself releases the lease or
  finishes its run.
\<close>

theorem autopilot_lease_exclusive:
  assumes grant: "fst (exec_sched ev t d) = 1" "ev = EvAcquire me reason cooldown \<or> ev = EvManual me"
    and others: "\<forall>(ev, now) \<in> set es. now \<le> t + 600000 \<and> \<not> gives_up me ev"
    and k: "k < length es" "wants_lease (fst (es ! k))"
  shows "holder (exec_all es (snd (exec_sched ev t d))) = Some (me, t + 600000)
    \<and> fst (exec_sched (fst (es ! k)) (snd (es ! k)) (exec_all (take k es) (snd (exec_sched ev t d)))) = 0"
proof -
  let ?d = "snd (exec_sched ev t d)"
  have h: "holder ?d = Some (me, t + 600000)"
    using grant(1,2) background.granted [of me reason cooldown t d] manual.granted [of me t d]
    by (auto simp: BACKGROUND_LEASE_SECS_def)
  have "holder (exec_all (take k es) ?d) = Some (me, t + 600000)"
    by (rule held_all [OF h]) (use others in \<open>auto dest: in_set_takeD\<close>)
  moreover have "snd (es ! k) \<le> t + 600000" "\<not> gives_up me (fst (es ! k))"
    using others nth_mem [OF k(1)] by (auto simp: case_prod_beta)
  ultimately show ?thesis using held_all [OF h others] k(2) by (auto intro: held_step(2))
qed

definition demo_schedule :: autopilot_db where
  "demo_schedule = \<lparr>schedule = Some (default_row\<lparr>dirty := True\<rparr>), events = []\<rparr>"

theorem autopilot_lease_exclusive_witness:
  "fst (exec_sched (EvManual (lit ''b'')) 700 (snd (exec_sched (EvAcquire (lit ''a'') (lit ''end'') 300) 500 demo_schedule))) = 0"
proof -
  have "fst (exec_sched (EvAcquire (lit ''a'') (lit ''end'') 300) 500 demo_schedule) = 1" by code_simp
  from autopilot_lease_exclusive [OF this, of "lit ''a''" "lit ''end''" 300 "[(EvManual (lit ''b''), 700)]" 0]
  show ?thesis by (simp add: exec_all_def)
qed

section \<open>Marks and runs\<close>

lemma dirty_step:
  assumes "schedule d = Some r" "dirty r" "last_dirty_at r = Some m" "t \<le> m" "t \<le> now"
    and "\<And>owner started p res. ev = EvFinish owner started p res \<Longrightarrow> started \<le> t"
  shows "\<exists>r' m'. schedule (snd (exec_sched ev now d)) = Some r' \<and> dirty r' \<and> last_dirty_at r' = Some m' \<and> t \<le> m'"
  using assms
  by (cases ev) (auto simp: schedule_update_row dirty_stmt_def acquire_stmt_def skip_stmt_def manual_stmt_def
      spawned_stmt_def release_stmt_def finish_stmt_def before_def)

lemma dirty_all:
  assumes "schedule d = Some r" "dirty r" "last_dirty_at r = Some m" "t \<le> m"
    and "\<forall>(ev, now) \<in> set es. t \<le> now \<and> (\<forall>owner started p res. ev = EvFinish owner started p res \<longrightarrow> started \<le> t)"
  shows "\<exists>r'. schedule (exec_all es d) = Some r' \<and> dirty r'"
  using assms
proof (induction es arbitrary: d r m)
  case (Cons x es)
  obtain ev now where x: "x = (ev, now)" by fastforce
  with Cons.prems have *: "t \<le> now" "ev = EvFinish owner started p res \<Longrightarrow> started \<le> t" for owner started p res by auto
  have "\<exists>r' m'. schedule (snd (exec_sched ev now d)) = Some r' \<and> dirty r' \<and> last_dirty_at r' = Some m' \<and> t \<le> m'"
    by (rule dirty_step [OF Cons.prems(1-4)]) (use * in auto)
  then obtain r' m' where "schedule (snd (exec_sched ev now d)) = Some r'" "dirty r'" "last_dirty_at r' = Some m'" "t \<le> m'"
    by blast
  with Cons.IH [OF this] Cons.prems(5) x show ?case by (simp add: exec_all_def)
qed (simp add: exec_all_def)

text \<open>
  No change is lost while a run is in progress: after a mark at time \<open>t\<close>, the schedule stays dirty through
  any interleaving in which every finishing run had started at or before \<open>t\<close>, and a request in the resulting
  state is granted as soon as the autopilot is enabled, the lease is free and the cooldown is over.
\<close>

theorem dirty_mark_survives_runs:
  assumes "schedule d = Some r0"
    and "\<forall>(ev, now) \<in> set es. t \<le> now \<and> (\<forall>owner started p res. ev = EvFinish owner started p res \<longrightarrow> started \<le> t)"
  shows "\<exists>r. schedule (exec_all ((EvDirty why, t) # es) d) = Some r \<and> dirty r
    \<and> (enabled r \<and> lease_free now r \<and> cooled_down cooldown now r
         \<longrightarrow> fst (exec_sched (EvAcquire owner reason cooldown) now (exec_all ((EvDirty why, t) # es) d)) = 1)"
proof -
  let ?d = "snd (exec_sched (EvDirty why) t d)"
  obtain r1 where "schedule ?d = Some r1" "dirty r1" "last_dirty_at r1 = Some t"
    using assms(1) by (simp add: dirty_stmt_def schedule_update_row)
  from dirty_all [OF this order_refl assms(2)] show ?thesis
    by (auto simp: exec_all_def acquire_stmt_def update_row_eq)
qed

theorem dirty_mark_survives_runs_witness:
  "\<exists>r. schedule (exec_all [(EvDirty (lit ''edit''), 500), (EvFinish (lit ''a'') 400 True (lit ''{}''), 600)]
      (snd (exec_sched (EvManual (lit ''a'')) 300 demo_schedule))) = Some r \<and> dirty r"
proof -
  obtain r0 where "schedule (snd (exec_sched (EvManual (lit ''a'')) 300 demo_schedule)) = Some r0"
    by (simp add: manual_stmt_def schedule_update_row demo_schedule_def)
  from dirty_mark_survives_runs [OF this, of "[(EvFinish (lit ''a'') 400 True (lit ''{}''), 600)]" 500 "lit ''edit''" 0 0 "[]" "[]"]
  show ?thesis by auto
qed

subsection \<open>A background run\<close>

lemma sql_quiet: "\<forall>n. sql_fault w n = None \<Longrightarrow> sql f w =
    (Inr (fst (f (db w))), w\<lparr>sql_calls := Suc (sql_calls w), db := snd (f (db w))\<rparr>)"
  by (simp add: sql_ok_eq)

lemma ensure_schedule_quiet:
  assumes "\<forall>n. sql_fault w n = None" "schedule (db w) = Some r"
  shows "ensure_autopilot_schedule_table w = (Inr (), w\<lparr>sql_calls := Suc (Suc (sql_calls w))\<rparr>)"
  using assms by (simp add: ensure_autopilot_schedule_table_def skip_result_def andthen_def sql_quiet insert_default_stmt_def)

lemma ensure_events_quiet:
  "\<forall>n. sql_fault w n = None \<Longrightarrow> ensure_autopilot_events_table w = (Inr (), w\<lparr>sql_calls := Suc (sql_calls w)\<rparr>)"
  by (simp add: ensure_autopilot_events_table_def sql_quiet)

lemma sql_now_quiet: "\<forall>n. sql_fault w n = None \<Longrightarrow> sql_now f w =
    (Inr (fst (f (clock w (clock_reads w)) (db w))), w\<lparr>clock_reads := Suc (clock_reads w),
       sql_calls := Suc (sql_calls w), db := snd (f (clock w (clock_reads w)) (db w))\<rparr>)"
  by (simp add: sql_now_def andthen_def utc_now_millis_def sql_quiet)

text \<open>Finishing a run and logging it, in a database without faults.\<close>

lemma finish_and_log_quiet:
  fixes k :: "('x autopilot_db_scheme, 'a) io"
  assumes "\<forall>n. sql_fault w n = None"
  shows "\<exists>w' now. skip_result (finish_autopilot_run to_text owner started p result)
      (skip_result (record_autopilot_event ev) k) w = k w'
    \<and> schedule (db w') = schedule (snd (finish_stmt owner started p (to_text result) now (db w)))
    \<and> events (db w') = events (db w) @ [ev]"
proof -
  let ?now = "clock w (clock_reads w)"
  let ?w1 = "w\<lparr>clock_reads := Suc (clock_reads w), sql_calls := Suc (sql_calls w),
      db := snd (finish_stmt owner started p (to_text result) ?now (db w))\<rparr>"
  let ?w2 = "?w1\<lparr>sql_calls := Suc (Suc (Suc (sql_calls w))), db := snd (event_stmt ev (db ?w1))\<rparr>"
  have "finish_autopilot_run to_text owner started p result w = (Inr (), ?w1)"
    using assms by (simp add: finish_autopilot_run_def andthen_def sql_now_quiet ret_def)
  moreover have "record_autopilot_event ev ?w1 = (Inr (), ?w2)"
    using assms by (simp add: record_autopilot_event_def skip_result_def andthen_def ensure_events_quiet sql_quiet event_stmt_def)
  ultimately have "skip_result (finish_autopilot_run to_text owner started p result)
      (skip_result (record_autopilot_event ev) k) w = k ?w2"
    by (simp add: skip_result_def andthen_def)
  moreover have "events (snd (finish_stmt owner started p (to_text result) ?now (db w))) = events (db w)"
    by (simp add: finish_stmt_def update_row_eq split: option.split)
  ultimately show ?thesis by (intro exI [of _ ?w2] exI [of _ ?now]) (simp add: event_stmt_def)
qed

lemma settle_background_quiet:
  assumes quiet: "\<forall>n. sql_fault w n = None" and row: "schedule (db w) = Some r" "lease_owner r = Some owner"
    and res: "settle_background to_text show_time owner started outcome w = (res, w')"
  shows "\<exists>r'. schedule (db w') = Some r' \<and> lease_owner r' = None \<and> run_count r' = run_count r + 1
    \<and> length (events (db w')) = Suc (length (events (db w)))
    \<and> (case outcome of
         Inl err \<Rightarrow> res = Inl err \<and> productive_run_count r' = productive_run_count r
       | Inr report \<Rightarrow> (\<exists>b. res = Inr b \<and> productive b = (auto_enabled report > 0))
           \<and> productive_run_count r' = productive_run_count r + (if auto_enabled report > 0 then 1 else 0))"
proof -
  have fin: "\<exists>r'. schedule (snd (finish_stmt owner started p body now (db w))) = Some r' \<and> lease_owner r' = None
      \<and> run_count r' = run_count r + 1
      \<and> productive_run_count r' = productive_run_count r + (if p then 1 else 0)" for p body now
    using row by (simp add: finish_stmt_def schedule_update_row)
  show ?thesis
  proof (cases outcome)
    case (Inl err)
    obtain w3 now where w3: "settle_background to_text show_time owner started outcome w = fail err w3"
      "schedule (db w3) = schedule (snd (finish_stmt owner started False (to_text (error_result show_time started err)) now (db w)))"
      "length (events (db w3)) = Suc (length (events (db w)))"
      unfolding settle_background_def Inl sum.case Let_def
      using finish_and_log_quiet [OF quiet, of to_text owner started False "error_result show_time started err" _ "fail err"]
      by (metis length_append_singleton)
    from fin [of False "to_text (error_result show_time started err)" now] w3 res Inl show ?thesis
      by (auto simp: fail_def)
  next
    case (Inr report)
    let ?p = "auto_enabled report > 0" and ?r = "ok_result show_time started report"
    let ?b = "\<lparr>run_lease_owner = owner, productive = ?p, enabled_count = auto_enabled report,
        skipped_count = skipped report, remaining_auto_enable_groups = auto_enable_groups report,
        run_needs_review_groups = needs_review_groups report, started_at = started, run_result = ?r\<rparr>"
    obtain w3 now where w3: "settle_background to_text show_time owner started outcome w = ret ?b w3"
      "schedule (db w3) = schedule (snd (finish_stmt owner started ?p (to_text ?r) now (db w)))"
      "length (events (db w3)) = Suc (length (events (db w)))"
      unfolding settle_background_def Inr sum.case Let_def
      using finish_and_log_quiet [OF quiet, of to_text owner started ?p ?r _ "ret ?b"] by (metis length_append_singleton)
    from fin [of ?p "to_text ?r" now] w3 res Inr show ?thesis by (auto simp: ret_def)
  qed
qed

text \<open>
  A background run always gives its lease back: if the database works and the process holds the lease when it
  starts, then whatever the autopilot does, succeed or fail, the lease is free afterwards, the run is counted once,
  it is counted as productive exactly if it enabled something, one event is logged after those of the run, and the
  caller gets the error of the autopilot if it failed. The autopilot itself is assumed to leave the schedule alone.
\<close>

theorem background_run_releases_lease:
  fixes w :: "'x autopilot_db_scheme world"
  assumes quiet: "\<forall>n. sql_fault w n = None"
    and run: "\<forall>w. schedule (db (snd (run background_options w))) = schedule (db w)
      \<and> sql_fault (snd (run background_options w)) = sql_fault w"
    and row: "schedule (db w) = Some r" "lease_owner r = Some owner"
      "not_before (lease_expires_at r) (clock w (Suc (clock_reads w)))"
    and res: "run_background_memory_autopilot to_text show_time run owner w = (res, w')"
  shows "\<exists>r' w1. schedule (db w') = Some r' \<and> lease_owner r' = None \<and> run_count r' = run_count r + 1
    \<and> length (events (db w')) = Suc (length (events (db (snd (run background_options w1)))))
    \<and> (case fst (run background_options w1) of
         Inl err \<Rightarrow> res = Inl err \<and> productive_run_count r' = productive_run_count r
       | Inr report \<Rightarrow> (\<exists>b. res = Inr b \<and> productive b = (auto_enabled report > 0))
           \<and> productive_run_count r' = productive_run_count r + (if auto_enabled report > 0 then 1 else 0))"
proof -
  let ?t = "clock w (clock_reads w)"
  let ?w1 = "w\<lparr>clock_reads := Suc (Suc (clock_reads w)), sql_calls := Suc (Suc (Suc (Suc (Suc (sql_calls w)))))\<rparr>"
  obtain out w2 where o: "run background_options ?w1 = (out, w2)" by fastforce
  have w2: "schedule (db w2) = Some r" "\<forall>n. sql_fault w2 n = None"
    using spec [OF run, of ?w1] quiet row(1) by (simp_all add: o)
  have "run_background_memory_autopilot to_text show_time run owner w = settle_background to_text show_time owner ?t out w2"
    unfolding run_background_memory_autopilot_def skip_result_def andthen_def
    using row by (simp add: ensure_schedule_quiet [OF quiet row(1)] ensure_events_quiet sql_now_quiet quiet attempt_def o
        owns_stmt_def)
  then have "settle_background to_text show_time owner ?t out w2 = (res, w')" using res by simp
  from settle_background_quiet [OF w2(2,1) row(2) this] obtain r' where r': "schedule (db w') = Some r'" "lease_owner r' = None"
    "run_count r' = run_count r + 1" "length (events (db w')) = Suc (length (events (db w2)))"
    "case out of
       Inl err \<Rightarrow> res = Inl err \<and> productive_run_count r' = productive_run_count r
     | Inr report \<Rightarrow> (\<exists>b. res = Inr b \<and> productive b = (auto_enabled report > 0))
         \<and> productive_run_count r' = productive_run_count r + (if auto_enabled report > 0 then 1 else 0)" by blast
  show ?thesis by (rule exI [of _ r'], rule exI [of _ ?w1]) (simp only: o fst_conv snd_conv r' simp_thms)
qed

definition demo_report :: MemoryAutopilotReport where
  "demo_report = \<lparr>auto_enabled = 1, skipped = 0, auto_enable_groups = 0, needs_review_groups = 0, max_auto_enable = 3\<rparr>"

theorem background_run_releases_lease_witness:
  "\<exists>r'. schedule (db (snd (run_background_memory_autopilot (\<lambda>_ :: unit json. []) (\<lambda>_. []) (\<lambda>_. ret demo_report) (lit ''a'')
      \<lparr>db = snd (exec_sched (EvManual (lit ''a'')) 300 demo_schedule), clock = (\<lambda>_. 400), clock_reads = 0,
        sql_fault = (\<lambda>_. None), sql_calls = 0\<rparr>))) = Some r' \<and> lease_owner r' = None"
proof -
  let ?w = "\<lparr>db = snd (exec_sched (EvManual (lit ''a'')) 300 demo_schedule), clock = (\<lambda>_. 400), clock_reads = 0,
      sql_fault = (\<lambda>_. None), sql_calls = 0\<rparr>"
  let ?go = "run_background_memory_autopilot (\<lambda>_ :: unit json. []) (\<lambda>_. []) (\<lambda>_. ret demo_report) (lit ''a'') ?w"
  obtain res w' where go: "?go = (res, w')" by fastforce
  obtain r where r: "schedule (db ?w) = Some r" "lease_owner r = Some (lit ''a'')" "lease_expires_at r = Some 600300"
    by (simp add: manual_stmt_def schedule_update_row demo_schedule_def lease_free_def default_row_def BACKGROUND_LEASE_SECS_def)
  from background_run_releases_lease [of ?w "\<lambda>_. ret demo_report" r "lit ''a''" "\<lambda>_ :: unit json. []" "\<lambda>_. []" res w'] go r
  show ?thesis by (auto simp: ret_def not_before_def)
qed

end
