(* ===== verification/Export_Writeback.thy ===== *)
theory Export_Writeback
  imports Prelude
begin

text \<open>
  \<^verbatim>\<open>crates/difflore-core/src/export/writeback.rs\<close> and the block it writes
  (\<^verbatim>\<open>crates/difflore-core/src/export/mod.rs\<close>): inserting a generated block of rules into a file that belongs to
  the user, or replacing an earlier one. The state is what the path names (\<open>target\<close>). The atomic
  replacement of a file either happens or fails and leaves the file alone; its outcome is a parameter, as are
  the texts of operating system errors and the hash.
\<close>

section \<open>Data\<close>

definition BEGIN_MARKER :: ustr where "BEGIN_MARKER = lit ''<!-- BEGIN DIFFLORE RULES -->''"
definition END_MARKER :: ustr where "END_MARKER = lit ''<!-- END DIFFLORE RULES -->''"
definition CONTENT_HASH_FIELD :: ustr where "CONTENT_HASH_FIELD = lit ''content-hash:''"
definition GENERATED_BLOCK_SENTINEL :: ustr where "GENERATED_BLOCK_SENTINEL = lit ''AUTO-GENERATED by difflore export''"

datatype WriteAction = Created | Updated | Unchanged | Skipped

record WriteOutcome =
  action :: WriteAction
  reason :: "ustr option"

text \<open>What a path names: nothing, a link, a directory, a file that is not readable text, a text, or an error.\<close>

datatype target =
    Missing
  | Symlink
  | Directory
  | Unreadable ustr
  | TextFile ustr
  | StatError ustr

record MarkerBlockWrite =
  req_path :: ustr
  req_block :: ustr
  req_content_hash :: ustr
  req_dry_run :: bool

record ExportBlockMeta =
  tool_version :: ustr
  generated_at_utc :: ustr
  rule_count :: nat
  repo_scopes :: "ustr list"
  local_only :: bool

section \<open>Operations\<close>

definition outcome_done :: "WriteAction \<Rightarrow> WriteOutcome" where
  "outcome_done a = \<lparr>action = a, reason = None\<rparr>"

definition outcome_skipped :: "ustr \<Rightarrow> WriteOutcome" where
  "outcome_skipped why = \<lparr>action = Skipped, reason = Some why\<rparr>"

definition has_marker_block :: "target \<Rightarrow> bool" where
  "has_marker_block t = (case t of TextFile content \<Rightarrow> str_contains content GENERATED_BLOCK_SENTINEL | _ \<Rightarrow> False)"

text \<open>\<^verbatim>\<open>matches(m).count()\<close>: occurrences that do not overlap, for a pattern that is not empty.\<close>

function count_matches :: "ustr \<Rightarrow> ustr \<Rightarrow> nat" where
  "count_matches m s =
     (if m = [] then 0
      else case str_find s m of None \<Rightarrow> 0 | Some n \<Rightarrow> Suc (count_matches m (drop (n + length m) s)))"
  by pat_completeness auto
termination
proof (relation "measure (\<lambda>(m, s). length s)")
  fix m s :: ustr and n :: nat
  assume "m \<noteq> []" "str_find s m = Some n"
  then have "0 < length m" "n + length m \<le> length s" using str_find_bound by auto
  then have "length s - (n + length m) < length s" by linarith
  then show "((m, drop (n + length m) s), (m, s)) \<in> measure (\<lambda>(m, s). length s)" by simp
qed simp

declare count_matches.simps [simp del]

definition embedded_content_hash :: "ustr \<Rightarrow> ustr option" where
  "embedded_content_hash block =
     Option.bind (str_find block CONTENT_HASH_FIELD) (\<lambda>start.
       let rest = trim_start (drop (start + length CONTENT_HASH_FIELD) block);
           hash = trim (hd (split_on (\<lambda>c. is_whitespace c \<or> c = ch CHR ''|'') rest))
       in if hash = [] then None else Some hash)"

text \<open>\<^verbatim>\<open>write_atomic\<close>: the new content, or an error and the old file.\<close>

definition write_atomic :: "ustr option \<Rightarrow> ustr \<Rightarrow> target \<Rightarrow> (ustr + unit) \<times> target" where
  "write_atomic fault content t = (case fault of None \<Rightarrow> (Inr (), TextFile content) | Some e \<Rightarrow> (Inl e, t))"

definition written :: "ustr option \<Rightarrow> bool \<Rightarrow> ustr \<Rightarrow> WriteAction \<Rightarrow> target \<Rightarrow> (ustr + WriteOutcome) \<times> target" where
  "written fault dry_run content a t =
     (if dry_run then (Inr (outcome_done a), t)
      else case write_atomic fault content t of
          (Inl e, t') \<Rightarrow> (Inl e, t')
        | (Inr _, t') \<Rightarrow> (Inr (outcome_done a), t'))"

text \<open>What an existing text becomes: the content to write, or the outcome that ends the upsert.\<close>

definition splice :: "MarkerBlockWrite \<Rightarrow> ustr \<Rightarrow> WriteOutcome + ustr" where
  "splice req existing =
     (let begins = count_matches BEGIN_MARKER existing; ends = count_matches END_MARKER existing in
      if begins > 1 \<or> ends > 1 then
        Inl (outcome_skipped (req_path req @ lit '' has multiple DiffLore markers ('' @ show_nat begins @ lit ''x `''
          @ BEGIN_MARKER @ lit ''`, '' @ show_nat ends @ lit ''x `'' @ END_MARKER
          @ lit ''`); refusing to rewrite to avoid clobbering content '' @ [8212]
          @ lit '' keep exactly one marker pair and re-run''))
      else case (str_find existing BEGIN_MARKER, str_find existing END_MARKER) of
          (None, None) \<Rightarrow>
            Inr (existing @ (if ends_with existing [newline] \<or> existing = [] then [] else [newline])
              @ [newline] @ req_block req @ [newline])
        | (Some begin_idx, Some end_idx) \<Rightarrow>
            if end_idx > begin_idx then
              (let block_end = end_idx + length END_MARKER;
                   existing_block = take (block_end - begin_idx) (drop begin_idx existing) in
               if \<not> str_contains existing_block GENERATED_BLOCK_SENTINEL then
                 Inl (outcome_skipped (req_path req @ lit '' contains `'' @ BEGIN_MARKER @ lit ''` / `'' @ END_MARKER
                   @ lit ''` but no DiffLore-generated block between them (missing the `'' @ GENERATED_BLOCK_SENTINEL
                   @ lit ''` header); refusing to overwrite '' @ [8212] @ lit '' these look like markers in your own content''))
               else if embedded_content_hash existing_block = Some (req_content_hash req) then Inl (outcome_done Unchanged)
               else Inr (take begin_idx existing @ req_block req @ drop block_end existing))
            else Inl (outcome_skipped (req_path req @ lit '' has a corrupted DiffLore section (BEGIN/END marker mismatch); fix or delete the `''
                @ BEGIN_MARKER @ lit ''` / `'' @ END_MARKER @ lit ''` lines and re-run''))
        | _ \<Rightarrow> Inl (outcome_skipped (req_path req @ lit '' has a corrupted DiffLore section (BEGIN/END marker mismatch); fix or delete the `''
                @ BEGIN_MARKER @ lit ''` / `'' @ END_MARKER @ lit ''` lines and re-run'')))"

definition upsert_marker_block :: "ustr option \<Rightarrow> MarkerBlockWrite \<Rightarrow> target \<Rightarrow> (ustr + WriteOutcome) \<times> target" where
  "upsert_marker_block fault req t =
     (case t of
        Symlink \<Rightarrow> (Inr (outcome_skipped (req_path req @ lit '' is a symlink; refusing to write through it (it may point at another agent''
          @ [39] @ lit ''s instructions file). Re-point or remove the symlink and re-run.'')), t)
      | Directory \<Rightarrow> (Inr (outcome_skipped (req_path req @ lit '' is a directory, not a file'')), t)
      | Missing \<Rightarrow> written fault (req_dry_run req) (req_block req @ [newline]) Created t
      | StatError e \<Rightarrow> (Inl (lit ''Internal error: failed to stat '' @ req_path req @ lit '': '' @ e), t)
      | Unreadable e \<Rightarrow> (Inr (outcome_skipped (lit ''could not read '' @ req_path req @ lit '' as UTF-8 text ('' @ e
          @ lit ''); refusing to rewrite it'')), t)
      | TextFile existing \<Rightarrow>
          (case splice req existing of
             Inl outcome \<Rightarrow> (Inr outcome, t)
           | Inr content \<Rightarrow> written fault (req_dry_run req) content Updated t))"

text \<open>The generated block. \<open>sha1_hex\<close> is the hexadecimal digest.\<close>

definition export_content_hash :: "(ustr \<Rightarrow> ustr) \<Rightarrow> ustr \<Rightarrow> ustr" where
  "export_content_hash sha1_hex body = take 12 (sha1_hex body)"

definition build_export_block :: "(ustr \<Rightarrow> ustr) \<Rightarrow> ExportBlockMeta \<Rightarrow> ustr \<Rightarrow> ustr" where
  "build_export_block sha1_hex meta body =
     BEGIN_MARKER @ [newline]
     @ lit ''<!-- AUTO-GENERATED by difflore export v'' @ tool_version meta
     @ lit '' - do not edit between the BEGIN/END DIFFLORE RULES markers; the next export overwrites this section. -->'' @ [newline]
     @ lit ''<!-- generated-at: '' @ generated_at_utc meta @ lit '' | rules: '' @ show_nat (rule_count meta)
     @ lit '' | content-hash: '' @ export_content_hash sha1_hex body @ lit '' | repo-scope: ''
     @ (if repo_scopes meta = [] then lit ''(no git remote detected)'' else str_join (lit '', '') (repo_scopes meta))
     @ (if local_only meta then lit '' | mode: local-only'' else []) @ lit '' -->'' @ [newline]
     @ lit ''<!-- Static snapshot: it goes stale as team rules evolve. Run `difflore agents install` for live diff-aware rule injection. -->'' @ [newline]
     @ [newline] @ lit ''# DiffLore team rules'' @ [newline] @ [newline]
     @ body @ [newline] @ END_MARKER"

section \<open>Counting across a cut\<close>

lemma count_matches_clean_cut:
  assumes "clean_cut m a b" "m \<noteq> []"
  shows "count_matches m (a @ b) = count_matches m a + count_matches m b"
  using assms(1)
proof (induction a rule: length_induct)
  case (1 a)
  show ?case
  proof (cases "str_find a m")
    case None
    have "drop (length a + (n + length m)) (a @ b) = drop (n + length m) b" for n by simp
    then have "count_matches m (a @ b) = count_matches m b"
      using str_find_clean_cut [OF 1(2) assms(2)] None
      by (subst (1 2) count_matches.simps) (auto simp: add.assoc split: option.split)
    moreover have "count_matches m a = 0" using None by (subst count_matches.simps) simp
    ultimately show ?thesis by simp
  next
    case (Some n)
    let ?a = "drop (n + length m) a"
    have n: "n + length m \<le> length a" using str_find_bound [OF Some] .
    have "clean_cut m ?a b" using 1(2) by (auto simp: clean_cut_def last_drop)
    moreover have "length ?a < length a" using n assms(2) by (cases m) auto
    ultimately have "count_matches m (?a @ b) = count_matches m ?a + count_matches m b" using 1(1) by blast
    then show ?thesis
      using str_find_clean_cut [OF 1(2) assms(2)] Some n assms(2)
      by (subst (1 2) count_matches.simps) simp
  qed
qed

lemma count_matches_0: "m \<noteq> [] \<Longrightarrow> count_matches m s = 0 \<longleftrightarrow> str_find s m = None"
  by (subst count_matches.simps) (auto split: option.split)

lemma count_matches_after: "m \<noteq> [] \<Longrightarrow> str_find s m = Some n
    \<Longrightarrow> count_matches m s = Suc (count_matches m (drop (n + length m) s))"
  by (subst count_matches.simps) simp

lemma str_find_None_sublist: "str_find s m = None \<Longrightarrow> sublist t s \<Longrightarrow> str_find t m = None"
  using str_contains_iff [of s m] str_contains_iff [of t m] sublist_order.order_trans
  by (auto simp: str_contains_def)

section \<open>Blocks\<close>

text \<open>A generated block with the given hash in its header.\<close>

definition wf_block :: "ustr \<Rightarrow> ustr \<Rightarrow> bool" where
  "wf_block block hash \<longleftrightarrow>
     str_find block BEGIN_MARKER = Some 0 \<and> count_matches BEGIN_MARKER block = 1
     \<and> str_find block END_MARKER = Some (length block - length END_MARKER) \<and> count_matches END_MARKER block = 1
     \<and> str_contains block GENERATED_BLOCK_SENTINEL \<and> embedded_content_hash block = Some hash"

lemmas marker_defs = BEGIN_MARKER_def END_MARKER_def

lemma marker_chars:
  "hd BEGIN_MARKER = 60" "hd END_MARKER = 60" "last BEGIN_MARKER = 62" "last END_MARKER = 62"
  "60 \<notin> set (tl BEGIN_MARKER)" "60 \<notin> set (tl END_MARKER)" "62 \<notin> set (butlast BEGIN_MARKER)" "62 \<notin> set (butlast END_MARKER)"
  "newline \<notin> set BEGIN_MARKER" "newline \<notin> set END_MARKER" "BEGIN_MARKER \<noteq> []" "END_MARKER \<noteq> []"
  by (simp_all add: marker_defs lit_def newline_def)

lemma wf_block_ends:
  assumes "wf_block block hash"
  shows "block \<noteq> []" "hd block = 60" "last block = 62" "length END_MARKER \<le> length block"
proof -
  have b: "starts_with block BEGIN_MARKER" using str_find_starts [of block BEGIN_MARKER 0] assms by (simp add: wf_block_def)
  then show ne: "block \<noteq> []" using marker_chars by (auto simp: starts_with_iff)
  show "hd block = 60" using b marker_chars by (auto simp: starts_with_iff hd_append)
  have e: "str_find block END_MARKER = Some (length block - length END_MARKER)" using assms by (simp add: wf_block_def)
  from str_find_bound [OF e] show "length END_MARKER \<le> length block" by simp
  then have "drop (length block - length END_MARKER) block = END_MARKER"
    using str_find_starts [OF e] by (simp add: starts_with_def)
  then show "last block = 62" using marker_chars(4,12) by (metis append_take_drop_id last_appendR)
qed

text \<open>In a text that holds a well-formed block between parts without markers, a second upsert finds the block.\<close>

lemma splice_wf_block:
  assumes wf: "wf_block block (req_content_hash req)"
    and pre: "str_find pre BEGIN_MARKER = None" "str_find pre END_MARKER = None"
    and post: "str_find post BEGIN_MARKER = None" "str_find post END_MARKER = None"
  shows "splice req (pre @ block @ post) = Inl (outcome_done Unchanged)"
proof -
  let ?b = block
  note ends = wf_block_ends [OF wf]
  have cut: "clean_cut m pre (?b @ post)" "clean_cut m ?b post" if "m \<in> {BEGIN_MARKER, END_MARKER}" for m
    using that marker_chars ends by (auto simp: clean_cut_def hd_append)
  have find: "str_find (pre @ ?b @ post) m = map_option ((+) (length pre)) (str_find ?b m)"
    if m: "m \<in> {BEGIN_MARKER, END_MARKER}" for m
    using str_find_clean_cut [OF cut(1) [OF m]] str_find_clean_cut [OF cut(2) [OF m]] m pre post marker_chars
    by (auto split: option.split)
  have count: "count_matches m (pre @ ?b @ post) = count_matches m ?b" if m: "m \<in> {BEGIN_MARKER, END_MARKER}" for m
    using count_matches_clean_cut [OF cut(1) [OF m]] count_matches_clean_cut [OF cut(2) [OF m]] m pre post marker_chars
      count_matches_0 by auto
  have "take (length pre + (length ?b - length END_MARKER) + length END_MARKER - length pre) (drop (length pre) (pre @ ?b @ post)) = ?b"
    using ends(4) by simp
  moreover have "0 < length ?b - length END_MARKER"
    using wf marker_chars str_find_starts [of ?b BEGIN_MARKER 0] str_find_starts [of ?b END_MARKER 0]
    by (auto simp: wf_block_def starts_with_iff marker_defs lit_def intro!: gr0I)
  ultimately show ?thesis
    using wf find [of BEGIN_MARKER] find [of END_MARKER] count [of BEGIN_MARKER] count [of END_MARKER]
    by (simp add: splice_def wf_block_def Let_def)
qed

lemma starts_with_take: "starts_with (take n s) m \<Longrightarrow> starts_with s m"
  unfolding starts_with_iff by (metis append_take_drop_id append.assoc)

lemma starts_with_nth: "starts_with (drop b s) m \<Longrightarrow> k < length m \<Longrightarrow> b + k < length s \<and> s ! (b + k) = m ! k"
proof -
  assume "starts_with (drop b s) m" "k < length m"
  then obtain t where t: "drop b s = m @ t" by (auto simp: starts_with_iff)
  then have "length m \<le> length s - b" by (metis length_append length_drop le_add1)
  with \<open>k < length m\<close> have "b + k < length s" by linarith
  moreover have "drop b s ! k = m ! k" using t \<open>k < length m\<close> by (simp add: nth_append)
  ultimately show ?thesis by simp
qed

lemma markers_apart:
  assumes "starts_with (drop b s) BEGIN_MARKER" "starts_with (drop e s) END_MARKER" "b < e"
  shows "b + length BEGIN_MARKER \<le> e"
proof (rule ccontr)
  assume "\<not> b + length BEGIN_MARKER \<le> e"
  then have k: "e - b < length BEGIN_MARKER" "e - b \<noteq> 0" using assms(3) by simp_all
  have "s ! e = END_MARKER ! 0" using starts_with_nth [OF assms(2), of 0] marker_chars(12) by simp
  also have "\<dots> = 60" using marker_chars(2,12) by (simp add: hd_conv_nth)
  finally have "BEGIN_MARKER ! (e - b) = 60" using starts_with_nth [OF assms(1) k(1)] assms(3) by simp
  moreover have "BEGIN_MARKER ! (e - b) = tl BEGIN_MARKER ! (e - b - 1)" using k by (simp add: nth_tl Suc_diff_Suc)
  moreover have "tl BEGIN_MARKER ! (e - b - 1) \<in> set (tl BEGIN_MARKER)" using k by (intro nth_mem) simp
  ultimately show False using marker_chars(5) by simp
qed

text \<open>The parts around the block in the new content come from the old text and have no markers.\<close>

lemma splice_cases:
  assumes "splice req existing = Inr content"
  obtains (none) "str_find existing BEGIN_MARKER = None" "str_find existing END_MARKER = None"
      "content = existing @ (if ends_with existing [newline] \<or> existing = [] then [] else [newline])
         @ [newline] @ req_block req @ [newline]"
    | (some) b e where "count_matches BEGIN_MARKER existing \<le> 1" "count_matches END_MARKER existing \<le> 1"
      "str_find existing BEGIN_MARKER = Some b" "str_find existing END_MARKER = Some e" "b < e"
      "str_contains (take (e + length END_MARKER - b) (drop b existing)) GENERATED_BLOCK_SENTINEL"
      "content = take b existing @ req_block req @ drop (e + length END_MARKER) existing"
  using assms by (auto simp: splice_def Let_def not_less split: if_splits option.splits)

lemma no_marker_before:
  assumes "str_find s m = Some n" "b \<le> n" "m \<noteq> []"
  shows "str_find (take b s) m = None"
proof (rule ccontr)
  assume "str_find (take b s) m \<noteq> None"
  then obtain k where k: "str_find (take b s) m = Some k" by auto
  have kb: "k + length m \<le> b" "k + length m \<le> length s" using str_find_bound [OF k] by simp_all
  have "starts_with (drop k s) m" using str_find_starts [OF k] by (auto simp: drop_take intro: starts_with_take)
  with str_find_least [of k s m] kb(2) assms(1) have "n \<le> k" by auto
  with assms(2,3) kb(1) show False by (cases m) auto
qed

lemma no_marker_after:
  assumes "m \<noteq> []" "count_matches m s \<le> 1" "str_find s m = Some n" "n + length m \<le> k"
  shows "str_find (drop k s) m = None"
proof -
  have "count_matches m (drop (n + length m) s) = 0" using count_matches_after [OF assms(1,3)] assms(2) by simp
  then have "str_find (drop (n + length m) s) m = None" using count_matches_0 [OF assms(1)] by simp
  moreover have "drop k s = drop (k - (n + length m)) (drop (n + length m) s)" using assms(4) by simp
  ultimately show ?thesis using str_find_None_sublist suffix_imp_sublist [OF suffix_drop] by metis
qed

definition marker_free :: "ustr \<Rightarrow> bool" where
  "marker_free s \<longleftrightarrow> str_find s BEGIN_MARKER = None \<and> str_find s END_MARKER = None"

lemma starts_with_drop_split: "starts_with (drop b s) m \<Longrightarrow> drop b s = m @ drop (b + length m) s"
  by (metis starts_with_def append_take_drop_id drop_drop add.commute)

lemma single_pair_split:
  assumes "count_matches BEGIN_MARKER s \<le> 1" "count_matches END_MARKER s \<le> 1"
    and "str_find s BEGIN_MARKER = Some b" "str_find s END_MARKER = Some e" "b < e"
  obtains mid where "s = take b s @ BEGIN_MARKER @ mid @ END_MARKER @ drop (e + length END_MARKER) s"
    "take (e + length END_MARKER - b) (drop b s) = BEGIN_MARKER @ mid @ END_MARKER"
    "marker_free (take b s)" "marker_free mid" "marker_free (drop (e + length END_MARKER) s)"
proof
  let ?B = "length BEGIN_MARKER" and ?E = "length END_MARKER"
  let ?mid = "take (e - (b + ?B)) (drop (b + ?B) s)"
  note st = str_find_starts [OF assms(3)] str_find_starts [OF assms(4)]
  have apart: "b + ?B \<le> e" by (rule markers_apart [OF st assms(5)])
  have e: "e + ?E \<le> length s" using str_find_bound [OF assms(4)] .
  have mid: "drop (b + ?B) s = ?mid @ drop e s"
    using apart by (metis append_take_drop_id drop_drop le_add_diff_inverse2)
  have tail: "drop b s = BEGIN_MARKER @ ?mid @ END_MARKER @ drop (e + ?E) s"
    using starts_with_drop_split [OF st(1)] starts_with_drop_split [OF st(2)] mid by simp
  then show "s = take b s @ BEGIN_MARKER @ ?mid @ END_MARKER @ drop (e + ?E) s"
    by (metis append_take_drop_id)
  have len: "length (BEGIN_MARKER @ ?mid @ END_MARKER) = e + ?E - b" using apart e by simp
  show "take (e + ?E - b) (drop b s) = BEGIN_MARKER @ ?mid @ END_MARKER"
    using arg_cong [OF tail, of "take (e + ?E - b)"] len by (metis append.assoc append_eq_conv_conj)
  show "marker_free (take b s)" "marker_free (drop (e + ?E) s)"
    using no_marker_before [OF assms(3)] no_marker_before [OF assms(4)] assms(5) marker_chars
      no_marker_after [OF marker_chars(11) assms(1,3)] no_marker_after [OF marker_chars(12) assms(2,4)] apart
    by (simp_all add: marker_free_def)
  have "sublist ?mid (drop (b + ?B) s)" using mid by (metis prefixI prefix_imp_sublist)
  moreover have "sublist ?mid (take e s)"
    using apart by (metis drop_take suffix_drop suffix_imp_sublist)
  ultimately show "marker_free ?mid"
    unfolding marker_free_def
    using no_marker_after [OF marker_chars(11) assms(1,3) order_refl] no_marker_before [OF assms(4) order_refl] marker_chars
      str_find_None_sublist by blast
qed

lemma splice_content:
  assumes "splice req existing = Inr content"
  obtains (append) sep where "str_find existing BEGIN_MARKER = None" "str_find existing END_MARKER = None"
      "sep \<in> {[newline], [newline, newline]}" "content = (existing @ sep) @ req_block req @ [newline]"
    | (replace) old pre post where "existing = pre @ old @ post" "content = pre @ req_block req @ post"
      "str_contains old GENERATED_BLOCK_SENTINEL" "starts_with old BEGIN_MARKER" "ends_with old END_MARKER"
      "str_find pre BEGIN_MARKER = None" "str_find pre END_MARKER = None"
      "str_find post BEGIN_MARKER = None" "str_find post END_MARKER = None"
  using assms
proof (cases rule: splice_cases)
  case none
  show thesis
    by (rule append [OF none(1,2), of "(if ends_with existing [newline] \<or> existing = [] then [] else [newline]) @ [newline]"])
      (auto simp: none(3))
next
  case (some b e)
  obtain mid where "existing = take b existing @ BEGIN_MARKER @ mid @ END_MARKER @ drop (e + length END_MARKER) existing"
    "take (e + length END_MARKER - b) (drop b existing) = BEGIN_MARKER @ mid @ END_MARKER"
    "marker_free (take b existing)" "marker_free (drop (e + length END_MARKER) existing)"
    by (rule single_pair_split [OF some(1-5)])
  note parts = this [unfolded marker_free_def]
  show thesis
  proof (rule replace [of "take b existing" "BEGIN_MARKER @ mid @ END_MARKER"])
    show "existing = take b existing @ (BEGIN_MARKER @ mid @ END_MARKER) @ drop (e + length END_MARKER) existing"
      using parts(1) by (simp only: append.assoc)
  qed (use parts(2-4) some(6,7) in \<open>simp_all only: starts_with_append ends_with_def, simp_all\<close>)
qed

section \<open>Properties\<close>

text \<open>
  C17. The user's text survives an export: an upsert that is refused, planned only, or fails leaves the
  file as it was. One that succeeds on an existing text either appends the block behind the whole text, which then had
  neither marker; or the text has exactly one begin marker and behind it exactly one end marker with the sentinel
  of a generated block between them, and the upsert replaces just the two markers and what is between them. With a second marker
  anywhere the text is left alone.
\<close>

theorem export_keeps_user_text:
  assumes "upsert_marker_block fault req (TextFile existing) = (res, t')"
  shows "t' = TextFile existing
    \<or> (res = Inr \<lparr>action = Updated, reason = None\<rparr> \<and> fault = None \<and> \<not> req_dry_run req
       \<and> ((marker_free existing \<and> t' = TextFile (existing
              @ (if ends_with existing [newline] \<or> existing = [] then [] else [newline]) @ [newline] @ req_block req @ [newline]))
          \<or> (\<exists>pre mid post. existing = pre @ BEGIN_MARKER @ mid @ END_MARKER @ post
               \<and> marker_free pre \<and> marker_free mid \<and> marker_free post
               \<and> count_matches BEGIN_MARKER existing = 1 \<and> count_matches END_MARKER existing = 1
               \<and> str_contains (BEGIN_MARKER @ mid @ END_MARKER) GENERATED_BLOCK_SENTINEL
               \<and> t' = TextFile (pre @ req_block req @ post))))"
proof (cases "splice req existing")
  case (Inl outcome)
  then show ?thesis using assms by (simp add: upsert_marker_block_def)
next
  case (Inr content)
  show ?thesis
  proof (cases "req_dry_run req \<or> fault \<noteq> None")
    case True
    then show ?thesis using assms Inr
      by (auto simp: upsert_marker_block_def written_def write_atomic_def split: if_splits)
  next
    case False
    then have t: "res = Inr \<lparr>action = Updated, reason = None\<rparr>" "t' = TextFile content"
      using assms Inr by (simp_all add: upsert_marker_block_def written_def write_atomic_def outcome_done_def)
    from Inr show ?thesis
    proof (cases rule: splice_cases)
      case none
      then show ?thesis using t False by (simp add: marker_free_def)
    next
      case (some b e)
      obtain mid where mid: "existing = take b existing @ BEGIN_MARKER @ mid @ END_MARKER @ drop (e + length END_MARKER) existing"
        "take (e + length END_MARKER - b) (drop b existing) = BEGIN_MARKER @ mid @ END_MARKER"
        "marker_free (take b existing)" "marker_free mid" "marker_free (drop (e + length END_MARKER) existing)"
        by (rule single_pair_split [OF some(1-5)])
      have "count_matches BEGIN_MARKER existing = 1" "count_matches END_MARKER existing = 1"
        using some(1-4) count_matches_0 [OF marker_chars(11), of existing] count_matches_0 [OF marker_chars(12), of existing] by auto
      with mid some(6,7) t False show ?thesis by metis
    qed
  qed
qed

definition demo_meta :: ExportBlockMeta where
  "demo_meta = \<lparr>tool_version = lit ''0.5'', generated_at_utc = lit ''2026-07-02T00:00:00Z'', rule_count = 1,
     repo_scopes = [lit ''acme/app''], local_only = False\<rparr>"

definition demo_hash :: "ustr \<Rightarrow> ustr" where
  "demo_hash body = (if body = lit ''- rule'' then lit ''0a1b2c3d4e5f6789'' else lit ''ffffffffffffffff'')"

definition demo_request :: "ustr \<Rightarrow> MarkerBlockWrite" where
  "demo_request body = \<lparr>req_path = lit ''AGENTS.md'', req_block = build_export_block demo_hash demo_meta body,
     req_content_hash = export_content_hash demo_hash body, req_dry_run = False\<rparr>"

lemma demo_block_wf: "wf_block (req_block (demo_request (lit ''- rule''))) (req_content_hash (demo_request (lit ''- rule'')))"
  by code_simp

definition demo_exported :: ustr where
  "demo_exported = lit ''# Notes'' @ [newline] @ req_block (demo_request (lit ''- old'')) @ lit ''tail''"

theorem export_keeps_user_text_witness:
  "\<exists>pre mid post. demo_exported = pre @ BEGIN_MARKER @ mid @ END_MARKER @ post \<and> marker_free pre \<and> marker_free post
     \<and> snd (upsert_marker_block None (demo_request (lit ''- rule'')) (TextFile demo_exported))
       = TextFile (pre @ req_block (demo_request (lit ''- rule'')) @ post)"
proof -
  let ?r = "upsert_marker_block None (demo_request (lit ''- rule'')) (TextFile demo_exported)"
  have "snd ?r \<noteq> TextFile demo_exported" by code_simp
  moreover have "\<not> marker_free demo_exported" by code_simp
  ultimately show ?thesis using export_keeps_user_text [OF prod.collapse [symmetric, of ?r]] by blast
qed

text \<open>
  Exporting the same rules again changes nothing: after an upsert of a well-formed generated block has created or
  updated a file, a second upsert of the same block, or of any block with the same hash, reports the file as
  unchanged and leaves it alone.
\<close>

theorem export_twice_unchanged:
  assumes "wf_block (req_block req) (req_content_hash req)"
    and "upsert_marker_block fault req t = (Inr out, t')" and "action out \<in> {Created, Updated}" and "\<not> req_dry_run req"
    and "req_content_hash req' = req_content_hash req"
  shows "upsert_marker_block fault' req' t' = (Inr \<lparr>action = Unchanged, reason = None\<rparr>, t')"
proof -
  have nl: "str_find [newline] BEGIN_MARKER = None" "str_find [newline] END_MARKER = None" by code_simp+
  have nil: "str_find [] BEGIN_MARKER = None" "str_find [] END_MARKER = None" by code_simp+
  have ok: "upsert_marker_block fault' req' (TextFile (pre @ req_block req @ post))
      = (Inr \<lparr>action = Unchanged, reason = None\<rparr>, TextFile (pre @ req_block req @ post))"
    if "str_find pre BEGIN_MARKER = None" "str_find pre END_MARKER = None"
      "str_find post BEGIN_MARKER = None" "str_find post END_MARKER = None" for pre post
    using splice_wf_block [OF _ that, of "req_block req" req'] assms(1,5)
    by (simp add: upsert_marker_block_def outcome_done_def)
  show ?thesis
  proof (cases t)
    case Missing
    then have "t' = TextFile ([] @ req_block req @ [newline])"
      using assms(2,4) by (auto simp: upsert_marker_block_def written_def write_atomic_def split: option.splits)
    with ok [OF nil nl] show ?thesis by simp
  next
    case (TextFile existing)
    have "action o' \<in> {Unchanged, Skipped}" if "splice req existing = Inl o'" for o'
      using that by (auto simp: splice_def Let_def outcome_done_def outcome_skipped_def split: if_splits option.splits)
    with TextFile obtain content where content: "splice req existing = Inr content" "t' = TextFile content"
      using assms(2,3,4) by (cases "splice req existing")
        (fastforce simp: upsert_marker_block_def written_def write_atomic_def split: option.splits)+
    from content(1) show ?thesis
    proof (cases rule: splice_content)
      case (append sep)
      have "str_find (existing @ sep) m = None" if "str_find existing m = None" "m \<in> {BEGIN_MARKER, END_MARKER}" for m
      proof -
        have "sublist m (existing @ sep) \<Longrightarrow> sublist m existing"
          using append(3) that(2) sublist_sep [of m existing newline] marker_chars(9-12)
          by auto (metis append_Nil sublist_Nil_right sublist_sep)+
        then show ?thesis using that(1) str_contains_iff by (metis str_contains_def)
      qed
      from ok [OF this this nl] append show ?thesis by (simp add: content(2))
    next
      case (replace old pre post)
      from ok [OF replace(6-9)] show ?thesis by (simp add: content(2) replace(2))
    qed
  qed (use assms in \<open>auto simp: upsert_marker_block_def outcome_skipped_def\<close>)
qed

theorem export_twice_unchanged_witness:
  "upsert_marker_block None (demo_request (lit ''- rule''))
     (snd (upsert_marker_block None (demo_request (lit ''- rule'')) (TextFile (lit ''# Notes''))))
   = (Inr \<lparr>action = Unchanged, reason = None\<rparr>,
      snd (upsert_marker_block None (demo_request (lit ''- rule'')) (TextFile (lit ''# Notes''))))"
proof -
  let ?req = "demo_request (lit ''- rule'')"
  have "fst (upsert_marker_block None ?req (TextFile (lit ''# Notes''))) = Inr \<lparr>action = Updated, reason = None\<rparr>" by code_simp
  then obtain t' where "upsert_marker_block None ?req (TextFile (lit ''# Notes'')) = (Inr \<lparr>action = Updated, reason = None\<rparr>, t')"
    by (metis prod.collapse)
  with export_twice_unchanged [OF demo_block_wf this, of ?req None] show ?thesis by (simp add: demo_request_def)
qed

text \<open>
  A rule that quotes a marker locks the file: when the body of an export contains the end marker, the export
  succeeds, and from then on every export to that file is refused because the file has several markers.
\<close>

theorem quoted_marker_locks_file:
  "fst (upsert_marker_block None (demo_request END_MARKER) Missing) = Inr \<lparr>action = Created, reason = None\<rparr>
   \<and> map_sum id action (fst (upsert_marker_block None (demo_request (lit ''- rule''))
        (snd (upsert_marker_block None (demo_request END_MARKER) Missing)))) = Inr Skipped"
  by code_simp

end
