(* ===== verification/Path_Safety.thy ===== *)
theory Path_Safety
  imports Prelude
begin

text \<open>
  \<^verbatim>\<open>crates/difflore-cli/src/commands/fix/path_safety.rs\<close>: the guards between a path or a patch that a model wrote
  and the files of the repository. Paths are strings read the way \<^verbatim>\<open>std::path\<close> reads them on Unix; the file
  system's \<^verbatim>\<open>canonicalize\<close> is a parameter.
\<close>

section \<open>Paths\<close>

datatype component = RootDir | CurDir | ParentDir | NormalC ustr

definition segments :: "ustr \<Rightarrow> ustr list" where
  "segments s = split_on (\<lambda>c. c = 47) s"

definition seg_component :: "ustr \<Rightarrow> component" where
  "seg_component seg = (if seg = lit ''..'' then ParentDir else NormalC seg)"

text \<open>
  \<^verbatim>\<open>Path::components\<close>: empty segments are dropped, and so are dots, except one at the very beginning.
\<close>

definition path_head :: "ustr \<Rightarrow> component list" where
  "path_head s = (if s \<noteq> [] \<and> hd s = 47 then [RootDir] else if hd (segments s) = lit ''.'' then [CurDir] else [])"

definition path_body :: "ustr \<Rightarrow> component list" where
  "path_body s = map seg_component (filter (\<lambda>x. x \<noteq> [] \<and> x \<noteq> lit ''.'') (segments s))"

definition components :: "ustr \<Rightarrow> component list" where
  "components s = path_head s @ path_body s"

text \<open>\<^verbatim>\<open>Path::join\<close> with a relative path, and \<^verbatim>\<open>Path::starts_with\<close>.\<close>

definition path_join :: "ustr \<Rightarrow> ustr \<Rightarrow> ustr" where
  "path_join root p =
     (if p \<noteq> [] \<and> hd p = 47 then p
      else if root \<noteq> [] \<and> last root \<noteq> 47 then root @ 47 # p else root @ p)"

definition path_starts_with :: "ustr \<Rightarrow> ustr \<Rightarrow> bool" where
  "path_starts_with p root \<longleftrightarrow> prefix (components root) (components p)"

definition is_plain :: "component \<Rightarrow> bool" where
  "is_plain c \<longleftrightarrow> (case c of NormalC _ \<Rightarrow> True | CurDir \<Rightarrow> True | _ \<Rightarrow> False)"

section \<open>Operations\<close>

definition refusal :: "ustr \<Rightarrow> ustr \<Rightarrow> ustr" where
  "refusal candidate why = lit ''refusing to touch '' @ [39] @ candidate @ [39] @ lit '': '' @ why"

fun component_error :: "ustr \<Rightarrow> component list \<Rightarrow> ustr option" where
  "component_error candidate [] = None"
| "component_error candidate (c # cs) =
     (case c of
        ParentDir \<Rightarrow> Some (refusal candidate (lit ''path escapes the repository via '' @ [39] @ lit ''..'' @ [39]))
      | RootDir \<Rightarrow> Some (refusal candidate (lit ''absolute paths are not repo-relative''))
      | _ \<Rightarrow> component_error candidate cs)"

definition repo_relative_path :: "(ustr \<Rightarrow> ustr option) \<Rightarrow> ustr \<Rightarrow> ustr \<Rightarrow> ustr + ustr" where
  "repo_relative_path canonicalize repo_root candidate =
     (case component_error candidate (components candidate) of
        Some e \<Rightarrow> Inl e
      | None \<Rightarrow>
          (let joined = path_join repo_root candidate in
           case canonicalize joined of
             None \<Rightarrow> Inr joined
           | Some canon \<Rightarrow>
               (case canonicalize repo_root of
                  None \<Rightarrow> Inl (refusal candidate (lit ''repository root could not be canonicalized''))
                | Some root \<Rightarrow>
                    if \<not> path_starts_with canon root
                    then Inl (refusal candidate (lit ''resolves outside the repository''))
                    else Inr joined)))"

definition forward_slashes :: "ustr \<Rightarrow> ustr" where
  "forward_slashes s = map (\<lambda>c. if c = 92 then 47 else c) s"

definition is_safe_repo_relative :: "ustr \<Rightarrow> bool" where
  "is_safe_repo_relative path \<longleftrightarrow> list_all is_plain (components (forward_slashes path))"

definition canonical_rel :: "ustr \<Rightarrow> ustr" where
  "canonical_rel path = str_join [47]
     (List.map_filter (\<lambda>c. case c of NormalC seg \<Rightarrow> Some seg | _ \<Rightarrow> None) (components (forward_slashes path)))"

definition extended_headers :: "ustr list" where
  "extended_headers = map lit [''diff --git '', ''index '', ''old mode'', ''new mode'', ''new file'', ''deleted file'',
     ''rename '', ''copy '', ''similarity '', ''dissimilarity '', ''GIT binary patch'', ''Binary files '']"

definition is_extended_header :: "ustr \<Rightarrow> bool" where
  "is_extended_header line \<longleftrightarrow> list_ex (starts_with line) extended_headers"

text \<open>The path of a header line: up to the tab in front of a timestamp.\<close>

definition header_path :: "ustr \<Rightarrow> ustr" where
  "header_path line = hd (split_on (\<lambda>c. c = 9) (drop 4 line))"

text \<open>One line of the diff: the reason to refuse it, or which of the two headers has been seen.\<close>

definition check_line :: "ustr \<Rightarrow> ustr \<Rightarrow> bool \<times> bool \<Rightarrow> ustr + bool \<times> bool" where
  "check_line expected raw_line seen =
     (let line = strip_cr raw_line in
      if is_extended_header line then
        Inl (lit ''diff uses a git-extended/binary header; only a plain unified single-file edit is allowed'')
      else if \<not> starts_with line (lit ''--- '') \<and> \<not> starts_with line (lit ''+++ '') then Inr seen
      else let is_old = starts_with line (lit ''--- ''); want_prefix = (if is_old then lit ''a/'' else lit ''b/'');
               path = header_path line in
        if path = lit ''/dev/null'' then Inl (lit ''diff creates or deletes a file'')
        else case strip_prefix path want_prefix of
            None \<Rightarrow> Inl (lit ''diff header '' @ [39] @ (if is_old then lit ''---'' else lit ''+++'') @ lit '' '' @ path @ [39]
              @ lit '' lacks the required '' @ [39] @ want_prefix @ [39] @ lit '' prefix'')
          | Some t \<Rightarrow>
              if \<not> is_safe_repo_relative t then Inl (lit ''diff targets an unsafe path '' @ [39] @ t @ [39])
              else if canonical_rel t \<noteq> expected then Inl (lit ''diff targets a different file '' @ [39] @ t @ [39])
              else Inr (if is_old then (True, snd seen) else (fst seen, True)))"

fun check_lines :: "ustr \<Rightarrow> ustr list \<Rightarrow> bool \<times> bool \<Rightarrow> ustr + bool \<times> bool" where
  "check_lines expected [] seen = Inr seen"
| "check_lines expected (l # ls) seen =
     (case check_line expected l seen of Inl e \<Rightarrow> Inl e | Inr seen' \<Rightarrow> check_lines expected ls seen')"

definition validate_diff_targets :: "ustr \<Rightarrow> ustr \<Rightarrow> ustr + unit" where
  "validate_diff_targets diff expected_file_path =
     (let reject = (\<lambda>why. Inl (lit ''refusing to apply patch for '' @ [39] @ expected_file_path @ [39] @ lit '': '' @ why)) in
      case check_lines (canonical_rel expected_file_path) (lines diff) (False, False) of
        Inl why \<Rightarrow> reject why
      | Inr (saw_old, saw_new) \<Rightarrow>
          if \<not> saw_old \<or> \<not> saw_new
          then reject (lit ''diff has no complete `--- a/<file>` + `+++ b/<file>` header for the expected file'')
          else Inr ())"

section \<open>Joining\<close>

lemma split_on_nonempty: "split_on p s \<noteq> []"
  by (induction s) (auto split: list.split)

lemma split_on_append_sep: "p c \<Longrightarrow> split_on p (a @ c # b) = split_on p a @ split_on p b"
proof (induction a)
  case (Cons x a)
  then show ?case using split_on_nonempty [of p a] by (auto split: list.split)
qed simp

lemma split_on_trailing: "p c \<Longrightarrow> split_on p (a @ [c]) = split_on p a @ [[]]"
  using split_on_append_sep [of p c a "[]"] by simp

lemma path_body_join: "path_body (a @ 47 # b) = path_body a @ path_body b"
  by (simp add: path_body_def segments_def split_on_append_sep)

lemma path_head_join: "a \<noteq> [] \<Longrightarrow> path_head (a @ 47 # b) = path_head a"
  using split_on_nonempty [of "\<lambda>c. c = 47" a] by (simp add: path_head_def segments_def split_on_append_sep hd_append)

text \<open>Below a root, the components of a joined path are those of the root and then those of the path.\<close>

lemma components_join:
  assumes "root \<noteq> []" "p = [] \<or> hd p \<noteq> 47"
  shows "components (path_join root p) = components root @ path_body p"
proof (cases "last root = 47")
  case False
  then show ?thesis using assms by (auto simp: path_join_def components_def path_body_join path_head_join)
next
  case True
  then obtain r where r: "root = r @ [47]" using assms(1) by (metis append_butlast_last_id)
  have "path_body (r @ [47]) = path_body r" using path_body_join [of r "[]"] by (simp add: path_body_def segments_def)
  moreover have "path_head (r @ 47 # p) = path_head (r @ [47])"
    using path_head_join [of r] by (cases "r = []") (simp_all add: path_head_def segments_def)
  ultimately show ?thesis using assms True r by (auto simp: path_join_def components_def path_body_join)
qed

lemma component_error_None: "component_error candidate cs = None \<longleftrightarrow> list_all is_plain cs"
  by (induction cs) (auto simp: is_plain_def split: component.split)

lemma no_root: "list_all is_plain (components p) \<Longrightarrow> p = [] \<or> hd p \<noteq> 47"
  by (auto simp: components_def path_head_def is_plain_def)

section \<open>Properties\<close>

text \<open>
  C16. Only paths inside the repository are read: a path that is accepted has no parent and no root component, its
  components are those of the repository root followed by plain names, and if the file exists, also its
  resolved location lies inside the resolved root, so a link cannot lead out. Every path with a parent or root
  component is refused.
\<close>

theorem accepted_path_inside_repo:
  assumes "repo_root \<noteq> []"
  shows "(repo_relative_path canonicalize repo_root candidate = Inr p \<longrightarrow>
      (\<exists>names. components p = components repo_root @ map NormalC names \<and> lit ''..'' \<notin> set names)
      \<and> (case canonicalize p of None \<Rightarrow> True
         | Some canon \<Rightarrow> \<exists>root. canonicalize repo_root = Some root \<and> path_starts_with canon root))
    \<and> (ParentDir \<in> set (components candidate) \<or> RootDir \<in> set (components candidate)
        \<longrightarrow> (\<exists>e. repo_relative_path canonicalize repo_root candidate = Inl e))"
proof (intro conjI impI)
  assume acc: "repo_relative_path canonicalize repo_root candidate = Inr p"
  then have plain: "list_all is_plain (components candidate)" and p: "p = path_join repo_root candidate"
    by (auto simp: repo_relative_path_def component_error_None Let_def split: option.splits if_splits)
  from acc show "case canonicalize p of None \<Rightarrow> True
      | Some canon \<Rightarrow> \<exists>root. canonicalize repo_root = Some root \<and> path_starts_with canon root"
    unfolding p by (auto simp: repo_relative_path_def Let_def split: option.splits if_splits)
  let ?names = "filter (\<lambda>x. x \<noteq> [] \<and> x \<noteq> lit ''.'') (segments candidate)"
  have seg: "seg_component x = NormalC x \<and> x \<noteq> lit ''..''" if "x \<in> set ?names" for x
    using plain that by (auto simp: components_def path_body_def list_all_iff seg_component_def is_plain_def split: if_splits)
  then have "path_body candidate = map NormalC ?names" unfolding path_body_def by (intro map_cong) auto
  then show "\<exists>names. components p = components repo_root @ map NormalC names \<and> lit ''..'' \<notin> set names"
    using components_join [OF assms no_root [OF plain]] seg p by metis
next
  assume "ParentDir \<in> set (components candidate) \<or> RootDir \<in> set (components candidate)"
  then have "\<not> list_all is_plain (components candidate)" by (fastforce simp: list_all_iff is_plain_def)
  then obtain e where "component_error candidate (components candidate) = Some e" using component_error_None by fastforce
  then show "\<exists>e. repo_relative_path canonicalize repo_root candidate = Inl e" by (simp add: repo_relative_path_def)
qed

theorem accepted_path_inside_repo_witness:
  "\<exists>names. components (lit ''/repo/src/./a.rs'') = components (lit ''/repo'') @ map NormalC names
     \<and> lit ''..'' \<notin> set names"
proof -
  have "repo_relative_path (\<lambda>_. None) (lit ''/repo'') (lit ''src/./a.rs'') = Inr (lit ''/repo/src/./a.rs'')" by code_simp
  moreover have "lit ''/repo'' \<noteq> []" by (simp add: lit_def)
  ultimately show ?thesis using accepted_path_inside_repo [of "lit ''/repo''" "\<lambda>_. None" "lit ''src/./a.rs''"] by blast
qed

text \<open>A line that \<^verbatim>\<open>git apply\<close> could take for the header of a file, and the path that \<^verbatim>\<open>-p1\<close> leaves of it.\<close>

definition header_like :: "ustr \<Rightarrow> bool" where
  "header_like line \<longleftrightarrow> starts_with line (lit ''--- '') \<or> starts_with line (lit ''+++ '')"

definition strip_p1 :: "ustr \<Rightarrow> ustr" where
  "strip_p1 path = (case dropWhile (\<lambda>c. c \<noteq> 47) path of [] \<Rightarrow> path | _ # rest \<Rightarrow> rest)"

lemma strip_p1_prefixed: "strip_prefix path pre = Some t \<Longrightarrow> pre \<in> {lit ''a/'', lit ''b/''} \<Longrightarrow> strip_p1 path = t"
  by (auto simp: strip_prefix_def starts_with_iff strip_p1_def lit_def split: if_splits)

lemma check_line_accepts:
  assumes "check_line expected l seen = Inr seen'"
  shows "\<not> is_extended_header (strip_cr l)"
    and "header_like (strip_cr l) \<Longrightarrow> is_safe_repo_relative (strip_p1 (header_path (strip_cr l)))
      \<and> canonical_rel (strip_p1 (header_path (strip_cr l))) = expected"
    and "fst seen' \<longleftrightarrow> fst seen \<or> starts_with (strip_cr l) (lit ''--- '')"
    and "snd seen' \<longleftrightarrow> snd seen \<or> (starts_with (strip_cr l) (lit ''+++ '') \<and> \<not> starts_with (strip_cr l) (lit ''--- ''))"
  using assms strip_p1_prefixed
  by (auto simp: check_line_def header_like_def Let_def split: if_splits option.splits)

lemma check_lines_accepts:
  assumes "check_lines expected ls seen = Inr seen'"
  shows "(\<forall>l \<in> set ls. \<not> is_extended_header (strip_cr l) \<and> (header_like (strip_cr l)
        \<longrightarrow> is_safe_repo_relative (strip_p1 (header_path (strip_cr l)))
          \<and> canonical_rel (strip_p1 (header_path (strip_cr l))) = expected))
    \<and> (fst seen' \<longleftrightarrow> fst seen \<or> (\<exists>l \<in> set ls. starts_with (strip_cr l) (lit ''--- '')))
    \<and> (snd seen' \<longrightarrow> snd seen \<or> (\<exists>l \<in> set ls. starts_with (strip_cr l) (lit ''+++ '')))"
  using assms
proof (induction ls arbitrary: seen)
  case (Cons l ls)
  then obtain mid where mid: "check_line expected l seen = Inr mid" "check_lines expected ls mid = Inr seen'"
    by (auto split: sum.splits)
  from Cons.IH [OF mid(2)] check_line_accepts [OF mid(1)] show ?case by auto
qed simp

text \<open>
  A patch that is accepted touches one file only: it has no extended or binary header, it has an old and a new file
  header, and every line that could name a file, anywhere in the patch, names after \<^verbatim>\<open>-p1\<close> a path of plain
  components that is the expected file.
\<close>

theorem accepted_patch_touches_expected_file:
  assumes "validate_diff_targets diff expected = Inr ()"
  shows "(\<forall>l \<in> set (lines diff). \<not> is_extended_header (strip_cr l)
      \<and> (header_like (strip_cr l) \<longrightarrow> canonical_rel (strip_p1 (header_path (strip_cr l))) = canonical_rel expected
           \<and> list_all is_plain (components (forward_slashes (strip_p1 (header_path (strip_cr l)))))))
    \<and> (\<exists>l \<in> set (lines diff). starts_with (strip_cr l) (lit ''--- ''))
    \<and> (\<exists>l \<in> set (lines diff). starts_with (strip_cr l) (lit ''+++ ''))"
proof -
  obtain seen' where ok: "check_lines (canonical_rel expected) (lines diff) (False, False) = Inr seen'" "fst seen'" "snd seen'"
    using assms by (auto simp: validate_diff_targets_def Let_def split: sum.splits if_splits)
  from check_lines_accepts [OF ok(1)] ok(2,3) show ?thesis by (auto simp: is_safe_repo_relative_def)
qed

definition demo_patch :: ustr where
  "demo_patch = unlines [lit ''--- a/src/x.sql'', lit ''+++ b/src/x.sql'', lit ''@@ -1,2 +1,1 @@'', lit '' select 1;'', lit ''-old'']"

theorem accepted_patch_touches_expected_file_witness:
  "\<exists>l \<in> set (lines demo_patch). starts_with (strip_cr l) (lit ''--- '')"
proof -
  have "validate_diff_targets demo_patch (lit ''./src/x.sql'') = Inr ()" by code_simp
  from accepted_patch_touches_expected_file [OF this] show ?thesis by blast
qed

text \<open>
  A patch that deletes a line starting with two dashes and a blank, such as a comment in SQL, is refused although it
  edits the expected file only: the deleted line reads as a file header.
\<close>

theorem deleted_dash_line_is_refused:
  "isl (validate_diff_targets (unlines [lit ''--- a/src/x.sql'', lit ''+++ b/src/x.sql'', lit ''@@ -1,2 +1,1 @@'',
     lit '' select 1;'', lit ''--- old comment'']) (lit ''src/x.sql''))"
  by code_simp

end
