(* ===== verification/Text_Ops.thy ===== *)
theory Text_Ops
  imports Prelude
begin

text \<open>
  Further operations of \<^verbatim>\<open>str\<close>: splitting at a string, replacing, trimming by a predicate,
  splitting once. They serve the theories on rule texts and file patterns.
\<close>

section \<open>Splitting at a string\<close>

text \<open>\<^verbatim>\<open>split(p)\<close> for a non-empty string \<open>p\<close>; there is always a first piece.\<close>

function split_str :: "ustr \<Rightarrow> ustr \<Rightarrow> ustr list" where
  "split_str p s =
     (if p = [] then [s]
      else case str_find s p of None \<Rightarrow> [s] | Some n \<Rightarrow> take n s # split_str p (drop (n + length p) s))"
  by pat_completeness auto
termination
proof (relation "measure (\<lambda>(p, s). length s)", goal_cases)
  case (2 p s n)
  then show ?case using str_find_bound [of s p n] by (cases p) auto
qed simp

declare split_str.simps [simp del]

lemma split_str_nonempty [simp]: "split_str p s \<noteq> []"
  by (subst split_str.simps) (simp split: option.split)

lemma hd_split_str: "p \<noteq> [] \<Longrightarrow> hd (split_str p s) = (case str_find s p of None \<Rightarrow> s | Some n \<Rightarrow> take n s)"
  by (subst split_str.simps) (simp split: option.split)

text \<open>\<^verbatim>\<open>split_once(c)\<close> and \<^verbatim>\<open>rsplit_once(c)\<close> at a character.\<close>

definition split_once :: "uchar \<Rightarrow> ustr \<Rightarrow> (ustr \<times> ustr) option" where
  "split_once c s = map_option (\<lambda>i. (take i s, drop (Suc i) s)) (find_char s c)"

definition rsplit_once :: "uchar \<Rightarrow> ustr \<Rightarrow> (ustr \<times> ustr) option" where
  "rsplit_once c s = map_option (\<lambda>i. (take i s, drop (Suc i) s)) (rfind_char s c)"

text \<open>\<^verbatim>\<open>split_once(p)\<close> at a string.\<close>

definition split_once_str :: "ustr \<Rightarrow> ustr \<Rightarrow> (ustr \<times> ustr) option" where
  "split_once_str p s = map_option (\<lambda>i. (take i s, drop (i + length p) s)) (str_find s p)"

text \<open>\<^verbatim>\<open>rfind(p)\<close> for a string, and the slice \<^verbatim>\<open>s[i..=j]\<close>.\<close>

definition rfind_str :: "ustr \<Rightarrow> ustr \<Rightarrow> nat option" where
  "rfind_str s p = map_option (\<lambda>i. length s - length p - i) (str_find (rev s) (rev p))"

definition slice_incl :: "ustr \<Rightarrow> nat \<Rightarrow> nat \<Rightarrow> ustr" where
  "slice_incl s i j = take (Suc j - i) (drop i s)"

section \<open>Trimming and replacing\<close>

definition trim_end_where :: "(uchar \<Rightarrow> bool) \<Rightarrow> ustr \<Rightarrow> ustr" where
  "trim_end_where p s = rev (dropWhile p (rev s))"

definition trim_where :: "(uchar \<Rightarrow> bool) \<Rightarrow> ustr \<Rightarrow> ustr" where
  "trim_where p s = trim_end_where p (dropWhile p s)"

text \<open>\<^verbatim>\<open>str::replace(a, b)\<close> for two characters.\<close>

definition replace_char :: "uchar \<Rightarrow> uchar \<Rightarrow> ustr \<Rightarrow> ustr" where
  "replace_char a b s = map (\<lambda>c. if c = a then b else c) s"

definition to_ascii_uppercase :: "ustr \<Rightarrow> ustr" where
  "to_ascii_uppercase s = map (\<lambda>c. if is_ascii_lowercase c then c - 32 else c) s"

text \<open>\<^verbatim>\<open>str::eq_ignore_ascii_case\<close>.\<close>

definition str_eq_ignore_ascii_case :: "ustr \<Rightarrow> ustr \<Rightarrow> bool" where
  "str_eq_ignore_ascii_case s t \<longleftrightarrow> to_ascii_lowercase s = to_ascii_lowercase t"

lemma length_trim_end_where: "length (trim_end_where p s) \<le> length s"
  using length_dropWhile_le [of p "rev s"] by (simp add: trim_end_where_def)

lemma set_trim_end_where: "set (trim_end_where p s) \<subseteq> set s"
  using set_dropWhileD by (fastforce simp: trim_end_where_def)

lemma set_trim_where: "set (trim_where p s) \<subseteq> set s"
  using set_trim_end_where [of p "dropWhile p s"] set_dropWhileD by (fastforce simp: trim_where_def)

section \<open>Cutting\<close>

text \<open>\<^verbatim>\<open>truncate_chars\<close> in several modules marks the cut with three dots.\<close>

definition truncate_with_dots :: "ustr \<Rightarrow> nat \<Rightarrow> ustr" where
  "truncate_with_dots v limit = (if length v > limit then take limit v @ lit ''...'' else v)"

end
