(* ===== verification/Float32.thy ===== *)
theory Float32
  imports Complex_Main
begin

text \<open>
  Binary32 arithmetic, the type \<^verbatim>\<open>f32\<close> of the sources, on finite values: a value is the
  rational it denotes, and every operation rounds its exact result to the nearest
  representable number, ties to the even significand, with the exponents of the format
  (subnormal numbers included). The sources compute scores between minus one and two, so
  infinities, which rounding would give beyond the largest number, and the sign of zero play
  no part.
\<close>

section \<open>Rounding\<close>

text \<open>The nearest integer, ties to even.\<close>

definition round_even :: "rat \<Rightarrow> int" where
  "round_even x =
     (let f = \<lfloor>x\<rfloor>; d = x - of_int f in
      if d < 1 / 2 then f else if 1 / 2 < d then f + 1 else if even f then f else f + 1)"

text \<open>
  The exponent of the format: \<open>e\<close> with \<open>2 ^ e \<le> x < 2 ^ (e + 1)\<close>, within \<open>-126\<close> and \<open>127\<close>.
\<close>

fun exponent_up :: "nat \<Rightarrow> rat \<Rightarrow> int" where
  "exponent_up 0 x = 0"
| "exponent_up (Suc n) x = (if x < 2 then 0 else exponent_up n (x / 2) + 1)"

fun exponent_down :: "nat \<Rightarrow> rat \<Rightarrow> int" where
  "exponent_down 0 x = 0"
| "exponent_down (Suc n) x = (if 1 \<le> x then 0 else exponent_down n (2 * x) - 1)"

definition exponent32 :: "rat \<Rightarrow> int" where
  "exponent32 x = (if x < 1 then exponent_down 126 x else exponent_up 127 x)"

text \<open>The distance of neighbouring numbers around \<open>x\<close>: 23 bits of fraction.\<close>

definition quantum32 :: "rat \<Rightarrow> rat" where
  "quantum32 x = 2 powi (exponent32 x - 23)"

definition f32 :: "rat \<Rightarrow> rat" where
  "f32 x = (let q = quantum32 \<bar>x\<bar>; r = of_int (round_even (\<bar>x\<bar> / q)) * q in if x < 0 then - r else r)"

section \<open>Operations\<close>

definition f32_add :: "rat \<Rightarrow> rat \<Rightarrow> rat" where "f32_add x y = f32 (x + y)"
definition f32_sub :: "rat \<Rightarrow> rat \<Rightarrow> rat" where "f32_sub x y = f32 (x - y)"
definition f32_mul :: "rat \<Rightarrow> rat \<Rightarrow> rat" where "f32_mul x y = f32 (x * y)"
definition f32_div :: "rat \<Rightarrow> rat \<Rightarrow> rat" where "f32_div x y = f32 (x / y)"

text \<open>\<^verbatim>\<open>x.mul_add(y, z)\<close> rounds once; \<^verbatim>\<open>n as f32\<close> rounds the integer.\<close>

definition f32_mul_add :: "rat \<Rightarrow> rat \<Rightarrow> rat \<Rightarrow> rat" where "f32_mul_add x y z = f32 (x * y + z)"
definition f32_of_nat :: "nat \<Rightarrow> rat" where "f32_of_nat n = f32 (of_nat n)"

definition f32_clamp :: "rat \<Rightarrow> rat \<Rightarrow> rat \<Rightarrow> rat" where
  "f32_clamp lo hi x = (if x < lo then lo else if hi < x then hi else x)"

section \<open>Rounding is monotone and leaves small integers alone\<close>

lemma round_even_bounds: "\<lfloor>x\<rfloor> \<le> round_even x" "round_even x \<le> \<lfloor>x\<rfloor> + 1"
  by (simp_all add: round_even_def Let_def)

lemma round_even_of_int [simp]: "round_even (of_int n) = n"
  by (simp add: round_even_def)

lemma round_even_near: "\<bar>of_int (round_even x) - x\<bar> \<le> 1 / 2"
proof -
  have "of_int \<lfloor>x\<rfloor> \<le> x" "x < of_int \<lfloor>x\<rfloor> + 1" by linarith+
  then show ?thesis by (simp add: round_even_def Let_def abs_if) linarith
qed

lemma round_even_mono: "x \<le> y \<Longrightarrow> round_even x \<le> round_even y"
proof -
  assume le: "x \<le> y"
  then have "\<lfloor>x\<rfloor> \<le> \<lfloor>y\<rfloor>" by (rule floor_mono)
  then consider "\<lfloor>x\<rfloor> = \<lfloor>y\<rfloor>" | "\<lfloor>x\<rfloor> + 1 \<le> \<lfloor>y\<rfloor>" by linarith
  then show ?thesis
  proof cases
    case 1
    with le show ?thesis by (simp add: round_even_def Let_def)
  next
    case 2
    with round_even_bounds(2) [of x] round_even_bounds(1) [of y] show ?thesis by linarith
  qed
qed

lemma exponent_up_small: "x < 2 \<Longrightarrow> exponent_up n x = 0"
  by (cases n) simp_all

lemma exponent32_1 [simp]: "exponent32 1 = 0"
  by (simp add: exponent32_def exponent_up_small)

lemma exponent_up_bounds:
  "1 \<le> x \<Longrightarrow> 0 \<le> exponent_up n x \<and> 2 powi (exponent_up n x) \<le> x
    \<and> (x < 2 ^ Suc n \<longrightarrow> x < 2 powi (exponent_up n x + 1))"
proof (induction n x rule: exponent_up.induct)
  case (2 n x)
  show ?case
  proof (cases "x < 2")
    case False
    with 2 show ?thesis by (auto simp: power_int_add field_simps)
  qed (use 2(2) in simp)
qed simp

lemma exponent_down_bounds:
  "0 \<le> x \<Longrightarrow> x < 1 \<Longrightarrow> - int n \<le> exponent_down n x \<and> exponent_down n x \<le> 0 \<and> x < 2 powi (exponent_down n x + 1)
    \<and> (exponent_down n x = - int n \<or> 2 powi (exponent_down n x) \<le> x)"
proof (induction n x rule: exponent_down.induct)
  case (2 n x)
  then have IH: "2 * x < 1 \<Longrightarrow> - int n \<le> exponent_down n (2 * x) \<and> exponent_down n (2 * x) \<le> 0
      \<and> 2 * x < 2 powi (exponent_down n (2 * x) + 1)
      \<and> (exponent_down n (2 * x) = - int n \<or> 2 powi (exponent_down n (2 * x)) \<le> 2 * x)"
    by simp
  show ?case
  proof (cases "2 * x < 1")
    case True
    with 2(3) IH show ?thesis by (auto simp: power_int_add power_int_diff field_simps)
  next
    case False
    then have "exponent_down n (2 * x) = 0" by (cases n) simp_all
    with 2(2,3) False show ?thesis by (simp add: power_int_minus)
  qed
qed simp

lemma exponent32_bounds:
  assumes "0 \<le> x" "x < 2 ^ 128"
  shows "- 126 \<le> exponent32 x" "x < 2 powi (exponent32 x + 1)" "exponent32 x = - 126 \<or> 2 powi (exponent32 x) \<le> x"
  using assms exponent_up_bounds [of x 127] exponent_down_bounds [of x 126]
  by (auto simp: exponent32_def simp del: exponent_up.simps exponent_down.simps)

lemma exponent32_mono:
  assumes "0 \<le> x" "x \<le> y" "y < 2 ^ 128"
  shows "exponent32 x \<le> exponent32 y"
proof (rule ccontr)
  assume "\<not> exponent32 x \<le> exponent32 y"
  then have lt: "exponent32 y + 1 \<le> exponent32 x" by linarith
  note bx = exponent32_bounds [of x] and bounds_y = exponent32_bounds [of y]
  have "y < 2 powi (exponent32 y + 1)" using bounds_y assms by auto
  also have "\<dots> \<le> 2 powi (exponent32 x)" using lt by (intro power_int_increasing) simp_all
  also have "\<dots> \<le> x" using bx bounds_y lt assms by auto
  finally show False using assms by simp
qed

lemma quantum32_pos [simp]: "0 < quantum32 x"
  by (simp add: quantum32_def)

lemma quantum32_nonzero [simp]: "quantum32 x \<noteq> 0"
  by (simp add: quantum32_def)

lemma f32_nonneg: "0 \<le> x \<Longrightarrow> f32 x = of_int (round_even (x / quantum32 x)) * quantum32 x"
  by (simp add: f32_def Let_def)

lemma f32_error: "0 \<le> x \<Longrightarrow> \<bar>f32 x - x\<bar> \<le> quantum32 x / 2"
proof -
  assume "0 \<le> x"
  then have "f32 x - x = (of_int (round_even (x / quantum32 x)) - x / quantum32 x) * quantum32 x"
    by (simp add: f32_nonneg left_diff_distrib)
  also have "\<bar>\<dots>\<bar> = \<bar>of_int (round_even (x / quantum32 x)) - x / quantum32 x\<bar> * quantum32 x"
    by (simp add: abs_mult less_imp_le)
  also have "\<dots> \<le> 1 / 2 * quantum32 x" by (intro mult_right_mono round_even_near) (simp add: less_imp_le)
  finally show ?thesis by simp
qed

text \<open>A multiple of the quantum is left alone, and bounds by such a multiple survive rounding.\<close>

lemma f32_grid: "0 \<le> x \<Longrightarrow> x = of_int k * quantum32 x \<Longrightarrow> f32 x = x"
  by (metis f32_nonneg nonzero_mult_div_cancel_right order_less_irrefl quantum32_pos round_even_of_int)

lemma quantum32_powi: "2 powi (exponent32 x + int n) = of_int (2 ^ (n + 23)) * quantum32 x"
  by (simp add: quantum32_def power_int_add power_int_diff power_add)

lemma f32_upper: "0 \<le> x \<Longrightarrow> x \<le> of_int k * quantum32 x \<Longrightarrow> f32 x \<le> of_int k * quantum32 x"
proof -
  assume x: "0 \<le> x" "x \<le> of_int k * quantum32 x"
  then have "round_even (x / quantum32 x) \<le> round_even (of_int k)"
    by (intro round_even_mono) (simp add: pos_divide_le_eq)
  with x(1) show ?thesis by (simp add: f32_nonneg mult_right_mono less_imp_le)
qed

lemma f32_lower: "0 \<le> x \<Longrightarrow> of_int k * quantum32 x \<le> x \<Longrightarrow> of_int k * quantum32 x \<le> f32 x"
proof -
  assume x: "0 \<le> x" "of_int k * quantum32 x \<le> x"
  then have "round_even (of_int k) \<le> round_even (x / quantum32 x)"
    by (intro round_even_mono) (simp add: pos_le_divide_eq)
  with x(1) show ?thesis by (simp add: f32_nonneg mult_right_mono less_imp_le)
qed

lemma f32_mono:
  assumes "0 \<le> x" "x \<le> y" "y < 2 ^ 128"
  shows "f32 x \<le> f32 y"
proof (cases "exponent32 x = exponent32 y")
  case True
  then have "quantum32 x = quantum32 y" by (simp add: quantum32_def)
  moreover from this have "round_even (x / quantum32 x) \<le> round_even (y / quantum32 y)"
    using assms(2) by (simp add: round_even_mono divide_right_mono less_imp_le)
  ultimately show ?thesis using assms by (simp add: f32_nonneg mult_right_mono less_imp_le)
next
  case False
  with exponent32_mono [OF assms] have lt: "exponent32 x + 1 \<le> exponent32 y" by simp
  from assms have x: "x < 2 ^ 128" "0 \<le> y" by auto
  have "f32 x \<le> 2 powi (exponent32 x + 1)"
    using f32_upper [of x "2 ^ 24"] exponent32_bounds(2) [OF assms(1) x(1)] quantum32_powi [of x 1] assms(1) by simp
  also have "\<dots> \<le> 2 powi (exponent32 y)" using lt by (intro power_int_increasing) simp_all
  also have "\<dots> \<le> f32 y"
    using f32_lower [of y "2 ^ 23"] exponent32_bounds(3) [OF x(2) assms(3)] exponent32_bounds(1) [OF assms(1) x(1)]
      quantum32_powi [of y 0] x(2) lt by auto
  finally show ?thesis .
qed

lemma f32_0 [simp]: "f32 0 = 0"
  by (simp add: f32_nonneg round_even_def)

lemma f32_code [code]:
  "f32 x = (if x = 0 then 0
    else let q = quantum32 \<bar>x\<bar>; r = of_int (round_even (\<bar>x\<bar> / q)) * q in if x < 0 then - r else r)"
  by (simp add: f32_def round_even_def)

lemma f32_1 [simp]: "f32 1 = 1"
  using f32_grid [of 1 "2 ^ 23"] by (simp add: quantum32_def power_int_minus)

lemma f32_unit: "0 \<le> x \<Longrightarrow> x \<le> 1 \<Longrightarrow> 0 \<le> f32 x \<and> f32 x \<le> 1"
  using f32_mono [of 0 x] f32_mono [of x 1] by simp

lemma f32_clamp_unit: "0 \<le> f32_clamp 0 1 x \<and> f32_clamp 0 1 x \<le> 1"
  by (simp add: f32_clamp_def)

section \<open>Exactness\<close>

lemma f32_of_nat_exact: "n < 2 ^ 24 \<Longrightarrow> f32_of_nat n = of_nat n"
proof (cases "n = 0")
  case False
  assume n: "n < 2 ^ 24"
  let ?x = "of_nat n :: rat"
  let ?e = "exponent32 ?x"
  have "?x < of_nat (2 ^ 24)" using n by (subst of_nat_less_iff)
  then have range: "1 \<le> ?x" "?x < 2 ^ 24" using False by simp_all
  then have e: "0 \<le> ?e" "2 powi ?e \<le> ?x" using exponent_up_bounds [of ?x 127] by (auto simp: exponent32_def)
  have "\<not> 24 \<le> ?e"
  proof
    assume "24 \<le> ?e"
    then have "(2 :: rat) powi 24 \<le> 2 powi ?e" by (intro power_int_increasing) simp_all
    with e(2) range show False by simp
  qed
  then have "quantum32 ?x = 1 / 2 ^ nat (23 - ?e)"
    by (simp add: quantum32_def power_int_def power_one_over)
  then have "?x = of_int (int n * 2 ^ nat (23 - ?e)) * quantum32 ?x" by simp
  then show ?thesis unfolding f32_of_nat_def by (rule f32_grid [rotated]) simp
qed (simp add: f32_of_nat_def)

lemma quantum32_unit: "0 \<le> x \<Longrightarrow> x \<le> 1 \<Longrightarrow> quantum32 x \<le> 1 / 2 ^ 23"
proof -
  assume x: "0 \<le> x" "x \<le> 1"
  then have "exponent32 x \<le> exponent32 1" by (intro exponent32_mono) simp_all
  then have "quantum32 x \<le> 2 powi (- 23)" unfolding quantum32_def by (intro power_int_increasing) simp_all
  then show ?thesis by (simp add: power_int_minus inverse_eq_divide)
qed

lemma f32_unit_error:
  assumes "0 \<le> x" "x \<le> 1"
  shows "f32 x \<le> x + 1 / 2 ^ 24" "x - 1 / 2 ^ 24 \<le> f32 x"
  using f32_error [of x] quantum32_unit [of x] assms unfolding abs_le_iff by simp_all

text \<open>
  Comparing a rounded fraction with a rounded threshold is comparing the fractions, as long as
  the denominators are far from the precision of the format.
\<close>

lemma f32_threshold:
  fixes i u p d :: nat
  assumes "0 < u" "i \<le> u" "0 < d" "p \<le> d" "u * d < 2 ^ 23"
  shows "f32 (of_nat p / of_nat d) \<le> f32 (of_nat i / of_nat u) \<longleftrightarrow> p * u \<le> i * d"
proof -
  let ?t = "of_nat p / of_nat d :: rat" and ?x = "of_nat i / of_nat u :: rat"
  have unit: "0 \<le> ?t" "?t \<le> 1" "0 \<le> ?x" "?x \<le> 1" using assms by simp_all
  have iff: "p * u \<le> i * d \<longleftrightarrow> ?t \<le> ?x"
    using assms by (simp add: divide_le_eq le_divide_eq flip: of_nat_mult)
  show ?thesis
  proof (cases "?t \<le> ?x")
    case True
    with unit show ?thesis using f32_mono [of ?t ?x] iff by simp
  next
    case False
    then have "i * d + 1 \<le> p * u" using iff by simp
    then have "(of_nat i * of_nat d + 1 :: rat) \<le> of_nat p * of_nat u"
      by (metis of_nat_1 of_nat_add of_nat_le_iff of_nat_mult)
    then have gap: "?x + 1 / (of_nat u * of_nat d) \<le> ?t"
      using assms by (simp add: divide_simps mult.commute)
    have "(of_nat u * of_nat d :: rat) < 2 ^ 23"
      using assms(5) by (metis of_nat_less_iff of_nat_mult of_nat_numeral of_nat_power)
    then have "1 / 2 ^ 23 < (1 / (of_nat u * of_nat d) :: rat)"
      using assms by (intro divide_strict_left_mono) simp_all
    moreover have "f32 ?x \<le> ?x + 1 / 2 ^ 24" "?t - 1 / 2 ^ 24 \<le> f32 ?t" using unit by (simp_all only: f32_unit_error)
    ultimately have "f32 ?x < f32 ?t" using gap by simp
    with False iff show ?thesis by simp
  qed
qed

lemma f32_ge_1: "1 \<le> x \<Longrightarrow> 1 \<le> f32 x"
proof -
  assume x: "1 \<le> x"
  then have e: "0 \<le> exponent32 x" "2 powi (exponent32 x) \<le> x"
    using exponent_up_bounds [of x 127] by (auto simp: exponent32_def)
  have "(1 :: rat) \<le> 2 powi (exponent32 x)" using power_int_increasing [of 0 "exponent32 x" "2 :: rat"] e(1) by simp
  also have "\<dots> \<le> f32 x" using f32_lower [of x "2 ^ 23"] quantum32_powi [of x 0] e(2) x by simp
  finally show ?thesis .
qed

lemma f32_of_nat_pos: "0 < n \<Longrightarrow> 0 < f32_of_nat n"
  using f32_ge_1 [of "of_nat n"] by (simp add: f32_of_nat_def)

end
