(* ===== verification/Semantic_Dedup.thy ===== *)
theory Semantic_Dedup
  imports Text_Ops Comparators Float32
begin

text \<open>
  Near-duplicate matching of rules (\<^verbatim>\<open>skills/semantic_dedup.rs\<close>): two rules are the same when
  their titles, their texts and the files they apply to are close enough. Hash sets are
  lists without duplicates; the sources only ask them for membership, sizes and, after
  sorting, their elements.
\<close>

section \<open>Tokens\<close>

definition SEMANTIC_DEDUP_SCORE_THRESHOLD :: rat where "SEMANTIC_DEDUP_SCORE_THRESHOLD = f32 (58 / 100)"
definition TITLE_DEDUP_JACCARD_THRESHOLD :: rat where "TITLE_DEDUP_JACCARD_THRESHOLD = f32 (70 / 100)"
definition CONTENT_DEDUP_JACCARD_THRESHOLD :: rat where "CONTENT_DEDUP_JACCARD_THRESHOLD = f32 (56 / 100)"
definition NORMALIZED_TITLE_CONTENT_FLOOR :: rat where "NORMALIZED_TITLE_CONTENT_FLOOR = f32 (35 / 100)"

definition SEMANTIC_DEDUP_STOPWORDS :: "ustr list" where
  "SEMANTIC_DEDUP_STOPWORDS = map lit
    [''a'', ''an'', ''the'', ''to'', ''of'', ''in'', ''on'', ''for'', ''and'', ''or'', ''with'', ''is'', ''are'', ''be'', ''by'',
     ''from'', ''as'', ''at'', ''into'', ''onto'', ''this'', ''that'', ''these'', ''those'', ''it'', ''its'', ''use'',
     ''using'', ''review'', ''rule'', ''source'', ''evidence'', ''reviewer'', ''said'', ''touching'']"

definition trim_doubled_suffix :: "ustr \<Rightarrow> ustr" where
  "trim_doubled_suffix s = (case rev s of a # b # _ \<Rightarrow> if b = a then butlast s else s | _ \<Rightarrow> s)"

definition is_low_information_id_token :: "ustr \<Rightarrow> bool" where
  "is_low_information_id_token t \<longleftrightarrow> 7 \<le> length t \<and> list_all is_ascii_hexdigit t"

text \<open>Tokens hold ASCII characters only, so their length is their size in bytes.\<close>

definition stem :: "ustr \<Rightarrow> ustr" where
  "stem t =
     (if length t > 5 \<and> ends_with t (lit ''ies'') then take (length t - 3) t @ lit ''y''
      else if length t > 6 \<and> ends_with t (lit ''ing'') then trim_doubled_suffix (take (length t - 3) t)
      else if length t > 5 \<and> ends_with t (lit ''ed'') then trim_doubled_suffix (take (length t - 2) t)
      else if length t > 5 \<and> ends_with t (lit ''es'') then take (length t - 2) t
      else if length t > 4 \<and> ends_with t (lit ''s'') then take (length t - 1) t
      else t)"

definition normalize_lexical_token :: "ustr \<Rightarrow> ustr option" where
  "normalize_lexical_token token =
     (let t = trim_where (\<lambda>c. c \<in> set (lit ''._:/-'')) token in
      if list_all is_ascii_digit t \<or> is_low_information_id_token t then None
      else let w = stem t in
        if 3 \<le> length w \<and> w \<notin> set SEMANTIC_DEDUP_STOPWORDS then Some w else None)"

definition tokenize_with_allowed_chars :: "ustr \<Rightarrow> (uchar \<Rightarrow> bool) \<Rightarrow> ustr list" where
  "tokenize_with_allowed_chars v allowed =
     remdups (List.map_filter normalize_lexical_token
       (split_whitespace (map (\<lambda>c. if allowed c then c else 32) (to_ascii_lowercase v))))"

definition tokenize_semantic_title :: "ustr \<Rightarrow> ustr list" where
  "tokenize_semantic_title title =
     tokenize_with_allowed_chars title (\<lambda>c. is_ascii_alphanumeric c \<or> c \<in> set (lit ''._''))"

definition tokenize_knowledge_text :: "ustr \<Rightarrow> ustr list" where
  "tokenize_knowledge_text t =
     tokenize_with_allowed_chars t (\<lambda>c. is_ascii_alphanumeric c \<or> c \<in> set (lit ''._/:-''))"

definition normalized_title_key :: "ustr \<Rightarrow> ustr" where
  "normalized_title_key title = str_join (lit '' '') (sort_by cmp_str (tokenize_semantic_title title))"

definition jaccard :: "ustr list \<Rightarrow> ustr list \<Rightarrow> rat" where
  "jaccard left right =
     (if left = [] \<and> right = [] then 0
      else let intersection = length (filter (\<lambda>x. x \<in> set right) left);
               union = length left + length right - intersection in
        if union = 0 then 0 else f32_div (f32_of_nat intersection) (f32_of_nat union))"

section \<open>File patterns\<close>

text \<open>\<^verbatim>\<open>replace("//", "/")\<close>, which the source repeats until nothing changes.\<close>

fun replace_double_slash :: "ustr \<Rightarrow> ustr" where
  "replace_double_slash (c # d # s) =
     (if c = 47 \<and> d = 47 then 47 # replace_double_slash s else c # replace_double_slash (d # s))"
| "replace_double_slash s = s"

lemma length_replace_double_slash: "length (replace_double_slash s) \<le> length s"
  by (induction s rule: replace_double_slash.induct) auto

lemma replace_double_slash_shorter: "sublist [47, 47] s \<Longrightarrow> length (replace_double_slash s) < length s"
proof (induction s rule: replace_double_slash.induct)
  case (1 c d s)
  then show ?case
    using length_replace_double_slash [of s] by (auto simp: sublist_Cons_right)
qed (auto simp: sublist_Cons_right)

function collapse_slashes :: "ustr \<Rightarrow> ustr" where
  "collapse_slashes out =
     (if str_contains out [47, 47] then collapse_slashes (replace_double_slash out) else out)"
  by pat_completeness auto
termination
  by (relation "measure length") (auto simp: str_contains_iff replace_double_slash_shorter)

declare collapse_slashes.simps [simp del]

fun strip_dot_slash :: "ustr \<Rightarrow> ustr" where
  "strip_dot_slash (c # d # s) = (if c = 46 \<and> d = 47 then strip_dot_slash s else c # d # s)"
| "strip_dot_slash s = s"

definition normalize_pattern_string :: "ustr \<Rightarrow> ustr" where
  "normalize_pattern_string pattern =
     trim_end_where (\<lambda>c. c = 47) (strip_dot_slash (collapse_slashes (replace_char 92 47 (trim pattern))))"

definition normalize_patterns :: "ustr list \<Rightarrow> ustr list" where
  "normalize_patterns patterns =
     remdups_adj (sort_by cmp_str (filter (\<lambda>p. p \<noteq> []) (map normalize_pattern_string patterns)))"

definition is_project_wide_pattern :: "ustr \<Rightarrow> bool" where
  "is_project_wide_pattern pattern \<longleftrightarrow> pattern \<in> set (map lit [''**'', ''**/*'', ''**/**''])"

text \<open>The extensions named by \<^verbatim>\<open>*.ext\<close>, and by \<^verbatim>\<open>*.{a,b}\<close>.\<close>

definition plain_extensions :: "ustr \<Rightarrow> ustr list" where
  "plain_extensions pattern =
     map to_ascii_lowercase (filter (\<lambda>e. e \<noteq> [])
       (map (takeWhile is_ascii_alphanumeric) (tl (split_str (lit ''*.'') pattern))))"

definition brace_parts :: "ustr \<Rightarrow> ustr list" where
  "brace_parts grp =
     filter (\<lambda>e. e \<noteq> [] \<and> list_all is_ascii_alphanumeric e)
       (map (\<lambda>part. to_ascii_lowercase (trim_start_matches 46 (trim part))) (split_on (\<lambda>c. c = 44) grp))"

function brace_extensions :: "ustr \<Rightarrow> ustr list" where
  "brace_extensions rest =
     (case str_find rest (lit ''*.{'') of
        None \<Rightarrow> []
      | Some start \<Rightarrow>
          (let after = drop (start + 3) rest in
           case find_char after 125 of
             None \<Rightarrow> []
           | Some e \<Rightarrow> brace_parts (take e after) @ brace_extensions (drop (e + 1) after)))"
  by pat_completeness auto
termination
proof (relation "measure length", goal_cases)
  case (2 rest start after e)
  then show ?case using str_find_bound [of rest "lit ''*.{''" start] by (simp add: lit_def)
qed simp

declare brace_extensions.simps [simp del]

definition extensions_for_pattern :: "ustr \<Rightarrow> ustr list" where
  "extensions_for_pattern pattern = remdups (plain_extensions pattern @ brace_extensions pattern)"

definition language_family :: "ustr \<Rightarrow> ustr" where
  "language_family ext =
     (if ext \<in> set (map lit [''c'', ''cc'', ''cpp'', ''cxx'', ''h'', ''hpp'', ''hxx'']) then lit ''c-family''
      else if ext \<in> set (map lit [''js'', ''jsx'', ''mjs'', ''cjs'', ''ts'', ''tsx'']) then lit ''js-family''
      else ext)"

definition language_families_for_pattern :: "ustr \<Rightarrow> ustr list" where
  "language_families_for_pattern pattern = remdups (map language_family (extensions_for_pattern pattern))"

definition has_compatible_language_scope :: "ustr \<Rightarrow> ustr \<Rightarrow> bool" where
  "has_compatible_language_scope left right \<longleftrightarrow>
     (let l = language_families_for_pattern left; r = language_families_for_pattern right in
      l = [] \<or> r = [] \<or> list_ex (\<lambda>family. family \<in> set r) l)"

definition file_pattern_languages_compatible :: "ustr list \<Rightarrow> ustr list \<Rightarrow> bool" where
  "file_pattern_languages_compatible incoming existing \<longleftrightarrow>
     (let a = normalize_patterns incoming; b = normalize_patterns existing in
      a \<noteq> [] \<and> b \<noteq> [] \<and> list_ex (\<lambda>l. list_ex (has_compatible_language_scope l) b) a)"

definition is_glob_char :: "uchar \<Rightarrow> bool" where
  "is_glob_char c \<longleftrightarrow> c \<in> set (lit ''*?{['')"

definition glob_prefix :: "ustr \<Rightarrow> ustr" where
  "glob_prefix pattern =
     (if is_project_wide_pattern pattern then []
      else if list_ex is_glob_char pattern
      then trim_end_where (\<lambda>c. c = 47) (takeWhile (\<lambda>c. \<not> is_glob_char c) pattern)
      else (case rsplit_once 47 pattern of Some (p, _) \<Rightarrow> p | None \<Rightarrow> []))"

definition prefix_subsumes :: "ustr \<Rightarrow> ustr \<Rightarrow> bool" where
  "prefix_subsumes left right \<longleftrightarrow>
     left = [] \<or> right = [] \<or> left = right \<or> starts_with left (right @ lit ''/'') \<or> starts_with right (left @ lit ''/'')"

definition file_pattern_pair_overlap_score :: "ustr \<Rightarrow> ustr \<Rightarrow> rat" where
  "file_pattern_pair_overlap_score left right =
     (if left = right then 1
      else if \<not> has_compatible_language_scope left right then 0
      else if is_project_wide_pattern left \<or> is_project_wide_pattern right then 1
      else let lp = glob_prefix left; rp = glob_prefix right in
        if lp = rp then 1
        else if prefix_subsumes lp rp then f32 (9 / 10)
        else if lp = [] \<or> rp = [] then f32 (86 / 100)
        else 0)"

definition file_pattern_overlap_score :: "ustr list \<Rightarrow> ustr list \<Rightarrow> rat" where
  "file_pattern_overlap_score incoming existing =
     (let a = normalize_patterns incoming; b = normalize_patterns existing in
      if a = [] \<or> b = [] then 0
      else fold (\<lambda>left best. fold (\<lambda>right best. max best (file_pattern_pair_overlap_score left right)) b best) a 0)"

section \<open>Matching\<close>

record SemanticRuleKey =
  key_title :: ustr
  key_content :: ustr
  key_file_patterns :: "ustr list"

definition semantic_rule_content :: "ustr \<Rightarrow> ustr" where
  "semantic_rule_content content = hd (split_str ([10, 10] @ lit ''Source evidence:'') content)"

definition semantic_rule_key :: "ustr \<Rightarrow> ustr \<Rightarrow> ustr list \<Rightarrow> SemanticRuleKey" where
  "semantic_rule_key title content file_patterns =
     \<lparr>key_title = title, key_content = semantic_rule_content content, key_file_patterns = file_patterns\<rparr>"

record SemanticDedupScore =
  dedup_score :: rat
  title_jaccard :: rat
  content_jaccard :: rat
  file_pattern_overlap :: rat

definition semantic_dedup_score :: "SemanticRuleKey \<Rightarrow> SemanticRuleKey \<Rightarrow> SemanticDedupScore" where
  "semantic_dedup_score incoming candidate =
     (let tj = jaccard (tokenize_semantic_title (key_title incoming)) (tokenize_semantic_title (key_title candidate));
          cj = jaccard (tokenize_knowledge_text (key_content incoming)) (tokenize_knowledge_text (key_content candidate));
          overlap = file_pattern_overlap_score (key_file_patterns incoming) (key_file_patterns candidate);
          weighted = f32_mul_add (f32 (2 / 10)) overlap (f32_mul_add (f32 (42 / 100)) cj (f32_mul (f32 (38 / 100)) tj)) in
      \<lparr>dedup_score = f32_clamp 0 1 (f32_sub weighted (f32 (5 / 100))), title_jaccard = tj,
       content_jaccard = cj, file_pattern_overlap = overlap\<rparr>)"

definition semantic_rules_match :: "SemanticRuleKey \<Rightarrow> SemanticRuleKey \<Rightarrow> bool" where
  "semantic_rules_match incoming candidate \<longleftrightarrow>
     (let title_key = normalized_title_key (key_title incoming);
          scored = semantic_dedup_score incoming candidate in
      if title_key \<noteq> [] \<and> title_key = normalized_title_key (key_title candidate)
      then file_pattern_overlap scored > 0
        \<or> (file_pattern_languages_compatible (key_file_patterns incoming) (key_file_patterns candidate)
            \<and> content_jaccard scored \<ge> NORMALIZED_TITLE_CONTENT_FLOOR)
      else if file_pattern_overlap scored > 0 \<and> content_jaccard scored \<ge> CONTENT_DEDUP_JACCARD_THRESHOLD then True
      else let score = (if title_jaccard scored \<ge> TITLE_DEDUP_JACCARD_THRESHOLD
                        then max (dedup_score scored) (title_jaccard scored) else dedup_score scored) in
        file_pattern_overlap scored > 0 \<and> score \<ge> SEMANTIC_DEDUP_SCORE_THRESHOLD)"

section \<open>Facts\<close>

lemma distinct_tokens [simp]: "distinct (tokenize_semantic_title t)" "distinct (tokenize_knowledge_text t)"
  by (simp_all add: tokenize_semantic_title_def tokenize_knowledge_text_def tokenize_with_allowed_chars_def)

lemma length_filter_mem: "distinct l \<Longrightarrow> length (filter (\<lambda>x. x \<in> set r) l) = card (set l \<inter> set r)"
  by (metis distinct_card distinct_filter set_filter Collect_conj_eq Collect_mem_eq)

lemma card_union_tokens:
  "distinct l \<Longrightarrow> distinct r \<Longrightarrow> length l + length r - card (set l \<inter> set r) = card (set l \<union> set r)"
  using card_Un_Int [of "set l" "set r"] by (simp add: distinct_card)

text \<open>The quotient of the numbers of common and of all tokens.\<close>

lemma jaccard_eq:
  assumes "distinct l" "distinct r"
  shows "jaccard l r = (if l = [] \<and> r = [] then 0
    else f32_div (f32_of_nat (card (set l \<inter> set r))) (f32_of_nat (card (set l \<union> set r))))"
proof (cases "l = [] \<and> r = []")
  case False
  then have "card (set l \<union> set r) \<noteq> 0" by simp
  with False show ?thesis
    unfolding jaccard_def Let_def length_filter_mem [OF assms(1)] card_union_tokens [OF assms] by auto
qed (simp add: jaccard_def)

lemma jaccard_sym: "distinct l \<Longrightarrow> distinct r \<Longrightarrow> jaccard l r = jaccard r l"
  by (simp add: jaccard_eq Int_commute Un_commute conj_commute)

lemma jaccard_threshold:
  fixes p d :: nat
  assumes "distinct l" "distinct r" "0 < p" "p \<le> d" "card (set l \<union> set r) * d < 2 ^ 23" "d < 2 ^ 23"
  shows "f32 (of_nat p / of_nat d) \<le> jaccard l r
    \<longleftrightarrow> (l \<noteq> [] \<or> r \<noteq> []) \<and> p * card (set l \<union> set r) \<le> card (set l \<inter> set r) * d"
proof (cases "l = [] \<and> r = []")
  case True
  have "0 < f32 (of_nat p / of_nat d)" using f32_threshold [of 1 0 d p] assms(3,4,6) by simp
  with True show ?thesis by (simp add: jaccard_def)
next
  case False
  let ?i = "card (set l \<inter> set r)" and ?u = "card (set l \<union> set r)"
  have u: "0 < ?u" "?i \<le> ?u" using False by (auto simp: card_gt_0_iff intro: card_mono)
  have "?u \<le> ?u * d" using assms(3,4) by simp
  also have "\<dots> < 2 ^ 23" by (rule assms(5))
  finally have "?u < 2 ^ 24" by simp
  with u have "jaccard l r = f32 (of_nat ?i / of_nat ?u)"
    using False assms(1,2) by (simp add: jaccard_eq f32_div_def f32_of_nat_exact)
  then show ?thesis using f32_threshold [of ?u ?i d p] u assms False by auto
qed

subsection \<open>Scopes\<close>

lemma has_compatible_language_scope_sym: "has_compatible_language_scope l r = has_compatible_language_scope r l"
  by (auto simp: has_compatible_language_scope_def Let_def list_ex_iff)

lemma has_compatible_language_scope_refl [simp]: "has_compatible_language_scope p p"
  by (cases "language_families_for_pattern p") (auto simp: has_compatible_language_scope_def)

lemma prefix_subsumes_sym: "prefix_subsumes l r = prefix_subsumes r l"
  by (auto simp: prefix_subsumes_def)

lemma pair_score_sym: "file_pattern_pair_overlap_score l r = file_pattern_pair_overlap_score r l"
  by (auto simp: file_pattern_pair_overlap_score_def Let_def has_compatible_language_scope_sym [of l r]
      prefix_subsumes_sym [of "glob_prefix l"])

lemma pair_score_compatible: "0 < file_pattern_pair_overlap_score l r \<Longrightarrow> has_compatible_language_scope l r"
  by (auto simp: file_pattern_pair_overlap_score_def split: if_splits)

lemma fold_max_le: "fold (\<lambda>x best. max best (f x)) xs b \<le> (t :: rat) \<longleftrightarrow> b \<le> t \<and> (\<forall>x \<in> set xs. f x \<le> t)"
  by (induction xs arbitrary: b) auto

lemma fold_max2_le:
  "fold (\<lambda>l best. fold (\<lambda>r best. max best (f l r)) ys best) xs b \<le> (t :: rat)
    \<longleftrightarrow> b \<le> t \<and> (\<forall>l \<in> set xs. \<forall>r \<in> set ys. f l r \<le> t)"
  by (induction xs arbitrary: b) (auto simp: fold_max_le)

text \<open>The overlap of two lists of patterns is the best overlap of a pair.\<close>

lemma overlap_score_le:
  "0 \<le> t \<Longrightarrow> file_pattern_overlap_score a b \<le> t
    \<longleftrightarrow> (\<forall>l \<in> set (normalize_patterns a). \<forall>r \<in> set (normalize_patterns b). file_pattern_pair_overlap_score l r \<le> t)"
  by (auto simp: file_pattern_overlap_score_def Let_def fold_max2_le)

lemma overlap_score_nonneg: "0 \<le> file_pattern_overlap_score a b"
  unfolding file_pattern_overlap_score_def Let_def
  by (auto intro: conjunct1 [OF fold_max2_le [THEN iffD1, OF order_refl]])

lemma overlap_score_ge:
  "l \<in> set (normalize_patterns a) \<Longrightarrow> r \<in> set (normalize_patterns b)
    \<Longrightarrow> file_pattern_pair_overlap_score l r \<le> file_pattern_overlap_score a b"
  using overlap_score_le [OF overlap_score_nonneg, of a b a b] by blast

lemma overlap_score_le_flip: "file_pattern_overlap_score a b \<le> file_pattern_overlap_score b a"
  unfolding overlap_score_le [OF overlap_score_nonneg]
  by (metis overlap_score_ge pair_score_sym)

lemma overlap_score_sym: "file_pattern_overlap_score a b = file_pattern_overlap_score b a"
  by (intro order.antisym overlap_score_le_flip)

lemma overlap_score_pos:
  "0 < file_pattern_overlap_score a b
    \<longleftrightarrow> (\<exists>l \<in> set (normalize_patterns a). \<exists>r \<in> set (normalize_patterns b). 0 < file_pattern_pair_overlap_score l r)"
  using overlap_score_le [of 0 a b] unfolding not_le [symmetric] by blast

lemma overlap_pos_compatible:
  "0 < file_pattern_overlap_score a b \<Longrightarrow> file_pattern_languages_compatible a b"
  by (fastforce simp: overlap_score_pos file_pattern_languages_compatible_def Let_def list_ex_iff
      dest: pair_score_compatible)

lemma languages_compatible_sym: "file_pattern_languages_compatible a b = file_pattern_languages_compatible b a"
  unfolding file_pattern_languages_compatible_def Let_def list_ex_iff
  by (metis has_compatible_language_scope_sym)

lemma dedup_score_sym: "semantic_dedup_score a b = semantic_dedup_score b a"
  unfolding semantic_dedup_score_def
  by (simp add: jaccard_sym [of "tokenize_semantic_title (key_title a)"]
      jaccard_sym [of "tokenize_knowledge_text (key_content a)"] overlap_score_sym [of "key_file_patterns a"])

lemma overlap_dedup_score:
  "file_pattern_overlap (semantic_dedup_score a b) = file_pattern_overlap_score (key_file_patterns a) (key_file_patterns b)"
  by (simp add: semantic_dedup_score_def Let_def)

lemma content_dedup_score:
  "content_jaccard (semantic_dedup_score a b)
    = jaccard (tokenize_knowledge_text (key_content a)) (tokenize_knowledge_text (key_content b))"
  by (simp add: semantic_dedup_score_def Let_def)

lemma jaccard_self: "distinct l \<Longrightarrow> l \<noteq> [] \<Longrightarrow> jaccard l l = 1"
  using f32_of_nat_pos [of "card (set l)"] by (simp add: jaccard_eq f32_div_def card_gt_0_iff)

lemma pair_score_self [simp]: "file_pattern_pair_overlap_score p p = 1"
  by (simp add: file_pattern_pair_overlap_score_def)

lemma overlap_score_self: "normalize_patterns ps \<noteq> [] \<Longrightarrow> 0 < file_pattern_overlap_score ps ps"
  by (cases "normalize_patterns ps") (auto simp: overlap_score_pos)

subsection \<open>Normal patterns\<close>

lemma collapse_slashes_free: "\<not> sublist [47, 47] (collapse_slashes s)"
proof (induction s rule: collapse_slashes.induct)
  case (1 s)
  then show ?case by (subst collapse_slashes.simps) (simp add: str_contains_iff)
qed

lemma set_replace_double_slash: "set (replace_double_slash s) \<subseteq> set s"
  by (induction s rule: replace_double_slash.induct) auto

lemma set_collapse_slashes: "set (collapse_slashes s) \<subseteq> set s"
proof (induction s rule: collapse_slashes.induct)
  case (1 s)
  then show ?case using set_replace_double_slash [of s] by (subst collapse_slashes.simps) auto
qed

lemma suffix_strip_dot_slash: "suffix (strip_dot_slash s) s"
  by (induction s rule: strip_dot_slash.induct) (auto intro: suffix_ConsI)

lemma strip_dot_slash_start: "\<not> starts_with (strip_dot_slash s) [46, 47]"
  by (induction s rule: strip_dot_slash.induct) (auto simp: starts_with_def)

lemma prefix_trim_end_where: "prefix (trim_end_where p s) s"
  by (metis prefix_def rev_append rev_rev_ident takeWhile_dropWhile_id trim_end_where_def)

lemma last_trim_end_where: "trim_end_where p s \<noteq> [] \<Longrightarrow> \<not> p (last (trim_end_where p s))"
  unfolding trim_end_where_def using hd_dropWhile [of p "rev s"] by (simp add: last_rev)

section \<open>Properties\<close>

lemma match_overlaps:
  assumes "semantic_rules_match a b"
  shows "file_pattern_languages_compatible (key_file_patterns a) (key_file_patterns b)"
  using assms by (auto simp: semantic_rules_match_def Let_def overlap_dedup_score overlap_pos_compatible split: if_splits)

text \<open>The language families the patterns of a rule name.\<close>

definition rule_families :: "SemanticRuleKey \<Rightarrow> ustr set" where
  "rule_families k = (\<Union>p \<in> set (normalize_patterns (key_file_patterns k)). set (language_families_for_pattern p))"


text \<open>
  The similarity of two token sets passes a threshold of \<open>p / d\<close> exactly when \<open>p / d\<close> of all
  their tokens are common: the rounding of the division never decides, for sets of up to
  80000 tokens and thresholds in hundredths.
\<close>

theorem jaccard_decides_exactly:
  fixes p :: nat
  assumes "distinct l" "distinct r" "0 < p" "p \<le> 100" "card (set l \<union> set r) \<le> 80000"
  shows "f32 (of_nat p / 100) \<le> jaccard l r
    \<longleftrightarrow> (l \<noteq> [] \<or> r \<noteq> []) \<and> p * card (set l \<union> set r) \<le> 100 * card (set l \<inter> set r)"
  using jaccard_threshold [of l r p 100] assms by (simp add: mult.commute)

text \<open>
  A pattern is compared in its normal form: no doubled slash, no leading \<^verbatim>\<open>./\<close>, no trailing
  slash and no backslash, for every way to write it.
\<close>

theorem normalized_pattern_form:
  "\<not> sublist [47, 47] (normalize_pattern_string p) \<and> \<not> starts_with (normalize_pattern_string p) [46, 47]
   \<and> (normalize_pattern_string p \<noteq> [] \<longrightarrow> last (normalize_pattern_string p) \<noteq> 47)
   \<and> 92 \<notin> set (normalize_pattern_string p)"
proof -
  let ?c = "collapse_slashes (replace_char 92 47 (trim p))"
  have p: "prefix (normalize_pattern_string p) (strip_dot_slash ?c)"
    unfolding normalize_pattern_string_def by (rule prefix_trim_end_where)
  then have sub: "sublist (normalize_pattern_string p) ?c"
    using suffix_strip_dot_slash [of ?c] by (meson prefix_imp_sublist sublist_order.order_trans suffix_imp_sublist)
  then have "set (normalize_pattern_string p) \<subseteq> set ?c" by (rule set_mono_sublist)
  then have "92 \<notin> set (normalize_pattern_string p)"
    using set_collapse_slashes [of "replace_char 92 47 (trim p)"] by (auto simp: replace_char_def)
  moreover from sub have "\<not> sublist [47, 47] (normalize_pattern_string p)"
    using collapse_slashes_free sublist_order.order_trans by blast
  moreover have "\<not> starts_with (normalize_pattern_string p) [46, 47]"
    using p strip_dot_slash_start [of ?c] by (auto simp: starts_with_iff prefix_def)
  moreover have "normalize_pattern_string p \<noteq> [] \<Longrightarrow> last (normalize_pattern_string p) \<noteq> 47"
    unfolding normalize_pattern_string_def by (blast dest: last_trim_end_where)
  ultimately show ?thesis by blast
qed

text \<open>
  The score of a pair of patterns is 1, 0.9 or 0. The source has a fourth value, 0.86 for a
  pattern at the root of the repository, which it never returns: an empty prefix already subsumes every other.
\<close>

theorem pair_score_values:
  "file_pattern_pair_overlap_score l r \<in> {0, f32 (9 / 10), 1}"
  by (auto simp: file_pattern_pair_overlap_score_def Let_def prefix_subsumes_def)

text \<open>Two drafts of the same advice for files of one language family.\<close>

definition demo_rule :: SemanticRuleKey where
  "demo_rule = semantic_rule_key (lit ''Avoid inline css'') (lit ''Move it to a module'') [lit ''src/*.tsx'']"

definition demo_rule_again :: SemanticRuleKey where
  "demo_rule_again = semantic_rule_key (lit ''Inline CSS: avoid'') [] [lit ''./src//*.jsx'']"


text \<open>
  Extensions count only behind a wildcard: the paths of two files name no language, and two rules with the same title, one
  for a TypeScript file and one for a Go file of the same directory, match.
\<close>

theorem file_paths_name_no_language:
  "language_families_for_pattern (lit ''src/a.ts'') = [] \<and> language_families_for_pattern (lit ''src/*.ts'') \<noteq> []
   \<and> semantic_rules_match (semantic_rule_key (lit ''Avoid panics'') [] [lit ''src/a.ts''])
       (semantic_rule_key (lit ''Avoid panics'') [] [lit ''src/a.go''])"
proof -
  let ?a = "semantic_rule_key (lit ''Avoid panics'') [] [lit ''src/a.ts'']"
  let ?b = "semantic_rule_key (lit ''Avoid panics'') [] [lit ''src/a.go'']"
  have "normalized_title_key (key_title ?a) \<noteq> []" "normalized_title_key (key_title ?b) = normalized_title_key (key_title ?a)"
    "0 < file_pattern_overlap_score (key_file_patterns ?a) (key_file_patterns ?b)" by code_simp+
  then have "semantic_rules_match ?a ?b" by (simp add: semantic_rules_match_def Let_def overlap_dedup_score)
  moreover have "language_families_for_pattern (lit ''src/a.ts'') = []" "language_families_for_pattern (lit ''src/*.ts'') \<noteq> []"
    by code_simp+
  ultimately show ?thesis by blast
qed

theorem jaccard_decides_exactly_witness:
  "f32 (of_nat 50 / 100) \<le> jaccard [[1, 2, 3], [4, 5, 6]] [[1, 2, 3]]"
  using jaccard_decides_exactly [of "[[1, 2, 3], [4, 5, 6]]" "[[1, 2, 3]]" 50] by (simp add: insert_commute)

theorem normalized_pattern_form_witness:
  "last (normalize_pattern_string (lit ''.//src//app/'')) \<noteq> 47"
proof -
  have "normalize_pattern_string (lit ''.//src//app/'') \<noteq> []" by code_simp
  with normalized_pattern_form [of "lit ''.//src//app/''"] show ?thesis by blast
qed

end
