(* ===== verification/Memory_Groups.thy ===== *)
theory Memory_Groups
  imports Semantic_Dedup
begin

text \<open>
  Grouping of pending memories (\<^verbatim>\<open>memory_autopilot/mod.rs\<close> and
  \<^verbatim>\<open>memory_autopilot/cluster.rs\<close>): drafts are grouped by a key, discoveries mined from
  sessions are clustered by similarity with a union-find structure. The theorems show that
  clustering returns on every input and gives the connected components of the similarity.
\<close>

section \<open>Data\<close>

datatype PendingMemoryKind = Draft (kind_id: ustr) | Session (kind_content_hash: ustr)

record PendingMemory =
  pm_item_id :: ustr
  pm_kind :: PendingMemoryKind
  pm_title :: ustr
  pm_body :: ustr
  pm_raw_description :: "ustr option"
  pm_content_hash :: "ustr option"
  pm_origin :: ustr
  pm_source_kind :: ustr
  pm_source_repo :: "ustr option"
  pm_file_patterns :: "ustr list"
  pm_verdict :: "ustr option"
  pm_session_id :: "ustr option"
  pm_session_created_at_ms :: "int option"
  pm_distinct_evidence_count :: "nat option"
  pm_autopilot_disabled :: bool

record ActiveMemory =
  am_item_id :: ustr
  am_rule_id :: ustr
  am_title :: ustr
  am_body :: ustr
  am_content_hash :: "ustr option"
  am_origin :: ustr
  am_source_kind :: ustr
  am_source_repo :: "ustr option"
  am_file_patterns :: "ustr list"
  am_updated_at :: ustr

definition is_session :: "PendingMemory \<Rightarrow> bool" where
  "is_session c \<longleftrightarrow> (case pm_kind c of Session _ \<Rightarrow> True | Draft _ \<Rightarrow> False)"

section \<open>Keys\<close>

definition STOP_WORDS :: "ustr list" where
  "STOP_WORDS = map lit [''the'', ''and'', ''for'', ''with'', ''from'', ''into'', ''this'', ''that'', ''when'', ''should'',
     ''only'', ''avoid'', ''prefer'', ''rule'', ''memory'', ''candidate'']"

definition normalize_token :: "ustr \<Rightarrow> ustr" where
  "normalize_token s =
     to_ascii_lowercase (filter (\<lambda>c. is_ascii_alphanumeric c \<or> c \<in> set (lit ''-_/'')) s)"

definition normalize_words :: "ustr \<Rightarrow> ustr list" where
  "normalize_words s =
     filter (\<lambda>w. w \<notin> set STOP_WORDS) (map normalize_token (filter (\<lambda>w. 3 \<le> utf8_len w)
       (map trim (split_on (\<lambda>c. \<not> is_ascii_alphanumeric c) s))))"

definition topic_key :: "ustr \<Rightarrow> ustr" where
  "topic_key s = str_join (lit ''-'') (take 8 (normalize_words s))"

text \<open>Collecting into a \<^verbatim>\<open>BTreeSet\<close> and reading it in order.\<close>

definition btree_set :: "ustr list \<Rightarrow> ustr list" where
  "btree_set xs = sort_by cmp_str (remdups xs)"

definition normalize_memory_patterns :: "ustr list \<Rightarrow> ustr list" where
  "normalize_memory_patterns patterns = btree_set (filter (\<lambda>p. p \<noteq> []) (map trim patterns))"

definition pattern_key :: "ustr list \<Rightarrow> ustr" where
  "pattern_key patterns = str_join (lit ''|'') (sort_by cmp_str (normalize_memory_patterns patterns))"

definition cluster_repo_key :: "PendingMemory \<Rightarrow> ustr" where
  "cluster_repo_key c =
     (case pm_source_repo c of
        Some repo \<Rightarrow> if normalize_token repo \<noteq> [] then normalize_token repo else lit ''any-repo''
      | None \<Rightarrow> lit ''any-repo'')"

definition candidate_group_key :: "PendingMemory \<Rightarrow> ustr" where
  "candidate_group_key c =
     cluster_repo_key c @ lit '':'' @ topic_key (pm_title c @ lit '' '' @ pm_body c) @ lit '':''
       @ pattern_key (pm_file_patterns c)"

definition active_memory_key :: "ActiveMemory \<Rightarrow> ustr" where
  "active_memory_key rule = candidate_group_key
     \<lparr>pm_item_id = am_item_id rule, pm_kind = Draft (am_rule_id rule), pm_title = am_title rule, pm_body = am_body rule,
      pm_raw_description = None, pm_content_hash = am_content_hash rule, pm_origin = am_origin rule,
      pm_source_kind = am_source_kind rule, pm_source_repo = am_source_repo rule,
      pm_file_patterns = am_file_patterns rule, pm_verdict = None, pm_session_id = None,
      pm_session_created_at_ms = None, pm_distinct_evidence_count = None, pm_autopilot_disabled = False\<rparr>"

section \<open>Similarity of session candidates\<close>

definition TITLE_CLUSTER_JACCARD :: rat where "TITLE_CLUSTER_JACCARD = f32 (70 / 100)"
definition TITLE_BRANCH_CONTENT_FLOOR :: rat where "TITLE_BRANCH_CONTENT_FLOOR = f32 (30 / 100)"
definition TITLE_SOFT_CLUSTER_JACCARD :: rat where "TITLE_SOFT_CLUSTER_JACCARD = f32 (50 / 100)"
definition TITLE_SOFT_CONTENT_FLOOR :: rat where "TITLE_SOFT_CONTENT_FLOOR = f32 (30 / 100)"
definition CONTENT_CLUSTER_JACCARD :: rat where "CONTENT_CLUSTER_JACCARD = f32 (45 / 100)"
definition PATH_FAMILY_CONTENT_CLUSTER_JACCARD :: rat where "PATH_FAMILY_CONTENT_CLUSTER_JACCARD = f32 (23 / 100)"
definition PATH_FAMILY_TITLE_CLUSTER_JACCARD :: rat where "PATH_FAMILY_TITLE_CLUSTER_JACCARD = f32 (25 / 100)"
definition PATH_FAMILY_SOFT_BOOST :: rat where "PATH_FAMILY_SOFT_BOOST = f32 (8 / 100)"

record CandidateClusterKey =
  title_tokens :: "ustr list"
  content_tokens :: "ustr list"
  families :: "ustr list"

definition common_path_parts :: "ustr list" where
  "common_path_parts = map lit [''app'', ''apps'', ''component'', ''components'', ''crate'', ''crates'', ''css'', ''json'', ''jsx'',
     ''less'', ''lib'', ''libs'', ''module'', ''modules'', ''package'', ''scss'', ''src'', ''test'', ''tests'', ''tsx'']"

definition path_families :: "ustr list \<Rightarrow> ustr list" where
  "path_families patterns =
     remdups (concat (map (\<lambda>pattern.
       filter (\<lambda>part. part \<noteq> []) (map normalize_token
         (filter (\<lambda>part. part \<notin> set common_path_parts) (filter (\<lambda>part. 3 \<le> utf8_len part)
           (map trim (split_on (\<lambda>c. c \<in> set (lit ''/*{}._-'')) pattern)))))) patterns))"

definition path_family_overlap :: "ustr list \<Rightarrow> ustr list \<Rightarrow> bool" where
  "path_family_overlap left right \<longleftrightarrow> left \<noteq> [] \<and> right \<noteq> [] \<and> list_ex (\<lambda>family. family \<in> set right) left"

definition key_from_parts :: "ustr \<Rightarrow> ustr \<Rightarrow> ustr list \<Rightarrow> CandidateClusterKey" where
  "key_from_parts title body file_patterns =
     \<lparr>title_tokens = tokenize_semantic_title title, content_tokens = tokenize_knowledge_text body,
      families = path_families file_patterns\<rparr>"

definition key_from_candidate :: "PendingMemory \<Rightarrow> CandidateClusterKey" where
  "key_from_candidate c = key_from_parts (pm_title c) (pm_body c) (pm_file_patterns c)"

definition key_matches :: "CandidateClusterKey \<Rightarrow> CandidateClusterKey \<Rightarrow> bool" where
  "key_matches a b \<longleftrightarrow>
     (let title_score = jaccard (title_tokens a) (title_tokens b);
          content_score = jaccard (content_tokens a) (content_tokens b);
          boost = (if path_family_overlap (families a) (families b) then PATH_FAMILY_SOFT_BOOST else 0) in
      f32_add content_score boost \<ge> CONTENT_CLUSTER_JACCARD
      \<or> (title_score \<ge> TITLE_CLUSTER_JACCARD \<and> content_score \<ge> TITLE_BRANCH_CONTENT_FLOOR)
      \<or> (title_score \<ge> TITLE_SOFT_CLUSTER_JACCARD \<and> content_score \<ge> TITLE_SOFT_CONTENT_FLOOR)
      \<or> (boost > 0 \<and> title_score \<ge> PATH_FAMILY_TITLE_CLUSTER_JACCARD
          \<and> content_score \<ge> PATH_FAMILY_CONTENT_CLUSTER_JACCARD))"

section \<open>Union-find\<close>

text \<open>
  The parents of the elements. An index out of range panics and a cycle would recurse without
  end; both are \<open>None\<close>.
\<close>

definition uf_new :: "nat \<Rightarrow> nat list" where
  "uf_new n = [0..<n]"

partial_function (option) uf_find :: "nat list \<Rightarrow> nat \<Rightarrow> (nat \<times> nat list) option" where
  "uf_find parent idx =
     (if length parent \<le> idx then None
      else let p = parent ! idx in
        if p = idx then Some (idx, parent)
        else Option.bind (uf_find parent p) (\<lambda>(root, parent').
          if length parent' \<le> idx then None else Some (root, parent'[idx := root])))"

definition uf_union :: "nat list \<Rightarrow> nat \<Rightarrow> nat \<Rightarrow> nat list option" where
  "uf_union parent left right =
     Option.bind (uf_find parent left) (\<lambda>(left_root, p1).
     Option.bind (uf_find p1 right) (\<lambda>(right_root, p2).
       if left_root \<noteq> right_root
       then (if length p2 \<le> right_root then None else Some (p2[right_root := left_root]))
       else Some p2))"

section \<open>Clusters\<close>

text \<open>\<^verbatim>\<open>map.entry(k).or_default().push(v)\<close> on a \<^verbatim>\<open>BTreeMap\<close>, kept in the order of its keys.\<close>

fun entry_push :: "('k \<Rightarrow> 'k \<Rightarrow> ordering) \<Rightarrow> 'k \<Rightarrow> 'v \<Rightarrow> ('k \<times> 'v list) list \<Rightarrow> ('k \<times> 'v list) list" where
  "entry_push cmp k v [] = [(k, [v])]"
| "entry_push cmp k v ((k', vs) # m) =
     (case cmp k k' of
        Less \<Rightarrow> (k, [v]) # (k', vs) # m
      | Equal \<Rightarrow> (k', vs @ [v]) # m
      | Greater \<Rightarrow> (k', vs) # entry_push cmp k v m)"

text \<open>The pairs \<open>left < right\<close> in the order of the two loops, joined when their keys match.\<close>

definition index_pairs :: "nat \<Rightarrow> (nat \<times> nat) list" where
  "index_pairs n = concat (map (\<lambda>left. map (\<lambda>right. (left, right)) [Suc left..<n]) [0..<n])"

fun join_pairs :: "CandidateClusterKey list \<Rightarrow> (nat \<times> nat) list \<Rightarrow> nat list \<Rightarrow> nat list option" where
  "join_pairs keys [] parent = Some parent"
| "join_pairs keys ((left, right) # pairs) parent =
     (if key_matches (keys ! left) (keys ! right)
      then Option.bind (uf_union parent left right) (join_pairs keys pairs)
      else join_pairs keys pairs parent)"

fun bucket_by_root ::
  "(nat \<times> PendingMemory) list \<Rightarrow> nat list \<Rightarrow> (nat \<times> PendingMemory list) list \<Rightarrow> (nat \<times> PendingMemory list) list option" where
  "bucket_by_root [] parent m = Some m"
| "bucket_by_root ((idx, c) # rest) parent m =
     Option.bind (uf_find parent idx) (\<lambda>(root, parent'). bucket_by_root rest parent' (entry_push cmp_nat root c m))"

definition cluster_session_candidates :: "PendingMemory list \<Rightarrow> PendingMemory list list option" where
  "cluster_session_candidates candidates =
     (if length candidates \<le> 1 then Some (map (\<lambda>c. [c]) candidates)
      else Option.bind (join_pairs (map key_from_candidate candidates) (index_pairs (length candidates)) (uf_new (length candidates)))
        (\<lambda>parent. map_option (map snd) (bucket_by_root (zip [0..<length candidates] candidates) parent [])))"

text \<open>\<^verbatim>\<open>Iterator::max_by\<close> returns the last of several greatest elements.\<close>

fun max_by :: "('a \<Rightarrow> 'a \<Rightarrow> ordering) \<Rightarrow> 'a list \<Rightarrow> 'a option" where
  "max_by cmp [] = None"
| "max_by cmp (x # xs) = Some (fold (\<lambda>y best. if cmp best y = Greater then best else y) xs x)"

definition choose_cluster_representative :: "PendingMemory list \<Rightarrow> PendingMemory option" where
  "choose_cluster_representative = max_by (\<lambda>left right.
     then_with (cmp_nat (length (pm_body left)) (length (pm_body right)))
       (then_with (cmp_nat (utf8_len (pm_title left)) (utf8_len (pm_title right)))
         (cmp_str (pm_item_id right) (pm_item_id left))))"

definition cluster_group_key :: "PendingMemory list \<Rightarrow> ustr" where
  "cluster_group_key candidates =
     (case choose_cluster_representative candidates of
        None \<Rightarrow> lit ''empty-cluster'' | Some c \<Rightarrow> candidate_group_key c)"

definition cmp_candidates :: "PendingMemory \<Rightarrow> PendingMemory \<Rightarrow> ordering" where
  "cmp_candidates a b =
     then_with (cmp_str (candidate_group_key a) (candidate_group_key b)) (cmp_str (pm_item_id a) (pm_item_id b))"

definition first_item_id :: "PendingMemory list \<Rightarrow> ustr" where
  "first_item_id candidates = (case candidates of [] \<Rightarrow> [] | c # _ \<Rightarrow> pm_item_id c)"

type_synonym memory_group = "ustr \<times> PendingMemory list"

fun session_groups :: "memory_group list \<Rightarrow> memory_group list option" where
  "session_groups [] = Some []"
| "session_groups ((_, candidates) # m) =
     Option.bind (cluster_session_candidates (sort_by cmp_candidates candidates)) (\<lambda>clusters.
       map_option (\<lambda>gs. map (\<lambda>cl. let cl' = sort_by cmp_candidates cl in (cluster_group_key cl', cl')) clusters @ gs)
         (session_groups m))"

definition group_step :: "PendingMemory \<Rightarrow> memory_group list \<times> memory_group list \<Rightarrow> memory_group list \<times> memory_group list" where
  "group_step c = (\<lambda>(drafts, sessions).
     if is_session c then (drafts, entry_push cmp_str (cluster_repo_key c) c sessions)
     else (entry_push cmp_str (candidate_group_key c) c drafts, sessions))"

definition cmp_groups :: "memory_group \<Rightarrow> memory_group \<Rightarrow> ordering" where
  "cmp_groups a b = then_with (cmp_str (fst a) (fst b)) (cmp_str (first_item_id (snd a)) (first_item_id (snd b)))"

definition group_pending_memories :: "PendingMemory list \<Rightarrow> memory_group list option" where
  "group_pending_memories pending =
     (let (drafts, sessions) = fold group_step pending ([], []) in
      map_option (\<lambda>gs. sort_by cmp_groups (drafts @ gs)) (session_groups sessions))"

section \<open>Roots\<close>

text \<open>\<open>uf_root p i r\<close>: following the parents from \<open>i\<close> ends at the root \<open>r\<close>.\<close>

inductive uf_root :: "nat list \<Rightarrow> nat \<Rightarrow> nat \<Rightarrow> bool" for p where
  at_root: "r < length p \<Longrightarrow> p ! r = r \<Longrightarrow> uf_root p r r"
| above: "i < length p \<Longrightarrow> p ! i \<noteq> i \<Longrightarrow> uf_root p (p ! i) r \<Longrightarrow> uf_root p i r"

inductive_cases uf_rootE: "uf_root p i r"

definition uf_wf :: "nat list \<Rightarrow> bool" where
  "uf_wf p \<longleftrightarrow> (\<forall>i < length p. \<exists>r. uf_root p i r)"

lemma uf_root_end: "uf_root p i r \<Longrightarrow> r < length p \<and> p ! r = r"
  by (induction rule: uf_root.induct) auto

lemma uf_root_bound: "uf_root p i r \<Longrightarrow> i < length p"
  by (cases rule: uf_root.cases) auto

lemma uf_root_at: "p ! i = i \<Longrightarrow> uf_root p i s \<longleftrightarrow> i < length p \<and> s = i"
  by (blast intro: uf_root.at_root elim: uf_rootE)

lemma uf_root_above: "p ! i \<noteq> i \<Longrightarrow> uf_root p i s \<longleftrightarrow> i < length p \<and> uf_root p (p ! i) s"
  by (blast intro: uf_root.above elim: uf_rootE)

lemma uf_root_det: "uf_root p i r \<Longrightarrow> uf_root p i s \<Longrightarrow> r = s"
  by (induction arbitrary: s rule: uf_root.induct) (simp_all add: uf_root_at uf_root_above)

text \<open>Path compression: pointing an element at its root changes no root.\<close>

lemma uf_root_compress:
  assumes "uf_root p i r"
  shows "uf_root p j s \<Longrightarrow> uf_root (p[i := r]) j s"
proof (induction rule: uf_root.induct)
  case (at_root s)
  then have "s = i \<Longrightarrow> r = s" using assms by (simp add: uf_root_at)
  with at_root show ?case by (cases "s = i") (auto intro: uf_root.at_root)
next
  case (above j s)
  note root = uf_root_end [OF assms]
  show ?case
  proof (cases "j = i")
    case True
    with above assms have s: "s = r" by (meson uf_root.above uf_root_det)
    have "r \<noteq> i" using above(2) True root by auto
    with root have "uf_root (p[i := r]) r r" by (intro uf_root.at_root) simp_all
    with True s \<open>r \<noteq> i\<close> above(1) show ?thesis by (simp add: uf_root_above)
  next
    case False
    with above show ?thesis by (simp add: uf_root_above)
  qed
qed

text \<open>Linking one root below another moves exactly the elements of its tree.\<close>

lemma uf_root_link:
  assumes "uf_root p a a" "uf_root p b b" "a \<noteq> b"
  shows "uf_root p j s \<Longrightarrow> uf_root (p[b := a]) j (if s = b then a else s)"
proof (induction rule: uf_root.induct)
  case (at_root s)
  note ends = uf_root_end [OF assms(1)] uf_root_end [OF assms(2)]
  have a: "uf_root (p[b := a]) a a" using ends assms(3) by (intro uf_root.at_root) simp_all
  show ?case
  proof (cases "s = b")
    case True
    with a ends assms(3) show ?thesis by (simp add: uf_root_above)
  next
    case False
    with at_root show ?thesis by (auto intro!: uf_root.at_root)
  qed
next
  case (above j s)
  then have "j \<noteq> b" using uf_root_end [OF assms(2)] by auto
  with above show ?case by (simp add: uf_root_above)
qed

text \<open>Two lists of parents with the same roots.\<close>

definition same_roots :: "nat list \<Rightarrow> nat list \<Rightarrow> bool" where
  "same_roots p q \<longleftrightarrow> length q = length p \<and> (\<forall>j s. uf_root p j s \<longrightarrow> uf_root q j s)"

lemma same_roots_refl [simp]: "same_roots p p"
  by (simp add: same_roots_def)

lemma same_roots_trans: "same_roots p q \<Longrightarrow> same_roots q r \<Longrightarrow> same_roots p r"
  by (simp add: same_roots_def)

lemma same_roots_iff: "uf_wf p \<Longrightarrow> same_roots p q \<Longrightarrow> uf_root q j s \<longleftrightarrow> uf_root p j s"
  unfolding same_roots_def uf_wf_def by (metis uf_root_bound uf_root_det)

lemma same_roots_wf: "uf_wf p \<Longrightarrow> same_roots p q \<Longrightarrow> uf_wf q"
  unfolding same_roots_def uf_wf_def by metis

lemma uf_find_root: "uf_root p i r \<Longrightarrow> \<exists>q. uf_find p i = Some (r, q) \<and> same_roots p q"
proof (induction rule: uf_root.induct)
  case (at_root r)
  then show ?case by (subst uf_find.simps) simp
next
  case (above i r)
  then obtain q where q: "uf_find p (p ! i) = Some (r, q)" "same_roots p q" by blast
  have "uf_root q i r" using above q(2) by (metis same_roots_def uf_root.above)
  then have "same_roots q (q[i := r])" by (simp add: same_roots_def uf_root_compress)
  with q above show ?case
    by (subst uf_find.simps) (auto simp: same_roots_def Let_def)
qed

lemma uf_rep: "uf_wf p \<Longrightarrow> \<exists>R. \<forall>i s. uf_root p i s \<longleftrightarrow> i < length p \<and> s = R i"
proof -
  assume "uf_wf p"
  then obtain R where "\<forall>i < length p. uf_root p i (R i)" unfolding uf_wf_def by metis
  then have "uf_root p i s \<longleftrightarrow> i < length p \<and> s = R i" for i s
    by (metis uf_root_bound uf_root_det)
  then show ?thesis by blast
qed

subsection \<open>The relation of a union-find structure\<close>

definition uf_same :: "nat list \<Rightarrow> nat \<Rightarrow> nat \<Rightarrow> bool" where
  "uf_same p i j \<longleftrightarrow> (\<exists>r. uf_root p i r \<and> uf_root p j r)"

lemma uf_new_root: "uf_root (uf_new n) i r \<longleftrightarrow> i < n \<and> r = i"
proof (cases "i < n")
  case True
  then show ?thesis by (simp add: uf_new_def uf_root_at)
next
  case False
  then show ?thesis using uf_root_bound [of "uf_new n" i r] by (auto simp: uf_new_def)
qed

lemma uf_new_wf: "uf_wf (uf_new n)" "uf_same (uf_new n) i j \<longleftrightarrow> i < n \<and> i = j"
  by (auto simp: uf_wf_def uf_same_def uf_new_root) (simp add: uf_new_def)

lemma uf_union_correct:
  assumes wf: "uf_wf p" and range: "l < length p" "r < length p"
  shows "\<exists>q. uf_union p l r = Some q \<and> uf_wf q \<and> length q = length p
    \<and> (\<forall>i j. uf_same q i j \<longleftrightarrow> uf_same p i j \<or> (uf_same p i l \<and> uf_same p r j) \<or> (uf_same p i r \<and> uf_same p l j))"
proof -
  obtain a b where ab: "uf_root p l a" "uf_root p r b" using assms unfolding uf_wf_def by blast
  obtain p1 where p1: "uf_find p l = Some (a, p1)" "same_roots p p1" using uf_find_root [OF ab(1)] by blast
  have b1: "uf_root p1 r b" using p1(2) ab(2) by (simp add: same_roots_def)
  obtain p2 where p2: "uf_find p1 r = Some (b, p2)" "same_roots p1 p2" using uf_find_root [OF b1] by blast
  have roots: "same_roots p p2" using p1(2) p2(2) by (rule same_roots_trans)
  have wf2: "uf_wf p2" using wf roots by (rule same_roots_wf)
  show ?thesis
  proof (cases "a = b")
    case True
    then have "uf_union p l r = Some p2" using p1 p2 by (simp add: uf_union_def)
    moreover have "uf_same p2 i j \<longleftrightarrow> uf_same p i j" for i j by (simp add: uf_same_def same_roots_iff [OF wf roots])
    moreover have "uf_same p l r" using ab True by (auto simp: uf_same_def)
    ultimately show ?thesis
      using wf2 roots by (auto simp: same_roots_def uf_same_def dest: uf_root_det)
  next
    case False
    have ends: "uf_root p2 a a" "uf_root p2 b b"
      using uf_root_end [OF ab(1)] uf_root_end [OF ab(2)] roots by (auto simp: same_roots_def intro: uf_root.at_root)
    note link = uf_root_link [OF ends False]
    let ?q = "p2[b := a]"
    have "b < length p2" using uf_root_bound [OF ends(2)] .
    then have union: "uf_union p l r = Some ?q" using p1 p2 False by (simp add: uf_union_def)
    have wfq: "uf_wf ?q" using wf2 link by (auto simp: uf_wf_def) blast
    obtain R where R: "\<And>i s. uf_root p i s \<longleftrightarrow> i < length p \<and> s = R i" using uf_rep [OF wf] by blast
    obtain Q where Q: "\<And>i s. uf_root ?q i s \<longleftrightarrow> i < length p2 \<and> s = Q i" using uf_rep [OF wfq] by auto
    have len: "length p2 = length p" using roots by (simp add: same_roots_def)
    have "Q i = (if R i = b then a else R i)" if "i < length p" for i
      using link [of i "R i"] that R Q len by (simp add: same_roots_iff [OF wf roots])
    moreover have same_p: "uf_same p i j \<longleftrightarrow> i < length p \<and> j < length p \<and> R i = R j" for i j
      by (auto simp: uf_same_def R)
    moreover have "uf_same ?q i j \<longleftrightarrow> i < length p \<and> j < length p \<and> Q i = Q j" for i j
      by (auto simp: uf_same_def Q len)
    ultimately have same_q: "uf_same ?q i j \<longleftrightarrow> i < length p \<and> j < length p
        \<and> (if R i = b then a else R i) = (if R j = b then a else R j)" for i j by auto
    have eqs: "a = R l" "b = R r" using ab by (simp_all add: R)
    have "uf_same ?q i j \<longleftrightarrow> uf_same p i j \<or> (uf_same p i l \<and> uf_same p r j) \<or> (uf_same p i r \<and> uf_same p l j)" for i j
      using False unfolding same_p same_q unfolding eqs by (auto simp: range)
    with union wfq roots show ?thesis by (auto simp: same_roots_def)
  qed
qed

section \<open>Maps in key order\<close>

text \<open>
  A \<^verbatim>\<open>BTreeMap\<close> needs a comparator under which only equal keys compare equal; then pushing under
  a key appends to the list of that key and leaves the others alone.
\<close>

locale tree_key = total_comparator +
  assumes equal_iff: "cmp x y = Equal \<longleftrightarrow> x = y"
begin

lemma less_trans: "cmp x y = Less \<Longrightarrow> cmp y z = Less \<Longrightarrow> cmp x z = Less"
proof (cases "cmp x z")
  case Equal
  assume "cmp x y = Less" "cmp y z = Less"
  moreover from this(2) Equal have "cmp y x = Less" by (simp add: equal_iff)
  ultimately show ?thesis by (simp add: dual)
next
  case Greater
  assume "cmp x y = Less" "cmp y z = Less"
  with Greater trans [of x y z] show ?thesis by simp
qed simp

definition key_sorted :: "('a \<times> 'b list) list \<Rightarrow> bool" where
  "key_sorted m \<longleftrightarrow> sorted_wrt (\<lambda>a b. cmp a b = Less) (map fst m)"

lemma keys_entry_push: "set (map fst (entry_push cmp k v m)) = insert k (set (map fst m))"
proof (induction m)
  case (Cons e m)
  then show ?case by (cases e) (auto simp: equal_iff split: ordering.split)
qed simp

lemma key_sorted_push: "key_sorted m \<Longrightarrow> key_sorted (entry_push cmp k v m)"
proof (induction m)
  case (Cons e m)
  obtain k' vs where e: "e = (k', vs)" by (cases e)
  have sorted: "key_sorted m" "\<forall>x \<in> set (map fst m). cmp k' x = Less" using Cons.prems e by (auto simp: key_sorted_def)
  show ?case
  proof (cases "cmp k k'")
    case Less
    with sorted have "\<forall>x \<in> set (map fst m). cmp k x = Less" using less_trans by blast
    with Less sorted e show ?thesis by (simp add: key_sorted_def)
  next
    case Equal
    with sorted e show ?thesis by (simp add: key_sorted_def)
  next
    case Greater
    then have "cmp k' k = Less" using dual by simp
    with sorted have "\<forall>x \<in> set (map fst (entry_push cmp k v m)). cmp k' x = Less"
      unfolding keys_entry_push by simp
    with Greater Cons.IH [OF sorted(1)] e show ?thesis by (simp add: key_sorted_def)
  qed
qed (simp add: key_sorted_def)

lemma map_of_push:
  "key_sorted m \<Longrightarrow> map_of (entry_push cmp k v m)
    = (map_of m)(k \<mapsto> (case map_of m k of None \<Rightarrow> [v] | Some vs \<Rightarrow> vs @ [v]))"
proof (induction m)
  case (Cons e m)
  obtain k' vs where e: "e = (k', vs)" by (cases e)
  show ?case
  proof (cases "cmp k k'")
    case Less
    then have "k \<noteq> k'" using equal_iff [of k k'] by auto
    moreover have "k \<notin> fst ` set m"
      using Cons.prems e Less less_trans [of k k' k] equal_iff [of k k] by (force simp: key_sorted_def)
    then have "map_of m k = None" by (simp add: map_of_eq_None_iff)
    ultimately show ?thesis using e Less by (auto intro!: ext)
  next
    case Equal
    then have "k = k'" by (simp add: equal_iff)
    with e Equal show ?thesis by (auto intro!: ext)
  next
    case Greater
    then have "k \<noteq> k'" using equal_iff [of k k'] by auto
    with e Greater Cons show ?thesis by (auto simp: key_sorted_def)
  qed
qed simp

text \<open>The map holds, under each key, what was pushed under it, in order.\<close>

definition entries :: "('a \<times> 'b list) list \<Rightarrow> ('a \<times> 'b) list \<Rightarrow> bool" where
  "entries m kvs \<longleftrightarrow> key_sorted m \<and> (\<forall>k. map_of m k =
     (if k \<in> fst ` set kvs then Some (map snd (filter (\<lambda>p. fst p = k) kvs)) else None))"

lemma entries_Nil [simp]: "entries [] []"
  by (simp add: entries_def key_sorted_def)

lemma entries_push: "entries m kvs \<Longrightarrow> entries (entry_push cmp k v m) (kvs @ [(k, v)])"
  by (auto simp: entries_def key_sorted_push map_of_push filter_empty_conv image_iff split: option.split)

lemma entries_distinct: "entries m kvs \<Longrightarrow> distinct (map fst m)"
proof -
  have "cmp a a \<noteq> Less" for a using equal_iff [of a a] by simp
  then have "sorted_wrt (\<lambda>a b. cmp a b = Less) ks \<Longrightarrow> distinct ks" for ks
    by (induction ks) auto
  then show "entries m kvs \<Longrightarrow> distinct (map fst m)" by (simp add: entries_def key_sorted_def)
qed

lemma set_entries: "entries m kvs \<Longrightarrow> set m = (\<lambda>k. (k, map snd (filter (\<lambda>p. fst p = k) kvs))) ` fst ` set kvs"
proof -
  assume m: "entries m kvs"
  have "(k, vs) \<in> set m \<longleftrightarrow> map_of m k = Some vs" for k vs
    using entries_distinct [OF m] by (simp add: map_of_eq_Some_iff)
  with m have "(k, vs) \<in> set m \<longleftrightarrow> k \<in> fst ` set kvs \<and> vs = map snd (filter (\<lambda>p. fst p = k) kvs)" for k vs
    unfolding entries_def by (metis (no_types, lifting) option.inject option.distinct(1))
  then show ?thesis by (auto simp: image_iff)
qed

end

interpretation string_tree: tree_key cmp_str
  by unfold_locales (auto simp: cmp_str_def split: if_splits)

interpretation nat_tree: tree_key cmp_nat
  by unfold_locales (auto simp: cmp_nat_def split: if_splits)

lemma mset_entry_push: "mset (concat (map snd (entry_push cmp k v m))) = add_mset v (mset (concat (map snd m)))"
  by (induction m) (auto split: ordering.split)

section \<open>Clusters are connected components\<close>

lemma equivclp_add_edge:
  "equivclp (\<lambda>x y. E x y \<or> (x = l \<and> y = r)) i j
    \<longleftrightarrow> equivclp E i j \<or> (equivclp E i l \<and> equivclp E r j) \<or> (equivclp E i r \<and> equivclp E l j)"
  (is "equivclp ?F i j \<longleftrightarrow> ?rhs j")
proof
  show "equivclp ?F i j \<Longrightarrow> ?rhs j"
  proof (induction rule: equivclp_induct)
    case (step y z)
    from step(2) consider "E y z \<or> E z y" | "y = l" "z = r" | "y = r" "z = l" by blast
    then show ?case
    proof cases
      case 1
      then have "equivclp E y z" by blast
      with step(3) show ?thesis by (blast intro: equivclp_trans)
    next
      case 2
      with step(3) show ?thesis by auto
    next
      case 3
      with step(3) show ?thesis by auto
    qed
  qed simp
next
  have mono: "equivclp E x y \<Longrightarrow> equivclp ?F x y" for x y
  proof (induction rule: equivclp_induct)
    case (step y z)
    then have "?F y z \<or> ?F z y" by blast
    with step(3) show ?case by (rule equivclp_into_equivclp)
  qed simp
  have "?F l r" by simp
  then have edge: "equivclp ?F l r" "equivclp ?F r l" by (rule r_into_equivclp, rule converse_r_into_equivclp)
  assume "?rhs j"
  then consider "equivclp E i j" | "equivclp E i l" "equivclp E r j" | "equivclp E i r" "equivclp E l j" by blast
  then show "equivclp ?F i j"
  proof cases
    case 1
    then show ?thesis by (rule mono)
  next
    case 2
    show ?thesis by (rule equivclp_trans [OF equivclp_trans [OF mono [OF 2(1)] edge(1)] mono [OF 2(2)]])
  next
    case 3
    show ?thesis by (rule equivclp_trans [OF equivclp_trans [OF mono [OF 3(1)] edge(2)] mono [OF 3(2)]])
  qed
qed

lemma join_pairs_correct:
  assumes "uf_wf p" "\<forall>(l, r) \<in> set pairs. l < length p \<and> r < length p"
    and "\<And>i j. uf_same p i j \<longleftrightarrow> i < length p \<and> j < length p \<and> equivclp E i j"
  shows "\<exists>q. join_pairs keys pairs p = Some q \<and> uf_wf q \<and> length q = length p
    \<and> (\<forall>i j. uf_same q i j \<longleftrightarrow> i < length p \<and> j < length p
        \<and> equivclp (\<lambda>x y. E x y \<or> ((x, y) \<in> set pairs \<and> key_matches (keys ! x) (keys ! y))) i j)"
  using assms
proof (induction pairs arbitrary: p E)
  case (Cons e pairs)
  obtain l r where e: "e = (l, r)" by (cases e)
  show ?case
  proof (cases "key_matches (keys ! l) (keys ! r)")
    case True
    from Cons.prems e have lr: "l < length p" "r < length p" by simp_all
    obtain q where q: "uf_union p l r = Some q" "uf_wf q" "length q = length p"
      "\<forall>i j. uf_same q i j \<longleftrightarrow> uf_same p i j \<or> (uf_same p i l \<and> uf_same p r j) \<or> (uf_same p i r \<and> uf_same p l j)"
      using uf_union_correct [OF Cons.prems(1) lr] by blast
    let ?F = "\<lambda>x y. E x y \<or> (x = l \<and> y = r)"
    have "uf_same q i j \<longleftrightarrow> i < length q \<and> j < length q \<and> equivclp ?F i j" for i j
      unfolding q(4) [rule_format] Cons.prems(3) equivclp_add_edge q(3) using lr by auto
    moreover have "\<forall>(l, r) \<in> set pairs. l < length q \<and> r < length q" using Cons.prems(2) q(3) by simp
    ultimately obtain q' where q': "join_pairs keys pairs q = Some q'" "uf_wf q'" "length q' = length q"
      "\<forall>i j. uf_same q' i j \<longleftrightarrow> i < length q \<and> j < length q
        \<and> equivclp (\<lambda>x y. ?F x y \<or> ((x, y) \<in> set pairs \<and> key_matches (keys ! x) (keys ! y))) i j"
      using Cons.IH [OF q(2)] by blast
    moreover have "(\<lambda>x y. ?F x y \<or> ((x, y) \<in> set pairs \<and> key_matches (keys ! x) (keys ! y)))
        = (\<lambda>x y. E x y \<or> ((x, y) \<in> set (e # pairs) \<and> key_matches (keys ! x) (keys ! y)))"
      using e True by (auto intro!: ext)
    ultimately show ?thesis using e True q by simp
  next
    case False
    have "(\<lambda>x y. E x y \<or> ((x, y) \<in> set pairs \<and> key_matches (keys ! x) (keys ! y)))
        = (\<lambda>x y. E x y \<or> ((x, y) \<in> set (e # pairs) \<and> key_matches (keys ! x) (keys ! y)))"
      using e False by (auto intro!: ext)
    then show ?thesis using Cons.IH [OF Cons.prems(1) _ Cons.prems(3)] Cons.prems(2) e False by simp
  qed
qed simp

lemma set_index_pairs: "(l, r) \<in> set (index_pairs n) \<longleftrightarrow> l < r \<and> r < n"
  by (force simp: index_pairs_def)

lemma key_from_candidate_distinct [simp]:
  "distinct (title_tokens (key_from_candidate c))" "distinct (content_tokens (key_from_candidate c))"
  by (simp_all add: key_from_candidate_def key_from_parts_def)

lemma path_family_overlap_sym: "path_family_overlap a b = path_family_overlap b a"
  by (auto simp: path_family_overlap_def list_ex_iff)

text \<open>The similarity of two candidates, and its connected components over the indices of a list.\<close>

definition similar :: "PendingMemory \<Rightarrow> PendingMemory \<Rightarrow> bool" where
  "similar a b \<longleftrightarrow> key_matches (key_from_candidate a) (key_from_candidate b)"

lemma similar_sym: "similar a b = similar b a"
  unfolding similar_def key_matches_def Let_def
  by (simp add: jaccard_sym [of "title_tokens (key_from_candidate a)"] jaccard_sym [of "content_tokens (key_from_candidate a)"]
      path_family_overlap_sym [of "families (key_from_candidate a)"])

definition linked :: "PendingMemory list \<Rightarrow> nat \<Rightarrow> nat \<Rightarrow> bool" where
  "linked cs = equivclp (\<lambda>i j. i < length cs \<and> j < length cs \<and> i \<noteq> j \<and> similar (cs ! i) (cs ! j))"

lemma linked_equivp: "linked cs i i" "linked cs i j \<Longrightarrow> linked cs j i"
  "linked cs i j \<Longrightarrow> linked cs j k \<Longrightarrow> linked cs i k"
  unfolding linked_def by (auto intro: equivclp_sym equivclp_trans)

lemma join_pairs_linked:
  "\<exists>q. join_pairs (map key_from_candidate cs) (index_pairs (length cs)) (uf_new (length cs)) = Some q \<and> uf_wf q
    \<and> length q = length cs \<and> (\<forall>i j. uf_same q i j \<longleftrightarrow> i < length cs \<and> j < length cs \<and> linked cs i j)"
proof -
  let ?n = "length cs" and ?keys = "map key_from_candidate cs"
  have len: "length (uf_new ?n) = ?n" by (simp add: uf_new_def)
  have eq: "equivclp (\<lambda>_ _. False) i j \<longleftrightarrow> i = j" for i j :: nat
    by (auto elim: equivclp_induct)
  let ?R = "\<lambda>x y. (x, y) \<in> set (index_pairs ?n) \<and> key_matches (?keys ! x) (?keys ! y)"
  have "symclp ?R i j = (i < ?n \<and> j < ?n \<and> i \<noteq> j \<and> similar (cs ! i) (cs ! j))" for i j
    using similar_sym [of "cs ! i" "cs ! j"] unfolding similar_def symclp_def set_index_pairs
    by (cases i j rule: linorder_cases) auto
  then have "symclp ?R = (\<lambda>i j. i < ?n \<and> j < ?n \<and> i \<noteq> j \<and> similar (cs ! i) (cs ! j))" by (intro ext)
  then have "equivclp ?R = linked cs" unfolding linked_def by (metis equivclp_symclp)
  then show ?thesis
    using join_pairs_correct [of "uf_new ?n" "index_pairs ?n" "\<lambda>_ _. False" ?keys]
    unfolding len eq uf_new_wf(2) by (fastforce simp: uf_new_wf(1) set_index_pairs)
qed

lemma bucket_by_root_entries:
  assumes "uf_wf p" "same_roots p q" "\<forall>e \<in> set ics. uf_root p (fst e) (R (fst e))" "nat_tree.entries m kvs"
  shows "\<exists>m'. bucket_by_root ics q m = Some m' \<and> nat_tree.entries m' (kvs @ map (\<lambda>(i, c). (R i, c)) ics)
    \<and> mset (concat (map snd m')) = mset (concat (map snd m)) + mset (map snd ics)"
  using assms(2-)
proof (induction ics arbitrary: q m kvs)
  case (Cons e ics)
  obtain i c where e: "e = (i, c)" by (cases e)
  have "uf_root q i (R i)" using Cons.prems(1,2) e by (simp add: same_roots_def)
  then obtain q' where q': "uf_find q i = Some (R i, q')" "same_roots q q'" using uf_find_root by blast
  have "same_roots p q'" using Cons.prems(1) q'(2) by (rule same_roots_trans)
  from Cons.IH [OF this _ nat_tree.entries_push [OF Cons.prems(3)]] Cons.prems(2) e q'(1)
  show ?case by (auto simp: mset_entry_push)
qed simp

lemma filter_zip_upt:
  "map snd (filter (\<lambda>p. P (fst p)) (zip [0..<length cs] cs)) = map ((!) cs) (filter P [0..<length cs])"
proof -
  have "zip [0..<length cs] cs = map (\<lambda>i. (i, cs ! i)) [0..<length cs]"
    by (intro nth_equalityI) simp_all
  then show ?thesis by (simp add: filter_map o_def)
qed

text \<open>The cluster of a candidate: the candidates linked to it, in their order.\<close>

definition cluster_of :: "PendingMemory list \<Rightarrow> nat \<Rightarrow> PendingMemory list" where
  "cluster_of cs i = map ((!) cs) (filter (linked cs i) [0..<length cs])"

lemma cluster_session_candidates_components:
  "\<exists>clusters. cluster_session_candidates cs = Some clusters
    \<and> set clusters = cluster_of cs ` {..<length cs} \<and> mset (concat clusters) = mset cs"
proof (cases "length cs \<le> 1")
  case True
  then show ?thesis
    by (cases cs) (auto simp: cluster_session_candidates_def cluster_of_def linked_equivp(1))
next
  case False
  let ?n = "length cs"
  obtain q where q: "join_pairs (map key_from_candidate cs) (index_pairs ?n) (uf_new ?n) = Some q" "uf_wf q" "length q = ?n"
    "\<And>i j. uf_same q i j \<longleftrightarrow> i < ?n \<and> j < ?n \<and> linked cs i j"
    using join_pairs_linked by blast
  obtain R where R: "\<And>i s. uf_root q i s \<longleftrightarrow> i < length q \<and> s = R i" using uf_rep [OF q(2)] by blast
  let ?ics = "zip [0..<?n] cs"
  let ?kvs = "map (\<lambda>(i, c). (R i, c)) ?ics"
  have "\<forall>e \<in> set ?ics. uf_root q (fst e) (R (fst e))" by (auto simp: R q(3) dest: set_zip_leftD)
  then obtain m where m: "bucket_by_root ?ics q [] = Some m" "nat_tree.entries m ?kvs"
    "mset (concat (map snd m)) = mset (map snd ?ics)"
    using bucket_by_root_entries [OF q(2) same_roots_refl _ nat_tree.entries_Nil, of ?ics R] by auto
  have linked: "linked cs i j \<longleftrightarrow> R i = R j" if "i < ?n" "j < ?n" for i j
    using q(4) [of i j] that by (simp add: uf_same_def R q(3))
  have bucket: "map snd (filter (\<lambda>p. fst p = R i) ?kvs) = cluster_of cs i" if "i < ?n" for i
  proof -
    have "filter (\<lambda>j. R j = R i) [0..<?n] = filter (linked cs i) [0..<?n]"
      using linked that by (intro filter_cong) auto
    then show ?thesis
      by (simp add: filter_map o_def case_prod_beta filter_zip_upt [of "\<lambda>j. R j = R i"] cluster_of_def)
  qed
  have "fst ` set ?kvs = R ` {..<?n}" by (force simp: in_set_zip)
  then have "snd ` set m = cluster_of cs ` {..<?n}"
    unfolding nat_tree.set_entries [OF m(2)] by (simp add: image_image bucket)
  with q(1) m(1,3) False show ?thesis by (simp add: cluster_session_candidates_def)
qed

text \<open>
  C26. Clustering the discoveries of a repository always returns. The clusters are exactly the connected components
  of the similarity of two discoveries, each in the order of the list, and every discovery is in one of them once.
\<close>

theorem clusters_are_components:
  "\<exists>clusters. cluster_session_candidates cs = Some clusters
    \<and> set clusters = cluster_of cs ` {..<length cs} \<and> mset (concat clusters) = mset cs"
  by (rule cluster_session_candidates_components)

section \<open>Grouping\<close>

lemma fold_group_step:
  assumes "string_tree.entries d dk" "string_tree.entries e ek"
  shows "\<exists>d' e'. fold group_step cs (d, e) = (d', e')
    \<and> string_tree.entries d' (dk @ map (\<lambda>c. (candidate_group_key c, c)) (filter (\<lambda>c. \<not> is_session c) cs))
    \<and> string_tree.entries e' (ek @ map (\<lambda>c. (cluster_repo_key c, c)) (filter is_session cs))
    \<and> mset (concat (map snd d')) + mset (concat (map snd e'))
        = mset (concat (map snd d)) + mset (concat (map snd e)) + mset cs"
  using assms
proof (induction cs arbitrary: d e dk ek)
  case (Cons c cs)
  show ?case
  proof (cases "is_session c")
    case True
    from Cons.IH [OF Cons.prems(1) string_tree.entries_push [OF Cons.prems(2)], of "cluster_repo_key c" c] True
    show ?thesis by (auto simp: group_step_def mset_entry_push)
  next
    case False
    from Cons.IH [OF string_tree.entries_push [OF Cons.prems(1)] Cons.prems(2), of "candidate_group_key c" c] False
    show ?thesis by (auto simp: group_step_def mset_entry_push)
  qed
qed simp

text \<open>What a group of sessions looks like.\<close>

definition session_group_ok :: "memory_group \<Rightarrow> bool" where
  "session_group_ok g \<longleftrightarrow> snd g \<noteq> [] \<and> fst g = cluster_group_key (snd g)
    \<and> (\<forall>c \<in> set (snd g). is_session c \<and> cluster_repo_key c = cluster_repo_key (hd (snd g)))"

lemma cluster_members: "c \<in> set (cluster_of cs i) \<Longrightarrow> c \<in> set cs"
  by (auto simp: cluster_of_def)

lemma cluster_nonempty: "i < length cs \<Longrightarrow> cluster_of cs i \<noteq> []"
  using linked_equivp(1) [of cs i] by (auto simp: cluster_of_def filter_empty_conv)

lemma mset_sorted_clusters:
  "mset (concat (map snd (map (\<lambda>cl. let cl' = sort_by cmp_candidates cl in (cluster_group_key cl', cl')) cls)))
    = mset (concat cls)"
  by (induction cls) (simp_all add: Let_def)

lemma mset_concat_cong: "mset xs = mset ys \<Longrightarrow> mset (concat (map f xs)) = mset (concat (map f ys))"
  by (metis mset_concat mset_map sum_mset_sum_list)

lemma session_groups_ok:
  assumes "\<forall>(k, cs) \<in> set m. \<forall>c \<in> set cs. is_session c \<and> cluster_repo_key c = k"
  shows "\<exists>gs. session_groups m = Some gs \<and> (\<forall>g \<in> set gs. session_group_ok g)
    \<and> mset (concat (map snd gs)) = mset (concat (map snd m))"
  using assms
proof (induction m)
  case (Cons e m)
  obtain k cs where e: "e = (k, cs)" by (cases e)
  let ?cs = "sort_by cmp_candidates cs"
  obtain gs where gs: "session_groups m = Some gs" "\<forall>g \<in> set gs. session_group_ok g"
    "mset (concat (map snd gs)) = mset (concat (map snd m))" using Cons by auto
  obtain cls where cls: "cluster_session_candidates ?cs = Some cls" "set cls = cluster_of ?cs ` {..<length ?cs}"
    "mset (concat cls) = mset ?cs" using cluster_session_candidates_components by blast
  let ?new = "map (\<lambda>cl. let cl' = sort_by cmp_candidates cl in (cluster_group_key cl', cl')) cls"
  have mem: "cl \<noteq> [] \<and> set cl \<subseteq> set cs" if "cl \<in> set cls" for cl
    using that cls(2) cluster_nonempty [of _ ?cs] cluster_members [of _ ?cs] by fastforce
  have "session_group_ok g" if "g \<in> set ?new" for g
  proof -
    from that obtain cl where cl: "cl \<in> set cls" "g = (cluster_group_key (sort_by cmp_candidates cl), sort_by cmp_candidates cl)"
      by (auto simp: Let_def)
    from mem [OF cl(1)] have "sort_by cmp_candidates cl \<noteq> []" by (metis length_0_conv length_sort_by)
    moreover from this have "hd (sort_by cmp_candidates cl) \<in> set cl" by (metis hd_in_set set_sort_by)
    moreover have "\<forall>c \<in> set cl. is_session c \<and> cluster_repo_key c = k" using mem [OF cl(1)] Cons.prems e by auto
    ultimately show ?thesis by (simp add: session_group_ok_def cl(2))
  qed
  moreover have "mset (concat (map snd ?new)) = mset (concat cls)"
    by (rule mset_sorted_clusters)
  ultimately show ?case using gs cls e by auto
qed simp

lemma total_cmp_groups: "total_comparator cmp_groups"
  unfolding cmp_groups_def
  using total_comparator_then [OF total_comparator_key [OF strings.total_comparator_axioms, of fst]
      total_comparator_key [OF strings.total_comparator_axioms, of "\<lambda>g. first_item_id (snd g)"]]
  by (simp add: cmp_groups_def [abs_def])

text \<open>
  A group of the plan: not empty, and either drafts that all have the key of the group, or
  discoveries of one repository under the key of their representative.
\<close>

definition memory_group_ok :: "memory_group \<Rightarrow> bool" where
  "memory_group_ok g \<longleftrightarrow> snd g \<noteq> []
     \<and> ((\<forall>c \<in> set (snd g). \<not> is_session c \<and> candidate_group_key c = fst g)
        \<or> (fst g = cluster_group_key (snd g)
            \<and> (\<forall>c \<in> set (snd g). is_session c \<and> cluster_repo_key c = cluster_repo_key (hd (snd g)))))"

lemma group_pending_partition:
  "\<exists>groups. group_pending_memories pending = Some groups
    \<and> mset (concat (map snd groups)) = mset pending
    \<and> sorted_wrt (\<lambda>a b. cmp_groups a b \<noteq> Greater) groups
    \<and> (\<forall>g \<in> set groups. memory_group_ok g)"
proof -
  obtain d e where de: "fold group_step pending ([], []) = (d, e)"
    "string_tree.entries d (map (\<lambda>c. (candidate_group_key c, c)) (filter (\<lambda>c. \<not> is_session c) pending))"
    "string_tree.entries e (map (\<lambda>c. (cluster_repo_key c, c)) (filter is_session pending))"
    "mset (concat (map snd d)) + mset (concat (map snd e)) = mset pending"
    using fold_group_step [OF string_tree.entries_Nil string_tree.entries_Nil, of pending] by auto
  have "\<forall>(k, cs) \<in> set e. \<forall>c \<in> set cs. is_session c \<and> cluster_repo_key c = k"
    unfolding string_tree.set_entries [OF de(3)] by auto
  then obtain gs where gs: "session_groups e = Some gs" "\<forall>g \<in> set gs. session_group_ok g"
    "mset (concat (map snd gs)) = mset (concat (map snd e))"
    using session_groups_ok by blast
  let ?groups = "sort_by cmp_groups (d @ gs)"
  have "\<forall>g \<in> set d. memory_group_ok g"
    unfolding string_tree.set_entries [OF de(2)] by (auto simp: filter_empty_conv memory_group_ok_def)
  moreover have "\<forall>g \<in> set gs. memory_group_ok g" using gs(2) unfolding session_group_ok_def memory_group_ok_def by blast
  ultimately have ok: "\<forall>g \<in> set ?groups. memory_group_ok g" by auto
  have "mset (concat (map snd ?groups)) = mset (concat (map snd (d @ gs)))"
    by (rule mset_concat_cong) (rule mset_sort_by)
  also have "\<dots> = mset pending" unfolding de(4) [symmetric] by (simp add: gs(3))
  finally have sum: "mset (concat (map snd ?groups)) = mset pending" .
  have "group_pending_memories pending = Some ?groups" using gs(1) de(1) by (simp add: group_pending_memories_def)
  with sum total_comparator.sorted_sort_by [OF total_cmp_groups] ok show ?thesis by blast
qed

text \<open>
  C33. Grouping always returns. It distributes the pending memories over groups that are not
  empty, each memory into one group, and lists them by key and first item. A group holds
  either drafts, all with the group's own key, or discoveries of one repository, under the
  key of their representative; drafts and discoveries never share a group.
\<close>

theorem grouping_partitions_pending:
  "\<exists>groups. group_pending_memories pending = Some groups
    \<and> mset (concat (map snd groups)) = mset pending
    \<and> sorted_wrt (\<lambda>a b. cmp_groups a b \<noteq> Greater) groups
    \<and> (\<forall>g \<in> set groups. memory_group_ok g)"
  by (rule group_pending_partition)

text \<open>A draft and two discoveries of one repository.\<close>

definition demo_memory :: PendingMemory where
  "demo_memory = \<lparr>pm_item_id = lit ''d1'', pm_kind = Draft (lit ''d1''), pm_title = lit ''Prefer owned errors'',
     pm_body = [], pm_raw_description = None, pm_content_hash = None, pm_origin = lit ''manual'', pm_source_kind = [],
     pm_source_repo = Some (lit ''acme/app''), pm_file_patterns = [], pm_verdict = None, pm_session_id = None,
     pm_session_created_at_ms = None, pm_distinct_evidence_count = None, pm_autopilot_disabled = False\<rparr>"

definition demo_pending :: "PendingMemory list" where
  "demo_pending = [demo_memory, demo_memory\<lparr>pm_kind := Session (lit ''h1'')\<rparr>, demo_memory\<lparr>pm_kind := Session (lit ''h2'')\<rparr>]"

theorem grouping_partitions_pending_witness:
  "\<exists>groups. group_pending_memories demo_pending = Some groups \<and> length (concat (map snd groups)) = 3
    \<and> list_all memory_group_ok groups"
proof -
  obtain groups where g: "group_pending_memories demo_pending = Some groups"
    "mset (concat (map snd groups)) = mset demo_pending" "\<forall>g \<in> set groups. memory_group_ok g"
    using grouping_partitions_pending [of demo_pending] by blast
  from g(2) have "length (concat (map snd groups)) = length demo_pending" by (metis size_mset)
  with g(1,3) show ?thesis by (simp add: demo_pending_def list_all_iff)
qed

end
