(* ===== verification/Memory_Curator.thy ===== *)
theory Memory_Curator
  imports Memory_Groups Json
begin

text \<open>
  The curator of local rules (\<^verbatim>\<open>memory_curator.rs\<close>): the safety gate every rule a model
  writes has to pass, the scope a model may give it, and the batch call itself with its
  fallbacks. The model call, the JSON parser and the generated decoders are arguments.
\<close>

section \<open>Numbers from outside\<close>

text \<open>
  A score that comes from a model or a file may be any \<^verbatim>\<open>f32\<close>; only finite ones are used.
\<close>

datatype f32_value = Finite rat | Pos_Infinity | Neg_Infinity | NaN

text \<open>\<^verbatim>\<open>is_finite() && (0.0..=1.0).contains(&x)\<close>, \<^verbatim>\<open>x > c\<close> and \<^verbatim>\<open>x >= c\<close> for a constant \<^verbatim>\<open>c\<close>.\<close>

fun in_unit_range :: "f32_value \<Rightarrow> bool" where
  "in_unit_range (Finite x) \<longleftrightarrow> 0 \<le> x \<and> x \<le> 1"
| "in_unit_range _ \<longleftrightarrow> False"

fun f32_gt :: "f32_value \<Rightarrow> rat \<Rightarrow> bool" where
  "f32_gt (Finite x) c \<longleftrightarrow> x > c"
| "f32_gt Pos_Infinity c \<longleftrightarrow> True"
| "f32_gt _ c \<longleftrightarrow> False"

fun f32_ge :: "f32_value \<Rightarrow> rat \<Rightarrow> bool" where
  "f32_ge (Finite x) c \<longleftrightarrow> x \<ge> c"
| "f32_ge Pos_Infinity c \<longleftrightarrow> True"
| "f32_ge _ c \<longleftrightarrow> False"

section \<open>Data\<close>

definition DEFAULT_CURATOR_BATCH_LIMIT :: nat where "DEFAULT_CURATOR_BATCH_LIMIT = 20"
definition DEFAULT_CURATOR_MIN_CONFIDENCE :: rat where "DEFAULT_CURATOR_MIN_CONFIDENCE = f32 (82 / 100)"

datatype MemoryCuratorSource = PrReview | SessionMined | Conversation

fun source_label :: "MemoryCuratorSource \<Rightarrow> ustr" where
  "source_label PrReview = lit ''PR review comments''"
| "source_label SessionMined = lit ''coding-agent sessions''"
| "source_label Conversation = lit ''explicit user rule captures''"

record MemoryCuratorOptions =
  max_candidates :: nat
  min_confidence :: rat

definition default_curator_options :: MemoryCuratorOptions where
  "default_curator_options =
     \<lparr>max_candidates = DEFAULT_CURATOR_BATCH_LIMIT, min_confidence = DEFAULT_CURATOR_MIN_CONFIDENCE\<rparr>"

record MemoryCuratorBehaviorObservation =
  base_rate :: f32_value
  lift_oracle :: f32_value
  lift_e2e :: f32_value
  corrected :: bool

record MemoryCuratorCandidate =
  cc_group_id :: ustr
  cc_current_title :: ustr
  cc_current_rule :: ustr
  cc_source :: MemoryCuratorSource
  cc_source_repo :: "ustr option"
  cc_file_patterns :: "ustr list"
  cc_source_evidence :: ustr
  cc_behavior_observations :: "MemoryCuratorBehaviorObservation list"

datatype MemoryCuratorAction = EnableRule | ReviewRule

datatype MemoryCuratorScope = Universal | LanguageWide | PathScoped

definition scope_parse :: "ustr \<Rightarrow> MemoryCuratorScope option" where
  "scope_parse v =
     (let s = to_ascii_lowercase (trim v) in
      if s = lit ''universal'' then Some Universal
      else if s \<in> set (map lit [''language_wide'', ''language-wide'', ''languagewide'']) then Some LanguageWide
      else if s \<in> set (map lit [''path_scoped'', ''path-scoped'', ''pathscoped'']) then Some PathScoped
      else None)"

record MemoryCuratorDecision =
  cd_group_id :: ustr
  cd_action :: MemoryCuratorAction
  cd_confidence :: rat
  cd_title :: "ustr option"
  cd_rule :: "ustr option"
  cd_reason :: "ustr option"
  cd_scope :: "MemoryCuratorScope option"

record MemoryCuratorOutcome =
  co_decisions :: "MemoryCuratorDecision list"
  co_unavailable_reason :: "ustr option"

text \<open>What the model wrote, before any check.\<close>

record AiCuratorDecision =
  ai_group_id :: ustr
  ai_action :: ustr
  ai_confidence :: f32_value
  ai_title :: "ustr option"
  ai_rule :: "ustr option"
  ai_reason :: "ustr option"
  ai_scope :: "ustr option"

text \<open>A confidence outside the unit interval becomes 0, so it never passes a threshold.\<close>

definition sane_confidence :: "f32_value \<Rightarrow> rat" where
  "sane_confidence c = (case c of Finite x \<Rightarrow> if 0 \<le> x \<and> x \<le> 1 then x else 0 | _ \<Rightarrow> 0)"

definition decision_from_ai :: "AiCuratorDecision \<Rightarrow> MemoryCuratorDecision" where
  "decision_from_ai v =
     \<lparr>cd_group_id = ai_group_id v,
      cd_action = (if str_eq_ignore_ascii_case (trim (ai_action v)) (lit ''enable'') then EnableRule else ReviewRule),
      cd_confidence = sane_confidence (ai_confidence v), cd_title = ai_title v, cd_rule = ai_rule v,
      cd_reason = ai_reason v, cd_scope = Option.bind (ai_scope v) scope_parse\<rparr>"

section \<open>The safety gate\<close>

definition contains_any :: "ustr \<Rightarrow> ustr list \<Rightarrow> bool" where
  "contains_any s needles \<longleftrightarrow> list_ex (str_contains s) needles"

datatype BehaviorRedundancyDecision = DropRedundant | ProtectPositive | Neutral

definition behavior_redundancy_decision :: "MemoryCuratorBehaviorObservation list \<Rightarrow> BehaviorRedundancyDecision" where
  "behavior_redundancy_decision observations =
     (let usable = filter (\<lambda>b. in_unit_range (base_rate b)) observations in
      if list_ex (\<lambda>b. corrected b \<or> f32_gt (lift_oracle b) (f32 (1 / 1000)) \<or> f32_gt (lift_e2e b) (f32 (1 / 1000))) usable
      then ProtectPositive
      else if length usable \<ge> 3 \<and> list_all (\<lambda>b. f32_ge (base_rate b) (f32 (99 / 100))) usable then DropRedundant
      else Neutral)"

definition has_obvious_default_action :: "ustr \<Rightarrow> bool" where
  "has_obvious_default_action lower = contains_any lower (map lit
     [''add test'', ''write test'', ''include test'', ''cover test'', ''handle error'',
      ''handle exception'', ''handle edge case'', ''catch error'', ''surface error'',
      ''validate input'', ''validate parameter'', ''validate argument'', ''validate payload'',
      ''validate request'', ''input validation'', ''payload validation'', ''request validation'',
      ''improve readability'', ''improve clarity'', ''improve performance'',
      ''improve maintainability'', ''remove dead code'', ''remove unused code'', ''delete dead code'',
      ''delete unused code'', ''avoid duplication'', ''reduce duplication'', ''reduce complexity'',
      ''consistent casing'', ''consistent capitalization'', ''consistent naming'', ''matching casing'',
      ''group related test'', ''group similar test'', ''consolidate related test'',
      ''consolidate similar test''])"

definition has_common_platform_knowledge :: "ustr \<Rightarrow> bool" where
  "has_common_platform_knowledge lower \<longleftrightarrow>
     str_contains lower (lit ''preventdefault'') \<or> str_contains lower (lit ''page reload'')
     \<or> str_contains lower (lit ''version suffix casing'')
     \<or> (str_contains lower (lit ''blocking code'') \<and> str_contains lower (lit ''async''))"

definition has_project_contract_signal :: "ustr \<Rightarrow> bool" where
  "has_project_contract_signal lower = contains_any lower (map lit
     [''shared'', ''generated'', ''schema'', ''contract'', ''boundary'', ''adapter'', ''router'',
      ''provider'', ''cache'', ''migration'', ''protocol'', ''compatibility'', ''serialization'',
      ''deserialization'', ''fixture'', ''in sync'', ''module's test file'', ''module test file'',
      ''different module'', ''module they exercise'', ''module boundary'', ''versioned schema'',
      ''versioned protocol'', ''versioned contract'', ''versioned compatibility'', ''version schema'',
      ''version protocol'', ''version contract'', ''version compatibility'', ''api version'',
      ''protocol version'', ''schema version''])"

definition mixed_case_token :: "ustr \<Rightarrow> bool" where
  "mixed_case_token token \<longleftrightarrow>
     5 \<le> utf8_len token
     \<and> ((list_ex is_ascii_lowercase token \<and> list_ex is_ascii_uppercase token) \<or> 95 \<in> set token)"

definition has_named_code_anchor :: "ustr \<Rightarrow> bool" where
  "has_named_code_anchor s \<longleftrightarrow>
     96 \<in> set s \<or> 47 \<in> set s
     \<or> list_ex mixed_case_token (split_on (\<lambda>c. \<not> (is_ascii_alphanumeric c \<or> c = 95)) s)"

definition rule_is_obvious_low_value :: "ustr \<Rightarrow> ustr \<Rightarrow> bool" where
  "rule_is_obvious_low_value t r =
     (let s = t @ [newline] @ r; lower = to_ascii_lowercase s; common = has_common_platform_knowledge lower in
      if \<not> has_obvious_default_action lower \<and> \<not> common then False
      else let anchor = has_named_code_anchor s; project = has_project_contract_signal lower in
        if common \<and> \<not> project then True
        else let strong = contains_any lower (map lit
               [''because'', '' so '', ''otherwise'', ''break'', ''miss'', ''stale'', ''regression'', ''contract'', ''in sync'']) in
          \<not> (anchor \<and> (project \<or> strong)))"

definition curator_rule_is_safe_with_behavior ::
  "ustr \<Rightarrow> ustr \<Rightarrow> MemoryCuratorBehaviorObservation list \<Rightarrow> bool" where
  "curator_rule_is_safe_with_behavior title0 rule0 behavior_observations =
     (let t = trim title0; r = trim rule0 in
      if \<not> (8 \<le> length t \<and> length t \<le> 140) then False
      else if \<not> (40 \<le> length r \<and> length r \<le> 1200) then False
      else let s = to_ascii_lowercase (t @ [newline] @ r) in
        if 63 \<in> set s \<or> contains_any s (map lit
             [''could we'', ''do we really'', ''after all'', ''reviewer said'', ''source evidence'']) then False
        else let d = behavior_redundancy_decision behavior_observations in
          if d = DropRedundant then False
          else if d \<noteq> ProtectPositive \<and> rule_is_obvious_low_value t r then False
          else contains_any s (map lit
             [''use '', ''avoid '', ''prefer '', ''do not '', ''don't '', ''replace '', ''call '', ''extract '', ''inline '',
              ''centralize '', ''preserve '', ''keep '']))"

definition curator_rule_is_safe :: "ustr \<Rightarrow> ustr \<Rightarrow> bool" where
  "curator_rule_is_safe title0 rule0 = curator_rule_is_safe_with_behavior title0 rule0 []"

section \<open>Scopes\<close>

definition REMEMBER_FILE_PATTERN_LIMIT :: nat where "REMEMBER_FILE_PATTERN_LIMIT = 32"

definition normalize_extension :: "ustr \<Rightarrow> ustr option" where
  "normalize_extension raw =
     (let ext = to_ascii_lowercase (trim_end_where (\<lambda>c. \<not> is_ascii_alphanumeric c)
                  (trim_end_where (\<lambda>c. c = 125) (trim_start_matches 123 (trim raw)))) in
      if ext = [] \<or> utf8_len ext > 12 \<or> \<not> list_all is_ascii_alphanumeric ext then None else Some ext)"

text \<open>\<^verbatim>\<open>trim_start_matches("./")\<close> drops every leading copy, as \<^const>\<open>strip_dot_slash\<close> does.\<close>

definition scope_anchor_extensions :: "ustr \<Rightarrow> ustr list" where
  "scope_anchor_extensions anchor =
     (let normalized = replace_char 92 47 (strip_dot_slash (trim_matches 39 (trim_matches 34 (trim_matches 96 (trim anchor))))) in
      if normalized = [] then []
      else let braces = Option.bind (rfind_str normalized (lit ''.{'')) (\<lambda>start.
             map_option (\<lambda>e. take e (drop (start + 2) normalized)) (find_char (drop (start + 2) normalized) 125)) in
        (case braces of
           Some inner \<Rightarrow> List.map_filter normalize_extension (split_on (\<lambda>c. c = 44) inner)
         | None \<Rightarrow>
             (case Option.bind (rsplit_once 46 normalized) (\<lambda>(_, ext). normalize_extension ext) of
                Some ext \<Rightarrow> [ext] | None \<Rightarrow> [])))"

definition is_manifest_like_scope_anchor :: "ustr \<Rightarrow> bool" where
  "is_manifest_like_scope_anchor anchor =
     (let lower = to_ascii_lowercase (replace_char 92 47 anchor); file_name = last (split_on (\<lambda>c. c = 47) lower) in
      starts_with lower (lit ''.github/workflows/'') \<or> str_contains lower (lit ''/.github/workflows/'')
      \<or> file_name \<in> set (map lit
        [''go.mod'', ''go.sum'', ''cargo.toml'', ''cargo.lock'', ''package.json'',
         ''package-lock.json'', ''pnpm-lock.yaml'', ''yarn.lock'', ''bun.lockb'', ''uv.lock'',
         ''poetry.lock'', ''requirements.txt'', ''dockerfile'']))"

definition is_language_wide_extension :: "ustr \<Rightarrow> bool" where
  "is_language_wide_extension ext \<longleftrightarrow> ext \<in> set (map lit
     [''c'', ''cc'', ''cpp'', ''cxx'', ''h'', ''hpp'', ''cs'', ''go'', ''java'', ''js'', ''jsx'',
      ''mjs'', ''cjs'', ''ts'', ''tsx'', ''mts'', ''cts'', ''py'', ''rb'', ''rs'', ''swift'', ''kt'',
      ''kts'', ''php'', ''vue'', ''svelte'', ''css'', ''scss'', ''less'', ''mdx''])"

definition anchor_step :: "ustr \<Rightarrow> ustr \<Rightarrow> ustr list \<times> ustr list \<Rightarrow> ustr list \<times> ustr list" where
  "anchor_step anchor ext = (\<lambda>(source_exts, fallback_exts).
     if \<not> is_language_wide_extension ext then (source_exts, fallback_exts)
     else if is_manifest_like_scope_anchor anchor then (source_exts, fallback_exts @ [ext])
     else (source_exts @ [ext], fallback_exts))"

definition language_wide_file_patterns :: "ustr list \<Rightarrow> ustr list" where
  "language_wide_file_patterns anchors =
     (let (source_exts, fallback_exts) =
            fold (\<lambda>anchor. fold (anchor_step anchor) (scope_anchor_extensions anchor)) anchors ([], []);
          exts = btree_set (if source_exts = [] then fallback_exts else source_exts) in
      map (\<lambda>ext. lit ''**/*.'' @ ext) (take REMEMBER_FILE_PATTERN_LIMIT exts))"

definition file_patterns_for_curator_scope :: "MemoryCuratorScope \<Rightarrow> ustr list \<Rightarrow> ustr list option" where
  "file_patterns_for_curator_scope scope anchors =
     (case scope of
        PathScoped \<Rightarrow> None
      | Universal \<Rightarrow> Some []
      | LanguageWide \<Rightarrow>
          (let patterns = language_wide_file_patterns anchors in if patterns \<noteq> [] then Some patterns else None))"

section \<open>Reading an answer\<close>

text \<open>The outermost JSON text of an answer, fences and prose around it cut off.\<close>

definition extract_json_object :: "ustr \<Rightarrow> ustr option" where
  "extract_json_object raw =
     (let trimmed = trim raw in
      if starts_with trimmed [123] \<or> starts_with trimmed [91] then Some trimmed
      else
        Option.bind
          (case (find_char trimmed 123, find_char trimmed 91) of
             (Some object, Some array) \<Rightarrow> Some (min object array)
           | (Some object, None) \<Rightarrow> Some object
           | (None, Some array) \<Rightarrow> Some array
           | (None, None) \<Rightarrow> None) (\<lambda>start.
        Option.bind (case rfind_char trimmed 125 of Some e \<Rightarrow> Some e | None \<Rightarrow> rfind_char trimmed 93) (\<lambda>e.
          if e > start then Some (slice_incl trimmed start e) else None)))"

text \<open>
  The JSON parser and the decoders \<^verbatim>\<open>serde\<close> derives for the two accepted shapes; the left results
  are error texts.
\<close>

record 'f curator_json =
  cj_parse :: "ustr \<Rightarrow> ustr + 'f json"
  cj_decode_list :: "'f json \<Rightarrow> ustr + AiCuratorDecision list"
  cj_decode_envelope :: "'f json \<Rightarrow> ustr + AiCuratorDecision list"

definition internal_error :: "ustr \<Rightarrow> ustr" where
  "internal_error msg = lit ''Internal error: '' @ msg"

definition parse_curator_decisions :: "'f curator_json \<Rightarrow> ustr \<Rightarrow> ustr + MemoryCuratorDecision list" where
  "parse_curator_decisions J raw =
     (case extract_json_object raw of
        None \<Rightarrow> Inl (internal_error (lit ''local AI CLI did not return JSON''))
      | Some json_text \<Rightarrow>
          (case cj_parse J json_text of
             Inl e \<Rightarrow> Inl (internal_error (lit ''local AI CLI returned invalid JSON: '' @ e))
           | Inr v \<Rightarrow>
               (case (if as_array v \<noteq> None then cj_decode_list J v else cj_decode_envelope J v) of
                  Inl e \<Rightarrow> Inl (internal_error (lit ''local AI CLI decision parse failed: '' @ e))
                | Inr ds \<Rightarrow> Inr (map decision_from_ai ds))))"

section \<open>The batch call\<close>

definition summarize_sources :: "MemoryCuratorCandidate list \<Rightarrow> ustr" where
  "summarize_sources candidates =
     str_join (lit '', '') (remdups_adj (sort_by cmp_str (map (\<lambda>c. source_label (cc_source c)) candidates)))"

definition CURATOR_SYSTEM_PROMPT :: ustr where
  "CURATOR_SYSTEM_PROMPT =
     lit ''You are DiffLore'' @ [39]
     @ lit ''s local rule curator. You turn raw coding evidence into durable coding-agent rules only when the evidence contains a clear, reusable team preference. Return JSON only. Never approve vague comments, one-off questions, jokes, broad taste, or evidence that needs missing context.''"

definition curator_user_prompt :: "ustr \<Rightarrow> ustr \<Rightarrow> ustr" where
  "curator_user_prompt source_summary prompt_json =
     lit ''Review these candidate rules from ''
     @ source_summary @
     lit '' and decide whether each should become an active local coding-agent rule.''
     @ [newline, newline] @ lit ''For each candidate return one decision:'' @ [newline]
     @ lit ''- action: '' @ [34] @ lit ''enable'' @ [34]
     @ lit '' only if the rule is durable, actionable, repo-specific, and safe for an agent to apply without more context.''
     @ [newline] @ lit ''- action: '' @ [34] @ lit ''review'' @ [34]
     @ lit '' for vague, low-context, one-off, subjective, question-shaped, behavior-redundant, already-covered, or conflict-prone evidence. Also choose ''
     @ [34] @ lit ''review'' @ [34]
     @ lit '' when a capable general coding model or existing active rule would probably do the same thing by default (validate input, add tests, handle errors, improve readability, remove dead code) and the evidence adds no non-obvious project API/helper, generated artifact, schema/contract coupling, module boundary, version constraint, or named team convention.''
     @ [newline]
     @ lit ''- behaviorObservations, when present, are local-cli before/after evidence: baseRate is how often the model already followed the rule without rule injection, liftOracle/liftE2E are improvements from injecting it, and corrected marks rescued failures. Treat >=3 observations with baseRate=1.0 and no positive lift as behavior-redundant. Treat any positive lift or corrected observation as evidence that the rule is not merely obvious, even if it mentions a common platform habit.''
     @ [newline] @ lit ''- confidence: 0.0 to 1.0.'' @ [newline]
     @ lit ''- title: short imperative title when enabling.'' @ [newline]
     @ lit ''- rule: rewritten rule text when enabling. The rule must be explicit, imperative, and not quote the source wording.''
     @ [newline] @ lit ''- scope: '' @ [34] @ lit ''path_scoped'' @ [34] @ lit '', '' @ [34]
     @ lit ''language_wide'' @ [34] @ lit '', or '' @ [34] @ lit ''universal'' @ [34]
     @ lit '' when enabling. Default to '' @ [34] @ lit ''path_scoped'' @ [34] @ lit ''. Use '' @ [34]
     @ lit ''language_wide'' @ [34]
     @ lit '' only for cross-file team conventions such as shared APIs/components ('' @ [96]
     @ lit ''$api'' @ [96] @ lit '', '' @ [96] @ lit ''~/base/*'' @ [96]
     @ lit ''), framework primitives (TanStack, useMemo), or evidence that says always/never/strictly forbidden/project rule/all files/anywhere. Use ''
     @ [34] @ lit ''universal'' @ [34]
     @ lit '' only for clearly repo-wide, language-independent rules. If unsure, choose the narrower scope.''
     @ [newline] @ lit ''- reason: concise reason.'' @ [newline, newline] @ lit ''JSON schema:''
     @ [newline] @ lit ''{'' @ [34] @ lit ''decisions'' @ [34] @ lit '':[{'' @ [34] @ lit ''groupId''
     @ [34] @ lit '':'' @ [34] @ lit ''...'' @ [34] @ lit '','' @ [34] @ lit ''action'' @ [34]
     @ lit '':'' @ [34] @ lit ''enable|review'' @ [34] @ lit '','' @ [34] @ lit ''confidence'' @ [34]
     @ lit '':0.0,'' @ [34] @ lit ''title'' @ [34] @ lit '':'' @ [34] @ lit ''...'' @ [34] @ lit '',''
     @ [34] @ lit ''rule'' @ [34] @ lit '':'' @ [34] @ lit ''...'' @ [34] @ lit '','' @ [34]
     @ lit ''scope'' @ [34] @ lit '':'' @ [34] @ lit ''path_scoped|language_wide|universal'' @ [34]
     @ lit '','' @ [34] @ lit ''reason'' @ [34] @ lit '':'' @ [34] @ lit ''...'' @ [34] @ lit ''}]}''
     @ [newline, newline] @ lit ''Candidates:'' @ [newline]
     @ prompt_json"

definition redundant_decision :: "MemoryCuratorCandidate \<Rightarrow> MemoryCuratorDecision" where
  "redundant_decision c =
     \<lparr>cd_group_id = cc_group_id c, cd_action = ReviewRule, cd_confidence = 0, cd_title = None, cd_rule = None,
      cd_reason = Some (lit ''local-cli behavior evidence shows this rule is already followed without rule injection''),
      cd_scope = None\<rparr>"

text \<open>\<open>pretty\<close> is the serializer of the candidates, \<open>ask_agent\<close> the call of the local agent.\<close>

definition curate_memory_candidates_with_local_ai ::
  "'f curator_json \<Rightarrow> (MemoryCuratorCandidate list \<Rightarrow> ustr + ustr) \<Rightarrow> (ustr \<Rightarrow> ustr \<Rightarrow> ustr + ustr)
    \<Rightarrow> MemoryCuratorCandidate list \<Rightarrow> MemoryCuratorOptions \<Rightarrow> ustr + MemoryCuratorOutcome" where
  "curate_memory_candidates_with_local_ai J pretty ask_agent all_candidates options =
     (let candidates = take (max_candidates options) all_candidates in
      if candidates = [] then Inr \<lparr>co_decisions = [], co_unavailable_reason = None\<rparr>
      else
        let redundant = (\<lambda>c. behavior_redundancy_decision (cc_behavior_observations c) = DropRedundant);
            deterministic = map redundant_decision (filter redundant candidates);
            for_ai = filter (\<lambda>c. \<not> redundant c) candidates in
        if for_ai = [] then Inr \<lparr>co_decisions = deterministic, co_unavailable_reason = None\<rparr>
        else
          (case pretty for_ai of
             Inl e \<Rightarrow> Inl e
           | Inr prompt_json \<Rightarrow>
               (case ask_agent CURATOR_SYSTEM_PROMPT (curator_user_prompt (summarize_sources for_ai) prompt_json) of
                  Inl e \<Rightarrow> Inr \<lparr>co_decisions = deterministic, co_unavailable_reason = Some (truncate_with_dots e 240)\<rparr>
                | Inr raw \<Rightarrow>
                    (case parse_curator_decisions J raw of
                       Inl e \<Rightarrow> Inr \<lparr>co_decisions = deterministic, co_unavailable_reason = Some (truncate_with_dots e 240)\<rparr>
                     | Inr decisions \<Rightarrow> Inr \<lparr>co_decisions = decisions @ deterministic, co_unavailable_reason = None\<rparr>))))"

text \<open>Collecting into a map keeps the last decision of a group.\<close>

definition curator_decisions_by_group :: "MemoryCuratorDecision list \<Rightarrow> (ustr \<rightharpoonup> MemoryCuratorDecision)" where
  "curator_decisions_by_group decisions = map_of (rev (map (\<lambda>d. (cd_group_id d, d)) decisions))"

section \<open>What reaches the caller\<close>

lemma sane_confidence_range: "0 \<le> sane_confidence c" "sane_confidence c \<le> 1"
  by (cases c; simp add: sane_confidence_def)+

lemma map_of_rev_append_last:
  "map_of (rev (map (\<lambda>d. (f d, d)) (xs @ ys))) k =
     (case map_of (rev (map (\<lambda>d. (f d, d)) ys)) k of Some d \<Rightarrow> Some d | None \<Rightarrow> map_of (rev (map (\<lambda>d. (f d, d)) xs)) k)"
  by (simp add: map_add_def)

lemma by_group_redundant:
  assumes "c \<in> set cs"
  shows "\<exists>d. curator_decisions_by_group (ds @ map redundant_decision cs) (cc_group_id c) = Some d
    \<and> cd_action d = ReviewRule \<and> cd_confidence d = 0"
proof -
  let ?m = "map_of (rev (map (\<lambda>d. (cd_group_id d, d)) (map redundant_decision cs)))"
  have "cc_group_id c \<in> dom ?m"
    using assms by (simp add: dom_map_of_conv_image_fst image_image redundant_decision_def)
  then obtain d where d: "?m (cc_group_id c) = Some d" by blast
  from map_of_SomeD [OF d] have "d \<in> redundant_decision ` set cs" by auto
  then have "cd_action d = ReviewRule \<and> cd_confidence d = 0" by (auto simp: redundant_decision_def)
  with d show ?thesis
    unfolding curator_decisions_by_group_def map_of_rev_append_last by simp
qed

lemma parse_curator_confidence:
  "parse_curator_decisions J raw = Inr ds \<Longrightarrow> d \<in> set ds \<Longrightarrow> 0 \<le> cd_confidence d \<and> cd_confidence d \<le> 1"
  by (auto simp: parse_curator_decisions_def decision_from_ai_def sane_confidence_range split: option.splits sum.splits)

text \<open>The result of the call is the answer of the model, or nothing, before the fixed decisions.\<close>

lemma curate_cases:
  assumes "curate_memory_candidates_with_local_ai J pretty ask_agent cs options = Inr out"
  defines "red \<equiv> filter (\<lambda>c. behavior_redundancy_decision (cc_behavior_observations c) = DropRedundant)
                    (take (max_candidates options) cs)"
  shows "\<exists>ds. co_decisions out = ds @ map redundant_decision red
    \<and> (ds = [] \<or> (co_unavailable_reason out = None \<and> (\<exists>raw. parse_curator_decisions J raw = Inr ds
         \<and> (\<exists>sys user. ask_agent sys user = Inr raw))))"
proof -
  let ?cs = "take (max_candidates options) cs"
  consider "?cs = []" | "?cs \<noteq> []" "filter (\<lambda>c. behavior_redundancy_decision (cc_behavior_observations c) \<noteq> DropRedundant) ?cs = []"
    | "?cs \<noteq> []" "filter (\<lambda>c. behavior_redundancy_decision (cc_behavior_observations c) \<noteq> DropRedundant) ?cs \<noteq> []"
    by blast
  then show ?thesis
    using assms(1) unfolding red_def curate_memory_candidates_with_local_ai_def Let_def
    by cases (force split: sum.splits if_splits)+
qed

text \<open>
  C12. The curator fails closed. Every confidence it reports lies between 0 and 1, whatever number the
  model wrote; a candidate the project already follows without being told stays in review, also
  when the model wants to enable it; and when the model could not be asked or its answer not be read,
  nothing is enabled.
\<close>

theorem curator_fails_closed:
  assumes "curate_memory_candidates_with_local_ai J pretty ask_agent cs options = Inr out"
  shows "(\<forall>d \<in> set (co_decisions out). 0 \<le> cd_confidence d \<and> cd_confidence d \<le> 1)
    \<and> (\<forall>c \<in> set (take (max_candidates options) cs).
         behavior_redundancy_decision (cc_behavior_observations c) = DropRedundant
         \<longrightarrow> (\<exists>d. curator_decisions_by_group (co_decisions out) (cc_group_id c) = Some d
               \<and> cd_action d = ReviewRule \<and> cd_confidence d = 0))
    \<and> (co_unavailable_reason out \<noteq> None \<or> (\<forall>sys user. \<exists>e. ask_agent sys user = Inl e)
         \<longrightarrow> (\<forall>d \<in> set (co_decisions out). cd_action d = ReviewRule))"
proof -
  let ?red = "filter (\<lambda>c. behavior_redundancy_decision (cc_behavior_observations c) = DropRedundant)
                (take (max_candidates options) cs)"
  obtain ds where ds: "co_decisions out = ds @ map redundant_decision ?red"
    and src: "ds = [] \<or> (co_unavailable_reason out = None \<and> (\<exists>raw. parse_curator_decisions J raw = Inr ds
         \<and> (\<exists>sys user. ask_agent sys user = Inr raw)))"
    using curate_cases [OF assms] by blast
  have "\<forall>d \<in> set (co_decisions out). 0 \<le> cd_confidence d \<and> cd_confidence d \<le> 1"
    using src parse_curator_confidence by (fastforce simp: ds redundant_decision_def)
  moreover have "\<forall>c \<in> set ?red. \<exists>d. curator_decisions_by_group (co_decisions out) (cc_group_id c) = Some d
       \<and> cd_action d = ReviewRule \<and> cd_confidence d = 0"
    using by_group_redundant unfolding ds by blast
  moreover have "ds = []" if "co_unavailable_reason out \<noteq> None \<or> (\<forall>sys user. \<exists>e. ask_agent sys user = Inl e)"
    using src that by (metis Inl_Inr_False)
  ultimately show ?thesis by (auto simp: ds redundant_decision_def)
qed

text \<open>A model that answers with an impossible confidence, for a rule that is followed anyway.\<close>

definition demo_candidate :: "string \<Rightarrow> MemoryCuratorBehaviorObservation list \<Rightarrow> MemoryCuratorCandidate" where
  "demo_candidate g obs =
     \<lparr>cc_group_id = lit g, cc_current_title = [], cc_current_rule = [], cc_source = PrReview, cc_source_repo = None,
      cc_file_patterns = [], cc_source_evidence = [], cc_behavior_observations = obs\<rparr>"

definition followed_anyway :: MemoryCuratorBehaviorObservation where
  "followed_anyway = \<lparr>base_rate = Finite 1, lift_oracle = NaN, lift_e2e = Finite 0, corrected = False\<rparr>"

definition demo_decision :: "string \<Rightarrow> AiCuratorDecision" where
  "demo_decision g = \<lparr>ai_group_id = lit g, ai_action = lit '' Enable'', ai_confidence = Finite 1000000000,
     ai_title = None, ai_rule = None, ai_reason = None, ai_scope = None\<rparr>"

definition demo_curator_json :: "unit curator_json" where
  "demo_curator_json = \<lparr>cj_parse = (\<lambda>s. Inr (JArray [])), cj_decode_list = (\<lambda>v. Inr [demo_decision ''a'', demo_decision ''b'']),
     cj_decode_envelope = (\<lambda>v. Inl [])\<rparr>"

theorem curator_fails_closed_witness:
  "\<exists>out d. curate_memory_candidates_with_local_ai demo_curator_json (\<lambda>_. Inr []) (\<lambda>_ _. Inr (lit ''[]''))
       [demo_candidate ''a'' [], demo_candidate ''b'' [followed_anyway, followed_anyway, followed_anyway]]
       default_curator_options = Inr out
     \<and> length (co_decisions out) = 3
     \<and> curator_decisions_by_group (co_decisions out) (lit ''b'') = Some d \<and> cd_action d = ReviewRule"
proof -
  let ?b = "demo_candidate ''b'' [followed_anyway, followed_anyway, followed_anyway]"
  let ?run = "curate_memory_candidates_with_local_ai demo_curator_json (\<lambda>_. Inr []) (\<lambda>_ _. Inr (lit ''[]''))
       [demo_candidate ''a'' [], ?b] default_curator_options"
  have n: "(case ?run of Inr out \<Rightarrow> length (co_decisions out) = 3 | Inl _ \<Rightarrow> False)" by code_simp
  then obtain out where out: "?run = Inr out" "length (co_decisions out) = 3" by (cases ?run) auto
  have b: "?b \<in> set (take (max_candidates default_curator_options) [demo_candidate ''a'' [], ?b])"
    by (simp add: default_curator_options_def DEFAULT_CURATOR_BATCH_LIMIT_def)
  have d: "behavior_redundancy_decision (cc_behavior_observations ?b) = DropRedundant" by code_simp
  from curator_fails_closed [OF out(1)] b d
  have "\<exists>d. curator_decisions_by_group (co_decisions out) (cc_group_id ?b) = Some d \<and> cd_action d = ReviewRule"
    by blast
  with out show ?thesis by (auto simp: demo_candidate_def)
qed

text \<open>
  A fenced array loses its closing bracket: the cut is made at the last brace, before it looks for a bracket.
\<close>

definition fenced_array :: ustr where
  "fenced_array = replicate 3 96 @ lit ''json'' @ [newline] @ lit ''[{}]'' @ [newline] @ replicate 3 96"

theorem fenced_array_loses_bracket: "extract_json_object fenced_array = Some (lit ''[{}'')"
  by code_simp

end
