(* ===== verification/Memory_Classify.thy ===== *)
theory Memory_Classify
  imports Memory_Curator Session_Mined
begin

text \<open>
  What the autopilot decides about a group of pending memories (\<^verbatim>\<open>memory_autopilot/mod.rs\<close> and
  \<^verbatim>\<open>memory_autopilot/classify.rs\<close>): the checks for broad scope, merge requests,
  contradictions within the group and with active rules, and the classification built on them.
\<close>

section \<open>Data\<close>

datatype MemoryCandidateGroupState = AutoEnable | Recommended | NeedsReview | AlreadyActive

record MemoryCandidateGroup =
  mg_group_id :: ustr
  mg_title :: ustr
  mg_state :: MemoryCandidateGroupState
  mg_reason :: ustr
  mg_confidence :: "ustr option"
  mg_item_ids :: "ustr list"
  mg_source_repo :: "ustr option"
  mg_file_patterns :: "ustr list"
  mg_origins :: "ustr list"
  mg_verdicts :: "ustr list"
  mg_sample :: ustr

record ActiveConflict =
  ac_rule_id :: ustr
  ac_title :: ustr
  ac_basis :: ustr
  ac_active_body :: ustr
  ac_active_patterns :: "ustr list"

definition AUTOPILOT_CONFIDENCE :: ustr where "AUTOPILOT_CONFIDENCE = lit ''high''"
definition RECOMMENDED_CONFIDENCE :: ustr where "RECOMMENDED_CONFIDENCE = lit ''medium''"

text \<open>Two discoveries of one repository that the clustering would join directly.\<close>

definition session_mined_candidates_semantically_match :: "SessionMinedCandidate \<Rightarrow> SessionMinedCandidate \<Rightarrow> bool" where
  "session_mined_candidates_semantically_match l r \<longleftrightarrow>
     normalize_token (source_repo l) = normalize_token (source_repo r)
     \<and> key_matches (key_from_parts (title l) (body l) (file_patterns l)) (key_from_parts (title r) (body r) (file_patterns r))"

section \<open>Facts about a group\<close>

definition primary_candidate :: "PendingMemory list \<Rightarrow> PendingMemory option" where
  "primary_candidate candidates =
     (case filter (\<lambda>c. \<not> is_session c) candidates of
        c # _ \<Rightarrow> Some c
      | [] \<Rightarrow> (case candidates of c # _ \<Rightarrow> Some c | [] \<Rightarrow> None))"

definition merged_patterns :: "PendingMemory list \<Rightarrow> ustr list" where
  "merged_patterns candidates = normalize_memory_patterns (concat (map pm_file_patterns candidates))"

definition unique_strings :: "ustr list \<Rightarrow> ustr list" where
  "unique_strings xs = btree_set (filter (\<lambda>v. v \<noteq> []) (map trim xs))"

definition single_source_repo :: "PendingMemory list \<Rightarrow> ustr option" where
  "single_source_repo candidates =
     (case unique_strings (List.map_filter pm_source_repo candidates) of [repo] \<Rightarrow> Some repo | _ \<Rightarrow> None)"

definition strongest_title :: "PendingMemory list \<Rightarrow> ustr" where
  "strongest_title candidates =
     (case max_by (\<lambda>a b. cmp_nat (utf8_len (pm_title a)) (utf8_len (pm_title b))) candidates of
        None \<Rightarrow> lit ''Untitled rule'' | Some c \<Rightarrow> pm_title c)"

definition file_patterns_are_broad :: "ustr list \<Rightarrow> bool" where
  "file_patterns_are_broad patterns \<longleftrightarrow>
     patterns = []
     \<or> list_ex (\<lambda>p. trim p \<in> set (map lit [''**/*'', ''src/**/*'', ''**/*.ts'', ''**/*.tsx'', ''src/**/*.ts'', ''src/**/*.tsx'']))
         patterns"

definition has_merge_verdict :: "PendingMemory list \<Rightarrow> bool" where
  "has_merge_verdict candidates =
     list_ex (\<lambda>c. starts_with (to_ascii_uppercase (case pm_verdict c of Some v \<Rightarrow> v | None \<Rightarrow> [])) (lit ''MERGE:'')) candidates"

definition contains_ascii_word :: "ustr \<Rightarrow> ustr \<Rightarrow> bool" where
  "contains_ascii_word s needle \<longleftrightarrow> needle \<in> set (split_on (\<lambda>c. \<not> is_ascii_alphanumeric c) s)"

definition title_and_body :: "PendingMemory \<Rightarrow> ustr" where
  "title_and_body c = pm_title c @ lit '' '' @ pm_body c"

definition has_conflicting_language :: "PendingMemory list \<Rightarrow> bool" where
  "has_conflicting_language candidates =
     (let s = str_join [newline] (map (\<lambda>c. to_ascii_lowercase (title_and_body c)) candidates) in
      (str_contains s (lit ''inline'') \<and> str_contains s (lit ''central'') \<and> str_contains s (lit ''route''))
      \<or> (contains_ascii_word s (lit ''allow'') \<and> contains_ascii_word s (lit ''disallow''))
      \<or> (contains_ascii_word s (lit ''always'') \<and> contains_ascii_word s (lit ''never'')))"

definition session_keep_verdict :: "PendingMemory \<Rightarrow> bool" where
  "session_keep_verdict c =
     str_eq_ignore_ascii_case (case pm_verdict c of Some v \<Rightarrow> trim v | None \<Rightarrow> []) (lit ''KEEP'')"

section \<open>Conflicts with active rules\<close>

definition POSITIVE_DIRECTIVES :: "ustr list" where
  "POSITIVE_DIRECTIVES = map lit
     [''always'', ''must use'', ''should use'', ''prefer'', ''require'', ''enforce'', ''enable'']"

definition NEGATIVE_DIRECTIVES :: "ustr list" where
  "NEGATIVE_DIRECTIVES = map lit
     [''never'', ''avoid'', ''must not'', ''do not'', ''don't'', ''disallow'', ''forbid'', ''disable'',
      ''should not'']"

definition CONFLICT_STOP_WORDS :: "ustr list" where
  "CONFLICT_STOP_WORDS = map lit
     [''always'', ''never'', ''avoid'', ''prefer'', ''require'', ''should'', ''must'', ''with'',
      ''this'', ''that'', ''from'', ''into'', ''when'', ''where'', ''rule'', ''rules'', ''code'',
      ''the'', ''and'', ''for'', ''use'', ''using'', ''not'', ''than'', ''then'', ''but'', ''create'',
      ''even'', ''generate'', ''home'', ''keep'', ''model'', ''name'', ''names'', ''reference'',
      ''repo'', ''string'', ''type'', ''typed'']"

definition SINGLE_TOKEN_WEAK_CONFLICT_SUBJECTS :: "ustr list" where
  "SINGLE_TOKEN_WEAK_CONFLICT_SUBJECTS = map lit
     [''event'', ''events'', ''flag'', ''flags'', ''handler'', ''handlers'', ''route'', ''routes'',
      ''request'', ''requests'', ''name'', ''names'', ''key'', ''keys'']"

definition SHORT_CONFLICT_SUBJECTS :: "ustr list" where
  "SHORT_CONFLICT_SUBJECTS = map lit
     [''api'', ''css'', ''jwt'', ''sql'', ''ssr'']"

definition subject_step :: "ustr \<Rightarrow> ustr list \<Rightarrow> ustr list" where
  "subject_step raw tokens =
     (let token = trim raw in
      if (utf8_len token < 4 \<and> token \<notin> set SHORT_CONFLICT_SUBJECTS) \<or> token \<in> set CONFLICT_STOP_WORDS then tokens
      else if token \<in> set tokens then tokens else tokens @ [token])"

definition directive_subject_tokens :: "ustr \<Rightarrow> ustr list" where
  "directive_subject_tokens s = fold subject_step (split_on (\<lambda>c. \<not> is_ascii_alphanumeric c) s) []"

definition pattern_extension :: "ustr \<Rightarrow> ustr option" where
  "pattern_extension pattern =
     (let ext = to_ascii_lowercase (trim_end_where (\<lambda>c. \<not> is_ascii_alphanumeric c) (last (split_on (\<lambda>c. c = 46) pattern))) in
      if ext \<noteq> [] \<and> utf8_len ext \<le> 5 then Some ext else None)"

definition patterns_overlap :: "ustr list \<Rightarrow> ustr list \<Rightarrow> bool" where
  "patterns_overlap a b \<longleftrightarrow>
     a = [] \<or> b = []
     \<or> list_ex (\<lambda>pa. list_ex (\<lambda>pb. to_ascii_lowercase (trim pa) = to_ascii_lowercase (trim pb)
          \<or> (pattern_extension pa \<noteq> None \<and> pattern_extension pa = pattern_extension pb)) b) a"

definition opposing_directive_subject :: "ustr \<Rightarrow> ustr \<Rightarrow> ustr list \<Rightarrow> ustr option" where
  "opposing_directive_subject candidate_text active_text candidate_tokens =
     (if \<not> ((contains_any candidate_text POSITIVE_DIRECTIVES \<and> contains_any active_text NEGATIVE_DIRECTIVES)
            \<or> (contains_any candidate_text NEGATIVE_DIRECTIVES \<and> contains_any active_text POSITIVE_DIRECTIVES))
      then None
      else let shared = filter (\<lambda>t. t \<in> set (directive_subject_tokens active_text)) candidate_tokens in
        (case filter (\<lambda>t. t \<notin> set SINGLE_TOKEN_WEAK_CONFLICT_SUBJECTS) shared of
           strong # _ \<Rightarrow> Some strong
         | [] \<Rightarrow> if 2 \<le> length shared then Some (str_join (lit '' + '') (take 3 shared)) else None))"

definition active_title_and_body :: "ActiveMemory \<Rightarrow> ustr" where
  "active_title_and_body a = am_title a @ lit '' '' @ am_body a"

fun first_conflict :: "ustr \<Rightarrow> ustr list \<Rightarrow> ustr \<Rightarrow> ustr list \<Rightarrow> ActiveMemory list \<Rightarrow> ActiveConflict option" where
  "first_conflict repo patterns candidate_text candidate_tokens [] = None"
| "first_conflict repo patterns candidate_text candidate_tokens (a # as) =
     (let continue = first_conflict repo patterns candidate_text candidate_tokens as in
      case am_source_repo a of
        None \<Rightarrow> continue
      | Some active_repo \<Rightarrow>
          if \<not> str_eq_ignore_ascii_case (trim active_repo) repo then continue
          else if \<not> patterns_overlap patterns (am_file_patterns a) then continue
          else (case opposing_directive_subject candidate_text (to_ascii_lowercase (active_title_and_body a)) candidate_tokens of
                  Some basis \<Rightarrow> Some \<lparr>ac_rule_id = am_rule_id a, ac_title = am_title a, ac_basis = basis,
                    ac_active_body = am_body a, ac_active_patterns = am_file_patterns a\<rparr>
                | None \<Rightarrow> continue))"

definition detect_active_conflict ::
  "PendingMemory list \<Rightarrow> ustr option \<Rightarrow> ustr list \<Rightarrow> ActiveMemory list \<Rightarrow> ActiveConflict option" where
  "detect_active_conflict candidates source patterns active_rules =
     (case source of
        None \<Rightarrow> None
      | Some source' \<Rightarrow>
          (let repo = trim source' in
           if repo = [] then None
           else let s = to_ascii_lowercase (str_join [newline] (map title_and_body candidates)); tokens = directive_subject_tokens s in
             if tokens = [] then None else first_conflict repo patterns s tokens active_rules))"

section \<open>Classification\<close>

definition EVIDENCE_MARKER :: ustr where
  "EVIDENCE_MARKER = [newline, newline] @ lit ''source evidence:''"

definition split_rule_body_and_evidence :: "ustr \<Rightarrow> (ustr \<times> ustr) option" where
  "split_rule_body_and_evidence b =
     map_option (\<lambda>i. (trim (take i b), trim (drop (i + length EVIDENCE_MARKER) b)))
       (str_find (to_ascii_lowercase b) EVIDENCE_MARKER)"

definition has_source_evidence :: "ustr \<Rightarrow> bool" where
  "has_source_evidence s =
     (let lower = to_ascii_lowercase s in
      str_contains lower (lit ''source evidence:'')
      \<and> (str_contains lower (lit ''source:'') \<or> str_contains lower (lit ''comment:'') \<or> str_contains lower (lit ''file:'')))"

definition pr_review_candidate_is_clean_rule :: "PendingMemory \<Rightarrow> bool" where
  "pr_review_candidate_is_clean_rule c =
     (let t = trim (pm_title c); b = trim (pm_body c) in
      if t = [] \<or> b = [] then False
      else let tl = to_ascii_lowercase t in
        if starts_with tl (lit ''review:'') \<or> starts_with tl (lit ''review rule for '')
           \<or> tl = lit ''review rule from imported pr comment'' \<or> tl = lit ''imported pr review rule'' then False
        else let rule_body = (case split_rule_body_and_evidence b of Some (r, _) \<Rightarrow> r | None \<Rightarrow> b);
                 source_text = (case pm_raw_description c of Some d \<Rightarrow> d | None \<Rightarrow> b) in
          if \<not> has_source_evidence source_text then False
          else if contains_any (to_ascii_lowercase (t @ [newline] @ rule_body)) (map lit
            [''reviewer asked'', ''reviewer said'', ''reviewer requested'', ''do we really'', ''not sure'', '' imo '']) then False
          else curator_rule_is_safe t rule_body)"

definition pr_review_group_is_auto_enable_safe :: "PendingMemory list \<Rightarrow> ustr option \<Rightarrow> ustr list \<Rightarrow> bool" where
  "pr_review_group_is_auto_enable_safe candidates source patterns \<longleftrightarrow>
     (case source of Some repo \<Rightarrow> trim repo \<noteq> [] | None \<Rightarrow> False) \<and> patterns \<noteq> []
     \<and> list_all (\<lambda>c. pm_origin c = lit ''pr_review'' \<and> \<not> is_session c \<and> pr_review_candidate_is_clean_rule c) candidates"

definition is_bot_sourced :: "PendingMemory \<Rightarrow> bool" where
  "is_bot_sourced c \<longleftrightarrow> starts_with (pm_source_kind c) (lit ''bot:'') \<or> starts_with (pm_source_kind c) (lit ''ai_reviewer:'')
     \<or> pm_source_kind c = lit ''human_override_bot''"

type_synonym verdict = "MemoryCandidateGroupState \<times> ustr \<times> ustr option"

definition AI_REFINEMENT_REASON :: ustr where
  "AI_REFINEMENT_REASON = lit ''imported PR review needs human rule cleanup before autopilot can enable it''"

definition conflict_reason :: "ActiveConflict \<Rightarrow> ustr" where
  "conflict_reason c =
     lit ''conflicts with active rule '' @ [8220] @ ac_title c @ [8221] @ lit '' ('' @ ac_rule_id c
       @ lit ''): opposing guidance on '' @ [8220] @ ac_basis c @ [8221, 32, 8212] @ lit '' review before enabling''"

definition classify_group ::
  "ustr \<Rightarrow> PendingMemory list \<Rightarrow> ustr option \<Rightarrow> ustr list \<Rightarrow> ustr set \<Rightarrow> ustr set \<Rightarrow> ActiveMemory list \<Rightarrow> verdict" where
  "classify_group group_id candidates source patterns active_keys active_content_hashes active_rules =
     (if group_id \<in> active_keys then (AlreadyActive, lit ''a matching active rule already exists'', None)
      else if list_ex (\<lambda>c. case pm_content_hash c of Some h \<Rightarrow> h \<in> active_content_hashes | None \<Rightarrow> False) candidates
      then (AlreadyActive, lit ''a matching active rule already exists'', None)
      else if list_ex pm_autopilot_disabled candidates
      then (NeedsReview, lit ''disabled by user; re-enable manually if it becomes useful again'', None)
      else if file_patterns_are_broad patterns
      then (NeedsReview, lit ''scope is too broad for automatic enablement'', None)
      else if has_merge_verdict candidates
      then (NeedsReview, lit ''candidate asks to merge with an existing rule'', None)
      else if has_conflicting_language candidates
      then (NeedsReview, lit ''candidate group contains conflicting guidance'', None)
      else case detect_active_conflict candidates source patterns active_rules of
        Some conflict \<Rightarrow> (NeedsReview, conflict_reason conflict, None)
      | None \<Rightarrow>
        if list_ex (\<lambda>c. pm_origin c = lit ''pr_review'') candidates then
          (if list_ex is_bot_sourced candidates
           then (NeedsReview, lit ''bot-sourced PR review rule needs human validation before triage can enable it'', None)
           else if pr_review_group_is_auto_enable_safe candidates source patterns
           then (AutoEnable, show_nat (length candidates) @ lit '' cleaned PR-review ''
                  @ (if length candidates = 1 then lit ''rule'' else lit ''rules'')
                  @ lit '' has narrow scope and source evidence'', Some AUTOPILOT_CONFIDENCE)
           else (NeedsReview, AI_REFINEMENT_REASON, None))
        else if list_all is_session candidates \<and> 3 \<le> length candidates \<and> list_all session_keep_verdict candidates
        then (AutoEnable, show_nat (length candidates) @ lit '' matching session-mined discoveries agree on a narrow rule'',
              Some AUTOPILOT_CONFIDENCE)
        else if list_all is_session candidates \<and> list_all session_keep_verdict candidates
        then (Recommended, show_nat (length candidates) @ lit '' session-mined ''
                @ (if length candidates = 1 then lit ''discovery'' else lit ''discoveries'')
                @ lit '' looks safe; review once before enabling'', Some RECOMMENDED_CONFIDENCE)
        else (NeedsReview, lit ''needs human review before becoming an active rule'', None))"

definition digest_sample :: "PendingMemory list \<Rightarrow> ustr" where
  "digest_sample candidates =
     take 320 (case filter (\<lambda>b. b \<noteq> []) (map (\<lambda>c. trim (pm_body c)) candidates) of b # _ \<Rightarrow> b | [] \<Rightarrow> [])"

definition digest_group ::
  "ustr \<Rightarrow> PendingMemory list \<Rightarrow> ustr set \<Rightarrow> ustr set \<Rightarrow> ActiveMemory list \<Rightarrow> MemoryCandidateGroup" where
  "digest_group group_id candidates active_keys active_content_hashes active_rules =
     (let patterns = merged_patterns candidates; source = single_source_repo candidates;
          (state, reason, confidence) =
            classify_group group_id candidates source patterns active_keys active_content_hashes active_rules in
      \<lparr>mg_group_id = group_id, mg_title = strongest_title candidates, mg_state = state, mg_reason = reason,
       mg_confidence = confidence, mg_item_ids = map pm_item_id candidates, mg_source_repo = source,
       mg_file_patterns = patterns, mg_origins = unique_strings (map pm_origin candidates),
       mg_verdicts = unique_strings (List.map_filter pm_verdict candidates), mg_sample = digest_sample candidates\<rparr>)"

section \<open>What automatic enablement has checked\<close>

lemma first_conflict_None:
  "first_conflict repo ps s tokens as = None \<Longrightarrow> a \<in> set as \<Longrightarrow> am_source_repo a = Some r
    \<Longrightarrow> str_eq_ignore_ascii_case (trim r) repo \<Longrightarrow> patterns_overlap ps (am_file_patterns a)
    \<Longrightarrow> opposing_directive_subject s (to_ascii_lowercase (active_title_and_body a)) tokens = None"
  by (induction as) (auto simp: Let_def split: option.splits if_splits)

text \<open>
  \<open>opposes cs ps a\<close>: the active rule \<open>a\<close> belongs to the repository \<open>repo\<close>, covers files the group
  covers, and gives the opposite advice on a subject both mention.
\<close>

definition opposes :: "ustr \<Rightarrow> ustr list \<Rightarrow> PendingMemory list \<Rightarrow> ActiveMemory \<Rightarrow> bool" where
  "opposes repo ps cs a \<longleftrightarrow>
     (\<exists>r. am_source_repo a = Some r \<and> str_eq_ignore_ascii_case (trim r) (trim repo))
     \<and> patterns_overlap ps (am_file_patterns a)
     \<and> (let s = to_ascii_lowercase (str_join [newline] (map title_and_body cs)) in
        opposing_directive_subject s (to_ascii_lowercase (active_title_and_body a)) (directive_subject_tokens s) \<noteq> None)"

lemma opposing_needs_tokens: "opposing_directive_subject s t [] = None"
  by (simp add: opposing_directive_subject_def Let_def)

lemma no_conflict_no_opposition:
  assumes "detect_active_conflict cs (Some repo) ps actives = None" "trim repo \<noteq> []" "a \<in> set actives"
  shows "\<not> opposes repo ps cs a"
proof
  assume opp: "opposes repo ps cs a"
  let ?s = "to_ascii_lowercase (str_join [newline] (map title_and_body cs))"
  obtain r where r: "am_source_repo a = Some r" "str_eq_ignore_ascii_case (trim r) (trim repo)"
    using opp by (auto simp: opposes_def)
  from opp have o: "patterns_overlap ps (am_file_patterns a)"
    "opposing_directive_subject ?s (to_ascii_lowercase (active_title_and_body a)) (directive_subject_tokens ?s) \<noteq> None"
    by (simp_all add: opposes_def Let_def)
  then have "directive_subject_tokens ?s \<noteq> []" using opposing_needs_tokens by metis
  with assms(1,2) have "first_conflict (trim repo) ps ?s (directive_subject_tokens ?s) actives = None"
    by (simp add: detect_active_conflict_def Let_def split: if_splits)
  from first_conflict_None [OF this assms(3) r o(1)] o(2) show False by simp
qed

lemma AutoEnable_classifyD:
  assumes "classify_group key cs source ps keys hashes actives = (AutoEnable, reason, conf)"
  shows "key \<notin> keys" "\<forall>c \<in> set cs. \<not> pm_autopilot_disabled c"
    "\<forall>c \<in> set cs. \<forall>h. pm_content_hash c = Some h \<longrightarrow> h \<notin> hashes"
    "\<not> file_patterns_are_broad ps" "\<not> has_merge_verdict cs" "\<not> has_conflicting_language cs"
    "detect_active_conflict cs source ps actives = None"
    "(list_all is_session cs \<and> 3 \<le> length cs \<and> list_all session_keep_verdict cs)
      \<or> (pr_review_group_is_auto_enable_safe cs source ps \<and> list_all (\<lambda>c. \<not> is_bot_sourced c) cs)"
  using assms by (auto simp: classify_group_def list_ex_iff list_all_iff split: if_splits option.splits)


text \<open>Three discoveries that agree, and an active rule that says the opposite.\<close>

definition demo_discovery :: "string \<Rightarrow> string \<Rightarrow> PendingMemory" where
  "demo_discovery item repo = demo_memory\<lparr>pm_item_id := lit item, pm_kind := Session (lit item), pm_title := lit ''Prefer serde'',
     pm_origin := lit ''session_mined'', pm_source_repo := Some (lit repo), pm_file_patterns := [lit ''api/*.rs''],
     pm_verdict := Some (lit ''keep'')\<rparr>"

definition demo_active :: ActiveMemory where
  "demo_active = \<lparr>am_item_id = lit ''rule:r1'', am_rule_id = lit ''r1'', am_title = lit ''Avoid serde'', am_body = [],
     am_content_hash = None, am_origin = lit ''manual'', am_source_kind = lit ''human'', am_source_repo = Some (lit ''acme/app''),
     am_file_patterns = [lit ''api/*.rs''], am_updated_at = []\<rparr>"


text \<open>
  The repository of a group is compared letter by letter, while the grouping and the check for conflicts ignore case. Three
  discoveries of one repository, one of them under another spelling, have no single
  repository; the check is skipped and they are enabled against an active rule that opposes them. Spelled alike, they are
  left for review.
\<close>

theorem mixed_case_repo_skips_conflict_check:
  "mg_state (digest_group [] [demo_discovery ''a'' ''acme/app'', demo_discovery ''b'' ''acme/app'',
     demo_discovery ''c'' ''Acme/app''] {} {} [demo_active]) = AutoEnable"
  "mg_state (digest_group [] [demo_discovery ''a'' ''acme/app'', demo_discovery ''b'' ''acme/app'',
     demo_discovery ''c'' ''acme/app''] {} {} [demo_active]) = NeedsReview"
  "cluster_repo_key (demo_discovery ''c'' ''Acme/app'') = cluster_repo_key (demo_discovery ''a'' ''acme/app'')"
  by code_simp+

end
