(* ===== verification/Skill_Candidates.thy ===== *)
theory Skill_Candidates
  imports Autopilot_Schedule Comparators Text_Ops
begin

text \<open>
  The queue of rule drafts (\<^verbatim>\<open>skills/candidates.rs\<close>): reading what an imported review said out of the text
  of a draft, listing the drafts, and the two ways a draft leaves the queue. Promotion makes it
  an active rule, rejection deletes it and leaves a tombstone, so that the next import does not
  bring it back.

  There is one database; its tables extend those of the schedule. The table rows keep the columns the statements read or write. The parser of JSON lists and the
  identifier of a new event are arguments.
\<close>

section \<open>Data\<close>

record CandidateSourceProof =
  proof_source :: "ustr option"
  proof_comment_url :: "ustr option"
  proof_file :: "ustr option"
  proof_excerpt :: "ustr option"

definition has_any :: "CandidateSourceProof \<Rightarrow> bool" where
  "has_any p \<longleftrightarrow> proof_source p \<noteq> None \<or> proof_comment_url p \<noteq> None \<or> proof_file p \<noteq> None \<or> proof_excerpt p \<noteq> None"

record CandidateRule =
  cr_id :: ustr
  cr_name :: ustr
  cr_description :: ustr
  cr_origin :: ustr
  cr_source_kind :: ustr
  cr_installed_at :: ustr
  cr_content_hash :: "ustr option"
  cr_source_repo :: "ustr option"
  cr_file_patterns :: "ustr list"
  cr_drafted_rule :: "ustr option"
  cr_source_proof :: "CandidateSourceProof option"

text \<open>A row of \<^verbatim>\<open>skills\<close>, of \<^verbatim>\<open>rejected_signatures\<close> and of \<^verbatim>\<open>rule_events\<close>.\<close>

record skill_row =
  sk_id :: ustr
  sk_name :: ustr
  sk_source :: ustr
  sk_description :: ustr
  sk_status :: ustr
  sk_origin :: ustr
  sk_source_kind :: ustr
  sk_source_repo :: "ustr option"
  sk_file_patterns :: "ustr option"
  sk_content_hash :: "ustr option"
  sk_captured_by_client :: "ustr option"
  sk_installed_at :: ustr
  sk_updated_at :: "ustr option"
  sk_enabled_for_codex :: bool
  sk_enabled_for_claude :: bool
  sk_enabled_for_gemini :: bool
  sk_enabled_for_cursor :: bool

record rejected_row =
  rj_content_hash :: ustr
  rj_source_repo :: "ustr option"
  rj_comment_url :: "ustr option"
  rj_reason :: ustr

record rule_event =
  re_id :: ustr
  re_skill_id :: ustr
  re_reason :: ustr
  re_source_proof :: CandidateSourceProof

record skill_db = autopilot_db +
  skills :: "skill_row list"
  rejected_signatures :: "rejected_row list"
  rule_events :: "rule_event list"

text \<open>
  The two errors of \<^verbatim>\<open>CoreError\<close> that concern one draft only. Errors of the database are those of
  the statements.
\<close>

datatype core_error = Validation ustr | NotFound ustr

definition pending :: ustr where "pending = lit ''pending''"
definition active :: ustr where "active = lit ''active''"

section \<open>Reading a description\<close>

definition description_section_after :: "ustr \<Rightarrow> ustr \<Rightarrow> ustr option" where
  "description_section_after description label =
     (case strip_prefix (trim_start description) label of
        Some rest \<Rightarrow> Some rest
      | None \<Rightarrow> map_option (\<lambda>(_, after). trim_start after) (split_once_str (newline # label) description))"

definition capitalize_first_ascii :: "ustr \<Rightarrow> ustr" where
  "capitalize_first_ascii v = (case v of [] \<Rightarrow> [] | c # cs \<Rightarrow> (if is_ascii_lowercase c then c - 32 else c) # cs)"

definition legacy_when_touching_remainder :: "ustr \<Rightarrow> ustr option" where
  "legacy_when_touching_remainder rest0 =
     (case strip_prefix rest0 [96] of
        Some rest \<Rightarrow>
          Option.bind (split_once 96 rest) (\<lambda>(scope, after_scope).
            if trim scope = [] then None else strip_prefix (trim_start after_scope) [44])
      | None \<Rightarrow>
          Option.bind (split_once 44 rest0) (\<lambda>(scope, after_scope).
            if trim scope \<noteq> [] then Some after_scope else None))"

definition normalize_legacy_path_prefixed_rule :: "ustr \<Rightarrow> ustr" where
  "normalize_legacy_path_prefixed_rule statement0 =
     (let statement = trim statement0 in
      if \<not> starts_with (to_ascii_lowercase statement) (lit ''when touching '') then statement
      else case legacy_when_touching_remainder (drop 14 statement) of
        None \<Rightarrow> statement
      | Some after_scope \<Rightarrow>
          (let stripped = trim after_scope in
           if stripped = [] then statement else capitalize_first_ascii stripped))"

definition parse_candidate_drafted_rule :: "ustr \<Rightarrow> ustr option" where
  "parse_candidate_drafted_rule description =
     Option.bind (description_section_after description (lit ''Rule:'')) (\<lambda>after.
       let drafted = trim (case split_once_str (lit ''Source evidence:'') after of Some (d, _) \<Rightarrow> d | None \<Rightarrow> after) in
       if drafted = [] then None
       else Some (normalize_legacy_path_prefixed_rule (str_join (lit '' '') (lines drafted))))"

text \<open>
  \<^verbatim>\<open>find_map\<close> takes the first line that has the prefix; a line with nothing after it hides later ones.
\<close>

definition description_field :: "ustr \<Rightarrow> ustr \<Rightarrow> ustr option" where
  "description_field description prefix0 =
     (case List.map_filter (\<lambda>l. strip_prefix (trim l) prefix0) (lines description) of
        [] \<Rightarrow> None
      | v # _ \<Rightarrow> if trim v \<noteq> [] then Some (trim v) else None)"

definition reviewer_excerpt :: "ustr \<Rightarrow> ustr option" where
  "reviewer_excerpt description =
     Option.bind (split_once_str (lit ''Reviewer said:'') description) (\<lambda>(_, rest).
       if trim rest = [] then None else Some (truncate_with_dots (trim rest) 500))"

definition parse_candidate_source_proof :: "ustr \<Rightarrow> CandidateSourceProof option" where
  "parse_candidate_source_proof description =
     (let p = \<lparr>proof_source = description_field description (lit ''Source:''),
               proof_comment_url = description_field description (lit ''Comment:''),
               proof_file = description_field description (lit ''File:''),
               proof_excerpt = reviewer_excerpt description\<rparr> in
      if has_any p then Some p else None)"

definition source_proof_reason :: "CandidateSourceProof \<Rightarrow> ustr" where
  "source_proof_reason p =
     (case (proof_source p, proof_comment_url p, proof_file p) of
        (Some s, _, Some f) \<Rightarrow> lit ''Promoted review-rule candidate from '' @ s @ lit '' on '' @ f
      | (Some s, _, None) \<Rightarrow> lit ''Promoted review-rule candidate from '' @ s
      | (None, Some u, Some f) \<Rightarrow> lit ''Promoted review-rule candidate from '' @ u @ lit '' on '' @ f
      | (None, Some u, None) \<Rightarrow> lit ''Promoted review-rule candidate from '' @ u
      | (None, None, Some f) \<Rightarrow> lit ''Promoted review-rule candidate for '' @ f
      | (None, None, None) \<Rightarrow> lit ''Promoted review-rule candidate with source proof'')"

section \<open>Listing\<close>

definition parse_candidate_file_patterns :: "(ustr \<Rightarrow> ustr list option) \<Rightarrow> ustr option \<Rightarrow> ustr list" where
  "parse_candidate_file_patterns parse_list raw =
     (case raw of
        None \<Rightarrow> []
      | Some r \<Rightarrow> if trim r = [] then [] else (case parse_list (trim r) of Some ps \<Rightarrow> ps | None \<Rightarrow> []))"

definition candidate_actionability_rank :: "(ustr \<Rightarrow> ustr list option) \<Rightarrow> ustr option \<Rightarrow> nat" where
  "candidate_actionability_rank parse_list raw =
     (let patterns = parse_candidate_file_patterns parse_list raw in
      if patterns = [] then 2
      else if list_ex (\<lambda>p. list_ex (\<lambda>needle. str_contains (to_ascii_lowercase p) (lit needle))
             [''.github/'', ''go.mod'', ''go.sum'', ''cargo.toml'', ''cargo.lock'', ''package.json'',
              ''package-lock.json'', ''pnpm-lock.yaml'', ''yarn.lock'', ''dockerfile'']) patterns
      then 0 else 1)"

definition candidate_from_row :: "(ustr \<Rightarrow> ustr list option) \<Rightarrow> skill_row \<Rightarrow> CandidateRule" where
  "candidate_from_row parse_list r =
     \<lparr>cr_id = sk_id r, cr_name = sk_name r, cr_description = sk_description r, cr_origin = sk_origin r,
      cr_source_kind = sk_source_kind r, cr_installed_at = sk_installed_at r, cr_content_hash = sk_content_hash r,
      cr_source_repo = sk_source_repo r,
      cr_file_patterns = parse_candidate_file_patterns parse_list (sk_file_patterns r),
      cr_drafted_rule = parse_candidate_drafted_rule (sk_description r),
      cr_source_proof = parse_candidate_source_proof (sk_description r)\<rparr>"

text \<open>\<^verbatim>\<open>status = 'pending' AND lower(source_repo) = lower(?1)\<close>; SQLite's \<^verbatim>\<open>lower\<close> folds ASCII letters.\<close>

definition is_pending_in :: "ustr option \<Rightarrow> skill_row \<Rightarrow> bool" where
  "is_pending_in repo r \<longleftrightarrow> sk_status r = pending
     \<and> (case repo of None \<Rightarrow> True
        | Some x \<Rightarrow> (case sk_source_repo r of Some y \<Rightarrow> to_ascii_lowercase y = to_ascii_lowercase x | None \<Rightarrow> False))"

definition cmp_newest :: "skill_row \<Rightarrow> skill_row \<Rightarrow> ordering" where
  "cmp_newest a b = cmp_str (sk_installed_at b) (sk_installed_at a)"

definition cmp_candidate_rows :: "(ustr \<Rightarrow> ustr list option) \<Rightarrow> skill_row \<Rightarrow> skill_row \<Rightarrow> ordering" where
  "cmp_candidate_rows parse_list a b =
     then_with (cmp_nat (candidate_actionability_rank parse_list (sk_file_patterns a))
                  (candidate_actionability_rank parse_list (sk_file_patterns b)))
      (then_with (cmp_newest a b) (cmp_str (sk_id a) (sk_id b)))"

definition list_candidates ::
  "(ustr \<Rightarrow> ustr list option) \<Rightarrow> ustr option \<Rightarrow> nat option \<Rightarrow> ('x skill_db_scheme, CandidateRule list) io" where
  "list_candidates parse_list repo limit =
     andthen (sql (\<lambda>d. (sort_by cmp_newest (filter (is_pending_in repo) (skills d)), d))) (\<lambda>rs.
       let out = map (candidate_from_row parse_list) (sort_by (cmp_candidate_rows parse_list) rs) in
       ret (case limit of Some cap \<Rightarrow> take cap out | None \<Rightarrow> out))"

definition count_pending_candidates :: "ustr option \<Rightarrow> ('x skill_db_scheme, nat) io" where
  "count_pending_candidates repo = sql (\<lambda>d. (length (filter (is_pending_in repo) (skills d)), d))"

definition list_candidate_ids :: "('x skill_db_scheme, ustr list) io" where
  "list_candidate_ids = sql (\<lambda>d. (map sk_id (filter (\<lambda>r. sk_status r = pending) (skills d)), d))"

section \<open>Promotion and rejection\<close>

definition find_skill :: "ustr \<Rightarrow> 'x skill_db_scheme \<Rightarrow> skill_row option" where
  "find_skill i d = find (\<lambda>r. sk_id r = i) (skills d)"

definition find_pending :: "ustr \<Rightarrow> 'x skill_db_scheme \<Rightarrow> skill_row option" where
  "find_pending i d = find (\<lambda>r. sk_id r = i \<and> sk_status r = pending) (skills d)"

definition rule_status :: "ustr \<Rightarrow> ('x skill_db_scheme, ustr option) io" where
  "rule_status i = sql (\<lambda>d. (map_option sk_status (find_skill i d), d))"

text \<open>\<^verbatim>\<open>fetch_one\<close> fails when there is no row.\<close>

definition fetch_skill_row_by_id :: "ustr \<Rightarrow> ('x skill_db_scheme, skill_row) io" where
  "fetch_skill_row_by_id i =
     andthen (sql (\<lambda>d. (find_skill i d, d))) (\<lambda>r. case r of
       Some row \<Rightarrow> ret row
     | None \<Rightarrow> fail (lit ''no rows returned by a query that expected to return at least one row''))"

text \<open>\<^verbatim>\<open>as_deref().map(str::trim).filter(|h| !h.is_empty())\<close>.\<close>

definition usable_hash :: "ustr option \<Rightarrow> ustr option" where
  "usable_hash h = (case h of None \<Rightarrow> None | Some x \<Rightarrow> if trim x = [] then None else Some (trim x))"

definition has_hash :: "ustr \<Rightarrow> skill_row \<Rightarrow> bool" where
  "has_hash h r \<longleftrightarrow> sk_status r = active \<and> sk_content_hash r = Some h"

definition cmp_oldest :: "skill_row \<Rightarrow> skill_row \<Rightarrow> ordering" where
  "cmp_oldest a b = then_with (cmp_str (sk_installed_at a) (sk_installed_at b)) (cmp_str (sk_id a) (sk_id b))"

definition active_duplicate :: "ustr \<Rightarrow> 'x skill_db_scheme \<Rightarrow> ustr option" where
  "active_duplicate h d =
     (case sort_by cmp_oldest (filter (has_hash h) (skills d)) of [] \<Rightarrow> None | r # _ \<Rightarrow> Some (sk_id r))"

text \<open>The \<^verbatim>\<open>CASE\<close> of the update: imported local drafts are switched on for all agents.\<close>

definition imported_locally :: "skill_row \<Rightarrow> bool" where
  "imported_locally r \<longleftrightarrow> sk_source r = lit ''local'' \<and> sk_origin r = lit ''pr_review''
     \<and> sk_captured_by_client r \<in> {Some (lit ''import-reviews''), Some (lit ''import-reviews:local-agent'')}"

definition activate :: "skill_row \<Rightarrow> skill_row" where
  "activate r = r\<lparr>sk_status := active,
     sk_enabled_for_codex := (imported_locally r \<or> sk_enabled_for_codex r),
     sk_enabled_for_claude := (imported_locally r \<or> sk_enabled_for_claude r),
     sk_enabled_for_gemini := (imported_locally r \<or> sk_enabled_for_gemini r),
     sk_enabled_for_cursor := (imported_locally r \<or> sk_enabled_for_cursor r)\<rparr>"

definition is_draft :: "ustr \<Rightarrow> skill_row \<Rightarrow> bool" where
  "is_draft i r \<longleftrightarrow> sk_id r = i \<and> sk_status r = pending"

text \<open>The number of rows affected comes with the update.\<close>

definition activate_stmt :: "ustr \<Rightarrow> 'x skill_db_scheme \<Rightarrow> nat \<times> 'x skill_db_scheme" where
  "activate_stmt i d =
     (length (filter (is_draft i) (skills d)), d\<lparr>skills := map (\<lambda>r. if is_draft i r then activate r else r) (skills d)\<rparr>)"

definition event_insert_stmt :: "ustr \<Rightarrow> ustr \<Rightarrow> CandidateSourceProof \<Rightarrow> 'x skill_db_scheme \<Rightarrow> unit \<times> 'x skill_db_scheme" where
  "event_insert_stmt event_id i p d =
     ((), d\<lparr>rule_events := rule_events d @
        [\<lparr>re_id = event_id, re_skill_id = i, re_reason = source_proof_reason p, re_source_proof = p\<rparr>]\<rparr>)"

definition record_candidate_source_proof :: "ustr \<Rightarrow> ustr \<Rightarrow> CandidateSourceProof \<Rightarrow> ('x skill_db_scheme, unit) io" where
  "record_candidate_source_proof event_id i p = sql (event_insert_stmt event_id i p)"

text \<open>What the user is told when there is no such draft.\<close>

definition missing_draft :: "ustr \<Rightarrow> ustr \<Rightarrow> ('x skill_db_scheme, core_error + 'a) io" where
  "missing_draft i already =
     andthen (rule_status i) (\<lambda>existing.
       ret (Inl (if existing = Some active then Validation already
                 else NotFound (lit ''rule draft '' @ [39] @ i @ [39]
                   @ lit '' not found. Run `difflore status` for the next action.''))))"

definition already_active :: "ustr \<Rightarrow> ustr" where
  "already_active i = lit ''rule '' @ [39] @ i @ [39]
     @ lit '' is already active; nothing to promote. Inspect local rules with `difflore status --json`.''"

definition not_a_draft :: "ustr \<Rightarrow> ustr" where
  "not_a_draft i = lit ''rule '' @ [39] @ i @ [39] @ lit '' is already an active rule, not a pending rule draft.''"

definition duplicate_error :: "ustr \<Rightarrow> ustr \<Rightarrow> core_error" where
  "duplicate_error i active_id = Validation (lit ''rule draft '' @ [39] @ i @ [39]
     @ lit '' duplicates active rule '' @ [39] @ active_id @ [39]
     @ lit ''. Inspect both with `difflore rules show` before approving.'')"

text \<open>The transaction of \<^verbatim>\<open>promote_candidate\<close>; no row affected asks for the rollback.\<close>

definition promote_tx :: "ustr \<Rightarrow> ustr \<Rightarrow> CandidateSourceProof option \<Rightarrow> ('x skill_db_scheme, skill_row option) io" where
  "promote_tx event_id i proof_of_source = transaction
     (andthen (sql (activate_stmt i)) (\<lambda>affected.
        if affected = 0 then ret None
        else andthen (case proof_of_source of
               None \<Rightarrow> ret () | Some p \<Rightarrow> record_candidate_source_proof event_id i p) (\<lambda>_.
             andthen (fetch_skill_row_by_id i) (\<lambda>row. ret (Some row)))))"

definition promote_candidate :: "ustr \<Rightarrow> ustr \<Rightarrow> ('x skill_db_scheme, core_error + skill_row) io" where
  "promote_candidate event_id i =
     andthen (sql (\<lambda>d. (find_pending i d, d))) (\<lambda>candidate.
       case candidate of
         None \<Rightarrow> missing_draft i (already_active i)
       | Some row \<Rightarrow>
           andthen (case usable_hash (sk_content_hash row) of
                      None \<Rightarrow> ret None
                    | Some h \<Rightarrow> sql (\<lambda>d. (active_duplicate h d, d))) (\<lambda>dup.
             case dup of
               Some active_id \<Rightarrow> ret (Inl (duplicate_error i active_id))
             | None \<Rightarrow>
                 andthen (promote_tx event_id i (parse_candidate_source_proof (sk_description row))) (\<lambda>r.
                   case r of
                     None \<Rightarrow> missing_draft i (already_active i)
                   | Some skill \<Rightarrow> ret (Inr skill))))"

text \<open>\<^verbatim>\<open>INSERT OR REPLACE\<close> on the primary key.\<close>

definition tombstone_stmt :: "ustr \<Rightarrow> ustr option \<Rightarrow> ustr option \<Rightarrow> 'x skill_db_scheme \<Rightarrow> unit \<times> 'x skill_db_scheme" where
  "tombstone_stmt h repo url d = ((), d\<lparr>rejected_signatures :=
     filter (\<lambda>t. rj_content_hash t \<noteq> h) (rejected_signatures d) @
       [\<lparr>rj_content_hash = h, rj_source_repo = repo, rj_comment_url = url,
         rj_reason = lit ''rejected via reject_candidate''\<rparr>]\<rparr>)"

definition delete_draft_stmt :: "ustr \<Rightarrow> 'x skill_db_scheme \<Rightarrow> unit \<times> 'x skill_db_scheme" where
  "delete_draft_stmt i d = ((), d\<lparr>skills := filter (\<lambda>r. \<not> is_draft i r) (skills d)\<rparr>)"

definition reject_candidate :: "ustr \<Rightarrow> ('x skill_db_scheme, core_error + unit) io" where
  "reject_candidate i =
     andthen (transaction
       (andthen (sql (\<lambda>d. (find_pending i d, d))) (\<lambda>candidate.
         case candidate of
           None \<Rightarrow> ret None
         | Some row \<Rightarrow>
             andthen (case usable_hash (sk_content_hash row) of
                        None \<Rightarrow> ret ()
                      | Some h \<Rightarrow>
                          (let p = parse_candidate_source_proof (sk_description row) in
                           sql (tombstone_stmt h (Option.bind p proof_source) (Option.bind p proof_comment_url)))) (\<lambda>_.
             andthen (sql (delete_draft_stmt i)) (\<lambda>_. ret (Some ())))))) (\<lambda>r.
       case r of
         None \<Rightarrow> missing_draft i (not_a_draft i)
       | Some _ \<Rightarrow> ret (Inr ()))"

section \<open>The queue stays consistent\<close>

lemma statuses [simp]: "pending \<noteq> active" "active \<noteq> pending"
  by (simp_all add: pending_def active_def lit_def)

lemma activate_frame [simp]:
  "sk_id (activate r) = sk_id r" "sk_status (activate r) = active" "sk_content_hash (activate r) = sk_content_hash r"
  by (simp_all add: activate_def)

lemma find_skill_Some: "find_skill i d = Some r \<Longrightarrow> r \<in> set (skills d) \<and> sk_id r = i"
  by (auto simp: find_skill_def find_Some_iff)

lemma find_skill_None: "find_skill i d = None \<longleftrightarrow> (\<forall>r \<in> set (skills d). sk_id r \<noteq> i)"
  by (auto simp: find_skill_def find_None_iff)

lemma find_pending_Some: "find_pending i d = Some r \<Longrightarrow> r \<in> set (skills d) \<and> is_draft i r"
  by (auto simp: find_pending_def find_Some_iff is_draft_def)

lemma find_pending_None: "find_pending i d = None \<longleftrightarrow> (\<forall>r \<in> set (skills d). \<not> is_draft i r)"
  by (auto simp: find_pending_def find_None_iff is_draft_def)

lemma active_duplicate_None: "active_duplicate h d = None \<longleftrightarrow> (\<forall>r \<in> set (skills d). \<not> has_hash h r)"
proof -
  have "sort_by cmp_oldest (filter (has_hash h) (skills d)) = [] \<longleftrightarrow> filter (has_hash h) (skills d) = []"
    by (metis length_0_conv length_sort_by)
  then show ?thesis by (auto simp: active_duplicate_def filter_empty_conv split: list.splits)
qed

text \<open>Identifiers are the primary key.\<close>

definition keyed :: "'x skill_db_scheme \<Rightarrow> bool" where
  "keyed d \<longleftrightarrow> distinct (map sk_id (skills d))"

lemma keyed_eq: "keyed d \<Longrightarrow> r \<in> set (skills d) \<Longrightarrow> s \<in> set (skills d) \<Longrightarrow> sk_id r = sk_id s \<Longrightarrow> r = s"
  by (auto simp: keyed_def distinct_map inj_on_def)

lemma keyed_draft:
  assumes "keyed d" "r \<in> set (skills d)" "is_draft i r"
  shows "\<forall>s \<in> set (skills d). is_draft i s \<longleftrightarrow> sk_id s = i"
  using keyed_eq [OF assms(1) _ assms(2)] assms(3) by (auto simp: is_draft_def)

definition activated :: "ustr \<Rightarrow> 'x skill_db_scheme \<Rightarrow> skill_row list" where
  "activated i d = map (\<lambda>r. if sk_id r = i then activate r else r) (skills d)"

lemma activate_stmt_draft:
  assumes "keyed d" "r \<in> set (skills d)" "is_draft i r"
  shows "fst (activate_stmt i d) \<noteq> 0" "skills (snd (activate_stmt i d)) = activated i d"
    "rejected_signatures (snd (activate_stmt i d)) = rejected_signatures d"
    "find_skill i (snd (activate_stmt i d)) = Some (activate r)"
proof -
  show "fst (activate_stmt i d) \<noteq> 0"
    using assms by (auto simp: activate_stmt_def filter_empty_conv)
  show skills: "skills (snd (activate_stmt i d)) = activated i d"
    using keyed_draft [OF assms] by (simp add: activate_stmt_def activated_def)
  show "rejected_signatures (snd (activate_stmt i d)) = rejected_signatures d" by (simp add: activate_stmt_def)
  have "find_skill i (snd (activate_stmt i d)) \<noteq> None"
  proof -
    have "activate r \<in> set (activated i d)"
      using assms(2,3) by (force simp: activated_def is_draft_def)
    with assms(3) show ?thesis by (auto simp: find_skill_None skills is_draft_def intro!: bexI [of _ "activate r"])
  qed
  then obtain s where s: "find_skill i (snd (activate_stmt i d)) = Some s" by blast
  from find_skill_Some [OF this] have "s \<in> set (activated i d)" "sk_id s = i" by (simp_all add: skills)
  then obtain s0 where "s0 \<in> set (skills d)" "sk_id s0 = i" "s = activate s0" by (auto simp: activated_def split: if_splits)
  with keyed_eq [OF assms(1) _ assms(2)] assms(3) s show "find_skill i (snd (activate_stmt i d)) = Some (activate r)"
    by (auto simp: is_draft_def)
qed

lemma missing_draft_outcome:
  assumes "\<And>e. Q (Inl e) d"
    and "\<And>e. (case e of NotFound _ \<Rightarrow> map_option sk_status (find_skill i d) \<noteq> Some active
               | Validation _ \<Rightarrow> map_option sk_status (find_skill i d) = Some active) \<Longrightarrow> Q (Inr (Inl e)) d"
  shows "ends_in (missing_draft i already) d Q"
  unfolding missing_draft_def rule_status_def
  by (intro ends_intros) (auto intro!: ends_intros assms)

lemma promote_tx_outcome:
  assumes "keyed d" "r \<in> set (skills d)" "is_draft i r"
  shows "ends_in (promote_tx ev i p) d (\<lambda>res d'. case res of
      Inl _ \<Rightarrow> d' = d | Inr None \<Rightarrow> False
    | Inr (Some row) \<Rightarrow> row = activate r \<and> skills d' = activated i d \<and> rejected_signatures d' = rejected_signatures d)"
proof -
  note facts = activate_stmt_draft [OF assms]
  have find: "find_skill i (d'\<lparr>rule_events := es\<rparr>) = find_skill i d'" for d' es by (simp add: find_skill_def)
  show ?thesis
    unfolding promote_tx_def record_candidate_source_proof_def fetch_skill_row_by_id_def
    by (intro ends_intros) (auto simp: facts find event_insert_stmt_def intro!: ends_intros split: option.splits)
qed

text \<open>What a promotion leaves behind, and when its refusals are justified.\<close>

definition promoted_ok :: "ustr \<Rightarrow> 'x skill_db_scheme \<Rightarrow> skill_row \<Rightarrow> 'x skill_db_scheme \<Rightarrow> bool" where
  "promoted_ok i d row d' \<longleftrightarrow>
     (\<exists>draft \<in> set (skills d). is_draft i draft \<and> row = activate draft
        \<and> (\<forall>h. usable_hash (sk_content_hash draft) = Some h \<longrightarrow> (\<forall>a \<in> set (skills d). \<not> has_hash h a)))
     \<and> skills d' = activated i d \<and> rejected_signatures d' = rejected_signatures d"

definition refused_ok :: "ustr \<Rightarrow> 'x skill_db_scheme \<Rightarrow> core_error \<Rightarrow> bool" where
  "refused_ok i d e = (case e of
     NotFound _ \<Rightarrow> (\<forall>r \<in> set (skills d). sk_id r = i \<longrightarrow> sk_status r \<notin> {pending, active})
   | Validation _ \<Rightarrow> (\<exists>r \<in> set (skills d). sk_id r = i \<and> (sk_status r = active
        \<or> (\<exists>h. usable_hash (sk_content_hash r) = Some h \<and> (\<exists>a \<in> set (skills d). has_hash h a)))))"

lemma refused_missing:
  assumes "keyed d" "\<forall>r \<in> set (skills d). \<not> is_draft i r"
    and "case e of NotFound _ \<Rightarrow> map_option sk_status (find_skill i d) \<noteq> Some active
               | Validation _ \<Rightarrow> map_option sk_status (find_skill i d) = Some active"
  shows "refused_ok i d e"
proof (cases "find_skill i d")
  case None
  then have "\<forall>r \<in> set (skills d). sk_id r \<noteq> i" by (simp add: find_skill_None)
  with None assms(3) show ?thesis by (cases e) (simp_all add: refused_ok_def)
next
  case (Some r)
  then have r: "r \<in> set (skills d)" "sk_id r = i" using find_skill_Some by auto
  have only: "s = r" if "s \<in> set (skills d)" "sk_id s = i" for s
    using keyed_eq [OF assms(1) that(1) r(1)] that r by simp
  have "sk_status r \<noteq> pending" using assms(2) r by (auto simp: is_draft_def)
  show ?thesis
  proof (cases e)
    case (Validation m)
    with assms(3) Some have "sk_status r = active" by simp
    with r Validation show ?thesis by (auto simp: refused_ok_def)
  next
    case (NotFound m)
    with assms(3) Some have "sk_status r \<noteq> active" by simp
    with only \<open>sk_status r \<noteq> pending\<close> have "\<forall>s \<in> set (skills d). sk_id s = i \<longrightarrow> sk_status s \<notin> {pending, active}"
      by blast
    with NotFound show ?thesis by (simp add: refused_ok_def)
  qed
qed

definition promotion_outcome :: "ustr \<Rightarrow> 'x skill_db_scheme \<Rightarrow> ustr + core_error + skill_row \<Rightarrow> 'x skill_db_scheme \<Rightarrow> bool" where
  "promotion_outcome i d r d' \<longleftrightarrow> (case r of
      Inr (Inr row) \<Rightarrow> promoted_ok i d row d'
    | Inr (Inl e) \<Rightarrow> d' = d \<and> refused_ok i d e
    | Inl _ \<Rightarrow> d' = d)"

lemma promote_draft_outcome:
  assumes "keyed d" "find_pending i d = Some draft"
  shows "ends_in (promote_candidate ev i) d (promotion_outcome i d)"
proof -
  have draft: "draft \<in> set (skills d)" "is_draft i draft" using assms(2) find_pending_Some by auto
  note outcome = promotion_outcome_def [of i d]
  have tx: "ends_in (promote_tx ev i p) d (\<lambda>r d'. case r of Inl e \<Rightarrow> promotion_outcome i d (Inl e) d'
      | Inr a \<Rightarrow> ends_in (case a of None \<Rightarrow> missing_draft i already | Some skill \<Rightarrow> ret (Inr skill)) d' (promotion_outcome i d))"
    if "\<forall>h. usable_hash (sk_content_hash draft) = Some h \<longrightarrow> (\<forall>a \<in> set (skills d). \<not> has_hash h a)" for p already
    by (rule ends_mono [OF promote_tx_outcome [OF assms(1) draft]])
      (use draft that in \<open>auto simp: outcome promoted_ok_def intro!: ends_intros split: sum.splits option.splits\<close>)
  show ?thesis
  proof (cases "usable_hash (sk_content_hash draft)")
    case None
    then show ?thesis
      unfolding promote_candidate_def
      by (intro ends_intros) (auto simp: assms(2) outcome intro!: ends_intros tx)
  next
    case (Some h)
    show ?thesis
    proof (cases "active_duplicate h d")
      case None
      then have "\<forall>a \<in> set (skills d). \<not> has_hash h a" by (simp add: active_duplicate_None)
      with None Some show ?thesis
        unfolding promote_candidate_def
        by (intro ends_intros) (auto simp: assms(2) outcome intro!: ends_intros tx)
    next
      case (Some a)
      then have "refused_ok i d (duplicate_error i a)"
        using draft \<open>usable_hash (sk_content_hash draft) = Some h\<close> active_duplicate_None [of h d]
        by (auto simp: refused_ok_def duplicate_error_def is_draft_def)
      then show ?thesis
        unfolding promote_candidate_def
        by (intro ends_intros)
          (auto simp: assms(2) \<open>usable_hash (sk_content_hash draft) = Some h\<close> Some outcome intro!: ends_intros)
    qed
  qed
qed

lemma promotion_ends:
  assumes "keyed d"
  shows "ends_in (promote_candidate ev i) d (promotion_outcome i d)"
proof (cases "find_pending i d")
  case None
  then have no: "\<forall>r \<in> set (skills d). \<not> is_draft i r" by (simp add: find_pending_None)
  show ?thesis
    unfolding promote_candidate_def
    by (intro ends_intros)
      (auto simp: None promotion_outcome_def intro!: missing_draft_outcome refused_missing [OF assms no])
next
  case (Some draft)
  with assms show ?thesis by (rule promote_draft_outcome)
qed

text \<open>
  C8. What a promotion does. It succeeds only for a draft whose hash no active rule has, and
  then exactly that row becomes active; every other outcome leaves the table as it was. The user is told that the draft is
  not there only when there is neither a draft nor an active rule of that name.
\<close>

theorem promotion_exact:
  assumes "keyed (db w)" "promote_candidate ev i w = (r, w')"
  shows "case r of
      Inr (Inr row) \<Rightarrow> promoted_ok i (db w) row (db w')
    | Inr (Inl e) \<Rightarrow> db w' = db w \<and> refused_ok i (db w) e
    | Inl _ \<Rightarrow> db w' = db w"
  using endsD [OF promotion_ends [OF assms(1)] assms(2)] by (simp only: promotion_outcome_def)

definition rejected_ok :: "ustr \<Rightarrow> 'x skill_db_scheme \<Rightarrow> 'x skill_db_scheme \<Rightarrow> bool" where
  "rejected_ok i d d' \<longleftrightarrow>
     (\<exists>draft \<in> set (skills d). is_draft i draft
        \<and> (\<forall>h. usable_hash (sk_content_hash draft) = Some h \<longrightarrow> h \<in> rj_content_hash ` set (rejected_signatures d')))
     \<and> skills d' = filter (\<lambda>r. sk_id r \<noteq> i) (skills d)
     \<and> rj_content_hash ` set (rejected_signatures d) \<subseteq> rj_content_hash ` set (rejected_signatures d')"

lemma delete_draft:
  assumes "keyed d" "r \<in> set (skills d)" "is_draft i r" "skills d' = skills d"
  shows "skills (snd (delete_draft_stmt i d')) = filter (\<lambda>r. sk_id r \<noteq> i) (skills d)"
  using keyed_draft [OF assms(1-3)] assms(4) by (auto simp: delete_draft_stmt_def intro: filter_cong)

lemma tombstone_stmt_hashes:
  "rj_content_hash ` set (rejected_signatures (snd (tombstone_stmt h a b d))) = insert h (rj_content_hash ` set (rejected_signatures d))"
  by (auto simp: tombstone_stmt_def)

lemma delete_draft_rejected [simp]: "rejected_signatures (snd (delete_draft_stmt i d)) = rejected_signatures d"
  by (simp add: delete_draft_stmt_def)

lemma tombstone_skills [simp]: "skills (snd (tombstone_stmt h a b d)) = skills d"
  by (simp add: tombstone_stmt_def)

text \<open>
  What a rejection does: exactly the draft goes, its hash is among the tombstones afterwards, and no tombstone is
  lost. Every other outcome changes nothing, an active rule is never deleted.
\<close>

theorem rejection_exact:
  assumes "keyed (db w)" "reject_candidate i w = (r, w')"
  shows "case r of
      Inr (Inr _) \<Rightarrow> rejected_ok i (db w) (db w')
    | Inr (Inl e) \<Rightarrow> db w' = db w \<and> refused_ok i (db w) e
    | Inl _ \<Rightarrow> db w' = db w"
proof -
  let ?d = "db w"
  let ?Q = "\<lambda>r d'. case r of Inr (Inr _) \<Rightarrow> rejected_ok i ?d d'
    | Inr (Inl e) \<Rightarrow> d' = ?d \<and> refused_ok i ?d e | Inl _ \<Rightarrow> d' = ?d"
  have "ends_in (reject_candidate i) ?d ?Q"
  proof (cases "find_pending i ?d")
    case None
    then have no: "\<forall>r \<in> set (skills ?d). \<not> is_draft i r" by (simp add: find_pending_None)
    show ?thesis
      unfolding reject_candidate_def
      by (intro ends_intros) (auto simp: None intro!: ends_intros missing_draft_outcome refused_missing [OF assms(1) no])
  next
    case (Some draft)
    then have draft: "draft \<in> set (skills ?d)" "is_draft i draft" using find_pending_Some by auto
    show ?thesis
    proof (cases "usable_hash (sk_content_hash draft)")
      case None
      show ?thesis
        unfolding reject_candidate_def
        by (intro ends_intros)
          (use draft in \<open>auto simp: Some None rejected_ok_def delete_draft [OF assms(1) draft] intro!: ends_intros bexI [of _ draft]\<close>)
    next
      case (Some h)
      show ?thesis
        unfolding reject_candidate_def
        by (intro ends_intros)
          (use draft in \<open>auto simp: \<open>find_pending i ?d = Some draft\<close> Some Let_def rejected_ok_def tombstone_stmt_hashes
             delete_draft [OF assms(1) draft] intro!: ends_intros bexI [of _ draft]\<close>)
    qed
  qed
  from endsD [OF this assms(2)] show ?thesis .
qed

text \<open>
  No two active rules have the same content. Hashes are written without blanks around them,
  which is what the check for duplicates relies on.
\<close>

definition queue_wf :: "'x skill_db_scheme \<Rightarrow> bool" where
  "queue_wf d \<longleftrightarrow> keyed d
     \<and> (\<forall>r \<in> set (skills d). \<forall>h. sk_content_hash r = Some h \<longrightarrow> trim h = h)
     \<and> (\<forall>a \<in> set (skills d). \<forall>b \<in> set (skills d). sk_status a = active \<and> sk_status b = active
          \<and> usable_hash (sk_content_hash a) \<noteq> None \<and> sk_content_hash a = sk_content_hash b \<longrightarrow> a = b)"

lemma usable_trimmed: "h = Some x \<Longrightarrow> trim x = x \<Longrightarrow> usable_hash h = (if x = [] then None else Some x)"
  by (simp add: usable_hash_def)

lemma queue_wf_activated:
  assumes wf: "queue_wf d" and draft: "draft \<in> set (skills d)" "is_draft i draft"
    and free: "\<forall>h. usable_hash (sk_content_hash draft) = Some h \<longrightarrow> (\<forall>a \<in> set (skills d). \<not> has_hash h a)"
    and skills: "skills d' = activated i d"
  shows "queue_wf d'"
proof -
  have keyed: "keyed d" using wf by (simp add: queue_wf_def)
  have only: "r = draft" if "r \<in> set (skills d)" "sk_id r = i" for r
    using keyed_eq [OF keyed that(1) draft(1)] that draft(2) by (simp add: is_draft_def)
  have "map sk_id (activated i d) = map sk_id (skills d)" by (simp add: activated_def)
  with keyed have "keyed d'" by (simp add: keyed_def skills)
  moreover have "\<forall>r \<in> set (skills d'). \<forall>h. sk_content_hash r = Some h \<longrightarrow> trim h = h"
    using wf by (auto simp: queue_wf_def skills activated_def)
  moreover have "a = b" if ab: "a \<in> set (skills d')" "b \<in> set (skills d')" "sk_status a = active" "sk_status b = active"
    "usable_hash (sk_content_hash a) \<noteq> None" "sk_content_hash a = sk_content_hash b" for a b
  proof -
    obtain a0 where a0: "a0 \<in> set (skills d)" "a = (if sk_id a0 = i then activate a0 else a0)"
      using ab(1) by (auto simp: skills activated_def)
    obtain b0 where b0: "b0 \<in> set (skills d)" "b = (if sk_id b0 = i then activate b0 else b0)"
      using ab(2) by (auto simp: skills activated_def)
    have hash: "sk_content_hash a0 = sk_content_hash a" "sk_content_hash b0 = sk_content_hash b"
      using a0 b0 by simp_all
    obtain h where h: "sk_content_hash a0 = Some h" "trim h = h" "usable_hash (Some h) = Some h"
      using ab(5) wf a0(1) hash by (auto simp: queue_wf_def usable_hash_def split: option.splits if_splits)
    have clash: False if "x \<in> set (skills d)" "sk_status x = active" "sk_content_hash x = Some h" "sk_content_hash draft = Some h" for x
      using free h that by (auto simp: has_hash_def)
    have hb: "sk_content_hash b0 = Some h" using h(1) hash ab(6) by simp
    consider "sk_id a0 = i" "sk_id b0 = i" | "sk_id a0 = i" "sk_id b0 \<noteq> i" | "sk_id a0 \<noteq> i" "sk_id b0 = i" | "sk_id a0 \<noteq> i" "sk_id b0 \<noteq> i" by blast
    then show "a = b"
    proof cases
      case 1
      with only [OF a0(1)] only [OF b0(1)] have "a0 = b0" by metis
      with a0(2) b0(2) show ?thesis by simp
    next
      case 2
      with b0(2) ab(4) have "sk_status b0 = active" by simp
      with clash [OF b0(1) _ hb] only [OF a0(1) 2(1)] h(1) show ?thesis by metis
    next
      case 3
      with a0(2) ab(3) have "sk_status a0 = active" by simp
      with clash [OF a0(1) _ h(1)] only [OF b0(1) 3(2)] hb show ?thesis by metis
    next
      case 4
      with a0(2) b0(2) have "a = a0" "b = b0" by simp_all
      with a0(1) b0(1) ab wf show ?thesis unfolding queue_wf_def by blast
    qed
  qed
  ultimately show ?thesis unfolding queue_wf_def by blast
qed

lemma queue_wf_subset:
  assumes "queue_wf d" "skills d' = filter P (skills d)"
  shows "queue_wf d'"
proof -
  have "distinct (map sk_id (filter P (skills d)))"
    using assms(1) by (simp add: queue_wf_def keyed_def distinct_map_filter)
  then have "keyed d'" by (simp add: keyed_def assms(2))
  moreover have "set (skills d') \<subseteq> set (skills d)" using assms(2) by auto
  ultimately show ?thesis using assms(1) unfolding queue_wf_def by blast
qed

text \<open>The operations of the review queue.\<close>

datatype queue_op = Promote ustr ustr | Reject ustr

fun run_op :: "queue_op \<Rightarrow> skill_db world \<Rightarrow> skill_db world" where
  "run_op (Promote event_id i) w = snd (promote_candidate event_id i w)"
| "run_op (Reject i) w = snd (reject_candidate i w)"

text \<open>
  C24. Promoting and rejecting drafts, in whatever order and however many statements fail, keeps the queue consistent: every
  identifier once, and no two active rules with the same content.
\<close>

theorem draft_queue_stays_consistent:
  assumes "queue_wf (db w)"
  shows "queue_wf (db (fold run_op ops w))"
  using assms
proof (induction ops arbitrary: w)
  case (Cons op ops)
  have keyed: "keyed (db w)" using Cons.prems by (simp add: queue_wf_def)
  have "queue_wf (db (run_op op w))"
  proof (cases op)
    case (Promote ev i)
    obtain r w' where r: "promote_candidate ev i w = (r, w')" by fastforce
    from endsD [OF promotion_ends [OF keyed] r] Cons.prems have "queue_wf (db w')"
      using queue_wf_activated [OF Cons.prems] by (auto simp: promotion_outcome_def promoted_ok_def split: sum.splits)
    with Promote r show ?thesis by simp
  next
    case (Reject i)
    obtain r w' where r: "reject_candidate i w = (r, w')" by fastforce
    from rejection_exact [OF keyed r] Cons.prems have "queue_wf (db w')"
      using queue_wf_subset [OF Cons.prems] by (auto simp: rejected_ok_def split: sum.splits)
    with Reject r show ?thesis by simp
  qed
  from Cons.IH [OF this] show ?case by simp
qed simp

text \<open>Two drafts of the same text.\<close>

definition demo_draft :: "string \<Rightarrow> skill_row" where
  "demo_draft i = \<lparr>sk_id = lit i, sk_name = lit ''Use serde'', sk_source = lit ''local'', sk_description = lit ''Rule: Use serde'',
     sk_status = pending, sk_origin = lit ''pr_review'', sk_source_kind = lit ''human'', sk_source_repo = None,
     sk_file_patterns = None, sk_content_hash = Some (lit ''h1''), sk_captured_by_client = Some (lit ''import-reviews''),
     sk_installed_at = [], sk_updated_at = None, sk_enabled_for_codex = False, sk_enabled_for_claude = False,
     sk_enabled_for_gemini = False, sk_enabled_for_cursor = False\<rparr>"

definition demo_drafts :: skill_db where
  "demo_drafts = \<lparr>schedule = None, events = [], skills = [demo_draft ''a'', demo_draft ''b''], rejected_signatures = [], rule_events = []\<rparr>"

definition demo_drafts_world :: "skill_db world" where
  "demo_drafts_world = \<lparr>db = demo_drafts, clock = (\<lambda>_. 0), clock_reads = 0, sql_fault = (\<lambda>_. None), sql_calls = 0\<rparr>"

lemma demo_drafts_wf: "queue_wf demo_drafts"
proof -
  have h: "trim (lit ''h1'') = lit ''h1''" by code_simp
  have i: "lit ''a'' \<noteq> lit ''b''" by code_simp
  show ?thesis using h i by (auto simp: queue_wf_def keyed_def demo_drafts_def demo_draft_def)
qed

theorem promotion_exact_witness:
  "\<exists>row. promoted_ok (lit ''a'') demo_drafts row (db (snd (promote_candidate [] (lit ''a'') demo_drafts_world)))"
proof -
  let ?r = "promote_candidate [] (lit ''a'') demo_drafts_world"
  have k: "keyed (db demo_drafts_world)" using demo_drafts_wf by (simp add: queue_wf_def demo_drafts_world_def)
  have "(case fst ?r of Inr (Inr _) \<Rightarrow> True | _ \<Rightarrow> False)" by code_simp
  then obtain row where "?r = (Inr (Inr row), snd ?r)" by (cases ?r) (auto split: sum.splits)
  from promotion_exact [OF k this] show ?thesis by (auto simp: demo_drafts_world_def)
qed

theorem rejection_exact_witness:
  "rejected_ok (lit ''a'') demo_drafts (db (snd (reject_candidate (lit ''a'') demo_drafts_world)))"
proof -
  let ?r = "reject_candidate (lit ''a'') demo_drafts_world"
  have k: "keyed (db demo_drafts_world)" using demo_drafts_wf by (simp add: queue_wf_def demo_drafts_world_def)
  have "(case fst ?r of Inr (Inr _) \<Rightarrow> True | _ \<Rightarrow> False)" by code_simp
  then obtain u where "?r = (Inr (Inr u), snd ?r)" by (cases ?r) (auto split: sum.splits)
  from rejection_exact [OF k this] show ?thesis by (auto simp: demo_drafts_world_def)
qed

theorem draft_queue_stays_consistent_witness:
  "queue_wf (db (fold run_op [Promote [] (lit ''a''), Promote [] (lit ''b''), Reject (lit ''b'')] demo_drafts_world))"
  by (rule draft_queue_stays_consistent) (simp add: demo_drafts_world_def demo_drafts_wf)

text \<open>
  The check for duplicates runs before the transaction. Two processes that promote two drafts of the same text
  can both find no active rule, and then both activate theirs.
\<close>

theorem concurrent_promotions_duplicate:
  "find_pending (lit ''a'') demo_drafts \<noteq> None \<and> find_pending (lit ''b'') demo_drafts \<noteq> None
    \<and> active_duplicate (lit ''h1'') demo_drafts = None
    \<and> length (filter (has_hash (lit ''h1'')) (skills (snd (activate_stmt (lit ''b'') (snd (activate_stmt (lit ''a'') demo_drafts)))))) = 2"
  by code_simp

end
