(* ===== verification/Memory_Conflicts.thy ===== *)
theory Memory_Conflicts
  imports Memory_Classify Skill_Candidates
begin

text \<open>
  Conflicts between drafts and active rules as a table that people audit
  (\<^verbatim>\<open>memory_autopilot/conflicts.rs\<close>): recording what the deterministic check found, and the
  second opinion of a local model on the rows nobody has decided yet. The hash, the JSON printer and
  parser, and the model call are arguments.
\<close>

section \<open>Data\<close>

record PlannedGroup =
  pg_digest :: MemoryCandidateGroup
  pg_candidates :: "PendingMemory list"
  pg_conflict :: "ActiveConflict option"

text \<open>A row of \<^verbatim>\<open>memory_conflicts\<close>; \<^verbatim>\<open>datetime('now')\<close> counts seconds.\<close>

record conflict_row =
  mc_evidence_hash :: ustr
  mc_group_id :: ustr
  mc_candidate_rule_id :: "ustr option"
  mc_active_rule_id :: ustr
  mc_source_repo :: "ustr option"
  mc_overlap_basis :: ustr
  mc_candidate_title :: ustr
  mc_candidate_body :: ustr
  mc_active_title :: ustr
  mc_active_body :: ustr
  mc_candidate_patterns_json :: ustr
  mc_active_patterns_json :: ustr
  mc_llm_rationale :: "ustr option"
  mc_llm_confidence :: "rat option"
  mc_status :: ustr
  mc_created_at :: int
  mc_updated_at :: int

record conflict_db = skill_db +
  conflicts :: "conflict_row list"

definition datetime_now :: "int \<Rightarrow> int" where
  "datetime_now now = now div 1000"

definition MAX_JUDGE_CONFLICTS :: nat where "MAX_JUDGE_CONFLICTS = 25"
definition JUDGE_DISMISS_MIN_CONFIDENCE :: rat where "JUDGE_DISMISS_MIN_CONFIDENCE = f32 (80 / 100)"

definition detected :: ustr where "detected = lit ''detected''"
definition confirmed_status :: ustr where "confirmed_status = lit ''confirmed''"
definition dismissed :: ustr where "dismissed = lit ''dismissed''"

datatype ConflictVerdict = Contradicts | Compatible

record JudgeDecision =
  jd_conflict_id :: ustr
  jd_verdict :: ConflictVerdict
  jd_confidence :: rat
  jd_rationale :: "ustr option"

record AiJudgeDecision =
  aj_conflict_id :: ustr
  aj_verdict :: ustr
  aj_confidence :: f32_value
  aj_rationale :: "ustr option"

record MemoryConflictRecord =
  cf_evidence_hash :: ustr
  cf_candidate_group_id :: ustr
  cf_candidate_rule_id :: "ustr option"
  cf_active_rule_id :: ustr
  cf_source_repo :: "ustr option"
  cf_overlap_basis :: ustr
  cf_candidate_title :: ustr
  cf_candidate_body :: ustr
  cf_active_title :: ustr
  cf_active_body :: ustr
  cf_candidate_patterns :: "ustr list"
  cf_active_patterns :: "ustr list"
  cf_llm_rationale :: "ustr option"
  cf_llm_confidence :: "rat option"
  cf_status :: ustr
  cf_created_at :: int
  cf_updated_at :: int

section \<open>Recording\<close>

definition conflict_evidence_hash ::
  "(ustr \<Rightarrow> ustr) \<Rightarrow> ustr option \<Rightarrow> ustr option \<Rightarrow> ActiveConflict \<Rightarrow> ustr list \<Rightarrow> ustr" where
  "conflict_evidence_hash sha source candidate_rule_id c candidate_patterns =
     sha (trim (case source of Some r \<Rightarrow> r | None \<Rightarrow> []) @ [0]
       @ trim (case candidate_rule_id of Some i \<Rightarrow> i | None \<Rightarrow> []) @ [0]
       @ trim (ac_rule_id c) @ [0] @ trim (ac_basis c) @ [0]
       @ pattern_key candidate_patterns @ [0] @ pattern_key (ac_active_patterns c))"

definition conflict_candidate_rule_id :: "PendingMemory list \<Rightarrow> ustr option" where
  "conflict_candidate_rule_id candidates =
     map_option (\<lambda>c. case pm_kind c of Draft i \<Rightarrow> i | Session h \<Rightarrow> h) (primary_candidate candidates)"

definition ensure_memory_conflicts_table :: "('x conflict_db_scheme, unit) io" where
  "ensure_memory_conflicts_table = skip_result (sql nothing_stmt) (sql nothing_stmt)"

text \<open>The columns of a new row; the others have the defaults of the table.\<close>

definition conflict_row_of ::
  "(ustr \<Rightarrow> ustr) \<Rightarrow> (ustr list \<Rightarrow> ustr) \<Rightarrow> PlannedGroup \<Rightarrow> ActiveConflict \<Rightarrow> int \<Rightarrow> conflict_row" where
  "conflict_row_of sha list_json g c now =
     (let candidate = primary_candidate (pg_candidates g); d = pg_digest g;
          rule_id = conflict_candidate_rule_id (pg_candidates g) in
      \<lparr>mc_evidence_hash = conflict_evidence_hash sha (mg_source_repo d) rule_id c (mg_file_patterns d),
       mc_group_id = mg_group_id d, mc_candidate_rule_id = rule_id, mc_active_rule_id = ac_rule_id c,
       mc_source_repo = mg_source_repo d, mc_overlap_basis = ac_basis c,
       mc_candidate_title = (case candidate of Some x \<Rightarrow> pm_title x | None \<Rightarrow> mg_title d),
       mc_candidate_body = (case candidate of Some x \<Rightarrow> pm_body x | None \<Rightarrow> mg_sample d),
       mc_active_title = ac_title c, mc_active_body = ac_active_body c,
       mc_candidate_patterns_json = list_json (mg_file_patterns d),
       mc_active_patterns_json = list_json (ac_active_patterns c),
       mc_llm_rationale = None, mc_llm_confidence = None, mc_status = detected,
       mc_created_at = datetime_now now, mc_updated_at = datetime_now now\<rparr>)"

text \<open>\<^verbatim>\<open>ON CONFLICT(evidence_hash) DO UPDATE SET ..\<close>: status, opinion and creation stay.\<close>

definition refresh_row :: "conflict_row \<Rightarrow> int \<Rightarrow> conflict_row \<Rightarrow> conflict_row" where
  "refresh_row new now r = r\<lparr>mc_group_id := mc_group_id new, mc_candidate_rule_id := mc_candidate_rule_id new,
     mc_active_rule_id := mc_active_rule_id new, mc_source_repo := mc_source_repo new,
     mc_overlap_basis := mc_overlap_basis new, mc_candidate_title := mc_candidate_title new,
     mc_candidate_body := mc_candidate_body new, mc_active_title := mc_active_title new,
     mc_active_body := mc_active_body new, mc_candidate_patterns_json := mc_candidate_patterns_json new,
     mc_active_patterns_json := mc_active_patterns_json new, mc_updated_at := datetime_now now\<rparr>"

definition upsert_conflict_stmt :: "(int \<Rightarrow> conflict_row) \<Rightarrow> int \<Rightarrow> 'x conflict_db_scheme \<Rightarrow> unit \<times> 'x conflict_db_scheme" where
  "upsert_conflict_stmt new now d =
     (let n = new now in
      ((), d\<lparr>conflicts :=
        if list_ex (\<lambda>r. mc_evidence_hash r = mc_evidence_hash n) (conflicts d)
        then map (\<lambda>r. if mc_evidence_hash r = mc_evidence_hash n then refresh_row n now r else r) (conflicts d)
        else conflicts d @ [n]\<rparr>))"

definition upsert_memory_conflict ::
  "(ustr \<Rightarrow> ustr) \<Rightarrow> (ustr list \<Rightarrow> ustr) \<Rightarrow> PlannedGroup \<Rightarrow> ActiveConflict \<Rightarrow> ('x conflict_db_scheme, unit) io" where
  "upsert_memory_conflict sha list_json g c = sql_now (upsert_conflict_stmt (conflict_row_of sha list_json g c))"

definition persist_detected_conflicts ::
  "(ustr \<Rightarrow> ustr) \<Rightarrow> (ustr list \<Rightarrow> ustr) \<Rightarrow> PlannedGroup list \<Rightarrow> ('x conflict_db_scheme, unit) io" where
  "persist_detected_conflicts sha list_json groups =
     (let with_conflicts = filter (\<lambda>g. pg_conflict g \<noteq> None) groups in
      if with_conflicts = [] then ret ()
      else skip_result ensure_memory_conflicts_table
        (for_each (\<lambda>g. case pg_conflict g of
            None \<Rightarrow> ret () | Some c \<Rightarrow> upsert_memory_conflict sha list_json g c) with_conflicts))"

section \<open>Reading\<close>

definition DEFAULT_AUTOPILOT_LIMIT :: nat where "DEFAULT_AUTOPILOT_LIMIT = 3"
definition MAX_AUTOPILOT_LIMIT :: nat where "MAX_AUTOPILOT_LIMIT = 25"
definition MAX_PENDING_SCAN :: nat where "MAX_PENDING_SCAN = 1000"

definition normalize_limit :: "nat \<Rightarrow> nat" where
  "normalize_limit limit = (if limit = 0 then DEFAULT_AUTOPILOT_LIMIT else min limit MAX_PENDING_SCAN)"

definition cmp_conflicts :: "conflict_row \<Rightarrow> conflict_row \<Rightarrow> ordering" where
  "cmp_conflicts a b = then_with (cmp_int (mc_updated_at b) (mc_updated_at a)) (cmp_str (mc_evidence_hash a) (mc_evidence_hash b))"

definition parse_string_list :: "(ustr \<Rightarrow> ustr list option) \<Rightarrow> ustr option \<Rightarrow> ustr list" where
  "parse_string_list parse_list raw =
     (case raw of
        None \<Rightarrow> []
      | Some v \<Rightarrow> if trim v = [] then [] else (case parse_list (trim v) of Some xs \<Rightarrow> xs | None \<Rightarrow> []))"

definition conflict_record :: "(ustr \<Rightarrow> ustr list option) \<Rightarrow> conflict_row \<Rightarrow> MemoryConflictRecord" where
  "conflict_record parse_list r =
     \<lparr>cf_evidence_hash = mc_evidence_hash r, cf_candidate_group_id = mc_group_id r,
      cf_candidate_rule_id = mc_candidate_rule_id r, cf_active_rule_id = mc_active_rule_id r,
      cf_source_repo = mc_source_repo r, cf_overlap_basis = mc_overlap_basis r,
      cf_candidate_title = mc_candidate_title r, cf_candidate_body = mc_candidate_body r,
      cf_active_title = mc_active_title r, cf_active_body = mc_active_body r,
      cf_candidate_patterns = parse_string_list parse_list (Some (mc_candidate_patterns_json r)),
      cf_active_patterns = parse_string_list parse_list (Some (mc_active_patterns_json r)),
      cf_llm_rationale = mc_llm_rationale r, cf_llm_confidence = mc_llm_confidence r,
      cf_status = mc_status r, cf_created_at = mc_created_at r, cf_updated_at = mc_updated_at r\<rparr>"

definition load_memory_conflicts ::
  "(ustr \<Rightarrow> ustr list option) \<Rightarrow> nat option \<Rightarrow> ustr option \<Rightarrow> ('x conflict_db_scheme, MemoryConflictRecord list) io" where
  "load_memory_conflicts parse_list limit0 status0 =
     skip_result ensure_memory_conflicts_table
      (let limit = normalize_limit (case limit0 of Some n \<Rightarrow> n | None \<Rightarrow> 50);
           wanted = (case status0 of Some s \<Rightarrow> if trim s = [] then None else Some (trim s) | None \<Rightarrow> None);
           keep = (\<lambda>r. case wanted of None \<Rightarrow> True | Some s \<Rightarrow> mc_status r = s) in
       andthen (sql (\<lambda>d. (take limit (sort_by cmp_conflicts (filter keep (conflicts d))), d))) (\<lambda>rs.
       ret (map (conflict_record parse_list) rs)))"

section \<open>The judge\<close>

definition judge_normalize :: "AiJudgeDecision \<Rightarrow> JudgeDecision option" where
  "judge_normalize v =
     (let s = to_ascii_lowercase (trim (aj_verdict v)) in
      Option.bind (if s = lit ''contradicts'' then Some Contradicts
                   else if s = lit ''compatible'' then Some Compatible else None) (\<lambda>verdict.
        let i = trim (aj_conflict_id v) in
        if i = [] then None
        else Some \<lparr>jd_conflict_id = i, jd_verdict = verdict, jd_confidence = sane_confidence (aj_confidence v),
          jd_rationale = (case aj_rationale v of
             Some r \<Rightarrow> (let t = truncate_with_dots (trim r) 600 in if t = [] then None else Some t) | None \<Rightarrow> None)\<rparr>))"

definition json_opt_str :: "ustr option \<Rightarrow> 'f json" where
  "json_opt_str v = (case v of Some s \<Rightarrow> JString s | None \<Rightarrow> JNull)"

definition judge_payload :: "MemoryConflictRecord \<Rightarrow> 'f json" where
  "judge_payload c = JObject
     [(lit ''conflictId'', JString (cf_evidence_hash c)), (lit ''repo'', json_opt_str (cf_source_repo c)),
      (lit ''overlapBasis'', JString (cf_overlap_basis c)),
      (lit ''candidateRule'', JObject [(lit ''title'', JString (cf_candidate_title c)), (lit ''rule'', JString (cf_candidate_body c))]),
      (lit ''activeRule'', JObject [(lit ''title'', JString (cf_active_title c)), (lit ''rule'', JString (cf_active_body c))])]"

definition CONFLICT_JUDGE_SYSTEM_PROMPT :: ustr where
  "CONFLICT_JUDGE_SYSTEM_PROMPT = lit ''You are DiffLore'' @ [39]
     @ lit ''s conflict judge. A deterministic check already flagged each candidate rule as possibly contradicting an active rule in the same repository. Decide, for each, whether the two rules truly give OPPOSING guidance on the same subject. Return JSON only. Be conservative: if the rules can both hold at once, they are compatible.''"

definition judge_user_prompt :: "ustr \<Rightarrow> ustr" where
  "judge_user_prompt conflicts_json =
     lit ''For each flagged conflict, return one decision:'' @ [newline]
     @ lit ''- verdict: '' @ [34] @ lit ''contradicts'' @ [34]
     @ lit '' when the candidate rule and the active rule give opposing, mutually exclusive guidance on the same subject within the same repo.'' @ [newline]
     @ lit ''- verdict: '' @ [34] @ lit ''compatible'' @ [34]
     @ lit '' when both rules can hold at once (different subject, different scope, or simply not opposed).'' @ [newline]
     @ lit ''- confidence: 0.0 to 1.0.'' @ [newline]
     @ lit ''- rationale: one concise sentence.'' @ [newline, newline] @ lit ''JSON schema:'' @ [newline]
     @ lit ''{'' @ [34] @ lit ''decisions'' @ [34] @ lit '':[{'' @ [34] @ lit ''conflictId'' @ [34]
     @ lit '':'' @ [34] @ lit ''...'' @ [34] @ lit '','' @ [34] @ lit ''verdict'' @ [34] @ lit '':'' @ [34]
     @ lit ''contradicts|compatible'' @ [34] @ lit '','' @ [34] @ lit ''confidence'' @ [34] @ lit '':0.0,''
     @ [34] @ lit ''rationale'' @ [34] @ lit '':'' @ [34] @ lit ''...'' @ [34] @ lit ''}]}''
     @ [newline, newline] @ lit ''Conflicts:'' @ [newline] @ conflicts_json"

definition build_judge_prompt :: "('f json \<Rightarrow> ustr option) \<Rightarrow> MemoryConflictRecord list \<Rightarrow> (ustr \<times> ustr) option" where
  "build_judge_prompt pretty cs =
     (if cs = [] then None
      else map_option (\<lambda>t. (CONFLICT_JUDGE_SYSTEM_PROMPT, judge_user_prompt t)) (pretty (JArray (map judge_payload cs))))"

record 'f judge_json =
  jj_parse :: "ustr \<Rightarrow> ustr + 'f json"
  jj_decode_list :: "'f json \<Rightarrow> ustr + AiJudgeDecision list"
  jj_decode_envelope :: "'f json \<Rightarrow> ustr + AiJudgeDecision list"

definition parse_judge_decisions :: "'f judge_json \<Rightarrow> ustr \<Rightarrow> ustr + JudgeDecision list" where
  "parse_judge_decisions J raw =
     (case extract_json_object raw of
        None \<Rightarrow> Inl (internal_error (lit ''local AI judge did not return JSON''))
      | Some json_text \<Rightarrow>
          (case jj_parse J json_text of
             Inl e \<Rightarrow> Inl (internal_error (lit ''local AI judge returned invalid JSON: '' @ e))
           | Inr v \<Rightarrow>
               (case (if as_array v \<noteq> None then jj_decode_list J v else jj_decode_envelope J v) of
                  Inl e \<Rightarrow> Inl (internal_error (lit ''local AI judge parse failed: '' @ e))
                | Inr ds \<Rightarrow> Inr (List.map_filter judge_normalize ds))))"

definition judge_status_for :: "ConflictVerdict \<Rightarrow> rat \<Rightarrow> ustr option" where
  "judge_status_for verdict confidence =
     (case verdict of
        Contradicts \<Rightarrow> Some confirmed_status
      | Compatible \<Rightarrow> if confidence \<ge> JUDGE_DISMISS_MIN_CONFIDENCE then Some dismissed else None)"

definition judge_update_stmt ::
  "ustr \<Rightarrow> ustr \<Rightarrow> ustr option \<Rightarrow> rat \<Rightarrow> int \<Rightarrow> 'x conflict_db_scheme \<Rightarrow> unit \<times> 'x conflict_db_scheme" where
  "judge_update_stmt h new_status rationale confidence now d =
     ((), d\<lparr>conflicts := map (\<lambda>r. if mc_evidence_hash r = h \<and> mc_status r = detected
        then r\<lparr>mc_status := new_status, mc_llm_rationale := rationale, mc_llm_confidence := Some confidence,
               mc_updated_at := datetime_now now\<rparr> else r) (conflicts d)\<rparr>)"

definition update_conflict_judge_verdict ::
  "ustr \<Rightarrow> ustr \<Rightarrow> ustr option \<Rightarrow> rat \<Rightarrow> ('x conflict_db_scheme, unit) io" where
  "update_conflict_judge_verdict h new_status rationale confidence =
     skip_result ensure_memory_conflicts_table (sql_now (judge_update_stmt h new_status rationale confidence))"

definition apply_judge_decision :: "JudgeDecision \<Rightarrow> ('x conflict_db_scheme, unit) io" where
  "apply_judge_decision d =
     (case judge_status_for (jd_verdict d) (jd_confidence d) of
        None \<Rightarrow> ret ()
      | Some new_status \<Rightarrow> update_conflict_judge_verdict (jd_conflict_id d) new_status (jd_rationale d) (jd_confidence d))"

text \<open>What the judge needs from outside.\<close>

record 'f judge_env =
  je_sha :: "ustr \<Rightarrow> ustr"
  je_list_json :: "ustr list \<Rightarrow> ustr"
  je_parse_list :: "ustr \<Rightarrow> ustr list option"
  je_pretty :: "'f json \<Rightarrow> ustr option"
  je_json :: "'f judge_json"
  je_ask :: "ustr \<Rightarrow> ustr \<Rightarrow> ustr + ustr"

text \<open>The rows are read, the model is asked once, and its known decisions are applied.\<close>

definition judge_found :: "'f judge_env \<Rightarrow> MemoryConflictRecord list \<Rightarrow> ('x conflict_db_scheme, unit) io" where
  "judge_found E found =
     (case build_judge_prompt (je_pretty E) found of
        None \<Rightarrow> ret ()
      | Some (system_prompt, user_prompt) \<Rightarrow>
          (case je_ask E system_prompt user_prompt of
             Inl _ \<Rightarrow> ret ()
           | Inr raw \<Rightarrow>
               (case parse_judge_decisions (je_json E) raw of
                  Inl _ \<Rightarrow> ret ()
                | Inr decisions \<Rightarrow>
                    for_each apply_judge_decision
                      (filter (\<lambda>x. jd_conflict_id x \<in> set (map cf_evidence_hash found)) decisions))))"

definition judge_detected_conflicts_with_local_ai ::
  "'f judge_env \<Rightarrow> PlannedGroup list \<Rightarrow> ('x conflict_db_scheme, unit) io" where
  "judge_detected_conflicts_with_local_ai E groups =
     skip_result (persist_detected_conflicts (je_sha E) (je_list_json E) groups)
      (andthen (load_memory_conflicts (je_parse_list E) (Some MAX_JUDGE_CONFLICTS) (Some detected)) (\<lambda>found.
        if found = [] then ret () else judge_found E found))"

section \<open>A decision of a person stays\<close>

lemma conflict_statuses [simp]:
  "detected \<noteq> confirmed_status" "confirmed_status \<noteq> detected" "detected \<noteq> dismissed" "dismissed \<noteq> detected"
  by (simp_all add: detected_def confirmed_status_def dismissed_def lit_def)

text \<open>
  \<open>audit b r r'\<close>: what may become of a row. Once decided it keeps its status and the opinion
  recorded with it. An undecided row is confirmed or, with enough confidence, dismissed, and that only
  where \<open>b\<close> allows the judge a say.
\<close>

definition audit :: "bool \<Rightarrow> conflict_row \<Rightarrow> conflict_row \<Rightarrow> bool" where
  "audit b r r' \<longleftrightarrow> mc_evidence_hash r' = mc_evidence_hash r \<and> mc_created_at r' = mc_created_at r
     \<and> (if mc_status r = detected
        then mc_status r' = detected
          \<or> (b \<and> (mc_status r' = confirmed_status
               \<or> (mc_status r' = dismissed \<and> (\<exists>c. mc_llm_confidence r' = Some c \<and> JUDGE_DISMISS_MIN_CONFIDENCE \<le> c \<and> c \<le> 1))))
        else mc_status r' = mc_status r \<and> mc_llm_rationale r' = mc_llm_rationale r \<and> mc_llm_confidence r' = mc_llm_confidence r)"

lemma audit_refl [simp]: "audit b r r"
  by (simp add: audit_def)

lemma audit_trans: "audit b r s \<Longrightarrow> audit b s t \<Longrightarrow> audit b r t"
  by (auto simp: audit_def split: if_splits)

text \<open>
  \<open>audited b rs rs'\<close>: the table \<open>rs'\<close> has one row for every hash, goes on from the rows of \<open>rs\<close>, and its
  other rows started undecided.
\<close>

definition audited :: "bool \<Rightarrow> conflict_row list \<Rightarrow> conflict_row list \<Rightarrow> bool" where
  "audited b rs rs' \<longleftrightarrow> distinct (map mc_evidence_hash rs')
     \<and> (\<forall>r \<in> set rs. \<exists>r' \<in> set rs'. audit b r r')
     \<and> (\<forall>r' \<in> set rs'. \<exists>r. audit b r r' \<and> (r \<in> set rs \<or> mc_status r = detected))"

lemma audited_refl: "distinct (map mc_evidence_hash rs) \<Longrightarrow> audited b rs rs"
  unfolding audited_def using audit_refl by blast

lemma audited_map:
  assumes "audited b rs rs'" "\<And>r. r \<in> set rs' \<Longrightarrow> audit b r (f r)"
  shows "audited b rs (map f rs')"
proof -
  have "map mc_evidence_hash (map f rs') = map mc_evidence_hash rs'"
    using assms(2) by (simp add: audit_def)
  then have "distinct (map mc_evidence_hash (map f rs'))" using assms(1) by (simp only: audited_def)
  moreover have "\<forall>r \<in> set rs. \<exists>r' \<in> set (map f rs'). audit b r r'"
    using assms audit_trans unfolding audited_def set_map by blast
  moreover have "\<forall>r' \<in> set (map f rs'). \<exists>r. audit b r r' \<and> (r \<in> set rs \<or> mc_status r = detected)"
    using assms audit_trans unfolding audited_def set_map by blast
  ultimately show ?thesis by (simp add: audited_def)
qed

lemma audited_snoc:
  assumes "audited b rs rs'" "mc_status n = detected" "mc_evidence_hash n \<notin> mc_evidence_hash ` set rs'"
  shows "audited b rs (rs' @ [n])"
  using assms audit_refl [of b n] unfolding audited_def by auto

lemma audited_upsert:
  assumes "audited b rs (conflicts d)"
  shows "audited b rs (conflicts (snd (upsert_conflict_stmt (conflict_row_of sha list_json g c) now d)))"
proof (cases "list_ex (\<lambda>r. mc_evidence_hash r = mc_evidence_hash (conflict_row_of sha list_json g c now)) (conflicts d)")
  case True
  then show ?thesis
    by (simp add: upsert_conflict_stmt_def Let_def, intro audited_map [OF assms]) (simp add: refresh_row_def audit_def)
next
  case False
  then have "mc_evidence_hash (conflict_row_of sha list_json g c now) \<notin> mc_evidence_hash ` set (conflicts d)"
    by (auto simp: list_ex_iff)
  moreover have "mc_status (conflict_row_of sha list_json g c now) = detected"
    by (simp add: conflict_row_of_def Let_def)
  ultimately show ?thesis
    using False audited_snoc [OF assms] by (simp add: upsert_conflict_stmt_def Let_def)
qed

lemma ensure_conflicts_ends: "I d \<Longrightarrow> ends_in ensure_memory_conflicts_table d (\<lambda>r d'. I d')"
  unfolding ensure_memory_conflicts_table_def
  by (intro ends_inv_skip ends_sql) (simp_all add: nothing_stmt_def)

lemma persist_audited:
  assumes "audited b rs (conflicts d)"
  shows "ends_in (persist_detected_conflicts sha list_json groups) d (\<lambda>r d'. audited b rs (conflicts d'))"
proof -
  have up: "ends_in (case pg_conflict g of None \<Rightarrow> ret () | Some c \<Rightarrow> upsert_memory_conflict sha list_json g c) d'
      (\<lambda>r d''. audited b rs (conflicts d''))" if "audited b rs (conflicts d')" for g d'
    using that by (cases "pg_conflict g") (auto simp: upsert_memory_conflict_def intro!: ends_ret ends_sql_now audited_upsert)
  have "ends_in (for_each (\<lambda>g. case pg_conflict g of None \<Rightarrow> ret () | Some c \<Rightarrow> upsert_memory_conflict sha list_json g c) gs) d'
      (\<lambda>r d''. audited b rs (conflicts d''))" if "audited b rs (conflicts d')" for gs d'
    by (rule ends_for_each [where I = "\<lambda>d. audited b rs (conflicts d)"]) (rule up, assumption, rule that)
  then show ?thesis
    unfolding persist_detected_conflicts_def Let_def
    using ensure_conflicts_ends [of "\<lambda>d. audited b rs (conflicts d)" d] assms
    by (auto intro!: ends_inv_skip ends_ret)
qed

lemma load_conflicts_ends: "I d \<Longrightarrow> ends_in (load_memory_conflicts parse l s) d (\<lambda>r d'. I d')"
  unfolding load_memory_conflicts_def Let_def
  by (intro ends_inv_skip ends_inv_andthen ensure_conflicts_ends ends_sql ends_ret) simp_all

lemma audited_judge_update:
  assumes "audited True rs (conflicts d)" "judge_status_for v c = Some s" "c \<le> 1"
  shows "audited True rs (conflicts (snd (judge_update_stmt h s rationale c now d)))"
  using assms(2,3) unfolding judge_update_stmt_def
  by (simp, intro audited_map [OF assms(1)])
    (auto simp: audit_def judge_status_for_def split: ConflictVerdict.splits if_splits)

lemma apply_judge_audited:
  assumes "audited True rs (conflicts d)" "jd_confidence x \<le> 1"
  shows "ends_in (apply_judge_decision x) d (\<lambda>r d'. audited True rs (conflicts d'))"
proof (cases "judge_status_for (jd_verdict x) (jd_confidence x)")
  case None
  then show ?thesis using assms by (simp add: apply_judge_decision_def ends_ret)
next
  case (Some s)
  have "ends_in (sql_now (judge_update_stmt (jd_conflict_id x) s (jd_rationale x) (jd_confidence x))) d'
      (\<lambda>r d''. audited True rs (conflicts d''))" if "audited True rs (conflicts d')" for d'
    using audited_judge_update [OF that Some assms(2)] that by (intro ends_sql_now) auto
  then show ?thesis
    unfolding apply_judge_decision_def update_conflict_judge_verdict_def
    using Some ensure_conflicts_ends [of "\<lambda>d. audited True rs (conflicts d)" d] assms(1)
    by (auto intro!: ends_inv_skip)
qed

lemma judge_normalize_confidence: "judge_normalize v = Some x \<Longrightarrow> jd_confidence x \<le> 1"
  using sane_confidence_range [of "aj_confidence v"]
  by (cases "trim (aj_conflict_id v) = []") (auto simp: judge_normalize_def Let_def bind_eq_Some_conv split: if_splits)

lemma parse_judge_confidence:
  assumes "parse_judge_decisions J raw = Inr ds" "x \<in> set ds"
  shows "jd_confidence x \<le> 1"
proof -
  obtain vs where "ds = List.map_filter judge_normalize vs"
    using assms(1) by (auto simp: parse_judge_decisions_def split: option.splits sum.splits)
  with assms(2) obtain v where "judge_normalize v = Some x" by (auto simp: List.map_filter_def)
  then show ?thesis by (rule judge_normalize_confidence)
qed

lemma judge_found_audited:
  assumes I: "audited b rs (conflicts d)" and ask: "b \<or> (\<forall>sys user. \<exists>e. je_ask E sys user = Inl e)"
  shows "ends_in (judge_found E found) d (\<lambda>r d'. audited b rs (conflicts d'))"
proof -
  let ?I = "\<lambda>d'. audited b rs (conflicts d')"
  have stop: "ends_in (ret ()) d (\<lambda>r d'. ?I d')" using I by (simp add: ends_ret)
  have loop: "ends_in (for_each apply_judge_decision (filter P ds)) d (\<lambda>r d'. ?I d')"
    if "parse_judge_decisions (je_json E) raw = Inr ds" b for P ds raw
    by (rule ends_for_each [where I = ?I, OF _ I])
      (use apply_judge_audited parse_judge_confidence [OF that(1)] that(2) in auto)
  have b if "je_ask E sys user = Inr raw" for sys user raw
    using ask that by (metis sum.distinct(1))
  with stop loop show ?thesis
    unfolding judge_found_def by (auto split: option.split sum.split)
qed

lemma judge_audited:
  assumes "distinct (map mc_evidence_hash (conflicts d))" and "b \<or> (\<forall>sys user. \<exists>e. je_ask E sys user = Inl e)"
  shows "ends_in (judge_detected_conflicts_with_local_ai E groups) d (\<lambda>r d'. audited b (conflicts d) (conflicts d'))"
  unfolding judge_detected_conflicts_with_local_ai_def
  by (intro ends_inv_skip ends_inv_andthen persist_audited audited_refl [OF assms(1)] load_conflicts_ends)
    (use judge_found_audited [OF _ assms(2)] in \<open>auto intro: ends_ret\<close>)

text \<open>
  C9. Running the judge, whatever the model answers and however many statements fail, never touches a decision that was
  taken: such a row keeps its status and the opinion it has. No row gets lost, none appears twice,
  an undecided row is dismissed only with a confidence of at least 0.8 and at most 1, and when the
  model cannot be asked every undecided row stays undecided.
\<close>

theorem judge_keeps_decisions:
  assumes "distinct (map mc_evidence_hash (conflicts (db w)))"
    and "judge_detected_conflicts_with_local_ai E groups w = (r, w')"
  shows "audited True (conflicts (db w)) (conflicts (db w'))
    \<and> ((\<forall>sys user. \<exists>e. je_ask E sys user = Inl e) \<longrightarrow> audited False (conflicts (db w)) (conflicts (db w')))"
  using endsD [OF judge_audited [OF assms(1), of True E groups] assms(2)]
    endsD [OF judge_audited [OF assms(1), of False E groups] assms(2)] by blast

text \<open>One row that a person dismissed and one that nobody decided; the model confirms both.\<close>

definition demo_conflict :: "string \<Rightarrow> ustr \<Rightarrow> conflict_row" where
  "demo_conflict h s = \<lparr>mc_evidence_hash = lit h, mc_group_id = [], mc_candidate_rule_id = None, mc_active_rule_id = [],
     mc_source_repo = None, mc_overlap_basis = [], mc_candidate_title = [], mc_candidate_body = [], mc_active_title = [],
     mc_active_body = [], mc_candidate_patterns_json = [], mc_active_patterns_json = [], mc_llm_rationale = None,
     mc_llm_confidence = None, mc_status = s, mc_created_at = 0, mc_updated_at = 0\<rparr>"

definition demo_verdict :: "string \<Rightarrow> AiJudgeDecision" where
  "demo_verdict h = \<lparr>aj_conflict_id = lit h, aj_verdict = lit ''Contradicts'', aj_confidence = Finite 1, aj_rationale = None\<rparr>"

definition demo_judge :: "unit judge_env" where
  "demo_judge = \<lparr>je_sha = (\<lambda>s. s), je_list_json = concat, je_parse_list = (\<lambda>_. None), je_pretty = (\<lambda>_. Some []),
     je_json = \<lparr>jj_parse = (\<lambda>_. Inr (JArray [])), jj_decode_list = (\<lambda>_. Inr [demo_verdict ''a'', demo_verdict ''b'']),
       jj_decode_envelope = (\<lambda>_. Inl [])\<rparr>,
     je_ask = (\<lambda>_ _. Inr (lit ''[]''))\<rparr>"

definition demo_conflicts :: "conflict_db world" where
  "demo_conflicts = \<lparr>db = \<lparr>schedule = None, events = [], skills = [], rejected_signatures = [], rule_events = [],
       conflicts = [demo_conflict ''a'' dismissed, demo_conflict ''b'' detected]\<rparr>,
     clock = (\<lambda>_. 0), clock_reads = 0, sql_fault = (\<lambda>_. None), sql_calls = 0\<rparr>"

theorem judge_keeps_decisions_witness:
  "audited True (conflicts (db demo_conflicts)) (conflicts (db (snd (judge_detected_conflicts_with_local_ai demo_judge [] demo_conflicts))))
   \<and> map mc_status (conflicts (db (snd (judge_detected_conflicts_with_local_ai demo_judge [] demo_conflicts))))
      = [dismissed, confirmed_status]"
proof
  obtain r w' where r: "judge_detected_conflicts_with_local_ai demo_judge [] demo_conflicts = (r, w')" by fastforce
  have "distinct (map mc_evidence_hash (conflicts (db demo_conflicts)))" by code_simp
  from judge_keeps_decisions [OF this r] r
  show "audited True (conflicts (db demo_conflicts)) (conflicts (db (snd (judge_detected_conflicts_with_local_ai demo_judge [] demo_conflicts))))"
    by simp
  show "map mc_status (conflicts (db (snd (judge_detected_conflicts_with_local_ai demo_judge [] demo_conflicts))))
      = [dismissed, confirmed_status]"
    by code_simp
qed

end
