(* ===== verification/Memory_Plan.thy ===== *)
theory Memory_Plan
  imports Memory_Conflicts
begin

text \<open>
  The plan of the memory autopilot (\<^verbatim>\<open>memory_autopilot/plan.rs\<close> and the curator's part of
  \<^verbatim>\<open>memory_autopilot/run.rs\<close>): loading drafts, discoveries and active rules, classifying their groups,
  applying cached recommendations and the answers of the curator, and summing up.

  The discoveries of coding sessions come from the memory inbox and are an argument, like the
  hash, the JSON functions, the printer of a score, SQLite's \<^verbatim>\<open>datetime\<close> and the model call.
\<close>

section \<open>Data\<close>

definition MEMORY_AUTOPILOT_SCHEMA_VERSION :: ustr where
  "MEMORY_AUTOPILOT_SCHEMA_VERSION = lit ''2026-07-03.source-kind.v2''"

definition DEFAULT_RECOMMENDED_MIN_CONFIDENCE :: rat where
  "DEFAULT_RECOMMENDED_MIN_CONFIDENCE = f32 (70 / 100)"

record CachedCuratorRecommendation =
  cq_input_hash :: ustr
  cq_state :: MemoryCandidateGroupState
  cq_confidence :: "ustr option"
  cq_title :: ustr
  cq_rule :: ustr
  cq_file_patterns :: "ustr list"
  cq_reason :: ustr
  cq_prompt_version :: ustr

record BuildPlanOptions =
  bp_local_ai_curator :: bool
  bp_curator_max_candidates :: "nat option"

record recommendation_row =
  rr_group_id :: ustr
  rr_input_hash :: ustr
  rr_state :: ustr
  rr_confidence :: "ustr option"
  rr_title :: ustr
  rr_rule :: ustr
  rr_file_patterns_json :: ustr
  rr_reason :: ustr
  rr_item_ids_json :: ustr
  rr_prompt_version :: ustr
  rr_created_at :: int
  rr_updated_at :: int

record plan_db = conflict_db +
  recommendations :: "recommendation_row list"

record LocalDiscovery =
  ld_item_id :: ustr
  ld_content_hash :: ustr
  ld_title :: ustr
  ld_body :: ustr
  ld_source_repo :: ustr
  ld_file_patterns :: "ustr list"
  ld_gate_verdict :: ustr
  ld_session_id :: ustr
  ld_created_at_ms :: int
  ld_distinct_evidence_count :: "nat option"

record MemoryDigestRule =
  dr_item_id :: ustr
  dr_rule_id :: ustr
  dr_title :: ustr
  dr_origin :: ustr
  dr_source_repo :: "ustr option"
  dr_file_patterns :: "ustr list"
  dr_updated_at :: ustr

record MemoryDigestCounts =
  n_active_rules :: int
  n_pending_drafts :: int
  n_pending_session_candidates :: int
  n_auto_enable_groups :: nat
  n_recommended_groups :: nat
  n_needs_review_groups :: nat

record 'f MemoryDigest =
  md_schema_version :: ustr
  md_counts :: MemoryDigestCounts
  md_autopilot :: "'f MemoryAutopilotScheduleStatus"
  md_active_rules :: "MemoryDigestRule list"
  md_candidate_groups :: "MemoryCandidateGroup list"
  md_next_actions :: "ustr list"
  md_note :: ustr

record 'f MemoryPlan =
  mp_digest :: "'f MemoryDigest"
  mp_groups :: "PlannedGroup list"
  mp_active_rules :: "ActiveMemory list"

text \<open>What planning needs from outside.\<close>

record 'f plan_env = "'f judge_env" +
  pe_curator_json :: "'f curator_json"
  pe_pretty_candidates :: "MemoryCuratorCandidate list \<Rightarrow> ustr + ustr"
  pe_fixed2 :: "rat \<Rightarrow> ustr"
  pe_datetime :: "ustr \<Rightarrow> ustr option"
  pe_parse_json :: "ustr \<Rightarrow> 'f json option"

section \<open>Loading\<close>

definition disabled_rule_ids :: "'x autopilot_db_scheme \<Rightarrow> ustr set" where
  "disabled_rule_ids d = set (List.map_filter (\<lambda>e. if event_type e = lit ''disabled'' then event_rule_id e else None) (events d))"

definition load_autopilot_disabled_rule_ids :: "('x plan_db_scheme, ustr set) io" where
  "load_autopilot_disabled_rule_ids =
     skip_result ensure_autopilot_events_table (sql (\<lambda>d. (disabled_rule_ids d, d)))"

definition pending_from_draft :: "CandidateRule \<Rightarrow> ustr set \<Rightarrow> PendingMemory" where
  "pending_from_draft draft disabled_ids =
     \<lparr>pm_item_id = lit ''draft:'' @ cr_id draft, pm_kind = Draft (cr_id draft), pm_title = cr_name draft,
      pm_body = (case cr_drafted_rule draft of Some r \<Rightarrow> r | None \<Rightarrow> cr_description draft),
      pm_raw_description = Some (cr_description draft), pm_content_hash = usable_hash (cr_content_hash draft),
      pm_origin = cr_origin draft, pm_source_kind = cr_source_kind draft, pm_source_repo = cr_source_repo draft,
      pm_file_patterns = normalize_memory_patterns (cr_file_patterns draft), pm_verdict = None,
      pm_session_id = None, pm_session_created_at_ms = None, pm_distinct_evidence_count = None,
      pm_autopilot_disabled = cr_id draft \<in> disabled_ids\<rparr>"

definition pending_from_discovery :: "LocalDiscovery \<Rightarrow> PendingMemory" where
  "pending_from_discovery x =
     \<lparr>pm_item_id = ld_item_id x, pm_kind = Session (ld_content_hash x), pm_title = ld_title x, pm_body = ld_body x,
      pm_raw_description = None, pm_content_hash = None, pm_origin = lit ''session_mined'',
      pm_source_kind = lit ''human'', pm_source_repo = Some (ld_source_repo x),
      pm_file_patterns = normalize_memory_patterns (ld_file_patterns x), pm_verdict = Some (ld_gate_verdict x),
      pm_session_id = Some (ld_session_id x), pm_session_created_at_ms = Some (ld_created_at_ms x),
      pm_distinct_evidence_count = ld_distinct_evidence_count x, pm_autopilot_disabled = False\<rparr>"

definition load_pending_memories ::
  "(ustr \<Rightarrow> ustr list option) \<Rightarrow> (nat \<Rightarrow> ('x plan_db_scheme, LocalDiscovery list) io) \<Rightarrow> nat \<Rightarrow> ('x plan_db_scheme, PendingMemory list) io" where
  "load_pending_memories parse_list inbox limit =
     andthen load_autopilot_disabled_rule_ids (\<lambda>disabled_ids.
     andthen (list_candidates parse_list None (Some limit)) (\<lambda>drafts.
     andthen (inbox limit) (\<lambda>discoveries.
       ret (map (\<lambda>x. pending_from_draft x disabled_ids) drafts @ map pending_from_discovery discoveries))))"

definition last_touched :: "skill_row \<Rightarrow> ustr" where
  "last_touched r = (case sk_updated_at r of Some t \<Rightarrow> t | None \<Rightarrow> sk_installed_at r)"

text \<open>\<^verbatim>\<open>ORDER BY datetime(..) DESC, id ASC\<close>; SQLite sorts a missing value before all others.\<close>

fun cmp_text_option :: "ustr option \<Rightarrow> ustr option \<Rightarrow> ordering" where
  "cmp_text_option None None = Equal"
| "cmp_text_option None (Some _) = Less"
| "cmp_text_option (Some _) None = Greater"
| "cmp_text_option (Some a) (Some b) = cmp_str a b"

definition cmp_active_rows :: "(ustr \<Rightarrow> ustr option) \<Rightarrow> skill_row \<Rightarrow> skill_row \<Rightarrow> ordering" where
  "cmp_active_rows datetime a b =
     then_with (cmp_text_option (datetime (last_touched b)) (datetime (last_touched a))) (cmp_str (sk_id a) (sk_id b))"

definition active_from_row :: "(ustr \<Rightarrow> ustr list option) \<Rightarrow> skill_row \<Rightarrow> ActiveMemory" where
  "active_from_row parse_list r =
     \<lparr>am_item_id = lit ''rule:'' @ sk_id r, am_rule_id = sk_id r, am_title = sk_name r, am_body = sk_description r,
      am_content_hash = sk_content_hash r, am_origin = sk_origin r, am_source_kind = sk_source_kind r,
      am_source_repo = sk_source_repo r, am_file_patterns = parse_string_list parse_list (sk_file_patterns r),
      am_updated_at = last_touched r\<rparr>"

definition load_active_rules ::
  "(ustr \<Rightarrow> ustr list option) \<Rightarrow> (ustr \<Rightarrow> ustr option) \<Rightarrow> nat \<Rightarrow> ('x plan_db_scheme, ActiveMemory list) io" where
  "load_active_rules parse_list datetime limit =
     sql (\<lambda>d. (map (active_from_row parse_list)
       (take limit (sort_by (cmp_active_rows datetime) (filter (\<lambda>r. sk_status r = active) (skills d)))), d))"

section \<open>Cached recommendations\<close>

fun candidate_group_state_cache_key :: "MemoryCandidateGroupState \<Rightarrow> ustr" where
  "candidate_group_state_cache_key AutoEnable = lit ''auto_enable''"
| "candidate_group_state_cache_key Recommended = lit ''recommended''"
| "candidate_group_state_cache_key NeedsReview = lit ''needs_review''"
| "candidate_group_state_cache_key AlreadyActive = lit ''already_active''"

definition candidate_group_state_from_cache :: "ustr \<Rightarrow> MemoryCandidateGroupState option" where
  "candidate_group_state_from_cache raw =
     (let s = trim raw in
      if s = lit ''auto_enable'' then Some AutoEnable
      else if s = lit ''recommended'' then Some Recommended
      else if s = lit ''needs_review'' then Some NeedsReview
      else if s = lit ''already_active'' then Some AlreadyActive
      else None)"

definition pr_review_candidate_group :: "PlannedGroup \<Rightarrow> bool" where
  "pr_review_candidate_group g \<longleftrightarrow> (case pg_candidates g of [c] \<Rightarrow> pm_origin c = lit ''pr_review'' | _ \<Rightarrow> False)"

definition text_or_empty :: "ustr option \<Rightarrow> ustr" where
  "text_or_empty v = (case v of Some s \<Rightarrow> s | None \<Rightarrow> [])"

definition candidate_hash_input :: "PendingMemory \<Rightarrow> ustr" where
  "candidate_hash_input c =
     pm_item_id c @ [0] @ pm_title c @ [0] @ pm_body c @ [0] @ text_or_empty (pm_raw_description c) @ [0]
     @ text_or_empty (pm_content_hash c) @ [0] @ pm_origin c @ [0] @ pm_source_kind c @ [0]
     @ text_or_empty (pm_source_repo c) @ [0] @ str_join [0] (pm_file_patterns c) @ [newline]"

definition group_input_hash :: "(ustr \<Rightarrow> ustr) \<Rightarrow> PlannedGroup \<Rightarrow> ustr" where
  "group_input_hash sha g =
     sha (MEMORY_AUTOPILOT_SCHEMA_VERSION @ [newline] @ mg_group_id (pg_digest g) @ [newline]
       @ concat (map candidate_hash_input (pg_candidates g)))"

text \<open>\<^verbatim>\<open>first_mut\<close>: an update of the first candidate.\<close>

fun map_first :: "('a \<Rightarrow> 'a) \<Rightarrow> 'a list \<Rightarrow> 'a list" where
  "map_first f [] = []"
| "map_first f (x # xs) = f x # xs"

definition apply_cached_curator_recommendation :: "CachedCuratorRecommendation \<Rightarrow> PlannedGroup \<Rightarrow> PlannedGroup" where
  "apply_cached_curator_recommendation cached g =
     (let d = pg_digest g in
      if cq_state cached = NeedsReview
      then g\<lparr>pg_digest := d\<lparr>mg_reason := if cq_reason cached = [] then mg_reason d else cq_reason cached,
                              mg_confidence := cq_confidence cached\<rparr>\<rparr>
      else if cq_state cached \<notin> {AutoEnable, Recommended} \<or> trim (cq_title cached) = [] \<or> trim (cq_rule cached) = [] then g
      else g\<lparr>pg_candidates := map_first (\<lambda>c. c\<lparr>pm_title := cq_title cached, pm_body := cq_rule cached,
                pm_file_patterns := cq_file_patterns cached\<rparr>) (pg_candidates g),
             pg_digest := d\<lparr>mg_title := cq_title cached, mg_sample := truncate_with_dots (cq_rule cached) 320,
                mg_file_patterns := cq_file_patterns cached, mg_state := cq_state cached,
                mg_reason := cq_reason cached, mg_confidence := cq_confidence cached\<rparr>\<rparr>)"

definition cached_applies :: "(ustr \<Rightarrow> ustr) \<Rightarrow> PlannedGroup \<Rightarrow> CachedCuratorRecommendation \<Rightarrow> bool" where
  "cached_applies sha g cached \<longleftrightarrow> pr_review_candidate_group g \<and> mg_state (pg_digest g) = NeedsReview
     \<and> cq_prompt_version cached = MEMORY_AUTOPILOT_SCHEMA_VERSION \<and> cq_input_hash cached = group_input_hash sha g"

definition with_cached_recommendation ::
  "(ustr \<Rightarrow> ustr) \<Rightarrow> (ustr \<rightharpoonup> CachedCuratorRecommendation) \<Rightarrow> PlannedGroup \<Rightarrow> PlannedGroup" where
  "with_cached_recommendation sha recs g =
     (case recs (mg_group_id (pg_digest g)) of
        None \<Rightarrow> g
      | Some cached \<Rightarrow> if cached_applies sha g cached then apply_cached_curator_recommendation cached g else g)"

definition ensure_curator_recommendations_table :: "('x plan_db_scheme, unit) io" where
  "ensure_curator_recommendations_table = skip_result (sql nothing_stmt) (sql nothing_stmt)"

definition cached_from_row ::
  "(ustr \<Rightarrow> ustr list option) \<Rightarrow> recommendation_row \<Rightarrow> (ustr \<times> CachedCuratorRecommendation) option" where
  "cached_from_row parse_list r =
     map_option (\<lambda>s. (rr_group_id r,
       \<lparr>cq_input_hash = rr_input_hash r, cq_state = s, cq_confidence = rr_confidence r, cq_title = rr_title r,
        cq_rule = rr_rule r, cq_file_patterns = parse_string_list parse_list (Some (rr_file_patterns_json r)),
        cq_reason = rr_reason r, cq_prompt_version = rr_prompt_version r\<rparr>))
       (candidate_group_state_from_cache (rr_state r))"

text \<open>Group identifiers are the primary key, so no entry replaces another.\<close>

definition load_curator_recommendations ::
  "(ustr \<Rightarrow> ustr list option) \<Rightarrow> ('x plan_db_scheme, ustr \<rightharpoonup> CachedCuratorRecommendation) io" where
  "load_curator_recommendations parse_list =
     skip_result ensure_curator_recommendations_table
      (sql (\<lambda>d. (map_of (rev (List.map_filter (cached_from_row parse_list) (recommendations d))), d)))"

definition apply_cached_curator_recommendations ::
  "'f plan_env \<Rightarrow> PlannedGroup list \<Rightarrow> ('x plan_db_scheme, PlannedGroup list) io" where
  "apply_cached_curator_recommendations E groups =
     andthen (load_curator_recommendations (je_parse_list E)) (\<lambda>recs.
       ret (map (with_cached_recommendation (je_sha E) recs) groups))"

definition recommendation_row_of ::
  "(ustr list \<Rightarrow> ustr) \<Rightarrow> PlannedGroup \<Rightarrow> ustr \<Rightarrow> int \<Rightarrow> recommendation_row" where
  "recommendation_row_of list_json g input_hash now =
     (let d = pg_digest g in
      \<lparr>rr_group_id = mg_group_id d, rr_input_hash = input_hash,
       rr_state = candidate_group_state_cache_key (mg_state d), rr_confidence = mg_confidence d, rr_title = mg_title d,
       rr_rule = (case primary_candidate (pg_candidates g) of Some c \<Rightarrow> pm_body c | None \<Rightarrow> mg_sample d),
       rr_file_patterns_json = list_json (mg_file_patterns d), rr_reason = mg_reason d,
       rr_item_ids_json = list_json (mg_item_ids d), rr_prompt_version = MEMORY_AUTOPILOT_SCHEMA_VERSION,
       rr_created_at = datetime_now now, rr_updated_at = datetime_now now\<rparr>)"

definition upsert_recommendation_stmt ::
  "(int \<Rightarrow> recommendation_row) \<Rightarrow> int \<Rightarrow> 'x plan_db_scheme \<Rightarrow> unit \<times> 'x plan_db_scheme" where
  "upsert_recommendation_stmt new now d =
     (let n = new now in
      ((), d\<lparr>recommendations :=
        if list_ex (\<lambda>r. rr_group_id r = rr_group_id n) (recommendations d)
        then map (\<lambda>r. if rr_group_id r = rr_group_id n then n\<lparr>rr_created_at := rr_created_at r\<rparr> else r) (recommendations d)
        else recommendations d @ [n]\<rparr>))"

definition upsert_curator_recommendation ::
  "(ustr list \<Rightarrow> ustr) \<Rightarrow> PlannedGroup \<Rightarrow> ustr \<Rightarrow> ('x plan_db_scheme, unit) io" where
  "upsert_curator_recommendation list_json g input_hash =
     (if mg_state (pg_digest g) = AlreadyActive then ret ()
      else skip_result ensure_curator_recommendations_table
        (sql_now (upsert_recommendation_stmt (recommendation_row_of list_json g input_hash))))"

section \<open>The curator\<close>

definition pr_review_group_needs_ai_refinement :: "PlannedGroup \<Rightarrow> bool" where
  "pr_review_group_needs_ai_refinement g \<longleftrightarrow>
     mg_state (pg_digest g) = NeedsReview \<and> mg_reason (pg_digest g) = AI_REFINEMENT_REASON \<and> pr_review_candidate_group g"

text \<open>\<^verbatim>\<open>trimmed.len() < 240\<close> counts bytes.\<close>

definition evidence_line :: "ustr \<Rightarrow> ustr option" where
  "evidence_line line =
     (let t = trim line in
      if list_ex (\<lambda>p. starts_with t (lit p)) [''Source:'', ''Comment:'', ''File:'', ''Reviewer said:'']
         \<or> (t \<noteq> [] \<and> utf8_len t < 240) then Some t else None)"

definition compact_source_evidence :: "ustr \<Rightarrow> ustr" where
  "compact_source_evidence raw_description =
     truncate_with_dots (str_join [newline] (take 12 (List.map_filter evidence_line (lines raw_description)))) 1200"

definition pr_review_curator_candidate :: "PlannedGroup \<Rightarrow> MemoryCuratorCandidate option" where
  "pr_review_curator_candidate g =
     (case pg_candidates g of
        [] \<Rightarrow> None
      | c # _ \<Rightarrow> Some
          \<lparr>cc_group_id = mg_group_id (pg_digest g), cc_current_title = pm_title c, cc_current_rule = pm_body c,
           cc_source = PrReview, cc_source_repo = pm_source_repo c, cc_file_patterns = pm_file_patterns c,
           cc_source_evidence = (case pm_raw_description c of Some r \<Rightarrow> compact_source_evidence r | None \<Rightarrow> []),
           cc_behavior_observations = []\<rparr>)"

definition with_reason :: "ustr \<Rightarrow> PlannedGroup \<Rightarrow> PlannedGroup" where
  "with_reason reason g = g\<lparr>pg_digest := (pg_digest g)\<lparr>mg_reason := reason\<rparr>\<rparr>"

definition trimmed_or_empty :: "ustr option \<Rightarrow> ustr" where
  "trimmed_or_empty v = trim (text_or_empty v)"

text \<open>The candidate under the title, the rule and, where the answer gives one, the scope of the curator.\<close>

definition refine_candidate :: "MemoryCuratorDecision \<Rightarrow> PendingMemory \<Rightarrow> PendingMemory" where
  "refine_candidate decision c =
     c\<lparr>pm_title := trimmed_or_empty (cd_title decision), pm_body := trimmed_or_empty (cd_rule decision),
       pm_file_patterns :=
         (case Option.bind (cd_scope decision) (\<lambda>s. file_patterns_for_curator_scope s (pm_file_patterns c)) of
            Some patterns \<Rightarrow> normalize_memory_patterns patterns | None \<Rightarrow> pm_file_patterns c)\<rparr>"

definition apply_curator_decision ::
  "(rat \<Rightarrow> ustr) \<Rightarrow> MemoryCuratorDecision \<Rightarrow> MemoryCuratorOptions \<Rightarrow> PlannedGroup \<Rightarrow> PlannedGroup" where
  "apply_curator_decision fixed2 decision options g0 =
     (let reason = (case cd_reason decision of Some r \<Rightarrow> r | None \<Rightarrow> lit ''local rule curator review'');
          g = g0\<lparr>pg_digest := (pg_digest g0)\<lparr>mg_confidence := Some (fixed2 (cd_confidence decision))\<rparr>\<rparr>;
          new_title = trimmed_or_empty (cd_title decision); new_rule = trimmed_or_empty (cd_rule decision) in
      if cd_action decision \<noteq> EnableRule
      then with_reason (lit ''local rule curator left this PR review for human cleanup: '' @ reason) g
      else if \<not> curator_rule_is_safe new_title new_rule
      then with_reason (lit ''local rule curator proposed rule text did not pass the safety gate: '' @ reason) g
      else
        let cs = map_first (refine_candidate decision) (pg_candidates g);
            d = (pg_digest g)\<lparr>mg_title := new_title, mg_sample := truncate_with_dots new_rule 320,
                  mg_file_patterns := merged_patterns cs\<rparr>;
            d' = (if cd_confidence decision \<ge> min_confidence options
                  then d\<lparr>mg_state := AutoEnable, mg_confidence := Some AUTOPILOT_CONFIDENCE,
                    mg_reason := lit ''local rule curator refined this PR review into a high-confidence rule: '' @ reason\<rparr>
                  else if cd_confidence decision \<ge> DEFAULT_RECOMMENDED_MIN_CONFIDENCE
                  then d\<lparr>mg_state := Recommended, mg_confidence := Some (fixed2 (cd_confidence decision)),
                    mg_reason := lit ''local rule curator recommends this rule after review: '' @ reason\<rparr>
                  else d\<lparr>mg_reason := lit ''local rule curator confidence '' @ fixed2 (cd_confidence decision)
                    @ lit '' is below recommendation threshold '' @ fixed2 DEFAULT_RECOMMENDED_MIN_CONFIDENCE
                    @ lit '': '' @ reason\<rparr>) in
        g\<lparr>pg_candidates := cs, pg_digest := d'\<rparr>)"

definition mark_ai_refinement_unavailable :: "ustr \<Rightarrow> PlannedGroup list \<Rightarrow> PlannedGroup list" where
  "mark_ai_refinement_unavailable detail = map (\<lambda>g.
     if pr_review_group_needs_ai_refinement g
     then with_reason (lit ''local rule curator unavailable; review manually: '' @ truncate_with_dots detail 240) g else g)"

fun map_io :: "('a \<Rightarrow> ('d, 'b) io) \<Rightarrow> 'a list \<Rightarrow> ('d, 'b list) io" where
  "map_io f [] = ret []"
| "map_io f (x # xs) = andthen (f x) (\<lambda>y. andthen (map_io f xs) (\<lambda>ys. ret (y # ys)))"

definition curator_group_step ::
  "'f plan_env \<Rightarrow> MemoryCuratorOptions \<Rightarrow> ustr set \<Rightarrow> (ustr \<rightharpoonup> MemoryCuratorDecision) \<Rightarrow> PlannedGroup \<Rightarrow> ('x plan_db_scheme, PlannedGroup) io" where
  "curator_group_step E options submitted decisions g =
     (if \<not> (pr_review_group_needs_ai_refinement g \<and> mg_group_id (pg_digest g) \<in> submitted) then ret g
      else case decisions (mg_group_id (pg_digest g)) of
        None \<Rightarrow> ret (with_reason (lit ''local rule curator did not return a decision for this PR review'') g)
      | Some decision \<Rightarrow>
          (let g' = apply_curator_decision (pe_fixed2 E) decision options g in
           skip_result (upsert_curator_recommendation (je_list_json E) g' (group_input_hash (je_sha E) g)) (ret g')))"

definition curator_options :: "nat option \<Rightarrow> MemoryCuratorOptions" where
  "curator_options limit =
     (case limit of None \<Rightarrow> default_curator_options | Some n \<Rightarrow> default_curator_options\<lparr>max_candidates := n\<rparr>)"

definition curate_groups ::
  "'f plan_env \<Rightarrow> PlannedGroup list \<Rightarrow> MemoryCuratorOptions \<Rightarrow> ('x plan_db_scheme, PlannedGroup list) io" where
  "curate_groups E groups options =
     (let candidates = List.map_filter pr_review_curator_candidate
            (take (max_candidates options) (filter pr_review_group_needs_ai_refinement groups)) in
      if candidates = [] then ret groups
      else case curate_memory_candidates_with_local_ai (pe_curator_json E) (pe_pretty_candidates E) (je_ask E) candidates options of
        Inl e \<Rightarrow> fail e
      | Inr out \<Rightarrow>
          (case co_unavailable_reason out of
             Some detail \<Rightarrow> ret (mark_ai_refinement_unavailable detail groups)
           | None \<Rightarrow> map_io (curator_group_step E options (set (map cc_group_id candidates))
               (curator_decisions_by_group (co_decisions out))) groups))"

definition refine_pr_review_groups_with_local_ai ::
  "'f plan_env \<Rightarrow> PlannedGroup list \<Rightarrow> nat option \<Rightarrow> ('x plan_db_scheme, PlannedGroup list) io" where
  "refine_pr_review_groups_with_local_ai E groups limit =
     andthen (curate_groups E groups (curator_options limit)) (\<lambda>refined.
       skip_result (judge_detected_conflicts_with_local_ai (judge_env.truncate E) refined) (ret refined))"

section \<open>The plan\<close>

definition plan_group :: "ustr set \<Rightarrow> ustr set \<Rightarrow> ActiveMemory list \<Rightarrow> ustr \<times> PendingMemory list \<Rightarrow> PlannedGroup" where
  "plan_group active_keys active_content_hashes actives = (\<lambda>(key, candidates).
     let cs = sort_by (\<lambda>a b. cmp_str (pm_item_id a) (pm_item_id b)) candidates;
         d = digest_group key cs active_keys active_content_hashes actives in
     \<lparr>pg_digest = d, pg_candidates = cs,
      pg_conflict = (if mg_state d = NeedsReview
        then detect_active_conflict cs (mg_source_repo d) (mg_file_patterns d) actives else None)\<rparr>)"

definition active_key_set :: "ActiveMemory list \<Rightarrow> ustr set" where
  "active_key_set actives = set (map active_memory_key actives)"

definition active_hash_set :: "ActiveMemory list \<Rightarrow> ustr set" where
  "active_hash_set actives = set (List.map_filter am_content_hash actives)"

fun group_rank :: "MemoryCandidateGroupState \<Rightarrow> nat" where
  "group_rank AutoEnable = 0"
| "group_rank Recommended = 1"
| "group_rank NeedsReview = 2"
| "group_rank AlreadyActive = 3"

definition cmp_planned :: "PlannedGroup \<Rightarrow> PlannedGroup \<Rightarrow> ordering" where
  "cmp_planned a b =
     then_with (cmp_nat (group_rank (mg_state (pg_digest a))) (group_rank (mg_state (pg_digest b))))
      (then_with (cmp_nat (length (pg_candidates b)) (length (pg_candidates a)))
        (cmp_str (mg_title (pg_digest a)) (mg_title (pg_digest b))))"

definition count_pending_kind :: "PlannedGroup list \<Rightarrow> bool \<Rightarrow> nat" where
  "count_pending_kind groups session =
     length (filter (\<lambda>c. is_session c = session)
       (concat (map pg_candidates (filter (\<lambda>g. mg_state (pg_digest g) \<noteq> AlreadyActive) groups))))"

definition count_state :: "MemoryCandidateGroupState \<Rightarrow> PlannedGroup list \<Rightarrow> nat" where
  "count_state s groups = length (filter (\<lambda>g. mg_state (pg_digest g) = s) groups)"

definition digest_counts :: "ActiveMemory list \<Rightarrow> PlannedGroup list \<Rightarrow> MemoryDigestCounts" where
  "digest_counts actives groups =
     \<lparr>n_active_rules = int (length actives), n_pending_drafts = int (count_pending_kind groups False),
      n_pending_session_candidates = int (count_pending_kind groups True),
      n_auto_enable_groups = count_state AutoEnable groups, n_recommended_groups = count_state Recommended groups,
      n_needs_review_groups = count_state NeedsReview groups\<rparr>"

definition next_actions :: "MemoryDigestCounts \<Rightarrow> ustr list" where
  "next_actions counts =
     (let actions = (if n_recommended_groups counts > 0 then [lit ''difflore rules recommended''] else [])
            @ (if n_needs_review_groups counts > 0 then [lit ''difflore rules review''] else [])
            @ (if n_auto_enable_groups counts > 0 then [lit ''difflore rules log''] else []) in
      if actions = [] then [lit ''difflore recall <question-or-file>''] else actions)"

definition digest_rule :: "ActiveMemory \<Rightarrow> MemoryDigestRule" where
  "digest_rule r = \<lparr>dr_item_id = am_item_id r, dr_rule_id = am_rule_id r, dr_title = am_title r, dr_origin = am_origin r,
     dr_source_repo = am_source_repo r, dr_file_patterns = am_file_patterns r, dr_updated_at = am_updated_at r\<rparr>"

definition memory_digest ::
  "nat \<Rightarrow> 'f MemoryAutopilotScheduleStatus \<Rightarrow> ActiveMemory list \<Rightarrow> PlannedGroup list \<Rightarrow> 'f MemoryDigest" where
  "memory_digest limit status actives groups =
     \<lparr>md_schema_version = MEMORY_AUTOPILOT_SCHEMA_VERSION, md_counts = digest_counts actives groups,
      md_autopilot = status, md_active_rules = map digest_rule (take 50 actives),
      md_candidate_groups = map pg_digest (take limit groups), md_next_actions = next_actions (digest_counts actives groups),
      md_note = lit ''Autopilot only enables high-confidence local rules. Team sharing stays explicit.''\<rparr>"

definition finish_plan ::
  "'f plan_env \<Rightarrow> nat \<Rightarrow> BuildPlanOptions \<Rightarrow> ActiveMemory list \<Rightarrow> memory_group list \<Rightarrow> ('x plan_db_scheme, 'f MemoryPlan) io" where
  "finish_plan E limit options actives gs =
     andthen (apply_cached_curator_recommendations E
       (map (plan_group (active_key_set actives) (active_hash_set actives) actives) gs)) (\<lambda>cached.
     andthen (if bp_local_ai_curator options
              then refine_pr_review_groups_with_local_ai E cached (bp_curator_max_candidates options)
              else ret cached) (\<lambda>refined.
     let groups = sort_by cmp_planned refined in
     andthen (load_autopilot_schedule_status (pe_parse_json E)) (\<lambda>status.
       ret \<lparr>mp_digest = memory_digest limit status actives groups, mp_groups = groups, mp_active_rules = actives\<rparr>)))"

text \<open>
  \<^const>\<open>group_pending_memories\<close> always has a result; the first branch of the case is never taken.
\<close>

definition build_plan ::
  "'f plan_env \<Rightarrow> (nat \<Rightarrow> ('x plan_db_scheme, LocalDiscovery list) io) \<Rightarrow> nat \<Rightarrow> BuildPlanOptions \<Rightarrow> ('x plan_db_scheme, 'f MemoryPlan) io" where
  "build_plan E inbox limit options =
     andthen (load_active_rules (je_parse_list E) (pe_datetime E) MAX_PENDING_SCAN) (\<lambda>actives.
     andthen (load_pending_memories (je_parse_list E) inbox MAX_PENDING_SCAN) (\<lambda>pendings.
     case group_pending_memories pendings of
       None \<Rightarrow> fail []
     | Some gs \<Rightarrow> finish_plan E limit options actives gs))"

definition load_memory_digest ::
  "'f plan_env \<Rightarrow> (nat \<Rightarrow> ('x plan_db_scheme, LocalDiscovery list) io) \<Rightarrow> nat \<Rightarrow> ('x plan_db_scheme, 'f MemoryDigest) io" where
  "load_memory_digest E inbox limit =
     andthen (build_plan E inbox (normalize_limit limit) \<lparr>bp_local_ai_curator = False, bp_curator_max_candidates = None\<rparr>)
       (\<lambda>plan. ret (mp_digest plan))"

section \<open>What the curator may change\<close>

lemma with_reason_frame [simp]:
  "pg_candidates (with_reason r g) = pg_candidates g" "mg_state (pg_digest (with_reason r g)) = mg_state (pg_digest g)"
  by (simp_all add: with_reason_def)

text \<open>A decision that enables a rule, and whose text passes the safety gate.\<close>

definition safe_enable :: "MemoryCuratorDecision \<Rightarrow> bool" where
  "safe_enable d \<longleftrightarrow> cd_action d = EnableRule
     \<and> curator_rule_is_safe (trimmed_or_empty (cd_title d)) (trimmed_or_empty (cd_rule d))"

lemma curator_decision_unsafe:
  "\<not> safe_enable decision \<Longrightarrow> pg_candidates (apply_curator_decision fixed2 decision options g) = pg_candidates g
     \<and> mg_state (pg_digest (apply_curator_decision fixed2 decision options g)) = mg_state (pg_digest g)"
  by (simp add: apply_curator_decision_def safe_enable_def Let_def)

lemma curator_decision_safe:
  fixes fixed2 :: "rat \<Rightarrow> ustr" and options :: MemoryCuratorOptions and g :: PlannedGroup
  assumes "safe_enable decision"
  defines "g' \<equiv> apply_curator_decision fixed2 decision options g"
  shows "pg_candidates g' = map_first (refine_candidate decision) (pg_candidates g)"
    "mg_title (pg_digest g') = trimmed_or_empty (cd_title decision)"
    "mg_file_patterns (pg_digest g') = merged_patterns (pg_candidates g')"
    "mg_state (pg_digest g') = (if min_confidence options \<le> cd_confidence decision then AutoEnable
       else if DEFAULT_RECOMMENDED_MIN_CONFIDENCE \<le> cd_confidence decision then Recommended else mg_state (pg_digest g))"
  using assms(1) unfolding g'_def apply_curator_decision_def safe_enable_def by (simp_all add: Let_def)

lemma curator_decision_AutoEnable:
  assumes "mg_state (pg_digest g) = NeedsReview"
    and "mg_state (pg_digest (apply_curator_decision fixed2 decision options g)) = AutoEnable"
  shows "safe_enable decision \<and> min_confidence options \<le> cd_confidence decision"
  using assms curator_decision_unsafe [of decision fixed2 options g] curator_decision_safe(4) [of decision fixed2 options g]
  by (cases "safe_enable decision") (auto split: if_splits)

text \<open>
  C34. The curator decides about a group exactly as its thresholds say. Unless it enables with a text that
  passes the safety gate, the draft and its state stay as they are; otherwise the draft takes over the
  curator's title and rule, the group is enabled from the configured confidence on, recommended from 0.7
  on, and left for review below. The identity of the group and the items behind it never change.
\<close>

theorem curator_decision_exact:
  assumes "mg_state (pg_digest g) = NeedsReview"
  shows "let g' = apply_curator_decision fixed2 decision options g in
    (mg_state (pg_digest g') = AutoEnable \<longleftrightarrow> safe_enable decision \<and> min_confidence options \<le> cd_confidence decision)
    \<and> (mg_state (pg_digest g') = Recommended \<longleftrightarrow> safe_enable decision
          \<and> DEFAULT_RECOMMENDED_MIN_CONFIDENCE \<le> cd_confidence decision \<and> cd_confidence decision < min_confidence options)
    \<and> mg_state (pg_digest g') \<noteq> AlreadyActive
    \<and> pg_candidates g' = (if safe_enable decision then map_first (refine_candidate decision) (pg_candidates g) else pg_candidates g)
    \<and> mg_group_id (pg_digest g') = mg_group_id (pg_digest g) \<and> mg_item_ids (pg_digest g') = mg_item_ids (pg_digest g)"
proof -
  let ?g' = "apply_curator_decision fixed2 decision options g"
  have ids: "mg_group_id (pg_digest ?g') = mg_group_id (pg_digest g) \<and> mg_item_ids (pg_digest ?g') = mg_item_ids (pg_digest g)"
    by (simp add: apply_curator_decision_def with_reason_def Let_def)
  show ?thesis
  proof (cases "safe_enable decision")
    case True
    with ids assms(1) show ?thesis
      by (auto simp: curator_decision_safe not_le Let_def)
  next
    case False
    with ids assms(1) show ?thesis
      by (simp add: curator_decision_unsafe Let_def)
  qed
qed

text \<open>A draft whose rule is refined with a confidence of 0.9.\<close>

definition demo_group :: PlannedGroup where
  "demo_group = plan_group {} {} []
     (lit ''k'', [demo_memory\<lparr>pm_origin := lit ''pr_review'', pm_title := lit ''Prefer serde'', pm_kind := Draft (lit ''d''),
        pm_source_repo := Some (lit ''acme/app''), pm_file_patterns := [lit ''api/*.rs'']\<rparr>])"

definition demo_enable :: MemoryCuratorDecision where
  "demo_enable = \<lparr>cd_group_id = lit ''k'', cd_action = EnableRule, cd_confidence = 9 / 10,
     cd_title = Some (lit ''Use serde for payloads''),
     cd_rule = Some (lit ''Use serde_json structs for every payload of the API so that fields stay typed.''),
     cd_reason = None, cd_scope = None\<rparr>"

theorem curator_decision_exact_witness:
  "mg_state (pg_digest (apply_curator_decision (\<lambda>_. []) demo_enable default_curator_options demo_group)) = AutoEnable"
proof -
  have "mg_state (pg_digest demo_group) = NeedsReview" by code_simp
  moreover have "safe_enable demo_enable" by code_simp
  moreover have "min_confidence default_curator_options \<le> cd_confidence demo_enable" by code_simp
  ultimately show ?thesis using curator_decision_exact [of demo_group "\<lambda>_. []" demo_enable default_curator_options]
    unfolding Let_def by blast
qed

section \<open>Where an enabled group comes from\<close>

lemma map_io_mem:
  "map_io f xs w = (Inr ys, w') \<Longrightarrow> y \<in> set ys \<Longrightarrow> \<exists>x \<in> set xs. \<exists>w1 w2. f x w1 = (Inr y, w2)"
proof (induction xs arbitrary: ys w w')
  case (Cons x xs)
  from Cons.prems(1) obtain z w1 zs w2 where z: "f x w = (Inr z, w1)" and zs: "map_io f xs w1 = (Inr zs, w2)" and ys: "ys = z # zs"
    by (auto simp: ret_def elim!: andthen_InrE)
  show ?case
  proof (cases "y = z")
    case False
    with Cons.prems(2) ys Cons.IH [OF zs] show ?thesis by auto
  qed (use z in auto)
qed (simp add: ret_def)

lemma cached_AutoEnable:
  assumes "mg_state (pg_digest (apply_cached_curator_recommendation cached g)) = AutoEnable" "mg_state (pg_digest g) = NeedsReview"
  shows "cq_state cached = AutoEnable"
  using assms by (auto simp: apply_cached_curator_recommendation_def Let_def split: if_splits)

text \<open>The groups of the plan before any answer of the curator, and the candidates it is asked about.\<close>

definition planned_groups :: "ActiveMemory list \<Rightarrow> memory_group list \<Rightarrow> PlannedGroup list" where
  "planned_groups actives gs = map (plan_group (active_key_set actives) (active_hash_set actives) actives) gs"

definition submitted_candidates :: "MemoryCuratorOptions \<Rightarrow> PlannedGroup list \<Rightarrow> MemoryCuratorCandidate list" where
  "submitted_candidates options groups = List.map_filter pr_review_curator_candidate
     (take (max_candidates options) (filter pr_review_group_needs_ai_refinement groups))"

definition stored_recommendations ::
  "'f plan_env \<Rightarrow> recommendation_row list \<Rightarrow> (ustr \<rightharpoonup> CachedCuratorRecommendation)" where
  "stored_recommendations E rows = map_of (rev (List.map_filter (cached_from_row (je_parse_list E)) rows))"

definition enabled_from_cache :: "'f plan_env \<Rightarrow> recommendation_row list \<Rightarrow> PlannedGroup \<Rightarrow> PlannedGroup \<Rightarrow> bool" where
  "enabled_from_cache E rows g0 g \<longleftrightarrow> (\<exists>row \<in> set rows. \<exists>cached.
     cached_from_row (je_parse_list E) row = Some (mg_group_id (pg_digest g0), cached)
     \<and> cached_applies (je_sha E) g0 cached \<and> cq_state cached = AutoEnable
     \<and> g = apply_cached_curator_recommendation cached g0)"

text \<open>
  Enabled by the answer the curator gives to this very submission: \<open>groups\<close> are all groups of the plan, \<open>g1\<close>
  is the group before and \<open>g\<close> the group after.
\<close>

definition enabled_by_curator ::
  "'f plan_env \<Rightarrow> MemoryCuratorOptions \<Rightarrow> PlannedGroup list \<Rightarrow> PlannedGroup \<Rightarrow> PlannedGroup \<Rightarrow> bool" where
  "enabled_by_curator E options groups g1 g \<longleftrightarrow> (\<exists>out decision.
     pr_review_group_needs_ai_refinement g1
     \<and> mg_group_id (pg_digest g1) \<in> cc_group_id ` set (submitted_candidates options groups)
     \<and> curate_memory_candidates_with_local_ai (pe_curator_json E) (pe_pretty_candidates E) (je_ask E)
         (submitted_candidates options groups) options = Inr out
     \<and> co_unavailable_reason out = None
     \<and> curator_decisions_by_group (co_decisions out) (mg_group_id (pg_digest g1)) = Some decision
     \<and> safe_enable decision \<and> min_confidence options \<le> cd_confidence decision
     \<and> g = apply_curator_decision (pe_fixed2 E) decision options g1)"

lemma with_cached_cases:
  assumes "mg_state (pg_digest (with_cached_recommendation sha recs g)) = AutoEnable"
    and "recs = stored_recommendations E rows" and "je_sha E = sha"
  shows "(with_cached_recommendation sha recs g = g) \<or> enabled_from_cache E rows g (with_cached_recommendation sha recs g)"
proof (cases "recs (mg_group_id (pg_digest g))")
  case None
  then show ?thesis by (simp add: with_cached_recommendation_def)
next
  case (Some cached)
  then have "(mg_group_id (pg_digest g), cached) \<in> set (List.map_filter (cached_from_row (je_parse_list E)) rows)"
    using assms(2) map_of_SomeD by (fastforce simp: stored_recommendations_def)
  then obtain row where "row \<in> set rows" "cached_from_row (je_parse_list E) row = Some (mg_group_id (pg_digest g), cached)"
    by (force simp: List.map_filter_def)
  with Some assms show ?thesis
    using cached_AutoEnable [of cached g]
    by (auto simp: with_cached_recommendation_def enabled_from_cache_def cached_applies_def split: if_splits)
qed

lemma curator_step_AutoEnable:
  assumes "curator_group_step E options S ds g w = (Inr g', w')" "mg_state (pg_digest g') = AutoEnable" "g' \<noteq> g"
  shows "\<exists>decision. pr_review_group_needs_ai_refinement g \<and> mg_group_id (pg_digest g) \<in> S
    \<and> ds (mg_group_id (pg_digest g)) = Some decision
    \<and> safe_enable decision \<and> min_confidence options \<le> cd_confidence decision
    \<and> g' = apply_curator_decision (pe_fixed2 E) decision options g"
proof (cases "pr_review_group_needs_ai_refinement g \<and> mg_group_id (pg_digest g) \<in> S")
  case False
  with assms(1,3) show ?thesis by (auto simp: curator_group_step_def ret_def)
next
  case True
  then have nr: "mg_state (pg_digest g) = NeedsReview" by (simp add: pr_review_group_needs_ai_refinement_def)
  show ?thesis
  proof (cases "ds (mg_group_id (pg_digest g))")
    case None
    with True assms nr show ?thesis by (auto simp: curator_group_step_def ret_def)
  next
    case (Some decision)
    with True assms(1) have g': "g' = apply_curator_decision (pe_fixed2 E) decision options g"
      by (auto simp: curator_group_step_def Let_def skip_result_def ret_def elim!: andthen_InrE)
    with assms(2) curator_decision_AutoEnable [OF nr] True Some show ?thesis by blast
  qed
qed

lemma unavailable_AutoEnable:
  "g \<in> set (mark_ai_refinement_unavailable detail gs) \<Longrightarrow> mg_state (pg_digest g) = AutoEnable \<Longrightarrow> g \<in> set gs"
  by (auto simp: mark_ai_refinement_unavailable_def pr_review_group_needs_ai_refinement_def split: if_splits)

lemma curate_groups_AutoEnable:
  fixes w :: "'x plan_db_scheme world"
  assumes "curate_groups E gs options w = (Inr gs', w')" "g \<in> set gs'" "mg_state (pg_digest g) = AutoEnable"
  shows "g \<in> set gs \<or> (\<exists>g1 \<in> set gs. enabled_by_curator E options gs g1 g)"
proof -
  let ?cands = "submitted_candidates options gs"
  show ?thesis
  proof (cases "?cands = []")
    case True
    with assms show ?thesis by (simp add: curate_groups_def submitted_candidates_def ret_def)
  next
    case False
    with assms(1) obtain out where out: "curate_memory_candidates_with_local_ai (pe_curator_json E) (pe_pretty_candidates E)
        (je_ask E) ?cands options = Inr out"
      by (auto simp: curate_groups_def submitted_candidates_def Let_def fail_def split: sum.splits)
    show ?thesis
    proof (cases "co_unavailable_reason out")
      case (Some detail)
      with False out assms show ?thesis
        using unavailable_AutoEnable by (auto simp: curate_groups_def submitted_candidates_def Let_def ret_def)
    next
      case None
      with False out assms(1) have "map_io (curator_group_step E options (set (map cc_group_id ?cands))
          (curator_decisions_by_group (co_decisions out))) gs w = (Inr gs', w')"
        by (simp add: curate_groups_def submitted_candidates_def Let_def)
      from map_io_mem [OF this assms(2)] obtain g1 and w1 w2 :: "'x plan_db_scheme world" where g1: "g1 \<in> set gs"
        "curator_group_step E options (set (map cc_group_id ?cands)) (curator_decisions_by_group (co_decisions out)) g1 w1
           = (Inr g, w2)" by blast
      show ?thesis
      proof (cases "g = g1")
        case False
        from curator_step_AutoEnable [OF g1(2) assms(3) False] out None
        have "enabled_by_curator E options gs g1 g" unfolding enabled_by_curator_def set_map by blast
        with g1(1) show ?thesis by blast
      qed (use g1(1) in simp)
    qed
  qed
qed

lemma refine_AutoEnable:
  assumes "refine_pr_review_groups_with_local_ai E gs limit w = (Inr gs', w')" "g \<in> set gs'" "mg_state (pg_digest g) = AutoEnable"
  shows "g \<in> set gs \<or> (\<exists>g1 \<in> set gs. enabled_by_curator E (curator_options limit) gs g1 g)"
proof -
  have "\<exists>w1. curate_groups E gs (curator_options limit) w = (Inr gs', w1)"
    using assms(1) by (auto simp: refine_pr_review_groups_with_local_ai_def skip_result_def ret_def elim!: andthen_InrE)
  then show ?thesis using curate_groups_AutoEnable assms(2,3) by blast
qed

lemma read_stmt_InrD: "sql (\<lambda>d. (f d, d)) w = (Inr a, w') \<Longrightarrow> a = f (db w) \<and> db w' = db w"
  by (auto dest!: sql_InrD)

lemma nothing_stmt_InrD: "sql nothing_stmt w = (Inr a, w') \<Longrightarrow> db w' = db w"
  by (auto simp: nothing_stmt_def dest!: sql_InrD)

lemma load_recommendations_InrD:
  assumes "load_curator_recommendations parse w = (Inr recs, w')"
  shows "recs = map_of (rev (List.map_filter (cached_from_row parse) (recommendations (db w))))"
proof -
  obtain w1 w2 where 1: "sql nothing_stmt w = (Inr (), w1)" and 2: "sql nothing_stmt w1 = (Inr (), w2)"
    and 3: "sql (\<lambda>d. (map_of (rev (List.map_filter (cached_from_row parse) (recommendations d))), d)) w2 = (Inr recs, w')"
    using assms unfolding load_curator_recommendations_def ensure_curator_recommendations_table_def skip_result_def
    by (auto elim!: andthen_InrE)
  show ?thesis using nothing_stmt_InrD [OF 1] nothing_stmt_InrD [OF 2] read_stmt_InrD [OF 3] by simp
qed

lemma apply_cached_InrD:
  assumes "apply_cached_curator_recommendations E gs w = (Inr gs', w')"
  shows "gs' = map (with_cached_recommendation (je_sha E) (stored_recommendations E (recommendations (db w)))) gs"
proof -
  obtain recs where "load_curator_recommendations (je_parse_list E) w = (Inr recs, w')"
    "gs' = map (with_cached_recommendation (je_sha E) recs) gs"
    using assms by (auto simp: apply_cached_curator_recommendations_def ret_def elim!: andthen_InrE)
  with load_recommendations_InrD [OF this(1)] show ?thesis by (simp add: stored_recommendations_def)
qed

lemma load_pending_keeps_recommendations:
  assumes inbox: "\<And>n. stable recommendations (inbox n)"
    and "load_pending_memories parse inbox limit w = (Inr ps, w')"
  shows "recommendations (db w') = recommendations (db w)"
proof -
  have "keeps (\<lambda>d. recommendations d = rs) (load_pending_memories parse inbox limit)" for rs
    unfolding load_pending_memories_def load_autopilot_disabled_rule_ids_def list_candidates_def
      ensure_autopilot_events_table_def Let_def
    by (intro io_intros) (use inbox in \<open>auto simp: stable_iff_keeps\<close>)
  from keepsD [OF this, of w "recommendations (db w)"] assms(2) show ?thesis by simp
qed

text \<open>
  C4. Whatever the plan is going to enable by itself has one of three sources. The plan loads the active rules and the
  pending memories, groups and classifies them; a group it marks for enabling stems from one of these groups, and
  either is that very group, so that the deterministic classification said so; or is that group with a stored
  answer of the curator put on it, which wanted it enabled, under the current version of the rules and for an unchanged
  text; or the curator was asked now: the group only lacked a cleaner wording, it was among those submitted, the
  model's answer to this submission was readable, and its decision for the group enables it with a rule that passes the
  safety gate and at least the configured confidence. Reading the inbox, which is outside the model, is assumed to leave the stored answers alone.
\<close>

theorem plan_enables_from_known_sources:
  assumes "\<And>n. stable recommendations (inbox n)"
    and plan: "build_plan E inbox limit options w = (Inr plan, w')"
    and g: "g \<in> set (mp_groups plan)" "mg_state (pg_digest g) = AutoEnable"
  shows "\<exists>w1 pendings w2 gs.
    load_active_rules (je_parse_list E) (pe_datetime E) MAX_PENDING_SCAN w = (Inr (mp_active_rules plan), w1)
    \<and> load_pending_memories (je_parse_list E) inbox MAX_PENDING_SCAN w1 = (Inr pendings, w2)
    \<and> group_pending_memories pendings = Some gs
    \<and> (let planned = planned_groups (mp_active_rules plan) gs; rows = recommendations (db w);
           recs = stored_recommendations E rows; with_cache = with_cached_recommendation (je_sha E) recs in
       \<exists>g0 \<in> set planned. g = g0 \<or> enabled_from_cache E rows g0 g
         \<or> (bp_local_ai_curator options
            \<and> enabled_by_curator E (curator_options (bp_curator_max_candidates options)) (map with_cache planned)
                (with_cache g0) g))"
proof -
  from plan obtain actives w1 pendings w2 where
    actives: "load_active_rules (je_parse_list E) (pe_datetime E) MAX_PENDING_SCAN w = (Inr actives, w1)"
    and pendings: "load_pending_memories (je_parse_list E) inbox MAX_PENDING_SCAN w1 = (Inr pendings, w2)"
    and rest: "(case group_pending_memories pendings of None \<Rightarrow> fail [] | Some gs \<Rightarrow> finish_plan E limit options actives gs) w2 = (Inr plan, w')"
    unfolding build_plan_def by (auto elim!: andthen_InrE)
  have recs: "recommendations (db w2) = recommendations (db w)"
    using load_pending_keeps_recommendations [OF assms(1) pendings] read_stmt_InrD [OF actives [unfolded load_active_rules_def]] by simp
  obtain gs where gs: "group_pending_memories pendings = Some gs" using group_pending_partition by blast
  let ?planned = "planned_groups actives gs"
  let ?with_cache = "with_cached_recommendation (je_sha E) (stored_recommendations E (recommendations (db w)))"
  from rest obtain cached w3 refined w4 where cached: "apply_cached_curator_recommendations E ?planned w2 = (Inr cached, w3)"
    and refined: "(if bp_local_ai_curator options
                  then refine_pr_review_groups_with_local_ai E cached (bp_curator_max_candidates options)
                  else ret cached) w3 = (Inr refined, w4)"
    and mp: "mp_groups plan = sort_by cmp_planned refined" "mp_active_rules plan = actives"
    by (auto simp: gs finish_plan_def planned_groups_def ret_def Let_def elim!: andthen_InrE)
  have cached_eq: "cached = map ?with_cache ?planned" using apply_cached_InrD [OF cached] recs by simp
  have "g \<in> set refined" using g(1) mp(1) by simp
  then consider "g \<in> set cached"
    | "bp_local_ai_curator options"
      "\<exists>g1 \<in> set cached. enabled_by_curator E (curator_options (bp_curator_max_candidates options)) cached g1 g"
    using refined g(2) refine_AutoEnable by (cases "bp_local_ai_curator options") (fastforce simp: ret_def)+
  then have "\<exists>g0 \<in> set ?planned. g = g0 \<or> enabled_from_cache E (recommendations (db w)) g0 g
      \<or> (bp_local_ai_curator options
         \<and> enabled_by_curator E (curator_options (bp_curator_max_candidates options)) cached (?with_cache g0) g)"
  proof cases
    case 1
    then obtain g0 where "g0 \<in> set ?planned" "g = ?with_cache g0" using cached_eq by auto
    then show ?thesis using with_cached_cases [OF _ refl refl] g(2) by metis
  qed (use cached_eq in auto)
  with actives pendings gs mp(2) show ?thesis unfolding Let_def cached_eq by blast
qed

text \<open>A draft from a review with its evidence; it is enabled by the classification alone.\<close>

definition demo_env :: "unit plan_env" where
  "demo_env = judge_env.extend (demo_judge\<lparr>je_parse_list := \<lambda>_. Some [lit ''api/*.rs'']\<rparr>)
     \<lparr>pe_curator_json = demo_curator_json, pe_pretty_candidates = \<lambda>_. Inr [], pe_fixed2 = \<lambda>_. [],
      pe_datetime = Some, pe_parse_json = \<lambda>_. None\<rparr>"

definition demo_clean_draft :: skill_row where
  "demo_clean_draft = (demo_draft ''d'')\<lparr>sk_name := lit ''Use serde for payloads'', sk_source_repo := Some (lit ''acme/app''),
     sk_file_patterns := Some (lit ''x''),
     sk_description := lit ''Rule: Use serde_json structs for every payload of the API so that fields stay typed.''
       @ [newline, newline] @ lit ''Source evidence:'' @ [newline] @ lit ''Source: acme/app#1''\<rparr>"

definition demo_plan_world :: "plan_db world" where
  "demo_plan_world = \<lparr>db = \<lparr>schedule = Some default_row, events = [], skills = [demo_clean_draft], rejected_signatures = [],
      rule_events = [], conflicts = [], recommendations = []\<rparr>,
     clock = (\<lambda>_. 0), clock_reads = 0, sql_fault = (\<lambda>_. None), sql_calls = 0\<rparr>"

definition demo_plan_options :: BuildPlanOptions where
  "demo_plan_options = \<lparr>bp_local_ai_curator = False, bp_curator_max_candidates = None\<rparr>"

text \<open>
  A draft that only lacks a cleaner wording, and a curator that is asked and clears it with a confidence of 0.95.
\<close>

definition demo_answer :: AiCuratorDecision where
  "demo_answer = \<lparr>ai_group_id = lit ''acme/app:use-serde-payloads-serde:api/*.rs'', ai_action = lit ''enable'',
     ai_confidence = Finite (95 / 100), ai_title = Some (lit ''Use serde for payloads''),
     ai_rule = Some (lit ''Use serde_json structs for every payload of the API so that fields stay typed.''),
     ai_reason = None, ai_scope = None\<rparr>"

definition demo_asking_env :: "unit plan_env" where
  "demo_asking_env = demo_env\<lparr>pe_curator_json := demo_curator_json\<lparr>cj_decode_list := \<lambda>_. Inr [demo_answer]\<rparr>\<rparr>"

definition demo_asking_world :: "plan_db world" where
  "demo_asking_world = demo_plan_world\<lparr>db := (db demo_plan_world)\<lparr>skills :=
     [demo_clean_draft\<lparr>sk_description := lit ''Prefer serde''\<rparr>]\<rparr>\<rparr>"

definition demo_asking_options :: BuildPlanOptions where
  "demo_asking_options = \<lparr>bp_local_ai_curator = True, bp_curator_max_candidates = None\<rparr>"

abbreviation demo_asking_rules :: "(ustr + ActiveMemory list) \<times> plan_db world" where
  "demo_asking_rules \<equiv> load_active_rules (je_parse_list demo_asking_env) (pe_datetime demo_asking_env) MAX_PENDING_SCAN demo_asking_world"

lemma demo_asking_plan:
  "(case fst (build_plan demo_asking_env (\<lambda>_. ret []) 10 demo_asking_options demo_asking_world) of
      Inr plan \<Rightarrow> map (\<lambda>g. mg_state (pg_digest g)) (mp_groups plan) = [AutoEnable] | Inl _ \<Rightarrow> False)"
  by code_simp

lemma demo_asking_rules_empty: "fst demo_asking_rules = Inr []"
  by code_simp

lemma demo_asking_classified:
  "(case fst (load_pending_memories (je_parse_list demo_asking_env) (\<lambda>_. ret []) MAX_PENDING_SCAN (snd demo_asking_rules)) of
      Inr ps \<Rightarrow> (case group_pending_memories ps of
          Some gs \<Rightarrow> list_all (\<lambda>g. mg_state (pg_digest g) = NeedsReview) (planned_groups [] gs) | None \<Rightarrow> False)
    | Inl _ \<Rightarrow> False)"
  by code_simp

theorem plan_enables_from_known_sources_witness:
  "\<exists>plan g groups g1. fst (build_plan demo_asking_env (\<lambda>_. ret []) 10 demo_asking_options demo_asking_world) = Inr plan
     \<and> mp_groups plan = [g] \<and> enabled_by_curator demo_asking_env (curator_options None) groups g1 g"
proof -
  let ?r = "build_plan demo_asking_env (\<lambda>_. ret []) 10 demo_asking_options demo_asking_world"
  obtain plan where plan: "?r = (Inr plan, snd ?r)"
    using demo_asking_plan by (cases ?r) (auto split: sum.splits)
  with demo_asking_plan obtain g where g: "mp_groups plan = [g]" "mg_state (pg_digest g) = AutoEnable"
    by (cases ?r) (auto split: sum.splits)
  have "stable recommendations (ret [] :: (plan_db, LocalDiscovery list) io)" by (simp add: stable_def ret_def)
  from plan_enables_from_known_sources [OF this plan, of g] g
  obtain w1 pendings w2 gs g0 where w1: "demo_asking_rules = (Inr (mp_active_rules plan), w1)"
    and pendings: "load_pending_memories (je_parse_list demo_asking_env) (\<lambda>_. ret []) MAX_PENDING_SCAN w1 = (Inr pendings, w2)"
    and gs: "group_pending_memories pendings = Some gs"
    and g0: "g0 \<in> set (planned_groups (mp_active_rules plan) gs)"
    and src: "g = g0 \<or> enabled_from_cache demo_asking_env (recommendations (db demo_asking_world)) g0 g
       \<or> (\<exists>groups g1. enabled_by_curator demo_asking_env (curator_options None) groups g1 g)"
    unfolding Let_def demo_asking_options_def by (auto; blast)
  have "mp_active_rules plan = []" "w1 = snd demo_asking_rules" using demo_asking_rules_empty w1 by simp_all
  with demo_asking_classified pendings gs g0 have "mg_state (pg_digest g0) = NeedsReview"
    by (auto simp: list_all_iff)
  with g(2) have "g \<noteq> g0" by auto
  moreover have "\<not> enabled_from_cache demo_asking_env (recommendations (db demo_asking_world)) g0 g"
    by (simp add: enabled_from_cache_def demo_asking_world_def demo_plan_world_def)
  ultimately show ?thesis using src plan g(1) by (metis fst_conv)
qed

text \<open>
  The hash that guards a cached recommendation covers the draft alone. When a rule that opposes the
  draft has become active since, the classification asks for a review and names the conflict, and the old recommendation
  then enables the draft all the same.
\<close>

definition demo_conflicting :: PlannedGroup where
  "demo_conflicting = plan_group {} {} [demo_active]
     (lit ''k'', [demo_memory\<lparr>pm_origin := lit ''pr_review'', pm_title := lit ''Prefer serde'', pm_kind := Draft (lit ''d''),
        pm_source_repo := Some (lit ''acme/app''), pm_file_patterns := [lit ''api/*.rs'']\<rparr>])"

definition demo_cached :: CachedCuratorRecommendation where
  "demo_cached = \<lparr>cq_input_hash = group_input_hash (\<lambda>s. s) demo_conflicting, cq_state = AutoEnable, cq_confidence = None,
     cq_title = lit ''Prefer serde'', cq_rule = lit ''Prefer serde'', cq_file_patterns = [lit ''api/*.rs''], cq_reason = [],
     cq_prompt_version = MEMORY_AUTOPILOT_SCHEMA_VERSION\<rparr>"

theorem cached_recommendation_overrides_conflict:
  "pg_conflict demo_conflicting \<noteq> None \<and> mg_state (pg_digest demo_conflicting) = NeedsReview
    \<and> mg_state (pg_digest (with_cached_recommendation (\<lambda>s. s) [lit ''k'' \<mapsto> demo_cached] demo_conflicting)) = AutoEnable"
  by code_simp

end
