(* ===== verification/Memory_Run.thy ===== *)
theory Memory_Run
  imports Memory_Plan
begin

text \<open>
  A run of the memory autopilot (\<^verbatim>\<open>memory_autopilot/run.rs\<close>): enabling the groups the plan is sure about, up to a
  limit, recording what was done, and the commands by which a person approves or disables a rule
  (\<^verbatim>\<open>memory_autopilot/log.rs\<close>).

  Approving a discovery and the triage of the queue belong to \<^verbatim>\<open>memory_inbox.rs\<close> and
  \<^verbatim>\<open>memory_autopilot/triage.rs\<close> and are arguments.
\<close>

section \<open>Data\<close>

record MemoryAutopilotAction =
  ma_group_id :: ustr
  ma_title :: ustr
  ma_rule_id :: "ustr option"
  ma_item_ids :: "ustr list"
  ma_reason :: ustr
  ma_dry_run :: bool

record MemoryAutopilotSkip =
  ms_group_id :: ustr
  ms_title :: ustr
  ms_item_ids :: "ustr list"
  ms_reason :: ustr

record 'f MemoryAutopilotRunReport =
  ar_dry_run :: bool
  ar_max_auto_enable :: nat
  ar_auto_enabled :: "MemoryAutopilotAction list"
  ar_skipped :: "MemoryAutopilotSkip list"
  ar_digest :: "'f MemoryDigest"

record MemoryDisableOutcome =
  do_rule_id :: ustr
  do_item_id :: ustr
  do_title :: ustr
  do_previous_state :: ustr
  do_current_state :: ustr
  do_reason :: ustr

record 'f run_env = "'f plan_env" +
  ru_to_text :: "'f json \<Rightarrow> ustr"
  ru_show_datetime :: "int \<Rightarrow> ustr"
  ru_event_id :: "ustr \<Rightarrow> ustr"

text \<open>The parts of the program that are called and not modelled.\<close>

record 'd run_parts =
  rp_inbox :: "nat \<Rightarrow> ('d, LocalDiscovery list) io"
  rp_approve :: "ustr \<Rightarrow> ('d, core_error + skill_row) io"
  rp_mark_approved :: "ustr \<Rightarrow> ustr \<Rightarrow> ('d, core_error + unit) io"
  rp_triage :: "PlannedGroup list \<Rightarrow> ActiveMemory list \<Rightarrow> ('d, bool) io"

text \<open>An error of \<^verbatim>\<open>CoreError\<close> as a result, passed on with \<^verbatim>\<open>?\<close>.\<close>

definition or_refuse :: "('d, core_error + 'a) io \<Rightarrow> ('a \<Rightarrow> ('d, core_error + 'b) io) \<Rightarrow> ('d, core_error + 'b) io" where
  "or_refuse m f = andthen m (\<lambda>r. case r of Inl e \<Rightarrow> ret (Inl e) | Inr a \<Rightarrow> f a)"

definition normalize_autopilot_limit :: "nat \<Rightarrow> nat" where
  "normalize_autopilot_limit limit = (if limit = 0 then DEFAULT_AUTOPILOT_LIMIT else min limit MAX_AUTOPILOT_LIMIT)"

definition normalize_rule_id :: "ustr \<Rightarrow> ustr" where
  "normalize_rule_id rule_id =
     trim (case strip_prefix (trim rule_id) (lit ''rule:'') of Some r \<Rightarrow> r | None \<Rightarrow> trim rule_id)"

section \<open>Writing the refined text back\<close>

definition rewrite_draft_description :: "ustr \<Rightarrow> ustr \<Rightarrow> ustr" where
  "rewrite_draft_description raw_description refined_rule =
     (case split_once_str (lit ''Source evidence:'') raw_description of
        Some (_, evidence) \<Rightarrow> lit ''Rule:'' @ [newline] @ trim refined_rule @ [newline, newline]
          @ lit ''Source evidence:'' @ [newline] @ trim evidence
      | None \<Rightarrow> lit ''Rule:'' @ [newline] @ trim refined_rule)"

definition refined_draft_stmt ::
  "(int \<Rightarrow> ustr) \<Rightarrow> ustr \<Rightarrow> ustr \<Rightarrow> ustr \<Rightarrow> ustr option \<Rightarrow> int \<Rightarrow> 'x skill_db_scheme \<Rightarrow> unit \<times> 'x skill_db_scheme" where
  "refined_draft_stmt show_datetime i new_name description patterns now d =
     ((), d\<lparr>skills := map (\<lambda>r. if is_draft i r
        then r\<lparr>sk_name := new_name, sk_description := description, sk_file_patterns := patterns,
               sk_updated_at := Some (show_datetime (datetime_now now))\<rparr> else r) (skills d)\<rparr>)"

definition update_pending_draft_with_refined_rule ::
  "'f run_env \<Rightarrow> ustr \<Rightarrow> PendingMemory \<Rightarrow> ('x skill_db_scheme, unit) io" where
  "update_pending_draft_with_refined_rule E draft_id candidate =
     (case pm_raw_description candidate of
        None \<Rightarrow> ret ()
      | Some raw \<Rightarrow>
          sql_now (refined_draft_stmt (ru_show_datetime E) draft_id (pm_title candidate)
            (rewrite_draft_description raw (pm_body candidate))
            (if pm_file_patterns candidate = [] then None else Some (je_list_json E (pm_file_patterns candidate)))))"

section \<open>Enabling\<close>

fun mark_sessions :: "'d run_parts \<Rightarrow> ustr \<Rightarrow> PendingMemory list \<Rightarrow> ('d, core_error + unit) io" where
  "mark_sessions P rule_id [] = ret (Inr ())"
| "mark_sessions P rule_id (c # cs) =
     (case pm_kind c of
        Draft _ \<Rightarrow> mark_sessions P rule_id cs
      | Session h \<Rightarrow> or_refuse (rp_mark_approved P h rule_id) (\<lambda>_. mark_sessions P rule_id cs))"

definition enable_group ::
  "'f run_env \<Rightarrow> 'x plan_db_scheme run_parts \<Rightarrow> PendingMemory list \<Rightarrow> ('x plan_db_scheme, core_error + skill_row) io" where
  "enable_group E P candidates =
     (case primary_candidate candidates of
        None \<Rightarrow> ret (Inl (Validation (lit ''cannot enable an empty rule candidate group'')))
      | Some primary \<Rightarrow>
          or_refuse (case pm_kind primary of
              Draft i \<Rightarrow> skip_result (update_pending_draft_with_refined_rule E i primary) (promote_candidate (ru_event_id E i) i)
            | Session h \<Rightarrow> rp_approve P h) (\<lambda>rule.
          or_refuse (mark_sessions P (sk_id rule) candidates) (\<lambda>_. ret (Inr rule))))"

definition action_of :: "PlannedGroup \<Rightarrow> ustr option \<Rightarrow> bool \<Rightarrow> MemoryAutopilotAction" where
  "action_of g rule_id dry =
     \<lparr>ma_group_id = mg_group_id (pg_digest g), ma_title = mg_title (pg_digest g), ma_rule_id = rule_id,
      ma_item_ids = mg_item_ids (pg_digest g), ma_reason = mg_reason (pg_digest g), ma_dry_run = dry\<rparr>"

definition skip_of :: "PlannedGroup \<Rightarrow> ustr \<Rightarrow> MemoryAutopilotSkip" where
  "skip_of g reason =
     \<lparr>ms_group_id = mg_group_id (pg_digest g), ms_title = mg_title (pg_digest g),
      ms_item_ids = mg_item_ids (pg_digest g), ms_reason = reason\<rparr>"

definition enabled_event :: "'f run_env \<Rightarrow> string \<Rightarrow> string \<Rightarrow> skill_row \<Rightarrow> MemoryAutopilotAction \<Rightarrow> autopilot_event" where
  "enabled_event E ty channel rule a =
     \<lparr>event_type = lit ty, event_rule_id = Some (sk_id rule), event_item_ids = ma_item_ids a,
      event_group_id = Some (ma_group_id a), event_title = ma_title a, event_reason = ma_reason a,
      event_payload = ru_to_text E (JObject [(lit ''ruleId'', JString (sk_id rule)),
        (lit ''ruleTitle'', JString (sk_name rule)), (lit ''source'', JString (lit channel))])\<rparr>"

definition error_text :: "core_error \<Rightarrow> ustr" where
  "error_text e = (case e of Validation m \<Rightarrow> lit ''Validation error: '' @ m | NotFound m \<Rightarrow> lit ''Not found: '' @ m)"

definition add_action :: "MemoryAutopilotAction \<Rightarrow> MemoryAutopilotAction list \<times> MemoryAutopilotSkip list
    \<Rightarrow> MemoryAutopilotAction list \<times> MemoryAutopilotSkip list" where
  "add_action a = (\<lambda>(acts, skips). (a # acts, skips))"

definition add_skip :: "MemoryAutopilotSkip \<Rightarrow> MemoryAutopilotAction list \<times> MemoryAutopilotSkip list
    \<Rightarrow> MemoryAutopilotAction list \<times> MemoryAutopilotSkip list" where
  "add_skip s = (\<lambda>(acts, skips). (acts, s # skips))"

text \<open>
  The loop over the groups. \<open>applied\<close> counts what was enabled; a draft that cannot be enabled is skipped, an error of the database ends the run.
\<close>

fun run_groups ::
  "'f run_env \<Rightarrow> 'x plan_db_scheme run_parts \<Rightarrow> bool \<Rightarrow> nat \<Rightarrow> nat \<Rightarrow> PlannedGroup list
    \<Rightarrow> ('x plan_db_scheme, MemoryAutopilotAction list \<times> MemoryAutopilotSkip list) io" where
  "run_groups E P dry max_enable applied [] = ret ([], [])"
| "run_groups E P dry max_enable applied (g # gs) =
     (if mg_state (pg_digest g) = AutoEnable \<and> applied < max_enable then
        (if dry then
           andthen (run_groups E P dry max_enable (Suc applied) gs) (\<lambda>r. ret (add_action (action_of g None True) r))
         else
           andthen (enable_group E P (pg_candidates g)) (\<lambda>result.
             case result of
               Inl err \<Rightarrow>
                 andthen (run_groups E P dry max_enable applied gs) (\<lambda>r.
                   ret (add_skip (skip_of g (lit ''skipped (enable failed): '' @ error_text err)) r))
             | Inr rule \<Rightarrow>
                 (let a = action_of g (Some (sk_id rule)) False in
                  skip_result (record_autopilot_event (enabled_event E ''auto_enabled'' ''memory_autopilot'' rule a))
                   (andthen (run_groups E P dry max_enable (Suc applied) gs) (\<lambda>r. ret (add_action a r))))))
      else
        andthen (run_groups E P dry max_enable applied gs) (\<lambda>r. ret (add_skip (skip_of g
          (if mg_state (pg_digest g) = AutoEnable then lit ''per-run limit reached ('' @ show_nat max_enable @ lit '')''
           else mg_reason (pg_digest g))) r)))"

definition plain_plan :: BuildPlanOptions where
  "plain_plan = \<lparr>bp_local_ai_curator = False, bp_curator_max_candidates = None\<rparr>"

abbreviation as_plan_env :: "'f run_env \<Rightarrow> 'f plan_env" where
  "as_plan_env E \<equiv> plan_env.truncate E"

definition first_plan ::
  "'f run_env \<Rightarrow> 'x plan_db_scheme run_parts \<Rightarrow> MemoryAutopilotOptions \<Rightarrow> ('x plan_db_scheme, 'f MemoryPlan) io" where
  "first_plan E P options =
     andthen (build_plan (as_plan_env E) (rp_inbox P) MAX_PENDING_SCAN
       \<lparr>bp_local_ai_curator = True, bp_curator_max_candidates = opt_curator_max_candidates options\<rparr>) (\<lambda>plan.
     if opt_dry_run options then ret plan
     else andthen (rp_triage P (mp_groups plan) (mp_active_rules plan)) (\<lambda>changed.
       if changed then build_plan (as_plan_env E) (rp_inbox P) MAX_PENDING_SCAN plain_plan else ret plan))"

definition run_memory_autopilot ::
  "'f run_env \<Rightarrow> 'x plan_db_scheme run_parts \<Rightarrow> MemoryAutopilotOptions \<Rightarrow> ('x plan_db_scheme, 'f MemoryAutopilotRunReport) io" where
  "run_memory_autopilot E P options =
     (let max_enable = normalize_autopilot_limit (opt_max_auto_enable options) in
      andthen (first_plan E P options) (\<lambda>plan.
      skip_result (persist_detected_conflicts (je_sha E) (je_list_json E) (mp_groups plan))
       (andthen (run_groups E P (opt_dry_run options) max_enable 0 (mp_groups plan)) (\<lambda>(acts, skips).
        andthen (if \<not> opt_dry_run options \<and> acts \<noteq> []
                 then build_plan (as_plan_env E) (rp_inbox P) MAX_PENDING_SCAN plain_plan else ret plan) (\<lambda>final.
          ret \<lparr>ar_dry_run = opt_dry_run options, ar_max_auto_enable = max_enable, ar_auto_enabled = acts,
               ar_skipped = skips, ar_digest = mp_digest final\<rparr>)))))"

section \<open>Commands\<close>

definition state_name :: "MemoryCandidateGroupState \<Rightarrow> ustr" where
  "state_name s = (case s of AutoEnable \<Rightarrow> lit ''AutoEnable'' | Recommended \<Rightarrow> lit ''Recommended''
     | NeedsReview \<Rightarrow> lit ''NeedsReview'' | AlreadyActive \<Rightarrow> lit ''AlreadyActive'')"

definition approve_memory_candidate_group ::
  "'f run_env \<Rightarrow> 'x plan_db_scheme run_parts \<Rightarrow> ustr \<Rightarrow> ('x plan_db_scheme, core_error + MemoryAutopilotAction) io" where
  "approve_memory_candidate_group E P group_id =
     andthen (build_plan (as_plan_env E) (rp_inbox P) MAX_PENDING_SCAN plain_plan) (\<lambda>plan.
       case find (\<lambda>g. mg_group_id (pg_digest g) = group_id) (mp_groups plan) of
         None \<Rightarrow> ret (Inl (NotFound (lit ''rule candidate group '' @ group_id)))
       | Some g \<Rightarrow>
           if mg_state (pg_digest g) \<noteq> Recommended
           then ret (Inl (Validation (lit ''rule candidate group '' @ group_id @ lit '' is ''
                  @ state_name (mg_state (pg_digest g)) @ lit '', not recommended'')))
           else or_refuse (enable_group E P (pg_candidates g)) (\<lambda>rule.
             let a = action_of g (Some (sk_id rule)) False in
             skip_result (record_autopilot_event (enabled_event E ''user_approved_recommended'' ''memory_recommended'' rule a))
               (ret (Inr a))))"

definition draft_refinement_changed :: "PendingMemory \<Rightarrow> PendingMemory \<Rightarrow> bool" where
  "draft_refinement_changed original refined \<longleftrightarrow>
     pm_title original \<noteq> pm_title refined \<or> pm_body original \<noteq> pm_body refined
     \<or> normalize_memory_patterns (pm_file_patterns original) \<noteq> normalize_memory_patterns (pm_file_patterns refined)"

definition planned_single_draft_group :: "'f run_env \<Rightarrow> ustr \<Rightarrow> ('x plan_db_scheme, PlannedGroup option) io" where
  "planned_single_draft_group E draft_id =
     andthen (list_candidates (je_parse_list E) None None) (\<lambda>drafts.
       case find (\<lambda>x. cr_id x = draft_id) drafts of
         None \<Rightarrow> ret None
       | Some draft \<Rightarrow>
           andthen load_autopilot_disabled_rule_ids (\<lambda>disabled_ids.
           andthen (load_active_rules (je_parse_list E) (pe_datetime E) MAX_PENDING_SCAN) (\<lambda>actives.
             let c = pending_from_draft draft disabled_ids in
             ret (Some \<lparr>pg_digest = digest_group (candidate_group_key c) [c] (active_key_set actives) (active_hash_set actives) actives,
                        pg_candidates = [c], pg_conflict = None\<rparr>))))"

definition apply_cached_to_draft :: "'f run_env \<Rightarrow> ustr \<Rightarrow> ('x plan_db_scheme, unit) io" where
  "apply_cached_to_draft E draft_id =
     andthen (planned_single_draft_group E draft_id) (\<lambda>found.
       case found of
         None \<Rightarrow> ret ()
       | Some g \<Rightarrow>
           if \<not> pr_review_candidate_group g \<or> mg_state (pg_digest g) \<noteq> NeedsReview then ret ()
           else andthen (load_curator_recommendations (je_parse_list E)) (\<lambda>recs.
             let g' = with_cached_recommendation (je_sha E) recs g in
             if mg_state (pg_digest g') \<notin> {AutoEnable, Recommended} then ret ()
             else (case (pg_candidates g, pg_candidates g') of
                     (original # _, refined # _) \<Rightarrow>
                       if draft_refinement_changed original refined
                       then update_pending_draft_with_refined_rule E draft_id refined else ret ()
                   | _ \<Rightarrow> ret ())))"

definition promote_candidate_with_curator_recommendation ::
  "'f run_env \<Rightarrow> ustr \<Rightarrow> ('x plan_db_scheme, core_error + skill_row) io" where
  "promote_candidate_with_curator_recommendation E draft_id =
     skip_result (apply_cached_to_draft E draft_id) (promote_candidate (ru_event_id E draft_id) draft_id)"

definition disabled :: ustr where "disabled = lit ''disabled''"

definition disable_row :: "(int \<Rightarrow> ustr) \<Rightarrow> ustr \<Rightarrow> int \<Rightarrow> skill_row \<Rightarrow> skill_row" where
  "disable_row show_datetime i now r = (if sk_id r = i \<and> sk_status r = active
     then r\<lparr>sk_status := disabled, sk_updated_at := Some (show_datetime (datetime_now now))\<rparr> else r)"

definition disable_stmt :: "(int \<Rightarrow> ustr) \<Rightarrow> ustr \<Rightarrow> int \<Rightarrow> 'x skill_db_scheme \<Rightarrow> unit \<times> 'x skill_db_scheme" where
  "disable_stmt show_datetime i now d =
     ((), d\<lparr>skills := map (disable_row show_datetime i now) (skills d)\<rparr>)"

definition disabled_event :: "'f run_env \<Rightarrow> ustr \<Rightarrow> ustr \<Rightarrow> ustr \<Rightarrow> autopilot_event" where
  "disabled_event E i rule_title reason =
     \<lparr>event_type = disabled, event_rule_id = Some i, event_item_ids = [lit ''rule:'' @ i], event_group_id = None,
      event_title = rule_title, event_reason = reason,
      event_payload = ru_to_text E (JObject [(lit ''previousState'', JString active), (lit ''currentState'', JString disabled)])\<rparr>"

definition disable_memory_rule ::
  "'f run_env \<Rightarrow> ustr \<Rightarrow> ustr option \<Rightarrow> ('x skill_db_scheme, core_error + MemoryDisableOutcome) io" where
  "disable_memory_rule E rule_id reason0 =
     (let i = normalize_rule_id rule_id in
      if i = [] then ret (Inl (Validation (lit ''rule id is required; use rule:<id> or <id>'')))
      else andthen (sql (\<lambda>d. (find_skill i d, d))) (\<lambda>row.
        case row of
          None \<Rightarrow> ret (Inl (NotFound (lit ''rule `'' @ i @ lit ''` not found'')))
        | Some r \<Rightarrow>
            if sk_status r \<noteq> active
            then ret (Inl (Validation (lit ''rule `'' @ i @ lit ''` is not active; current state is `'' @ sk_status r @ lit ''`'')))
            else
              let reason = (case reason0 of Some x \<Rightarrow> if trim x = [] then lit ''disabled by user'' else trim x
                            | None \<Rightarrow> lit ''disabled by user'') in
              skip_result (sql_now (disable_stmt (ru_show_datetime E) i))
               (skip_result (record_autopilot_event (disabled_event E i (sk_name r) reason))
                 (ret (Inr \<lparr>do_rule_id = i, do_item_id = lit ''rule:'' @ i, do_title = sk_name r,
                   do_previous_state = active, do_current_state = disabled, do_reason = reason\<rparr>)))))"

definition load_autopilot_log :: "nat \<Rightarrow> ('x autopilot_db_scheme, autopilot_event list) io" where
  "load_autopilot_log limit =
     skip_result ensure_autopilot_events_table (sql (\<lambda>d. (take (normalize_limit limit) (rev (events d)), d)))"

section \<open>The limit and the report\<close>

lemma action_of_frame [simp]:
  "ma_group_id (action_of g r b) = mg_group_id (pg_digest g)" "ma_dry_run (action_of g r b) = b" "ma_rule_id (action_of g r b) = r"
  by (simp_all add: action_of_def)

lemma skip_of_frame [simp]: "ms_group_id (skip_of g r) = mg_group_id (pg_digest g)"
  by (simp add: skip_of_def)

definition report_ok :: "bool \<Rightarrow> nat \<Rightarrow> nat \<Rightarrow> PlannedGroup list \<Rightarrow> MemoryAutopilotAction list \<times> MemoryAutopilotSkip list \<Rightarrow> bool" where
  "report_ok dry max_enable applied gs = (\<lambda>(acts, skips).
     (acts \<noteq> [] \<longrightarrow> length acts + applied \<le> max_enable)
     \<and> mset (map ma_group_id acts) + mset (map ms_group_id skips) = mset (map (\<lambda>g. mg_group_id (pg_digest g)) gs)
     \<and> (\<forall>a \<in> set acts. \<exists>g \<in> set gs. mg_state (pg_digest g) = AutoEnable \<and> a = action_of g (ma_rule_id a) dry))"

lemma report_ok_skip: "report_ok dry m k gs r \<Longrightarrow> report_ok dry m k (g # gs) (add_skip (skip_of g reason) r)"
  by (auto simp: report_ok_def add_skip_def)

lemma report_ok_action:
  "report_ok dry m (Suc k) gs r \<Longrightarrow> mg_state (pg_digest g) = AutoEnable \<Longrightarrow> k < m
     \<Longrightarrow> report_ok dry m k (g # gs) (add_action (action_of g i dry) r)"
  by (cases r) (auto simp: report_ok_def add_action_def)

lemma run_groups_report:
  "run_groups E P dry m k gs w = (Inr r, w') \<Longrightarrow> report_ok dry m k gs r"
proof (induction gs arbitrary: k w w' r)
  case Nil
  then show ?case by (auto simp: ret_def report_ok_def)
next
  case (Cons g gs)
  note step = report_ok_skip report_ok_action
  show ?case
  proof (cases "mg_state (pg_digest g) = AutoEnable \<and> k < m")
    case False
    with Cons.prems obtain r0 w1 reason where "run_groups E P dry m k gs w = (Inr r0, w1)" "r = add_skip (skip_of g reason) r0"
      by (auto simp: ret_def simp del: andthen_ret elim!: andthen_InrE)
    with Cons.IH [OF this(1)] step(1) show ?thesis by simp
  next
    case auto: True
    show ?thesis
    proof (cases dry)
      case True
      with auto Cons.prems obtain r0 w1 where "run_groups E P dry m (Suc k) gs w = (Inr r0, w1)" "r = add_action (action_of g None True) r0"
        by (auto simp: ret_def simp del: andthen_ret elim!: andthen_InrE)
      with Cons.IH [OF this(1)] step(2) auto True show ?thesis by simp
    next
      case False
      with auto Cons.prems obtain result w1 where "enable_group E P (pg_candidates g) w = (Inr result, w1)"
        and rest: "(case result of
               Inl err \<Rightarrow>
                 andthen (run_groups E P False m k gs) (\<lambda>r.
                   ret (add_skip (skip_of g (lit ''skipped (enable failed): '' @ error_text err)) r))
             | Inr rule \<Rightarrow>
                 (let a = action_of g (Some (sk_id rule)) False in
                  skip_result (record_autopilot_event (enabled_event E ''auto_enabled'' ''memory_autopilot'' rule a))
                   (andthen (run_groups E P False m (Suc k) gs) (\<lambda>r. ret (add_action a r))))) w1 = (Inr r, w')"
        by (auto elim!: andthen_InrE)
      show ?thesis
      proof (cases result)
        case (Inl err)
        with rest False obtain r0 w2 reason where "run_groups E P dry m k gs w1 = (Inr r0, w2)" "r = add_skip (skip_of g reason) r0"
          by (auto simp: ret_def simp del: andthen_ret elim!: andthen_InrE)
        with Cons.IH [OF this(1)] step(1) show ?thesis by simp
      next
        case (Inr rule)
        with rest False obtain r0 w2 w3 where "run_groups E P dry m (Suc k) gs w2 = (Inr r0, w3)"
          "r = add_action (action_of g (Some (sk_id rule)) False) r0"
          by (auto simp: ret_def Let_def skip_result_def simp del: andthen_ret elim!: andthen_InrE)
        with Cons.IH [OF this(1)] step(2) auto False show ?thesis by simp
      qed
    qed
  qed
qed

lemma normalize_autopilot_limit_bounds:
  "1 \<le> normalize_autopilot_limit n" "normalize_autopilot_limit n \<le> 25" "0 < n \<Longrightarrow> normalize_autopilot_limit n \<le> n"
  by (auto simp: normalize_autopilot_limit_def DEFAULT_AUTOPILOT_LIMIT_def MAX_AUTOPILOT_LIMIT_def)

section \<open>What planning leaves alone\<close>

text \<open>What a person sees as rules: the rows, the tombstones and both logs.\<close>

definition rules_view :: "'x plan_db_scheme \<Rightarrow> skill_row list \<times> rejected_row list \<times> rule_event list \<times> autopilot_event list" where
  "rules_view d = (skills d, rejected_signatures d, rule_events d, events d)"

lemma rules_view_frame [simp]:
  "rules_view (d\<lparr>conflicts := cs\<rparr>) = rules_view d" "rules_view (d\<lparr>recommendations := rs\<rparr>) = rules_view d"
  "rules_view (d\<lparr>schedule := s\<rparr>) = rules_view d"
  by (simp_all add: rules_view_def)

lemma keeps_for_each [io_intros]: "(\<And>x. keeps I (f x)) \<Longrightarrow> keeps I (for_each f xs)"
  by (induction xs) (auto intro: io_intros)

lemma keeps_map_io [io_intros]: "(\<And>x. keeps I (f x)) \<Longrightarrow> keeps I (map_io f xs)"
  by (induction xs) (auto intro!: io_intros)

lemma keeps_sql_now [io_intros]: "(\<And>now d. I d \<Longrightarrow> I (snd (f now d))) \<Longrightarrow> keeps I (sql_now f)"
  unfolding sql_now_def by (intro io_intros) simp

lemma keeps_read [io_intros]: "keeps I (sql (\<lambda>d. (f d, d)))"
  by (intro keeps_sql) simp

lemma keeps_nothing [io_intros]: "keeps I (sql nothing_stmt)"
  by (intro keeps_sql) (simp add: nothing_stmt_def)

lemma keeps_ensure [io_intros]:
  "keeps I ensure_autopilot_events_table" "keeps I ensure_memory_conflicts_table" "keeps I ensure_curator_recommendations_table"
  unfolding ensure_autopilot_events_table_def ensure_memory_conflicts_table_def ensure_curator_recommendations_table_def
  by (intro io_intros)+

lemma keeps_prod [io_intros]: "(\<And>a b. keeps I (f a b)) \<Longrightarrow> keeps I (case p of (a, b) \<Rightarrow> f a b)"
  by (cases p) auto

text \<open>An invariant of the rules: whatever shows only in the other tables does not matter to it.\<close>

definition rules_inv :: "('x plan_db_scheme \<Rightarrow> bool) \<Rightarrow> bool" where
  "rules_inv I \<longleftrightarrow> (\<forall>d d'. rules_view d' = rules_view d \<longrightarrow> I d \<longrightarrow> I d')"

lemma rules_invD: "rules_inv I \<Longrightarrow> I d \<Longrightarrow> rules_view d' = rules_view d \<Longrightarrow> I d'"
  by (simp add: rules_inv_def)

lemma judge_keeps_inv: "rules_inv I \<Longrightarrow> keeps I (judge_detected_conflicts_with_local_ai E gs)"
  unfolding judge_detected_conflicts_with_local_ai_def judge_found_def persist_detected_conflicts_def Let_def
    load_memory_conflicts_def upsert_memory_conflict_def apply_judge_decision_def update_conflict_judge_verdict_def
  by (intro io_intros; erule (1) rules_invD) (simp_all add: upsert_conflict_stmt_def judge_update_stmt_def Let_def)

lemma persist_keeps_inv: "rules_inv I \<Longrightarrow> keeps I (persist_detected_conflicts sha list_json gs)"
  unfolding persist_detected_conflicts_def Let_def upsert_memory_conflict_def
  by (intro io_intros; erule (1) rules_invD) (simp_all add: upsert_conflict_stmt_def Let_def)

lemma curate_keeps_inv: "rules_inv I \<Longrightarrow> keeps I (curate_groups E gs options)"
  unfolding curate_groups_def curator_group_step_def upsert_curator_recommendation_def Let_def
  by (intro io_intros; erule (1) rules_invD) (simp_all add: upsert_recommendation_stmt_def Let_def)

lemma insert_default_view: "rules_view (snd (insert_default_stmt d)) = rules_view d"
  by (simp add: insert_default_stmt_def split: option.splits)

lemma build_plan_keeps_inv:
  assumes "rules_inv I" "\<And>n. keeps I (inbox n)"
  shows "keeps I (build_plan E inbox limit options)"
  unfolding build_plan_def finish_plan_def load_active_rules_def load_pending_memories_def list_candidates_def
    load_autopilot_disabled_rule_ids_def apply_cached_curator_recommendations_def load_curator_recommendations_def
    refine_pr_review_groups_with_local_ai_def load_autopilot_schedule_status_def ensure_autopilot_schedule_table_def Let_def
  by (intro io_intros assms(2) judge_keeps_inv [OF assms(1)] curate_keeps_inv [OF assms(1)])
    (rule rules_invD [OF assms(1)], assumption, rule insert_default_view)

section \<open>How many rules a run may add\<close>

text \<open>No rule has two rows, and at most \<open>n\<close> rules are active.\<close>

definition active_count :: "'x skill_db_scheme \<Rightarrow> nat" where
  "active_count d = length (filter (\<lambda>r. sk_status r = active) (skills d))"

definition rules_bounded :: "nat \<Rightarrow> 'x skill_db_scheme \<Rightarrow> bool" where
  "rules_bounded n d \<longleftrightarrow> keyed d \<and> active_count d \<le> n"

text \<open>
  What a run expects of the parts that are not modelled: reading the inbox and the triage activate nothing, an approval
  activates at most one rule and none when it is refused, and marking a discovery activates nothing and is not refused.
\<close>

definition parts_bounded :: "'x plan_db_scheme run_parts \<Rightarrow> bool" where
  "parts_bounded P \<longleftrightarrow> (\<forall>n. (\<forall>i. keeps (rules_bounded n) (rp_inbox P i))
     \<and> (\<forall>gs actives. keeps (rules_bounded n) (rp_triage P gs actives))
     \<and> (\<forall>h d. rules_bounded n d \<longrightarrow> ends_in (rp_approve P h) d (\<lambda>r d'.
          rules_bounded (case r of Inr (Inl e) \<Rightarrow> n | _ \<Rightarrow> Suc n) d'))
     \<and> (\<forall>h i d. rules_bounded n d \<longrightarrow> ends_in (rp_mark_approved P h i) d (\<lambda>r d'.
          rules_bounded n d' \<and> (case r of Inr (Inl e) \<Rightarrow> False | _ \<Rightarrow> True))))"

lemma rules_bounded_mono: "rules_bounded n d \<Longrightarrow> n \<le> m \<Longrightarrow> rules_bounded m d"
  by (auto simp: rules_bounded_def)

lemma rules_bounded_skills: "rules_bounded n d \<Longrightarrow> skills d' = skills d \<Longrightarrow> rules_bounded n d'"
  by (simp add: rules_bounded_def keyed_def active_count_def)

lemma rules_bounded_inv: "rules_inv (rules_bounded n)"
  using rules_bounded_skills unfolding rules_inv_def rules_view_def by blast

lemma ends_keeps: "keeps I m \<Longrightarrow> I d \<Longrightarrow> ends_in m d (\<lambda>r. I)"
  by (simp add: keeps_def ends_in_def)

lemma activated_count:
  assumes "distinct (map sk_id rs)"
  shows "length (filter (\<lambda>r. sk_status r = active) (map (\<lambda>r. if sk_id r = i then activate r else r) rs))
    \<le> Suc (length (filter (\<lambda>r. sk_status r = active) rs))"
  using assms
proof (induction rs)
  case (Cons r rs)
  show ?case
  proof (cases "sk_id r = i")
    case True
    with Cons.prems have "map (\<lambda>r. if sk_id r = i then activate r else r) rs = rs"
      by (intro map_idI) (auto simp: image_iff)
    then show ?thesis by simp
  qed (use Cons in simp)
qed simp

lemma promotion_bounded:
  assumes "rules_bounded n d"
  shows "ends_in (promote_candidate ev i) d (\<lambda>r d'. rules_bounded (case r of Inr (Inl e) \<Rightarrow> n | _ \<Rightarrow> Suc n) d')"
proof (rule ends_mono [OF promotion_ends])
  show keyed: "keyed d" using assms by (simp add: rules_bounded_def)
  fix r d' assume r: "promotion_outcome i d r d'"
  have "rules_bounded (Suc n) d'" if "skills d' = activated i d"
  proof -
    have "map sk_id (skills d') = map sk_id (skills d)" by (simp add: that activated_def)
    moreover have "active_count d' \<le> Suc (active_count d)"
      using activated_count [of "skills d" i] keyed by (simp add: active_count_def keyed_def that activated_def)
    ultimately show ?thesis using assms by (simp add: rules_bounded_def keyed_def)
  qed
  with r assms show "rules_bounded (case r of Inr (Inl e) \<Rightarrow> n | _ \<Rightarrow> Suc n) d'"
    by (auto simp: promotion_outcome_def promoted_ok_def intro: rules_bounded_mono split: sum.splits)
qed

lemma refined_stmt_bounded: "rules_bounded n (snd (refined_draft_stmt sd i t b p now d)) = rules_bounded n d"
proof -
  have "map sk_id (skills (snd (refined_draft_stmt sd i t b p now d))) = map sk_id (skills d)"
    by (simp add: refined_draft_stmt_def)
  moreover have "length (filter (\<lambda>r. sk_status r = active) (skills (snd (refined_draft_stmt sd i t b p now d))))
      = length (filter (\<lambda>r. sk_status r = active) (skills d))"
    by (simp add: refined_draft_stmt_def filter_map comp_def if_distrib [of sk_status])
  ultimately show ?thesis by (simp add: rules_bounded_def keyed_def active_count_def)
qed

lemma update_draft_bounded: "keeps (rules_bounded n) (update_pending_draft_with_refined_rule E i c)"
  unfolding update_pending_draft_with_refined_rule_def by (intro io_intros) (simp add: refined_stmt_bounded)

lemma mark_sessions_bounded:
  assumes "parts_bounded P" "rules_bounded n d"
  shows "ends_in (mark_sessions P i cs) d (\<lambda>r d'. rules_bounded n d' \<and> (case r of Inr (Inl e) \<Rightarrow> False | _ \<Rightarrow> True))"
  using assms(2)
proof (induction cs arbitrary: d)
  case (Cons c cs)
  show ?case
  proof (cases "pm_kind c")
    case (Session h)
    have "ends_in (rp_mark_approved P h i) d (\<lambda>r d'. rules_bounded n d' \<and> (case r of Inr (Inl e) \<Rightarrow> False | _ \<Rightarrow> True))"
      using assms(1) Cons.prems by (simp add: parts_bounded_def)
    then show ?thesis
      by (simp add: Session or_refuse_def)
        (rule ends_andthen, erule ends_mono, auto intro: Cons.IH split: sum.splits)
  qed (use Cons in simp)
qed (simp add: ends_ret)

lemma enable_group_bounded:
  assumes "parts_bounded P" "rules_bounded n d"
  shows "ends_in (enable_group E P cs) d (\<lambda>r d'. rules_bounded (case r of Inr (Inl e) \<Rightarrow> n | _ \<Rightarrow> Suc n) d')"
proof (cases "primary_candidate cs")
  case None
  with assms(2) show ?thesis by (simp add: enable_group_def ends_ret)
next
  case (Some c)
  have rest: "ends_in (or_refuse (mark_sessions P i cs) (\<lambda>_. ret (Inr rule))) d'
      (\<lambda>r d'. rules_bounded (case r of Inr (Inl e) \<Rightarrow> n | _ \<Rightarrow> Suc n) d')"
    if "rules_bounded (Suc n) d'" for d' i and rule :: skill_row
    unfolding or_refuse_def
    by (rule ends_andthen, rule ends_mono [OF mark_sessions_bounded [OF assms(1) that]])
      (auto intro: ends_ret split: sum.splits)
  have "ends_in (case pm_kind c of
              Draft i \<Rightarrow> skip_result (update_pending_draft_with_refined_rule E i c) (promote_candidate (ru_event_id E i) i)
            | Session h \<Rightarrow> rp_approve P h) d (\<lambda>r d'. rules_bounded (case r of Inr (Inl e) \<Rightarrow> n | _ \<Rightarrow> Suc n) d')"
  proof (cases "pm_kind c")
    case (Draft i)
    then show ?thesis
      by simp (rule ends_skip_result, rule ends_mono [OF ends_keeps [OF update_draft_bounded assms(2)]],
        auto intro: promotion_bounded rules_bounded_mono split: sum.splits)
  next
    case (Session h)
    with assms show ?thesis by (simp add: parts_bounded_def)
  qed
  then show ?thesis
    by (simp add: enable_group_def Some)
      (subst or_refuse_def, rule ends_andthen, erule ends_mono, auto intro: rest ends_ret split: sum.splits)
qed

lemma record_event_bounded: "keeps (rules_bounded n) (record_autopilot_event e)"
  unfolding record_autopilot_event_def ensure_autopilot_events_table_def
  by (intro io_intros) (auto simp: nothing_stmt_def event_stmt_def elim: rules_bounded_skills)

lemma run_groups_bounded:
  fixes P :: "'x plan_db_scheme run_parts"
  assumes "parts_bounded P" "rules_bounded n d"
  shows "ends_in (run_groups E P dry m k gs) d (\<lambda>r. rules_bounded (n + (m - k)))"
  using assms(2)
proof (induction gs arbitrary: n k d)
  case Nil
  then have "rules_bounded (n + (m - k)) d" by (rule rules_bounded_mono) simp
  then show ?case by (simp add: ends_ret)
next
  case (Cons g gs)
  have more: "ends_in (andthen (run_groups E P dry m k' gs) (\<lambda>r. ret (f r))) d' (\<lambda>r. rules_bounded (n + (m - k)))"
    if "rules_bounded n' d'" "n' + (m - k') \<le> n + (m - k)" for n' k' d'
      and f :: "MemoryAutopilotAction list \<times> MemoryAutopilotSkip list \<Rightarrow> MemoryAutopilotAction list \<times> MemoryAutopilotSkip list"
    by (rule ends_andthen, rule ends_mono [OF Cons.IH [OF that(1)]])
      (auto intro: ends_ret rules_bounded_mono [OF _ that(2)] split: sum.splits)
  show ?case
  proof (cases "mg_state (pg_digest g) = AutoEnable \<and> k < m")
    case False
    then show ?thesis using more [OF Cons.prems, of k] by auto
  next
    case auto: True
    show ?thesis
    proof (cases dry)
      case True
      with auto show ?thesis using more [OF Cons.prems, of "Suc k"] by simp
    next
      case False
      let ?log = "\<lambda>rule. record_autopilot_event (enabled_event E ''auto_enabled'' ''memory_autopilot'' rule
          (action_of g (Some (sk_id rule)) False))"
      have won: "ends_in (skip_result (?log rule)
          (andthen (run_groups E P dry m (Suc k) gs) (\<lambda>r. ret (add_action (action_of g (Some (sk_id rule)) False) r)))) d'
          (\<lambda>r. rules_bounded (n + (m - k)))" if "rules_bounded (Suc n) d'" for d' rule
      proof (rule ends_skip_result, rule ends_mono [OF ends_keeps [OF record_event_bounded that]])
        fix r :: "ustr + unit" and d1 :: "'x plan_db_scheme" assume d1: "rules_bounded (Suc n) d1"
        have le: "Suc n + (m - Suc k) \<le> n + (m - k)" "Suc n \<le> n + (m - k)" using auto by linarith+
        have "rules_bounded (n + (m - k)) d1"
          "ends_in (andthen (run_groups E P dry m (Suc k) gs)
             (\<lambda>r. ret (add_action (action_of g (Some (sk_id rule)) False) r))) d1 (\<lambda>r. rules_bounded (n + (m - k)))"
          using rules_bounded_mono [OF d1 le(2)] more [OF d1 le(1)] by simp_all
        then show "case r of Inl e \<Rightarrow> rules_bounded (n + (m - k)) d1
            | Inr a \<Rightarrow> ends_in (andthen (run_groups E P dry m (Suc k) gs)
                (\<lambda>r. ret (add_action (action_of g (Some (sk_id rule)) False) r))) d1 (\<lambda>r. rules_bounded (n + (m - k)))"
          by (simp split: sum.split)
      qed
      show ?thesis
        using auto False
        by simp (rule ends_andthen, rule ends_mono [OF enable_group_bounded [OF assms(1) Cons.prems]],
          use won more False in \<open>auto simp: Let_def intro: rules_bounded_mono split: sum.splits\<close>)
    qed
  qed
qed

lemma first_plan_bounded: "parts_bounded P \<Longrightarrow> keeps (rules_bounded n) (first_plan E P options)"
  unfolding first_plan_def
  by (intro io_intros build_plan_keeps_inv rules_bounded_inv) (simp_all add: parts_bounded_def)

lemma run_bounded:
  fixes E :: "'f run_env" and P :: "'x plan_db_scheme run_parts"
  assumes "parts_bounded P" "rules_bounded n d"
  shows "ends_in (run_memory_autopilot E P options) d
    (\<lambda>r. rules_bounded (n + normalize_autopilot_limit (opt_max_auto_enable options)))"
proof -
  let ?m = "normalize_autopilot_limit (opt_max_auto_enable options)"
  let ?I = "\<lambda>r. rules_bounded (n + ?m)"
  have final: "ends_in (andthen (if b then build_plan (as_plan_env E) (rp_inbox P) MAX_PENDING_SCAN plain_plan else ret plan)
      (\<lambda>final. ret (f final))) d' ?I" if "rules_bounded (n + ?m) d'" for d' b plan
      and f :: "'f MemoryPlan \<Rightarrow> 'f MemoryAutopilotRunReport"
    by (rule ends_keeps [where I = "rules_bounded (n + ?m)", OF _ that], intro io_intros build_plan_keeps_inv rules_bounded_inv)
      (use assms(1) in \<open>simp add: parts_bounded_def\<close>)
  show ?thesis
    unfolding run_memory_autopilot_def Let_def
  proof (rule ends_andthen, rule ends_mono [OF ends_keeps [OF first_plan_bounded [OF assms(1)] assms(2)]], split sum.split, intro conjI allI impI)
    fix r and d' :: "'x plan_db_scheme" and plan :: "'f MemoryPlan" assume d': "rules_bounded n d'"
    let ?rest = "\<lambda>(acts, skips). andthen (if \<not> opt_dry_run options \<and> acts \<noteq> []
        then build_plan (as_plan_env E) (rp_inbox P) MAX_PENDING_SCAN plain_plan else ret plan) (\<lambda>final.
          ret \<lparr>ar_dry_run = opt_dry_run options, ar_max_auto_enable = ?m, ar_auto_enabled = acts,
               ar_skipped = skips, ar_digest = mp_digest final\<rparr>)"
    have groups: "ends_in (andthen (run_groups E P (opt_dry_run options) ?m 0 (mp_groups plan)) ?rest) d1 ?I"
      if "rules_bounded n d1" for d1
    proof (rule ends_andthen, rule ends_mono)
      show "ends_in (run_groups E P (opt_dry_run options) ?m 0 (mp_groups plan)) d1 ?I"
        using run_groups_bounded [OF assms(1) that, of E "opt_dry_run options" ?m 0] by simp
    next
      fix r and d2 :: "'x plan_db_scheme" assume d2: "rules_bounded (n + ?m) d2"
      show "case r of Inl e \<Rightarrow> rules_bounded (n + ?m) d2 | Inr a \<Rightarrow> ends_in (?rest a) d2 ?I"
      proof (cases r)
        case (Inr a)
        then show ?thesis by (cases a) (simp only: sum.case prod.case, rule final [OF d2])
      qed (simp add: d2)
    qed
    show "ends_in (skip_result (persist_detected_conflicts (je_sha E) (je_list_json E) (mp_groups plan))
       (andthen (run_groups E P (opt_dry_run options) ?m 0 (mp_groups plan)) ?rest)) d' ?I"
      by (rule ends_skip_result, rule ends_mono [OF ends_keeps [OF persist_keeps_inv [OF rules_bounded_inv] d']])
        (auto intro: groups rules_bounded_mono split: sum.splits)
  qed (auto intro: rules_bounded_mono)
qed

lemma run_InrE:
  assumes "run_memory_autopilot E P options w = (Inr rep, w')"
  obtains plan w1 acts skips w2 w3 where "first_plan E P options w = (Inr plan, w1)"
    and "run_groups E P (opt_dry_run options) (normalize_autopilot_limit (opt_max_auto_enable options)) 0 (mp_groups plan) w2
          = (Inr (acts, skips), w3)"
    and "ar_max_auto_enable rep = normalize_autopilot_limit (opt_max_auto_enable options)" "ar_auto_enabled rep = acts"
    and "ar_skipped rep = skips" "ar_dry_run rep = opt_dry_run options"
  using assms by (auto simp: run_memory_autopilot_def Let_def skip_result_def ret_def simp del: andthen_ret elim!: andthen_InrE)


text \<open>A run over the queue with one clean draft.\<close>

definition demo_run_env :: "unit run_env" where
  "demo_run_env = plan_env.extend demo_env \<lparr>ru_to_text = \<lambda>_. [], ru_show_datetime = \<lambda>_. [], ru_event_id = \<lambda>i. i\<rparr>"

definition demo_parts :: "plan_db run_parts" where
  "demo_parts = \<lparr>rp_inbox = \<lambda>_. ret [], rp_approve = \<lambda>_. ret (Inl (NotFound [])), rp_mark_approved = \<lambda>_ _. ret (Inr ()),
     rp_triage = \<lambda>_ _. ret False\<rparr>"

definition demo_run_options :: "bool \<Rightarrow> MemoryAutopilotOptions" where
  "demo_run_options dry = \<lparr>opt_dry_run = dry, opt_max_auto_enable = 2, opt_curator_max_candidates = None\<rparr>"

lemma demo_parts_bounded: "parts_bounded demo_parts"
  by (auto simp: parts_bounded_def demo_parts_def intro: ends_ret keeps_ret)


text \<open>
  The count of a run goes up after the discoveries of a group are marked. When a marking is refused the rule is
  active already, the group is reported as skipped, and it does not count.
\<close>

definition session_group :: PlannedGroup where
  "session_group = demo_group\<lparr>pg_digest := (pg_digest demo_group)\<lparr>mg_state := AutoEnable\<rparr>,
     pg_candidates := [demo_memory\<lparr>pm_kind := Session (lit ''h1'')\<rparr>]\<rparr>"

definition refusing_parts :: "plan_db run_parts" where
  "refusing_parts = demo_parts\<lparr>
     rp_approve := \<lambda>h. sql (\<lambda>d. (Inr demo_clean_draft, d\<lparr>skills := skills d @ [demo_clean_draft\<lparr>sk_status := active\<rparr>]\<rparr>)),
     rp_mark_approved := \<lambda>_ _. ret (Inl (Validation (lit ''session-mined payload invalid'')))\<rparr>"

theorem refused_marking_is_not_counted:
  "active_count (db (snd (run_groups demo_run_env refusing_parts False 1 0 [session_group, session_group] demo_plan_world))) = 2"
  by code_simp

section \<open>A dry run\<close>

lemma run_groups_dry:
  "run_groups E P True m k gs w = (Inr r, w') \<Longrightarrow>
     fst r = map (\<lambda>g. action_of g None True) (take (m - k) (filter (\<lambda>g. mg_state (pg_digest g) = AutoEnable) gs))"
proof (induction gs arbitrary: k w w' r)
  case (Cons g gs)
  show ?case
  proof (cases "mg_state (pg_digest g) = AutoEnable \<and> k < m")
    case True
    with Cons.prems obtain r0 w1 where "run_groups E P True m (Suc k) gs w = (Inr r0, w1)" "r = add_action (action_of g None True) r0"
      by (auto simp: ret_def simp del: andthen_ret elim!: andthen_InrE)
    moreover have "m - k = Suc (m - Suc k)" using True Suc_diff_Suc [of k m] by simp
    ultimately show ?thesis using Cons.IH True by (cases r0) (fastforce simp: add_action_def)
  next
    case False
    with Cons.prems obtain r0 w1 reason where "run_groups E P True m k gs w = (Inr r0, w1)" "r = add_skip (skip_of g reason) r0"
      by (auto simp: ret_def simp del: andthen_ret elim!: andthen_InrE)
    with Cons.IH [OF this(1)] False show ?thesis by (cases r0) (auto simp: add_skip_def)
  qed
qed (simp add: ret_def)

lemma dry_groups_keep: "keeps I (run_groups E P True m k gs)"
  by (induction gs arbitrary: k) (auto intro!: io_intros)

lemma same_view_inv: "rules_inv (\<lambda>d. rules_view d = v)"
  by (simp add: rules_inv_def)

text \<open>
  C35. A dry run leaves every rule, draft, tombstone and log entry as it was, whatever fails on the way. When it
  ends well it lists, in their order and up to the limit, exactly the groups its plan would enable, each marked as a
  dry run and without a rule. Reading the inbox, which is not modelled, is assumed to leave the rules,
  the drafts, the tombstones and the logs alone.
\<close>

theorem dry_run_leaves_rules_alone:
  assumes "\<And>n. stable rules_view (rp_inbox P n)" "opt_dry_run options"
    and run: "run_memory_autopilot E P options w = (r, w')"
  shows "rules_view (db w') = rules_view (db w)
    \<and> (\<forall>rep. r = Inr rep \<longrightarrow> ar_dry_run rep \<and> (\<exists>plan w1. first_plan E P options w = (Inr plan, w1)
         \<and> ar_auto_enabled rep = map (\<lambda>g. action_of g None True)
             (take (normalize_autopilot_limit (opt_max_auto_enable options))
               (filter (\<lambda>g. mg_state (pg_digest g) = AutoEnable) (mp_groups plan)))))"
proof
  have inbox: "keeps (\<lambda>d. rules_view d = rules_view (db w)) (rp_inbox P n)" for n
    using assms(1) [of n] unfolding stable_iff_keeps by (rule spec)
  have "keeps (\<lambda>d. rules_view d = rules_view (db w)) (run_memory_autopilot E P options)"
    using assms(2) unfolding run_memory_autopilot_def first_plan_def Let_def
    by (auto intro!: io_intros build_plan_keeps_inv [OF same_view_inv inbox] persist_keeps_inv [OF same_view_inv] dry_groups_keep)
  from keepsD [OF this refl] run show "rules_view (db w') = rules_view (db w)" by simp
  show "\<forall>rep. r = Inr rep \<longrightarrow> ar_dry_run rep \<and> (\<exists>plan w1. first_plan E P options w = (Inr plan, w1)
         \<and> ar_auto_enabled rep = map (\<lambda>g. action_of g None True)
             (take (normalize_autopilot_limit (opt_max_auto_enable options))
               (filter (\<lambda>g. mg_state (pg_digest g) = AutoEnable) (mp_groups plan))))"
  proof (intro allI impI)
    fix rep assume "r = Inr rep"
    with run have "run_memory_autopilot E P options w = (Inr rep, w')" by simp
    then obtain plan w1 acts skips w2 w3 where plan: "first_plan E P options w = (Inr plan, w1)"
      and groups: "run_groups E P (opt_dry_run options) (normalize_autopilot_limit (opt_max_auto_enable options)) 0
        (mp_groups plan) w2 = (Inr (acts, skips), w3)"
      and rep: "ar_auto_enabled rep = acts" "ar_dry_run rep = opt_dry_run options"
      by (rule run_InrE)
    from run_groups_dry [OF groups [simplified assms(2)]] plan rep assms(2)
    show "ar_dry_run rep \<and> (\<exists>plan w1. first_plan E P options w = (Inr plan, w1)
         \<and> ar_auto_enabled rep = map (\<lambda>g. action_of g None True)
             (take (normalize_autopilot_limit (opt_max_auto_enable options))
               (filter (\<lambda>g. mg_state (pg_digest g) = AutoEnable) (mp_groups plan))))"
      by auto
  qed
qed

theorem dry_run_leaves_rules_alone_witness:
  "\<exists>rep. fst (run_memory_autopilot demo_run_env demo_parts (demo_run_options True) demo_plan_world) = Inr rep
     \<and> length (ar_auto_enabled rep) = 1
     \<and> rules_view (db (snd (run_memory_autopilot demo_run_env demo_parts (demo_run_options True) demo_plan_world)))
        = rules_view (db demo_plan_world)"
proof -
  let ?r = "run_memory_autopilot demo_run_env demo_parts (demo_run_options True) demo_plan_world"
  have one: "(case fst ?r of Inr rep \<Rightarrow> length (ar_auto_enabled rep) = 1 | Inl _ \<Rightarrow> False)" by code_simp
  then obtain rep where rep: "?r = (Inr rep, snd ?r)" by (cases ?r) (auto split: sum.splits)
  have "stable rules_view (rp_inbox demo_parts n)" for n by (simp add: demo_parts_def stable_def ret_def)
  moreover have "opt_dry_run (demo_run_options True)" by (simp add: demo_run_options_def)
  ultimately have "rules_view (db (snd ?r)) = rules_view (db demo_plan_world)"
    by (rule conjunct1 [OF dry_run_leaves_rules_alone]) (rule prod.collapse [symmetric])
  moreover from one have "length (ar_auto_enabled rep) = 1" by (subst (asm) rep) simp
  ultimately show ?thesis using rep by (metis fst_conv)
qed


section \<open>A rule that a person disabled\<close>

definition disable_ok :: "ustr \<Rightarrow> 'x skill_db_scheme \<Rightarrow> 'x skill_db_scheme \<Rightarrow> bool" where
  "disable_ok i d d' \<longleftrightarrow> (\<exists>r \<in> set (skills d). sk_id r = i \<and> sk_status r = active)
     \<and> (\<forall>r \<in> set (skills d'). sk_id r = i \<longrightarrow> sk_status r = disabled)
     \<and> filter (\<lambda>r. sk_id r \<noteq> i) (skills d') = filter (\<lambda>r. sk_id r \<noteq> i) (skills d)
     \<and> i \<in> disabled_rule_ids d'"

lemma filter_map_other: "(\<And>r. r \<in> set xs \<Longrightarrow> P (f r) = P r \<and> (P r \<longrightarrow> f r = r)) \<Longrightarrow> filter P (map f xs) = filter P xs"
  by (induction xs) auto

lemma disable_stmt_rows:
  assumes "keyed d" "find_skill i d = Some r" "sk_status r = active"
  shows "\<forall>s \<in> set (skills (snd (disable_stmt show_datetime i now d))). sk_id s = i \<longrightarrow> sk_status s = disabled"
    "filter (\<lambda>s. sk_id s \<noteq> i) (skills (snd (disable_stmt show_datetime i now d))) = filter (\<lambda>s. sk_id s \<noteq> i) (skills d)"
proof -
  have r: "r \<in> set (skills d)" "sk_id r = i" using find_skill_Some [OF assms(2)] by auto
  have only: "s = r" if "s \<in> set (skills d)" "sk_id s = i" for s
    using keyed_eq [OF assms(1) that(1) r(1)] that(2) r(2) by simp
  show "\<forall>s \<in> set (skills (snd (disable_stmt show_datetime i now d))). sk_id s = i \<longrightarrow> sk_status s = disabled"
  proof (intro ballI impI)
    fix s assume s: "s \<in> set (skills (snd (disable_stmt show_datetime i now d)))" "sk_id s = i"
    then obtain s0 where s0: "s0 \<in> set (skills d)" "s = disable_row show_datetime i now s0"
      by (auto simp: disable_stmt_def)
    with s(2) have "sk_id s0 = i" by (simp add: disable_row_def split: if_splits)
    with only s0(1) have "s0 = r" by blast
    with s0(2) assms(3) r(2) show "sk_status s = disabled" by (simp add: disable_row_def)
  qed
  show "filter (\<lambda>s. sk_id s \<noteq> i) (skills (snd (disable_stmt show_datetime i now d))) = filter (\<lambda>s. sk_id s \<noteq> i) (skills d)"
    by (simp add: disable_stmt_def, rule filter_map_other) (auto simp: disable_row_def)
qed

lemma disabled_event_counts: "i \<in> disabled_rule_ids (snd (event_stmt (disabled_event E i t reason) d))"
  by (simp add: disabled_rule_ids_def event_stmt_def disabled_event_def disabled_def List.map_filter_def)

lemma event_stmt_skills [simp]: "skills (snd (event_stmt e d)) = skills d"
  by (simp add: event_stmt_def)

lemma disable_ends:
  assumes "keyed d"
  shows "ends_in (disable_memory_rule E rule_id reason) d (\<lambda>res d'. case res of
      Inr (Inr out) \<Rightarrow> disable_ok (do_rule_id out) d d' | Inr (Inl e) \<Rightarrow> d' = d | Inl _ \<Rightarrow> True)"
proof -
  let ?i = "normalize_rule_id rule_id"
  have go: "ends_in (skip_result (sql_now (disable_stmt (ru_show_datetime E) ?i))
               (skip_result (record_autopilot_event (disabled_event E ?i (sk_name r) why)) (ret (Inr out)))) d
      (\<lambda>res d'. case res of Inr (Inr out) \<Rightarrow> disable_ok (do_rule_id out) d d' | Inr (Inl e) \<Rightarrow> d' = d | Inl _ \<Rightarrow> True)"
    if "find_skill ?i d = Some r" "sk_status r = active" "do_rule_id out = ?i" for r out why
    unfolding record_autopilot_event_def ensure_autopilot_events_table_def
    by (intro ends_intros)
      (use that find_skill_Some [OF that(1)] disable_stmt_rows [OF assms that(1,2)] in
        \<open>auto simp: disable_ok_def disabled_event_counts intro!: ends_intros bexI [of _ r]\<close>)
  show ?thesis
  proof (cases "?i = []")
    case True
    then show ?thesis by (simp add: disable_memory_rule_def ends_ret)
  next
    case False
    show ?thesis
    proof (cases "find_skill ?i d")
      case None
      with False show ?thesis
        unfolding disable_memory_rule_def Let_def
        by simp (rule ends_andthen, rule ends_sql, simp_all add: ends_ret)
    next
      case (Some r)
      with False show ?thesis
        unfolding disable_memory_rule_def Let_def
        by simp (rule ends_andthen, rule ends_sql, simp, simp, intro conjI impI, simp add: ends_ret, rule go [OF Some], simp_all)
    qed
  qed
qed

text \<open>
  C32. Disabling an active rule takes exactly that rule out of service and is remembered. Should the rule come back as a
  draft, no group with it is enabled by the classification.
\<close>

theorem disabled_rule_stays_out:
  assumes "keyed (db w)" "disable_memory_rule E rule_id reason w = (Inr (Inr out), w')"
  shows "disable_ok (do_rule_id out) (db w) (db w')
    \<and> (\<forall>draft keys hashes actives key cs. cr_id draft = do_rule_id out
         \<and> pending_from_draft draft (disabled_rule_ids (db w')) \<in> set cs
         \<longrightarrow> mg_state (pg_digest (plan_group keys hashes actives (key, cs))) \<noteq> AutoEnable)"
proof
  from endsD [OF disable_ends [OF assms(1)] assms(2)] show ok: "disable_ok (do_rule_id out) (db w) (db w')" by simp
  show "\<forall>draft keys hashes actives key cs. cr_id draft = do_rule_id out
         \<and> pending_from_draft draft (disabled_rule_ids (db w')) \<in> set cs
         \<longrightarrow> mg_state (pg_digest (plan_group keys hashes actives (key, cs))) \<noteq> AutoEnable"
  proof (intro allI impI notI, elim conjE)
    fix draft keys hashes actives key cs
    assume i: "cr_id draft = do_rule_id out" and c: "pending_from_draft draft (disabled_rule_ids (db w')) \<in> set cs"
      and auto: "mg_state (pg_digest (plan_group keys hashes actives (key, cs))) = AutoEnable"
    let ?cs = "sort_by (\<lambda>a b. cmp_str (pm_item_id a) (pm_item_id b)) cs"
    from auto have "mg_state (digest_group key ?cs keys hashes actives) = AutoEnable" by (simp add: plan_group_def Let_def)
    then have "fst (classify_group key ?cs (single_source_repo ?cs) (merged_patterns ?cs) keys hashes actives) = AutoEnable"
      by (simp add: digest_group_def Let_def split: prod.splits)
    then obtain why conf where
      "classify_group key ?cs (single_source_repo ?cs) (merged_patterns ?cs) keys hashes actives = (AutoEnable, why, conf)"
      by (metis prod.collapse)
    from AutoEnable_classifyD(2) [OF this] c have "\<not> pm_autopilot_disabled (pending_from_draft draft (disabled_rule_ids (db w')))"
      by simp
    then show False using ok i by (simp add: pending_from_draft_def disable_ok_def)
  qed
qed

definition demo_active_world :: "plan_db world" where
  "demo_active_world = demo_plan_world\<lparr>db := (db demo_plan_world)\<lparr>skills := [demo_clean_draft\<lparr>sk_status := active\<rparr>]\<rparr>\<rparr>"

theorem disabled_rule_stays_out_witness:
  "\<exists>out. fst (disable_memory_rule demo_run_env (lit '' rule:d'') None demo_active_world) = Inr (Inr out)
     \<and> disable_ok (lit ''d'') (db demo_active_world) (db (snd (disable_memory_rule demo_run_env (lit '' rule:d'') None demo_active_world)))"
proof -
  let ?r = "disable_memory_rule demo_run_env (lit '' rule:d'') None demo_active_world"
  have k: "keyed (db demo_active_world)" by (simp add: keyed_def demo_active_world_def)
  have id: "(case fst ?r of Inr (Inr out) \<Rightarrow> do_rule_id out = lit ''d'' | _ \<Rightarrow> False)" by code_simp
  then obtain out where out: "?r = (Inr (Inr out), snd ?r)" by (cases ?r) (auto split: sum.splits)
  from id have "do_rule_id out = lit ''d''" by (subst (asm) out) simp
  with disabled_rule_stays_out [OF k out] out show ?thesis by (metis fst_conv)
qed

section \<open>Writing back and reading again\<close>

text \<open>Cached states are read as they were written.\<close>

lemma cache_key_roundtrip: "candidate_group_state_from_cache (candidate_group_state_cache_key s) = Some s"
proof -
  have "list_all (\<lambda>s. candidate_group_state_from_cache (candidate_group_state_cache_key s) = Some s)
      [AutoEnable, Recommended, NeedsReview, AlreadyActive]"
    by code_simp
  then show ?thesis by (cases s) simp_all
qed

definition evidence_marker :: ustr where
  "evidence_marker = lit ''Source evidence:''"

text \<open>
  The rule that the curator wrote is what the draft says afterwards: writing the refined text into
  the description and reading the drafted rule out of it gives the trimmed rule, for a rule on one line that does
  not quote the marker of the evidence and does not use the retired path prefix.
\<close>

theorem refined_rule_read_back:
  assumes "trim r \<noteq> []" "newline \<notin> set (trim r)" "\<not> str_contains (trim r) evidence_marker"
    and "\<not> starts_with (to_ascii_lowercase (trim r)) (lit ''when touching '')"
  shows "parse_candidate_drafted_rule (rewrite_draft_description raw r) = Some (trim r)"
proof -
  let ?tr = "trim r" and ?m = evidence_marker
  have marker: "newline \<notin> set ?m" "?m \<noteq> []" by code_simp+
  have ws: "is_whitespace newline" by code_simp
  have start: "trim_start ?tr = ?tr" by (simp add: trim_def trim_start_trim_end)
  have trims: "trim (newline # ?tr) = ?tr" "trim (newline # ?tr @ [newline, newline]) = ?tr"
  proof -
    have "trim_start (?tr @ [newline, newline]) = ?tr @ [newline, newline]"
      using start assms(1) by (simp add: trim_start_hd hd_append)
    moreover have "trim_end (?tr @ [newline, newline]) = ?tr"
      using trim_end_snoc [of "?tr @ [newline]" newline] trim_end_snoc [of ?tr newline] ws by (simp add: trim_def)
    ultimately show "trim (newline # ?tr @ [newline, newline]) = ?tr"
      using ws by (simp add: trim_def trim_start_def)
    show "trim (newline # ?tr) = ?tr"
      using start ws by (simp add: trim_def trim_start_def)
  qed
  obtain tail where desc: "rewrite_draft_description raw r = lit ''Rule:'' @ newline # ?tr @ tail"
    and tail: "tail = [] \<or> (\<exists>ev. tail = [newline, newline] @ ?m @ ev)"
  proof (cases "split_once_str (lit ''Source evidence:'') raw")
    case None
    then show ?thesis by (intro that [of "[]"]) (simp_all add: rewrite_draft_description_def)
  next
    case (Some x)
    then show ?thesis
      by (intro that [of "[newline, newline] @ ?m @ [newline] @ trim (snd x)"])
        (auto simp: rewrite_draft_description_def evidence_marker_def split: prod.splits)
  qed
  have none: "str_find (newline # ?tr) ?m = None"
  proof -
    have "\<not> starts_with (newline # ?tr) ?m"
    proof
      assume "starts_with (newline # ?tr) ?m"
      then obtain t where "newline # ?tr = ?m @ t" by (auto simp: starts_with_iff)
      with marker(2) have "newline = hd ?m" by (metis hd_append2 list.sel(1))
      with marker show False by (metis list.set_sel(1))
    qed
    with assms(3) show ?thesis by (simp add: str_contains_def)
  qed
  have none2: "str_find (newline # ?tr @ [newline, newline]) ?m = None"
  proof -
    have "clean_cut ?m (newline # ?tr) [newline, newline]"
      using marker by (auto simp: clean_cut_def dest: list.set_sel(2))
    moreover have "str_find [newline, newline] ?m = None" by code_simp
    ultimately show ?thesis using str_find_clean_cut none marker(2) by fastforce
  qed
  have drafted: "trim (case split_once_str ?m (newline # ?tr @ tail) of Some (d, _) \<Rightarrow> d | None \<Rightarrow> newline # ?tr @ tail) = ?tr"
    using tail
  proof
    assume "tail = []"
    with none trims(1) show ?thesis by (simp add: split_once_str_def)
  next
    assume "\<exists>ev. tail = [newline, newline] @ ?m @ ev"
    then obtain ev where ev: "tail = [newline, newline] @ ?m @ ev" by blast
    let ?pre = "newline # ?tr @ [newline, newline]"
    have "clean_cut ?m ?pre (?m @ ev)" using marker by (auto simp: clean_cut_def dest: in_set_butlastD)
    moreover have "str_find (?m @ ev) ?m = Some 0"
      using str_find_least [of 0 "?m @ ev" ?m] by simp
    ultimately have "str_find (?pre @ ?m @ ev) ?m = Some (length ?pre)"
      using str_find_clean_cut none2 marker(2) by fastforce
    then have "split_once_str ?m (newline # ?tr @ tail) = Some (?pre, ev)" by (simp add: split_once_str_def ev)
    with trims(2) show ?thesis by simp
  qed
  have "strip_prefix (trim_start (rewrite_draft_description raw r)) (lit ''Rule:'') = Some (newline # ?tr @ tail)"
  proof -
    have "trim_start (lit ''Rule:'' @ s) = lit ''Rule:'' @ s" for s
      by (simp add: trim_start_def lit_def is_whitespace_def)
    then show ?thesis by (simp add: desc)
  qed
  then have after_label: "description_section_after (rewrite_draft_description raw r) (lit ''Rule:'') = Some (newline # ?tr @ tail)"
    by (simp add: description_section_after_def)
  have "split_on (\<lambda>c. c = newline) ?tr = [?tr]" using assms(2) by (intro split_on_none) auto
  then have "lines ?tr = [?tr]" using assms(1) by (simp add: lines_def)
  moreover have "normalize_legacy_path_prefixed_rule ?tr = ?tr"
    using assms(4) by (simp add: normalize_legacy_path_prefixed_rule_def Let_def)
  ultimately show ?thesis
    using after_label drafted assms(1)
    by (simp add: parse_candidate_drafted_rule_def evidence_marker_def Let_def)
qed

theorem refined_rule_read_back_witness:
  "parse_candidate_drafted_rule (rewrite_draft_description (lit ''Source evidence: x'') (lit '' Use serde. '')) = Some (lit ''Use serde.'')"
proof -
  have t: "trim (lit '' Use serde. '') = lit ''Use serde.''" by code_simp
  have "newline \<notin> set (lit ''Use serde.'')" "lit ''Use serde.'' \<noteq> []"
    "\<not> str_contains (lit ''Use serde.'') evidence_marker"
    "\<not> starts_with (to_ascii_lowercase (lit ''Use serde.'')) (lit ''when touching '')" by code_simp+
  with refined_rule_read_back [of "lit '' Use serde. ''" "lit ''Source evidence: x''"] show ?thesis unfolding t by blast
qed

text \<open>
  The refined text gets a new description and no new content hash. A draft that the curator rewrites into an
  active rule word for word still passes the check for duplicates, and there are two active rules with one text.
\<close>

definition demo_twins :: skill_db where
  "demo_twins = \<lparr>schedule = None, events = [],
     skills = [(demo_draft ''old'')\<lparr>sk_status := active, sk_description := lit ''Rule:'' @ [newline] @ lit ''Use serde''\<rparr>,
               (demo_draft ''new'')\<lparr>sk_description := lit ''use serde please'', sk_content_hash := Some (lit ''h2'')\<rparr>],
     rejected_signatures = [], rule_events = []\<rparr>"

definition demo_twins_world :: "skill_db world" where
  "demo_twins_world = demo_drafts_world\<lparr>db := demo_twins\<rparr>"

theorem refined_draft_keeps_old_hash:
  "let E = demo_run_env;
       c = demo_memory\<lparr>pm_title := lit ''Use serde'', pm_body := lit ''Use serde'', pm_raw_description := Some (lit ''use serde please'')\<rparr>;
       w = snd (promote_candidate [] (lit ''new'') (snd (update_pending_draft_with_refined_rule E (lit ''new'') c demo_twins_world)))
   in map sk_status (skills (db w)) = [active, active]
    \<and> sk_description (skills (db w) ! 0) = sk_description (skills (db w) ! 1)"
  unfolding Let_def by (intro conjI) code_simp+

end
