(* ===== verification/Files.thy ===== *)
theory Files
  imports Effects Json Comparators Text_Ops
begin

text \<open>
  Files and JSON objects. A path is the list of its components below the root; the file system
  holds the text of its files and its directories, and every call of it takes effect as a whole
  or fails. An object of \<^verbatim>\<open>serde_json\<close> is an association list in the order of its keys, as the
  \<^verbatim>\<open>BTreeMap\<close> behind \<^verbatim>\<open>serde_json::Map\<close> keeps it; reads take the first entry of a key.
\<close>

section \<open>Paths and files\<close>

type_synonym path = "ustr list"

definition display_path :: "path \<Rightarrow> ustr" where
  "display_path p = (if p = [] then [ch CHR ''/''] else concat (map (\<lambda>c. ch CHR ''/'' # c) p))"

definition parent_path :: "path \<Rightarrow> path option" where
  "parent_path p = (if p = [] then None else Some (butlast p))"

record file_system =
  files :: "path \<Rightarrow> ustr option"
  dirs :: "path \<Rightarrow> bool"

type_synonym 'a fs = "(file_system, 'a) io"

definition path_exists :: "path \<Rightarrow> bool fs" where
  "path_exists p = get (\<lambda>d. files d p \<noteq> None \<or> dirs d p)"

text \<open>A call of the file system: it takes effect as a whole, or fails and changes nothing.\<close>

definition fs_call :: "(file_system \<Rightarrow> 'a \<times> file_system) \<Rightarrow> 'a fs" where
  "fs_call = sql"

text \<open>\<^verbatim>\<open>map_err\<close> and \<^verbatim>\<open>with_context\<close>; \<^verbatim>\<open>to_string\<close> of an \<^verbatim>\<open>anyhow\<close> error shows the outermost context.\<close>

definition with_error :: "(ustr \<Rightarrow> ustr) \<Rightarrow> ('d, 'a) io \<Rightarrow> ('d, 'a) io" where
  "with_error f m w = (case m w of (Inl e, w') \<Rightarrow> (Inl (f e), w') | (Inr a, w') \<Rightarrow> (Inr a, w'))"

definition create_dir_all :: "path \<Rightarrow> unit fs" where
  "create_dir_all p = fs_call (\<lambda>d. ((), d\<lparr>dirs := \<lambda>q. dirs d q \<or> prefix q p\<rparr>))"

text \<open>Reading a file that is not there, or is not UTF-8, fails like any other call.\<close>

definition read_to_string :: "path \<Rightarrow> ustr fs" where
  "read_to_string p = andthen (fs_call (\<lambda>d. (files d p, d))) (\<lambda>c.
     case c of Some s \<Rightarrow> ret s | None \<Rightarrow> fail (lit ''No such file or directory (os error 2)''))"

text \<open>
  \<^verbatim>\<open>write_atomic\<close>: a temporary file beside the target, renamed over it. The temporary file is gone when it is
  not renamed, so the calls on it show only through their failures.
\<close>

definition persist :: "path \<Rightarrow> ustr \<Rightarrow> file_system \<Rightarrow> unit \<times> file_system" where
  "persist p s d = ((), d\<lparr>files := (files d)(p := Some s)\<rparr>)"

definition write_atomic_file :: "path \<Rightarrow> ustr \<Rightarrow> unit fs" where
  "write_atomic_file p s =
     andthen (create_dir_all (case parent_path p of Some q \<Rightarrow> q | None \<Rightarrow> [lit ''.''])) (\<lambda>_.
     andthen (fs_call (\<lambda>d. ((), d))) (\<lambda>_.
     andthen (fs_call (\<lambda>d. ((), d))) (\<lambda>_. fs_call (persist p s))))"

section \<open>What a step does to the files\<close>

lemma with_error_eq:
  "with_error f m w = ((case fst (m w) of Inl e \<Rightarrow> Inl (f e) | Inr a \<Rightarrow> Inr a), snd (m w))"
  by (cases "m w") (auto simp: with_error_def split: sum.split)

lemma ends_with_error [ends_intros]:
  "ends_in m d (\<lambda>r d'. Q (case r of Inl e \<Rightarrow> Inl (f e) | Inr a \<Rightarrow> Inr a) d') \<Longrightarrow> ends_in (with_error f m) d Q"
  unfolding ends_in_def by (simp add: with_error_eq)

lemma ends_get [ends_intros]: "Q (Inr (f d)) d \<Longrightarrow> ends_in (get f) d Q"
  by (auto simp: ends_in_def get_def)

lemma ends_fs_call [ends_intros]:
  "(\<And>e. Q (Inl e) d) \<Longrightarrow> Q (Inr (fst (f d))) (snd (f d)) \<Longrightarrow> ends_in (fs_call f) d Q"
  unfolding fs_call_def by (rule ends_sql)

lemma ends_create_dir_all [ends_intros]:
  "(\<And>r d'. files d' = files d \<Longrightarrow> Q r d') \<Longrightarrow> ends_in (create_dir_all p) d Q"
  unfolding create_dir_all_def by (rule ends_fs_call) simp_all

lemma ends_read_to_string [ends_intros]:
  "(\<And>e. Q (Inl e) d) \<Longrightarrow> (\<And>s. files d p = Some s \<Longrightarrow> Q (Inr s) d) \<Longrightarrow> ends_in (read_to_string p) d Q"
  unfolding read_to_string_def
  by (intro ends_andthen ends_fs_call) (auto intro: ends_intros split: option.split)

lemma ends_write_atomic_file [ends_intros]:
  assumes "\<And>e d'. files d' = files d \<Longrightarrow> Q (Inl e) d'" "\<And>d'. files d' = (files d)(p \<mapsto> s) \<Longrightarrow> Q (Inr ()) d'"
  shows "ends_in (write_atomic_file p s) d Q"
  unfolding write_atomic_file_def
  by (intro ends_andthen ends_create_dir_all)
    (auto intro!: ends_andthen ends_fs_call assms simp: persist_def split: sum.split)

section \<open>Objects\<close>

type_synonym 'f obj = "(ustr \<times> 'f json) list"

text \<open>\<^verbatim>\<open>insert\<close>, \<^verbatim>\<open>remove\<close>, \<^verbatim>\<open>entry(k).or_insert_with(..)\<close> and a change through \<^verbatim>\<open>get_mut\<close>.\<close>

fun obj_insert :: "ustr \<Rightarrow> 'f json \<Rightarrow> 'f obj \<Rightarrow> 'f obj" where
  "obj_insert k v [] = [(k, v)]"
| "obj_insert k v ((k', v') # m) =
     (case cmp_str k k' of
        Less \<Rightarrow> (k, v) # (k', v') # m
      | Equal \<Rightarrow> (k, v) # m
      | Greater \<Rightarrow> (k', v') # obj_insert k v m)"

definition obj_remove :: "ustr \<Rightarrow> 'f obj \<Rightarrow> 'f obj" where
  "obj_remove k m = filter (\<lambda>e. fst e \<noteq> k) m"

definition obj_entry :: "ustr \<Rightarrow> 'f json \<Rightarrow> 'f obj \<Rightarrow> 'f obj" where
  "obj_entry k v m = (case map_of m k of None \<Rightarrow> obj_insert k v m | Some _ \<Rightarrow> m)"

definition obj_update :: "ustr \<Rightarrow> ('f json \<Rightarrow> 'f json) \<Rightarrow> 'f obj \<Rightarrow> 'f obj" where
  "obj_update k f m = map (\<lambda>e. if fst e = k then (fst e, f (snd e)) else e) m"

definition sorted_obj :: "'f obj \<Rightarrow> bool" where
  "sorted_obj m \<longleftrightarrow> sorted_wrt str_less (map fst m)"

lemma cmp_str_iff: "cmp_str a b = Equal \<longleftrightarrow> a = b" "cmp_str a b = Less \<longleftrightarrow> str_less a b"
  "cmp_str a b = Greater \<longleftrightarrow> str_less b a"
  using str_less_linear [of a b] by (auto simp: cmp_str_def dest: str_less_asym)

lemma cmp_str_cases:
  obtains (Less) "cmp_str k k' = Less" "k \<noteq> k'" "str_less k k'"
    | (Equal) "cmp_str k k' = Equal" "k = k'"
    | (Greater) "cmp_str k k' = Greater" "k \<noteq> k'" "str_less k' k"
  using cmp_str_iff [of k k'] str_less_irrefl by (cases "cmp_str k k'") auto

lemma map_of_obj_insert [simp]: "map_of (obj_insert k v m) = (map_of m)(k \<mapsto> v)"
proof (induction m)
  case (Cons e m)
  obtain k' v' where e: "e = (k', v')" by (cases e)
  show ?case by (rule cmp_str_cases [of k k']) (use Cons e in \<open>auto simp: fun_eq_iff\<close>)
qed simp

lemma map_of_obj_remove [simp]: "map_of (obj_remove k m) = (map_of m)(k := None)"
  unfolding obj_remove_def by (induction m) (auto simp: fun_eq_iff)

lemma map_of_obj_entry [simp]:
  "map_of (obj_entry k v m) = (case map_of m k of None \<Rightarrow> (map_of m)(k \<mapsto> v) | Some _ \<Rightarrow> map_of m)"
  by (simp add: obj_entry_def split: option.split)

lemma map_of_obj_update [simp]: "map_of (obj_update k f m) = (map_of m)(k := map_option f (map_of m k))"
  unfolding obj_update_def by (induction m) (auto simp: fun_eq_iff)

lemma keys_obj_insert: "set (map fst (obj_insert k v m)) = insert k (set (map fst m))"
proof (induction m)
  case (Cons e m)
  obtain k' v' where e: "e = (k', v')" by (cases e)
  show ?case by (rule cmp_str_cases [of k k']) (use Cons e in auto)
qed simp

lemma sorted_obj_insert: "sorted_obj m \<Longrightarrow> sorted_obj (obj_insert k v m)"
proof (induction m)
  case (Cons e m)
  obtain k' v' where e: "e = (k', v')" by (cases e)
  with Cons.prems have s: "sorted_obj m" "\<forall>x \<in> set (map fst m). str_less k' x" by (auto simp: sorted_obj_def)
  show ?case
  proof (cases "cmp_str k k'")
    case Less
    moreover from this have "str_less k k'" by (simp add: cmp_str_iff)
    ultimately show ?thesis using s e Cons.prems by (auto simp: sorted_obj_def intro: str_less_trans)
  next
    case Equal
    moreover from this have "k = k'" by (simp add: cmp_str_iff)
    ultimately show ?thesis using s e by (auto simp: sorted_obj_def)
  next
    case Greater
    with s(2) have "\<forall>x \<in> set (map fst (obj_insert k v m)). str_less k' x"
      unfolding keys_obj_insert by (auto simp: cmp_str_iff)
    with Greater e Cons.IH [OF s(1)] show ?thesis by (simp add: sorted_obj_def)
  qed
qed (simp add: sorted_obj_def)

lemma sorted_obj_remove: "sorted_obj m \<Longrightarrow> sorted_obj (obj_remove k m)"
  unfolding sorted_obj_def obj_remove_def by (induction m) auto

lemma sorted_obj_update [simp]: "sorted_obj (obj_update k f m) = sorted_obj m"
proof -
  have "map fst (obj_update k f m) = map fst m" unfolding obj_update_def by (induction m) auto
  then show ?thesis by (simp add: sorted_obj_def)
qed

lemma sorted_obj_entry: "sorted_obj m \<Longrightarrow> sorted_obj (obj_entry k v m)"
  by (simp add: obj_entry_def sorted_obj_insert split: option.split)

text \<open>A sorted object is determined by its entries.\<close>

lemma sorted_obj_distinct: "sorted_obj m \<Longrightarrow> distinct (map fst m)"
  unfolding sorted_obj_def by (induction m) auto

lemma sorted_obj_eqI:
  assumes "sorted_obj m" "sorted_obj m'" "map_of m = map_of m'"
  shows "m = m'"
  using assms
proof (induction m arbitrary: m')
  case Nil
  then show ?case by (cases m') (auto simp: fun_eq_iff split: if_splits)
next
  case (Cons e m)
  obtain k v where e: "e = (k, v)" by (cases e)
  have least: "\<forall>x \<in> set (map fst m). str_less k x" and s: "sorted_obj m" using Cons.prems(1) e by (auto simp: sorted_obj_def)
  show ?case
  proof (cases m')
    case Nil
    with Cons.prems(3) e show ?thesis by (auto simp: fun_eq_iff split: if_splits)
  next
    case (Cons e' n)
    obtain k' v' where e': "e' = (k', v')" by (cases e')
    have least': "\<forall>x \<in> set (map fst n). str_less k' x" and s': "sorted_obj n" using Cons.prems(2) Cons e' by (auto simp: sorted_obj_def)
    have keys: "insert k (set (map fst m)) = insert k' (set (map fst n))"
      using arg_cong [OF Cons.prems(3), of dom] e e' Cons unfolding dom_map_of_conv_image_fst by simp
    have k: "k = k'"
    proof (rule ccontr)
      assume ne: "k \<noteq> k'"
      with keys have "k \<in> set (map fst n)" "k' \<in> set (map fst m)" by auto
      with least least' str_less_asym show False by blast
    qed
    have "k \<notin> set (map fst m)" "k \<notin> set (map fst n)" using least least' k by (auto dest: str_less_irrefl [THEN notE])
    then have none: "map_of m k = None" "map_of n k = None" by (auto simp: map_of_eq_None_iff)
    have at: "map_of ((k, v) # m) x = map_of ((k, v') # n) x" for x
      using fun_cong [OF Cons.prems(3), of x] e e' Cons k by simp
    have "map_of m x = map_of n x" for x using at [of x] none by (cases "x = k") simp_all
    then have "map_of m = map_of n" ..
    moreover have "v = v'" using at [of k] by simp
    ultimately show ?thesis using Cons.IH [OF s s'] e e' Cons k by simp
  qed
qed

declare obj_insert.simps [simp del]

end
