(* ===== verification/Hook_Config.thy ===== *)
theory Hook_Config
  imports Files "HOL-Library.Multiset"
begin

text \<open>
  The hooks DiffLore registers in the settings of coding agents
  (\<^verbatim>\<open>installer/hooks_install.rs\<close> and the loading and writing of \<^verbatim>\<open>installer/json_config.rs\<close> of the command line
  crate): merging the hook groups into a settings object, removing them and reading
  them back. The model is that of a Unix build. The JSON parser and printer are arguments.
\<close>

section \<open>Data\<close>

datatype HookSurface = Claude | Codex | Cursor | Gemini | Windsurf

datatype Status = Installed | Updated | Removed | Skipped ustr | Error ustr

record TargetOutcome =
  to_name :: ustr
  to_status :: Status
  to_detail :: ustr

datatype InstallState = InstalledState | NotInstalled | Conflict | UnknownState

record TargetStatus =
  ts_name :: ustr
  ts_detected :: bool
  ts_state :: InstallState
  ts_detail :: "ustr option"

text \<open>The JSON library: \<^verbatim>\<open>serde_json::from_str\<close> and \<^verbatim>\<open>to_string_pretty\<close>.\<close>

record 'f host =
  parse_json :: "ustr \<Rightarrow> ustr + 'f json"
  print_json :: "'f json \<Rightarrow> ustr + ustr"

definition HOOK_FAST_TIMEOUT_SECS :: nat where "HOOK_FAST_TIMEOUT_SECS = 5"
definition HOOK_DEFAULT_TIMEOUT_SECS :: nat where "HOOK_DEFAULT_TIMEOUT_SECS = 10"
definition LEGACY_HOOK_PRE_TOOL_TIMEOUT_MS :: nat where "LEGACY_HOOK_PRE_TOOL_TIMEOUT_MS = 2000"
definition LEGACY_HOOK_FAST_TIMEOUT_MS :: nat where "LEGACY_HOOK_FAST_TIMEOUT_MS = 5000"
definition LEGACY_HOOK_DEFAULT_TIMEOUT_MS :: nat where "LEGACY_HOOK_DEFAULT_TIMEOUT_MS = 10000"

definition CLAUDE_POST_TOOL_USE_MATCHER :: ustr where
  "CLAUDE_POST_TOOL_USE_MATCHER = lit ''Edit|MultiEdit|Write|Bash''"

definition CLAUDE_HOOK_EVENT_MATCHERS :: "(ustr \<times> ustr option) list" where
  "CLAUDE_HOOK_EVENT_MATCHERS =
    [(lit ''PostToolUse'', Some CLAUDE_POST_TOOL_USE_MATCHER), (lit ''SessionStart'', Some (lit ''startup|clear|compact'')),
     (lit ''UserPromptSubmit'', None), (lit ''Stop'', None), (lit ''SessionEnd'', None)]"

definition CODEX_HOOK_EVENT_MATCHERS :: "(ustr \<times> ustr option) list" where
  "CODEX_HOOK_EVENT_MATCHERS =
    [(lit ''PostToolUse'', Some (lit ''apply_patch|Bash|Write|Edit|MultiEdit'')),
     (lit ''SessionStart'', Some (lit ''startup|clear|compact'')), (lit ''UserPromptSubmit'', None), (lit ''Stop'', None)]"

definition CURSOR_HOOK_EVENTS :: "ustr list" where
  "CURSOR_HOOK_EVENTS = map lit
    [''afterFileEdit'', ''afterMCPExecution'', ''afterShellExecution'', ''beforeSubmitPrompt'', ''stop'']"

definition GEMINI_HOOK_EVENTS :: "ustr list" where
  "GEMINI_HOOK_EVENTS = map lit [''SessionStart'', ''BeforeAgent'', ''AfterAgent'', ''AfterTool'', ''SessionEnd'']"

definition WINDSURF_HOOK_EVENTS :: "ustr list" where
  "WINDSURF_HOOK_EVENTS = map lit [''pre_user_prompt'', ''post_write_code'', ''post_run_command'', ''post_cascade_response'']"

definition WINDSURF_RETIRED_HOOK_EVENTS :: "ustr list" where
  "WINDSURF_RETIRED_HOOK_EVENTS = map lit [''post_mcp_tool_use'']"

section \<open>Hook commands\<close>

definition HOOK_LAUNCHER_SENTINEL :: ustr where "HOOK_LAUNCHER_SENTINEL = lit ''--difflore-hook''"

definition hook_entrypoint_stem :: ustr where "hook_entrypoint_stem = lit ''difflore-hook''"

text \<open>\<^verbatim>\<open>&bin[..=idx]\<close> for the last separator, or nothing; the name has no suffix on Unix.\<close>

definition hook_adjacent_binary_path :: "ustr \<Rightarrow> ustr \<Rightarrow> ustr" where
  "hook_adjacent_binary_path bin stem = rev (dropWhile (\<lambda>c. c \<noteq> ch CHR ''/'' \<and> c \<noteq> 92) (rev bin)) @ stem"

definition hook_entrypoint_path :: "ustr \<Rightarrow> ustr" where
  "hook_entrypoint_path bin = hook_adjacent_binary_path bin hook_entrypoint_stem"

definition hook_entrypoint_token :: "ustr \<Rightarrow> ustr" where
  "hook_entrypoint_token p = [34] @ p @ [34]"

definition hook_command_string :: "ustr \<Rightarrow> ustr \<Rightarrow> ustr" where
  "hook_command_string bin client =
     hook_entrypoint_token (replace_char 92 (ch CHR ''/'') (hook_entrypoint_path bin)) @ lit '' --client '' @ client"

definition hook_command_matches_client :: "ustr \<Rightarrow> ustr \<Rightarrow> bool" where
  "hook_command_matches_client command client =
     (let launcher = str_contains command (lit ''difflore-launcher'') \<and> str_contains command HOOK_LAUNCHER_SENTINEL;
          direct = \<not> launcher \<and> str_contains command (lit ''difflore-hook'') in
      (direct \<or> launcher) \<and> str_contains command (lit ''--client '' @ client))"

text \<open>Which entries of an event belong to DiffLore.\<close>

definition entry_named :: "'f json \<Rightarrow> bool" where
  "entry_named v \<longleftrightarrow> get_str v (lit ''name'') = Some (lit ''difflore'')"

definition entry_runs :: "ustr \<Rightarrow> 'f json \<Rightarrow> bool" where
  "entry_runs client v \<longleftrightarrow> (case get_str v (lit ''command'') of Some c \<Rightarrow> hook_command_matches_client c client | None \<Rightarrow> False)"

definition any_inner :: "('f json \<Rightarrow> bool) \<Rightarrow> 'f json \<Rightarrow> bool" where
  "any_inner p v \<longleftrightarrow> (case Option.bind (json_get v (lit ''hooks'')) as_array of Some inner \<Rightarrow> list_ex p inner | None \<Rightarrow> False)"

definition hook_value_is_difflore :: "'f json \<Rightarrow> ustr \<Rightarrow> bool" where
  "hook_value_is_difflore v client =
     (if client = lit ''cursor'' then entry_named v
      else if client = lit ''gemini-cli'' then any_inner entry_named v
      else if client = lit ''windsurf'' then entry_runs (lit ''windsurf'') v
      else any_inner (entry_runs client) v)"

definition retain_user :: "ustr \<Rightarrow> 'f json list \<Rightarrow> 'f json list" where
  "retain_user client = filter (\<lambda>g. \<not> hook_value_is_difflore g client)"

section \<open>The groups DiffLore writes\<close>

text \<open>\<^verbatim>\<open>json!\<close> of an object: its fields are inserted one after the other.\<close>

definition json_object :: "(ustr \<times> 'f json) list \<Rightarrow> 'f json" where
  "json_object kvs = JObject (fold (\<lambda>(k, v). obj_insert k v) kvs [])"

definition claude_hook_group_with_timeout :: "ustr option \<Rightarrow> ustr \<Rightarrow> nat \<Rightarrow> 'f json" where
  "claude_hook_group_with_timeout matcher command timeout_secs =
     (let m = (case matcher of Some m \<Rightarrow> obj_insert (lit ''matcher'') (JString m) [] | None \<Rightarrow> []) in
      JObject (obj_insert (lit ''hooks'')
        (JArray [json_object [(lit ''type'', JString (lit ''command'')), (lit ''command'', JString command),
           (lit ''timeout'', JPosInt timeout_secs)]]) m))"

definition timeout_secs_for_event :: "ustr \<Rightarrow> nat" where
  "timeout_secs_for_event event =
     (if event = lit ''PostToolUse'' \<or> event = lit ''UserPromptSubmit'' then HOOK_FAST_TIMEOUT_SECS else HOOK_DEFAULT_TIMEOUT_SECS)"

definition legacy_timeout_ms_for_event :: "ustr \<Rightarrow> nat" where
  "legacy_timeout_ms_for_event event =
     (if event = lit ''PreToolUse'' then LEGACY_HOOK_PRE_TOOL_TIMEOUT_MS
      else if event = lit ''PostToolUse'' \<or> event = lit ''UserPromptSubmit'' then LEGACY_HOOK_FAST_TIMEOUT_MS
      else LEGACY_HOOK_DEFAULT_TIMEOUT_MS)"

definition claude_hook_group :: "ustr \<Rightarrow> ustr option \<Rightarrow> ustr \<Rightarrow> 'f json" where
  "claude_hook_group event matcher command = claude_hook_group_with_timeout matcher command (timeout_secs_for_event event)"

text \<open>Codex takes groups of the same shape.\<close>

definition codex_hook_group_with_timeout :: "ustr option \<Rightarrow> ustr \<Rightarrow> nat \<Rightarrow> 'f json" where
  "codex_hook_group_with_timeout matcher command timeout_secs =
     (let m = (case matcher of Some m \<Rightarrow> obj_insert (lit ''matcher'') (JString m) [] | None \<Rightarrow> []) in
      JObject (obj_insert (lit ''hooks'')
        (JArray [json_object [(lit ''type'', JString (lit ''command'')), (lit ''command'', JString command),
           (lit ''timeout'', JPosInt timeout_secs)]]) m))"

definition codex_hook_group :: "ustr \<Rightarrow> ustr option \<Rightarrow> ustr \<Rightarrow> 'f json" where
  "codex_hook_group event matcher command = codex_hook_group_with_timeout matcher command (timeout_secs_for_event event)"

definition cursor_entry :: "ustr \<Rightarrow> nat \<Rightarrow> 'f json" where
  "cursor_entry command timeout_secs = json_object
     [(lit ''name'', JString (lit ''difflore'')), (lit ''command'', JString command), (lit ''timeout'', JPosInt timeout_secs)]"

definition gemini_entry :: "ustr \<Rightarrow> nat \<Rightarrow> 'f json" where
  "gemini_entry command timeout_secs = json_object [(lit ''matcher'', JString (lit ''*'')),
     (lit ''hooks'', JArray [json_object [(lit ''name'', JString (lit ''difflore'')), (lit ''type'', JString (lit ''command'')),
        (lit ''command'', JString command), (lit ''timeout'', JPosInt timeout_secs)]])]"

definition windsurf_entry :: "ustr \<Rightarrow> 'f json" where
  "windsurf_entry command = json_object [(lit ''command'', JString command), (lit ''show_output'', JBool False)]"

definition render_claude_code_hook_block :: "ustr \<Rightarrow> 'f json list" where
  "render_claude_code_hook_block bin =
     map (\<lambda>(event, matcher). claude_hook_group event matcher (hook_command_string bin (lit ''claude-code''))) CLAUDE_HOOK_EVENT_MATCHERS"

definition render_codex_hook_block :: "ustr \<Rightarrow> 'f json list" where
  "render_codex_hook_block bin =
     map (\<lambda>(event, matcher). codex_hook_group event matcher (hook_command_string bin (lit ''codex''))) CODEX_HOOK_EVENT_MATCHERS"

definition render_cursor_hook_block :: "ustr \<Rightarrow> 'f json list" where
  "render_cursor_hook_block bin =
     map (\<lambda>_. cursor_entry (hook_command_string bin (lit ''cursor'')) HOOK_FAST_TIMEOUT_SECS) CURSOR_HOOK_EVENTS"

definition render_gemini_cli_hook_block :: "ustr \<Rightarrow> 'f json list" where
  "render_gemini_cli_hook_block bin =
     map (\<lambda>_. gemini_entry (hook_command_string bin (lit ''gemini-cli'')) HOOK_FAST_TIMEOUT_SECS) GEMINI_HOOK_EVENTS"

definition render_windsurf_hook_block :: "ustr \<Rightarrow> 'f json list" where
  "render_windsurf_hook_block bin =
     map (\<lambda>_. windsurf_entry (hook_command_string bin (lit ''windsurf''))) WINDSURF_HOOK_EVENTS"

text \<open>What earlier releases wrote.\<close>

definition legacy_claude_tables :: "(ustr \<times> ustr option) list list" where
  "legacy_claude_tables =
    (let rest = [(lit ''SessionStart'', Some (lit ''startup|clear|compact'')), (lit ''UserPromptSubmit'', None),
                 (lit ''Stop'', None), (lit ''SessionEnd'', None)] in
     [(lit ''PreToolUse'', Some (lit ''Read'')) # (lit ''PostToolUse'', Some (lit ''Edit|MultiEdit|Write'')) # rest,
      (lit ''PreToolUse'', Some (lit ''Read'')) # (lit ''PostToolUse'', Some (lit ''Edit|MultiEdit|Write|Bash'')) # rest,
      (lit ''PostToolUse'', Some CLAUDE_POST_TOOL_USE_MATCHER) # rest])"

definition legacy_claude_code_hook_blocks :: "ustr \<Rightarrow> 'f json list list" where
  "legacy_claude_code_hook_blocks bin =
     map (map (\<lambda>(event, matcher). claude_hook_group_with_timeout matcher (hook_command_string bin (lit ''claude-code''))
                (legacy_timeout_ms_for_event event))) legacy_claude_tables"

definition legacy_codex_hook_blocks :: "ustr \<Rightarrow> 'f json list list" where
  "legacy_codex_hook_blocks bin =
     [map (\<lambda>(event, matcher). codex_hook_group_with_timeout matcher (hook_command_string bin (lit ''codex''))
             (legacy_timeout_ms_for_event event))
        [(lit ''PostToolUse'', Some (lit ''apply_patch|Bash|Write|Edit|MultiEdit'')),
         (lit ''SessionStart'', Some (lit ''startup|clear|compact'')), (lit ''UserPromptSubmit'', None), (lit ''Stop'', None),
         (lit ''SessionEnd'', None)]]"

definition legacy_cursor_hook_blocks :: "ustr \<Rightarrow> 'f json list list" where
  "legacy_cursor_hook_blocks bin =
     [map (\<lambda>_. cursor_entry (hook_command_string bin (lit ''cursor'')) LEGACY_HOOK_FAST_TIMEOUT_MS)
        [lit ''afterFileEdit'', lit ''afterMCPExecution'', lit ''afterShellExecution'', lit ''beforeSubmitPrompt'', lit ''stop'']]"

definition legacy_gemini_cli_hook_blocks :: "ustr \<Rightarrow> 'f json list list" where
  "legacy_gemini_cli_hook_blocks bin =
     [map (\<lambda>_. gemini_entry (hook_command_string bin (lit ''gemini-cli'')) LEGACY_HOOK_FAST_TIMEOUT_MS)
        [lit ''SessionStart'', lit ''BeforeAgent'', lit ''AfterAgent'', lit ''AfterTool'', lit ''SessionEnd'']]"

end
