(* ===== verification/Hook_Install.thy ===== *)
theory Hook_Install
  imports Hook_Config
begin

text \<open>
  Installing, removing and probing hooks (\<^verbatim>\<open>installer/hooks_install.rs\<close>): first the changes to the
  settings object, then the operations on the settings files. The theorems show that the entries of the user
  survive both, that a second installation changes nothing, and what a removal leaves.
\<close>

section \<open>Changes to the settings object\<close>

fun try_fold :: "('a \<Rightarrow> 's \<Rightarrow> 'e + 's) \<Rightarrow> 'a list \<Rightarrow> 's \<Rightarrow> 'e + 's" where
  "try_fold f [] s = Inr s"
| "try_fold f (x # xs) s = (case f x s of Inl e \<Rightarrow> Inl e | Inr s' \<Rightarrow> try_fold f xs s')"

definition not_an_object :: "path \<Rightarrow> ustr" where
  "not_an_object p = display_path p @ lit '': `hooks` is not a JSON object''"

definition not_an_array :: "path \<Rightarrow> ustr \<Rightarrow> ustr" where
  "not_an_array p event = display_path p @ lit '': hooks.'' @ event @ lit '' is not an array''"

text \<open>The \<^verbatim>\<open>hooks\<close> object, made if it is missing, and a change to it.\<close>

definition with_hooks :: "path \<Rightarrow> ('f obj \<Rightarrow> ustr + 'f obj \<times> 'a) \<Rightarrow> 'f obj \<Rightarrow> ustr + 'f obj \<times> 'a" where
  "with_hooks p f cfg =
     (let cfg1 = obj_entry (lit ''hooks'') (JObject []) cfg in
      case map_of cfg1 (lit ''hooks'') of
        Some (JObject h) \<Rightarrow>
          (case f h of Inl e \<Rightarrow> Inl e | Inr (h', a) \<Rightarrow> Inr (obj_update (lit ''hooks'') (\<lambda>_. JObject h') cfg1, a))
      | _ \<Rightarrow> Inl (not_an_object p))"

subsection \<open>Claude Code\<close>

definition claude_code_event_is_registered :: "ustr \<Rightarrow> bool" where
  "claude_code_event_is_registered event \<longleftrightarrow> list_ex (\<lambda>(registered, _). registered = event) CLAUDE_HOOK_EVENT_MATCHERS"

definition claude_strip_event :: "ustr \<Rightarrow> 'f obj \<times> nat \<Rightarrow> 'f obj \<times> nat" where
  "claude_strip_event event = (\<lambda>(h, changed).
     if claude_code_event_is_registered event then (h, changed)
     else case map_of h event of
       Some (JArray groups) \<Rightarrow>
         (let kept = retain_user (lit ''claude-code'') groups in
          if length kept \<noteq> length groups
          then ((if kept = [] then obj_remove event h else obj_update event (\<lambda>_. JArray kept) h), Suc changed)
          else (h, changed))
     | _ \<Rightarrow> (h, changed))"

text \<open>The closure of \<^verbatim>\<open>retain\<close>: what is kept, \<^verbatim>\<open>found_desired\<close> and \<^verbatim>\<open>removed_difflore\<close>.\<close>

fun claude_retain :: "'f json \<Rightarrow> bool \<Rightarrow> 'f json list \<Rightarrow> 'f json list \<times> bool \<times> bool" where
  "claude_retain desired found [] = ([], found, False)"
| "claude_retain desired found (g # gs) =
     (if \<not> hook_value_is_difflore g (lit ''claude-code'') then
        (let (kept, f, r) = claude_retain desired found gs in (g # kept, f, r))
      else if \<not> found \<and> g = desired then
        (let (kept, f, r) = claude_retain desired True gs in (g # kept, f, r))
      else (let (kept, f, _) = claude_retain desired found gs in (kept, f, True)))"

definition claude_merge_event :: "path \<Rightarrow> ustr \<Rightarrow> ustr \<times> ustr option \<Rightarrow> 'f obj \<times> nat \<Rightarrow> ustr + 'f obj \<times> nat" where
  "claude_merge_event p command = (\<lambda>(event, matcher) (h, changed).
     (let desired = claude_hook_group event matcher command;
          h1 = obj_entry event (JArray []) h in
      case map_of h1 event of
        Some (JArray groups) \<Rightarrow>
          (let (kept, found, removed) = claude_retain desired False groups;
               event_changed = (if found then removed else True) in
           Inr (obj_update event (\<lambda>_. JArray (if found then kept else kept @ [desired])) h1,
                if event_changed then Suc changed else changed))
      | _ \<Rightarrow> Inl (not_an_array p event)))"

definition claude_merge :: "path \<Rightarrow> ustr \<Rightarrow> 'f obj \<Rightarrow> ustr + 'f obj \<times> nat" where
  "claude_merge p bin = with_hooks p (\<lambda>h.
     try_fold (claude_merge_event p (hook_command_string bin (lit ''claude-code''))) CLAUDE_HOOK_EVENT_MATCHERS
       (fold claude_strip_event (map fst h) (h, 0)))"

subsection \<open>Codex\<close>

text \<open>
  One pass over all events: entries of DiffLore go, and so do the events that end up without entries. The
  count is that of the events that lost an entry.
\<close>

definition strip_value :: "ustr \<Rightarrow> 'f json \<Rightarrow> 'f json" where
  "strip_value client v = (case v of JArray gs \<Rightarrow> JArray (retain_user client gs) | _ \<Rightarrow> v)"

definition strip_events :: "ustr \<Rightarrow> 'f obj \<Rightarrow> 'f obj \<times> nat" where
  "strip_events client h =
     (let h1 = map (\<lambda>(event, v). (event, strip_value client v)) h;
          emptied = map fst (filter (\<lambda>(event, v). v = JArray []) h1) in
      (filter (\<lambda>(event, v). event \<notin> set emptied) h1,
       length (filter (\<lambda>(event, v). strip_value client v \<noteq> v) h)))"

definition codex_push :: "path \<Rightarrow> ustr \<Rightarrow> ustr \<times> ustr option \<Rightarrow> 'f obj \<Rightarrow> ustr + 'f obj" where
  "codex_push p command = (\<lambda>(event, matcher) h.
     (let h1 = obj_entry event (JArray []) h in
      case map_of h1 event of
        Some (JArray groups) \<Rightarrow> Inr (obj_update event (\<lambda>_. JArray (groups @ [codex_hook_group event matcher command])) h1)
      | _ \<Rightarrow> Inl (not_an_array p event)))"

definition codex_merge :: "path \<Rightarrow> ustr \<Rightarrow> 'f obj \<Rightarrow> ustr + 'f obj \<times> bool" where
  "codex_merge p bin = with_hooks p (\<lambda>h.
     let (h1, removed) = strip_events (lit ''codex'') h in
     case try_fold (codex_push p (hook_command_string bin (lit ''codex''))) CODEX_HOOK_EVENT_MATCHERS h1 of
       Inl e \<Rightarrow> Inl e | Inr h2 \<Rightarrow> Inr (h2, 0 < removed))"

subsection \<open>Cursor, Gemini and Windsurf\<close>

definition refresh_event :: "path \<Rightarrow> ustr \<Rightarrow> 'f json \<Rightarrow> ustr \<Rightarrow> 'f obj \<times> bool \<Rightarrow> ustr + 'f obj \<times> bool" where
  "refresh_event p client new_entry event = (\<lambda>(h, existed).
     (let h1 = obj_entry event (JArray []) h in
      case map_of h1 event of
        Some (JArray groups) \<Rightarrow>
          (let kept = retain_user client groups in
           Inr (obj_update event (\<lambda>_. JArray (kept @ [new_entry])) h1, existed \<or> length kept \<noteq> length groups))
      | _ \<Rightarrow> Inl (not_an_array p event)))"

definition cursor_merge :: "path \<Rightarrow> ustr \<Rightarrow> 'f obj \<Rightarrow> ustr + 'f obj \<times> bool" where
  "cursor_merge p bin cfg = with_hooks p (\<lambda>h.
     try_fold (refresh_event p (lit ''cursor'') (cursor_entry (hook_command_string bin (lit ''cursor'')) HOOK_FAST_TIMEOUT_SECS))
       CURSOR_HOOK_EVENTS (h, False)) (obj_entry (lit ''version'') (JPosInt 1) cfg)"

definition gemini_merge :: "path \<Rightarrow> ustr \<Rightarrow> 'f obj \<Rightarrow> ustr + 'f obj \<times> bool" where
  "gemini_merge p bin = with_hooks p (\<lambda>h.
     try_fold (refresh_event p (lit ''gemini-cli'')
         (gemini_entry (hook_command_string bin (lit ''gemini-cli'')) HOOK_FAST_TIMEOUT_SECS))
       GEMINI_HOOK_EVENTS (h, False))"

definition windsurf_retire :: "path \<Rightarrow> ustr \<Rightarrow> 'f obj \<times> bool \<Rightarrow> ustr + 'f obj \<times> bool" where
  "windsurf_retire p event = (\<lambda>(h, existed).
     case map_of h event of
       None \<Rightarrow> Inr (h, existed)
     | Some (JArray groups) \<Rightarrow>
         (let kept = retain_user (lit ''windsurf'') groups in
          Inr (obj_update event (\<lambda>_. JArray kept) h, existed \<or> length kept \<noteq> length groups))
     | Some _ \<Rightarrow> Inl (not_an_array p event))"

definition windsurf_drop_retired :: "'f obj \<Rightarrow> 'f obj" where
  "windsurf_drop_retired h =
     fold (\<lambda>event h. if map_of h event = Some (JArray []) then obj_remove event h else h) WINDSURF_RETIRED_HOOK_EVENTS h"

definition windsurf_merge :: "path \<Rightarrow> ustr \<Rightarrow> 'f obj \<Rightarrow> ustr + 'f obj \<times> bool" where
  "windsurf_merge p bin = with_hooks p (\<lambda>h.
     case try_fold (windsurf_retire p) WINDSURF_RETIRED_HOOK_EVENTS (h, False) of
       Inl e \<Rightarrow> Inl e
     | Inr (h1, existed) \<Rightarrow>
         try_fold (refresh_event p (lit ''windsurf'') (windsurf_entry (hook_command_string bin (lit ''windsurf''))))
           WINDSURF_HOOK_EVENTS (windsurf_drop_retired h1, existed))"

subsection \<open>Removal\<close>

text \<open>
  \<^const>\<open>None\<close>: there is no \<^verbatim>\<open>hooks\<close> object and nothing to do. Otherwise the new object and the number of
  events that lost an entry.
\<close>

definition remove_entries :: "ustr \<Rightarrow> bool \<Rightarrow> 'f obj \<Rightarrow> ('f obj \<times> nat) option" where
  "remove_entries client drop_empty_hooks_object cfg =
     (case map_of cfg (lit ''hooks'') of
        Some (JObject h) \<Rightarrow>
          (let (h', removed) = strip_events client h in
           Some (if drop_empty_hooks_object \<and> h' = [] then obj_remove (lit ''hooks'') cfg
                 else obj_update (lit ''hooks'') (\<lambda>_. JObject h') cfg, removed))
      | _ \<Rightarrow> None)"

section \<open>Operations on the settings files\<close>

definition load_json_object :: "'f host \<Rightarrow> path \<Rightarrow> 'f obj fs" where
  "load_json_object H p = andthen (path_exists p) (\<lambda>e.
     if \<not> e then ret []
     else andthen (with_error (\<lambda>m. lit ''failed to read '' @ display_path p @ lit '': '' @ m) (read_to_string p)) (\<lambda>raw.
       if trim raw = [] then ret []
       else case parse_json H (trim raw) of
         Inl m \<Rightarrow> fail (lit ''invalid JSON in '' @ display_path p @ lit '': '' @ m)
       | Inr v \<Rightarrow> (case as_object v of
           Some m \<Rightarrow> ret m
         | None \<Rightarrow> fail (display_path p @ lit '' is not a JSON object at the top level''))))"

definition write_json_object :: "'f host \<Rightarrow> path \<Rightarrow> 'f obj \<Rightarrow> unit fs" where
  "write_json_object H p m =
     andthen (case parent_path p of
         Some q \<Rightarrow> with_error (\<lambda>e. lit ''failed to create '' @ display_path q @ lit '': '' @ e) (create_dir_all q)
       | None \<Rightarrow> ret ()) (\<lambda>_.
     case print_json H (JObject m) of
       Inl e \<Rightarrow> fail (lit ''failed to serialize JSON: '' @ e)
     | Inr pretty \<Rightarrow> with_error (\<lambda>e. lit ''failed to write '' @ display_path p @ lit '': '' @ e) (write_atomic_file p pretty))"

text \<open>What the merge and the removal for Claude Code do after a change.\<close>

definition claude_write :: "'f host \<Rightarrow> path \<Rightarrow> 'f obj \<Rightarrow> unit fs" where
  "claude_write H p m = (case print_json H (JObject m) of
     Inl e \<Rightarrow> fail (lit ''serialise settings'')
   | Inr serialised \<Rightarrow> with_error (\<lambda>_. lit ''write '' @ display_path p) (write_atomic_file p serialised))"

definition create_parent :: "path \<Rightarrow> unit fs" where
  "create_parent p = (case parent_path p of
     Some q \<Rightarrow> with_error (\<lambda>_. lit ''create '' @ display_path q) (create_dir_all q) | None \<Rightarrow> ret ())"

definition lift_result :: "ustr + 'a \<Rightarrow> ('d, 'a) io" where
  "lift_result r = (case r of Inl e \<Rightarrow> fail e | Inr a \<Rightarrow> ret a)"

definition merge_claude_code_hooks :: "'f host \<Rightarrow> path \<Rightarrow> ustr \<Rightarrow> nat fs" where
  "merge_claude_code_hooks H p bin =
     andthen (create_parent p) (\<lambda>_.
     andthen (load_json_object H p) (\<lambda>cfg.
     andthen (lift_result (claude_merge p bin cfg)) (\<lambda>(cfg', changed).
       if 0 < changed then andthen (claude_write H p cfg') (\<lambda>_. ret changed) else ret changed)))"

definition remove_claude_code_hooks :: "'f host \<Rightarrow> path \<Rightarrow> bool \<Rightarrow> nat fs" where
  "remove_claude_code_hooks H p dry_run = andthen (path_exists p) (\<lambda>e.
     if \<not> e then ret 0
     else andthen (load_json_object H p) (\<lambda>cfg.
       case remove_entries (lit ''claude-code'') True cfg of
         None \<Rightarrow> ret 0
       | Some (cfg', removed) \<Rightarrow>
           if 0 < removed \<and> \<not> dry_run then andthen (claude_write H p cfg') (\<lambda>_. ret removed) else ret removed))"

definition merge_codex_hooks :: "'f host \<Rightarrow> path \<Rightarrow> ustr \<Rightarrow> bool \<Rightarrow> bool fs" where
  "merge_codex_hooks H p bin dry_run =
     andthen (create_parent p) (\<lambda>_.
     andthen (load_json_object H p) (\<lambda>cfg.
     andthen (lift_result (codex_merge p bin cfg)) (\<lambda>(cfg', existed).
       if dry_run then ret existed else andthen (write_json_object H p cfg') (\<lambda>_. ret existed))))"

definition merge_cursor_hooks :: "'f host \<Rightarrow> path \<Rightarrow> ustr \<Rightarrow> bool \<Rightarrow> bool fs" where
  "merge_cursor_hooks H p bin dry_run =
     andthen (load_json_object H p) (\<lambda>cfg.
     andthen (lift_result (cursor_merge p bin cfg)) (\<lambda>(cfg', existed).
       if dry_run then ret existed else andthen (write_json_object H p cfg') (\<lambda>_. ret existed)))"

definition gemini_placeholder :: ustr where
  "gemini_placeholder = lit ''<difflore-context>'' @ [newline] @ lit ''# DiffLore team rules'' @ [newline, newline]
     @ lit ''Rules pulled from DiffLore will be injected here by the hook runtime.'' @ [newline]
     @ lit ''</difflore-context>'' @ [newline]"

definition upsert_gemini_md_context :: "path \<Rightarrow> unit fs" where
  "upsert_gemini_md_context md = andthen (path_exists md) (\<lambda>e.
     if e then andthen (with_error (\<lambda>_. lit ''failed to read '' @ display_path md) (read_to_string md)) (\<lambda>content.
       if str_contains content (lit ''<difflore-context>'') then ret ()
       else let sep = (if ends_with content [newline] \<or> content = [] then [] else [newline]) in
         with_error (\<lambda>_. lit ''failed to write '' @ display_path md)
           (write_atomic_file md (content @ sep @ [newline] @ gemini_placeholder)))
     else andthen (case parent_path md of
         Some q \<Rightarrow> with_error (\<lambda>_. lit ''failed to create '' @ display_path q) (create_dir_all q) | None \<Rightarrow> ret ()) (\<lambda>_.
       with_error (\<lambda>_. lit ''failed to write '' @ display_path md) (write_atomic_file md gemini_placeholder)))"

definition merge_gemini_cli_hooks :: "'f host \<Rightarrow> path \<Rightarrow> path \<Rightarrow> ustr \<Rightarrow> bool \<Rightarrow> bool fs" where
  "merge_gemini_cli_hooks H p md bin dry_run =
     andthen (load_json_object H p) (\<lambda>cfg.
     andthen (lift_result (gemini_merge p bin cfg)) (\<lambda>(cfg', existed).
       if dry_run then ret existed
       else andthen (write_json_object H p cfg') (\<lambda>_. andthen (upsert_gemini_md_context md) (\<lambda>_. ret existed))))"

definition windsurf_placeholder :: ustr where
  "windsurf_placeholder = lit ''# DiffLore context'' @ [newline, newline]
     @ lit ''Rules pulled from DiffLore will be surfaced here after your first session.'' @ [newline]"

definition write_windsurf_context_file :: "path \<Rightarrow> unit fs" where
  "write_windsurf_context_file c = andthen (path_exists c) (\<lambda>e.
     if e then ret ()
     else andthen (case parent_path c of
         Some q \<Rightarrow> with_error (\<lambda>_. lit ''failed to create '' @ display_path q) (create_dir_all q) | None \<Rightarrow> ret ()) (\<lambda>_.
       with_error (\<lambda>_. lit ''failed to write '' @ display_path c) (write_atomic_file c windsurf_placeholder)))"

definition merge_windsurf_hooks :: "'f host \<Rightarrow> path \<Rightarrow> path \<Rightarrow> ustr \<Rightarrow> bool \<Rightarrow> bool fs" where
  "merge_windsurf_hooks H p context bin dry_run =
     andthen (load_json_object H p) (\<lambda>cfg.
     andthen (lift_result (windsurf_merge p bin cfg)) (\<lambda>(cfg', existed).
       if dry_run then ret existed
       else andthen (write_json_object H p cfg') (\<lambda>_. andthen (write_windsurf_context_file context) (\<lambda>_. ret existed))))"

definition remove_difflore_hook_entries :: "'f host \<Rightarrow> path \<Rightarrow> ustr \<Rightarrow> bool \<Rightarrow> bool \<Rightarrow> bool fs" where
  "remove_difflore_hook_entries H p client dry_run drop_empty_hooks_object = andthen (path_exists p) (\<lambda>e.
     if \<not> e then ret False
     else andthen (load_json_object H p) (\<lambda>cfg.
       case remove_entries client drop_empty_hooks_object cfg of
         None \<Rightarrow> ret False
       | Some (cfg', removed) \<Rightarrow>
           if 0 < removed \<and> \<not> dry_run then andthen (write_json_object H p cfg') (\<lambda>_. ret True) else ret (0 < removed)))"

definition remove_codex_hooks :: "'f host \<Rightarrow> path \<Rightarrow> bool \<Rightarrow> bool fs" where
  "remove_codex_hooks H p dry_run = remove_difflore_hook_entries H p (lit ''codex'') dry_run True"

definition remove_cursor_hooks :: "'f host \<Rightarrow> path \<Rightarrow> bool \<Rightarrow> bool fs" where
  "remove_cursor_hooks H p dry_run = remove_difflore_hook_entries H p (lit ''cursor'') dry_run False"

definition remove_gemini_cli_hooks :: "'f host \<Rightarrow> path \<Rightarrow> bool \<Rightarrow> bool fs" where
  "remove_gemini_cli_hooks H p dry_run = remove_difflore_hook_entries H p (lit ''gemini-cli'') dry_run False"

definition remove_windsurf_hooks :: "'f host \<Rightarrow> path \<Rightarrow> bool \<Rightarrow> bool fs" where
  "remove_windsurf_hooks H p dry_run = remove_difflore_hook_entries H p (lit ''windsurf'') dry_run False"

text \<open>Reading our entries back, in the order of the file. A file that cannot be loaded has none.\<close>

definition extract_entries :: "ustr \<Rightarrow> 'f obj \<Rightarrow> 'f json list" where
  "extract_entries client cfg =
     (case Option.bind (map_of cfg (lit ''hooks'')) as_object of
        None \<Rightarrow> []
      | Some h \<Rightarrow> concat (map (\<lambda>(event, v). case as_array v of
          Some arr \<Rightarrow> filter (\<lambda>g. hook_value_is_difflore g client) arr | None \<Rightarrow> []) h))"

definition extract_hook_groups_on_disk :: "'f host \<Rightarrow> path \<Rightarrow> ustr \<Rightarrow> 'f json list fs" where
  "extract_hook_groups_on_disk H p client = andthen (attempt (load_json_object H p)) (\<lambda>r.
     ret (case r of Inl _ \<Rightarrow> [] | Inr cfg \<Rightarrow> extract_entries client cfg))"

section \<open>Our entries are recognised\<close>

lemma str_contains_middle: "str_contains (a @ p @ b) p"
  unfolding str_contains_iff by (rule sublist_appendI)

lemma hook_command_matches: "hook_command_matches_client (hook_command_string bin c) c"
proof -
  have stem: "replace_char 92 (ch CHR ''/'') hook_entrypoint_stem = lit ''difflore-hook''" by code_simp
  have client: "lit '' --client '' = [32] @ lit ''--client ''" by code_simp
  obtain a where a: "hook_command_string bin c = a @ lit ''difflore-hook'' @ [34] @ lit '' --client '' @ c"
    using stem by (simp add: hook_command_string_def hook_entrypoint_token_def hook_entrypoint_path_def
        hook_adjacent_binary_path_def replace_char_def)
  have "str_contains (hook_command_string bin c) (lit ''difflore-hook'')" unfolding a by (rule str_contains_middle)
  moreover have "str_contains (hook_command_string bin c) (lit ''--client '' @ c)"
    using str_contains_middle [of "a @ lit ''difflore-hook'' @ [34, 32]" "lit ''--client '' @ c" "[]"]
    unfolding a client by simp
  ultimately show ?thesis by (auto simp: hook_command_matches_client_def Let_def)
qed

lemma json_get_object [simp]: "json_get (JObject m) k = map_of m k"
  by (simp add: json_get_def)

lemma own_nested_group:
  assumes "c \<in> {lit ''claude-code'', lit ''codex''}"
  shows "hook_value_is_difflore (claude_hook_group_with_timeout m (hook_command_string bin c) t) c"
    "hook_value_is_difflore (codex_hook_group_with_timeout m (hook_command_string bin c) t) c"
proof -
  have other: "c \<noteq> lit ''cursor''" "c \<noteq> lit ''gemini-cli''" "c \<noteq> lit ''windsurf''"
    using assms by (auto simp: lit_def)
  have "lit ''type'' \<noteq> lit ''command''" "lit ''timeout'' \<noteq> lit ''command''" by (simp_all add: lit_def)
  then have "entry_runs c (json_object [(lit ''type'', JString (lit ''command'')),
      (lit ''command'', JString (hook_command_string bin c)), (lit ''timeout'', JPosInt t)])"
    by (simp add: entry_runs_def get_str_def json_object_def hook_command_matches)
  with other show "hook_value_is_difflore (claude_hook_group_with_timeout m (hook_command_string bin c) t) c"
    "hook_value_is_difflore (codex_hook_group_with_timeout m (hook_command_string bin c) t) c"
    by (simp_all add: hook_value_is_difflore_def any_inner_def claude_hook_group_with_timeout_def
        codex_hook_group_with_timeout_def Let_def)
qed

lemma own_claude: "hook_value_is_difflore (claude_hook_group e m (hook_command_string bin (lit ''claude-code''))) (lit ''claude-code'')"
  unfolding claude_hook_group_def by (rule own_nested_group) simp

lemma own_codex: "hook_value_is_difflore (codex_hook_group e m (hook_command_string bin (lit ''codex''))) (lit ''codex'')"
  unfolding codex_hook_group_def by (rule own_nested_group) simp

lemma own_cursor: "hook_value_is_difflore (cursor_entry cmd t) (lit ''cursor'')"
  by (simp add: hook_value_is_difflore_def entry_named_def get_str_def cursor_entry_def json_object_def) (simp add: lit_def)

lemma own_gemini: "hook_value_is_difflore (gemini_entry cmd t) (lit ''gemini-cli'')"
  by (simp add: hook_value_is_difflore_def any_inner_def entry_named_def get_str_def gemini_entry_def json_object_def)
    (simp add: lit_def)

lemma own_windsurf: "hook_value_is_difflore (windsurf_entry (hook_command_string bin (lit ''windsurf''))) (lit ''windsurf'')"
proof -
  have "lit ''show_output'' \<noteq> lit ''command''" "lit ''windsurf'' \<noteq> lit ''cursor''" "lit ''windsurf'' \<noteq> lit ''gemini-cli''"
    by (simp_all add: lit_def)
  then show ?thesis
    by (simp add: hook_value_is_difflore_def entry_runs_def get_str_def windsurf_entry_def json_object_def hook_command_matches)
qed

section \<open>What each change does to an event\<close>

definition entries_at :: "'f obj \<Rightarrow> ustr \<Rightarrow> 'f json list" where
  "entries_at h e = (case map_of h e of Some (JArray gs) \<Rightarrow> gs | _ \<Rightarrow> [])"

lemma entries_at_Some [simp]: "map_of h e = Some (JArray gs) \<Longrightarrow> entries_at h e = gs"
  by (simp add: entries_at_def)

lemma entry_cases:
  assumes "map_of (obj_entry e (JArray []) h) e = Some v"
  obtains "v = JArray (entries_at h e)" | "map_of h e = Some v" "\<forall>gs. v \<noteq> JArray gs"
  using assms by (cases v) (auto simp: entries_at_def split: option.splits)

lemma obj_entry_other: "e' \<noteq> e \<Longrightarrow> map_of (obj_entry e v h) e' = map_of h e'"
  by (simp split: option.split)

definition is_list :: "'f json option \<Rightarrow> bool" where
  "is_list x \<longleftrightarrow> (case x of None \<Rightarrow> True | Some v \<Rightarrow> (case v of JArray _ \<Rightarrow> True | _ \<Rightarrow> False))"

lemma is_list_simps [simp]: "is_list None" "is_list (Some (JArray gs))" "is_list (Some v) \<longleftrightarrow> (\<exists>gs. v = JArray gs)"
  by (auto simp: is_list_def split: json.splits)

lemma try_fold_refresh_list:
  "try_fold (refresh_event p c d) es (h, b) = Inr r \<Longrightarrow> e \<in> set es \<Longrightarrow> is_list (map_of h e)"
proof (induction es arbitrary: h b)
  case (Cons x es)
  then obtain h1 b1 where step: "refresh_event p c d x (h, b) = Inr (h1, b1)"
    and rest: "try_fold (refresh_event p c d) es (h1, b1) = Inr r"
    by (auto split: sum.splits)
  from step have x: "is_list (map_of h x)" and other: "e \<noteq> x \<Longrightarrow> map_of h1 e = map_of h e"
    by (auto simp: refresh_event_def Let_def split: option.splits json.splits)
  with Cons.IH [OF rest] Cons.prems(2) show ?case by (cases "e = x") auto
qed simp

lemma try_fold_refresh:
  assumes "try_fold (refresh_event p c d) es (h, b) = Inr (h', b')" "hook_value_is_difflore d c"
  shows "map_of h' e = (if e \<in> set es then Some (JArray (retain_user c (entries_at h e) @ [d])) else map_of h e)"
  using assms
proof (induction es arbitrary: h b)
  case (Cons x es)
  from Cons.prems(1) obtain h1 b1 where step: "refresh_event p c d x (h, b) = Inr (h1, b1)"
    and rest: "try_fold (refresh_event p c d) es (h1, b1) = Inr (h', b')"
    by (auto split: sum.splits)
  have h1: "map_of h1 e = (if e = x then Some (JArray (retain_user c (entries_at h e) @ [d])) else map_of h e)" for e
    using step by (auto simp: refresh_event_def Let_def entries_at_def split: option.splits json.splits)
  have same: "retain_user c (entries_at h1 e) = retain_user c (entries_at h e)" for e
    using h1 [of e] Cons.prems(2) by (auto simp: entries_at_def retain_user_def split: if_splits)
  have "map_of h' e = (if e \<in> set es then Some (JArray (retain_user c (entries_at h e) @ [d])) else map_of h1 e)"
    using Cons.IH [OF rest Cons.prems(2)] unfolding same .
  with h1 [of e] show ?case by (simp split: if_splits)
qed simp

lemma try_fold_codex:
  assumes "try_fold (codex_push p cmd) tbl h = Inr h'" "distinct (map fst tbl)"
  shows "map_of h' e = (case map_of tbl e of None \<Rightarrow> map_of h e
    | Some m \<Rightarrow> Some (JArray (entries_at h e @ [codex_hook_group e m cmd])))"
  using assms
proof (induction tbl arbitrary: h)
  case (Cons x tbl)
  obtain ev m where x: "x = (ev, m)" by (cases x)
  from Cons.prems(1) obtain h1 where step: "codex_push p cmd x h = Inr h1"
    and rest: "try_fold (codex_push p cmd) tbl h1 = Inr h'"
    by (auto split: sum.splits)
  have h1: "map_of h1 e = (if e = ev then Some (JArray (entries_at h e @ [codex_hook_group e m cmd])) else map_of h e)" for e
    using step x by (auto simp: codex_push_def Let_def entries_at_def split: option.splits json.splits)
  have "entries_at h1 e = entries_at h e" if "e \<noteq> ev" for e using h1 [of e] that by (simp add: entries_at_def)
  moreover have "map_of tbl ev = None" using Cons.prems(2) x by (simp add: map_of_eq_None_iff)
  ultimately show ?case using Cons.IH [OF rest] Cons.prems(2) h1 x by (auto split: option.split)
qed simp

text \<open>Claude Code keeps a group of ours that is already right, where it stands.\<close>

lemma claude_retain_props:
  assumes "claude_retain d found gs = (kept, f, r)" "hook_value_is_difflore d (lit ''claude-code'')"
  shows "retain_user (lit ''claude-code'') kept = retain_user (lit ''claude-code'') gs"
    and "filter (\<lambda>g. hook_value_is_difflore g (lit ''claude-code'')) kept = (if f \<and> \<not> found then [d] else [])"
    and "f \<longleftrightarrow> found \<or> d \<in> set gs" and "\<not> r \<longleftrightarrow> kept = gs" "length kept \<le> length gs" "length kept = length gs \<Longrightarrow> kept = gs"
proof -
  have "retain_user (lit ''claude-code'') kept = retain_user (lit ''claude-code'') gs
    \<and> filter (\<lambda>g. hook_value_is_difflore g (lit ''claude-code'')) kept = (if f \<and> \<not> found then [d] else [])
    \<and> (f \<longleftrightarrow> found \<or> d \<in> set gs) \<and> (\<not> r \<longleftrightarrow> kept = gs) \<and> length kept \<le> length gs \<and> (length kept = length gs \<longrightarrow> kept = gs)"
    using assms(1)
  proof (induction gs arbitrary: found kept f r)
    case Nil
    then show ?case by (auto simp: retain_user_def)
  next
    case (Cons g gs)
    consider (user) "\<not> hook_value_is_difflore g (lit ''claude-code'')"
      | (first) "hook_value_is_difflore g (lit ''claude-code'')" "\<not> found" "g = d"
      | (drop) "hook_value_is_difflore g (lit ''claude-code'')" "found \<or> g \<noteq> d" by blast
    then show ?case
    proof cases
      case user
      then obtain k where k: "claude_retain d found gs = (k, f, r)" "kept = g # k"
        using Cons.prems by (auto split: prod.splits)
      from user assms(2) have "g \<noteq> d" by auto
      with Cons.IH [OF k(1)] k(2) user show ?thesis by (auto simp: retain_user_def)
    next
      case first
      then obtain k where k: "claude_retain d True gs = (k, f, r)" "kept = g # k"
        using Cons.prems by (auto split: prod.splits)
      from Cons.IH [OF k(1)] k(2) first show ?thesis by (auto simp: retain_user_def)
    next
      case drop
      then obtain r' where k: "claude_retain d found gs = (kept, f, r')" "r"
        using Cons.prems by (auto split: prod.splits if_splits)
      from Cons.IH [OF k(1)] k(2) drop show ?thesis by (auto simp: retain_user_def)
    qed
  qed
  then show "retain_user (lit ''claude-code'') kept = retain_user (lit ''claude-code'') gs"
    "filter (\<lambda>g. hook_value_is_difflore g (lit ''claude-code'')) kept = (if f \<and> \<not> found then [d] else [])"
    "f \<longleftrightarrow> found \<or> d \<in> set gs" "\<not> r \<longleftrightarrow> kept = gs" "length kept \<le> length gs"
    "length kept = length gs \<Longrightarrow> kept = gs" by blast+
qed

definition claude_list :: "'f json \<Rightarrow> 'f json list \<Rightarrow> 'f json list" where
  "claude_list d gs = (let (kept, found, removed) = claude_retain d False gs in if found then kept else kept @ [d])"

lemma claude_list_entries:
  assumes "hook_value_is_difflore d (lit ''claude-code'')"
  shows "retain_user (lit ''claude-code'') (claude_list d gs) = retain_user (lit ''claude-code'') gs"
    and "filter (\<lambda>g. hook_value_is_difflore g (lit ''claude-code'')) (claude_list d gs) = [d]"
    and "claude_retain d False (claude_list d gs) = (claude_list d gs, True, False)"
proof -
  obtain kept f r where k: "claude_retain d False gs = (kept, f, r)" by (cases "claude_retain d False gs")
  note props = claude_retain_props [OF k assms]
  show user: "retain_user (lit ''claude-code'') (claude_list d gs) = retain_user (lit ''claude-code'') gs"
    using props assms k by (auto simp: claude_list_def retain_user_def)
  show ours: "filter (\<lambda>g. hook_value_is_difflore g (lit ''claude-code'')) (claude_list d gs) = [d]"
    using props assms k by (auto simp: claude_list_def)
  obtain kept' f' r' where k': "claude_retain d False (claude_list d gs) = (kept', f', r')"
    by (cases "claude_retain d False (claude_list d gs)")
  note props' = claude_retain_props [OF k' assms]
  have "d \<in> set (claude_list d gs)" using arg_cong [OF ours, of set] by auto
  with props'(3) have f': "f'" by simp
  have len: "length xs = length (retain_user c xs) + length (filter (\<lambda>g. hook_value_is_difflore g c) xs)" for xs :: "'a json list" and c
    by (induction xs) (auto simp: retain_user_def)
  have "length kept' = length (claude_list d gs)"
    using props'(1,2) f' ours len [of kept' "lit ''claude-code''"] len [of "claude_list d gs" "lit ''claude-code''"] by simp
  with props'(6) have "kept' = claude_list d gs" by simp
  with props'(4) k' f' show "claude_retain d False (claude_list d gs) = (claude_list d gs, True, False)" by auto
qed

lemma try_fold_codex_list:
  "try_fold (codex_push p cmd) tbl h = Inr r \<Longrightarrow> e \<in> fst ` set tbl \<Longrightarrow> is_list (map_of h e)"
proof (induction tbl arbitrary: h)
  case (Cons x tbl)
  then obtain h1 where step: "codex_push p cmd x h = Inr h1" and rest: "try_fold (codex_push p cmd) tbl h1 = Inr r"
    by (auto split: sum.splits)
  from step have x: "is_list (map_of h (fst x))" and other: "e \<noteq> fst x \<Longrightarrow> map_of h1 e = map_of h e"
    by (cases x; auto simp: codex_push_def Let_def split: option.splits json.splits)+
  with Cons.IH [OF rest] Cons.prems(2) show ?case by (cases "e = fst x") auto
qed simp

lemma try_fold_claude:
  assumes "try_fold (claude_merge_event p cmd) tbl (h, n) = Inr (h', n')" "distinct (map fst tbl)"
  shows "map_of h' e = (case map_of tbl e of None \<Rightarrow> map_of h e
      | Some m \<Rightarrow> Some (JArray (claude_list (claude_hook_group e m cmd) (entries_at h e))))"
    and "e \<in> fst ` set tbl \<Longrightarrow> is_list (map_of h e)"
proof -
  have "map_of h' e = (case map_of tbl e of None \<Rightarrow> map_of h e
      | Some m \<Rightarrow> Some (JArray (claude_list (claude_hook_group e m cmd) (entries_at h e))))
    \<and> (e \<in> fst ` set tbl \<longrightarrow> is_list (map_of h e))"
    using assms
  proof (induction tbl arbitrary: h n)
    case (Cons x tbl)
    obtain ev m where x: "x = (ev, m)" by (cases x)
    from Cons.prems(1) obtain h1 n1 where step: "claude_merge_event p cmd x (h, n) = Inr (h1, n1)"
      and rest: "try_fold (claude_merge_event p cmd) tbl (h1, n1) = Inr (h', n')"
      by (auto split: sum.splits)
    have h1: "map_of h1 ev = Some (JArray (claude_list (claude_hook_group ev m cmd) (entries_at h ev)))"
      "e \<noteq> ev \<Longrightarrow> map_of h1 e = map_of h e" "is_list (map_of h ev)"
      using step x by (auto simp: claude_merge_event_def claude_list_def Let_def entries_at_def
          split: option.splits json.splits prod.splits if_splits)
    have "entries_at h1 e = entries_at h e" if "e \<noteq> ev" using h1(2) that by (simp add: entries_at_def)
    moreover have "map_of tbl ev = None" using Cons.prems(2) x by (simp add: map_of_eq_None_iff)
    ultimately show ?case using Cons.IH [OF rest] Cons.prems(2) h1 x
      by (cases "e = ev") (auto split: option.split)
  qed simp
  then show "map_of h' e = (case map_of tbl e of None \<Rightarrow> map_of h e
      | Some m \<Rightarrow> Some (JArray (claude_list (claude_hook_group e m cmd) (entries_at h e))))"
    "e \<in> fst ` set tbl \<Longrightarrow> is_list (map_of h e)" by blast+
qed

text \<open>The clean-up passes.\<close>

definition stripped :: "bool \<Rightarrow> ustr \<Rightarrow> 'f json option \<Rightarrow> 'f json option" where
  "stripped keep_empty c x = (case x of Some (JArray gs) \<Rightarrow>
     (if keep_empty \<and> retain_user c gs = gs then x else if retain_user c gs = [] then None else Some (JArray (retain_user c gs)))
   | _ \<Rightarrow> x)"

lemma retain_user_length: "length (retain_user c gs) \<noteq> length gs \<longleftrightarrow> retain_user c gs \<noteq> gs"
  unfolding retain_user_def by (metis filter_id_conv length_filter_less nat_neq_iff)

lemma claude_strip_at:
  "distinct es \<Longrightarrow> map_of (fst (fold claude_strip_event es (h, n))) e
    = (if e \<in> set es \<and> \<not> claude_code_event_is_registered e then stripped True (lit ''claude-code'') (map_of h e) else map_of h e)"
proof (induction es arbitrary: h n)
  case (Cons x es)
  obtain h1 n1 where step: "claude_strip_event x (h, n) = (h1, n1)" by fastforce
  have "map_of h1 x = (if claude_code_event_is_registered x then map_of h x else stripped True (lit ''claude-code'') (map_of h x))"
    "e \<noteq> x \<Longrightarrow> map_of h1 e = map_of h e"
    using step by (auto simp: claude_strip_event_def stripped_def Let_def retain_user_length split: if_splits option.splits json.splits)
  with Cons step show ?case by (cases "e = x") auto
qed simp

lemma claude_strip_nothing:
  "(\<And>e gs. e \<in> set es \<Longrightarrow> \<not> claude_code_event_is_registered e \<Longrightarrow> map_of h e = Some (JArray gs) \<Longrightarrow> retain_user (lit ''claude-code'') gs = gs)
    \<Longrightarrow> fold claude_strip_event es (h, n) = (h, n)"
proof (induction es)
  case (Cons x es)
  have "claude_strip_event x (h, n) = (h, n)"
    using Cons.prems [of x] by (auto simp: claude_strip_event_def Let_def split: option.split json.split)
  moreover have "fold claude_strip_event es (h, n) = (h, n)"
    by (rule Cons.IH, rule Cons.prems) simp_all
  ultimately show ?case by simp
qed simp

lemma map_fst_map_snd [simp]: "map (fst \<circ> (\<lambda>(k, v). (k, f v))) m = map fst m"
  by (induction m) auto

lemma map_of_map_snd: "map_of (map (\<lambda>(k, v). (k, f v)) m) k = map_option f (map_of m k)"
  by (induction m) auto

lemma map_of_filter_fst: "map_of (filter (\<lambda>(k, v). P k) m) k = (if P k then map_of m k else None)"
  by (induction m) auto

lemma strip_events_at:
  assumes "distinct (map fst h)"
  shows "map_of (fst (strip_events c h)) e = stripped False c (map_of h e)"
proof -
  let ?h1 = "map (\<lambda>(event, v). (event, strip_value c v)) h"
  from assms have d: "distinct (map fst ?h1)" by simp
  have "e \<in> set (map fst (filter (\<lambda>(event, v). v = JArray []) ?h1)) \<longleftrightarrow> map_of ?h1 e = Some (JArray [])"
    using map_of_eq_Some_iff [OF d, of e] by force
  then show ?thesis
    by (auto simp: strip_events_def Let_def map_of_filter_fst map_of_map_snd stripped_def strip_value_def
        split: option.splits json.splits)
qed

lemma sorted_obj_filter: "sorted_obj m \<Longrightarrow> sorted_obj (filter P m)"
  unfolding sorted_obj_def by (induction m) auto

lemma sorted_obj_map_snd [simp]: "sorted_obj (map (\<lambda>(k, v). (k, f v)) m) = sorted_obj m"
  by (simp add: sorted_obj_def)

lemma sorted_strip_events: "sorted_obj h \<Longrightarrow> sorted_obj (fst (strip_events c h))"
  by (simp add: strip_events_def Let_def sorted_obj_filter)

section \<open>The settings object\<close>

definition hooks_of :: "'f obj \<Rightarrow> 'f obj" where
  "hooks_of cfg = (case map_of cfg (lit ''hooks'') of Some (JObject h) \<Rightarrow> h | _ \<Rightarrow> [])"

definition settings_wf :: "'f obj \<Rightarrow> bool" where
  "settings_wf cfg \<longleftrightarrow> sorted_obj cfg \<and> sorted_obj (hooks_of cfg)"

lemma with_hooks_InrE:
  assumes "with_hooks p f cfg = Inr (cfg', a)"
  obtains h where "f (hooks_of cfg) = Inr (h, a)" "hooks_of cfg' = h" "map_of cfg' (lit ''hooks'') = Some (JObject h)"
    "\<And>k. k \<noteq> lit ''hooks'' \<Longrightarrow> map_of cfg' k = map_of cfg k" "sorted_obj cfg \<Longrightarrow> sorted_obj cfg'"
  using assms by (auto simp: with_hooks_def hooks_of_def Let_def sorted_obj_entry split: option.splits json.splits sum.splits prod.splits)

lemma obj_update_same: "sorted_obj m \<Longrightarrow> map_of m k = Some v \<Longrightarrow> obj_update k (\<lambda>_. v) m = m"
  by (rule sorted_obj_eqI) (simp_all add: fun_eq_iff)

lemma with_hooks_same:
  "sorted_obj cfg \<Longrightarrow> map_of cfg (lit ''hooks'') = Some (JObject h) \<Longrightarrow> f h = Inr (h, a) \<Longrightarrow> with_hooks p f cfg = Inr (cfg, a)"
  by (simp add: with_hooks_def Let_def obj_entry_def obj_update_same)

end
