(* ===== verification/Hook_Laws.thy ===== *)
theory Hook_Laws
  imports Hook_Install
begin

text \<open>
  What installing and removing hooks guarantees, for all five surfaces: the entries of the user stay, ours
  are there once, a second installation changes nothing, and a removal leaves the user's part.
\<close>

section \<open>One name for each surface\<close>

fun hook_client :: "HookSurface \<Rightarrow> ustr" where
  "hook_client Claude = lit ''claude-code''"
| "hook_client Codex = lit ''codex''"
| "hook_client Cursor = lit ''cursor''"
| "hook_client Gemini = lit ''gemini-cli''"
| "hook_client Windsurf = lit ''windsurf''"

fun render_hook_groups :: "HookSurface \<Rightarrow> ustr \<Rightarrow> 'f json list" where
  "render_hook_groups Claude bin = render_claude_code_hook_block bin"
| "render_hook_groups Codex bin = render_codex_hook_block bin"
| "render_hook_groups Cursor bin = render_cursor_hook_block bin"
| "render_hook_groups Gemini bin = render_gemini_cli_hook_block bin"
| "render_hook_groups Windsurf bin = render_windsurf_hook_block bin"

fun merge_config :: "HookSurface \<Rightarrow> path \<Rightarrow> ustr \<Rightarrow> 'f obj \<Rightarrow> ustr + 'f obj" where
  "merge_config Claude p bin cfg = map_sum id fst (claude_merge p bin cfg)"
| "merge_config Codex p bin cfg = map_sum id fst (codex_merge p bin cfg)"
| "merge_config Cursor p bin cfg = map_sum id fst (cursor_merge p bin cfg)"
| "merge_config Gemini p bin cfg = map_sum id fst (gemini_merge p bin cfg)"
| "merge_config Windsurf p bin cfg = map_sum id fst (windsurf_merge p bin cfg)"

fun hook_events :: "HookSurface \<Rightarrow> ustr list" where
  "hook_events Claude = map fst CLAUDE_HOOK_EVENT_MATCHERS"
| "hook_events Codex = map fst CODEX_HOOK_EVENT_MATCHERS"
| "hook_events Cursor = CURSOR_HOOK_EVENTS"
| "hook_events Gemini = GEMINI_HOOK_EVENTS"
| "hook_events Windsurf = WINDSURF_HOOK_EVENTS"

definition user_entries :: "HookSurface \<Rightarrow> 'f obj \<Rightarrow> ustr \<Rightarrow> 'f json list" where
  "user_entries s cfg e = retain_user (hook_client s) (entries_at (hooks_of cfg) e)"

definition our_entries :: "HookSurface \<Rightarrow> 'f obj \<Rightarrow> ustr \<Rightarrow> 'f json list" where
  "our_entries s cfg e = filter (\<lambda>g. hook_value_is_difflore g (hook_client s)) (entries_at (hooks_of cfg) e)"

text \<open>The events of a surface with what we register for each.\<close>

definition our_groups :: "HookSurface \<Rightarrow> ustr \<Rightarrow> (ustr \<times> 'f json) list" where
  "our_groups s bin = zip (hook_events s) (render_hook_groups s bin)"

text \<open>Events outside the table: the clean-up of Claude Code and Codex, and the retired event of Windsurf.\<close>

fun cleaned :: "HookSurface \<Rightarrow> ustr \<Rightarrow> bool" where
  "cleaned Claude e \<longleftrightarrow> True"
| "cleaned Codex e \<longleftrightarrow> True"
| "cleaned Cursor e \<longleftrightarrow> False"
| "cleaned Gemini e \<longleftrightarrow> False"
| "cleaned Windsurf e \<longleftrightarrow> e \<in> set WINDSURF_RETIRED_HOOK_EVENTS"

definition event_list :: "HookSurface \<Rightarrow> 'f json \<Rightarrow> 'f json list \<Rightarrow> 'f json list" where
  "event_list s g gs = (if s = Claude then claude_list g gs else retain_user (hook_client s) gs @ [g])"

section \<open>Event by event\<close>

lemma events_wf: "distinct (hook_events s)" "hook_events s \<noteq> []"
proof -
  have "list_all (\<lambda>s. distinct (hook_events s) \<and> hook_events s \<noteq> []) [Claude, Codex, Cursor, Gemini, Windsurf]" by code_simp
  then show "distinct (hook_events s)" "hook_events s \<noteq> []" by (cases s; simp)+
qed

lemma map_of_map_pair: "map_of (map (\<lambda>(k, m). (k, f k m)) tbl) e = map_option (f e) (map_of tbl e)"
  by (induction tbl) auto

lemma our_groups_Claude: "our_groups Claude bin =
    map (\<lambda>(e, m). (e, claude_hook_group e m (hook_command_string bin (lit ''claude-code'')))) CLAUDE_HOOK_EVENT_MATCHERS"
  by (simp add: our_groups_def render_claude_code_hook_block_def zip_map_map zip_same_conv_map case_prod_unfold comp_def)

lemma our_groups_Codex: "our_groups Codex bin =
    map (\<lambda>(e, m). (e, codex_hook_group e m (hook_command_string bin (lit ''codex'')))) CODEX_HOOK_EVENT_MATCHERS"
  by (simp add: our_groups_def render_codex_hook_block_def zip_map_map zip_same_conv_map case_prod_unfold comp_def)

lemma map_of_same: "map_of (map (\<lambda>e. (e, g)) es) e = (if e \<in> set es then Some g else None)"
  by (induction es) auto

lemma our_groups_flat:
  "our_groups Cursor bin = map (\<lambda>e. (e, cursor_entry (hook_command_string bin (lit ''cursor'')) HOOK_FAST_TIMEOUT_SECS)) CURSOR_HOOK_EVENTS"
  "our_groups Gemini bin = map (\<lambda>e. (e, gemini_entry (hook_command_string bin (lit ''gemini-cli'')) HOOK_FAST_TIMEOUT_SECS)) GEMINI_HOOK_EVENTS"
  "our_groups Windsurf bin = map (\<lambda>e. (e, windsurf_entry (hook_command_string bin (lit ''windsurf'')))) WINDSURF_HOOK_EVENTS"
  by (simp_all add: our_groups_def render_cursor_hook_block_def render_gemini_cli_hook_block_def
      render_windsurf_hook_block_def zip_map2 zip_same_conv_map)

lemma own_entry: "map_of (our_groups s bin) e = Some g \<Longrightarrow> hook_value_is_difflore g (hook_client s)"
  by (cases s) (auto simp: our_groups_Claude our_groups_Codex our_groups_flat map_of_map_pair map_of_same own_claude own_codex
      own_cursor own_gemini own_windsurf split: if_splits)

lemma try_fold_inv:
  assumes "\<And>x s s'. I s \<Longrightarrow> f x s = Inr s' \<Longrightarrow> I s'"
  shows "try_fold f xs s = Inr s' \<Longrightarrow> I s \<Longrightarrow> I s'"
proof (induction xs arbitrary: s)
  case (Cons x xs)
  then show ?case using assms by (auto split: sum.splits)
qed simp

lemma step_sorted:
  "sorted_obj (fst s) \<Longrightarrow> claude_merge_event p cmd x s = Inr s' \<Longrightarrow> sorted_obj (fst s')"
  "sorted_obj h \<Longrightarrow> codex_push p cmd x h = Inr h' \<Longrightarrow> sorted_obj h'"
  "sorted_obj (fst t) \<Longrightarrow> refresh_event p c g e t = Inr t' \<Longrightarrow> sorted_obj (fst t')"
  by (auto simp: claude_merge_event_def codex_push_def refresh_event_def Let_def sorted_obj_entry
      split: option.splits json.splits prod.splits)

lemma our_groups_dom: "map_of (our_groups s bin) e = None \<longleftrightarrow> e \<notin> set (hook_events s)"
  by (cases s) (auto simp: our_groups_Claude our_groups_Codex our_groups_flat map_of_map_pair map_of_same map_of_eq_None_iff)

text \<open>What an installation makes of each event, and of the other settings.\<close>

definition installed :: "HookSurface \<Rightarrow> ustr \<Rightarrow> 'f obj \<Rightarrow> ustr \<Rightarrow> 'f json option" where
  "installed s bin h e = (case map_of (our_groups s bin) e of
     Some g \<Rightarrow> Some (JArray (event_list s g (entries_at h e)))
   | None \<Rightarrow> if cleaned s e then stripped (s = Claude) (hook_client s) (map_of h e) else map_of h e)"

text \<open>Events that must be arrays for an installation to succeed.\<close>

definition must_be_lists :: "HookSurface \<Rightarrow> ustr set" where
  "must_be_lists s = set (hook_events s) \<union> (if s = Windsurf then set WINDSURF_RETIRED_HOOK_EVENTS else {})"

definition hooks_done :: "HookSurface \<Rightarrow> ustr \<Rightarrow> 'f obj \<Rightarrow> 'f obj \<Rightarrow> bool" where
  "hooks_done s bin h h' \<longleftrightarrow> (\<forall>e. map_of h' e = installed s bin h e)
     \<and> (\<forall>e \<in> must_be_lists s. is_list (map_of h e)) \<and> sorted_obj h'"

lemma claude_done:
  assumes h: "sorted_obj h"
    and run: "try_fold (claude_merge_event p (hook_command_string bin (lit ''claude-code''))) CLAUDE_HOOK_EVENT_MATCHERS
       (fold claude_strip_event (map fst h) (h, 0)) = Inr (h', n)"
  shows "hooks_done Claude bin h h'"
proof -
  obtain h1 n1 where h1: "fold claude_strip_event (map fst h) (h, 0) = (h1, n1)" by fastforce
  have tbl: "distinct (map fst CLAUDE_HOOK_EVENT_MATCHERS)" using events_wf(1) [of Claude] by simp
  have reg: "claude_code_event_is_registered e \<longleftrightarrow> map_of CLAUDE_HOOK_EVENT_MATCHERS e \<noteq> None" for e
    by (auto simp: claude_code_event_is_registered_def list_ex_iff map_of_eq_None_iff intro: rev_image_eqI)
  have strip: "map_of h1 e = (if claude_code_event_is_registered e then map_of h e
      else stripped True (lit ''claude-code'') (map_of h e))" for e
    using claude_strip_at [OF sorted_obj_distinct [OF h], of h 0 e] h1 map_of_eq_None_iff [of h e]
    by (cases "map_of h e") (auto simp: stripped_def)
  have same: "entries_at h1 e = entries_at h e" if "map_of CLAUDE_HOOK_EVENT_MATCHERS e \<noteq> None" for e
    using strip [of e] that reg by (simp add: entries_at_def)
  note fin = try_fold_claude [OF run [unfolded h1] tbl]
  have "map_of h' e = installed Claude bin h e" for e
    using fin(1) [of e] strip [of e] same [of e] reg [of e]
    by (auto simp: installed_def our_groups_Claude map_of_map_pair event_list_def split: option.splits)
  moreover have "is_list (map_of h e)" if "e \<in> set (hook_events Claude)" for e
    using fin(2) [of e] strip [of e] that map_of_eq_None_iff [of CLAUDE_HOOK_EVENT_MATCHERS e] by (simp add: reg)
  moreover have "sorted_obj h1"
  proof -
    have "sorted_obj (fst (fold claude_strip_event es (k, m)))" if "sorted_obj k" for es m and k :: "'a obj"
      using that
    proof (induction es arbitrary: k m)
      case (Cons e es)
      obtain k' m' where step: "claude_strip_event e (k, m) = (k', m')" by fastforce
      then have "sorted_obj k'"
        using Cons.prems by (auto simp: claude_strip_event_def Let_def sorted_obj_remove split: if_splits option.splits json.splits)
      with Cons.IH [of k' m'] step show ?case by simp
    qed simp
    from this [OF h, of "map fst h" 0] h1 show ?thesis by simp
  qed
  then have "sorted_obj (fst (h1, n1))" by simp
  from try_fold_inv [where I = "\<lambda>s. sorted_obj (fst s)", OF step_sorted(1) run [unfolded h1] this]
  have "sorted_obj h'" by simp
  ultimately show ?thesis by (simp add: hooks_done_def must_be_lists_def)
qed

lemma codex_done:
  assumes h: "sorted_obj h"
    and run: "try_fold (codex_push p (hook_command_string bin (lit ''codex''))) CODEX_HOOK_EVENT_MATCHERS
       (fst (strip_events (lit ''codex'') h)) = Inr h'"
  shows "hooks_done Codex bin h h'"
proof -
  let ?h1 = "fst (strip_events (lit ''codex'') h)"
  have tbl: "distinct (map fst CODEX_HOOK_EVENT_MATCHERS)" using events_wf(1) [of Codex] by simp
  note strip = strip_events_at [OF sorted_obj_distinct [OF h], of "lit ''codex''"]
  have user: "entries_at ?h1 e = retain_user (lit ''codex'') (entries_at h e)" for e
    unfolding entries_at_def strip by (auto simp: stripped_def retain_user_def split: option.splits json.splits)
  have "map_of h' e = installed Codex bin h e" for e
    using try_fold_codex [OF run tbl, of e] user [of e] strip [of e]
    by (auto simp: installed_def our_groups_Codex map_of_map_pair event_list_def split: option.splits)
  moreover have "is_list (map_of h e)" if "e \<in> set (hook_events Codex)" for e
    using try_fold_codex_list [OF run, of e] strip [of e] that
    by (auto simp: stripped_def is_list_def split: option.splits json.splits if_splits)
  moreover have "sorted_obj h'"
    by (rule try_fold_inv [where I = sorted_obj, OF _ run sorted_strip_events [OF h]]) (rule step_sorted(2))
  ultimately show ?thesis by (simp add: hooks_done_def must_be_lists_def)
qed

lemma refresh_sorted:
  assumes "try_fold (refresh_event p c g) es (h, b) = Inr (h', b')" "sorted_obj h"
  shows "sorted_obj h'"
  using try_fold_inv [where I = "\<lambda>s. sorted_obj (fst s)", OF step_sorted(3) assms(1)] assms(2) by simp

lemma flat_done:
  assumes h: "sorted_obj h" and run: "try_fold (refresh_event p (hook_client s) g) (hook_events s) (h, b) = Inr (h', b')"
    and groups: "our_groups s bin = map (\<lambda>e. (e, g)) (hook_events s)" and s: "s \<in> {Cursor, Gemini}"
  shows "hooks_done s bin h h'"
proof -
  have own: "hook_value_is_difflore g (hook_client s)" if "e \<in> set (hook_events s)" for e
    using own_entry [of s bin e g] that by (simp add: groups map_of_same)
  obtain e0 where "e0 \<in> set (hook_events s)" using events_wf(2) [of s] by (meson last_in_set)
  note fin = try_fold_refresh [OF run own [OF this]]
  have "map_of h' e = installed s bin h e" for e
    using fin [of e] s by (auto simp: installed_def groups map_of_same event_list_def)
  with s try_fold_refresh_list [OF run] refresh_sorted [OF run h] show ?thesis
    by (auto simp: hooks_done_def must_be_lists_def)
qed

lemma windsurf_done:
  assumes h: "sorted_obj h" and retire: "try_fold (windsurf_retire p) WINDSURF_RETIRED_HOOK_EVENTS (h, False) = Inr (h1, b)"
    and run: "try_fold (refresh_event p (lit ''windsurf'') (windsurf_entry (hook_command_string bin (lit ''windsurf''))))
           WINDSURF_HOOK_EVENTS (windsurf_drop_retired h1, b) = Inr (h', b')"
  shows "hooks_done Windsurf bin h h'"
proof -
  let ?r = "lit ''post_mcp_tool_use''" and ?g = "windsurf_entry (hook_command_string bin (lit ''windsurf''))"
  have r: "WINDSURF_RETIRED_HOOK_EVENTS = [?r]" by (simp add: WINDSURF_RETIRED_HOOK_EVENTS_def)
  have fresh: "?r \<notin> set WINDSURF_HOOK_EVENTS" by code_simp
  have h1: "map_of h1 e = (if e = ?r then map_option (strip_value (lit ''windsurf'')) (map_of h e) else map_of h e)"
    and s1: "sorted_obj h1" for e
    using retire h by (auto simp: r windsurf_retire_def Let_def strip_value_def split: option.splits json.splits)
  have dropped: "map_of (windsurf_drop_retired h1) e = (if e = ?r then stripped False (lit ''windsurf'') (map_of h e) else map_of h e)" for e
    using h1 [of e] h1 [of ?r] by (auto simp: windsurf_drop_retired_def r stripped_def strip_value_def split: option.splits json.splits)
  have sd: "sorted_obj (windsurf_drop_retired h1)"
    using s1 by (simp add: windsurf_drop_retired_def r sorted_obj_remove)
  note fin = try_fold_refresh [OF run own_windsurf]
  have "map_of h' e = installed Windsurf bin h e" for e
    using fin [of e] dropped [of e] fresh
    by (auto simp: installed_def our_groups_flat map_of_same event_list_def r entries_at_def)
  moreover have "is_list (map_of h e)" if "e \<in> set (hook_events Windsurf)" for e
    using try_fold_refresh_list [OF run, of e] dropped [of e] that fresh by (auto split: if_splits)
  moreover have "is_list (map_of h ?r)"
    using retire by (auto simp: r windsurf_retire_def is_list_def split: option.splits json.splits)
  ultimately show ?thesis using refresh_sorted [OF run sd] by (simp add: hooks_done_def must_be_lists_def r)
qed

section \<open>Installing\<close>

text \<open>What a merge did to a settings object.\<close>

definition merge_done :: "HookSurface \<Rightarrow> ustr \<Rightarrow> 'f obj \<Rightarrow> 'f obj \<Rightarrow> bool" where
  "merge_done s bin cfg cfg' \<longleftrightarrow> hooks_done s bin (hooks_of cfg) (hooks_of cfg') \<and> settings_wf cfg'
     \<and> map_of cfg' (lit ''hooks'') = Some (JObject (hooks_of cfg'))
     \<and> (\<forall>k. k \<noteq> lit ''hooks'' \<longrightarrow> map_of cfg' k = map_of cfg k)"

lemma with_hooks_done:
  assumes "with_hooks p f cfg = Inr (cfg', a)" "settings_wf cfg"
    and "\<And>h b. sorted_obj (hooks_of cfg) \<Longrightarrow> f (hooks_of cfg) = Inr (h, b) \<Longrightarrow> hooks_done s bin (hooks_of cfg) h"
  shows "merge_done s bin cfg cfg'"
proof (rule with_hooks_InrE [OF assms(1)])
  fix h
  assume h: "f (hooks_of cfg) = Inr (h, a)" "hooks_of cfg' = h" "map_of cfg' (lit ''hooks'') = Some (JObject h)"
    "\<And>k. k \<noteq> lit ''hooks'' \<Longrightarrow> map_of cfg' k = map_of cfg k" "sorted_obj cfg \<Longrightarrow> sorted_obj cfg'"
  with assms(2,3) have "hooks_done s bin (hooks_of cfg) h" by (simp add: settings_wf_def)
  with h assms(2) show ?thesis by (simp add: merge_done_def settings_wf_def hooks_done_def)
qed

definition before_merge :: "HookSurface \<Rightarrow> 'f obj \<Rightarrow> 'f obj" where
  "before_merge s cfg = (if s = Cursor then obj_entry (lit ''version'') (JPosInt 1) cfg else cfg)"

lemma hooks_of_before_merge [simp]: "hooks_of (before_merge s cfg) = hooks_of cfg"
proof -
  have "lit ''hooks'' \<noteq> lit ''version''" by (simp add: lit_def)
  from obj_entry_other [OF this, of "JPosInt 1" cfg] show ?thesis
    by (simp add: before_merge_def hooks_of_def del: map_of_obj_entry)
qed

lemma before_merge_wf [simp]: "settings_wf cfg \<Longrightarrow> settings_wf (before_merge s cfg)"
  by (simp add: settings_wf_def) (simp add: before_merge_def sorted_obj_entry)

lemma merge_config_done:
  assumes "merge_config s p bin cfg = Inr cfg'" "settings_wf cfg"
  shows "merge_done s bin (before_merge s cfg) cfg'"
proof (cases s)
  case Claude
  with assms(1) obtain n where "claude_merge p bin cfg = Inr (cfg', n)" by (cases "claude_merge p bin cfg") auto
  from with_hooks_done [OF this [unfolded claude_merge_def] assms(2) claude_done] Claude
  show ?thesis by (simp add: before_merge_def)
next
  case Codex
  with assms(1) obtain b where "codex_merge p bin cfg = Inr (cfg', b)" by (cases "codex_merge p bin cfg") auto
  have "merge_done Codex bin cfg cfg'"
    by (rule with_hooks_done [OF \<open>codex_merge p bin cfg = Inr (cfg', b)\<close> [unfolded codex_merge_def] assms(2)])
      (auto simp: case_prod_unfold Let_def split: sum.splits intro: codex_done)
  with Codex show ?thesis by (simp add: before_merge_def)
next
  case Cursor
  with assms(1) obtain b where "cursor_merge p bin cfg = Inr (cfg', b)" by (cases "cursor_merge p bin cfg") auto
  then have run: "with_hooks p (\<lambda>h. try_fold (refresh_event p (hook_client Cursor)
      (cursor_entry (hook_command_string bin (lit ''cursor'')) HOOK_FAST_TIMEOUT_SECS)) (hook_events Cursor) (h, False))
      (before_merge Cursor cfg) = Inr (cfg', b)"
    by (simp add: cursor_merge_def before_merge_def)
  show ?thesis unfolding Cursor
    by (rule with_hooks_done [OF run before_merge_wf [OF assms(2)]], erule (1) flat_done)
      (simp_all add: our_groups_flat)
next
  case Gemini
  with assms(1) obtain b where "gemini_merge p bin cfg = Inr (cfg', b)" by (cases "gemini_merge p bin cfg") auto
  then have run: "with_hooks p (\<lambda>h. try_fold (refresh_event p (hook_client Gemini)
      (gemini_entry (hook_command_string bin (lit ''gemini-cli'')) HOOK_FAST_TIMEOUT_SECS)) (hook_events Gemini) (h, False))
      cfg = Inr (cfg', b)"
    by (simp add: gemini_merge_def)
  have "merge_done Gemini bin cfg cfg'"
    by (rule with_hooks_done [OF run assms(2)], erule (1) flat_done) (simp_all add: our_groups_flat)
  with Gemini show ?thesis by (simp add: before_merge_def)
next
  case Windsurf
  with assms(1) obtain b where "windsurf_merge p bin cfg = Inr (cfg', b)" by (cases "windsurf_merge p bin cfg") auto
  have "merge_done Windsurf bin cfg cfg'"
    by (rule with_hooks_done [OF \<open>windsurf_merge p bin cfg = Inr (cfg', b)\<close> [unfolded windsurf_merge_def] assms(2)])
      (auto split: sum.splits prod.splits intro: windsurf_done)
  with Windsurf show ?thesis by (simp add: before_merge_def)
qed

text \<open>Per event, the user keeps everything and we are there once.\<close>

lemma event_list_entries:
  assumes "hook_value_is_difflore g (hook_client s)"
  shows "retain_user (hook_client s) (event_list s g gs) = retain_user (hook_client s) gs"
    and "filter (\<lambda>x. hook_value_is_difflore x (hook_client s)) (event_list s g gs) = [g]"
  using assms claude_list_entries [of g gs] by (auto simp: event_list_def retain_user_def)

lemma installed_list_iff: "is_list (map_of h e) \<Longrightarrow> is_list (installed s bin h e)"
  by (auto simp: installed_def stripped_def is_list_def split: option.splits json.splits)

lemma stripped_entries:
  assumes "map_of h' e = stripped k c (map_of h e)"
  shows "retain_user c (entries_at h' e) = retain_user c (entries_at h e)"
    and "filter (\<lambda>g. hook_value_is_difflore g c) (entries_at h' e) = []"
proof -
  have "entries_at h' e = retain_user c (entries_at h e)"
    using assms by (auto simp: entries_at_def stripped_def retain_user_def split: option.splits json.splits if_splits)
  then show "retain_user c (entries_at h' e) = retain_user c (entries_at h e)"
    "filter (\<lambda>g. hook_value_is_difflore g c) (entries_at h' e) = []"
    by (simp_all add: retain_user_def)
qed

definition kept_plain :: "'f obj \<Rightarrow> 'f obj \<Rightarrow> bool" where
  "kept_plain h h' \<longleftrightarrow> (\<forall>e v. map_of h e = Some v \<and> (\<forall>gs. v \<noteq> JArray gs) \<longrightarrow> map_of h' e = Some v)"

lemma hooks_done_entries:
  fixes cfg cfg' :: "'f obj"
  assumes "hooks_done s bin (hooks_of cfg) (hooks_of cfg')"
  shows "user_entries s cfg' e = user_entries s cfg e"
    and "map_of (our_groups s bin) e = Some g \<Longrightarrow> our_entries s cfg' e = [g]"
    and "e \<notin> set (hook_events s) \<Longrightarrow> our_entries s cfg' e = (if cleaned s e then [] else our_entries s cfg e)"
    and "kept_plain (hooks_of cfg) (hooks_of cfg')"
proof -
  from assms have at: "map_of (hooks_of cfg') e = installed s bin (hooks_of cfg) e"
    and lists: "e \<in> set (hook_events s) \<Longrightarrow> is_list (map_of (hooks_of cfg) e)" for e
    by (simp_all add: hooks_done_def must_be_lists_def)
  note dom = our_groups_dom [of s bin, where 'a = 'f]
  show "user_entries s cfg' e = user_entries s cfg e"
  proof (cases "map_of (our_groups s bin :: (ustr \<times> 'f json) list) e")
    case (Some g)
    with at [of e] event_list_entries(1) [OF own_entry [OF Some]] show ?thesis
      by (simp add: user_entries_def installed_def)
  next
    case None
    with at [of e] stripped_entries(1) [of "hooks_of cfg'" e _ _ "hooks_of cfg"] show ?thesis
      by (cases "cleaned s e") (auto simp: user_entries_def installed_def entries_at_def)
  qed
  show "map_of (our_groups s bin) e = Some g \<Longrightarrow> our_entries s cfg' e = [g]"
    using at [of e] event_list_entries(2) [OF own_entry] by (simp add: our_entries_def installed_def)
  show "e \<notin> set (hook_events s) \<Longrightarrow> our_entries s cfg' e = (if cleaned s e then [] else our_entries s cfg e)"
    using at [of e] dom [of e] stripped_entries(2) [of "hooks_of cfg'" e _ _ "hooks_of cfg"]
    by (cases "cleaned s e") (auto simp: our_entries_def installed_def entries_at_def)
  show "kept_plain (hooks_of cfg) (hooks_of cfg')"
    unfolding kept_plain_def
  proof (intro allI impI)
    fix e v assume v: "map_of (hooks_of cfg) e = Some v \<and> (\<forall>gs. v \<noteq> JArray gs)"
    then have "e \<notin> set (hook_events s)" using lists [of e] by auto
    with v at [of e] dom [of e] show "map_of (hooks_of cfg') e = Some v"
      by (auto simp: installed_def stripped_def split: json.splits)
  qed
qed

text \<open>Our part of a group table, and the names of the settings keys.\<close>

lemma before_merge_other: "k \<noteq> lit ''version'' \<or> s \<noteq> Cursor \<Longrightarrow> map_of (before_merge s cfg) k = map_of cfg k"
  by (auto simp: before_merge_def obj_entry_other simp del: map_of_obj_entry)

text \<open>
  C6. Whatever the settings of a coding agent hold, installing the hooks keeps, for every event, the entries of
  the user in their order and every value that is not an array. Each event of the surface then has exactly one
  entry of ours, the one rendered for this binary; Claude Code and Codex have ours nowhere else. No other
  setting changes, but for the version Cursor wants when there is none.
\<close>

theorem hook_install_exact:
  assumes "settings_wf cfg" and "merge_config s p bin cfg = Inr cfg'"
  shows "settings_wf cfg'
    \<and> (\<forall>e. user_entries s cfg' e = user_entries s cfg e) \<and> kept_plain (hooks_of cfg) (hooks_of cfg')
    \<and> (\<forall>(e, g) \<in> set (our_groups s bin). our_entries s cfg' e = [g])
    \<and> (\<forall>e. e \<notin> set (hook_events s) \<longrightarrow> our_entries s cfg' e = (if s = Claude \<or> s = Codex \<or> cleaned s e then [] else our_entries s cfg e))
    \<and> (\<forall>k. k \<noteq> lit ''hooks'' \<longrightarrow> map_of cfg' k =
        (if s = Cursor \<and> k = lit ''version'' \<and> map_of cfg k = None then Some (JPosInt 1) else map_of cfg k))"
proof -
  from merge_config_done [OF assms(2,1)]
  have hooks: "hooks_done s bin (hooks_of cfg) (hooks_of cfg')" and wf: "settings_wf cfg'"
    and other: "k \<noteq> lit ''hooks'' \<Longrightarrow> map_of cfg' k = map_of (before_merge s cfg) k" for k
    by (simp_all add: merge_done_def)
  note entries = hooks_done_entries [OF hooks]
  have "distinct (map fst (our_groups s bin :: (ustr \<times> 'a json) list))"
    unfolding our_groups_def map_fst_zip_take using events_wf(1) [of s] by (rule distinct_take)
  then have "our_entries s cfg' e = [g]" if "(e, g) \<in> set (our_groups s bin)" for e g
    using entries(2) that by simp
  moreover have "cleaned s e" if "s = Claude \<or> s = Codex" for e using that by auto
  moreover have "map_of cfg' k = (if s = Cursor \<and> k = lit ''version'' \<and> map_of cfg k = None then Some (JPosInt 1) else map_of cfg k)"
    if "k \<noteq> lit ''hooks''" for k
    using other [OF that] by (auto simp: before_merge_def split: option.splits)
  ultimately show ?thesis using wf entries(1,3,4) by auto
qed

section \<open>Installing again\<close>

lemma stripped_idem [simp]: "stripped k c (stripped k c x) = stripped k c x"
  by (auto simp: stripped_def retain_user_def split: option.splits json.splits)

lemma event_list_idem:
  "hook_value_is_difflore g (hook_client s) \<Longrightarrow> event_list s g (event_list s g gs) = event_list s g gs"
  using claude_list_entries(3) [of g gs] by (auto simp: event_list_def retain_user_def claude_list_def)

lemma installed_idem:
  assumes "\<forall>e. map_of h' e = installed s bin h e"
  shows "installed s bin h' e = map_of h' e"
proof (cases "map_of (our_groups s bin :: (ustr \<times> 'a json) list) e")
  case (Some g)
  with assms event_list_idem [OF own_entry [OF Some]] show ?thesis by (simp add: installed_def)
next
  case None
  with assms show ?thesis by (simp add: installed_def)
qed

lemma try_fold_total:
  assumes "\<And>x s. x \<in> set xs \<Longrightarrow> I s \<Longrightarrow> \<exists>s'. f x s = Inr s' \<and> I s'" "I s"
  shows "\<exists>s'. try_fold f xs s = Inr s'"
  using assms
proof (induction xs arbitrary: s)
  case (Cons x xs)
  then obtain s' where "f x s = Inr s'" "I s'" by (meson list.set_intros(1))
  with Cons show ?case by simp
qed simp

lemma list_after_entry: "is_list (map_of h e) \<Longrightarrow> \<exists>gs. map_of (obj_entry e (JArray []) h) e = Some (JArray gs)"
  by (auto simp: is_list_def split: option.splits json.splits)

lemma refresh_total:
  assumes "\<forall>e \<in> set es. is_list (map_of h e)"
  shows "\<exists>r. try_fold (refresh_event p c g) es (h, b) = Inr r"
proof (rule try_fold_total [where I = "\<lambda>s. \<forall>e \<in> set es. is_list (map_of (fst s) e)"])
  fix x and s :: "'a obj \<times> bool" assume x: "x \<in> set es" and s: "\<forall>e \<in> set es. is_list (map_of (fst s) e)"
  from list_after_entry s x obtain gs where "map_of (obj_entry x (JArray []) (fst s)) x = Some (JArray gs)" by blast
  with s show "\<exists>s'. refresh_event p c g x s = Inr s' \<and> (\<forall>e \<in> set es. is_list (map_of (fst s') e))"
    by (cases s) (auto simp: refresh_event_def Let_def split: option.splits)
qed (use assms in simp)

lemma codex_total:
  assumes "\<forall>e \<in> fst ` set tbl. is_list (map_of h e)"
  shows "\<exists>r. try_fold (codex_push p cmd) tbl h = Inr r"
proof (rule try_fold_total [where I = "\<lambda>h. \<forall>e \<in> fst ` set tbl. is_list (map_of h e)"])
  fix x and h :: "'a obj" assume x: "x \<in> set tbl" and h: "\<forall>e \<in> fst ` set tbl. is_list (map_of h e)"
  from list_after_entry h x obtain gs where "map_of (obj_entry (fst x) (JArray []) h) (fst x) = Some (JArray gs)" by blast
  with h show "\<exists>h'. codex_push p cmd x h = Inr h' \<and> (\<forall>e \<in> fst ` set tbl. is_list (map_of h' e))"
    by (cases x) (auto simp: codex_push_def Let_def split: option.splits)
qed (use assms in simp)

text \<open>After an installation the next one finds nothing to object to.\<close>

lemma installed_lists:
  assumes "hooks_done s bin h h'" "e \<in> must_be_lists s"
  shows "is_list (map_of h' e)"
  using assms installed_list_iff [of h e s bin] by (auto simp: hooks_done_def)

lemma codex_no_error:
  assumes h: "sorted_obj h" and lists: "\<forall>e \<in> set (hook_events Codex). is_list (map_of h e)"
  shows "\<exists>r. try_fold (codex_push p cmd) CODEX_HOOK_EVENT_MATCHERS (fst (strip_events c h)) = Inr r"
proof (rule codex_total, intro ballI)
  fix e assume "e \<in> fst ` set CODEX_HOOK_EVENT_MATCHERS"
  with lists have "is_list (map_of h e)" by auto
  then show "is_list (map_of (fst (strip_events c h)) e)"
    unfolding strip_events_at [OF sorted_obj_distinct [OF h]] by (auto simp: stripped_def is_list_def split: option.splits json.splits)
qed

lemma windsurf_no_error:
  assumes "\<forall>e \<in> must_be_lists Windsurf. is_list (map_of h e)"
  shows "\<exists>h1 b. try_fold (windsurf_retire p) WINDSURF_RETIRED_HOOK_EVENTS (h, False) = Inr (h1, b)
    \<and> (\<exists>r. try_fold (refresh_event p c g) WINDSURF_HOOK_EVENTS (windsurf_drop_retired h1, b) = Inr r)"
proof -
  let ?r = "lit ''post_mcp_tool_use''"
  have r: "WINDSURF_RETIRED_HOOK_EVENTS = [?r]" by (simp add: WINDSURF_RETIRED_HOOK_EVENTS_def)
  have fresh: "?r \<notin> set WINDSURF_HOOK_EVENTS" by code_simp
  from assms have "is_list (map_of h ?r)" by (simp add: must_be_lists_def r)
  then obtain h1 b where retire: "try_fold (windsurf_retire p) WINDSURF_RETIRED_HOOK_EVENTS (h, False) = Inr (h1, b)"
    and h1: "e \<noteq> ?r \<Longrightarrow> map_of h1 e = map_of h e" for e
    by (auto simp: r windsurf_retire_def is_list_def Let_def split: option.splits json.splits)
  have "is_list (map_of (windsurf_drop_retired h1) e)" if "e \<in> set WINDSURF_HOOK_EVENTS" for e
  proof -
    have "e \<noteq> ?r" using fresh that by auto
    with h1 [OF this] assms that show ?thesis by (simp add: windsurf_drop_retired_def r must_be_lists_def)
  qed
  with retire refresh_total show ?thesis by blast
qed

lemma with_hooks_total:
  "map_of cfg (lit ''hooks'') = Some (JObject h) \<Longrightarrow> \<exists>r. f h = Inr r \<Longrightarrow> \<exists>r. with_hooks p f cfg = Inr r"
  by (auto simp: with_hooks_def Let_def obj_entry_def split: prod.splits)

lemma claude_again:
  fixes cfg cfg' :: "'f obj"
  assumes wf: "settings_wf cfg" and run: "claude_merge p bin cfg = Inr (cfg', n)"
  shows "claude_merge p' bin cfg' = Inr (cfg', 0)"
proof -
  let ?cmd = "hook_command_string bin (lit ''claude-code'')" and ?h = "hooks_of cfg'"
  from run have "merge_config Claude p bin cfg = Inr cfg'" by simp
  from merge_config_done [OF this wf] have hooks: "hooks_done Claude bin (hooks_of cfg) ?h" and wf': "settings_wf cfg'"
    and obj: "map_of cfg' (lit ''hooks'') = Some (JObject ?h)"
    by (simp_all add: merge_done_def before_merge_def)
  from hooks have at: "map_of ?h e = installed Claude bin (hooks_of cfg) e" for e by (simp add: hooks_done_def)
  have strip: "fold claude_strip_event (map fst ?h) (?h, 0) = (?h, 0)"
  proof (rule claude_strip_nothing)
    fix e gs assume e: "\<not> claude_code_event_is_registered e" "map_of ?h e = Some (JArray gs)"
    then have none: "map_of (our_groups Claude bin :: (ustr \<times> 'f json) list) e = None"
      unfolding our_groups_dom by (auto simp: claude_code_event_is_registered_def list_ex_iff)
    with at [of e] e(2) show "retain_user (lit ''claude-code'') gs = gs"
      by (auto simp: installed_def stripped_def retain_user_def split: option.splits json.splits if_splits)
  qed
  have "try_fold (claude_merge_event p' ?cmd) tbl (?h, 0) = Inr (?h, 0)"
    if "set tbl \<subseteq> set CLAUDE_HOOK_EVENT_MATCHERS" for tbl
    using that
  proof (induction tbl)
    case (Cons x tbl)
    obtain e m where x: "x = (e, m)" by (cases x)
    have "distinct (map fst CLAUDE_HOOK_EVENT_MATCHERS)" using events_wf(1) [of Claude] by simp
    with Cons.prems x have "map_of CLAUDE_HOOK_EVENT_MATCHERS e = Some m" by simp
    then have "map_of (our_groups Claude bin :: (ustr \<times> 'f json) list) e = Some (claude_hook_group e m ?cmd)"
      by (simp add: our_groups_Claude map_of_map_pair)
    with at [of e] have gs: "map_of ?h e = Some (JArray (claude_list (claude_hook_group e m ?cmd) (entries_at (hooks_of cfg) e)))"
      by (simp add: installed_def event_list_def)
    have "sorted_obj ?h" using wf' by (simp add: settings_wf_def)
    note same = obj_update_same [OF this gs]
    have "claude_retain d False (claude_list d es) = (claude_list d es, True, False)"
      if "d = claude_hook_group e m ?cmd" for d :: "'f json" and es
      unfolding that by (rule claude_list_entries(3) [OF own_claude])
    with same gs x have "claude_merge_event p' ?cmd x (?h, 0) = Inr (?h, 0)"
      by (simp add: claude_merge_event_def Let_def obj_entry_def)
    with Cons show ?case by simp
  qed simp
  from this [OF order_refl] have "(\<lambda>h. try_fold (claude_merge_event p' ?cmd) CLAUDE_HOOK_EVENT_MATCHERS
      (fold claude_strip_event (map fst h) (h, 0))) ?h = Inr (?h, 0)"
    unfolding strip .
  with wf' show ?thesis unfolding claude_merge_def settings_wf_def by (intro with_hooks_same [OF _ obj]) simp_all
qed

lemma merge_again_total:
  assumes "merge_done s bin cfg0 cfg'" "s \<noteq> Claude"
  shows "\<exists>cfg''. merge_config s p bin cfg' = Inr cfg''"
proof -
  let ?h = "hooks_of cfg'"
  from assms(1) have hooks: "hooks_done s bin (hooks_of cfg0) ?h" and obj: "map_of cfg' (lit ''hooks'') = Some (JObject ?h)"
    and sorted: "sorted_obj ?h" by (simp_all add: merge_done_def settings_wf_def)
  have lists: "\<forall>e \<in> must_be_lists s. is_list (map_of ?h e)" using installed_lists [OF hooks] by blast
  have ls: "\<forall>e \<in> set (hook_events s). is_list (map_of ?h e)" using lists by (simp add: must_be_lists_def)
  show ?thesis
  proof (cases s)
    case Codex
    with codex_no_error [OF sorted, of p "hook_command_string bin (lit ''codex'')" "lit ''codex''"] ls
    have "\<exists>r. codex_merge p bin cfg' = Inr r"
      unfolding codex_merge_def by (intro with_hooks_total [OF obj]) (auto simp: case_prod_unfold Let_def)
    with Codex show ?thesis by auto
  next
    case Cursor
    have "map_of (obj_entry (lit ''version'') (JPosInt 1) cfg') (lit ''hooks'') = Some (JObject ?h)"
      using obj by (simp add: obj_entry_other lit_def del: map_of_obj_entry)
    with Cursor ls refresh_total [of CURSOR_HOOK_EVENTS ?h] have "\<exists>r. cursor_merge p bin cfg' = Inr r"
      unfolding cursor_merge_def by (intro with_hooks_total) auto
    with Cursor show ?thesis by auto
  next
    case Gemini
    with ls refresh_total [of GEMINI_HOOK_EVENTS ?h] have "\<exists>r. gemini_merge p bin cfg' = Inr r"
      unfolding gemini_merge_def by (intro with_hooks_total [OF obj]) auto
    with Gemini show ?thesis by auto
  next
    case Windsurf
    with lists have "\<forall>e \<in> must_be_lists Windsurf. is_list (map_of ?h e)" by simp
    from windsurf_no_error [OF this, of p "lit ''windsurf''" "windsurf_entry (hook_command_string bin (lit ''windsurf''))"]
    have "\<exists>r. windsurf_merge p bin cfg' = Inr r"
      unfolding windsurf_merge_def by (intro with_hooks_total [OF obj]) (elim exE conjE, simp)
    with Windsurf show ?thesis by auto
  qed (use assms(2) in simp)
qed

text \<open>
  Installing again with the same binary changes nothing: every surface ends with the same settings object, and
  Claude Code reports that no event changed, so that the file is not written.
\<close>

theorem hook_reinstall_changes_nothing:
  assumes "settings_wf cfg" and "merge_config s p bin cfg = Inr cfg'"
  shows "merge_config s p bin cfg' = Inr cfg' \<and> (s = Claude \<longrightarrow> claude_merge p bin cfg' = Inr (cfg', 0))"
proof (cases "s = Claude")
  case True
  with assms obtain n where "claude_merge p bin cfg = Inr (cfg', n)" by (cases "claude_merge p bin cfg") auto
  from claude_again [OF assms(1) this] True show ?thesis by simp
next
  case False
  note first = merge_config_done [OF assms(2,1)]
  from merge_again_total [OF first False] obtain cfg'' where again: "merge_config s p bin cfg' = Inr cfg''" by blast
  from first have wf': "settings_wf cfg'" by (simp add: merge_done_def)
  note second = merge_config_done [OF again wf']
  have v: "before_merge s cfg' = cfg'"
    using first by (auto simp: before_merge_def obj_entry_def merge_done_def lit_def split: option.splits)
  have "map_of (hooks_of cfg'') e = map_of (hooks_of cfg') e" for e
    using first second installed_idem [of "hooks_of cfg'" s bin "hooks_of cfg" e]
    by (simp add: merge_done_def hooks_done_def)
  then have hooks: "hooks_of cfg'' = hooks_of cfg'"
    using first second by (intro sorted_obj_eqI) (auto simp: merge_done_def settings_wf_def)
  have "map_of cfg'' k = map_of cfg' k" for k
    using first second hooks v by (cases "k = lit ''hooks''") (simp_all add: merge_done_def)
  then have "cfg'' = cfg'"
    using first second by (intro sorted_obj_eqI) (auto simp: merge_done_def settings_wf_def)
  with again False show ?thesis by simp
qed

section \<open>Removing\<close>

definition remove_config :: "HookSurface \<Rightarrow> 'f obj \<Rightarrow> ('f obj \<times> nat) option" where
  "remove_config s cfg = remove_entries (hook_client s) (s = Claude \<or> s = Codex) cfg"

lemma entries_at_Nil [simp]: "entries_at [] e = []"
  by (simp add: entries_at_def)

lemma remove_entries_hooks:
  assumes "remove_entries c pruned cfg = Some (cfg', n)"
  shows "hooks_of cfg' = fst (strip_events c (hooks_of cfg))" "n = snd (strip_events c (hooks_of cfg))"
    and "k \<noteq> lit ''hooks'' \<Longrightarrow> map_of cfg' k = map_of cfg k"
  using assms by (auto simp: remove_entries_def hooks_of_def Let_def case_prod_unfold split: option.splits json.splits if_splits)

lemma strip_count_0:
  assumes "distinct (map fst h)"
  shows "snd (strip_events c h) = 0 \<longleftrightarrow> (\<forall>e. filter (\<lambda>g. hook_value_is_difflore g c) (entries_at h e) = [])"
proof -
  have at: "strip_value c v \<noteq> v \<longleftrightarrow> (\<exists>gs. v = JArray gs \<and> filter (\<lambda>g. hook_value_is_difflore g c) gs \<noteq> [])" for v :: "'a json"
    by (cases v) (auto simp: strip_value_def retain_user_def filter_id_conv filter_empty_conv)
  have "snd (strip_events c h) = 0 \<longleftrightarrow> (\<forall>(e, v) \<in> set h. strip_value c v = v)"
    by (auto simp: strip_events_def Let_def filter_empty_conv)
  also have "\<dots> \<longleftrightarrow> (\<forall>e v. map_of h e = Some v \<longrightarrow> strip_value c v = v)"
    using map_of_eq_Some_iff [OF assms] by auto
  also have "\<dots> \<longleftrightarrow> (\<forall>e. filter (\<lambda>g. hook_value_is_difflore g c) (entries_at h e) = [])"
    using at by (auto simp: entries_at_def split: option.splits json.splits) (metis at)+
  finally show ?thesis .
qed

lemma remove_config_entries:
  assumes cfg: "settings_wf cfg" and run: "remove_config s cfg = Some (cfg', n)"
  shows "user_entries s cfg' e = user_entries s cfg e" "our_entries s cfg' e = []"
    and "kept_plain (hooks_of cfg) (hooks_of cfg')" "k \<noteq> lit ''hooks'' \<Longrightarrow> map_of cfg' k = map_of cfg k"
    and "n = 0 \<longleftrightarrow> (\<forall>e. our_entries s cfg e = [])"
proof -
  note rm = remove_entries_hooks [OF run [unfolded remove_config_def]]
  from cfg have d: "distinct (map fst (hooks_of cfg))" by (simp add: settings_wf_def sorted_obj_distinct)
  have at: "map_of (hooks_of cfg') e = stripped False (hook_client s) (map_of (hooks_of cfg) e)" for e
    unfolding rm(1) by (rule strip_events_at [OF d])
  show "user_entries s cfg' e = user_entries s cfg e" "our_entries s cfg' e = []"
    using stripped_entries [OF at] by (simp_all add: user_entries_def our_entries_def)
  show "kept_plain (hooks_of cfg) (hooks_of cfg')"
    unfolding kept_plain_def at by (auto simp: stripped_def split: json.splits)
  show "k \<noteq> lit ''hooks'' \<Longrightarrow> map_of cfg' k = map_of cfg k" by (rule rm(3))
  show "n = 0 \<longleftrightarrow> (\<forall>e. our_entries s cfg e = [])"
    using rm(2) strip_count_0 [OF d, of "hook_client s"] by (simp add: our_entries_def)
qed

text \<open>
  C18. Removing the hooks takes exactly our entries, wherever they are, and leaves those of the user, every value
  that is not an array, and every other setting. It reports a removal just when there was an entry of ours.
\<close>

theorem hook_removal_exact:
  assumes "settings_wf cfg" and "remove_config s cfg = Some (cfg', n)"
  shows "(\<forall>e. user_entries s cfg' e = user_entries s cfg e \<and> our_entries s cfg' e = [])
    \<and> kept_plain (hooks_of cfg) (hooks_of cfg') \<and> (\<forall>k. k \<noteq> lit ''hooks'' \<longrightarrow> map_of cfg' k = map_of cfg k)
    \<and> (n = 0 \<longleftrightarrow> (\<forall>e. our_entries s cfg e = []))"
  using remove_config_entries [OF assms] by blast

lemma merge_has_entry:
  assumes "settings_wf cfg" "merge_config s p bin cfg = Inr cfg'"
  shows "\<exists>e. our_entries s cfg' e \<noteq> []"
proof -
  from merge_config_done [OF assms(2,1)] have hooks: "hooks_done s bin (hooks_of cfg) (hooks_of cfg')"
    by (simp add: merge_done_def)
  obtain e where "e \<in> set (hook_events s)" using events_wf(2) [of s] by (meson last_in_set)
  then obtain g where "map_of (our_groups s bin :: (ustr \<times> 'a json) list) e = Some g"
    using our_groups_dom [of s bin e, where 'a = 'a] by blast
  from hooks_done_entries(2) [OF hooks this] show ?thesis by (intro exI [of _ e]) simp
qed

text \<open>
  C21. Installing and removing again is a round trip for the user: the removal finds our entries, takes them all, and the
  entries of the user are those before the installation.
\<close>

theorem hook_install_then_remove:
  assumes "settings_wf cfg" and "merge_config s p bin cfg = Inr cfg1"
  shows "\<exists>cfg' n. remove_config s cfg1 = Some (cfg', n) \<and> 0 < n \<and> kept_plain (hooks_of cfg) (hooks_of cfg')
    \<and> (\<forall>e. user_entries s cfg' e = user_entries s cfg e \<and> our_entries s cfg' e = [])"
proof -
  from merge_config_done [OF assms(2,1)] have hooks: "hooks_done s bin (hooks_of cfg) (hooks_of cfg1)"
    and wf: "settings_wf cfg1" and obj: "map_of cfg1 (lit ''hooks'') = Some (JObject (hooks_of cfg1))"
    by (simp_all add: merge_done_def)
  obtain cfg' n where run: "remove_config s cfg1 = Some (cfg', n)"
    using obj by (simp add: remove_config_def remove_entries_def Let_def case_prod_unfold)
  note rm = remove_config_entries [OF wf run]
  have "0 < n" using rm(5) merge_has_entry [OF assms] by auto
  moreover have "kept_plain (hooks_of cfg) (hooks_of cfg')"
    using rm(3) hooks_done_entries(4) [OF hooks] unfolding kept_plain_def by blast
  ultimately show ?thesis using run rm(1,2) hooks_done_entries(1) [OF hooks] by metis
qed

section \<open>Reading back\<close>

text \<open>
  The bytes behind the hash of the manifest: the groups in the order of their serialisations.
\<close>

definition hook_groups_bytes :: "('f json \<Rightarrow> ustr) \<Rightarrow> 'f json list \<Rightarrow> ustr" where
  "hook_groups_bytes show_json groups = str_join [newline] (sort_by cmp_str (map show_json groups))"

lemma mset_extract_entries:
  assumes "distinct (map fst (hooks_of cfg))" "map_of cfg (lit ''hooks'') = Some (JObject (hooks_of cfg))"
  shows "mset (extract_entries (hook_client s) cfg) = (\<Sum>e \<in> set (map fst (hooks_of cfg)). mset (our_entries s cfg e))"
proof -
  let ?ours = "filter (\<lambda>g. hook_value_is_difflore g (hook_client s))"
  have "extract_entries (hook_client s) cfg = concat (map (\<lambda>(e, v). case as_array v of Some arr \<Rightarrow> ?ours arr | None \<Rightarrow> []) (hooks_of cfg))"
    using assms(2) by (simp add: extract_entries_def)
  also have "map (\<lambda>(e, v). case as_array v of Some arr \<Rightarrow> ?ours arr | None \<Rightarrow> []) (hooks_of cfg)
      = map (our_entries s cfg) (map fst (hooks_of cfg))"
  proof -
    have "(case as_array v of Some arr \<Rightarrow> ?ours arr | None \<Rightarrow> []) = our_entries s cfg e" if "(e, v) \<in> set (hooks_of cfg)" for e v
    proof -
      from that assms(1) have "map_of (hooks_of cfg) e = Some v" by simp
      then show ?thesis by (cases v) (simp_all add: our_entries_def entries_at_def)
    qed
    then show ?thesis by (auto split: prod.split)
  qed
  finally have "mset (extract_entries (hook_client s) cfg) = sum_list (map (\<lambda>e. mset (our_entries s cfg e)) (map fst (hooks_of cfg)))"
    by (simp add: mset_concat comp_def)
  also have "\<dots> = (\<Sum>e \<in> set (map fst (hooks_of cfg)). mset (our_entries s cfg e))"
    by (rule sum_list_distinct_conv_sum_set [OF assms(1)])
  finally show ?thesis .
qed

lemma our_groups_parts:
  "map fst (our_groups s bin :: (ustr \<times> 'f json) list) = hook_events s"
  "map snd (our_groups s bin) = (render_hook_groups s bin :: 'f json list)"
proof -
  have "length (hook_events s) = length (render_hook_groups s bin :: 'f json list)"
    by (cases s) (simp_all add: render_claude_code_hook_block_def render_codex_hook_block_def render_cursor_hook_block_def
        render_gemini_cli_hook_block_def render_windsurf_hook_block_def)
  then show "map fst (our_groups s bin :: (ustr \<times> 'f json) list) = hook_events s"
    "map snd (our_groups s bin) = (render_hook_groups s bin :: 'f json list)"
    by (simp_all add: our_groups_def)
qed

lemma done_entries_mset:
  fixes cfg :: "'f obj"
  assumes "hooks_done s bin (hooks_of old) (hooks_of cfg)"
  shows "(\<Sum>e \<in> set (hook_events s). mset (our_entries s cfg e)) = mset (render_hook_groups s bin)"
proof -
  have one: "mset (our_entries s cfg e) = {#g#}" if "(e, g) \<in> set (our_groups s bin)" for e g
  proof -
    from that events_wf(1) [of s] have "map_of (our_groups s bin) e = Some g" by (simp add: our_groups_parts)
    from hooks_done_entries(2) [OF assms this] show ?thesis by simp
  qed
  have singles: "sum_list (map (\<lambda>(e, g). {#g#}) xs) = mset (map snd xs)" for xs :: "(ustr \<times> 'f json) list"
    by (induction xs) auto
  have "(\<Sum>e \<in> set (hook_events s). mset (our_entries s cfg e)) = sum_list (map (\<lambda>e. mset (our_entries s cfg e)) (hook_events s))"
    by (rule sum_list_distinct_conv_sum_set [OF events_wf(1), symmetric])
  also have "\<dots> = sum_list (map (\<lambda>(e, g). mset (our_entries s cfg e)) (our_groups s bin :: (ustr \<times> 'f json) list))"
    by (simp flip: our_groups_parts(1) [where bin = bin and 'f = 'f] add: case_prod_unfold comp_def)
  also have "map (\<lambda>(e, g). mset (our_entries s cfg e)) (our_groups s bin :: (ustr \<times> 'f json) list) = map (\<lambda>(e, g). {#g#}) (our_groups s bin)"
    using one by (intro map_cong refl) (auto split: prod.split)
  finally show ?thesis unfolding singles our_groups_parts .
qed

text \<open>
  C28. After an installation the entries of ours on disk are, up to order, the groups rendered for the manifest, so
  both hash alike, if there was no entry of ours under an event the surface leaves alone. Claude Code and Codex
  leave none alone.
\<close>

theorem fresh_install_matches_manifest:
  assumes "settings_wf cfg" and "merge_config s p bin cfg = Inr cfg'"
    and "\<forall>e. e \<notin> set (hook_events s) \<and> \<not> cleaned s e \<longrightarrow> our_entries s cfg e = []"
  shows "mset (extract_entries (hook_client s) cfg') = mset (render_hook_groups s bin)
    \<and> hook_groups_bytes show_json (extract_entries (hook_client s) cfg') = hook_groups_bytes show_json (render_hook_groups s bin)"
proof -
  from merge_config_done [OF assms(2,1)] have hooks: "hooks_done s bin (hooks_of cfg) (hooks_of cfg')"
    and wf: "settings_wf cfg'" and obj: "map_of cfg' (lit ''hooks'') = Some (JObject (hooks_of cfg'))"
    by (simp_all add: merge_done_def)
  let ?K = "set (map fst (hooks_of cfg'))" and ?E = "set (hook_events s)"
  have d: "distinct (map fst (hooks_of cfg'))" using wf by (simp add: settings_wf_def sorted_obj_distinct)
  have outside: "our_entries s cfg' e = []" if "e \<notin> ?E" for e
    using hooks_done_entries(3) [OF hooks that] assms(3) that by (cases "cleaned s e") simp_all
  have absent: "our_entries s cfg' e = []" if "e \<notin> ?K" for e
    using that by (simp add: our_entries_def entries_at_def map_of_eq_None_iff [THEN iffD2])
  have "mset (extract_entries (hook_client s) cfg') = (\<Sum>e \<in> ?K. mset (our_entries s cfg' e))"
    by (rule mset_extract_entries [OF d obj])
  also have "\<dots> = (\<Sum>e \<in> ?K \<union> ?E. mset (our_entries s cfg' e))"
    using absent by (intro sum.mono_neutral_left) auto
  also have "\<dots> = (\<Sum>e \<in> ?E. mset (our_entries s cfg' e))"
    using outside by (intro sum.mono_neutral_right) auto
  finally have m: "mset (extract_entries (hook_client s) cfg') = mset (render_hook_groups s bin)"
    unfolding done_entries_mset [OF hooks] .
  then have "mset (map show_json (extract_entries (hook_client s) cfg')) = mset (map show_json (render_hook_groups s bin))" by simp
  then have "sort_by cmp_str (map show_json (extract_entries (hook_client s) cfg')) = sort_by cmp_str (map show_json (render_hook_groups s bin))"
    by (rule strings.sort_by_perm) (simp add: cmp_str_iff)
  with m show ?thesis by (simp add: hook_groups_bytes_def)
qed

section \<open>The files\<close>

text \<open>The installation of a surface; \<open>aux\<close> is the context file of Gemini and Windsurf.\<close>

fun merge_hooks :: "'f host \<Rightarrow> HookSurface \<Rightarrow> path \<Rightarrow> path \<Rightarrow> ustr \<Rightarrow> bool \<Rightarrow> unit fs" where
  "merge_hooks H Claude p aux bin dry = andthen (merge_claude_code_hooks H p bin) (\<lambda>_. ret ())"
| "merge_hooks H Codex p aux bin dry = andthen (merge_codex_hooks H p bin dry) (\<lambda>_. ret ())"
| "merge_hooks H Cursor p aux bin dry = andthen (merge_cursor_hooks H p bin dry) (\<lambda>_. ret ())"
| "merge_hooks H Gemini p aux bin dry = andthen (merge_gemini_cli_hooks H p aux bin dry) (\<lambda>_. ret ())"
| "merge_hooks H Windsurf p aux bin dry = andthen (merge_windsurf_hooks H p aux bin dry) (\<lambda>_. ret ())"

text \<open>The settings a file stands for; a missing or blank file has none.\<close>

definition loads :: "'f host \<Rightarrow> ustr option \<Rightarrow> 'f obj \<Rightarrow> bool" where
  "loads H c cfg \<longleftrightarrow> (case c of None \<Rightarrow> cfg = []
     | Some raw \<Rightarrow> if trim raw = [] then cfg = [] else parse_json H (trim raw) = Inr (JObject cfg))"

lemma as_object_Some: "as_object v = Some m \<longleftrightarrow> v = JObject m"
  by (cases v) auto

lemma ends_load:
  assumes "\<And>e. Q (Inl e) d" "\<And>cfg. loads H (files d p) cfg \<Longrightarrow> Q (Inr cfg) d"
  shows "ends_in (load_json_object H p) d Q"
  unfolding load_json_object_def path_exists_def
  by (intro ends_andthen ends_get)
    (auto intro!: ends_intros assms simp: loads_def as_object_Some split: sum.split option.split)

lemma ends_write_json:
  assumes "\<And>e d'. files d' = files d \<Longrightarrow> Q (Inl e) d'"
    "\<And>text d'. print_json H (JObject m) = Inr text \<Longrightarrow> files d' = (files d)(p \<mapsto> text) \<Longrightarrow> Q (Inr ()) d'"
  shows "ends_in (write_json_object H p m) d Q" "ends_in (claude_write H p m) d Q"
  unfolding write_json_object_def claude_write_def
  by (auto intro!: ends_intros assms split: option.split sum.split)

lemma ends_create_parent: "(\<And>r d'. files d' = files d \<Longrightarrow> Q r d') \<Longrightarrow> ends_in (create_parent p) d Q"
  unfolding create_parent_def by (auto intro!: ends_intros split: option.split)

text \<open>What is written for settings \<open>cfg\<close>.\<close>

definition settings_written :: "'f host \<Rightarrow> HookSurface \<Rightarrow> path \<Rightarrow> ustr \<Rightarrow> ustr option \<Rightarrow> ustr option \<Rightarrow> bool" where
  "settings_written H s p bin old new \<longleftrightarrow> (\<exists>cfg cfg' text. loads H old cfg \<and> merge_config s p bin cfg = Inr cfg'
     \<and> print_json H (JObject cfg') = Inr text \<and> new = Some text)"

definition user_text_kept :: "ustr option \<Rightarrow> ustr option \<Rightarrow> bool" where
  "user_text_kept old new \<longleftrightarrow> (\<forall>t. old = Some t \<longrightarrow> (\<exists>t'. new = Some (t @ t')))"

definition install_safe :: "'f host \<Rightarrow> HookSurface \<Rightarrow> path \<Rightarrow> path \<Rightarrow> ustr \<Rightarrow> bool \<Rightarrow> file_system \<Rightarrow> ustr + unit \<Rightarrow> file_system \<Rightarrow> bool" where
  "install_safe H s p aux bin dry d r d' \<longleftrightarrow> (\<forall>q. q \<noteq> p \<and> q \<noteq> aux \<longrightarrow> files d' q = files d q)
     \<and> (files d' p = files d p \<or> settings_written H s p bin (files d p) (files d' p))
     \<and> user_text_kept (files d aux) (files d' aux)
     \<and> (dry \<and> s \<noteq> Claude \<or> (s \<in> {Claude, Codex, Cursor} \<and> (\<exists>e. r = Inl e)) \<longrightarrow> files d' = files d)"

lemma install_safe_same: "files d' = files d \<Longrightarrow> install_safe H s p aux bin dry d r d'"
  by (auto simp: install_safe_def user_text_kept_def intro: exI [of _ "[]"])

lemma install_safe_written:
  assumes "loads H (files d p) cfg" "merge_config s p bin cfg = Inr cfg'" "print_json H (JObject cfg') = Inr text"
    and "files d' = (files d)(p \<mapsto> text)" "p \<noteq> aux" "\<not> dry \<or> s = Claude" "s \<in> {Claude, Codex, Cursor} \<Longrightarrow> r = Inr u"
  shows "install_safe H s p aux bin dry d r d'"
proof -
  have "settings_written H s p bin (files d p) (files d' p)"
    unfolding settings_written_def using assms(1-4) by auto
  then show ?thesis using assms(4-7) by (auto simp: install_safe_def user_text_kept_def)
qed

text \<open>Writing the context file afterwards.\<close>

definition aux_extended :: "path \<Rightarrow> file_system \<Rightarrow> file_system \<Rightarrow> bool" where
  "aux_extended aux d d' \<longleftrightarrow> (\<forall>q. q \<noteq> aux \<longrightarrow> files d' q = files d q) \<and> user_text_kept (files d aux) (files d' aux)"

lemma aux_extended_refl [simp]: "files d' = files d \<Longrightarrow> aux_extended aux d d'"
  by (simp add: aux_extended_def user_text_kept_def)

lemma install_safe_aux:
  assumes "install_safe H s p aux bin dry d (Inr ()) d1" "aux_extended aux d1 d'" "p \<noteq> aux" "s \<in> {Gemini, Windsurf}" "\<not> dry"
  shows "install_safe H s p aux bin dry d r d'"
proof -
  have "user_text_kept (files d aux) (files d' aux)"
    using assms(1,2) unfolding install_safe_def aux_extended_def user_text_kept_def by (metis append_assoc)
  then show ?thesis using assms unfolding install_safe_def aux_extended_def by auto
qed

lemma ends_gemini_context: "ends_in (upsert_gemini_md_context aux) d (\<lambda>r d'. aux_extended aux d d')"
  unfolding upsert_gemini_md_context_def path_exists_def Let_def
  by (auto intro!: ends_intros simp: aux_extended_def user_text_kept_def split: sum.split option.split)

lemma ends_windsurf_context: "ends_in (write_windsurf_context_file aux) d (\<lambda>r d'. aux_extended aux d d')"
  unfolding write_windsurf_context_file_def path_exists_def
  by (auto intro!: ends_intros simp: aux_extended_def user_text_kept_def split: sum.split option.split)

lemma ends_lift_result:
  "(\<And>e. r = Inl e \<Longrightarrow> Q (Inl e) d) \<Longrightarrow> (\<And>a. r = Inr a \<Longrightarrow> Q (Inr a) d) \<Longrightarrow> ends_in (lift_result r) d Q"
  unfolding lift_result_def by (auto intro!: ends_intros split: sum.split)

lemma if_swap: "(if P then x else y) = (if \<not> P then y else x)"
  by simp

lemma map_sum_Inr: "map_sum f g x = Inr y \<longleftrightarrow> (\<exists>a. x = Inr a \<and> y = g a)"
  by (cases x) auto

text \<open>The common course of the merges: load, change, write unless this is a dry run, then the rest.\<close>

lemma ends_merge:
  assumes "p \<noteq> aux" and "\<And>cfg cfg' a. merge cfg = Inr (cfg', a) \<Longrightarrow> merge_config s p bin cfg = Inr cfg'"
    and same: "files d0 = files d"
    and rest: "\<And>a d1. install_safe H s p aux bin dry d (Inr ()) d1 \<Longrightarrow> \<not> skips a
      \<Longrightarrow> ends_in (rest a) d1 (\<lambda>r d'. install_safe H s p aux bin dry d (map_sum id (\<lambda>_. ()) r) d')"
    and skips: "\<And>a. \<not> skips a \<Longrightarrow> \<not> dry \<or> s = Claude"
    and put: "put = write_json_object H p \<or> put = claude_write H p"
  shows "ends_in (andthen (load_json_object H p) (\<lambda>cfg. andthen (lift_result (merge cfg)) (\<lambda>(cfg', a).
      if skips a then ret a else andthen (put cfg') (\<lambda>_. rest a)))) d0
    (\<lambda>r d'. install_safe H s p aux bin dry d (map_sum id (\<lambda>_. ()) r) d')"
proof -
  have step: "ends_in (if skips a then ret a else andthen (put cfg') (\<lambda>_. rest a)) d0
    (\<lambda>r d'. install_safe H s p aux bin dry d (map_sum id (\<lambda>_. ()) r) d')"
    if cfg: "loads H (files d p) cfg" and merge: "merge cfg = Inr (cfg', a)" for cfg cfg' a
  proof (cases "skips a")
    case True
    then show ?thesis by (auto intro!: ends_intros install_safe_same simp: same)
  next
    case False
    have written: "install_safe H s p aux bin dry d (Inr ()) d'"
      if "print_json H (JObject cfg') = Inr t" "files d' = (files d)(p \<mapsto> t)" for t d'
      by (rule install_safe_written [OF cfg assms(2) [OF merge] that(1) that(2) assms(1) skips [OF False]]) simp
    have "ends_in (put cfg') d0 (\<lambda>r d'. case r of Inl e \<Rightarrow> files d' = files d0 | Inr _ \<Rightarrow> install_safe H s p aux bin dry d (Inr ()) d')"
      using put by (auto intro!: ends_write_json intro: written simp: same)
    then have "ends_in (andthen (put cfg') (\<lambda>_. rest a)) d0 (\<lambda>r d'. install_safe H s p aux bin dry d (map_sum id (\<lambda>_. ()) r) d')"
      by (intro ends_andthen, elim ends_mono) (auto intro: rest [OF _ False] install_safe_same simp: same split: sum.splits)
    with False show ?thesis by simp
  qed
  show ?thesis
    by (intro ends_andthen ends_load ends_lift_result)
      (auto intro!: ends_andthen ends_lift_result intro: step simp: install_safe_same same split del: if_split)
qed

lemma ends_drop_result:
  "ends_in m d (\<lambda>r d'. Q (map_sum id (\<lambda>_. ()) r) d') \<Longrightarrow> ends_in (andthen m (\<lambda>_. ret ())) d Q"
  by (intro ends_andthen, elim ends_mono) (auto intro: ends_intros split: sum.splits)

text \<open>
  An installation changes no file but the settings and, for Gemini and Windsurf, the context file, where
  the text of the user stays at the front. The settings are either as before or the printed result of merging
  into what the file held. A dry run writes nothing, and with Claude Code, Codex and Cursor neither does an
  installation that fails, whichever call fails.
\<close>

theorem install_touches_only_settings:
  assumes "p \<noteq> aux" and "merge_hooks H s p aux bin dry w = (r, w')"
  shows "install_safe H s p aux bin dry (db w) r (db w')"
proof -
  let ?safe = "\<lambda>r d'. install_safe H s p aux bin dry (db w) (map_sum id (\<lambda>_. ()) r) d'"
  have "ends_in (merge_hooks H s p aux bin dry) (db w) (\<lambda>r d'. install_safe H s p aux bin dry (db w) r d')"
  proof (cases s)
    case Claude
    have "ends_in (merge_claude_code_hooks H p bin) (db w) ?safe"
      unfolding merge_claude_code_hooks_def if_swap [of "0 < _"] Claude
      by (intro ends_andthen ends_create_parent)
        (auto intro!: ends_merge [where skips = "\<lambda>n. n = 0"] ends_ret simp: assms(1) install_safe_same split: sum.split)
    with Claude show ?thesis by (simp add: ends_drop_result)
  next
    case Codex
    have "ends_in (merge_codex_hooks H p bin dry) (db w) ?safe"
      unfolding merge_codex_hooks_def Codex
      by (intro ends_andthen ends_create_parent)
        (auto intro!: ends_merge [where skips = "\<lambda>_. dry"] ends_ret simp: assms(1) install_safe_same split: sum.split)
    with Codex show ?thesis by (simp add: ends_drop_result)
  next
    case Cursor
    have "ends_in (merge_cursor_hooks H p bin dry) (db w) ?safe"
      unfolding merge_cursor_hooks_def Cursor
      by (rule ends_merge [where skips = "\<lambda>_. dry"]) (auto intro!: ends_ret simp: assms(1))
    with Cursor show ?thesis by (simp add: ends_drop_result)
  next
    case Gemini
    have "ends_in (merge_gemini_cli_hooks H p aux bin dry) (db w) ?safe"
      unfolding merge_gemini_cli_hooks_def Gemini
    proof (rule ends_merge [where skips = "\<lambda>_. dry"])
      fix a :: bool and d1 assume safe: "install_safe H Gemini p aux bin dry (db w) (Inr ()) d1" and live: "\<not> dry"
      have aux: "install_safe H Gemini p aux bin dry (db w) r d'" if "aux_extended aux d1 d'" for r d'
        by (rule install_safe_aux [OF safe that assms(1)]) (simp_all add: live)
      show "ends_in (andthen (upsert_gemini_md_context aux) (\<lambda>_. ret a)) d1
          (\<lambda>r d'. install_safe H Gemini p aux bin dry (db w) (map_sum id (\<lambda>_. ()) r) d')"
        by (intro ends_andthen ends_mono [OF ends_gemini_context]) (auto intro!: ends_ret aux split: sum.split)
    qed (auto simp: assms(1))
    with Gemini show ?thesis by (simp add: ends_drop_result)
  next
    case Windsurf
    have "ends_in (merge_windsurf_hooks H p aux bin dry) (db w) ?safe"
      unfolding merge_windsurf_hooks_def Windsurf
    proof (rule ends_merge [where skips = "\<lambda>_. dry"])
      fix a :: bool and d1 assume safe: "install_safe H Windsurf p aux bin dry (db w) (Inr ()) d1" and live: "\<not> dry"
      have aux: "install_safe H Windsurf p aux bin dry (db w) r d'" if "aux_extended aux d1 d'" for r d'
        by (rule install_safe_aux [OF safe that assms(1)]) (simp_all add: live)
      show "ends_in (andthen (write_windsurf_context_file aux) (\<lambda>_. ret a)) d1
          (\<lambda>r d'. install_safe H Windsurf p aux bin dry (db w) (map_sum id (\<lambda>_. ()) r) d')"
        by (intro ends_andthen ends_mono [OF ends_windsurf_context]) (auto intro!: ends_ret aux split: sum.split)
    qed (auto simp: assms(1))
    with Windsurf show ?thesis by (simp add: ends_drop_result)
  qed
  from endsD [OF this assms(2)] show ?thesis .
qed

section \<open>Examples\<close>

text \<open>Settings with a theme and a hook of the user.\<close>

definition user_group :: "nat json" where
  "user_group = JObject [(lit ''hooks'', JArray [JObject [(lit ''command'', JString (lit ''npm test''))]]), (lit ''matcher'', JString (lit ''Edit''))]"

definition demo_settings :: "nat obj" where
  "demo_settings = [(lit ''hooks'', JObject [(lit ''PostToolUse'', JArray [user_group])]), (lit ''theme'', JString (lit ''dark''))]"

definition demo_bin :: ustr where "demo_bin = lit ''/opt/difflore/bin/difflore''"

lemma demo_settings_wf: "settings_wf demo_settings"
  by code_simp

lemma demo_merge: "\<exists>cfg'. merge_config Claude [] demo_bin demo_settings = Inr cfg'"
proof -
  have "case merge_config Claude [] demo_bin demo_settings of Inr _ \<Rightarrow> True | Inl _ \<Rightarrow> False" by code_simp
  then show ?thesis by (auto split: sum.splits)
qed

lemma demo_user_entries: "user_entries Claude demo_settings (lit ''PostToolUse'') = [user_group]"
  by code_simp

theorem hook_install_exact_witness:
  "\<exists>cfg'. merge_config Claude [] demo_bin demo_settings = Inr cfg'
     \<and> user_entries Claude cfg' (lit ''PostToolUse'') = [user_group] \<and> map_of cfg' (lit ''theme'') = Some (JString (lit ''dark''))"
proof -
  from demo_merge obtain cfg' where m: "merge_config Claude [] demo_bin demo_settings = Inr cfg'" by blast
  have t: "map_of demo_settings (lit ''theme'') = Some (JString (lit ''dark''))" "lit ''theme'' \<noteq> lit ''hooks''" by code_simp+
  from hook_install_exact [OF demo_settings_wf m] m t demo_user_entries show ?thesis by simp
qed

theorem hook_reinstall_changes_nothing_witness:
  "\<exists>cfg'. merge_config Claude [] demo_bin demo_settings = Inr cfg' \<and> claude_merge [] demo_bin cfg' = Inr (cfg', 0)"
proof -
  from demo_merge obtain cfg' where m: "merge_config Claude [] demo_bin demo_settings = Inr cfg'" by blast
  from hook_reinstall_changes_nothing [OF demo_settings_wf m] m show ?thesis by simp
qed

theorem hook_removal_exact_witness:
  "\<exists>cfg' n. remove_config Cursor demo_settings = Some (cfg', n) \<and> n = 0"
proof -
  have "case remove_config Cursor demo_settings of Some _ \<Rightarrow> True | None \<Rightarrow> False" by code_simp
  then obtain cfg' n where r: "remove_config Cursor demo_settings = Some (cfg', n)" by (auto split: option.splits)
  have none: "\<forall>e. our_entries Cursor demo_settings e = []"
  proof
    fix e
    have "our_entries Cursor demo_settings (lit ''PostToolUse'') = []" by code_simp
    then show "our_entries Cursor demo_settings e = []"
      by (cases "e = lit ''PostToolUse''") (simp_all add: our_entries_def entries_at_def hooks_of_def demo_settings_def)
  qed
  from hook_removal_exact [OF demo_settings_wf r] none r show ?thesis by blast
qed

theorem hook_install_then_remove_witness:
  "\<exists>cfg1 cfg' n. merge_config Claude [] demo_bin demo_settings = Inr cfg1 \<and> remove_config Claude cfg1 = Some (cfg', n) \<and> 0 < n
     \<and> user_entries Claude cfg' (lit ''PostToolUse'') = [user_group]"
proof -
  from demo_merge obtain cfg1 where m: "merge_config Claude [] demo_bin demo_settings = Inr cfg1" by blast
  from hook_install_then_remove [OF demo_settings_wf m] m demo_user_entries show ?thesis by metis
qed

theorem fresh_install_matches_manifest_witness:
  "\<exists>cfg'. merge_config Claude [] demo_bin demo_settings = Inr cfg'
     \<and> hook_groups_bytes (\<lambda>_ :: nat json. []) (extract_entries (lit ''claude-code'') cfg')
        = hook_groups_bytes (\<lambda>_ :: nat json. []) (render_claude_code_hook_block demo_bin)"
proof -
  from demo_merge obtain cfg' where m: "merge_config Claude [] demo_bin demo_settings = Inr cfg'" by blast
  from fresh_install_matches_manifest [OF demo_settings_wf m] m show ?thesis by auto
qed

definition demo_host :: "nat host" where
  "demo_host = \<lparr>parse_json = (\<lambda>_. Inr (JObject demo_settings)), print_json = (\<lambda>_. Inr (lit ''{}''))\<rparr>"

definition demo_files :: "file_system world" where
  "demo_files = \<lparr>db = \<lparr>files = (\<lambda>_. None), dirs = (\<lambda>_. False)\<rparr>, clock = (\<lambda>_. 0), clock_reads = 0, sql_fault = (\<lambda>_. None), sql_calls = 0\<rparr>"

definition codex_path :: path where "codex_path = [lit ''home'', lit ''.codex'', lit ''hooks.json'']"

theorem install_touches_only_settings_witness:
  "files (db (snd (merge_hooks demo_host Codex codex_path [] demo_bin True demo_files))) = files (db demo_files)"
proof -
  have "codex_path \<noteq> []" by (simp add: codex_path_def)
  from install_touches_only_settings [OF this prod.collapse [symmetric], of demo_host Codex demo_bin True demo_files]
  show ?thesis by (simp add: install_safe_def)
qed

text \<open>
  A group in which the user put a hook of his own beside ours counts as ours as a whole: installing removes the
  hook of the user with it.
\<close>

definition inner_commands :: "'f obj \<Rightarrow> ustr list" where
  "inner_commands cfg = concat (map (\<lambda>(e, v). concat (map (\<lambda>g. case Option.bind (json_get g (lit ''hooks'')) as_array of
     Some hs \<Rightarrow> List.map_filter (\<lambda>h. get_str h (lit ''command'')) hs | None \<Rightarrow> [])
     (case v of JArray gs \<Rightarrow> gs | _ \<Rightarrow> []))) (hooks_of cfg))"

definition shared_settings :: "nat obj" where
  "shared_settings = [(lit ''hooks'', JObject [(lit ''PostToolUse'', JArray [JObject [(lit ''hooks'', JArray
     [JObject [(lit ''command'', JString (lit ''npm test''))],
      JObject [(lit ''command'', JString (hook_command_string demo_bin (lit ''claude-code'')))]])]])])]"

theorem shared_group_loses_user_hook:
  "lit ''npm test'' \<in> set (inner_commands shared_settings)
   \<and> (case merge_config Claude [] demo_bin shared_settings of
        Inr cfg' \<Rightarrow> lit ''npm test'' \<notin> set (inner_commands cfg') | Inl _ \<Rightarrow> False)"
  by code_simp

text \<open>A dry run for Codex makes the directory of the settings file.\<close>

theorem codex_dry_run_creates_directory:
  "\<not> dirs (db demo_files) (butlast codex_path)
   \<and> dirs (db (snd (merge_codex_hooks demo_host codex_path demo_bin True demo_files))) (butlast codex_path)"
  by code_simp

end
