(* ===== verification/Mcp_Config.thy ===== *)
theory Mcp_Config
  imports Hook_Laws
begin

text \<open>
  The entry of DiffLore in the JSON settings of an agent (\<^verbatim>\<open>installer/json_config.rs\<close>) and the probe that
  reads it back (\<^verbatim>\<open>probe_json_install\<close> of \<^verbatim>\<open>installer/common.rs\<close>): merging, removing, checking, with what
  they keep and how the three agree.
\<close>

section \<open>The entry\<close>

datatype McpEntryShape = Standard | StdioTyped | Opencode

definition MCP_SERVER_ARG :: ustr where "MCP_SERVER_ARG = lit ''mcp-server''"

fun render_mcp_json_block :: "ustr \<Rightarrow> McpEntryShape \<Rightarrow> 'f json" where
  "render_mcp_json_block bin Standard =
     json_object [(lit ''command'', JString bin), (lit ''args'', JArray [JString MCP_SERVER_ARG])]"
| "render_mcp_json_block bin StdioTyped =
     json_object [(lit ''type'', JString (lit ''stdio'')), (lit ''command'', JString bin), (lit ''args'', JArray [JString MCP_SERVER_ARG])]"
| "render_mcp_json_block bin Opencode =
     json_object [(lit ''type'', JString (lit ''local'')), (lit ''command'', JArray [JString bin, JString MCP_SERVER_ARG]),
       (lit ''enabled'', JBool True)]"

text \<open>
  The merge makes the map of servers if it is missing. When the key holds something else than an object,
  nothing is inserted and the answer is that no entry existed.
\<close>

definition merge_difflore_entry_with_key :: "ustr \<Rightarrow> ustr \<Rightarrow> McpEntryShape \<Rightarrow> 'f obj \<Rightarrow> 'f obj \<times> bool" where
  "merge_difflore_entry_with_key bin servers_key shape cfg =
     (let cfg1 = obj_entry servers_key (JObject []) cfg in
      case map_of cfg1 servers_key of
        Some (JObject servers) \<Rightarrow>
          (obj_update servers_key (\<lambda>_. JObject (obj_insert (lit ''difflore'') (render_mcp_json_block bin shape) servers)) cfg1,
           map_of servers (lit ''difflore'') \<noteq> None)
      | _ \<Rightarrow> (cfg1, False))"

definition remove_difflore_entry_with_key :: "ustr \<Rightarrow> 'f obj \<Rightarrow> 'f obj \<times> bool" where
  "remove_difflore_entry_with_key servers_key cfg =
     (case map_of cfg servers_key of
        Some (JObject servers) \<Rightarrow>
          (let servers' = obj_remove (lit ''difflore'') servers in
           (if servers' = [] then obj_remove servers_key cfg else obj_update servers_key (\<lambda>_. JObject servers') cfg,
            map_of servers (lit ''difflore'') \<noteq> None))
      | _ \<Rightarrow> (cfg, False))"

definition difflore_entry :: "ustr \<Rightarrow> 'f obj \<Rightarrow> 'f json option" where
  "difflore_entry servers_key cfg =
     Option.bind (Option.bind (map_of cfg servers_key) as_object) (\<lambda>servers. map_of servers (lit ''difflore''))"

section \<open>Operations on the file\<close>

definition install_json_config_at :: "'f host \<Rightarrow> path \<Rightarrow> ustr \<Rightarrow> ustr \<Rightarrow> McpEntryShape \<Rightarrow> bool \<Rightarrow> bool fs" where
  "install_json_config_at H p bin servers_key shape dry_run =
     andthen (load_json_object H p) (\<lambda>cfg.
       let (cfg', existed) = merge_difflore_entry_with_key bin servers_key shape cfg in
       if dry_run then ret existed else andthen (write_json_object H p cfg') (\<lambda>_. ret existed))"

definition uninstall_json_config_at :: "'f host \<Rightarrow> path \<Rightarrow> ustr \<Rightarrow> bool \<Rightarrow> bool fs" where
  "uninstall_json_config_at H p servers_key dry_run = andthen (path_exists p) (\<lambda>e.
     if \<not> e then ret False
     else andthen (load_json_object H p) (\<lambda>cfg.
       let (cfg', removed) = remove_difflore_entry_with_key servers_key cfg in
       if removed \<and> \<not> dry_run then andthen (write_json_object H p cfg') (\<lambda>_. ret removed) else ret removed))"

definition extract_mcp_json_block :: "'f host \<Rightarrow> path \<Rightarrow> ustr \<Rightarrow> 'f json option fs" where
  "extract_mcp_json_block H p servers_key = andthen (path_exists p) (\<lambda>e.
     if \<not> e then ret None
     else andthen (attempt (load_json_object H p)) (\<lambda>r.
       ret (case r of Inl _ \<Rightarrow> None | Inr cfg \<Rightarrow> difflore_entry servers_key cfg)))"

definition public_config_path :: "ustr \<Rightarrow> path \<Rightarrow> ustr" where
  "public_config_path name p =
     (case map_of (map (map_prod lit lit)
         [(''Copilot CLI'', ''~/.copilot/mcp-config.json''), (''Antigravity'', ''~/.gemini/antigravity/mcp_config.json''),
          (''Crush'', ''~/.config/crush/crush.json''), (''Roo Code'', ''./.roo/mcp.json''), (''Warp'', ''~/.warp/.mcp.json''),
          (''OpenCode'', ''~/.config/opencode/opencode.json'')]) name of
        Some label \<Rightarrow> label | None \<Rightarrow> display_path p)"

definition finish_json_uninstall :: "'f host \<Rightarrow> ustr \<Rightarrow> path \<Rightarrow> ustr \<Rightarrow> bool \<Rightarrow> TargetOutcome fs" where
  "finish_json_uninstall H name p servers_key dry_run =
     andthen (attempt (uninstall_json_config_at H p servers_key dry_run)) (\<lambda>r. ret (case r of
       Inr True \<Rightarrow> \<lparr>to_name = name, to_status = Removed,
         to_detail = (if dry_run then lit ''would remove difflore from: '' else []) @ public_config_path name p\<rparr>
     | Inr False \<Rightarrow> \<lparr>to_name = name, to_status = Skipped (lit ''no difflore entry to remove''), to_detail = []\<rparr>
     | Inl e \<Rightarrow> \<lparr>to_name = name, to_status = Error e, to_detail = []\<rparr>))"

definition finish_json_install :: "'f host \<Rightarrow> ustr \<Rightarrow> path \<Rightarrow> ustr \<Rightarrow> ustr \<Rightarrow> McpEntryShape \<Rightarrow> bool \<Rightarrow> TargetOutcome fs" where
  "finish_json_install H name p bin servers_key shape dry_run =
     andthen (attempt (install_json_config_at H p bin servers_key shape dry_run)) (\<lambda>r. ret (case r of
       Inr existed \<Rightarrow> \<lparr>to_name = name, to_status = (if existed then Updated else Installed),
         to_detail = (if dry_run then lit ''would write: '' else []) @ public_config_path name p\<rparr>
     | Inl e \<Rightarrow> \<lparr>to_name = name, to_status = Error e, to_detail = []\<rparr>))"

section \<open>The probe\<close>

text \<open>\<open>canonical\<close>: the canonical form of a path on this machine, if it exists.\<close>

definition unquote_cli_value :: "ustr \<Rightarrow> ustr" where
  "unquote_cli_value value = trim (trim_matches 39 (trim_matches 34 (trim value)))"

definition cli_command_matches :: "(ustr \<Rightarrow> ustr option) \<Rightarrow> ustr \<Rightarrow> ustr \<Rightarrow> bool" where
  "cli_command_matches canonical actual expected =
     (let a = unquote_cli_value actual; e = unquote_cli_value expected in
      a = e \<or> (case (canonical a, canonical e) of (Some x, Some y) \<Rightarrow> x = y | _ \<Rightarrow> False))"

definition is_str :: "ustr \<Rightarrow> 'f json option \<Rightarrow> bool" where
  "is_str s v \<longleftrightarrow> Option.bind v as_str = Some s"

definition command_matches :: "(ustr \<Rightarrow> ustr option) \<Rightarrow> ustr \<Rightarrow> 'f json option \<Rightarrow> bool" where
  "command_matches canonical expected v =
     (case Option.bind v as_str of Some cmd \<Rightarrow> cli_command_matches canonical cmd expected | None \<Rightarrow> False)"

definition args_match :: "'f obj \<Rightarrow> bool" where
  "args_match m \<longleftrightarrow> (case Option.bind (map_of m (lit ''args'')) as_array of
     Some args \<Rightarrow> length args = 1 \<and> is_str MCP_SERVER_ARG (Some (hd args)) | None \<Rightarrow> False)"

fun mcp_json_entry_matches :: "(ustr \<Rightarrow> ustr option) \<Rightarrow> 'f obj \<Rightarrow> ustr \<Rightarrow> McpEntryShape \<Rightarrow> bool" where
  "mcp_json_entry_matches canonical m expected Standard
     \<longleftrightarrow> command_matches canonical expected (map_of m (lit ''command'')) \<and> args_match m"
| "mcp_json_entry_matches canonical m expected StdioTyped
     \<longleftrightarrow> command_matches canonical expected (map_of m (lit ''command'')) \<and> args_match m
       \<and> is_str (lit ''stdio'') (map_of m (lit ''type''))"
| "mcp_json_entry_matches canonical m expected Opencode
     \<longleftrightarrow> (case Option.bind (map_of m (lit ''command'')) as_array of
          None \<Rightarrow> False
        | Some command \<Rightarrow>
            command_matches canonical expected (case command of [] \<Rightarrow> None | c # _ \<Rightarrow> Some c)
            \<and> (length command = 2 \<and> is_str MCP_SERVER_ARG (Some (command ! 1)))
            \<and> is_str (lit ''local'') (map_of m (lit ''type'')) \<and> map_of m (lit ''enabled'') = Some (JBool True))"

text \<open>\<open>shown\<close>: \<^verbatim>\<open>to_string\<close> of a value, on one line.\<close>

definition shown_or_missing :: "('f json \<Rightarrow> ustr) \<Rightarrow> 'f obj \<Rightarrow> ustr \<Rightarrow> ustr" where
  "shown_or_missing shown m k = (case map_of m k of Some v \<Rightarrow> shown v | None \<Rightarrow> lit ''(missing)'')"

fun mcp_json_entry_detail :: "('f json \<Rightarrow> ustr) \<Rightarrow> 'f obj \<Rightarrow> McpEntryShape \<Rightarrow> ustr" where
  "mcp_json_entry_detail shown m Standard =
     lit ''command='' @ (case Option.bind (map_of m (lit ''command'')) as_str of Some c \<Rightarrow> c | None \<Rightarrow> lit ''(missing)'')
     @ lit '', args='' @ shown_or_missing shown m (lit ''args'')"
| "mcp_json_entry_detail shown m StdioTyped =
     lit ''type='' @ shown_or_missing shown m (lit ''type'')
     @ lit '', command='' @ (case Option.bind (map_of m (lit ''command'')) as_str of Some c \<Rightarrow> c | None \<Rightarrow> lit ''(missing)'')
     @ lit '', args='' @ shown_or_missing shown m (lit ''args'')"
| "mcp_json_entry_detail shown m Opencode =
     lit ''type='' @ shown_or_missing shown m (lit ''type'') @ lit '', command='' @ shown_or_missing shown m (lit ''command'')
     @ lit '', enabled='' @ shown_or_missing shown m (lit ''enabled'')"

definition probe_json_install :: "'f host \<Rightarrow> (ustr \<Rightarrow> ustr option) \<Rightarrow> ('f json \<Rightarrow> ustr) \<Rightarrow> ustr \<Rightarrow> path \<Rightarrow> ustr \<Rightarrow> ustr \<Rightarrow> McpEntryShape \<Rightarrow> TargetStatus fs" where
  "probe_json_install H canonical shown name p servers_key expected shape =
     (let status = (\<lambda>d s m. \<lparr>ts_name = name, ts_detected = d, ts_state = s, ts_detail = Some m\<rparr>) in
      andthen (path_exists p) (\<lambda>e.
      if \<not> e then ret (status False NotInstalled (display_path p @ lit '' not found''))
      else andthen (attempt (load_json_object H p)) (\<lambda>r. ret (case r of
        Inl m \<Rightarrow> status True (if str_contains m (lit ''invalid JSON'') \<or> str_contains m (lit ''not a JSON object'')
                               then Conflict else UnknownState) m
      | Inr cfg \<Rightarrow>
          (case Option.bind (map_of cfg servers_key) as_object of
             None \<Rightarrow> status True NotInstalled (servers_key @ lit '' block not present'')
           | Some servers \<Rightarrow>
               (case map_of servers (lit ''difflore'') of
                  None \<Rightarrow> status True NotInstalled (display_path p @ lit '' has no difflore entry'')
                | Some entry \<Rightarrow>
                    (case as_object entry of
                       None \<Rightarrow> status True Conflict (display_path p @ lit '': difflore entry is not an object'')
                     | Some m \<Rightarrow>
                         if mcp_json_entry_matches canonical m expected shape
                         then status True InstalledState (display_path p)
                         else status True Conflict (display_path p @ lit '': difflore entry drifted (''
                                @ mcp_json_entry_detail shown m shape @ lit '')''))))))))"

section \<open>Laws\<close>

lemma json_object_eq: "json_object kvs = JObject (fold (\<lambda>(k, v). obj_insert k v) kvs [])"
  by (simp add: json_object_def)

lemma rendered_is_object: "\<exists>m. render_mcp_json_block bin shape = JObject m"
  by (cases shape) (simp_all add: json_object_def)

lemma obj_entry_object:
  "map_of (obj_entry k (JObject []) cfg) k = Some v \<longleftrightarrow> (case map_of cfg k of None \<Rightarrow> v = JObject [] | Some x \<Rightarrow> x = v)"
  by (auto split: option.splits)

text \<open>The servers of the settings, when the key holds an object or nothing.\<close>

definition servers_of :: "ustr \<Rightarrow> 'f obj \<Rightarrow> 'f obj option" where
  "servers_of servers_key cfg = (case map_of cfg servers_key of None \<Rightarrow> Some [] | Some v \<Rightarrow> as_object v)"

lemma merge_entry_object:
  assumes "servers_of servers_key cfg = Some servers"
  shows "merge_difflore_entry_with_key bin servers_key shape cfg
     = (obj_update servers_key (\<lambda>_. JObject (obj_insert (lit ''difflore'') (render_mcp_json_block bin shape) servers))
          (obj_entry servers_key (JObject []) cfg),
        map_of servers (lit ''difflore'') \<noteq> None)"
  using assms by (auto simp: servers_of_def merge_difflore_entry_with_key_def Let_def as_object_Some split: option.splits)

lemma merge_entry_other:
  assumes "servers_of servers_key cfg = None"
  shows "merge_difflore_entry_with_key bin servers_key shape cfg = (cfg, False)"
proof -
  obtain v where v: "map_of cfg servers_key = Some v" "as_object v = None"
    using assms by (auto simp: servers_of_def split: option.splits)
  then have "obj_entry servers_key (JObject []) cfg = cfg" by (simp add: obj_entry_def)
  with v show ?thesis by (cases v) (auto simp: merge_difflore_entry_with_key_def Let_def)
qed

lemma matches_itself: "command_matches canonical bin (Some (JString bin))"
  by (simp add: command_matches_def cli_command_matches_def Let_def)

lemma rendered_matches:
  "render_mcp_json_block bin shape = JObject m \<Longrightarrow> mcp_json_entry_matches canonical m bin shape"
proof (cases shape)
  case Standard
  then show "render_mcp_json_block bin shape = JObject m \<Longrightarrow> ?thesis"
    by (auto simp: json_object_def matches_itself args_match_def is_str_def lit_def)
next
  case StdioTyped
  then show "render_mcp_json_block bin shape = JObject m \<Longrightarrow> ?thesis"
    by (auto simp: json_object_def matches_itself args_match_def is_str_def lit_def)
next
  case Opencode
  then show "render_mcp_json_block bin shape = JObject m \<Longrightarrow> ?thesis"
    by (auto simp: json_object_def matches_itself is_str_def lit_def)
qed

lemma obj_insert_again [simp]: "obj_insert k v (obj_insert k v m) = obj_insert k v m"
proof (induction m)
  case Nil
  show ?case by (simp add: obj_insert.simps cmp_str_iff split: ordering.split)
next
  case (Cons e m)
  have "cmp_str k k = Equal" by (simp add: cmp_str_iff)
  with Cons show ?case by (cases e) (auto simp: obj_insert.simps split: ordering.split)
qed

lemma obj_remove_insert: "map_of m k = None \<Longrightarrow> obj_remove k (obj_insert k v m) = m"
proof (induction m)
  case (Cons e m)
  obtain k' v' where e: "e = (k', v')" by (cases e)
  with Cons have ne: "k' \<noteq> k" and m: "map_of m k = None" by (auto split: if_splits)
  then have "cmp_str k k' \<noteq> Equal" by (simp add: cmp_str_iff)
  moreover have "obj_remove k m = m" using m by (auto simp: obj_remove_def map_of_eq_None_iff filter_id_conv)
  ultimately show ?case using Cons.IH [OF m] e ne by (auto simp: obj_remove_def obj_insert.simps split: ordering.split)
qed (simp add: obj_remove_def obj_insert.simps)

lemma obj_update_twice: "obj_update k (\<lambda>_. b) (obj_update k (\<lambda>_. a) m) = obj_update k (\<lambda>_. b) m"
  by (auto simp: obj_update_def)

lemma obj_entry_present: "map_of m k \<noteq> None \<Longrightarrow> obj_entry k v m = m"
  by (auto simp: obj_entry_def)

text \<open>
  C30. Merging into settings whose key holds servers, or is missing: the entry of DiffLore is the rendered one,
  which the probe accepts for the same command; every other server and every other key keeps its value; the
  answer tells whether there was an entry; merging again changes nothing.
\<close>

theorem mcp_entry_merge_exact:
  fixes cfg :: "'a obj"
  assumes "servers_of servers_key cfg = Some servers"
    and "merge_difflore_entry_with_key bin servers_key shape cfg = (cfg', existed)"
  shows "difflore_entry servers_key cfg' = Some (render_mcp_json_block bin shape)
    \<and> (\<exists>m. difflore_entry servers_key cfg' = Some (JObject m) \<and> mcp_json_entry_matches canonical m bin shape)
    \<and> (\<exists>servers'. servers_of servers_key cfg' = Some servers' \<and> (\<forall>k. k \<noteq> lit ''difflore'' \<longrightarrow> map_of servers' k = map_of servers k))
    \<and> (\<forall>k. k \<noteq> servers_key \<longrightarrow> map_of cfg' k = map_of cfg k)
    \<and> existed = (difflore_entry servers_key cfg \<noteq> None)
    \<and> merge_difflore_entry_with_key bin servers_key shape cfg' = (cfg', True)"
proof -
  let ?r = "render_mcp_json_block bin shape" and ?c = "obj_entry servers_key (JObject []) cfg"
  let ?s = "obj_insert (lit ''difflore'') ?r servers"
  have cfg': "cfg' = obj_update servers_key (\<lambda>_. JObject ?s) ?c" and existed: "existed = (map_of servers (lit ''difflore'') \<noteq> None)"
    using merge_entry_object [OF assms(1), of bin shape] assms(2) by auto
  have at: "map_of cfg' servers_key = Some (JObject ?s)"
    by (auto simp: cfg' split: option.split)
  then have servers': "servers_of servers_key cfg' = Some ?s" by (simp add: servers_of_def)
  have entry: "difflore_entry servers_key cfg' = Some ?r" by (simp add: difflore_entry_def at)
  obtain m :: "'a obj" where m: "?r = JObject m" using rendered_is_object by blast
  have "?c = ?c \<and> obj_entry servers_key (JObject []) cfg' = cfg'" using at by (simp add: obj_entry_present)
  then have again: "merge_difflore_entry_with_key bin servers_key shape cfg' = (cfg', True)"
    using merge_entry_object [OF servers', of bin shape] by (simp add: cfg' obj_update_twice)
  have old: "difflore_entry servers_key cfg = map_of servers (lit ''difflore'')"
    using assms(1) by (auto simp: difflore_entry_def servers_of_def split: option.splits)
  show ?thesis
  proof (intro conjI)
    show "\<exists>m. difflore_entry servers_key cfg' = Some (JObject m) \<and> mcp_json_entry_matches canonical m bin shape"
      using entry rendered_matches [OF m] unfolding m by blast
    show "\<exists>servers'. servers_of servers_key cfg' = Some servers' \<and> (\<forall>k. k \<noteq> lit ''difflore'' \<longrightarrow> map_of servers' k = map_of servers k)"
      using servers' by simp
    show "\<forall>k. k \<noteq> servers_key \<longrightarrow> map_of cfg' k = map_of cfg k"
      by (simp add: cfg' split: option.split)
  qed (use entry existed old again in simp_all)
qed

theorem mcp_entry_merge_exact_witness:
  "difflore_entry (lit ''mcpServers'') (fst (merge_difflore_entry_with_key (lit ''d'') (lit ''mcpServers'') Standard ([] :: unit obj)))
     = Some (render_mcp_json_block (lit ''d'') Standard)"
proof -
  have "servers_of (lit ''mcpServers'') ([] :: unit obj) = Some []" by (simp add: servers_of_def)
  from mcp_entry_merge_exact [OF this surjective_pairing] show ?thesis by blast
qed

text \<open>
  An installation that added the first entry of DiffLore is undone by the removal, down to the text of the
  settings, unless the settings held an empty map of servers, which the removal drops.
\<close>

theorem mcp_install_then_remove:
  assumes "sorted_obj cfg" and "servers_of servers_key cfg = Some servers" and "map_of servers (lit ''difflore'') = None"
    and "servers = [] \<longrightarrow> map_of cfg servers_key = None"
  shows "remove_difflore_entry_with_key servers_key (fst (merge_difflore_entry_with_key bin servers_key shape cfg)) = (cfg, True)"
proof -
  let ?r = "render_mcp_json_block bin shape" and ?c = "obj_entry servers_key (JObject []) cfg"
  let ?s = "obj_insert (lit ''difflore'') ?r servers" and ?u = "\<lambda>x. obj_update servers_key (\<lambda>_. JObject x) ?c"
  have merged: "fst (merge_difflore_entry_with_key bin servers_key shape cfg) = ?u ?s"
    by (simp add: merge_entry_object [OF assms(2)])
  have at: "map_of (?u ?s) servers_key = Some (JObject ?s)" by (auto split: option.split)
  have removed: "obj_remove (lit ''difflore'') ?s = servers" using assms(3) by (rule obj_remove_insert)
  have result: "remove_difflore_entry_with_key servers_key (?u ?s)
      = (if servers = [] then obj_remove servers_key (?u ?s) else ?u servers, True)"
    unfolding remove_difflore_entry_with_key_def at by (simp add: removed Let_def obj_update_twice)
  show ?thesis
  proof (cases "servers = []")
    case True
    then have none: "map_of cfg servers_key = None" using assms(4) by simp
    have "obj_remove servers_key (obj_update servers_key f x) = obj_remove servers_key x" for f and x :: "'a obj"
      by (induction x) (auto simp: obj_remove_def obj_update_def)
    then have "obj_remove servers_key (?u ?s) = cfg"
      using none obj_remove_insert [OF none] by (simp add: obj_entry_def)
    with True result merged show ?thesis by simp
  next
    case False
    then have cfg: "map_of cfg servers_key = Some (JObject servers)"
      using assms(2) by (auto simp: servers_of_def as_object_Some split: option.splits)
    then have "?c = cfg" by (simp add: obj_entry_def)
    moreover have "?u servers = cfg"
      using sorted_obj_eqI [of "?u servers" cfg] assms(1) cfg \<open>?c = cfg\<close> by (simp add: fun_upd_idem)
    ultimately show ?thesis using False result merged by simp
  qed
qed

theorem mcp_install_then_remove_witness:
  "remove_difflore_entry_with_key (lit ''mcpServers'')
     (fst (merge_difflore_entry_with_key (lit ''d'') (lit ''mcpServers'') StdioTyped ([(lit ''theme'', JNull)] :: unit obj)))
   = ([(lit ''theme'', JNull)], True)"
proof -
  have "sorted_obj ([(lit ''theme'', JNull)] :: unit obj)" by (simp add: sorted_obj_def)
  moreover have "servers_of (lit ''mcpServers'') ([(lit ''theme'', JNull)] :: unit obj) = Some []" by code_simp
  ultimately show ?thesis by (rule mcp_install_then_remove) code_simp+
qed

text \<open>
  Settings whose key holds something else than an object are written back as they were, and the outcome is still
  that of an installation.
\<close>

definition odd_host :: "nat host" where
  "odd_host = demo_host\<lparr>parse_json := (\<lambda>_. Inr (JObject [(lit ''mcpServers'', JNull)])),
     print_json := (\<lambda>v. Inr (if v = JObject [(lit ''mcpServers'', JNull)] then lit ''same'' else lit ''changed''))\<rparr>"

definition odd_files :: "file_system world" where
  "odd_files = demo_files\<lparr>db := \<lparr>files = (\<lambda>p. Some (lit ''same'')), dirs = (\<lambda>_. True)\<rparr>\<rparr>"

theorem odd_servers_reported_installed:
  "case finish_json_install odd_host (lit ''Cursor'') codex_path (lit ''d'') (lit ''mcpServers'') Standard False odd_files of
     (Inr out, w) \<Rightarrow> to_status out = Installed \<and> files (db w) codex_path = Some (lit ''same'')
   | _ \<Rightarrow> False"
  by code_simp

end
