(* ===== verification/Goose_Yaml.thy ===== *)
theory Goose_Yaml
  imports Hook_Install
begin

text \<open>
  The YAML settings of Goose (\<^verbatim>\<open>installer/goose_yaml.rs\<close>), edited line by line: adding, replacing,
  removing and reading back the block of DiffLore under the top-level \<^verbatim>\<open>mcpServers:\<close>.
\<close>

section \<open>Lines\<close>

text \<open>\<^verbatim>\<open>split_inclusive('\n')\<close>.\<close>

fun split_inclusive :: "ustr \<Rightarrow> ustr list" where
  "split_inclusive [] = []"
| "split_inclusive (c # s) =
     (if c = newline then [c] # split_inclusive s
      else case split_inclusive s of [] \<Rightarrow> [[c]] | l # ls \<Rightarrow> (c # l) # ls)"

lemma concat_split_inclusive [simp]: "concat (split_inclusive s) = s"
  by (induction s) (auto split: list.split)

text \<open>\<^verbatim>\<open>trim_end_matches(['\n', '\r'])\<close>.\<close>

definition trim_eol :: "ustr \<Rightarrow> ustr" where
  "trim_eol = trim_end_where (\<lambda>c. c = newline \<or> c = carriage_return)"

definition indent_of :: "ustr \<Rightarrow> nat" where
  "indent_of line = length (takeWhile (\<lambda>c. c = ch CHR '' '') line)"

definition top_level_key_and_tail :: "ustr \<Rightarrow> (ustr \<times> ustr) option" where
  "top_level_key_and_tail line =
     (if indent_of line \<noteq> 0 then None
      else let content = trim_start (trim_eol line) in
        if content = [] \<or> starts_with content (lit ''#'') \<or> starts_with content (lit ''-'') then None
        else case split_once (ch CHR '':'') content of
          None \<Rightarrow> None
        | Some (key, tail) \<Rightarrow> (let key = trim_end key in if key = [] then None else Some (key, tail)))"

definition top_level_key :: "ustr \<Rightarrow> ustr option" where
  "top_level_key line = map_option fst (top_level_key_and_tail line)"

definition top_level_block_key :: "ustr \<Rightarrow> ustr option" where
  "top_level_block_key line = (case top_level_key_and_tail line of
     None \<Rightarrow> None
   | Some (key, tail) \<Rightarrow> if trim (hd (split_on (\<lambda>c. c = ch CHR ''#'') tail)) = [] then Some key else None)"

definition is_indented_key :: "ustr \<Rightarrow> ustr \<Rightarrow> nat \<Rightarrow> bool" where
  "is_indented_key line key indent =
     (let trimmed = trim_eol line; after = drop indent trimmed in
      indent_of trimmed = indent \<and> starts_with after key \<and> starts_with (drop (length key) after) (lit '':''))"

definition mcp_child_indent_from_line :: "ustr \<Rightarrow> nat option" where
  "mcp_child_indent_from_line line =
     (if trim line = [] \<or> starts_with (trim_start line) (lit ''#'') then None
      else if 0 < indent_of line then Some (indent_of line) else None)"

text \<open>
  The state all scans share: whether the line is inside the section, and the indentation of its children once
  known. A top-level line starts another section.
\<close>

definition enters_mcp_servers :: "ustr \<Rightarrow> bool" where
  "enters_mcp_servers line \<longleftrightarrow> top_level_key line = Some (lit ''mcpServers'') \<and> top_level_block_key line = Some (lit ''mcpServers'')"

definition child_indent_at :: "ustr \<Rightarrow> bool \<Rightarrow> nat option \<Rightarrow> nat option" where
  "child_indent_at line inside ci = (if inside \<and> ci = None then mcp_child_indent_from_line line else ci)"

definition is_difflore_key :: "ustr \<Rightarrow> bool \<Rightarrow> nat option \<Rightarrow> bool" where
  "is_difflore_key line inside ci \<longleftrightarrow> inside \<and> (case ci of Some i \<Rightarrow> is_indented_key line (lit ''difflore'') i | None \<Rightarrow> False)"

fun has_difflore :: "bool \<Rightarrow> nat option \<Rightarrow> ustr list \<Rightarrow> bool" where
  "has_difflore inside ci [] = False"
| "has_difflore inside ci (line # ls) =
     (if top_level_key line \<noteq> None then has_difflore (enters_mcp_servers line) None ls
      else let ci' = child_indent_at line inside ci in
        is_difflore_key line inside ci' \<or> has_difflore inside ci' ls)"

definition yaml_has_difflore_under_mcp_servers :: "ustr \<Rightarrow> bool" where
  "yaml_has_difflore_under_mcp_servers yaml = has_difflore False None (lines yaml)"

definition has_top_level_mcp_servers :: "ustr \<Rightarrow> bool" where
  "has_top_level_mcp_servers yaml \<longleftrightarrow> list_ex (\<lambda>l. top_level_key l = Some (lit ''mcpServers'')) (lines yaml)"

fun first_child_indent :: "bool \<Rightarrow> ustr list \<Rightarrow> nat option" where
  "first_child_indent inside [] = None"
| "first_child_indent inside (line # ls) =
     (if top_level_key line \<noteq> None then first_child_indent (enters_mcp_servers line) ls
      else case (if inside then mcp_child_indent_from_line line else None) of
        Some i \<Rightarrow> Some i | None \<Rightarrow> first_child_indent inside ls)"

definition mcp_child_indent :: "ustr \<Rightarrow> nat option" where
  "mcp_child_indent yaml = first_child_indent False (lines yaml)"

section \<open>The block\<close>

definition yaml_escape_scalar :: "ustr \<Rightarrow> ustr" where
  "yaml_escape_scalar s =
     (if ch CHR '':'' \<in> set s \<or> ch CHR ''#'' \<in> set s \<or> 92 \<in> set s \<or> starts_with s (lit '' '') \<or> ends_with s (lit '' '') \<or> s = []
      then [39] @ concat (map (\<lambda>c. if c = 39 then [39, 39] else [c]) s) @ [39] else s)"

definition spaces :: "nat \<Rightarrow> ustr" where "spaces n = replicate n (ch CHR '' '')"

definition render_goose_block_at_indent :: "ustr \<Rightarrow> nat \<Rightarrow> ustr" where
  "render_goose_block_at_indent bin indent =
     spaces indent @ lit ''difflore:'' @ [newline] @ spaces (indent + 2) @ lit ''command: '' @ yaml_escape_scalar bin @ [newline]
     @ spaces (indent + 2) @ lit ''args:'' @ [newline] @ spaces (indent + 4) @ lit ''- mcp-server'' @ [newline]"

definition render_goose_block :: "ustr \<Rightarrow> ustr" where
  "render_goose_block bin = render_goose_block_at_indent bin 2"

section \<open>Editing\<close>

definition is_child_line :: "nat \<Rightarrow> ustr \<Rightarrow> bool" where
  "is_child_line indent line \<longleftrightarrow> trim line = [] \<or> indent < indent_of line"

text \<open>
  The loop of the replacement: lines are copied; the first block of ours gives way to the replacement for
  its indentation. \<^const>\<open>None\<close>: there was none. After the first block \<^verbatim>\<open>found\<close> keeps the loop copying.
\<close>

fun copy_lines :: "ustr list \<Rightarrow> ustr" where
  "copy_lines [] = []"
| "copy_lines (line # ls) = line @ copy_lines ls"

fun replace_lines :: "(nat \<Rightarrow> ustr) \<Rightarrow> bool \<Rightarrow> nat option \<Rightarrow> ustr list \<Rightarrow> ustr option" where
  "replace_lines r inside ci [] = None"
| "replace_lines r inside ci (line # ls) =
     (if top_level_key line \<noteq> None then map_option ((@) line) (replace_lines r (enters_mcp_servers line) None ls)
      else let ci' = child_indent_at line inside ci in
        if is_difflore_key line inside ci' then
          (let indent = (case ci' of Some i \<Rightarrow> i | None \<Rightarrow> 2) in
           Some (r indent @ copy_lines (dropWhile (is_child_line indent) ls)))
        else map_option ((@) line) (replace_lines r inside ci' ls))"

definition no_block :: ustr where "no_block = lit ''could not locate existing difflore block under mcpServers''"

definition replace_goose_difflore_block :: "ustr \<Rightarrow> ustr \<Rightarrow> ustr + ustr" where
  "replace_goose_difflore_block yaml bin =
     (case replace_lines (render_goose_block_at_indent bin) False None (split_inclusive yaml) of
        Some out \<Rightarrow> Inr out | None \<Rightarrow> Inl no_block)"

definition remove_goose_difflore_block :: "ustr \<Rightarrow> ustr + ustr" where
  "remove_goose_difflore_block yaml =
     (case replace_lines (\<lambda>_. []) False None (split_inclusive yaml) of Some out \<Rightarrow> Inr out | None \<Rightarrow> Inl no_block)"

fun drop_empty_headers :: "ustr list \<Rightarrow> ustr" where
  "drop_empty_headers [] = []"
| "drop_empty_headers (line # ls) =
     (let trimmed = trim_eol line in
      if indent_of trimmed = 0 \<and> trim_end trimmed = lit ''mcpServers:''
         \<and> \<not> (case find (\<lambda>l. trim l \<noteq> []) ls of Some l \<Rightarrow> 0 < indent_of l | None \<Rightarrow> False)
      then drop_empty_headers ls else line @ drop_empty_headers ls)"

definition drop_empty_mcp_servers_block :: "ustr \<Rightarrow> ustr" where
  "drop_empty_mcp_servers_block yaml = drop_empty_headers (split_inclusive yaml)"

fun insert_after_header :: "ustr \<Rightarrow> ustr list \<Rightarrow> ustr + ustr" where
  "insert_after_header block [] = Inl (lit ''mcpServers: not found'')"
| "insert_after_header block (line # ls) =
     (if top_level_key line = Some (lit ''mcpServers'') then
        (if top_level_block_key line \<noteq> Some (lit ''mcpServers'')
         then Inl (lit ''mcpServers must be a block mapping, not an inline value'')
         else Inr (line @ block @ concat ls))
      else map_sum id ((@) line) (insert_after_header block ls))"

definition insert_under_mcp_servers :: "ustr \<Rightarrow> ustr \<Rightarrow> ustr + ustr" where
  "insert_under_mcp_servers yaml bin =
     insert_after_header (render_goose_block_at_indent bin (case mcp_child_indent yaml of Some i \<Rightarrow> i | None \<Rightarrow> 2)) (split_inclusive yaml)"

text \<open>The new text and whether a block was replaced.\<close>

definition goose_merged :: "ustr \<Rightarrow> ustr \<Rightarrow> ustr + ustr \<times> bool" where
  "goose_merged existing bin =
     (if existing = [] then Inr (lit ''mcpServers:'' @ [newline] @ render_goose_block bin, False)
      else if yaml_has_difflore_under_mcp_servers existing
      then map_sum id (\<lambda>s. (s, True)) (replace_goose_difflore_block existing bin)
      else if has_top_level_mcp_servers existing
      then map_sum id (\<lambda>s. (s, False)) (insert_under_mcp_servers existing bin)
      else Inr (trim_end existing @ [newline] @ lit ''mcpServers:'' @ [newline] @ render_goose_block bin, False))"

text \<open>The text without the block; \<^const>\<open>None\<close> when there is no block to remove.\<close>

definition goose_removed :: "ustr \<Rightarrow> (ustr + ustr) option" where
  "goose_removed existing =
     (if \<not> yaml_has_difflore_under_mcp_servers existing then None
      else Some (map_sum id drop_empty_mcp_servers_block (remove_goose_difflore_block existing)))"

section \<open>Reading back\<close>

fun block_lines :: "nat \<Rightarrow> ustr list \<Rightarrow> ustr list" where
  "block_lines indent [] = []"
| "block_lines indent (line # ls) =
     (if indent_of line \<le> indent \<and> trim line \<noteq> [] then [] else line # block_lines indent ls)"

fun find_block :: "bool \<Rightarrow> nat option \<Rightarrow> ustr list \<Rightarrow> ustr list" where
  "find_block inside ci [] = []"
| "find_block inside ci (line # ls) =
     (if top_level_key line \<noteq> None then find_block (enters_mcp_servers line) None ls
      else let ci' = child_indent_at line inside ci in
        if is_difflore_key line inside ci' then line # block_lines (case ci' of Some i \<Rightarrow> i | None \<Rightarrow> 2) ls
        else find_block inside ci' ls)"

definition difflore_block_lines :: "ustr \<Rightarrow> ustr list" where
  "difflore_block_lines yaml = find_block False None (lines yaml)"

definition extracted_block :: "ustr \<Rightarrow> ustr option" where
  "extracted_block yaml =
     (if \<not> yaml_has_difflore_under_mcp_servers yaml \<or> difflore_block_lines yaml = [] then None
      else Some (concat (map (\<lambda>l. trim_eol l @ [newline]) (difflore_block_lines yaml))))"

section \<open>Operations on the file\<close>

definition read_config :: "path \<Rightarrow> ustr fs" where
  "read_config p = with_error (\<lambda>e. lit ''failed to read '' @ display_path p @ lit '': '' @ e) (read_to_string p)"

definition write_config :: "path \<Rightarrow> ustr \<Rightarrow> unit fs" where
  "write_config p s = with_error (\<lambda>e. lit ''failed to write '' @ display_path p @ lit '': '' @ e) (write_atomic_file p s)"

definition merge_goose_yaml_config :: "path \<Rightarrow> ustr \<Rightarrow> bool \<Rightarrow> bool fs" where
  "merge_goose_yaml_config p bin dry_run =
     andthen (path_exists p) (\<lambda>e. andthen (if e then read_config p else ret []) (\<lambda>existing.
     andthen (lift_result (goose_merged existing bin)) (\<lambda>(new_content, replaced).
       if dry_run then ret replaced
       else andthen (case parent_path p of
           Some q \<Rightarrow> with_error (\<lambda>e. lit ''failed to create '' @ display_path q @ lit '': '' @ e) (create_dir_all q)
         | None \<Rightarrow> ret ()) (\<lambda>_. andthen (write_config p new_content) (\<lambda>_. ret replaced)))))"

definition remove_goose_yaml_config :: "path \<Rightarrow> bool \<Rightarrow> bool fs" where
  "remove_goose_yaml_config p dry_run = andthen (path_exists p) (\<lambda>e.
     if \<not> e then ret False
     else andthen (read_config p) (\<lambda>existing.
       case goose_removed existing of
         None \<Rightarrow> ret False
       | Some r \<Rightarrow> andthen (lift_result r) (\<lambda>new_content.
           if dry_run then ret True else andthen (write_config p new_content) (\<lambda>_. ret True))))"

definition extract_goose_block :: "path \<Rightarrow> ustr option fs" where
  "extract_goose_block p = andthen (path_exists p) (\<lambda>e.
     if \<not> e then ret None
     else andthen (attempt (read_to_string p)) (\<lambda>r.
       ret (case r of Inl _ \<Rightarrow> None | Inr t \<Rightarrow> extracted_block t)))"

definition block_current :: "ustr \<Rightarrow> ustr \<Rightarrow> bool" where
  "block_current t expected_command =
     (let block = difflore_block_lines t;
          command_ok = list_ex (\<lambda>l. trim_start l = lit ''command: '' @ yaml_escape_scalar expected_command) block;
          args_ok = list_ex (\<lambda>l. trim_start l = lit ''- mcp-server'') block in
      command_ok \<and> args_ok)"

definition probe_goose_install :: "ustr \<Rightarrow> path \<Rightarrow> ustr \<Rightarrow> TargetStatus fs" where
  "probe_goose_install name p expected_command = andthen (path_exists p) (\<lambda>e.
     if \<not> e then ret \<lparr>ts_name = name, ts_detected = False, ts_state = NotInstalled,
                     ts_detail = Some (display_path p @ lit '' not found'')\<rparr>
     else andthen (attempt (read_to_string p)) (\<lambda>r. ret (case r of
         Inl m \<Rightarrow> \<lparr>ts_name = name, ts_detected = True, ts_state = UnknownState,
                    ts_detail = Some (lit ''failed to read '' @ display_path p @ lit '': '' @ m)\<rparr>
       | Inr t \<Rightarrow>
           if \<not> yaml_has_difflore_under_mcp_servers t
           then \<lparr>ts_name = name, ts_detected = True, ts_state = NotInstalled,
                  ts_detail = Some (display_path p @ lit '' has no difflore block'')\<rparr>
           else if block_current t expected_command
             then \<lparr>ts_name = name, ts_detected = True, ts_state = InstalledState, ts_detail = Some (display_path p)\<rparr>
             else \<lparr>ts_name = name, ts_detected = True, ts_state = Conflict,
                    ts_detail = Some (display_path p @ lit '': difflore block exists but command/args drifted'')\<rparr>)))"

end
