(* ===== verification/Goose_Laws.thy ===== *)
theory Goose_Laws
  imports Goose_Yaml
begin

text \<open>
  What editing the YAML settings of Goose guarantees. All scans of the code find the block at the same
  place (\<open>locate\<close>); from that follow what an installation keeps, that it is recognised afterwards, that it
  settles, and when a removal undoes it.
\<close>

section \<open>Line ends\<close>

lemma trim_eol_Nil [simp]: "trim_eol [] = []"
  by (simp add: trim_eol_def trim_end_where_def)

lemma trim_end_where_Cons:
  "trim_end_where p (c # l) = (if trim_end_where p l = [] then (if p c then [] else [c]) else c # trim_end_where p l)"
proof -
  have "dropWhile p (rev l @ [c]) = (if dropWhile p (rev l) = [] then (if p c then [] else [c]) else dropWhile p (rev l) @ [c])"
    by (auto simp: dropWhile_append)
  then show ?thesis by (auto simp: trim_end_where_def)
qed

lemma trim_eol_Cons:
  "trim_eol (c # l) = (if trim_eol l = [] then (if c = newline \<or> c = carriage_return then [] else [c]) else c # trim_eol l)"
  by (simp add: trim_eol_def trim_end_where_Cons)

lemma trim_eol_snoc: "c = newline \<or> c = carriage_return \<Longrightarrow> trim_eol (l @ [c]) = trim_eol l"
  by (auto simp: trim_eol_def trim_end_where_def)

lemma trim_eol_idem [simp]: "trim_eol (trim_eol l) = trim_eol l"
  by (simp add: trim_eol_def trim_end_where_def dropWhile_idem)

lemma trim_eol_strip_cr [simp]: "trim_eol (strip_cr l) = trim_eol l"
proof (cases "l \<noteq> [] \<and> last l = carriage_return")
  case True
  then have "l = butlast l @ [carriage_return]" by (metis append_butlast_last_id)
  with True trim_eol_snoc [of carriage_return "butlast l"] show ?thesis by (simp add: strip_cr_def)
next
  case False
  then have "strip_cr l = l" by (auto simp: strip_cr_def)
  then show ?thesis by simp
qed

lemma trim_eol_parts: "\<exists>t. l = trim_eol l @ t \<and> (\<forall>c \<in> set t. c = newline \<or> c = carriage_return)"
proof (induction l)
  case (Cons c l)
  then obtain t where t: "l = trim_eol l @ t" "\<forall>c \<in> set t. c = newline \<or> c = carriage_return" by blast
  show ?case
  proof (cases "trim_eol l = []")
    case True
    with t show ?thesis by (cases "c = newline \<or> c = carriage_return") (auto simp: trim_eol_Cons)
  next
    case False
    with t show ?thesis by (auto simp: trim_eol_Cons)
  qed
qed simp

text \<open>Both ways of splitting give the same lines up to their ends.\<close>

lemma lines_split_inclusive: "map trim_eol (lines s) = map trim_eol (split_inclusive s)"
proof -
  have ne: "split_on (\<lambda>c. c = newline) s \<noteq> []" for s by (induction s) (auto split: list.splits)
  have "map trim_eol (lines_of (split_on (\<lambda>c. c = newline) s)) = map trim_eol (split_inclusive s)"
  proof (induction s)
    case (Cons c s)
    obtain seg segs where segs: "split_on (\<lambda>c. c = newline) s = seg # segs" using ne [of s] by (meson list.exhaust)
    show ?case
    proof (cases "c = newline")
      case True
      have "trim_eol [newline] = []" by (simp add: trim_eol_Cons)
      with True Cons segs show ?thesis by (simp add: strip_cr_def)
    next
      case False
      with Cons segs show ?thesis
        by (cases segs; cases "split_inclusive s") (auto simp: trim_eol_Cons split: if_splits)
    qed
  qed simp
  then show ?thesis by (simp add: lines_def)
qed

section \<open>What a line is, up to its end\<close>

lemma takeWhile_trim_eol: "takeWhile (\<lambda>c. c = ch CHR '' '') (trim_eol l) = takeWhile (\<lambda>c. c = ch CHR '' '') l"
proof -
  obtain t where t: "l = trim_eol l @ t" "\<forall>c \<in> set t. c = newline \<or> c = carriage_return" using trim_eol_parts by blast
  then have "takeWhile (\<lambda>c. c = ch CHR '' '') t = []"
    by (cases t) (auto simp: newline_def carriage_return_def)
  then show ?thesis by (subst (2) t(1)) (auto simp: takeWhile_append)
qed

lemma indent_trim_eol [simp]: "indent_of (trim_eol l) = indent_of l"
  unfolding indent_of_def takeWhile_trim_eol ..

lemma key_trim_eol [simp]: "top_level_key_and_tail (trim_eol l) = top_level_key_and_tail l"
  by (simp add: top_level_key_and_tail_def)

lemma top_level_trim_eol [simp]: "top_level_key (trim_eol l) = top_level_key l" "enters_mcp_servers (trim_eol l) = enters_mcp_servers l"
  by (simp_all add: top_level_key_def enters_mcp_servers_def top_level_block_key_def)

lemma trim_start_Nil: "trim_start x = [] \<longleftrightarrow> (\<forall>c \<in> set x. is_whitespace c)"
  by (simp add: trim_start_def dropWhile_eq_Nil_conv)

lemma trim_Nil: "trim x = [] \<longleftrightarrow> (\<forall>c \<in> set x. is_whitespace c)"
proof -
  have e: "trim_end y = [] \<longleftrightarrow> (\<forall>c \<in> set y. is_whitespace c)" for y by (simp add: trim_end_def dropWhile_eq_Nil_conv)
  show ?thesis
  proof (cases "trim_start x = []")
    case True
    then have "\<forall>c \<in> set x. is_whitespace c" using trim_start_Nil by blast
    with True show ?thesis by (simp add: trim_def e)
  next
    case False
    then have "\<not> is_whitespace (hd (trim_start x))" "hd (trim_start x) \<in> set (trim_start x)"
      by (simp_all add: trim_start_def hd_dropWhile)
    then show ?thesis unfolding trim_def e trim_start_def by (meson set_dropWhileD)
  qed
qed

lemma trim_start_Nil_iff: "trim_start l = [] \<longleftrightarrow> trim l = []"
  by (simp add: trim_Nil trim_start_Nil)

lemma trim_start_trim_eol:
  "trim (trim_eol l) = [] \<longleftrightarrow> trim l = []" "trim l \<noteq> [] \<Longrightarrow> hd (trim_start (trim_eol l)) = hd (trim_start l)"
proof -
  obtain t where t: "l = trim_eol l @ t" "\<forall>c \<in> set t. c = newline \<or> c = carriage_return" using trim_eol_parts by blast
  then have white: "\<forall>c \<in> set t. is_whitespace c"
    by (auto simp: is_whitespace_def newline_def carriage_return_def)
  show blank: "trim (trim_eol l) = [] \<longleftrightarrow> trim l = []"
    unfolding trim_Nil using white by (subst (2) t(1)) auto
  assume "trim l \<noteq> []"
  then have some: "trim_start (trim_eol l) \<noteq> []" using blank by (simp add: trim_start_Nil_iff)
  then have "trim_start (trim_eol l @ t) = trim_start (trim_eol l) @ t"
    by (auto simp: trim_start_def dropWhile_append dropWhile_eq_Nil_conv)
  with t(1) some show "hd (trim_start (trim_eol l)) = hd (trim_start l)" by (metis hd_append2)
qed

lemma starts_with_single: "starts_with x [c] \<longleftrightarrow> x \<noteq> [] \<and> hd x = c"
  by (cases x) (auto simp: starts_with_def)

lemma child_indent_trim_eol [simp]: "mcp_child_indent_from_line (trim_eol l) = mcp_child_indent_from_line l"
proof (cases "trim l = []")
  case True
  then show ?thesis by (simp add: mcp_child_indent_from_line_def trim_start_trim_eol(1))
next
  case False
  then have "trim (trim_eol l) \<noteq> []" by (simp add: trim_start_trim_eol(1))
  with False trim_start_trim_eol(2) [OF False] show ?thesis
    by (simp add: mcp_child_indent_from_line_def lit_def starts_with_single trim_start_Nil_iff)
qed

lemma is_child_line_trim_eol [simp]: "is_child_line i (trim_eol l) = is_child_line i l"
  by (simp add: is_child_line_def trim_start_trim_eol(1))

lemma is_difflore_key_trim_eol [simp]:
  "is_difflore_key (trim_eol l) inside ci = is_difflore_key l inside ci"
  by (simp add: is_difflore_key_def is_indented_key_def Let_def split: option.split)

lemma child_indent_at_trim_eol [simp]: "child_indent_at (trim_eol l) inside ci = child_indent_at l inside ci"
  by (simp add: child_indent_at_def)

section \<open>Where the block is\<close>

text \<open>
  The lines before the block, its key line, the indentation of its children's parent and the lines after the
  key line.
\<close>

fun locate :: "bool \<Rightarrow> nat option \<Rightarrow> ustr list \<Rightarrow> (ustr list \<times> ustr \<times> nat \<times> ustr list) option" where
  "locate inside ci [] = None"
| "locate inside ci (l # ls) =
     (if top_level_key l \<noteq> None then map_option (apfst ((#) l)) (locate (enters_mcp_servers l) None ls)
      else let ci' = child_indent_at l inside ci in
        if is_difflore_key l inside ci' then Some ([], l, the ci', ls)
        else map_option (apfst ((#) l)) (locate inside ci' ls))"

lemma key_indent: "is_difflore_key l inside ci \<Longrightarrow> \<exists>i. ci = Some i \<and> inside"
  by (auto simp: is_difflore_key_def split: option.splits)

lemma has_locate: "has_difflore inside ci ls \<longleftrightarrow> locate inside ci ls \<noteq> None"
  by (induction inside ci ls rule: has_difflore.induct) (auto simp: Let_def)

lemma copy_lines_concat [simp]: "copy_lines ls = concat ls"
  by (induction ls) auto

lemma replace_locate:
  "replace_lines r inside ci ls
     = map_option (\<lambda>(A, k, i, R). concat A @ r i @ concat (dropWhile (is_child_line i) R)) (locate inside ci ls)"
  by (induction r inside ci ls rule: replace_lines.induct)
    (auto simp: Let_def option.map_comp comp_def split_beta dest!: key_indent intro!: option.map_cong)

lemma block_lines_takeWhile: "block_lines i ls = takeWhile (is_child_line i) ls"
  by (induction i ls rule: block_lines.induct) (auto simp: is_child_line_def)

lemma find_locate:
  "find_block inside ci ls = (case locate inside ci ls of None \<Rightarrow> [] | Some (A, k, i, R) \<Rightarrow> k # takeWhile (is_child_line i) R)"
  by (induction inside ci ls rule: find_block.induct)
    (auto simp: Let_def block_lines_takeWhile dest!: key_indent split: option.splits)

lemma locate_trim:
  "locate inside ci (map trim_eol ls)
     = map_option (\<lambda>(A, k, i, R). (map trim_eol A, trim_eol k, i, map trim_eol R)) (locate inside ci ls)"
  by (induction inside ci ls rule: locate.induct)
    (auto simp: Let_def option.map_comp comp_def split_beta apfst_def map_prod_def)

lemma locate_split: "locate inside ci ls = Some (A, k, i, R) \<Longrightarrow> ls = A @ k # R"
  by (induction inside ci ls arbitrary: A rule: locate.induct) (auto simp: Let_def split: if_splits)

text \<open>The indentation found is positive, and the key line stands at it.\<close>

lemma child_indent_positive: "mcp_child_indent_from_line l = Some i \<Longrightarrow> 0 < i"
  by (auto simp: mcp_child_indent_from_line_def split: if_splits)

lemma locate_indent:
  "locate inside ci ls = Some (A, k, i, R) \<Longrightarrow> (\<forall>n. ci = Some n \<longrightarrow> 0 < n) \<Longrightarrow> 0 < i \<and> is_difflore_key k True (Some i)"
proof (induction inside ci ls arbitrary: A rule: locate.induct)
  case (2 inside ci l ls)
  have pos: "\<forall>n. child_indent_at l inside ci = Some n \<longrightarrow> 0 < n"
    using 2(4) child_indent_positive by (auto simp: child_indent_at_def)
  show ?case
  proof (cases "top_level_key l \<noteq> None")
    case True
    with 2(1,3) show ?thesis by (auto simp: apfst_def map_prod_def)
  next
    case False
    with 2(2,3) pos show ?thesis
      by (auto simp: Let_def is_difflore_key_def split: if_splits option.splits)
  qed
qed simp

text \<open>A line with the key at the same place is found in its stead, whatever follows.\<close>

lemma is_whitespace_d: "\<not> is_whitespace (ch CHR ''d'')"
  by (simp add: is_whitespace_def)

lemma key_line_facts:
  assumes "is_difflore_key k True (Some i)" "0 < i"
  shows "top_level_key k = None" "mcp_child_indent_from_line k = Some i" "indent_of k = i"
proof -
  have k: "indent_of k = i" "starts_with (drop i (trim_eol k)) (lit ''difflore'')"
    using assms(1) by (simp_all add: is_difflore_key_def is_indented_key_def Let_def)
  then have tw: "length (takeWhile (\<lambda>c. c = ch CHR '' '') (trim_eol k)) = i"
    by (simp only: indent_of_def takeWhile_trim_eol)
  obtain rest where rest: "drop i (trim_eol k) = ch CHR ''d'' # rest"
    using k(2) by (cases "drop i (trim_eol k)") (auto simp: starts_with_def lit_def)
  have "trim_eol k = takeWhile (\<lambda>c. c = ch CHR '' '') (trim_eol k) @ drop i (trim_eol k)"
    using tw by (metis dropWhile_eq_drop takeWhile_dropWhile_id)
  then have form: "trim_eol k = takeWhile (\<lambda>c. c = ch CHR '' '') (trim_eol k) @ ch CHR ''d'' # rest" using rest by simp
  moreover have "\<forall>c \<in> set (takeWhile (\<lambda>c. c = ch CHR '' '') (trim_eol k)). is_whitespace c"
    by (auto dest!: set_takeWhileD simp: is_whitespace_def)
  ultimately have start: "trim_start (trim_eol k) = ch CHR ''d'' # rest"
    by (metis (no_types, lifting) dropWhile.simps(2) dropWhile_append2 is_whitespace_d trim_start_def)
  then have "trim k \<noteq> []" using trim_start_Nil_iff trim_start_trim_eol(1) by (metis list.distinct(1))
  with start trim_start_trim_eol(2) have "hd (trim_start k) = ch CHR ''d''" by fastforce
  with \<open>trim k \<noteq> []\<close> k(1) assms(2)
  show "top_level_key k = None" "mcp_child_indent_from_line k = Some i" "indent_of k = i"
    by (simp_all add: mcp_child_indent_from_line_def lit_def starts_with_single trim_start_Nil_iff
      top_level_key_def top_level_key_and_tail_def)
qed

lemma locate_same_place:
  assumes "locate inside ci ls = Some (A, k, i, R)" "is_difflore_key k' True (Some i)" "\<forall>n. ci = Some n \<longrightarrow> 0 < n"
  shows "locate inside ci (A @ k' # R') = Some (A, k', i, R')"
  using assms
proof (induction inside ci ls arbitrary: A rule: locate.induct)
  case (2 inside ci l ls)
  have "0 < i" using locate_indent [OF 2(3,5)] by simp
  note k' = key_line_facts [OF 2(4) this]
  have pos: "\<forall>n. child_indent_at l inside ci = Some n \<longrightarrow> 0 < n"
    using 2(5) child_indent_positive by (auto simp: child_indent_at_def)
  show ?case
  proof (cases "top_level_key l \<noteq> None")
    case True
    with 2(1,3,4) show ?thesis by (auto simp: apfst_def map_prod_def)
  next
    case False
    show ?thesis
    proof (cases "is_difflore_key l inside (child_indent_at l inside ci)")
      case True
      with False 2(3) have e: "A = []" "i = the (child_indent_at l inside ci)" "inside" "\<exists>n. child_indent_at l inside ci = Some n"
        by (auto simp: Let_def dest: key_indent)
      then have "child_indent_at k' inside ci = Some i"
        using k'(2) by (auto simp: child_indent_at_def split: if_splits)
      then show ?thesis using e k'(1) 2(4) by simp
    next
      case False2: False
      with False 2(2,3,4) pos show ?thesis by (auto simp: Let_def apfst_def map_prod_def)
    qed
  qed
qed simp

section \<open>Terminated lines\<close>

definition ended :: "ustr \<Rightarrow> bool" where
  "ended l \<longleftrightarrow> l \<noteq> [] \<and> last l = newline \<and> newline \<notin> set (butlast l)"

lemma ended_snoc [simp]: "ended (a @ [newline]) \<longleftrightarrow> newline \<notin> set a"
  by (simp add: ended_def)

lemma endedE: "ended l \<Longrightarrow> (\<And>a. l = a @ [newline] \<Longrightarrow> newline \<notin> set a \<Longrightarrow> P) \<Longrightarrow> P"
  by (metis append_butlast_last_id ended_def)

lemma split_ended_line: "ended l \<Longrightarrow> split_inclusive (l @ s) = l # split_inclusive s"
proof (elim endedE)
  fix a assume "l = a @ [newline]" "newline \<notin> set a"
  then show ?thesis by (induction a arbitrary: l) auto
qed

lemma split_ended: "list_all ended A \<Longrightarrow> split_inclusive (concat A @ s) = A @ split_inclusive s"
  by (induction A) (auto simp: split_ended_line)

lemma split_unended: "newline \<notin> set a \<Longrightarrow> a \<noteq> [] \<Longrightarrow> split_inclusive a = [a]"
proof (induction a)
  case (Cons c a)
  then show ?case by (cases "a = []") auto
qed simp

lemma ended_butlast: "list_all ended (butlast (split_inclusive s))"
proof (induction s)
  case (Cons c s)
  have e: "ended l \<Longrightarrow> c \<noteq> newline \<Longrightarrow> ended (c # l)" for l by (auto simp: ended_def)
  from Cons e show ?case by (cases "split_inclusive s") (auto simp: ended_def)
qed simp

lemma ended_before: "split_inclusive s = A @ B \<Longrightarrow> B \<noteq> [] \<Longrightarrow> list_all ended A"
  using ended_butlast [of s] by (simp add: butlast_append)

lemma split_single: "split_inclusive k = [k] \<Longrightarrow> newline \<notin> set (butlast k)"
proof
  assume k: "split_inclusive k = [k]" "newline \<in> set (butlast k)"
  then obtain x y where x: "butlast k = x @ newline # y" "newline \<notin> set x" by (meson split_list_first)
  then have "k = (x @ [newline]) @ y @ [last k]" by (metis append_Cons append_Nil append_assoc append_butlast_last_id butlast.simps(1) list.distinct(1) Nil_is_append_conv)
  moreover have "split_inclusive ((x @ [newline]) @ y @ [last k]) = (x @ [newline]) # split_inclusive (y @ [last k])"
    using x(2) by (intro split_ended_line) simp
  moreover have "split_inclusive (y @ [last k]) \<noteq> []"
    by (metis concat.simps(1) concat_split_inclusive snoc_eq_iff_butlast)
  ultimately show False using k(1) by (metis list.inject)
qed

lemma last_line:
  assumes "split_inclusive s = A @ [k]"
  shows "s = concat A @ k" "list_all ended A" "split_inclusive k = [k]" "k \<noteq> []"
proof -
  show A: "list_all ended A" using ended_before [OF assms] by simp
  show s: "s = concat A @ k" by (metis concat.simps concat_append concat_split_inclusive append_Nil2 assms)
  show k: "split_inclusive k = [k]" using split_ended [OF A, of k] assms s by simp
  then show "k \<noteq> []" by auto
qed

lemma ended_all:
  assumes "s = [] \<or> last s = newline" shows "list_all ended (split_inclusive s)"
proof (cases "split_inclusive s" rule: rev_cases)
  case (snoc A k)
  note k = last_line [OF snoc]
  with assms have "last k = newline" by (cases "s = []") auto
  with k split_single [OF k(3)] snoc show ?thesis by (simp add: ended_def)
qed simp

lemma split_suffix: "split_inclusive s = A @ B \<Longrightarrow> split_inclusive (concat B) = B"
proof (cases "B = []")
  case False
  assume a: "split_inclusive s = A @ B"
  have "s = concat A @ concat B" by (metis a concat_append concat_split_inclusive)
  with split_ended [OF ended_before [OF a False], of "concat B"] a show ?thesis by simp
qed simp

lemma lines_ended_line:
  assumes "ended l" shows "lines (l @ s) = strip_cr (butlast l) # lines s"
proof -
  have ne: "split_on (\<lambda>c. c = newline) s \<noteq> []" for s by (induction s) (auto split: list.splits)
  have "newline \<notin> set a \<Longrightarrow> split_on (\<lambda>c. c = newline) (a @ newline # s) = a # split_on (\<lambda>c. c = newline) s" for a
    by (induction a) (auto split: list.splits)
  with assms ne [of s] show ?thesis by (cases "split_on (\<lambda>c. c = newline) s") (auto elim!: endedE simp: lines_def)
qed

lemma lines_ended: "list_all ended A \<Longrightarrow> lines (concat A @ s) = map (\<lambda>l. strip_cr (butlast l)) A @ lines s"
  by (induction A) (auto simp: lines_ended_line)

section \<open>Outside the section\<close>

lemma locate_before:
  "\<forall>l \<in> set A. top_level_key l \<noteq> Some (lit ''mcpServers'') \<Longrightarrow>
     locate False None (A @ B) = map_option (apfst ((@) A)) (locate False None B)"
proof (induction A)
  case Nil
  then show ?case by (cases "locate False None B") auto
next
  case (Cons l A)
  then have "\<not> enters_mcp_servers l" by (auto simp: enters_mcp_servers_def)
  with Cons show ?case
    by (auto simp: child_indent_at_def is_difflore_key_def option.map_comp comp_def apfst_def map_prod_def split_beta Let_def)
qed

lemma locate_after_header:
  assumes "\<forall>l \<in> set A. top_level_key l \<noteq> Some (lit ''mcpServers'')" "enters_mcp_servers h"
    "is_difflore_key k True (Some i)" "0 < i"
  shows "locate False None (A @ h # k # R) = Some (A @ [h], k, i, R)"
proof -
  note k = key_line_facts [OF assms(3,4)]
  have "top_level_key h \<noteq> None" using assms(2) by (simp add: enters_mcp_servers_def)
  then have "locate False None (h # k # R) = Some ([h], k, i, R)"
    using assms(2,3) k by (simp add: child_indent_at_def Let_def)
  then show ?thesis using locate_before [OF assms(1), of "h # k # R"] by simp
qed

section \<open>The block as lines\<close>

abbreviation key_line :: "nat \<Rightarrow> ustr" where
  "key_line i \<equiv> spaces i @ lit ''difflore:'' @ [newline]"

abbreviation value_lines :: "ustr \<Rightarrow> nat \<Rightarrow> ustr list" where
  "value_lines bin i \<equiv>
     [spaces (i + 2) @ lit ''command: '' @ yaml_escape_scalar bin @ [newline], spaces (i + 2) @ lit ''args:'' @ [newline],
      spaces (i + 4) @ lit ''- mcp-server'' @ [newline]]"

lemma render_lines: "render_goose_block_at_indent bin i = concat (key_line i # value_lines bin i)"
  by (simp add: render_goose_block_at_indent_def)

lemma newline_not_space: "newline \<notin> set (spaces n)"
  by (auto simp: spaces_def newline_def)

lemma set_escape: "set (yaml_escape_scalar bin) \<subseteq> insert 39 (set bin)"
  by (auto simp: yaml_escape_scalar_def split: if_splits)

lemma newline_not_escape: "newline \<notin> set bin \<Longrightarrow> newline \<notin> set (yaml_escape_scalar bin)"
  using set_escape [of bin] by (auto simp: newline_def)

lemma ended_block_lines: "newline \<notin> set bin \<Longrightarrow> list_all ended (key_line i # value_lines bin i)"
  using newline_not_space newline_not_escape
  by (auto simp: ended_def butlast_append lit_def newline_def)

lemma indent_spaces: "c \<noteq> ch CHR '' '' \<Longrightarrow> indent_of (spaces n @ c # x) = n"
  by (simp add: indent_of_def spaces_def takeWhile_append)

lemma key_line_is_key: "is_difflore_key (key_line i) True (Some i)"
proof -
  have "trim_eol (spaces i @ lit ''difflore:'' @ [newline]) = spaces i @ lit ''difflore:''"
    using trim_eol_snoc [of newline "spaces i @ lit ''difflore:''"]
    by (simp add: trim_eol_def trim_end_where_def lit_def newline_def carriage_return_def)
  then show ?thesis
    by (simp add: is_difflore_key_def is_indented_key_def Let_def lit_def indent_spaces starts_with_def spaces_def)
      (simp add: indent_of_def takeWhile_append)
qed

lemma value_lines_children: "l \<in> set (value_lines bin i) \<Longrightarrow> is_child_line i l"
  by (auto simp: is_child_line_def lit_def indent_spaces)

text \<open>A text that holds our block behind lines that lead to it.\<close>

definition leads_to :: "ustr list \<Rightarrow> nat \<Rightarrow> bool" where
  "leads_to A i \<longleftrightarrow> list_all ended A \<and> 0 < i
     \<and> (\<forall>k R. is_difflore_key k True (Some i) \<longrightarrow> locate False None (A @ k # R) = Some (A, k, i, R))"

lemma has_locate_split: "yaml_has_difflore_under_mcp_servers y \<longleftrightarrow> locate False None (split_inclusive y) \<noteq> None"
proof -
  have "locate False None (map trim_eol (lines y)) = locate False None (map trim_eol (split_inclusive y))"
    by (simp add: lines_split_inclusive)
  then have "locate False None (lines y) = None \<longleftrightarrow> locate False None (split_inclusive y) = None"
    unfolding locate_trim by (cases "locate False None (lines y)"; cases "locate False None (split_inclusive y)") auto
  then show ?thesis
    by (simp only: yaml_has_difflore_under_mcp_servers_def has_locate)
qed

lemma split_edited:
  assumes leads: "leads_to A i" and bin: "newline \<notin> set bin"
  shows "split_inclusive (concat A @ render_goose_block_at_indent bin i @ s) = A @ key_line i # value_lines bin i @ split_inclusive s"
proof -
  have "list_all ended (A @ key_line i # value_lines bin i)"
    using leads ended_block_lines [OF bin, of i] by (simp add: leads_to_def)
  from split_ended [OF this, of s] show ?thesis by (simp add: render_lines)
qed

lemma locate_edited:
  assumes leads: "leads_to A i" and bin: "newline \<notin> set bin"
  shows "locate False None (split_inclusive (concat A @ render_goose_block_at_indent bin i @ s))
     = Some (A, key_line i, i, value_lines bin i @ split_inclusive s)"
  unfolding split_edited [OF assms] using leads key_line_is_key unfolding leads_to_def by blast

lemma has_edited:
  assumes leads: "leads_to A i" and bin: "newline \<notin> set bin"
  shows "yaml_has_difflore_under_mcp_servers (concat A @ render_goose_block_at_indent bin i @ s)"
  unfolding has_locate_split locate_edited [OF assms] by simp

lemma lines_edited:
  assumes leads: "leads_to A i" and bin: "newline \<notin> set bin"
  shows "lines (concat A @ render_goose_block_at_indent bin i @ s)
     = map (\<lambda>l. strip_cr (butlast l)) (A @ key_line i # value_lines bin i) @ lines s"
proof -
  have "list_all ended (A @ key_line i # value_lines bin i)"
    using leads ended_block_lines [OF bin, of i] by (simp add: leads_to_def)
  from lines_ended [OF this, of s] show ?thesis by (simp add: render_lines)
qed

lemma block_edited:
  assumes leads: "leads_to A i" and bin: "newline \<notin> set bin"
  shows "difflore_block_lines (concat A @ render_goose_block_at_indent bin i @ s)
     = map (\<lambda>l. strip_cr (butlast l)) (key_line i # value_lines bin i) @ takeWhile (is_child_line i) (lines s)"
proof -
  let ?y = "concat A @ render_goose_block_at_indent bin i @ s" and ?f = "\<lambda>l. strip_cr (butlast l)"
  have "locate False None (map trim_eol (lines ?y)) = locate False None (map trim_eol (split_inclusive ?y))"
    by (simp only: lines_split_inclusive)
  then obtain B k R where B: "locate False None (lines ?y) = Some (B, k, i, R)" "map trim_eol B = map trim_eol A"
    unfolding locate_trim locate_edited [OF assms] by auto
  then have "length B = length A" by (metis length_map)
  moreover have "lines ?y = map ?f A @ ?f (key_line i) # map ?f (value_lines bin i) @ lines s"
    by (simp add: lines_edited [OF assms])
  ultimately have "k = ?f (key_line i)" "R = map ?f (value_lines bin i) @ lines s"
    using locate_split [OF B(1)] by (auto simp: append_eq_append_conv)
  moreover have "\<forall>l \<in> set (map ?f (value_lines bin i)). is_child_line i l"
  proof
    fix l assume "l \<in> set (map ?f (value_lines bin i))"
    then obtain v where v: "v \<in> set (value_lines bin i)" "l = ?f v" by (auto simp del: butlast_append)
    then have "ended v" using ended_block_lines [OF bin, of i] by (auto simp: list_all_iff)
    then have "trim_eol l = trim_eol v" using v(2) by (auto elim!: endedE simp: trim_eol_snoc)
    then show "is_child_line i l" using value_lines_children [OF v(1)] by (metis is_child_line_trim_eol)
  qed
  ultimately show ?thesis
    unfolding difflore_block_lines_def find_locate using B(1) by (simp add: takeWhile_append2 del: butlast_append)
qed

lemma current_edited:
  assumes leads: "leads_to A i" and bin: "newline \<notin> set bin" and cr: "carriage_return \<notin> set bin"
  shows "block_current (concat A @ render_goose_block_at_indent bin i @ s) bin"
proof -
  have start: "trim_start (spaces n @ c # x) = c # x" if "\<not> is_whitespace c" for n c x
  proof -
    have "is_whitespace 32" by (simp add: is_whitespace_def)
    with that show ?thesis by (simp add: trim_start_def spaces_def dropWhile_append)
  qed
  have keep: "strip_cr x = x" if "last x \<noteq> carriage_return" for x using that by (auto simp: strip_cr_def)
  have "last (lit ''command: '' @ yaml_escape_scalar bin) \<noteq> carriage_return"
    using set_escape [of bin] cr by (cases "yaml_escape_scalar bin" rule: rev_cases) (auto simp: lit_def carriage_return_def)
  then have "last (spaces (i + 2) @ lit ''command: '' @ yaml_escape_scalar bin) \<noteq> carriage_return" by (simp add: lit_def)
  then have "trim_start (strip_cr (butlast (spaces (i + 2) @ lit ''command: '' @ yaml_escape_scalar bin @ [newline])))
      = lit ''command: '' @ yaml_escape_scalar bin"
    using keep by (simp add: butlast_append lit_def start is_whitespace_def)
  moreover have "trim_start (strip_cr (butlast (spaces (i + 4) @ lit ''- mcp-server'' @ [newline]))) = lit ''- mcp-server''"
    using keep by (simp add: butlast_append lit_def start is_whitespace_def carriage_return_def)
  ultimately show ?thesis unfolding block_current_def block_edited [OF leads bin] by (simp add: Let_def)
qed

section \<open>The three places of a new block\<close>

lemma first_child_positive: "first_child_indent inside ls = Some i \<Longrightarrow> 0 < i"
  by (induction inside ls rule: first_child_indent.induct) (auto split: if_splits option.splits dest: child_indent_positive)

lemma leads_replace:
  assumes "locate False None (split_inclusive y) = Some (A, k, i, R)"
  shows "leads_to A i"
proof -
  have "split_inclusive y = A @ k # R" using locate_split [OF assms] .
  then have "list_all ended A" using ended_before by blast
  moreover have "0 < i" using locate_indent [OF assms] by simp
  ultimately show ?thesis using locate_same_place [OF assms] by (simp add: leads_to_def)
qed

lemma leads_header:
  assumes "list_all ended (A @ [h])" "\<forall>l \<in> set A. top_level_key l \<noteq> Some (lit ''mcpServers'')" "enters_mcp_servers h" "0 < i"
  shows "leads_to (A @ [h]) i"
  using assms locate_after_header [OF assms(2,3) _ assms(4)] by (simp add: leads_to_def)

lemma insert_after_header_Inr:
  "insert_after_header block ls = Inr out \<Longrightarrow>
     \<exists>A h R. ls = A @ h # R \<and> out = concat A @ h @ block @ concat R \<and> enters_mcp_servers h
       \<and> (\<forall>l \<in> set A. top_level_key l \<noteq> Some (lit ''mcpServers''))"
proof (induction block ls arbitrary: out rule: insert_after_header.induct)
  case (2 block l ls)
  show ?case
  proof (cases "top_level_key l = Some (lit ''mcpServers'')")
    case True
    then have "ls = ls \<and> out = concat [] @ l @ block @ concat ls \<and> enters_mcp_servers l"
      using 2(2) by (auto simp: enters_mcp_servers_def split: if_splits)
    then show ?thesis by (intro exI [of _ "[]"] exI [of _ l] exI [of _ ls]) simp
  next
    case False
    then obtain o2 where "insert_after_header block ls = Inr o2" "out = l @ o2"
      using 2(2) by (cases "insert_after_header block ls") auto
    with 2(1) False obtain A h R where "ls = A @ h # R" "o2 = concat A @ h @ block @ concat R" "enters_mcp_servers h"
      "\<forall>l \<in> set A. top_level_key l \<noteq> Some (lit ''mcpServers'')" by blast
    with False \<open>out = l @ o2\<close> show ?thesis by (intro exI [of _ "l # A"] exI [of _ h] exI [of _ R]) simp
  qed
qed simp

abbreviation header_line :: ustr where "header_line \<equiv> lit ''mcpServers:'' @ [newline]"

lemma header_enters: "enters_mcp_servers header_line" "ended header_line"
  by code_simp+

lemma split_once_append: "split_once c x = Some (k, t) \<Longrightarrow> split_once c (x @ w) = Some (k, t @ w)"
proof -
  have "str_find x [c] = Some n \<Longrightarrow> str_find (x @ w) [c] = Some n \<and> n < length x" for n
    by (induction x arbitrary: n) (auto simp: starts_with_def split: if_splits)
  then show "split_once c x = Some (k, t) \<Longrightarrow> split_once c (x @ w) = Some (k, t @ w)"
    by (auto simp: split_once_def find_char_def)
qed

lemma key_before_blanks:
  assumes "z \<noteq> []" "\<not> is_whitespace (last z)" "\<forall>c \<in> set w. is_whitespace c" "top_level_key z = Some k"
  shows "top_level_key (z @ w) = Some k"
proof -
  have eol: "\<not> (last z = newline \<or> last z = carriage_return)"
    using assms(2) by (auto simp: is_whitespace_def newline_def carriage_return_def)
  have te: "trim_eol (z @ v) = z @ trim_eol v" for v
  proof -
    obtain y ys where y: "rev z = y # ys" "y = last z" using assms(1) by (metis hd_rev list.exhaust_sel rev_is_Nil_conv)
    with eol have "\<not> (y = newline \<or> y = carriage_return)" by simp
    with y(1) show ?thesis
      by (auto simp: trim_eol_def trim_end_where_def dropWhile_append dropWhile_eq_Nil_conv)
  qed
  then have z: "trim_eol z = z" using te [of "[]"] by simp
  have ts: "trim_start (z @ v) = trim_start z @ v" "trim_start z \<noteq> []" for v
    using assms(1,2) last_in_set [OF assms(1)] by (auto simp: trim_start_def dropWhile_append dropWhile_eq_Nil_conv)
  have ind: "indent_of z = 0 \<Longrightarrow> indent_of (z @ w) = 0"
    using assms(1) by (cases z) (auto simp: indent_of_def split: if_splits)
  from assms(4) have "indent_of z = 0" and nostart: "\<not> starts_with (trim_start z) (lit ''#'')" "\<not> starts_with (trim_start z) (lit ''-'')"
    by (auto simp: top_level_key_def top_level_key_and_tail_def Let_def z split: if_splits)
  moreover obtain key tail where "split_once (ch CHR '':'') (trim_start z) = Some (key, tail)" "trim_end key = k" "k \<noteq> []"
    using assms(4) by (auto simp: top_level_key_def top_level_key_and_tail_def Let_def z split: if_splits option.splits)
  moreover have "\<not> starts_with (trim_start z @ v) (lit ''#'')" "\<not> starts_with (trim_start z @ v) (lit ''-'')" for v
    using nostart ts(2) by (auto simp: lit_def starts_with_single)
  ultimately show ?thesis
    using ind ts split_once_append [of "ch CHR '':''" "trim_start z" key tail "trim_eol w"]
    by (simp add: top_level_key_def top_level_key_and_tail_def Let_def te)
qed

lemma trim_end_last: "trim_end e \<noteq> [] \<Longrightarrow> \<not> is_whitespace (last (trim_end e))"
  by (simp add: trim_end_def last_rev hd_dropWhile)

lemma trim_end_rest: "\<exists>w. e = trim_end e @ w \<and> (\<forall>c \<in> set w. is_whitespace c)"
proof -
  have "e = rev (takeWhile is_whitespace (rev e) @ dropWhile is_whitespace (rev e))" by simp
  then have "e = trim_end e @ rev (takeWhile is_whitespace (rev e))" unfolding trim_end_def by (simp del: takeWhile_dropWhile_id)
  then show ?thesis by (metis set_rev set_takeWhileD)
qed

lemma trimmed_has_no_section:
  assumes "\<not> has_top_level_mcp_servers e"
  shows "\<forall>l \<in> set (split_inclusive (trim_end e @ [newline])). top_level_key l \<noteq> Some (lit ''mcpServers'')"
proof -
  have no: "\<forall>l \<in> set (split_inclusive e). top_level_key l \<noteq> Some (lit ''mcpServers'')"
  proof -
    have "top_level_key ` set (map trim_eol (lines e)) = top_level_key ` set (map trim_eol (split_inclusive e))"
      by (simp only: lines_split_inclusive)
    then have "top_level_key ` set (lines e) = top_level_key ` set (split_inclusive e)"
      by (simp only: set_map image_image top_level_trim_eol)
    then show ?thesis using assms by (auto simp: has_top_level_mcp_servers_def list_ex_iff) (metis imageI image_iff)
  qed
  obtain w where w: "e = trim_end e @ w" "\<forall>c \<in> set w. is_whitespace c"
    using trim_end_rest by blast
  show ?thesis
  proof (cases "split_inclusive (trim_end e)" rule: rev_cases)
    case Nil
    then have "trim_end e = []" by (metis concat.simps(1) concat_split_inclusive)
    moreover have "top_level_key [newline] = None" by code_simp
    ultimately show ?thesis by simp
  next
    case (snoc B z)
    note z = last_line [OF snoc]
    have nw: "\<not> is_whitespace (last z)"
      using z(1,4) trim_end_last [of e] by (metis append_is_Nil_conv last_appendR)
    then have "last z \<noteq> newline" by (auto simp: is_whitespace_def newline_def)
    with split_single [OF z(3)] z(4) have nl: "newline \<notin> set z" by (metis append_butlast_last_id Un_iff empty_iff empty_set set_ConsD set_append)
    have new: "split_inclusive (trim_end e @ [newline]) = B @ [z @ [newline]]"
      using split_ended [OF z(2), of "z @ [newline]"] split_ended_line [of "z @ [newline]" "[]"] z(1) nl by simp
    obtain w1 ls where w1: "split_inclusive (z @ w) = (z @ w1) # ls" "set w1 \<subseteq> set w"
    proof (cases "newline \<in> set w")
      case True
      then obtain u v where u: "w = u @ newline # v" "newline \<notin> set u" by (meson split_list_first)
      then have "split_inclusive ((z @ u @ [newline]) @ v) = (z @ u @ [newline]) # split_inclusive v"
        using nl by (intro split_ended_line) (metis append_assoc ended_snoc set_append Un_iff)
      with u show ?thesis by (intro that [of "u @ [newline]" "split_inclusive v"]) auto
    next
      case False
      then have "split_inclusive (z @ w) = [z @ w]" using nl z(4) by (intro split_unended) auto
      with that [of w] show ?thesis by simp
    qed
    have "split_inclusive e = B @ (z @ w1) # ls"
      using split_ended [OF z(2), of "z @ w"] w(1) z(1) w1(1) by simp
    with no have "\<forall>l \<in> set B. top_level_key l \<noteq> Some (lit ''mcpServers'')" "top_level_key (z @ w1) \<noteq> Some (lit ''mcpServers'')"
      by auto
    moreover have "top_level_key (z @ [newline]) = top_level_key z"
      by (metis top_level_trim_eol(1) trim_eol_snoc)
    ultimately show ?thesis using key_before_blanks [OF z(4) nw, of w1] w1(2) w(2) by (auto simp: new)
  qed
qed

lemma leads_append:
  assumes "\<not> has_top_level_mcp_servers e"
  shows "leads_to (split_inclusive (trim_end e @ [newline]) @ [header_line]) 2"
proof (rule leads_header)
  have "list_all ended (split_inclusive (trim_end e @ [newline]))" by (rule ended_all) simp
  then show "list_all ended (split_inclusive (trim_end e @ [newline]) @ [header_line])" using header_enters(2) by simp
qed (use trimmed_has_no_section [OF assms] header_enters(1) in simp_all)

text \<open>What a merge writes: our block at one place, the rest as it was.\<close>

lemma goose_merged_form:
  assumes "goose_merged existing bin = Inr (new, replaced)"
  shows "\<exists>A i P. new = concat A @ render_goose_block_at_indent bin i @ concat P
    \<and> (existing = [] \<or> last existing = newline \<longrightarrow> leads_to A i) \<and> (replaced \<longrightarrow> leads_to A i)
    \<and> replaced = yaml_has_difflore_under_mcp_servers existing
    \<and> (if replaced then \<exists>k R. locate False None (split_inclusive existing) = Some (A, k, i, R) \<and> P = dropWhile (is_child_line i) R
       else if existing = [] then A = [header_line] \<and> P = [] \<and> i = 2
       else if has_top_level_mcp_servers existing then split_inclusive existing = A @ P \<and> A \<noteq> [] \<and> enters_mcp_servers (last A)
         \<and> (\<forall>l \<in> set (butlast A). top_level_key l \<noteq> Some (lit ''mcpServers''))
         \<and> i = (case mcp_child_indent existing of Some n \<Rightarrow> n | None \<Rightarrow> 2)
       else P = [] \<and> concat A = trim_end existing @ [newline] @ header_line \<and> i = 2)"
proof -
  have none: "\<not> yaml_has_difflore_under_mcp_servers []" by code_simp
  consider (fresh) "existing = []"
    | (replace) "existing \<noteq> []" "yaml_has_difflore_under_mcp_servers existing"
    | (insert) "existing \<noteq> []" "\<not> yaml_has_difflore_under_mcp_servers existing" "has_top_level_mcp_servers existing"
    | (append) "existing \<noteq> []" "\<not> yaml_has_difflore_under_mcp_servers existing" "\<not> has_top_level_mcp_servers existing"
    by blast
  then show ?thesis
  proof cases
    case fresh
    have "leads_to ([] @ [header_line]) 2" using header_enters by (intro leads_header) auto
    moreover have "new = concat [header_line] @ render_goose_block_at_indent bin 2 @ []" "\<not> replaced"
      using fresh assms by (auto simp: goose_merged_def render_goose_block_def)
    ultimately show ?thesis using fresh none
      by (intro exI [of _ "[header_line]"] exI [of _ 2] exI [of _ "[]"]) simp
  next
    case replace
    then obtain A k i R where loc: "locate False None (split_inclusive existing) = Some (A, k, i, R)"
      by (auto simp: has_locate_split)
    with replace assms have "new = concat A @ render_goose_block_at_indent bin i @ concat (dropWhile (is_child_line i) R)" "replaced"
      by (auto simp: goose_merged_def replace_goose_difflore_block_def replace_locate)
    with leads_replace [OF loc] loc replace(2) show ?thesis
      by (intro exI [of _ A] exI [of _ i] exI [of _ "dropWhile (is_child_line i) R"]) auto
  next
    case insert
    let ?i = "case mcp_child_indent existing of Some i \<Rightarrow> i | None \<Rightarrow> 2"
    obtain out where out: "insert_under_mcp_servers existing bin = Inr out" and new: "new = out" "\<not> replaced"
      using insert assms by (cases "insert_under_mcp_servers existing bin") (auto simp: goose_merged_def)
    from insert_after_header_Inr [OF out [unfolded insert_under_mcp_servers_def]]
    obtain A h R where h: "split_inclusive existing = A @ h # R" "out = concat A @ h @ render_goose_block_at_indent bin ?i @ concat R"
      "enters_mcp_servers h" "\<forall>l \<in> set A. top_level_key l \<noteq> Some (lit ''mcpServers'')" by blast
    have pos: "0 < ?i" by (auto simp: mcp_child_indent_def dest: first_child_positive split: option.split)
    have "leads_to (A @ [h]) ?i" if "last existing = newline"
      using ended_all [of existing] that h pos by (intro leads_header) auto
    then show ?thesis using insert h new
      by (intro exI [of _ "A @ [h]"] exI [of _ ?i] exI [of _ R]) simp
  next
    case append
    then have "new = concat (split_inclusive (trim_end existing @ [newline]) @ [header_line]) @ render_goose_block_at_indent bin 2 @ []" "\<not> replaced"
      using assms by (auto simp: goose_merged_def render_goose_block_def)
    with leads_append [OF append(3)] append show ?thesis
      by (intro exI [of _ "split_inclusive (trim_end existing @ [newline]) @ [header_line]"] exI [of _ 2] exI [of _ "[]"]) auto
  qed
qed

section \<open>The block in the lines of the file\<close>

text \<open>
  Lines \<open>A\<close> in which the section is open at the end, and the indentation \<open>i\<close> of its children: that of the first line behind
  the header that is indented and neither blank nor a comment, here the key line at the latest.
\<close>

definition under_mcp_servers :: "ustr list \<Rightarrow> ustr \<Rightarrow> nat \<Rightarrow> bool" where
  "under_mcp_servers A k i \<longleftrightarrow> (\<exists>B h C cs. A = B @ h # C \<and> enters_mcp_servers h \<and> (\<forall>l \<in> set C. top_level_key l = None)
     \<and> List.map_filter mcp_child_indent_from_line (C @ [k]) = i # cs)"

text \<open>
  Our block in a list of lines: the key line as a child of the section, the lines behind it that are blank or indented deeper,
  all of them.
\<close>

definition block_at :: "ustr list \<Rightarrow> ustr list \<Rightarrow> ustr \<Rightarrow> nat \<Rightarrow> ustr list \<Rightarrow> ustr list \<Rightarrow> bool" where
  "block_at ls A k i old behind \<longleftrightarrow> ls = A @ k # old @ behind \<and> under_mcp_servers A k i
     \<and> (\<exists>tail. k = spaces i @ lit ''difflore:'' @ tail) \<and> (\<forall>l \<in> set old. trim l = [] \<or> i < indent_of l)
     \<and> (behind = [] \<or> (trim (hd behind) \<noteq> [] \<and> indent_of (hd behind) \<le> i))"

lemma locate_under:
  assumes "locate inside ci ls = Some (A, k, i, R)" "\<forall>n. ci = Some n \<longrightarrow> 0 < n"
  shows "(inside \<and> (\<forall>l \<in> set A. top_level_key l = None)
        \<and> (ci = Some i \<or> ci = None \<and> (\<exists>cs. List.map_filter mcp_child_indent_from_line (A @ [k]) = i # cs)))
     \<or> under_mcp_servers A k i"
  using assms
proof (induction inside ci ls arbitrary: A rule: locate.induct)
  case (2 inside ci l ls)
  have under: "under_mcp_servers (l # B) k i" if "under_mcp_servers B k i" for B
    using that unfolding under_mcp_servers_def by (metis append_Cons)
  have pos: "\<forall>n. child_indent_at l inside ci = Some n \<longrightarrow> 0 < n"
    using 2(4) child_indent_positive by (auto simp: child_indent_at_def)
  show ?case
  proof (cases "top_level_key l \<noteq> None")
    case True
    with 2(3) obtain B where B: "A = l # B" "locate (enters_mcp_servers l) None ls = Some (B, k, i, R)"
      by (auto simp: apfst_def map_prod_def)
    from 2(1) [OF True B(2)] show ?thesis
    proof
      assume "enters_mcp_servers l \<and> (\<forall>l \<in> set B. top_level_key l = None)
          \<and> (None = Some i \<or> None = None \<and> (\<exists>cs. List.map_filter mcp_child_indent_from_line (B @ [k]) = i # cs))"
      then obtain cs where "enters_mcp_servers l" "\<forall>l \<in> set B. top_level_key l = None"
        "List.map_filter mcp_child_indent_from_line (B @ [k]) = i # cs" by auto
      then have "under_mcp_servers A k i" unfolding under_mcp_servers_def B(1) by (metis append_Nil)
      then show ?thesis ..
    next
      assume "under_mcp_servers B k i"
      then have "under_mcp_servers A k i" unfolding B(1) by (rule under)
      then show ?thesis ..
    qed simp
  next
    case False
    show ?thesis
    proof (cases "is_difflore_key l inside (child_indent_at l inside ci)")
      case True
      with False 2(3) have e: "A = []" "k = l" "child_indent_at l inside ci = Some i" "inside"
        by (auto simp: Let_def dest: key_indent)
      then show ?thesis by (auto simp: child_indent_at_def List.map_filter_simps split: if_splits)
    next
      case no: False
      with False 2(3) obtain B where B: "A = l # B" "locate inside (child_indent_at l inside ci) ls = Some (B, k, i, R)"
        by (auto simp: Let_def apfst_def map_prod_def)
      from 2(2) [OF _ refl no B(2) pos] False B(1) under show ?thesis
        by (auto simp: child_indent_at_def List.map_filter_simps split: if_splits option.splits)
    qed
  qed
qed simp

lemma lit_append_difflore: "lit ''difflore'' @ lit '':'' = lit ''difflore:''"
  by (simp add: lit_def)

lemma indented_key_form:
  assumes "is_indented_key k (lit ''difflore'') i"
  shows "\<exists>tail. k = spaces i @ lit ''difflore:'' @ tail"
proof -
  let ?t = "trim_eol k"
  have t: "indent_of ?t = i" "starts_with (drop i ?t) (lit ''difflore'')" "starts_with (drop 8 (drop i ?t)) (lit '':'')"
    using assms by (simp_all add: is_indented_key_def Let_def) (simp_all add: lit_def numeral_eq_Suc)
  have "takeWhile (\<lambda>c. c = ch CHR '' '') ?t = spaces i"
    using t(1) unfolding indent_of_def spaces_def by (intro replicate_eqI) (auto dest: set_takeWhileD)
  then have "?t = spaces i @ drop i ?t"
    using t(1) by (metis dropWhile_eq_drop indent_of_def takeWhile_dropWhile_id)
  moreover obtain r where r: "drop i ?t = lit ''difflore'' @ r" using t(2) by (auto simp: starts_with_iff)
  moreover have "drop 8 (drop i ?t) = r" unfolding r by (simp add: lit_def)
  then obtain r2 where "r = lit '':'' @ r2" using t(3) by (auto simp: starts_with_iff)
  moreover obtain e where "k = ?t @ e" using trim_eol_parts by blast
  ultimately show ?thesis
    by (intro exI [of _ "r2 @ e"]) (metis append.assoc lit_append_difflore)
qed

lemma locate_block:
  assumes "locate False None ls = Some (A, k, i, R)"
  shows "block_at ls A k i (takeWhile (is_child_line i) R) (dropWhile (is_child_line i) R)"
proof -
  have "is_indented_key k (lit ''difflore'') i" using locate_indent [OF assms] by (simp add: is_difflore_key_def)
  moreover have "\<forall>l \<in> set (takeWhile (is_child_line i) R). trim l = [] \<or> i < indent_of l"
    by (auto dest!: set_takeWhileD simp: is_child_line_def)
  moreover have "dropWhile (is_child_line i) R = [] \<or> \<not> is_child_line i (hd (dropWhile (is_child_line i) R))"
    using hd_dropWhile by blast
  ultimately show ?thesis
    using locate_split [OF assms] locate_under [OF assms] indented_key_form
    by (auto simp: block_at_def is_child_line_def)
qed

text \<open>Dropping empty sections takes out header lines and nothing else.\<close>

definition bare_header :: "ustr \<Rightarrow> bool" where
  "bare_header l \<longleftrightarrow> trim_end (trim_eol l) = lit ''mcpServers:''"

lemma drop_empty_headers_lines:
  "\<exists>kept. drop_empty_headers ls = concat kept \<and> subseq kept ls
     \<and> filter (\<lambda>l. \<not> bare_header l) kept = filter (\<lambda>l. \<not> bare_header l) ls"
proof (induction ls)
  case (Cons l ls)
  then obtain kept where k: "drop_empty_headers ls = concat kept" "subseq kept ls"
    "filter (\<lambda>l. \<not> bare_header l) kept = filter (\<lambda>l. \<not> bare_header l) ls" by blast
  show ?case
  proof (cases "drop_empty_headers (l # ls) = drop_empty_headers ls \<and> bare_header l")
    case True
    with k show ?thesis by (intro exI [of _ kept]) auto
  next
    case False
    then have "drop_empty_headers (l # ls) = l @ drop_empty_headers ls"
      by (auto simp: Let_def bare_header_def split: if_splits)
    with k show ?thesis by (intro exI [of _ "l # kept"]) simp
  qed
qed (intro exI [of _ "[]"], simp)

lemma block_at_rest:
  assumes "block_at (split_inclusive y) A k i old behind"
  shows "split_inclusive (concat A @ concat behind) = A @ behind"
proof -
  have y: "split_inclusive y = A @ k # old @ behind" using assms by (simp add: block_at_def)
  then have "list_all ended A" using ended_before by blast
  moreover have "split_inclusive (concat behind) = behind" using split_suffix [of y "A @ k # old" behind] y by simp
  ultimately show ?thesis by (simp add: split_ended)
qed

section \<open>Properties\<close>


text \<open>
  C20. Merging writes our block at one place and keeps every other character. A block of ours in the lines of the
  file gives way together with its deeper or blank lines. Otherwise the lines stay and the new block stands right behind
  the first header of the section, at the indentation of the children there; a section that is missing is created
  at the end, where blanks at the end of the text are replaced by one line end.
\<close>

theorem goose_merge_keeps_text:
  assumes "goose_merged existing bin = Inr (new, replaced)"
  shows "replaced = yaml_has_difflore_under_mcp_servers existing
    \<and> (\<exists>A behind i. new = concat A @ render_goose_block_at_indent bin i @ concat behind
    \<and> (if replaced then \<exists>k old. block_at (split_inclusive existing) A k i old behind
       else if existing = [] then concat A = header_line \<and> behind = [] \<and> i = 2
       else if has_top_level_mcp_servers existing then split_inclusive existing = A @ behind \<and> A \<noteq> [] \<and> enters_mcp_servers (last A)
         \<and> (\<forall>l \<in> set (butlast A). top_level_key l \<noteq> Some (lit ''mcpServers''))
         \<and> i = (case mcp_child_indent existing of Some n \<Rightarrow> n | None \<Rightarrow> 2)
       else concat A = trim_end existing @ [newline] @ header_line \<and> behind = [] \<and> i = 2))"
proof -
  obtain A i P where form: "new = concat A @ render_goose_block_at_indent bin i @ concat P"
    "replaced = yaml_has_difflore_under_mcp_servers existing"
    "if replaced then \<exists>k R. locate False None (split_inclusive existing) = Some (A, k, i, R) \<and> P = dropWhile (is_child_line i) R
       else if existing = [] then A = [header_line] \<and> P = [] \<and> i = 2
       else if has_top_level_mcp_servers existing then split_inclusive existing = A @ P \<and> A \<noteq> [] \<and> enters_mcp_servers (last A)
         \<and> (\<forall>l \<in> set (butlast A). top_level_key l \<noteq> Some (lit ''mcpServers''))
         \<and> i = (case mcp_child_indent existing of Some n \<Rightarrow> n | None \<Rightarrow> 2)
       else P = [] \<and> concat A = trim_end existing @ [newline] @ header_line \<and> i = 2"
    using goose_merged_form [OF assms] by blast
  show ?thesis
  proof (cases replaced)
    case True
    with form(3) obtain k R where "locate False None (split_inclusive existing) = Some (A, k, i, R)" "P = dropWhile (is_child_line i) R"
      by auto
    with locate_block have "new = concat A @ render_goose_block_at_indent bin i @ concat P
        \<and> (\<exists>k old. block_at (split_inclusive existing) A k i old P)" using form(1) by blast
    with form(2) True show ?thesis unfolding if_P [OF True] by blast
  next
    case False
    with form show ?thesis
      by (intro conjI exI [of _ A] exI [of _ P] exI [of _ i]) (simp_all split: if_splits)
  qed
qed

theorem goose_merge_keeps_text_witness:
  "\<exists>A k i old behind. block_at (split_inclusive (lit ''mcpServers:'' @ [newline] @ render_goose_block (lit ''old''))) A k i old behind
     \<and> lit ''mcpServers:'' @ [newline] @ render_goose_block (lit ''d'') = concat A @ render_goose_block_at_indent (lit ''d'') i @ concat behind"
proof -
  have "goose_merged (lit ''mcpServers:'' @ [newline] @ render_goose_block (lit ''old'')) (lit ''d'')
      = Inr (lit ''mcpServers:'' @ [newline] @ render_goose_block (lit ''d''), True)" by code_simp
  from goose_merge_keeps_text [OF this] show ?thesis unfolding if_P [OF TrueI] by blast
qed

text \<open>
  C7. After a merge into settings that are empty or end with a line end, for a command without line ends,
  the block is recognised and current: the check of the installation reports it as installed, and the
  removal and the next merge find it.\<close>

theorem goose_install_recognised:
  assumes "goose_merged existing bin = Inr (new, replaced)"
    and "existing = [] \<or> last existing = newline" and "newline \<notin> set bin" and "carriage_return \<notin> set bin"
  shows "yaml_has_difflore_under_mcp_servers new \<and> block_current new bin"
proof -
  from goose_merged_form [OF assms(1)] assms(2) obtain A i post
    where "new = concat A @ render_goose_block_at_indent bin i @ concat post" "leads_to A i" by blast
  then show ?thesis using has_edited [OF _ assms(3)] current_edited [OF _ assms(3,4)] by blast
qed

theorem goose_install_recognised_witness:
  "block_current (lit ''mcpServers:'' @ [newline] @ render_goose_block (lit ''d'')) (lit ''d'')"
proof -
  have "goose_merged [] (lit ''d'') = Inr (lit ''mcpServers:'' @ [newline] @ render_goose_block (lit ''d''), False)"
    by (simp add: goose_merged_def)
  from goose_install_recognised [OF this] show ?thesis by (simp add: lit_def newline_def carriage_return_def)
qed

text \<open>A merge that replaced our block is settled: merging again replaces it by itself and leaves the text as
  it is. (A merge that inserts the block settles with the next one, which also takes the blank lines that
  follow it.)\<close>

theorem goose_replace_settled:
  assumes "goose_merged existing bin = Inr (new, True)" and "newline \<notin> set bin"
  shows "goose_merged new bin = Inr (new, True)"
proof -
  from goose_merged_form [OF assms(1)] obtain A i k R
    where form: "new = concat A @ render_goose_block_at_indent bin i @ concat (dropWhile (is_child_line i) R)" "leads_to A i"
      and loc: "locate False None (split_inclusive existing) = Some (A, k, i, R)" by auto
  let ?D = "dropWhile (is_child_line i) R"
  have "split_inclusive existing = (A @ k # takeWhile (is_child_line i) R) @ ?D" using locate_split [OF loc] by simp
  then have "split_inclusive (concat ?D) = ?D" by (rule split_suffix)
  then have loc2: "locate False None (split_inclusive new) = Some (A, key_line i, i, value_lines bin i @ ?D)"
    using locate_edited [OF form(2) assms(2), of "concat ?D"] form(1) by simp
  moreover have "dropWhile (is_child_line i) (value_lines bin i @ ?D) = dropWhile (is_child_line i) ?D"
    using value_lines_children by (intro dropWhile_append2) blast
  then have "dropWhile (is_child_line i) (value_lines bin i @ ?D) = ?D" by (simp only: dropWhile_idem)
  ultimately have "replace_goose_difflore_block new bin = Inr new"
    using form(1) by (simp add: replace_goose_difflore_block_def replace_locate)
  moreover have "new \<noteq> []" using form(1) by (simp add: render_goose_block_at_indent_def lit_def)
  ultimately show ?thesis using loc2 by (simp add: goose_merged_def has_locate_split)
qed

text \<open>Witness: settings with an older command.\<close>

theorem goose_replace_settled_witness:
  "let old = lit ''mcpServers:'' @ [newline] @ render_goose_block (lit ''old'');
       new = lit ''mcpServers:'' @ [newline] @ render_goose_block (lit ''d'') in
   goose_merged old (lit ''d'') = Inr (new, True) \<and> goose_merged new (lit ''d'') = Inr (new, True)"
proof -
  let ?old = "lit ''mcpServers:'' @ [newline] @ render_goose_block (lit ''old'')"
  let ?new = "lit ''mcpServers:'' @ [newline] @ render_goose_block (lit ''d'')"
  have m: "goose_merged ?old (lit ''d'') = Inr (?new, True)" by code_simp
  have "newline \<notin> set (lit ''d'')" by code_simp
  from goose_replace_settled [OF m this] m show ?thesis by (simp only: Let_def simp_thms)
qed

section \<open>Where the edits go wrong\<close>

text \<open>A section header that is the last line and has no line end: the block is appended to the header
  itself. The text is broken, the block is not recognised, and every further merge fails.\<close>

theorem goose_unterminated_header_broken:
  "let existing = lit ''mcpServers:''; new = existing @ render_goose_block (lit ''d'') in
   goose_merged existing (lit ''d'') = Inr (new, False)
   \<and> \<not> yaml_has_difflore_under_mcp_servers new
   \<and> goose_merged new (lit ''d'') = Inl (lit ''mcpServers must be a block mapping, not an inline value'')"
  by code_simp

text \<open>A comment at the start of a line right after the header: the removal takes the section for empty and
  drops the header, so that the other servers of the user are left without it.\<close>

theorem goose_removal_orphans_servers:
  "let comment = lit ''# mine'' @ [newline]; server = lit ''  other:'' @ [newline] @ lit ''    command: x'' @ [newline] in
   goose_removed (lit ''mcpServers:'' @ [newline] @ comment @ server @ render_goose_block (lit ''d''))
     = Some (Inr (comment @ server))"
  by code_simp

text \<open>A block merged into a section whose children are indented by four is read back with that indentation
  and differs from the block the installer renders for comparison.\<close>

theorem goose_fresh_block_looks_edited:
  "let existing = lit ''mcpServers:'' @ [newline] @ lit ''    other:'' @ [newline] @ lit ''      command: x'' @ [newline] in
   case goose_merged existing (lit ''d'') of
     Inl _ \<Rightarrow> False
   | Inr (new, _) \<Rightarrow> extracted_block new = Some (render_goose_block_at_indent (lit ''d'') 4)
       \<and> extracted_block new \<noteq> Some (render_goose_block (lit ''d''))"
  by code_simp

end
