(* ===== verification/Agent_Registry.thy ===== *)
theory Agent_Registry
  imports Mcp_Config Goose_Laws
begin

text \<open>
  The table of agents and the operations that run over it (\<^verbatim>\<open>installer/registry.rs\<close>, the entry points of
  \<^verbatim>\<open>hooks_install.rs\<close>, \<^verbatim>\<open>clients.rs\<close>, the roll-up of \<^verbatim>\<open>snapshot.rs\<close> and the choice of \<^verbatim>\<open>uninstall.rs\<close>): one row
  per surface, installing and uninstalling a row.
\<close>

section \<open>Clients\<close>

datatype ClientId = ClaudeCode | CodexClient | CursorClient | GeminiCli | WindsurfClient | CopilotCli | Antigravity
  | Goose | Crush | RooCode | Warp | OpenCode

fun wire_name :: "ClientId \<Rightarrow> ustr" where
  "wire_name ClaudeCode = lit ''claude-code''"
| "wire_name CodexClient = lit ''codex''"
| "wire_name CursorClient = lit ''cursor''"
| "wire_name GeminiCli = lit ''gemini-cli''"
| "wire_name WindsurfClient = lit ''windsurf''"
| "wire_name CopilotCli = lit ''copilot-cli''"
| "wire_name Antigravity = lit ''antigravity''"
| "wire_name Goose = lit ''goose''"
| "wire_name Crush = lit ''crush''"
| "wire_name RooCode = lit ''roo-code''"
| "wire_name Warp = lit ''warp''"
| "wire_name OpenCode = lit ''opencode''"

fun display_name :: "ClientId \<Rightarrow> ustr" where
  "display_name ClaudeCode = lit ''Claude Code''"
| "display_name CodexClient = lit ''Codex''"
| "display_name CursorClient = lit ''Cursor''"
| "display_name GeminiCli = lit ''Gemini CLI''"
| "display_name WindsurfClient = lit ''Windsurf''"
| "display_name CopilotCli = lit ''Copilot CLI''"
| "display_name Antigravity = lit ''Antigravity''"
| "display_name Goose = lit ''Goose''"
| "display_name Crush = lit ''Crush''"
| "display_name RooCode = lit ''Roo Code''"
| "display_name Warp = lit ''Warp''"
| "display_name OpenCode = lit ''OpenCode''"

definition wire_table :: "(string list \<times> ClientId) list" where
  "wire_table =
    [([''claude'', ''claude-code'', ''claude_code'', ''claude-cli''], ClaudeCode), ([''codex'', ''codex-cli''], CodexClient),
     ([''cursor'', ''cursor-agent''], CursorClient), ([''gemini'', ''gemini-cli'', ''gemini_cli''], GeminiCli),
     ([''windsurf''], WindsurfClient), ([''copilot'', ''copilot-cli''], CopilotCli), ([''antigravity''], Antigravity),
     ([''goose''], Goose), ([''crush''], Crush), ([''roo'', ''roo-code'', ''roo_code''], RooCode), ([''warp''], Warp),
     ([''opencode'', ''open-code'', ''opencode-cli''], OpenCode)]"

definition from_wire :: "ustr \<Rightarrow> ClientId option" where
  "from_wire name = map_option snd (find (\<lambda>(names, _). to_ascii_lowercase name \<in> set (map lit names)) wire_table)"

section \<open>The table\<close>

datatype BlockKind = McpJson | HooksJson | GooseYaml | ExternalCli

fun kind_str :: "BlockKind \<Rightarrow> ustr" where
  "kind_str McpJson = lit ''mcp_json''"
| "kind_str HooksJson = lit ''hooks_json''"
| "kind_str GooseYaml = lit ''goose_yaml''"
| "kind_str ExternalCli = lit ''external_cli''"

fun current_version :: "BlockKind \<Rightarrow> nat" where
  "current_version McpJson = 2"
| "current_version HooksJson = 7"
| "current_version GooseYaml = 1"
| "current_version ExternalCli = 1"

datatype PathScope = HomeScope | CopilotHomeScope | CwdScope

datatype ConfigFormat =
    JsonFormat ustr
  | YamlFormat
  | CliDelegate (cli: ustr) (add_args: "ustr list") (remove_args: "ustr list") (get_args: "ustr list")
      (remove_dry_run: ustr) (installed_detail: ustr)
  | HooksFormat HookSurface

datatype DetectSignal =
    ParentDir ustr
  | ParentDirOrCli ustr ustr
  | SiblingDir "ustr list list" ustr
  | CliSignal ustr ustr
  | DirOrManual ustr
  | RidesAlong

record AgentSpec =
  as_name :: ustr
  as_client :: ClientId
  as_scope :: PathScope
  as_segments :: "ustr list"
  as_display :: ustr
  as_format :: ConfigFormat
  as_detect :: DetectSignal
  as_skip_if_plugin :: bool

definition spec_row :: "string \<Rightarrow> ClientId \<Rightarrow> PathScope \<Rightarrow> string list \<Rightarrow> string \<Rightarrow> ConfigFormat \<Rightarrow> DetectSignal \<Rightarrow> AgentSpec" where
  "spec_row name client scope segments shown format detect =
     \<lparr>as_name = lit name, as_client = client, as_scope = scope, as_segments = map lit segments, as_display = lit shown,
      as_format = format, as_detect = detect, as_skip_if_plugin = (name = ''Claude Code'')\<rparr>"

definition warp_hint :: ustr where
  "warp_hint = lit ''~/.warp/ not found. In Warp, open Settings '' @ [8594] @ lit '' AI '' @ [8594]
     @ lit '' Manage MCP servers and add: command=`{bin}`, args=['' @ [34] @ lit ''mcp-server'' @ [34] @ lit '']''"

definition AGENTS :: "AgentSpec list" where
  "AGENTS =
    [spec_row ''Claude Code'' ClaudeCode HomeScope [] ''claude mcp add -s user difflore''
       (CliDelegate (lit ''claude'') (map lit [''mcp'', ''add'', ''-s'', ''user'', ''difflore'', ''{bin}'', ''mcp-server''])
          (map lit [''mcp'', ''remove'', ''-s'', ''user'', ''difflore'']) (map lit [''mcp'', ''get'', ''difflore''])
          (lit ''would run: claude mcp remove -s user difflore'') (lit ''user-scope MCP via `claude mcp add`''))
       (CliSignal (lit ''claude'') (lit ''`claude` CLI not on PATH'')),
     spec_row ''Claude Code hooks'' ClaudeCode HomeScope [''.claude'', ''settings.json''] ''~/.claude/settings.json''
       (HooksFormat Claude) RidesAlong,
     spec_row ''Codex'' CodexClient HomeScope [] ''codex mcp add difflore''
       (CliDelegate (lit ''codex'') (map lit [''mcp'', ''add'', ''difflore'', ''--'', ''{bin}'', ''mcp-server''])
          (map lit [''mcp'', ''remove'', ''difflore'']) (map lit [''mcp'', ''get'', ''difflore''])
          (lit ''would run: codex mcp remove difflore'') (lit ''~/.codex/config.toml via `codex mcp add`''))
       (CliSignal (lit ''codex'') (lit ''`codex` CLI not on PATH'')),
     spec_row ''Codex hooks'' CodexClient HomeScope [''.codex'', ''hooks.json''] ''~/.codex/hooks.json''
       (HooksFormat Codex) (ParentDirOrCli (lit ''codex'') (lit ''`codex` CLI not on PATH and ~/.codex/ not found'')),
     spec_row ''Cursor'' CursorClient HomeScope [''.cursor'', ''mcp.json''] ''~/.cursor/mcp.json''
       (JsonFormat (lit ''mcpServers'')) (ParentDir (lit ''~/.cursor/ not found'')),
     spec_row ''Cursor hooks'' CursorClient CwdScope [''.cursor'', ''hooks.json''] ''./.cursor/hooks.json''
       (HooksFormat Cursor) RidesAlong,
     spec_row ''Gemini'' GeminiCli HomeScope [''.gemini'', ''settings.json''] ''~/.gemini/settings.json''
       (JsonFormat (lit ''mcpServers''))
       (ParentDirOrCli (lit ''gemini'') (lit ''~/.gemini/ not found and `gemini` CLI not on PATH'')),
     spec_row ''Gemini hooks'' GeminiCli HomeScope [''.gemini'', ''settings.json''] ''~/.gemini/settings.json''
       (HooksFormat Gemini) RidesAlong,
     spec_row ''Copilot CLI'' CopilotCli CopilotHomeScope [''mcp-config.json''] ''~/.copilot/mcp-config.json''
       (JsonFormat (lit ''mcpServers''))
       (ParentDirOrCli (lit ''copilot'') (lit ''~/.copilot/ not found and `copilot` CLI not on PATH'')),
     spec_row ''Antigravity'' Antigravity HomeScope [''.gemini'', ''antigravity'', ''mcp_config.json'']
       ''~/.gemini/antigravity/mcp_config.json''
       (JsonFormat (lit ''mcpServers'')) (SiblingDir [[lit ''.gemini'']] (lit ''~/.gemini/antigravity/ not found'')),
     spec_row ''Goose'' Goose HomeScope [''.config'', ''goose'', ''config.yaml''] ''~/.config/goose/config.yaml''
       YamlFormat (ParentDirOrCli (lit ''goose'') (lit ''~/.config/goose/ not found and `goose` CLI not on PATH'')),
     spec_row ''Crush'' Crush HomeScope [''.config'', ''crush'', ''crush.json''] ''~/.config/crush/crush.json''
       (JsonFormat (lit ''mcp'')) (ParentDirOrCli (lit ''crush'') (lit ''~/.config/crush/ not found and `crush` CLI not on PATH'')),
     spec_row ''Roo Code'' RooCode CwdScope [''.roo'', ''mcp.json''] ''./.roo/mcp.json''
       (JsonFormat (lit ''mcpServers''))
       (ParentDir (lit ''./.roo/ not found in current workspace (Roo Code is project-local)'')),
     spec_row ''Warp'' Warp HomeScope [''.warp'', ''.mcp.json''] ''~/.warp/.mcp.json''
       (JsonFormat (lit ''mcpServers'')) (DirOrManual warp_hint),
     spec_row ''Windsurf hooks'' WindsurfClient HomeScope [''.codeium'', ''windsurf'', ''hooks.json'']
       ''~/.codeium/windsurf/hooks.json'' (HooksFormat Windsurf) RidesAlong,
     spec_row ''OpenCode'' OpenCode HomeScope [''.config'', ''opencode'', ''opencode.json''] ''~/.config/opencode/opencode.json''
       (JsonFormat (lit ''mcp''))
       (ParentDirOrCli (lit ''opencode'') (lit ''~/.config/opencode/ not found and `opencode` CLI not on PATH''))]"

definition find_spec :: "ustr \<Rightarrow> AgentSpec option" where
  "find_spec name = find (\<lambda>spec. as_name spec = name) AGENTS"

definition block_kind_of :: "AgentSpec \<Rightarrow> BlockKind" where
  "block_kind_of spec = (case as_format spec of JsonFormat _ \<Rightarrow> McpJson | YamlFormat \<Rightarrow> GooseYaml
     | HooksFormat _ \<Rightarrow> HooksJson | CliDelegate _ _ _ _ _ _ \<Rightarrow> ExternalCli)"

definition servers_key_of :: "AgentSpec \<Rightarrow> ustr option" where
  "servers_key_of spec = (case as_format spec of JsonFormat k \<Rightarrow> Some k | _ \<Rightarrow> None)"

definition mcp_entry_shape_of :: "AgentSpec \<Rightarrow> McpEntryShape" where
  "mcp_entry_shape_of spec = (case as_client spec of Crush \<Rightarrow> StdioTyped | OpenCode \<Rightarrow> Opencode | _ \<Rightarrow> Standard)"

definition hook_surface_of :: "AgentSpec \<Rightarrow> HookSurface option" where
  "hook_surface_of spec = (case as_format spec of HooksFormat s \<Rightarrow> Some s | _ \<Rightarrow> None)"

section \<open>Names\<close>

definition surface_key :: "ustr \<Rightarrow> ustr" where
  "surface_key name =
     (if name = lit ''Claude Code'' then lit ''claude''
      else if name = lit ''Claude Code hooks'' then lit ''claude hooks''
      else if name = lit ''Codex hooks'' then lit ''codex hooks'' else to_ascii_lowercase name)"

definition canonical_target_key :: "ustr \<Rightarrow> ustr" where
  "canonical_target_key name =
     (let trimmed = trim name; lower = to_ascii_lowercase trimmed in
      if lower = lit ''claude'' \<or> lower = lit ''claude code'' then lit ''claude''
      else if lower = lit ''claude hooks'' \<or> lower = lit ''claude code hooks'' then lit ''claude hooks''
      else if lower = lit ''codex hooks'' \<or> lower = lit ''codex code hooks'' then lit ''codex hooks''
      else case find (\<lambda>spec. as_name spec = trimmed) AGENTS of
        Some spec \<Rightarrow> surface_key (as_name spec)
      | None \<Rightarrow> lower)"

definition client_name_for_surface :: "ustr \<Rightarrow> ustr" where
  "client_name_for_surface surface =
     (let key = canonical_target_key surface in
      case find (\<lambda>spec. surface_key (as_name spec) = key) AGENTS of
        Some spec \<Rightarrow> display_name (as_client spec) | None \<Rightarrow> lit ''unknown client'')"

section \<open>The machine\<close>

text \<open>
  What the installer asks of the operating system and of libraries: the environment and the home
  directories, the programs on the path, canonical paths, the entries of a directory, the booleans of the table
  \<^verbatim>\<open>features\<close> of a TOML text, and running a program, which is an effect of its own.
\<close>

record command_output =
  co_success :: bool
  co_status :: ustr
  co_stdout :: ustr
  co_stderr :: ustr

record 'f machine =
  json_lib :: "'f host"
  json_text :: "'f json \<Rightarrow> ustr"
  mcp_home :: "path option"
  copilot_env :: "path option"
  user_home :: "path option"
  current_dir :: "ustr + path"
  on_path :: "ustr \<Rightarrow> bool"
  canonical :: "ustr \<Rightarrow> ustr option"
  dir_entries :: "path \<Rightarrow> ustr list option"
  toml_features :: "ustr \<Rightarrow> (ustr \<Rightarrow> bool option) option"
  run_command :: "ustr \<Rightarrow> ustr list \<Rightarrow> command_output fs"

definition home_path :: "'f machine \<Rightarrow> ustr list \<Rightarrow> ustr + path" where
  "home_path M segs = (case (case mcp_home M of Some p \<Rightarrow> Some p | None \<Rightarrow> user_home M) of
     Some p \<Rightarrow> Inr (p @ segs) | None \<Rightarrow> Inl (lit ''could not resolve home directory''))"

definition copilot_root_from :: "path option \<Rightarrow> path option \<Rightarrow> path option \<Rightarrow> ustr + path" where
  "copilot_root_from mcp copilot home = (case mcp of
     Some root \<Rightarrow> Inr (root @ [lit ''.copilot''])
   | None \<Rightarrow> (case copilot of
       Some root \<Rightarrow> Inr root
     | None \<Rightarrow> (case home of
         Some root \<Rightarrow> Inr (root @ [lit ''.copilot''])
       | None \<Rightarrow> Inl (lit ''could not resolve Copilot CLI configuration directory''))))"

definition copilot_home_path :: "'f machine \<Rightarrow> ustr list \<Rightarrow> ustr + path" where
  "copilot_home_path M segs = map_sum id (\<lambda>p. p @ segs) (copilot_root_from (mcp_home M) (copilot_env M) (user_home M))"

definition cwd_path :: "'f machine \<Rightarrow> ustr list \<Rightarrow> ustr + path" where
  "cwd_path M segs = map_sum (\<lambda>e. lit ''could not resolve cwd: '' @ e) (\<lambda>p. p @ segs) (current_dir M)"

definition resolve_path :: "'f machine \<Rightarrow> AgentSpec \<Rightarrow> ustr + path" where
  "resolve_path M spec = (case as_scope spec of
     HomeScope \<Rightarrow> home_path M (as_segments spec)
   | CopilotHomeScope \<Rightarrow> copilot_home_path M (as_segments spec)
   | CwdScope \<Rightarrow> cwd_path M (as_segments spec))"

definition claude_plugin_installed :: "'f machine \<Rightarrow> bool fs" where
  "claude_plugin_installed M = (case home_path M (map lit [''.claude'', ''plugins'', ''cache'']) of
     Inl _ \<Rightarrow> ret False
   | Inr cache_dir \<Rightarrow> (case dir_entries M cache_dir of
       None \<Rightarrow> ret False
     | Some owners \<Rightarrow> get (\<lambda>d. list_ex (\<lambda>owner. dirs d (cache_dir @ [owner, lit ''difflore''])) owners)))"

definition error_outcome :: "ustr \<Rightarrow> ustr \<Rightarrow> TargetOutcome" where
  "error_outcome name e = \<lparr>to_name = name, to_status = Error e, to_detail = []\<rparr>"

definition skipped_outcome :: "ustr \<Rightarrow> ustr \<Rightarrow> TargetOutcome" where
  "skipped_outcome name msg = \<lparr>to_name = name, to_status = Skipped msg, to_detail = []\<rparr>"

section \<open>Hooks of the clients\<close>

definition finalize_hook_outcome :: "ustr \<Rightarrow> path \<Rightarrow> ustr + bool \<Rightarrow> TargetOutcome" where
  "finalize_hook_outcome name p r = (case r of
     Inr existed \<Rightarrow> \<lparr>to_name = name, to_status = (if existed then Updated else Installed), to_detail = display_path p\<rparr>
   | Inl e \<Rightarrow> error_outcome name e)"

definition finalize_uninstall_outcome :: "ustr \<Rightarrow> path \<Rightarrow> ustr + bool \<Rightarrow> TargetOutcome" where
  "finalize_uninstall_outcome name p r = (case r of
     Inr True \<Rightarrow> \<lparr>to_name = name, to_status = Removed, to_detail = display_path p\<rparr>
   | Inr False \<Rightarrow> skipped_outcome name (lit ''no difflore hooks to remove'')
   | Inl e \<Rightarrow> error_outcome name e)"

definition at_path :: "ustr \<Rightarrow> ustr + path \<Rightarrow> (path \<Rightarrow> TargetOutcome fs) \<Rightarrow> TargetOutcome fs" where
  "at_path name r f = (case r of Inl e \<Rightarrow> ret (error_outcome name e) | Inr p \<Rightarrow> f p)"

definition install_claude_code_hooks :: "'f machine \<Rightarrow> ustr \<Rightarrow> nat fs" where
  "install_claude_code_hooks M bin = (case home_path M (map lit [''.claude'', ''settings.json'']) of
     Inl e \<Rightarrow> fail e | Inr p \<Rightarrow> merge_claude_code_hooks (json_lib M) p bin)"

definition uninstall_claude_code_hooks :: "'f machine \<Rightarrow> bool \<Rightarrow> nat fs" where
  "uninstall_claude_code_hooks M dry_run = (case home_path M (map lit [''.claude'', ''settings.json'']) of
     Inl e \<Rightarrow> fail e | Inr p \<Rightarrow> remove_claude_code_hooks (json_lib M) p dry_run)"

definition disabled_key :: "(ustr \<Rightarrow> bool option) \<Rightarrow> ustr option" where
  "disabled_key features = find (\<lambda>k. features k = Some False) (map lit [''hooks'', ''codex_hooks''])"

definition codex_hooks_disabled_hint_at :: "'f machine \<Rightarrow> path \<Rightarrow> ustr option fs" where
  "codex_hooks_disabled_hint_at M p = andthen (attempt (read_to_string p)) (\<lambda>r. ret (case r of
     Inl _ \<Rightarrow> None
   | Inr raw \<Rightarrow> map_option (\<lambda>k. display_path p @ lit '' disables Codex hooks with [features].'' @ k
       @ lit ''=false; remove it or set it to true'') (Option.bind (toml_features M raw) disabled_key)))"

definition codex_hooks_disabled_hint :: "'f machine \<Rightarrow> ustr option fs" where
  "codex_hooks_disabled_hint M = (case home_path M (map lit [''.codex'', ''config.toml'']) of
     Inl _ \<Rightarrow> ret None | Inr p \<Rightarrow> codex_hooks_disabled_hint_at M p)"

definition finalize_codex_hook_outcome :: "'f machine \<Rightarrow> path \<Rightarrow> ustr + bool \<Rightarrow> TargetOutcome fs" where
  "finalize_codex_hook_outcome M p r = (case r of
     Inr existed \<Rightarrow> andthen (codex_hooks_disabled_hint M) (\<lambda>hint.
       ret \<lparr>to_name = lit ''Codex hooks'', to_status = (if existed then Updated else Installed),
            to_detail = (case hint of Some h \<Rightarrow> display_path p @ lit '' ('' @ h @ lit '')'' | None \<Rightarrow> display_path p)\<rparr>)
   | Inl e \<Rightarrow> ret (error_outcome (lit ''Codex hooks'') e))"

definition install_codex_hooks :: "'f machine \<Rightarrow> ustr \<Rightarrow> bool \<Rightarrow> TargetOutcome fs" where
  "install_codex_hooks M bin dry_run = at_path (lit ''Codex hooks'') (home_path M (map lit [''.codex'', ''hooks.json''])) (\<lambda>p.
     andthen (attempt (merge_codex_hooks (json_lib M) p bin dry_run)) (finalize_codex_hook_outcome M p))"

definition install_cursor_hooks :: "'f machine \<Rightarrow> ustr \<Rightarrow> bool \<Rightarrow> TargetOutcome fs" where
  "install_cursor_hooks M bin dry_run = at_path (lit ''Cursor hooks'') (cwd_path M [lit ''.cursor'']) (\<lambda>cursor_dir.
     andthen (path_exists cursor_dir) (\<lambda>e.
     if \<not> e then ret (skipped_outcome (lit ''Cursor hooks'') (lit ''./.cursor/ not found (Cursor hooks are project-local)''))
     else let p = cursor_dir @ [lit ''hooks.json''] in
       andthen (attempt (merge_cursor_hooks (json_lib M) p bin dry_run)) (\<lambda>r. ret (finalize_hook_outcome (lit ''Cursor hooks'') p r))))"

definition exists_opt :: "path option \<Rightarrow> bool fs" where
  "exists_opt p = (case p of None \<Rightarrow> ret False | Some q \<Rightarrow> path_exists q)"

definition install_gemini_cli_hooks :: "'f machine \<Rightarrow> ustr \<Rightarrow> bool \<Rightarrow> TargetOutcome fs" where
  "install_gemini_cli_hooks M bin dry_run =
     at_path (lit ''Gemini hooks'') (home_path M (map lit [''.gemini'', ''settings.json''])) (\<lambda>p.
     andthen (exists_opt (parent_path p)) (\<lambda>parent_exists.
     if \<not> parent_exists \<and> \<not> on_path M (lit ''gemini'')
     then ret (skipped_outcome (lit ''Gemini hooks'') (lit ''~/.gemini/ not found and `gemini` CLI not on PATH''))
     else at_path (lit ''Gemini hooks'') (home_path M (map lit [''.gemini'', ''GEMINI.md''])) (\<lambda>md.
       andthen (attempt (merge_gemini_cli_hooks (json_lib M) p md bin dry_run)) (\<lambda>r.
         ret (finalize_hook_outcome (lit ''Gemini hooks'') p r)))))"

definition ok_path :: "ustr + path \<Rightarrow> path option" where
  "ok_path r = (case r of Inl _ \<Rightarrow> None | Inr p \<Rightarrow> Some p)"

definition install_windsurf_hooks :: "'f machine \<Rightarrow> ustr \<Rightarrow> bool \<Rightarrow> TargetOutcome fs" where
  "install_windsurf_hooks M bin dry_run =
     at_path (lit ''Windsurf hooks'') (home_path M (map lit [''.codeium'', ''windsurf'', ''hooks.json''])) (\<lambda>p.
     andthen (exists_opt (parent_path p)) (\<lambda>hooks_parent.
     andthen (exists_opt (ok_path (home_path M (map lit [''.codeium'', ''windsurf''])))) (\<lambda>windsurf_root.
     andthen (exists_opt (ok_path (home_path M [lit ''.codeium'']))) (\<lambda>codeium_root.
     if \<not> (hooks_parent \<or> windsurf_root \<or> codeium_root)
     then ret (skipped_outcome (lit ''Windsurf hooks'') (lit ''~/.codeium/ not found''))
     else at_path (lit ''Windsurf hooks'') (cwd_path M (map lit [''.windsurf'', ''rules'', ''difflore-context.md''])) (\<lambda>context.
       andthen (attempt (merge_windsurf_hooks (json_lib M) p context bin dry_run)) (\<lambda>r.
         ret (finalize_hook_outcome (lit ''Windsurf hooks'') p r)))))))"

definition uninstall_codex_hooks :: "'f machine \<Rightarrow> bool \<Rightarrow> TargetOutcome fs" where
  "uninstall_codex_hooks M dry_run = at_path (lit ''Codex hooks'') (home_path M (map lit [''.codex'', ''hooks.json''])) (\<lambda>p.
     andthen (attempt (remove_codex_hooks (json_lib M) p dry_run)) (\<lambda>r. ret (finalize_uninstall_outcome (lit ''Codex hooks'') p r)))"

definition uninstall_cursor_hooks :: "'f machine \<Rightarrow> bool \<Rightarrow> TargetOutcome fs" where
  "uninstall_cursor_hooks M dry_run = at_path (lit ''Cursor hooks'') (cwd_path M [lit ''.cursor'']) (\<lambda>cursor_dir.
     let p = cursor_dir @ [lit ''hooks.json''] in
     andthen (attempt (remove_cursor_hooks (json_lib M) p dry_run)) (\<lambda>r. ret (finalize_uninstall_outcome (lit ''Cursor hooks'') p r)))"

definition uninstall_gemini_cli_hooks :: "'f machine \<Rightarrow> bool \<Rightarrow> TargetOutcome fs" where
  "uninstall_gemini_cli_hooks M dry_run =
     at_path (lit ''Gemini hooks'') (home_path M (map lit [''.gemini'', ''settings.json''])) (\<lambda>p.
     andthen (attempt (remove_gemini_cli_hooks (json_lib M) p dry_run)) (\<lambda>r. ret (finalize_uninstall_outcome (lit ''Gemini hooks'') p r)))"

definition uninstall_windsurf_hooks :: "'f machine \<Rightarrow> bool \<Rightarrow> TargetOutcome fs" where
  "uninstall_windsurf_hooks M dry_run =
     at_path (lit ''Windsurf hooks'') (home_path M (map lit [''.codeium'', ''windsurf'', ''hooks.json''])) (\<lambda>p.
     andthen (attempt (remove_windsurf_hooks (json_lib M) p dry_run)) (\<lambda>r. ret (finalize_uninstall_outcome (lit ''Windsurf hooks'') p r)))"

section \<open>Probes of hooks\<close>

datatype JsonHookProber = ByName | ByGroup | ByCommand ustr | ByNestedCommand ustr

fun prober_matches :: "JsonHookProber \<Rightarrow> 'f json \<Rightarrow> bool" where
  "prober_matches ByName v \<longleftrightarrow> entry_named v"
| "prober_matches ByGroup v \<longleftrightarrow> any_inner entry_named v"
| "prober_matches (ByCommand client) v \<longleftrightarrow> entry_runs client v"
| "prober_matches (ByNestedCommand client) v \<longleftrightarrow> any_inner (entry_runs client) v"

definition hooks_match :: "JsonHookProber \<Rightarrow> 'f obj \<Rightarrow> bool" where
  "hooks_match prober hooks \<longleftrightarrow> list_ex (\<lambda>(_, v). case as_array v of
     Some arr \<Rightarrow> list_ex (prober_matches prober) arr | None \<Rightarrow> False) hooks"

definition target_status :: "ustr \<Rightarrow> bool \<Rightarrow> InstallState \<Rightarrow> ustr option \<Rightarrow> TargetStatus" where
  "target_status name detected state detail = \<lparr>ts_name = name, ts_detected = detected, ts_state = state, ts_detail = detail\<rparr>"

definition probe_json_hooks :: "'f host \<Rightarrow> ustr \<Rightarrow> path \<Rightarrow> JsonHookProber \<Rightarrow> TargetStatus fs" where
  "probe_json_hooks H name p prober = andthen (path_exists p) (\<lambda>e.
     if \<not> e then ret (target_status name False NotInstalled (Some (display_path p @ lit '' not found'')))
     else andthen (attempt (load_json_object H p)) (\<lambda>r. ret (case r of
       Inl m \<Rightarrow> target_status name True Conflict (Some m)
     | Inr cfg \<Rightarrow> (case Option.bind (map_of cfg (lit ''hooks'')) as_object of
         None \<Rightarrow> target_status name True NotInstalled (Some (display_path p @ lit '' has no hooks object''))
       | Some hooks \<Rightarrow> target_status name True (if hooks_match prober hooks then InstalledState else NotInstalled)
           (Some (display_path p))))))"

definition probe_codex_hooks :: "'f machine \<Rightarrow> ustr \<Rightarrow> path \<Rightarrow> TargetStatus fs" where
  "probe_codex_hooks M name p = andthen (probe_json_hooks (json_lib M) name p (ByNestedCommand (lit ''codex''))) (\<lambda>status.
     if ts_state status = InstalledState then andthen (codex_hooks_disabled_hint M) (\<lambda>hint. ret (case hint of
         Some h \<Rightarrow> status\<lparr>ts_state := Conflict, ts_detail := Some h\<rparr> | None \<Rightarrow> status))
     else ret status)"

section \<open>Probes of command line tools\<close>

fun labeled_line :: "ustr \<Rightarrow> ustr list \<Rightarrow> ustr option" where
  "labeled_line label [] = None"
| "labeled_line label (l # ls) =
     (case split_once (ch CHR '':'') (trim l) of
        Some (key, v) \<Rightarrow> if str_eq_ignore_ascii_case (trim key) label then Some (trim v) else labeled_line label ls
      | None \<Rightarrow> labeled_line label ls)"

definition labeled_cli_value :: "ustr \<Rightarrow> ustr \<Rightarrow> ustr option" where
  "labeled_cli_value stdout label = labeled_line label (lines stdout)"

definition parse_cli_args_value :: "'f host \<Rightarrow> ustr \<Rightarrow> ustr list" where
  "parse_cli_args_value H v =
     (let trimmed = trim v in
      if trimmed = [] \<or> trimmed = lit ''-'' then []
      else case (case parse_json H trimmed of Inr j \<Rightarrow> as_array j | Inl _ \<Rightarrow> None) of
        Some items \<Rightarrow> List.map_filter as_str items
      | None \<Rightarrow> split_whitespace trimmed)"

text \<open>\<open>debug_list\<close>: the debug form of a list of strings.\<close>

definition format_cli_args_detail :: "(ustr list \<Rightarrow> ustr) \<Rightarrow> ustr list \<Rightarrow> ustr" where
  "format_cli_args_detail debug_list args = (if args = [] then lit ''(missing)'' else debug_list args)"

definition evaluate_cli_mcp_get_output ::
    "'f machine \<Rightarrow> (ustr list \<Rightarrow> ustr) \<Rightarrow> ustr \<Rightarrow> ustr \<Rightarrow> ustr list \<Rightarrow> ustr \<Rightarrow> ustr \<Rightarrow> TargetStatus" where
  "evaluate_cli_mcp_get_output M debug_list name tool args expected stdout =
     (let call = lit ''`'' @ tool @ lit '' '' @ str_join (lit '' '') args @ lit ''`'' in
      case labeled_cli_value stdout (lit ''command'') of
        None \<Rightarrow> target_status name True UnknownState
          (Some (call @ lit '' succeeded but DiffLore could not parse a command from its output''))
      | Some command \<Rightarrow>
          (let actual = (case labeled_cli_value stdout (lit ''args'') of Some v \<Rightarrow> parse_cli_args_value (json_lib M) v | None \<Rightarrow> []) in
           if cli_command_matches (canonical M) command expected \<and> actual = [MCP_SERVER_ARG]
           then target_status name True InstalledState None
           else target_status name True Conflict (Some (call @ lit '' difflore entry drifted (command='' @ command
             @ lit '', args='' @ format_cli_args_detail debug_list actual @ lit '')''))))"

definition probe_cli_mcp :: "'f machine \<Rightarrow> (ustr list \<Rightarrow> ustr) \<Rightarrow> ustr \<Rightarrow> ustr \<Rightarrow> ustr list \<Rightarrow> ustr \<Rightarrow> TargetStatus fs" where
  "probe_cli_mcp M debug_list name tool args expected =
     (let call = lit ''`'' @ tool @ lit '' '' @ str_join (lit '' '') args @ lit ''`'' in
      if \<not> on_path M tool then ret (target_status name False NotInstalled (Some (lit ''`'' @ tool @ lit ''` CLI not on PATH'')))
      else andthen (attempt (run_command M tool args)) (\<lambda>r. ret (case r of
        Inl e \<Rightarrow> target_status name True UnknownState (Some (lit ''could not invoke `'' @ tool @ lit ''`: '' @ e))
      | Inr out \<Rightarrow>
          if co_success out then evaluate_cli_mcp_get_output M debug_list name tool args expected (co_stdout out)
          else (let stderr = trim (co_stderr out) in
            target_status name True
              (if list_ex (\<lambda>w. str_contains stderr (lit w)) [''invalid'', ''parse'', ''malformed'', ''corrupt''] then Conflict else NotInstalled)
              (Some (call @ lit '' exit '' @ co_status out @ (if stderr = [] then [] else lit '': '' @ stderr)))))))"

section \<open>The drivers\<close>

definition with_path :: "'f machine \<Rightarrow> AgentSpec \<Rightarrow> (path \<Rightarrow> TargetStatus fs) \<Rightarrow> TargetStatus fs" where
  "with_path M spec f = (case resolve_path M spec of
     Inr p \<Rightarrow> f p
   | Inl _ \<Rightarrow> ret (target_status (as_name spec) False UnknownState (Some (lit ''could not resolve '' @ as_display spec))))"

definition detect :: "'f machine \<Rightarrow> (ustr list \<Rightarrow> ustr) \<Rightarrow> AgentSpec \<Rightarrow> ustr \<Rightarrow> TargetStatus fs" where
  "detect M debug_list spec bin = (let H = json_lib M; name = as_name spec in case as_format spec of
     CliDelegate c _ _ args _ _ \<Rightarrow> probe_cli_mcp M debug_list name c args bin
   | JsonFormat servers_key \<Rightarrow>
       with_path M spec (\<lambda>p. probe_json_install H (canonical M) (json_text M) name p servers_key bin (mcp_entry_shape_of spec))
   | YamlFormat \<Rightarrow> with_path M spec (\<lambda>p. probe_goose_install name p bin)
   | HooksFormat s \<Rightarrow> with_path M spec (\<lambda>p. case s of
       Claude \<Rightarrow> probe_json_hooks H name p (ByNestedCommand (lit ''claude-code''))
     | Codex \<Rightarrow> probe_codex_hooks M name p
     | Cursor \<Rightarrow> probe_json_hooks H name p ByName
     | Gemini \<Rightarrow> probe_json_hooks H name p ByGroup
     | Windsurf \<Rightarrow> probe_json_hooks H name p (ByCommand (lit ''windsurf''))))"

definition parent_exists :: "'f machine \<Rightarrow> AgentSpec \<Rightarrow> bool fs" where
  "parent_exists M spec = exists_opt (Option.bind (ok_path (resolve_path M spec)) parent_path)"

fun any_sibling_exists :: "'f machine \<Rightarrow> ustr list list \<Rightarrow> bool fs" where
  "any_sibling_exists M [] = ret False"
| "any_sibling_exists M (seg # segs) =
     andthen (exists_opt (ok_path (home_path M seg))) (\<lambda>e. if e then ret True else any_sibling_exists M segs)"

definition replace_bin :: "ustr \<Rightarrow> ustr \<Rightarrow> ustr" where
  "replace_bin hint bin = str_join bin (split_str (lit ''{bin}'') hint)"

definition detect_gate :: "'f machine \<Rightarrow> AgentSpec \<Rightarrow> TargetOutcome option fs" where
  "detect_gate M spec =
     (let skip = (\<lambda>absent reason. ret (if absent then Some (skipped_outcome (as_name spec) reason) else None)) in
      case as_detect spec of
        CliSignal c reason \<Rightarrow> skip (\<not> on_path M c) reason
      | ParentDir reason \<Rightarrow> andthen (parent_exists M spec) (\<lambda>e. skip (\<not> e) reason)
      | ParentDirOrCli c reason \<Rightarrow> andthen (parent_exists M spec) (\<lambda>e. skip (\<not> e \<and> \<not> on_path M c) reason)
      | SiblingDir segs reason \<Rightarrow> andthen (any_sibling_exists M segs) (\<lambda>e. skip (\<not> e) reason)
      | DirOrManual hint \<Rightarrow> andthen (parent_exists M spec) (\<lambda>e. skip (\<not> e) (replace_bin hint (lit ''difflore'')))
      | RidesAlong \<Rightarrow> ret None)"

definition cli_delegate_dry_run :: "ustr \<Rightarrow> ustr list \<Rightarrow> ustr \<Rightarrow> ustr" where
  "cli_delegate_dry_run c args bin =
     lit ''would run: '' @ c @ lit '' '' @ str_join (lit '' '') (map (\<lambda>a. if a = lit ''{bin}'' then bin else a) args)"

definition add_command_label :: "ustr list \<Rightarrow> ustr" where
  "add_command_label args = str_join (lit '' '') (take 2 args)"

definition claude_hook_summary :: "ustr + nat \<Rightarrow> ustr" where
  "claude_hook_summary r = (case r of
     Inr n \<Rightarrow> if 0 < n then lit ''user-scope MCP + '' @ show_nat n @ lit '' lifecycle hooks merged into ~/.claude/settings.json''
              else lit ''user-scope MCP via `claude mcp add` (hooks already up-to-date)''
   | Inl e \<Rightarrow> lit ''user-scope MCP via `claude mcp add` (hook merge failed: '' @ e
       @ lit ''; rerun later or use `/plugin install difflore` inside Claude Code)'')"

definition install_cli_delegate ::
    "'f machine \<Rightarrow> AgentSpec \<Rightarrow> ustr \<Rightarrow> ustr list \<Rightarrow> ustr list \<Rightarrow> ustr \<Rightarrow> ustr \<Rightarrow> ustr \<Rightarrow> bool \<Rightarrow> TargetOutcome fs" where
  "install_cli_delegate M spec c add remove detail mcp_bin cli_bin dry_run =
     (if dry_run then ret \<lparr>to_name = as_name spec, to_status = Installed, to_detail = cli_delegate_dry_run c add mcp_bin\<rparr>
      else andthen (attempt (run_command M c remove)) (\<lambda>_.
        andthen (attempt (run_command M c (map (\<lambda>a. if a = lit ''{bin}'' then mcp_bin else a) add))) (\<lambda>r.
        case r of
          Inl e \<Rightarrow> ret (error_outcome (as_name spec) (lit ''could not invoke `'' @ c @ lit ''`: '' @ e))
        | Inr out \<Rightarrow>
            if \<not> co_success out then ret (error_outcome (as_name spec) (lit ''`'' @ c @ lit '' '' @ add_command_label add
              @ lit ''` exit '' @ co_status out @ lit '': '' @ trim (co_stderr out)))
            else if as_skip_if_plugin spec then andthen (attempt (install_claude_code_hooks M cli_bin)) (\<lambda>h.
              ret \<lparr>to_name = as_name spec, to_status = Installed, to_detail = claude_hook_summary h\<rparr>)
            else ret \<lparr>to_name = as_name spec, to_status = Installed, to_detail = detail\<rparr>)))"

definition install :: "'f machine \<Rightarrow> AgentSpec \<Rightarrow> ustr \<Rightarrow> ustr \<Rightarrow> bool \<Rightarrow> TargetOutcome fs" where
  "install M spec mcp_bin cli_bin dry_run = (let H = json_lib M; name = as_name spec in
     andthen (detect_gate M spec) (\<lambda>gate. case gate of Some skip \<Rightarrow> ret skip | None \<Rightarrow>
     andthen (if as_skip_if_plugin spec then claude_plugin_installed M else ret False) (\<lambda>plugin.
     if plugin then ret \<lparr>to_name = name,
       to_status = Skipped (lit ''DiffLore plugin already installed; MCP + hooks auto-registered''),
       to_detail = lit ''~/.claude/plugins/cache/.../difflore/''\<rparr>
     else case as_format spec of
       CliDelegate c add remove _ _ detail \<Rightarrow> install_cli_delegate M spec c add remove detail mcp_bin cli_bin dry_run
     | JsonFormat servers_key \<Rightarrow> at_path name (resolve_path M spec) (\<lambda>p.
         finish_json_install H name p mcp_bin servers_key (mcp_entry_shape_of spec) dry_run)
     | YamlFormat \<Rightarrow> at_path name (resolve_path M spec) (\<lambda>p.
         andthen (attempt (merge_goose_yaml_config p mcp_bin dry_run)) (\<lambda>r. ret (finalize_hook_outcome name p r)))
     | HooksFormat s \<Rightarrow> (case s of
         Claude \<Rightarrow> ret (skipped_outcome name (lit ''installed with Claude Code MCP''))
       | Codex \<Rightarrow> install_codex_hooks M cli_bin dry_run
       | Cursor \<Rightarrow> install_cursor_hooks M cli_bin dry_run
       | Gemini \<Rightarrow> install_gemini_cli_hooks M cli_bin dry_run
       | Windsurf \<Rightarrow> install_windsurf_hooks M cli_bin dry_run))))"

definition replace_str :: "ustr \<Rightarrow> ustr \<Rightarrow> ustr \<Rightarrow> ustr" where
  "replace_str from_s to_s s = str_join to_s (split_str from_s s)"

definition uninstall_claude_code_combined :: "'f machine \<Rightarrow> bool \<Rightarrow> TargetOutcome fs" where
  "uninstall_claude_code_combined M dry_run = (let name = lit ''Claude Code''; result = (\<lambda>st d. \<lparr>to_name = name, to_status = st, to_detail = d\<rparr>) in
     andthen (claude_plugin_installed M) (\<lambda>plugin.
     if plugin then ret (result
       (Skipped (lit ''DiffLore plugin manages MCP + hooks; remove with `/plugin uninstall difflore` inside Claude Code''))
       (lit ''~/.claude/plugins/cache/.../difflore/''))
     else andthen (attempt (uninstall_claude_code_hooks M dry_run)) (\<lambda>r. case r of
       Inl err \<Rightarrow> ret (result (Error (lit ''hook removal failed: '' @ err)) [])
     | Inr hooks_removed \<Rightarrow>
         (let summary = (if 0 < hooks_removed
            then (if dry_run then lit ''would remove '' else lit ''removed '') @ show_nat hooks_removed
                   @ lit '' lifecycle hook group(s) from ~/.claude/settings.json''
            else lit ''no DiffLore hooks in ~/.claude/settings.json'') in
          if \<not> on_path M (lit ''claude'') then
            ret (if 0 < hooks_removed then result Removed summary
                 else result (Skipped (lit ''`claude` CLI not on PATH and no DiffLore hooks to remove'')) [])
          else if dry_run then ret (result Removed (lit ''would run: claude mcp remove -s user difflore; '' @ summary))
          else andthen (attempt (run_command M (lit ''claude'') (map lit [''mcp'', ''remove'', ''-s'', ''user'', ''difflore'']))) (\<lambda>_.
            ret (result Removed (lit ''user-scope MCP removed via `claude mcp remove`; '' @ summary)))))))"

definition uninstall_cli_delegate :: "'f machine \<Rightarrow> AgentSpec \<Rightarrow> ustr \<Rightarrow> ustr list \<Rightarrow> ustr \<Rightarrow> ustr \<Rightarrow> bool \<Rightarrow> TargetOutcome fs" where
  "uninstall_cli_delegate M spec c remove dry_text detail dry_run =
     (let name = as_name spec; via = lit '' via `'' @ c @ lit '' mcp remove`'' in
      if as_skip_if_plugin spec then uninstall_claude_code_combined M dry_run
      else if \<not> on_path M c then ret (skipped_outcome name (lit ''`'' @ c @ lit ''` CLI not on PATH''))
      else if dry_run then ret \<lparr>to_name = name, to_status = Removed, to_detail = dry_text\<rparr>
      else andthen (attempt (run_command M c remove)) (\<lambda>r. ret (case r of
        Inl e \<Rightarrow> error_outcome name (lit ''could not invoke `'' @ c @ lit ''`: '' @ e)
      | Inr out \<Rightarrow>
          if co_success out then \<lparr>to_name = name, to_status = Removed,
            to_detail = replace_str (lit '' via `claude mcp add`'') via (replace_str (lit '' via `codex mcp add`'') via detail)\<rparr>
          else skipped_outcome name (lit ''`'' @ c @ lit '' mcp remove` exit '' @ co_status out
            @ lit '' (likely no difflore entry): '' @ trim (co_stderr out)))))"

definition finalize_yaml_uninstall :: "ustr \<Rightarrow> path \<Rightarrow> ustr + bool \<Rightarrow> TargetOutcome" where
  "finalize_yaml_uninstall name p r = (case r of
     Inr True \<Rightarrow> \<lparr>to_name = name, to_status = Removed, to_detail = display_path p\<rparr>
   | Inr False \<Rightarrow> skipped_outcome name (lit ''no difflore block to remove'')
   | Inl e \<Rightarrow> error_outcome name e)"

definition uninstall :: "'f machine \<Rightarrow> AgentSpec \<Rightarrow> bool \<Rightarrow> TargetOutcome fs" where
  "uninstall M spec dry_run = (let H = json_lib M; name = as_name spec in case as_format spec of
     CliDelegate c _ remove _ dry_text detail \<Rightarrow> uninstall_cli_delegate M spec c remove dry_text detail dry_run
   | JsonFormat servers_key \<Rightarrow> at_path name (resolve_path M spec) (\<lambda>p. finish_json_uninstall H name p servers_key dry_run)
   | YamlFormat \<Rightarrow> at_path name (resolve_path M spec) (\<lambda>p.
       andthen (attempt (remove_goose_yaml_config p dry_run)) (\<lambda>r. ret (finalize_yaml_uninstall name p r)))
   | HooksFormat s \<Rightarrow> (case s of
       Claude \<Rightarrow> uninstall_claude_code_combined M dry_run
     | Codex \<Rightarrow> uninstall_codex_hooks M dry_run
     | Cursor \<Rightarrow> uninstall_cursor_hooks M dry_run
     | Gemini \<Rightarrow> uninstall_gemini_cli_hooks M dry_run
     | Windsurf \<Rightarrow> uninstall_windsurf_hooks M dry_run))"

section \<open>All targets\<close>

fun run_all :: "('a \<Rightarrow> 'b fs) \<Rightarrow> 'a list \<Rightarrow> 'b list fs" where
  "run_all f [] = ret []"
| "run_all f (x # xs) = andthen (f x) (\<lambda>y. andthen (run_all f xs) (\<lambda>ys. ret (y # ys)))"

definition install_all_targets :: "'f machine \<Rightarrow> ustr \<Rightarrow> ustr \<Rightarrow> bool \<Rightarrow> TargetOutcome list fs" where
  "install_all_targets M mcp_bin cli_bin dry_run =
     run_all (\<lambda>spec. install M spec mcp_bin cli_bin dry_run) (filter (\<lambda>spec. as_name spec \<noteq> lit ''Claude Code hooks'') AGENTS)"

definition record_selects_claude :: "ustr list \<Rightarrow> bool" where
  "record_selects_claude keys \<longleftrightarrow> lit ''claude'' \<in> set keys \<or> lit ''claude hooks'' \<in> set keys"

definition selected_specs :: "ustr list \<Rightarrow> AgentSpec list" where
  "selected_specs recorded_keys =
     filter (\<lambda>spec. recorded_keys = []
         \<or> (if as_name spec = lit ''Claude Code'' then record_selects_claude recorded_keys
            else canonical_target_key (as_name spec) \<in> set recorded_keys))
       (filter (\<lambda>spec. as_name spec \<noteq> lit ''Claude Code hooks'') AGENTS)"

definition uninstall_all_targets :: "'f machine \<Rightarrow> ustr list \<Rightarrow> bool \<Rightarrow> TargetOutcome list fs" where
  "uninstall_all_targets M recorded_keys dry_run = run_all (\<lambda>spec. uninstall M spec dry_run) (selected_specs recorded_keys)"

definition collect_agent_statuses :: "'f machine \<Rightarrow> (ustr list \<Rightarrow> ustr) \<Rightarrow> ustr \<Rightarrow> TargetStatus list fs" where
  "collect_agent_statuses M debug_list bin = run_all (\<lambda>spec. detect M debug_list spec bin) AGENTS"

definition installed_targets_from_agents :: "TargetStatus list \<Rightarrow> ustr list" where
  "installed_targets_from_agents agents = map ts_name (filter (\<lambda>s. ts_state s = InstalledState) agents)"

section \<open>The status of a client\<close>

record McpClientStatus =
  cs_name :: ustr
  cs_detected :: bool
  cs_state :: InstallState
  cs_detail :: "ustr option"
  cs_surfaces :: "TargetStatus list"

definition count_targets :: "InstallState \<Rightarrow> TargetStatus list \<Rightarrow> nat" where
  "count_targets st ss = length (filter (\<lambda>s. ts_state s = st) ss)"

definition client_state :: "TargetStatus list \<Rightarrow> InstallState" where
  "client_state surfaces =
     (let found = filter ts_detected surfaces; installed = count_targets InstalledState found;
          conflicts = count_targets Conflict found; unknowns = count_targets UnknownState found;
          missing = count_targets NotInstalled found in
      if 0 < conflicts \<or> (0 < installed \<and> 0 < missing) then Conflict
      else if 0 < unknowns then UnknownState
      else if list_ex ts_detected surfaces \<and> installed = length found \<and> 0 < installed then InstalledState
      else NotInstalled)"

definition client_status :: "ustr \<Rightarrow> TargetStatus list \<Rightarrow> McpClientStatus" where
  "client_status name surfaces =
     (let detected = list_ex ts_detected surfaces; found = filter ts_detected surfaces; installed = count_targets InstalledState found;
          conflicts = count_targets Conflict found; unknowns = count_targets UnknownState found;
          missing = count_targets NotInstalled found; state = client_state surfaces;
          detail = (case state of
              InstalledState \<Rightarrow> show_nat installed @ lit ''/'' @ show_nat (length found) @ lit '' detected surface(s) installed''
            | Conflict \<Rightarrow>
                if 0 < installed \<and> 0 < missing
                then lit ''partial install: '' @ show_nat installed @ lit '' installed, '' @ show_nat missing @ lit '' missing''
                  @ (if 0 < conflicts then lit '', '' @ show_nat conflicts @ lit '' conflicting'' else [])
                else show_nat conflicts @ lit '' conflicting surface(s)''
            | UnknownState \<Rightarrow> show_nat unknowns @ lit '' unknown surface(s)''
            | NotInstalled \<Rightarrow> if detected then lit ''detected, but no DiffLore surface installed'' else lit ''not detected'') in
      \<lparr>cs_name = name, cs_detected = detected, cs_state = state, cs_detail = Some detail, cs_surfaces = surfaces\<rparr>)"

definition collect_client_statuses_from_agents :: "TargetStatus list \<Rightarrow> McpClientStatus list" where
  "collect_client_statuses_from_agents agents =
     map (\<lambda>client. client_status (display_name client)
            (List.map_filter (\<lambda>spec. find (\<lambda>a. ts_name a = as_name spec) agents)
              (filter (\<lambda>spec. as_client spec = client) AGENTS)))
       (rev (remdups (rev (map as_client AGENTS))))"

end
