(* ===== verification/Agent_Laws.thy ===== *)
theory Agent_Laws
  imports Agent_Registry
begin

text \<open>
  What the operations over the table of agents guarantee: the files they may change, dry runs, the targets
  an uninstallation selects, and the meaning of the state of a client.
\<close>

section \<open>Files outside a set stay\<close>

definition same_outside :: "path set \<Rightarrow> (path \<Rightarrow> ustr option) \<Rightarrow> file_system \<Rightarrow> bool" where
  "same_outside S F d \<longleftrightarrow> (\<forall>q. q \<notin> S \<longrightarrow> files d q = F q)"

lemma same_outside_files: "files d' = files d \<Longrightarrow> same_outside S F d \<Longrightarrow> same_outside S F d'"
  by (simp add: same_outside_def)

named_theorems file_rules \<open>steps that change no file outside a set\<close>


lemma keeps_with_error: "keeps I m \<Longrightarrow> keeps I (with_error f m)"
  unfolding keeps_def by (metis snd_conv with_error_eq)

lemma same_exists [file_rules]: "keeps (same_outside S F) (path_exists p)"
  unfolding path_exists_def by (rule keeps_get)

lemma same_create_dir_all [file_rules]: "keeps (same_outside S F) (create_dir_all p)"
  unfolding create_dir_all_def fs_call_def by (rule keeps_sql) (simp add: same_outside_def)

lemma same_read [file_rules]: "keeps (same_outside S F) (read_to_string p)"
  unfolding read_to_string_def fs_call_def by (intro io_intros) simp_all

lemma same_write [file_rules]: "p \<in> S \<Longrightarrow> keeps (same_outside S F) (write_atomic_file p s)"
  unfolding write_atomic_file_def fs_call_def
  by (intro io_intros file_rules) (auto simp: persist_def same_outside_def)

lemmas [file_rules] = keeps_with_error

lemma same_load [file_rules]: "keeps (same_outside S F) (load_json_object H p)"
  unfolding load_json_object_def by (auto intro!: io_intros file_rules split: sum.split option.split)

lemma same_create_parent [file_rules]: "keeps (same_outside S F) (create_parent p)"
  unfolding create_parent_def by (intro io_intros file_rules)

lemma same_write_json [file_rules]:
  "p \<in> S \<Longrightarrow> keeps (same_outside S F) (write_json_object H p m)" "p \<in> S \<Longrightarrow> keeps (same_outside S F) (claude_write H p m)"
  unfolding write_json_object_def claude_write_def by (intro io_intros file_rules; assumption)+

lemma same_lift_result [file_rules]: "keeps I (lift_result r)"
  unfolding lift_result_def by (intro io_intros)

lemma same_gemini_context [file_rules]: "p \<in> S \<Longrightarrow> keeps (same_outside S F) (upsert_gemini_md_context p)"
  unfolding upsert_gemini_md_context_def Let_def by (intro io_intros file_rules; assumption)

lemma same_windsurf_context [file_rules]: "p \<in> S \<Longrightarrow> keeps (same_outside S F) (write_windsurf_context_file p)"
  unfolding write_windsurf_context_file_def Let_def by (intro io_intros file_rules; assumption)

lemma keeps_prod_case: "(\<And>a b. keeps I (f a b)) \<Longrightarrow> keeps I (case x of (a, b) \<Rightarrow> f a b)"
  by (cases x) auto

lemma keeps_if_cond: "(b \<Longrightarrow> keeps I m) \<Longrightarrow> (\<not> b \<Longrightarrow> keeps I n) \<Longrightarrow> keeps I (if b then m else n)"
  by simp

text \<open>Each writer, live with its file in the set, or dry.\<close>

lemma same_merges [file_rules]:
  "p \<in> S \<Longrightarrow> keeps (same_outside S F) (merge_claude_code_hooks H p bin)"
  "dry \<or> p \<in> S \<Longrightarrow> keeps (same_outside S F) (merge_codex_hooks H p bin dry)"
  "dry \<or> p \<in> S \<Longrightarrow> keeps (same_outside S F) (merge_cursor_hooks H p bin dry)"
  "dry \<or> p \<in> S \<and> md \<in> S \<Longrightarrow> keeps (same_outside S F) (merge_gemini_cli_hooks H p md bin dry)"
  "dry \<or> p \<in> S \<and> md \<in> S \<Longrightarrow> keeps (same_outside S F) (merge_windsurf_hooks H p md bin dry)"
  unfolding merge_claude_code_hooks_def merge_codex_hooks_def merge_cursor_hooks_def merge_gemini_cli_hooks_def
    merge_windsurf_hooks_def
  by (intro keeps_andthen keeps_prod_case keeps_if_cond keeps_ret file_rules; simp)+

lemma same_removals [file_rules]:
  "dry \<or> p \<in> S \<Longrightarrow> keeps (same_outside S F) (remove_claude_code_hooks H p dry)"
  "dry \<or> p \<in> S \<Longrightarrow> keeps (same_outside S F) (remove_difflore_hook_entries H p client dry b)"
  unfolding remove_claude_code_hooks_def remove_difflore_hook_entries_def
  by (intro keeps_andthen keeps_option keeps_prod_case keeps_if_cond keeps_ret file_rules; simp)+

lemma same_goose [file_rules]:
  "dry \<or> p \<in> S \<Longrightarrow> keeps (same_outside S F) (merge_goose_yaml_config p bin dry)"
  "dry \<or> p \<in> S \<Longrightarrow> keeps (same_outside S F) (remove_goose_yaml_config p dry)"
  unfolding merge_goose_yaml_config_def remove_goose_yaml_config_def read_config_def write_config_def
  by (intro keeps_andthen keeps_option keeps_prod_case keeps_if_cond keeps_ret file_rules; simp)+

lemma same_mcp [file_rules]:
  "dry \<or> p \<in> S \<Longrightarrow> keeps (same_outside S F) (install_json_config_at H p bin k shape dry)"
  "dry \<or> p \<in> S \<Longrightarrow> keeps (same_outside S F) (uninstall_json_config_at H p k dry)"
  unfolding install_json_config_at_def uninstall_json_config_at_def Let_def
  by (intro keeps_andthen keeps_prod_case keeps_if_cond keeps_ret file_rules; simp)+

section \<open>The drivers\<close>

text \<open>The files of DiffLore for a row, and of the programs it runs.\<close>

definition claude_settings :: "'f machine \<Rightarrow> path list" where
  "claude_settings M = (case ok_path (home_path M (map lit [''.claude'', ''settings.json''])) of Some p \<Rightarrow> [p] | None \<Rightarrow> [])"

definition paths_of :: "(ustr + path) list \<Rightarrow> path list" where
  "paths_of = List.map_filter ok_path"

definition own_paths :: "'f machine \<Rightarrow> AgentSpec \<Rightarrow> path list" where
  "own_paths M spec = (case as_format spec of
     CliDelegate _ _ _ _ _ _ \<Rightarrow> if as_skip_if_plugin spec then claude_settings M else []
   | JsonFormat _ \<Rightarrow> paths_of [resolve_path M spec]
   | YamlFormat \<Rightarrow> paths_of [resolve_path M spec]
   | HooksFormat s \<Rightarrow> (case s of
       Claude \<Rightarrow> claude_settings M
     | Codex \<Rightarrow> paths_of [home_path M (map lit [''.codex'', ''hooks.json''])]
     | Cursor \<Rightarrow> paths_of [map_sum id (\<lambda>p. p @ [lit ''hooks.json'']) (cwd_path M [lit ''.cursor''])]
     | Gemini \<Rightarrow> paths_of [home_path M (map lit [''.gemini'', ''settings.json'']), home_path M (map lit [''.gemini'', ''GEMINI.md''])]
     | Windsurf \<Rightarrow> paths_of [home_path M (map lit [''.codeium'', ''windsurf'', ''hooks.json'']),
         cwd_path M (map lit [''.windsurf'', ''rules'', ''difflore-context.md''])]))"

definition commands_stay_in :: "'f machine \<Rightarrow> path set \<Rightarrow> bool" where
  "commands_stay_in M S \<longleftrightarrow> (\<forall>c args F. keeps (same_outside S F) (run_command M c args))"

lemma at_path_keeps: "(\<And>p. r = Inr p \<Longrightarrow> keeps I (f p)) \<Longrightarrow> keeps I (at_path name r f)"
  unfolding at_path_def by (auto intro: io_intros split: sum.split)

lemma exists_opt_keeps [file_rules]: "keeps (same_outside S F) (exists_opt p)"
  unfolding exists_opt_def by (intro io_intros file_rules)

lemma plugin_keeps [file_rules]: "keeps I (claude_plugin_installed M)"
  unfolding claude_plugin_installed_def by (intro io_intros)

lemma any_sibling_keeps [file_rules]: "keeps (same_outside S F) (any_sibling_exists M segs)"
  by (induction segs) (auto intro!: io_intros file_rules)

lemma gate_keeps [file_rules]: "keeps (same_outside S F) (detect_gate M spec)"
  unfolding detect_gate_def parent_exists_def Let_def
  by (cases "as_detect spec") (auto intro!: io_intros file_rules)

lemma hint_keeps [file_rules]: "keeps (same_outside S F) (codex_hooks_disabled_hint M)"
  unfolding codex_hooks_disabled_hint_def codex_hooks_disabled_hint_at_def by (intro io_intros file_rules)

lemma finish_codex_keeps [file_rules]: "keeps (same_outside S F) (finalize_codex_hook_outcome M p r)"
  unfolding finalize_codex_hook_outcome_def by (intro io_intros file_rules)

lemma finish_json_keeps [file_rules]:
  "dry \<or> p \<in> S \<Longrightarrow> keeps (same_outside S F) (finish_json_install H name p bin k shape dry)"
  "dry \<or> p \<in> S \<Longrightarrow> keeps (same_outside S F) (finish_json_uninstall H name p k dry)"
  unfolding finish_json_install_def finish_json_uninstall_def by (intro io_intros file_rules; assumption)+

lemma ok_path_iff [simp]: "ok_path r = Some p \<longleftrightarrow> r = Inr p"
  by (cases r) (auto simp: ok_path_def)

lemma set_paths_of: "p \<in> set (paths_of rs) \<longleftrightarrow> Inr p \<in> set rs"
  by (induction rs) (auto simp: paths_of_def List.map_filter_simps ok_path_def split: option.splits sum.splits)

lemma claude_settings_iff: "home_path M (map lit [''.claude'', ''settings.json'']) = Inr p \<Longrightarrow> p \<in> set (claude_settings M)"
  by (simp add: claude_settings_def ok_path_def)

lemma claude_hooks_keeps:
  "set (claude_settings M) \<subseteq> S \<Longrightarrow> keeps (same_outside S F) (install_claude_code_hooks M bin)"
  "dry \<or> set (claude_settings M) \<subseteq> S \<Longrightarrow> keeps (same_outside S F) (uninstall_claude_code_hooks M dry)"
  unfolding install_claude_code_hooks_def uninstall_claude_code_hooks_def
  using claude_settings_iff by (fastforce intro: io_intros file_rules split: sum.split)+

lemma run_all_keeps: "(\<And>x. x \<in> set xs \<Longrightarrow> keeps I (f x)) \<Longrightarrow> keeps I (run_all f xs)"
  by (induction xs) (auto intro!: io_intros)

text \<open>The two programs that run external commands.\<close>

lemma delegate_keeps:
  assumes "dry \<or> commands_stay_in M S \<and> (as_skip_if_plugin spec \<longrightarrow> set (claude_settings M) \<subseteq> S)"
  shows "keeps (same_outside S F) (install_cli_delegate M spec c add remove d mcp_bin cli_bin dry)"
    "keeps (same_outside S F) (uninstall_cli_delegate M spec c remove t d dry)"
proof -
  have run: "\<not> dry \<Longrightarrow> keeps (same_outside S F) (run_command M c args)" for c args
    using assms by (simp add: commands_stay_in_def)
  have hooks: "\<not> dry \<Longrightarrow> as_skip_if_plugin spec \<Longrightarrow> keeps (same_outside S F) (install_claude_code_hooks M cli_bin)"
    "as_skip_if_plugin spec \<Longrightarrow> keeps (same_outside S F) (uninstall_claude_code_hooks M dry)"
    using assms claude_hooks_keeps by blast+
  show "keeps (same_outside S F) (install_cli_delegate M spec c add remove d mcp_bin cli_bin dry)"
    unfolding install_cli_delegate_def
    by (intro keeps_if_cond keeps_andthen keeps_attempt keeps_sum keeps_ret run hooks)
  show "keeps (same_outside S F) (uninstall_cli_delegate M spec c remove t d dry)"
    unfolding uninstall_cli_delegate_def uninstall_claude_code_combined_def Let_def
    by (intro keeps_if_cond keeps_andthen keeps_attempt keeps_sum keeps_ret run hooks plugin_keeps)
qed

lemma claude_combined_keeps:
  assumes "dry \<or> commands_stay_in M S \<and> set (claude_settings M) \<subseteq> S"
  shows "keeps (same_outside S F) (uninstall_claude_code_combined M dry)"
proof -
  have run: "\<not> dry \<Longrightarrow> keeps (same_outside S F) (run_command M c args)" for c args
    using assms by (simp add: commands_stay_in_def)
  have hooks: "keeps (same_outside S F) (uninstall_claude_code_hooks M dry)"
    using assms claude_hooks_keeps(2) by blast
  show ?thesis
    unfolding uninstall_claude_code_combined_def Let_def
    by (intro keeps_if_cond keeps_andthen keeps_attempt keeps_sum keeps_ret run hooks plugin_keeps)
qed

lemma surface_keeps:
  assumes "dry \<or> set (own_paths M spec) \<subseteq> S" "as_format spec = HooksFormat s"
  shows "s = Codex \<Longrightarrow> keeps (same_outside S F) (install_codex_hooks M bin dry) \<and> keeps (same_outside S F) (uninstall_codex_hooks M dry)"
    "s = Cursor \<Longrightarrow> keeps (same_outside S F) (install_cursor_hooks M bin dry) \<and> keeps (same_outside S F) (uninstall_cursor_hooks M dry)"
    "s = Gemini \<Longrightarrow> keeps (same_outside S F) (install_gemini_cli_hooks M bin dry) \<and> keeps (same_outside S F) (uninstall_gemini_cli_hooks M dry)"
    "s = Windsurf \<Longrightarrow> keeps (same_outside S F) (install_windsurf_hooks M bin dry) \<and> keeps (same_outside S F) (uninstall_windsurf_hooks M dry)"
proof -
  have own: "dry \<or> p \<in> S" if "p \<in> set (own_paths M spec)" for p using assms(1) that by blast
  note rules = at_path_keeps keeps_andthen keeps_attempt keeps_if_cond keeps_ret file_rules
  note defs = install_codex_hooks_def install_cursor_hooks_def install_gemini_cli_hooks_def install_windsurf_hooks_def
    uninstall_codex_hooks_def uninstall_cursor_hooks_def uninstall_gemini_cli_hooks_def uninstall_windsurf_hooks_def
    remove_codex_hooks_def remove_cursor_hooks_def remove_gemini_cli_hooks_def remove_windsurf_hooks_def
  have paths: "own_paths M spec = (case s of
       Claude \<Rightarrow> claude_settings M
     | Codex \<Rightarrow> paths_of [home_path M (map lit [''.codex'', ''hooks.json''])]
     | Cursor \<Rightarrow> paths_of [map_sum id (\<lambda>p. p @ [lit ''hooks.json'']) (cwd_path M [lit ''.cursor''])]
     | Gemini \<Rightarrow> paths_of [home_path M (map lit [''.gemini'', ''settings.json'']), home_path M (map lit [''.gemini'', ''GEMINI.md''])]
     | Windsurf \<Rightarrow> paths_of [home_path M (map lit [''.codeium'', ''windsurf'', ''hooks.json'']),
         cwd_path M (map lit [''.windsurf'', ''rules'', ''difflore-context.md''])])"
    using assms(2) by (simp add: own_paths_def)
  show "s = Codex \<Longrightarrow> keeps (same_outside S F) (install_codex_hooks M bin dry) \<and> keeps (same_outside S F) (uninstall_codex_hooks M dry)"
    unfolding defs using own paths by (intro conjI rules) (auto simp: set_paths_of)
  show "s = Cursor \<Longrightarrow> keeps (same_outside S F) (install_cursor_hooks M bin dry) \<and> keeps (same_outside S F) (uninstall_cursor_hooks M dry)"
    unfolding defs Let_def using own paths by (intro conjI rules) (auto simp: set_paths_of)
  show "s = Gemini \<Longrightarrow> keeps (same_outside S F) (install_gemini_cli_hooks M bin dry) \<and> keeps (same_outside S F) (uninstall_gemini_cli_hooks M dry)"
    unfolding defs using own paths by (intro conjI rules) (auto simp: set_paths_of)
  show "s = Windsurf \<Longrightarrow> keeps (same_outside S F) (install_windsurf_hooks M bin dry) \<and> keeps (same_outside S F) (uninstall_windsurf_hooks M dry)"
    unfolding defs using own paths by (intro conjI rules) (auto simp: set_paths_of)
qed

lemma resolved_keeps:
  assumes "dry \<or> set (own_paths M spec) \<subseteq> S" "as_format spec = YamlFormat \<or> as_format spec = JsonFormat k"
    "resolve_path M spec = Inr p"
  shows "dry \<or> p \<in> S"
  using assms by (auto simp: own_paths_def set_paths_of)

lemma install_keeps:
  assumes "dry \<or> commands_stay_in M S \<and> set (own_paths M spec) \<subseteq> S"
  shows "keeps (same_outside S F) (install M spec mcp_bin cli_bin dry)"
    "keeps (same_outside S F) (uninstall M spec dry)"
proof -
  have own: "dry \<or> set (own_paths M spec) \<subseteq> S" using assms by blast
  have r: "as_format spec = YamlFormat \<Longrightarrow> resolve_path M spec = Inr p \<Longrightarrow> dry \<or> p \<in> S"
    "as_format spec = JsonFormat k \<Longrightarrow> resolve_path M spec = Inr p \<Longrightarrow> dry \<or> p \<in> S" for p k
    using resolved_keeps [OF own] by blast+
  have body: "keeps (same_outside S F) (case as_format spec of
       CliDelegate c add remove _ _ detail \<Rightarrow> install_cli_delegate M spec c add remove detail mcp_bin cli_bin dry
     | JsonFormat servers_key \<Rightarrow> at_path (as_name spec) (resolve_path M spec) (\<lambda>p.
         finish_json_install (json_lib M) (as_name spec) p mcp_bin servers_key (mcp_entry_shape_of spec) dry)
     | YamlFormat \<Rightarrow> at_path (as_name spec) (resolve_path M spec) (\<lambda>p.
         andthen (attempt (merge_goose_yaml_config p mcp_bin dry)) (\<lambda>r. ret (finalize_hook_outcome (as_name spec) p r)))
     | HooksFormat s \<Rightarrow> (case s of
         Claude \<Rightarrow> ret (skipped_outcome (as_name spec) (lit ''installed with Claude Code MCP''))
       | Codex \<Rightarrow> install_codex_hooks M cli_bin dry
       | Cursor \<Rightarrow> install_cursor_hooks M cli_bin dry
       | Gemini \<Rightarrow> install_gemini_cli_hooks M cli_bin dry
       | Windsurf \<Rightarrow> install_windsurf_hooks M cli_bin dry))"
  proof (cases "as_format spec")
    case (CliDelegate c add rem g t d)
    then show ?thesis using assms by (auto intro!: delegate_keeps simp: own_paths_def)
  next
    case (HooksFormat s)
    then show ?thesis using surface_keeps [OF own HooksFormat] by (cases s) (auto intro: keeps_ret)
  qed (auto intro!: at_path_keeps io_intros file_rules dest: r)
  show "keeps (same_outside S F) (install M spec mcp_bin cli_bin dry)"
    unfolding install_def Let_def by (intro keeps_andthen keeps_option keeps_if keeps_ret file_rules body)
  show "keeps (same_outside S F) (uninstall M spec dry)"
  proof (cases "as_format spec")
    case (CliDelegate c add rem g t d)
    then show ?thesis using assms by (auto intro!: delegate_keeps simp: own_paths_def uninstall_def)
  next
    case (HooksFormat s)
    then show ?thesis using surface_keeps [OF own HooksFormat] assms
      by (cases s) (auto intro!: claude_combined_keeps simp: uninstall_def own_paths_def)
  qed (auto intro!: at_path_keeps io_intros file_rules dest: r simp: uninstall_def Let_def)
qed

section \<open>Properties\<close>

text \<open>
  C29. Installing or uninstalling the row of an agent changes no file but the ones of DiffLore for that row, as long as
  the programs it runs stay within files of their own: the settings of every other agent keep their text,
  whichever call of the file system fails.
\<close>

theorem agent_changes_only_own_files:
  assumes "commands_stay_in M foreign" and "q \<notin> foreign" and "q \<notin> set (own_paths M spec)"
  shows "files (db (snd (install M spec mcp_bin cli_bin dry w))) q = files (db w) q
    \<and> files (db (snd (uninstall M spec dry w))) q = files (db w) q"
proof -
  let ?S = "foreign \<union> set (own_paths M spec)"
  have "commands_stay_in M ?S"
    using assms(1) unfolding commands_stay_in_def keeps_def same_outside_def
    by (metis (mono_tags, lifting) UnI1)
  then have "keeps (same_outside ?S (files (db w))) (install M spec mcp_bin cli_bin dry)"
    "keeps (same_outside ?S (files (db w))) (uninstall M spec dry)"
    by (intro install_keeps; simp)+
  then show ?thesis using assms(2,3) unfolding keeps_def same_outside_def by blast
qed

text \<open>
  A dry run over all agents changes no file, whether it plans an installation or a removal, and whatever the
  programs of the agents would do: it does not run them.
\<close>

theorem agent_dry_runs_change_nothing:
  "files (db (snd (install_all_targets M mcp_bin cli_bin True w))) = files (db w)
   \<and> files (db (snd (uninstall_all_targets M keys True w))) = files (db w)"
proof -
  have "keeps (same_outside {} (files (db w))) (install_all_targets M mcp_bin cli_bin True)"
    "keeps (same_outside {} (files (db w))) (uninstall_all_targets M keys True)"
    unfolding install_all_targets_def uninstall_all_targets_def by (intro run_all_keeps install_keeps; simp)+
  then show ?thesis unfolding keeps_def same_outside_def by auto
qed

lemma agent_keys: "distinct (map (\<lambda>spec. canonical_target_key (as_name spec)) AGENTS)"
  by code_simp

lemma claude_keys: "canonical_target_key (lit ''Claude Code'') = lit ''claude''"
  "canonical_target_key (lit ''Claude Code hooks'') = lit ''claude hooks''"
  "lit ''Claude Code'' \<in> set (map as_name AGENTS)" "lit ''Claude Code hooks'' \<in> set (map as_name AGENTS)"
  by code_simp+


text \<open>
  C40. The state of a client is that of its detected surfaces: installed exactly when there are some and all
  are; in conflict exactly when one conflicts, or one is installed and another is missing; unknown exactly
  when one is unknown and there is no conflict.
\<close>

theorem client_state_exact:
  "(client_state ss = InstalledState \<longleftrightarrow> (\<exists>s \<in> set ss. ts_detected s) \<and> (\<forall>s \<in> set ss. \<not> ts_detected s \<or> ts_state s = InstalledState))
   \<and> (client_state ss = Conflict \<longleftrightarrow> (\<exists>s \<in> set ss. ts_detected s \<and> ts_state s = Conflict)
       \<or> (\<exists>s \<in> set ss. ts_detected s \<and> ts_state s = InstalledState) \<and> (\<exists>s \<in> set ss. ts_detected s \<and> ts_state s = NotInstalled))
   \<and> (client_state ss = UnknownState \<longleftrightarrow> client_state ss \<noteq> Conflict \<and> (\<exists>s \<in> set ss. ts_detected s \<and> ts_state s = UnknownState))"
proof -
  have pos: "0 < count_targets st xs \<longleftrightarrow> (\<exists>s \<in> set xs. ts_state s = st)" for st xs
    by (auto simp: count_targets_def filter_empty_conv)
  have all: "count_targets st xs = length xs \<longleftrightarrow> (\<forall>s \<in> set xs. ts_state s = st)" for st xs
    by (auto simp: count_targets_def filter_id_conv dest: length_filter_less)
  show ?thesis
    unfolding client_state_def Let_def pos all by (auto simp: list_ex_iff split: if_splits)
qed

section \<open>Witnesses\<close>

definition demo_machine :: "nat machine" where
  "demo_machine = \<lparr>json_lib = demo_host, json_text = (\<lambda>_. []), mcp_home = None, copilot_env = None, user_home = Some [lit ''home''],
     current_dir = Inr [lit ''work''], on_path = (\<lambda>_. False), canonical = (\<lambda>_. None), dir_entries = (\<lambda>_. None),
     toml_features = (\<lambda>_. None),
     run_command = (\<lambda>_ _. ret \<lparr>co_success = True, co_status = lit ''exit status: 0'', co_stdout = [], co_stderr = []\<rparr>)\<rparr>"

lemma demo_commands: "commands_stay_in demo_machine {}"
  by (simp add: commands_stay_in_def demo_machine_def keeps_ret)

theorem agent_changes_only_own_files_witness:
  "files (db (snd (install demo_machine (AGENTS ! 4) demo_bin demo_bin False demo_files))) codex_path = None"
proof -
  have "codex_path \<notin> set (own_paths demo_machine (AGENTS ! 4))" by code_simp
  from agent_changes_only_own_files [OF demo_commands _ this, of demo_bin demo_bin False demo_files]
  show ?thesis by (simp add: demo_files_def)
qed


theorem client_state_exact_witness:
  "client_state (map (\<lambda>(found, st). \<lparr>ts_name = [], ts_detected = found, ts_state = st, ts_detail = None\<rparr>)
     [(True, InstalledState), (True, NotInstalled), (False, UnknownState)]) = Conflict"
  by (subst client_state_exact) simp

end
