(* ===== verification/Agent_Update.thy ===== *)
theory Agent_Update
  imports Agent_Laws
begin

text \<open>
  The record of what was installed (\<^verbatim>\<open>installer/manifest.rs\<close>) and the update that works from it
  (\<^verbatim>\<open>installer/install.rs\<close>): the hashes of the blocks as rendered, as found on disk and as earlier releases wrote
  them, the decision for one target, carrying it out, and the run over all targets.
\<close>

section \<open>The record\<close>

datatype ManagedBy = ManagedDifflore | ManagedExternal

record ManifestTarget =
  mt_name :: ustr
  mt_surface_key :: ustr
  mt_managed_by :: ManagedBy
  mt_config_path :: "ustr option"
  mt_servers_key :: "ustr option"
  mt_block_kind :: ustr
  mt_block_version :: nat
  mt_block_hash :: "ustr option"
  mt_installed_at :: ustr
  mt_updated_at :: ustr

record InstallManifest =
  im_version :: nat
  im_command :: ustr
  im_args :: "ustr list"
  im_installed_targets :: "ustr list"
  im_targets :: "ManifestTarget list"

definition MANIFEST_VERSION :: nat where "MANIFEST_VERSION = 2"

section \<open>Hashes of blocks\<close>

text \<open>\<open>sha\<close> is \<^verbatim>\<open>sha256_block_hex\<close>; the bytes of one value are its text on one line.\<close>

definition render_block_hash :: "(ustr \<Rightarrow> ustr) \<Rightarrow> 'f machine \<Rightarrow> AgentSpec \<Rightarrow> ustr \<Rightarrow> ustr \<Rightarrow> ustr option" where
  "render_block_hash sha M spec mcp_bin cli_bin = (case block_kind_of spec of
     McpJson \<Rightarrow> Some (sha (json_text M (render_mcp_json_block mcp_bin (mcp_entry_shape_of spec))))
   | GooseYaml \<Rightarrow> Some (sha (render_goose_block mcp_bin))
   | HooksJson \<Rightarrow> map_option (\<lambda>s. sha (hook_groups_bytes (json_text M) (render_hook_groups s cli_bin))) (hook_surface_of spec)
   | ExternalCli \<Rightarrow> None)"

definition legacy_mcp_json_location :: "AgentSpec \<Rightarrow> (ustr list \<times> ustr) option" where
  "legacy_mcp_json_location spec = (case as_client spec of
     CopilotCli \<Rightarrow> Some (map lit [''.github'', ''copilot'', ''mcp.json''], lit ''servers'')
   | Crush \<Rightarrow> Some (map lit [''.config'', ''crush'', ''mcp.json''], lit ''mcpServers'')
   | Warp \<Rightarrow> Some (map lit [''.warp'', ''mcp.json''], lit ''mcpServers'')
   | _ \<Rightarrow> None)"

definition legacy_mcp_json_on_disk_hash :: "(ustr \<Rightarrow> ustr) \<Rightarrow> 'f machine \<Rightarrow> AgentSpec \<Rightarrow> ustr option fs" where
  "legacy_mcp_json_on_disk_hash sha M spec = (case legacy_mcp_json_location spec of
     None \<Rightarrow> ret None
   | Some (segments, servers_key) \<Rightarrow> (case home_path M segments of
       Inl _ \<Rightarrow> ret None
     | Inr p \<Rightarrow> andthen (extract_mcp_json_block (json_lib M) p servers_key) (\<lambda>v. ret (map_option (\<lambda>v. sha (json_text M v)) v))))"

definition on_disk_block_hash :: "(ustr \<Rightarrow> ustr) \<Rightarrow> 'f machine \<Rightarrow> AgentSpec \<Rightarrow> ustr option fs" where
  "on_disk_block_hash sha M spec = (case resolve_path M spec of
     Inl _ \<Rightarrow> ret None
   | Inr p \<Rightarrow> (case block_kind_of spec of
       McpJson \<Rightarrow> (case servers_key_of spec of
           None \<Rightarrow> ret None
         | Some servers_key \<Rightarrow> andthen (extract_mcp_json_block (json_lib M) p servers_key) (\<lambda>v. case v of
             Some v \<Rightarrow> ret (Some (sha (json_text M v)))
           | None \<Rightarrow> legacy_mcp_json_on_disk_hash sha M spec))
     | GooseYaml \<Rightarrow> andthen (extract_goose_block p) (\<lambda>b. ret (map_option sha b))
     | HooksJson \<Rightarrow> (case hook_surface_of spec of
           None \<Rightarrow> ret None
         | Some s \<Rightarrow> andthen (extract_hook_groups_on_disk (json_lib M) p (hook_client s)) (\<lambda>groups.
             ret (if groups = [] then None else Some (sha (hook_groups_bytes (json_text M) groups)))))
     | ExternalCli \<Rightarrow> ret None))"

fun legacy_hook_blocks :: "HookSurface \<Rightarrow> ustr \<Rightarrow> 'f json list list" where
  "legacy_hook_blocks Claude bin = legacy_claude_code_hook_blocks bin"
| "legacy_hook_blocks Codex bin = legacy_codex_hook_blocks bin"
| "legacy_hook_blocks Cursor bin = legacy_cursor_hook_blocks bin"
| "legacy_hook_blocks Gemini bin = legacy_gemini_cli_hook_blocks bin"
| "legacy_hook_blocks Windsurf bin = []"

definition legacy_mcp_json_render_shapes :: "AgentSpec \<Rightarrow> McpEntryShape list" where
  "legacy_mcp_json_render_shapes spec = (if as_client spec \<in> {CopilotCli, Crush, Warp} then [Standard] else [])"

definition legacy_render_hashes :: "(ustr \<Rightarrow> ustr) \<Rightarrow> 'f machine \<Rightarrow> AgentSpec \<Rightarrow> ustr \<Rightarrow> ustr list" where
  "legacy_render_hashes sha M spec cli_bin = (case block_kind_of spec of
     HooksJson \<Rightarrow> (case hook_surface_of spec of
         None \<Rightarrow> [] | Some s \<Rightarrow> map (\<lambda>groups. sha (hook_groups_bytes (json_text M) groups)) (legacy_hook_blocks s cli_bin))
   | McpJson \<Rightarrow> map (\<lambda>shape. sha (json_text M (render_mcp_json_block cli_bin shape))) (legacy_mcp_json_render_shapes spec)
   | _ \<Rightarrow> [])"

section \<open>Building the record\<close>

definition path_text :: "'f machine \<Rightarrow> AgentSpec \<Rightarrow> ustr option" where
  "path_text M spec = map_option display_path (ok_path (resolve_path M spec))"

definition target_for_spec ::
    "(ustr \<Rightarrow> ustr) \<Rightarrow> 'f machine \<Rightarrow> AgentSpec \<Rightarrow> ustr \<Rightarrow> ustr \<Rightarrow> ustr \<Rightarrow> InstallManifest option \<Rightarrow> ManifestTarget" where
  "target_for_spec sha M spec mcp_bin cli_bin now prior =
     (let kind = block_kind_of spec; key = canonical_target_key (as_name spec); external = (kind = ExternalCli) in
      \<lparr>mt_name = as_name spec, mt_surface_key = key,
       mt_managed_by = (if external then ManagedExternal else ManagedDifflore),
       mt_config_path = (if external then None else path_text M spec),
       mt_servers_key = (if external then None else servers_key_of spec),
       mt_block_kind = kind_str kind, mt_block_version = current_version kind,
       mt_block_hash = (if external then None else render_block_hash sha M spec mcp_bin cli_bin),
       mt_installed_at = (case Option.bind prior (\<lambda>m. find (\<lambda>t. mt_surface_key t = key) (im_targets m)) of
          None \<Rightarrow> now | Some t \<Rightarrow> mt_installed_at t),
       mt_updated_at = now\<rparr>)"

definition push_unique :: "ManifestTarget \<Rightarrow> ManifestTarget list \<Rightarrow> ManifestTarget list" where
  "push_unique t ts = (if mt_surface_key t \<in> set (map mt_surface_key ts) then ts else ts @ [t])"

definition build_targets ::
    "(ustr \<Rightarrow> ustr) \<Rightarrow> 'f machine \<Rightarrow> ustr list \<Rightarrow> ustr \<Rightarrow> ustr \<Rightarrow> ustr \<Rightarrow> InstallManifest option \<Rightarrow> ManifestTarget list" where
  "build_targets sha M installed_names mcp_bin cli_bin now prior =
     (let row = (\<lambda>spec. target_for_spec sha M spec mcp_bin cli_bin now prior) in
      fold (\<lambda>name ts. case find_spec name of
          None \<Rightarrow> ts
        | Some spec \<Rightarrow>
            (let ts1 = push_unique (row spec) ts in
             if as_name spec = lit ''Claude Code'' then
               (case find_spec (lit ''Claude Code hooks'') of Some h \<Rightarrow> push_unique (row h) ts1 | None \<Rightarrow> ts1)
             else ts1)) installed_names [])"

definition v1_provisional_targets :: "'f machine \<Rightarrow> ustr list \<Rightarrow> ustr \<Rightarrow> ManifestTarget list" where
  "v1_provisional_targets M installed_targets now =
     fold (\<lambda>name ts. case find_spec name of
         None \<Rightarrow> ts
       | Some spec \<Rightarrow>
           (let kind = block_kind_of spec; external = (kind = ExternalCli) in
            push_unique \<lparr>mt_name = as_name spec, mt_surface_key = canonical_target_key (as_name spec),
              mt_managed_by = (if external then ManagedExternal else ManagedDifflore),
              mt_config_path = (if external then None else path_text M spec),
              mt_servers_key = (if external then None else servers_key_of spec),
              mt_block_kind = kind_str kind, mt_block_version = 0, mt_block_hash = None,
              mt_installed_at = now, mt_updated_at = now\<rparr> ts)) installed_targets []"

section \<open>The decision for a target\<close>

datatype UpdateAction =
    UpToDate
  | Upgrade nat nat
  | Adopt
  | SkippedLocalEdits
  | ForceOverwrite
  | Gone
  | ReissueCli nat nat
  | UpToDateExternal

definition plan_update_target ::
    "bool \<Rightarrow> ustr option \<Rightarrow> nat \<Rightarrow> nat \<Rightarrow> ustr option \<Rightarrow> ustr option \<Rightarrow> bool \<Rightarrow> UpdateAction" where
  "plan_update_target is_external recorded_hash recorded_version current on_disk_hash standard_render_hash legacy =
     (if is_external then (if recorded_version < current then ReissueCli recorded_version current else UpToDateExternal)
      else case on_disk_hash of
        None \<Rightarrow> Gone
      | Some on_disk \<Rightarrow>
          (case recorded_hash of
             Some recorded \<Rightarrow>
               if recorded = on_disk then (if recorded_version < current then Upgrade recorded_version current else UpToDate)
               else if legacy \<and> recorded_version < current then Upgrade recorded_version current
               else if standard_render_hash = Some on_disk then Adopt else SkippedLocalEdits
           | None \<Rightarrow>
               if legacy \<and> recorded_version < current then Upgrade recorded_version current
               else if standard_render_hash = Some on_disk then Adopt else SkippedLocalEdits))"

section \<open>Carrying it out\<close>

definition effective_install_spec :: "AgentSpec \<Rightarrow> AgentSpec" where
  "effective_install_spec spec =
     (if as_name spec = lit ''Claude Code hooks''
      then (case find_spec (lit ''Claude Code'') of Some claude \<Rightarrow> claude | None \<Rightarrow> spec) else spec)"

definition refresh_target_metadata :: "'f machine \<Rightarrow> AgentSpec \<Rightarrow> ManifestTarget \<Rightarrow> ManifestTarget" where
  "refresh_target_metadata M spec t =
     (let kind = block_kind_of spec;
          t1 = t\<lparr>mt_name := as_name spec, mt_surface_key := canonical_target_key (as_name spec), mt_block_kind := kind_str kind\<rparr> in
      if kind = ExternalCli
      then t1\<lparr>mt_managed_by := ManagedExternal, mt_config_path := None, mt_servers_key := None, mt_block_hash := None\<rparr>
      else t1\<lparr>mt_managed_by := ManagedDifflore, mt_config_path := path_text M spec, mt_servers_key := servers_key_of spec\<rparr>)"

text \<open>Whether the outcome of the installer stops the re-stamping: only an error does.\<close>

definition is_error :: "TargetOutcome \<Rightarrow> bool" where
  "is_error out \<longleftrightarrow> (case to_status out of Error _ \<Rightarrow> True | _ \<Rightarrow> False)"

definition rerender ::
    "(ustr \<Rightarrow> ustr) \<Rightarrow> 'f machine \<Rightarrow> AgentSpec \<Rightarrow> ManifestTarget \<Rightarrow> ustr \<Rightarrow> ustr \<Rightarrow> nat \<Rightarrow> ustr option \<Rightarrow> ustr \<Rightarrow> (ManifestTarget \<times> bool) fs" where
  "rerender sha M spec t mcp_bin cli_bin current standard_render_hash now =
     andthen (install M (effective_install_spec spec) mcp_bin cli_bin False) (\<lambda>out.
     if is_error out then ret (t, False)
     else andthen (case standard_render_hash of Some h \<Rightarrow> ret (Some h) | None \<Rightarrow> on_disk_block_hash sha M spec) (\<lambda>h.
       ret ((refresh_target_metadata M spec t)\<lparr>mt_block_hash := h, mt_block_version := current, mt_updated_at := now\<rparr>, True)))"

definition apply_update_action ::
    "(ustr \<Rightarrow> ustr) \<Rightarrow> 'f machine \<Rightarrow> UpdateAction \<Rightarrow> AgentSpec \<Rightarrow> ManifestTarget \<Rightarrow> ustr \<Rightarrow> ustr \<Rightarrow> nat \<Rightarrow> ustr option \<Rightarrow> ustr option
       \<Rightarrow> bool \<Rightarrow> ustr \<Rightarrow> (ManifestTarget \<times> bool) fs" where
  "apply_update_action sha M action spec t mcp_bin cli_bin current standard_render_hash on_disk_hash dry_run now =
     (case action of
        Adopt \<Rightarrow>
          if dry_run then ret (t, False)
          else ret ((refresh_target_metadata M spec t)\<lparr>
              mt_block_hash := (case standard_render_hash of Some h \<Rightarrow> Some h | None \<Rightarrow> on_disk_hash),
              mt_block_version := current, mt_updated_at := now\<rparr>, True)
      | Upgrade _ _ \<Rightarrow>
          if dry_run then ret (t, False) else rerender sha M spec t mcp_bin cli_bin current standard_render_hash now
      | ForceOverwrite \<Rightarrow>
          if dry_run then ret (t, False) else rerender sha M spec t mcp_bin cli_bin current standard_render_hash now
      | ReissueCli _ _ \<Rightarrow>
          if dry_run then ret (t, False)
          else andthen (install M spec mcp_bin cli_bin False) (\<lambda>out.
            if is_error out then ret (t, False)
            else ret ((refresh_target_metadata M spec t)\<lparr>mt_block_version := current, mt_updated_at := now\<rparr>, True))
      | _ \<Rightarrow> ret (t, False))"

text \<open>One round of the loop: the row, whether it changed, and the action; no action for an unknown name.\<close>

definition update_target ::
    "(ustr \<Rightarrow> ustr) \<Rightarrow> 'f machine \<Rightarrow> ustr \<Rightarrow> ustr \<Rightarrow> bool \<Rightarrow> bool \<Rightarrow> ustr \<Rightarrow> ManifestTarget
       \<Rightarrow> (ManifestTarget \<times> bool \<times> UpdateAction option) fs" where
  "update_target sha M mcp_bin cli_bin dry_run force now t =
     (case find_spec (mt_name t) of
        None \<Rightarrow> ret (t, False, None)
      | Some spec \<Rightarrow>
          (let kind = block_kind_of spec; current = current_version kind; is_external = (kind = ExternalCli) in
           andthen (if is_external then ret None else on_disk_block_hash sha M spec) (\<lambda>on_disk_hash.
           let standard = (if is_external then None else render_block_hash sha M spec mcp_bin cli_bin);
               legacy = (case on_disk_hash of Some h \<Rightarrow> h \<in> set (legacy_render_hashes sha M spec cli_bin) | None \<Rightarrow> False);
               planned = plan_update_target is_external (mt_block_hash t) (mt_block_version t) current on_disk_hash standard legacy;
               action = (if force \<and> planned = SkippedLocalEdits then ForceOverwrite else planned) in
           andthen (apply_update_action sha M action spec t mcp_bin cli_bin current standard on_disk_hash dry_run now)
             (\<lambda>(t', changed). ret (t', changed, Some action)))))"

section \<open>The run\<close>

text \<open>
  \<open>load\<close> and \<open>save\<close>: reading and writing the record at its path; the derived encodings of its rows are outside.
\<close>

definition update_all ::
    "(ustr \<Rightarrow> ustr) \<Rightarrow> 'f machine \<Rightarrow> ustr \<Rightarrow> bool \<Rightarrow> bool \<Rightarrow> ustr \<Rightarrow> InstallManifest option fs \<Rightarrow> (InstallManifest \<Rightarrow> unit fs)
       \<Rightarrow> UpdateAction option list fs" where
  "update_all sha M bin dry_run force now load save = andthen load (\<lambda>m. case m of
     None \<Rightarrow> ret []
   | Some m \<Rightarrow>
       (let rows = (if im_targets m = [] \<and> im_installed_targets m \<noteq> [] then v1_provisional_targets M (im_installed_targets m) now
                    else im_targets m) in
        andthen (run_all (update_target sha M bin bin dry_run force now) rows) (\<lambda>results.
        andthen (if \<not> dry_run \<and> list_ex (\<lambda>(_, changed, _). changed) results
          then andthen (attempt (save (m\<lparr>im_targets := map fst results, im_version := MANIFEST_VERSION\<rparr>))) (\<lambda>_. ret ())
          else ret ()) (\<lambda>_. ret (map (\<lambda>(_, _, action). action) results)))))"

definition agent_update_nudge :: "'f machine \<Rightarrow> ustr \<Rightarrow> InstallManifest option \<Rightarrow> ustr option" where
  "agent_update_nudge M now m = (case m of
     None \<Rightarrow> None
   | Some m \<Rightarrow>
       (let rows = (if im_targets m = [] \<and> im_installed_targets m \<noteq> [] then v1_provisional_targets M (im_installed_targets m) now
                    else im_targets m);
            behind = List.map_filter (\<lambda>t. Option.bind (find_spec (mt_name t)) (\<lambda>spec.
              let current = current_version (block_kind_of spec) in
              if mt_block_version t < current
              then Some (mt_name t @ lit '' v'' @ show_nat (mt_block_version t) @ lit ''->v'' @ show_nat current) else None)) rows in
        if behind = [] then None
        else Some (lit ''agent blocks behind ('' @ str_join (lit '', '') behind @ lit ''); run `difflore agents update`'')))"

definition should_write_canonical_record :: "bool \<Rightarrow> ustr list \<Rightarrow> ustr list \<Rightarrow> bool" where
  "should_write_canonical_record dry_run done_names failed \<longleftrightarrow> \<not> dry_run \<and> done_names \<noteq> [] \<and> failed = []"

section \<open>What reading and planning change\<close>

lemma on_disk_keeps: "keeps (same_outside S F) (on_disk_block_hash sha M spec)"
  unfolding on_disk_block_hash_def legacy_mcp_json_on_disk_hash_def extract_mcp_json_block_def extract_goose_block_def
    extract_hook_groups_on_disk_def
  by (auto intro!: io_intros file_rules split: sum.split option.split BlockKind.split prod.split)

text \<open>The installer runs only for an upgrade, a forced overwrite or a re-issue, and never in a dry run.\<close>

definition runs_installer :: "UpdateAction \<Rightarrow> bool" where
  "runs_installer a \<longleftrightarrow> (case a of Upgrade _ _ \<Rightarrow> True | ForceOverwrite \<Rightarrow> True | ReissueCli _ _ \<Rightarrow> True | _ \<Rightarrow> False)"

lemma quiet_action: "dry \<or> \<not> runs_installer a \<Longrightarrow>
    \<exists>x. apply_update_action sha M a spec t mb cb cur std h dry now = ret x"
  unfolding apply_update_action_def runs_installer_def by (cases a) auto

lemma planned_install:
  assumes "plan_update_target ext rec v cur h std legacy = a" "runs_installer a" "\<not> ext"
  shows "a \<noteq> ForceOverwrite \<and> v < cur \<and> (\<exists>x. h = Some x \<and> (rec = Some x \<or> legacy))"
  using assms by (auto simp: plan_update_target_def runs_installer_def split: option.splits if_splits)

lemma andthen_result: "andthen m f w = (case m w of (Inl e, w') \<Rightarrow> (Inl e, w') | (Inr a, w') \<Rightarrow> f a w')"
  by (simp add: andthen_def)

lemma keepsD': "keeps I m \<Longrightarrow> m w = (r, w') \<Longrightarrow> I (db w) \<Longrightarrow> I (db w')"
  unfolding keeps_def by (metis snd_conv)

lemma on_disk_files: "on_disk_block_hash sha M spec w = (r, w') \<Longrightarrow> files (db w') = files (db w)"
  using keepsD' [OF on_disk_keeps [of "{}" "files (db w)"]] by (fastforce simp: same_outside_def)

section \<open>Properties\<close>

text \<open>
  C5. Without \<^verbatim>\<open>--force\<close> an update of a target whose settings are files of their own changes a file only if
  the run is real, the block on disk is the one recorded for the target or one an earlier release rendered, and the
  recorded version is behind: a block edited by the user is never overwritten.
\<close>

theorem update_protects_local_edits:
  assumes "update_target sha M mb cb dry False now t w = (r, w')" and "files (db w') \<noteq> files (db w)"
    and "find_spec (mt_name t) = Some spec" and "block_kind_of spec \<noteq> ExternalCli"
  shows "\<not> dry \<and> mt_block_version t < current_version (block_kind_of spec)
    \<and> (\<exists>h w1. on_disk_block_hash sha M spec w = (Inr (Some h), w1)
        \<and> (mt_block_hash t = Some h \<or> h \<in> set (legacy_render_hashes sha M spec cb)))"
proof -
  obtain d w1 where read: "on_disk_block_hash sha M spec w = (d, w1)" by fastforce
  have same: "files (db w1) = files (db w)" using on_disk_files [OF read] .
  show ?thesis
  proof (cases d)
    case (Inl e)
    then have "w' = w1" using assms(1,3,4) read by (simp add: update_target_def Let_def andthen_result)
    with same assms(2) show ?thesis by simp
  next
    case (Inr h)
    define legacy where "legacy = (case h of Some h \<Rightarrow> h \<in> set (legacy_render_hashes sha M spec cb) | None \<Rightarrow> False)"
    define a where "a = plan_update_target False (mt_block_hash t) (mt_block_version t) (current_version (block_kind_of spec)) h
      (render_block_hash sha M spec mb cb) legacy"
    let ?act = "apply_update_action sha M a spec t mb cb (current_version (block_kind_of spec))
      (render_block_hash sha M spec mb cb) h dry now"
    have step: "andthen ?act (\<lambda>(t', changed). ret (t', changed, Some a)) w1 = (r, w')"
      using assms(1,3,4) read Inr by (simp add: update_target_def Let_def andthen_result a_def legacy_def)
    have "\<not> (dry \<or> \<not> runs_installer a)"
    proof
      assume "dry \<or> \<not> runs_installer a"
      then obtain x where "?act = ret x" using quiet_action by blast
      then have "w' = w1" using step by (auto simp: andthen_result ret_def split: prod.splits)
      with same assms(2) show False by simp
    qed
    then have live: "\<not> dry" "runs_installer a" by simp_all
    from planned_install [OF a_def [symmetric] live(2)] obtain x
      where "mt_block_version t < current_version (block_kind_of spec)" "h = Some x" "mt_block_hash t = Some x \<or> legacy"
      by auto
    with live read Inr show ?thesis by (auto simp: legacy_def)
  qed
qed

lemma find_spec_name: "find_spec n = Some spec \<Longrightarrow> as_name spec = n \<and> spec \<in> set AGENTS"
  by (auto simp: find_spec_def find_Some_iff)

lemma rendered_unless_external: "block_kind_of spec \<noteq> ExternalCli \<Longrightarrow> \<exists>h. render_block_hash sha M spec mb cb = Some h"
  by (auto simp: render_block_hash_def block_kind_of_def hook_surface_of_def split: ConfigFormat.splits)

lemma refresh_fields [simp]:
  "mt_name (refresh_target_metadata M spec t) = as_name spec"
  "mt_surface_key (refresh_target_metadata M spec t) = canonical_target_key (as_name spec)"
  "mt_block_kind (refresh_target_metadata M spec t) = kind_str (block_kind_of spec)"
  "mt_installed_at (refresh_target_metadata M spec t) = mt_installed_at t"
  by (simp_all add: refresh_target_metadata_def Let_def)

lemma ret_result [simp]: "ret a w = (Inr b, w') \<longleftrightarrow> b = a \<and> w' = w"
  by (auto simp: ret_def)

lemma plan_kinds:
  "ext \<Longrightarrow> (\<exists>x y. plan_update_target ext rec v cur h std legacy = ReissueCli x y) \<or> plan_update_target ext rec v cur h std legacy = UpToDateExternal"
  "\<not> ext \<Longrightarrow> plan_update_target ext rec v cur h std legacy \<noteq> ReissueCli x y"
  by (auto simp: plan_update_target_def split: option.split)

text \<open>What an action does to its row.\<close>

definition stamped :: "'f machine \<Rightarrow> AgentSpec \<Rightarrow> ManifestTarget \<Rightarrow> nat \<Rightarrow> ustr option \<Rightarrow> ustr \<Rightarrow> ManifestTarget" where
  "stamped M spec t current h now =
     (refresh_target_metadata M spec t)\<lparr>mt_block_hash := h, mt_block_version := current, mt_updated_at := now\<rparr>"

lemma apply_result:
  assumes "apply_update_action sha M a spec t mb cb cur std h dry now w = (Inr (t', changed), w')"
  shows "(\<not> changed \<and> t' = t) \<or> (changed \<and> \<not> dry \<and>
    (((\<exists>x y. a = ReissueCli x y) \<and> t' = (refresh_target_metadata M spec t)\<lparr>mt_block_version := cur, mt_updated_at := now\<rparr>)
     \<or> ((a = Adopt \<or> a = ForceOverwrite \<or> (\<exists>x y. a = Upgrade x y)) \<and> (\<exists>k. t' = stamped M spec t cur k now \<and> (std \<noteq> None \<longrightarrow> k = std)))))"
  using assms unfolding apply_update_action_def stamped_def
  by (cases a)
    (auto simp: rerender_def andthen_result split: if_splits prod.splits sum.splits option.splits)

text \<open>One round with a known surface.\<close>

lemma row_result:
  assumes "update_target sha M mb cb dry force now t w = (Inr (t', changed, a), w')" and Some: "find_spec (mt_name t) = Some spec"
  shows "(\<not> changed \<and> t' = t) \<or> (changed \<and> \<not> dry \<and> (\<exists>act. a = Some act \<and> (act = Adopt \<or> runs_installer act))
    \<and> t' = (if block_kind_of spec = ExternalCli
        then (refresh_target_metadata M spec t)\<lparr>mt_block_version := current_version (block_kind_of spec), mt_updated_at := now\<rparr>
        else stamped M spec t (current_version (block_kind_of spec)) (render_block_hash sha M spec mb cb) now))"
proof -
  let ?ext = "block_kind_of spec = ExternalCli" and ?cur = "current_version (block_kind_of spec)"
  let ?std = "if ?ext then None else render_block_hash sha M spec mb cb"
  obtain h w1 a1 where ap: "apply_update_action sha M a1 spec t mb cb ?cur ?std h dry now w1 = (Inr (t', changed), w')"
    and a: "a = Some a1" and plan: "?ext \<Longrightarrow> \<not> (a1 = Adopt \<or> a1 = ForceOverwrite \<or> (\<exists>x y. a1 = Upgrade x y))"
    "\<not> ?ext \<Longrightarrow> \<not> (\<exists>x y. a1 = ReissueCli x y)"
  proof -
    obtain d w1 where d: "(if ?ext then ret None else on_disk_block_hash sha M spec) w = (d, w1)" by fastforce
    then obtain h where h: "d = Inr h" using assms
      by (cases d) (auto simp: update_target_def Let_def andthen_result)
    define legacy where "legacy = (case h of Some x \<Rightarrow> x \<in> set (legacy_render_hashes sha M spec cb) | None \<Rightarrow> False)"
    define p where "p = plan_update_target ?ext (mt_block_hash t) (mt_block_version t) ?cur h ?std legacy"
    define a1 where "a1 = (if force \<and> p = SkippedLocalEdits then ForceOverwrite else p)"
    have "andthen (apply_update_action sha M a1 spec t mb cb ?cur ?std h dry now) (\<lambda>(t', changed). ret (t', changed, Some a1)) w1
        = (Inr (t', changed, a), w')"
      using assms(1) unfolding update_target_def Some option.case Let_def andthen_Inr [where m = "if ?ext then ret None else on_disk_block_hash sha M spec" and w = w, OF d [unfolded h]] legacy_def p_def a1_def .
    then have "apply_update_action sha M a1 spec t mb cb ?cur ?std h dry now w1 = (Inr (t', changed), w') \<and> a = Some a1"
      by (auto simp: andthen_result split: prod.splits sum.splits)
    moreover have "?ext \<Longrightarrow> \<not> (a1 = Adopt \<or> a1 = ForceOverwrite \<or> (\<exists>x y. a1 = Upgrade x y))"
      "\<not> ?ext \<Longrightarrow> \<not> (\<exists>x y. a1 = ReissueCli x y)"
      using plan_kinds [of ?ext "mt_block_hash t" "mt_block_version t" ?cur h ?std legacy] by (auto simp: a1_def p_def split: if_splits)
    ultimately show ?thesis using that by blast
  qed
  show ?thesis using apply_result [OF ap] a plan rendered_unless_external [of spec sha M mb cb]
    by (auto simp: runs_installer_def split: if_splits)
qed

text \<open>
  C31. A row of the record changes only in a real run and for an action that adopts, writes or re-issues. It
  then carries the version of this release and, unless a program of the agent owns the settings, the hash of the block as
  this release renders it; its name and the time of the first installation stay.
\<close>

theorem update_row_accounting:
  assumes "update_target sha M mb cb dry force now t w = (Inr (t', changed, a), w')"
  shows "if changed then \<not> dry \<and> (\<exists>spec act. find_spec (mt_name t) = Some spec \<and> a = Some act \<and> (act = Adopt \<or> runs_installer act)
      \<and> mt_name t' = mt_name t \<and> mt_installed_at t' = mt_installed_at t \<and> mt_updated_at t' = now
      \<and> mt_block_version t' = current_version (block_kind_of spec)
      \<and> (block_kind_of spec = ExternalCli \<or> mt_block_hash t' = render_block_hash sha M spec mb cb))
    else t' = t"
proof (cases "find_spec (mt_name t)")
  case None
  then show ?thesis using assms by (simp add: update_target_def)
next
  case (Some spec)
  from row_result [OF assms Some] find_spec_name [OF Some] Some show ?thesis
    by (auto simp: stamped_def)
qed

definition target_ok :: "ManifestTarget \<Rightarrow> bool" where
  "target_ok t = (case find_spec (mt_name t) of
     None \<Rightarrow> False
   | Some spec \<Rightarrow>
       mt_surface_key t = canonical_target_key (as_name spec) \<and> mt_block_kind t = kind_str (block_kind_of spec)
       \<and> (mt_managed_by t = ManagedExternal \<longleftrightarrow> block_kind_of spec = ExternalCli)
       \<and> (block_kind_of spec = ExternalCli \<longrightarrow> mt_config_path t = None \<and> mt_block_hash t = None)
       \<and> mt_servers_key t = servers_key_of spec
       \<and> mt_block_version t \<le> current_version (block_kind_of spec))"

definition manifest_ok :: "ManifestTarget list \<Rightarrow> bool" where
  "manifest_ok ts \<longleftrightarrow> list_all target_ok ts \<and> distinct (map mt_surface_key ts)"

lemma manifest_ok_Nil [simp]: "manifest_ok []"
  by (simp add: manifest_ok_def)

lemma push_unique_ok: "manifest_ok ts \<Longrightarrow> target_ok t \<Longrightarrow> manifest_ok (push_unique t ts)"
  by (auto simp: manifest_ok_def push_unique_def)

lemma fold_ok: "(\<And>x ts. manifest_ok ts \<Longrightarrow> manifest_ok (f x ts)) \<Longrightarrow> manifest_ok ts \<Longrightarrow> manifest_ok (fold f xs ts)"
  by (induction xs arbitrary: ts) auto

lemma find_spec_self: "find_spec n = Some spec \<Longrightarrow> find_spec (as_name spec) = Some spec"
  using find_spec_name [of n spec] by simp

lemma external_key: "block_kind_of spec = ExternalCli \<Longrightarrow> servers_key_of spec = None"
  by (auto simp: block_kind_of_def servers_key_of_def split: ConfigFormat.splits)

lemma target_for_spec_ok: "find_spec n = Some spec \<Longrightarrow> target_ok (target_for_spec sha M spec mb cb now prior)"
  by (simp add: target_ok_def target_for_spec_def Let_def find_spec_self external_key)

lemma build_targets_ok: "manifest_ok (build_targets sha M names mb cb now prior)"
  unfolding build_targets_def Let_def
  by (rule fold_ok) (auto intro!: push_unique_ok target_for_spec_ok split: option.split)

lemma provisional_ok: "manifest_ok (v1_provisional_targets M names now)"
  unfolding v1_provisional_targets_def Let_def
  by (rule fold_ok) (auto intro!: push_unique_ok simp: target_ok_def find_spec_self external_key split: option.split)

lemma update_target_ok:
  assumes "update_target sha M mb cb dry force now t w = (Inr (t', changed, a), w')" "target_ok t"
  shows "target_ok t' \<and> mt_surface_key t' = mt_surface_key t"
proof (cases "find_spec (mt_name t)")
  case None
  with assms show ?thesis by (simp add: update_target_def)
next
  case (Some spec)
  have "target_ok (refresh_target_metadata M spec t\<lparr>mt_block_version := current_version (block_kind_of spec), mt_updated_at := now\<rparr>)"
    if "block_kind_of spec = ExternalCli"
    using find_spec_self [OF Some] that by (simp add: target_ok_def refresh_target_metadata_def Let_def external_key)
  moreover have "target_ok (stamped M spec t (current_version (block_kind_of spec)) h now)" if "block_kind_of spec \<noteq> ExternalCli" for h
    using find_spec_self [OF Some] that by (simp add: target_ok_def stamped_def refresh_target_metadata_def Let_def)
  ultimately show ?thesis
    using row_result [OF assms(1) Some] assms(2) Some by (auto simp: target_ok_def stamped_def split: if_splits)
qed

lemma run_all_rel:
  assumes "run_all f xs w = (Inr ys, w')" "\<And>x w y w'. x \<in> set xs \<Longrightarrow> f x w = (Inr y, w') \<Longrightarrow> R x y"
  shows "list_all2 R xs ys"
  using assms
proof (induction xs arbitrary: w ys)
  case (Cons x xs)
  then obtain y w1 zs where "f x w = (Inr y, w1)" "run_all f xs w1 = (Inr zs, w')" "ys = y # zs"
    by (auto simp: andthen_result split: prod.splits sum.splits)
  with Cons show ?case by auto
qed simp


text \<open>
  A dry run of the update changes no file and does not write the record, whatever reading the record does to other
  data.
\<close>

theorem update_dry_run_changes_nothing:
  assumes "\<forall>F. keeps (same_outside {} F) load_record"
  shows "files (db (snd (update_all sha M bin True force now load_record save w))) = files (db w)"
proof -
  have one: "keeps (same_outside {} F) (update_target sha M bin bin True force now t)" for F t
  proof (cases "find_spec (mt_name t)")
    case (Some spec)
    have "keeps (same_outside {} F) (apply_update_action sha M a spec t bin bin cur std h True now)" for a cur std h
      using quiet_action [of True a sha M spec t bin bin cur std h now] keeps_ret by metis
    then show ?thesis
      unfolding update_target_def Some option.case Let_def
      by (intro keeps_andthen keeps_if keeps_ret on_disk_keeps keeps_prod_case)
  qed (simp add: update_target_def keeps_ret)
  have "keeps (same_outside {} (files (db w))) (update_all sha M bin True force now load_record save)"
    unfolding update_all_def Let_def
    by (intro keeps_andthen keeps_option keeps_ret run_all_keeps one assms [rule_format]) (auto intro: keeps_ret)
  then show ?thesis by (auto simp: keeps_def same_outside_def)
qed

section \<open>Witnesses\<close>

text \<open>Cursor with an entry as recorded, at the version before the current one.\<close>

definition cursor_machine :: "nat machine" where
  "cursor_machine = demo_machine\<lparr>json_text := (\<lambda>_. lit ''g''),
     json_lib := \<lparr>parse_json = (\<lambda>_. Inr (JObject [(lit ''mcpServers'', JObject [(lit ''difflore'', JNull)])])), print_json = (\<lambda>_. Inr (lit ''new''))\<rparr>\<rparr>"

definition old_row :: "string \<Rightarrow> nat \<Rightarrow> ManifestTarget" where
  "old_row name version = (let spec = the (find_spec (lit name)) in
     \<lparr>mt_name = lit name, mt_surface_key = canonical_target_key (lit name), mt_managed_by = ManagedDifflore, mt_config_path = None,
      mt_servers_key = servers_key_of spec, mt_block_kind = kind_str (block_kind_of spec), mt_block_version = version,
      mt_block_hash = Some (lit ''g''), mt_installed_at = lit ''t0'', mt_updated_at = lit ''t0''\<rparr>)"

definition cursor_update :: "(ustr + ManifestTarget \<times> bool \<times> UpdateAction option) \<times> file_system world" where
  "cursor_update = update_target (\<lambda>b. b) cursor_machine demo_bin demo_bin False False (lit ''t1'') (old_row ''Cursor'' 1) odd_files"

lemma cursor_find: "find_spec (mt_name (old_row ''Cursor'' 1)) = Some (AGENTS ! 4)" "block_kind_of (AGENTS ! 4) \<noteq> ExternalCli"
  by code_simp+

lemma cursor_written: "files (db (snd cursor_update)) (map lit [''home'', ''.cursor'', ''mcp.json'']) = Some (lit ''new'')"
  "files (db odd_files) (map lit [''home'', ''.cursor'', ''mcp.json'']) = Some (lit ''same'')"
  "fst cursor_update = Inr (old_row ''Cursor'' 1\<lparr>mt_config_path := Some (lit ''/home/.cursor/mcp.json''), mt_block_version := 2, mt_updated_at := lit ''t1''\<rparr>,
     True, Some (Upgrade 1 2))"
  by code_simp+

theorem update_protects_local_edits_witness:
  "\<exists>h w1. on_disk_block_hash (\<lambda>b. b) cursor_machine (AGENTS ! 4) odd_files = (Inr (Some h), w1)"
proof -
  have run: "update_target (\<lambda>b. b) cursor_machine demo_bin demo_bin False False (lit ''t1'') (old_row ''Cursor'' 1) odd_files
      = (fst cursor_update, snd cursor_update)"
    by (simp add: cursor_update_def)
  have "lit ''new'' \<noteq> lit ''same''" by code_simp
  then have "files (db (snd cursor_update)) \<noteq> files (db odd_files)" using cursor_written by (metis option.inject)
  from update_protects_local_edits [OF run this cursor_find] show ?thesis by blast
qed

theorem update_row_accounting_witness:
  "mt_block_version (old_row ''Cursor'' 1\<lparr>mt_config_path := Some (lit ''/home/.cursor/mcp.json''), mt_block_version := 2, mt_updated_at := lit ''t1''\<rparr>)
     = current_version (block_kind_of (AGENTS ! 4))"
proof -
  have "update_target (\<lambda>b. b) cursor_machine demo_bin demo_bin False False (lit ''t1'') (old_row ''Cursor'' 1) odd_files
      = (Inr (old_row ''Cursor'' 1\<lparr>mt_config_path := Some (lit ''/home/.cursor/mcp.json''), mt_block_version := 2, mt_updated_at := lit ''t1''\<rparr>,
           True, Some (Upgrade 1 2)), snd cursor_update)"
    by (metis cursor_update_def cursor_written(3) prod.collapse)
  from update_row_accounting [OF this] cursor_find(1) show ?thesis by auto
qed


theorem update_dry_run_changes_nothing_witness:
  "files (db (snd (update_all (\<lambda>b. b) cursor_machine demo_bin True True (lit ''t1'')
     (ret (Some \<lparr>im_version = 2, im_command = demo_bin, im_args = [], im_installed_targets = [], im_targets = [old_row ''Cursor'' 1]\<rparr>))
     (\<lambda>_. write_atomic_file [] []) odd_files))) = files (db odd_files)"
  by (rule update_dry_run_changes_nothing) (simp add: keeps_ret)

section \<open>An upgrade that did not happen\<close>

text \<open>
  The hooks of Claude Code, as DiffLore wrote them at the version before, on a machine where the program
  \<^verbatim>\<open>claude\<close> is not on the path: the installer skips the row, the update takes that for success and stamps the
  record with the hash of a block that was never written. From then on the block of DiffLore counts as edited by
  the user.
\<close>

definition hooks_machine :: "nat machine" where
  "hooks_machine = demo_machine\<lparr>json_text := (\<lambda>_. lit ''g''),
     json_lib := \<lparr>parse_json = (\<lambda>_. Inr (JObject [(lit ''hooks'', JObject [(lit ''Stop'', JArray [JObject [(lit ''hooks'', JArray
        [JObject [(lit ''command'', JString (hook_command_string demo_bin (lit ''claude-code'')))]])]])])])),
        print_json = (\<lambda>_. Inr (lit ''new''))\<rparr>\<rparr>"

definition hooks_update :: "ManifestTarget \<Rightarrow> (ustr + ManifestTarget \<times> bool \<times> UpdateAction option) \<times> file_system world" where
  "hooks_update t = update_target (\<lambda>b. b) hooks_machine demo_bin demo_bin False False (lit ''t1'') t odd_files"

definition gs :: "nat \<Rightarrow> ustr" where
  "gs n = str_join [newline] (sort_by cmp_str (replicate n (lit ''g'')))"

lemma hooks_bytes: "hook_groups_bytes (json_text hooks_machine) groups = gs (length groups)"
  by (simp add: hook_groups_bytes_def gs_def hooks_machine_def map_replicate_const)

lemma hooks_spec: "find_spec (lit ''Claude Code hooks'') = Some (AGENTS ! Suc 0)" "block_kind_of (AGENTS ! Suc 0) = HooksJson"
  "hook_surface_of (AGENTS ! Suc 0) = Some Claude" "as_name (AGENTS ! Suc 0) = lit ''Claude Code hooks''"
  "find_spec (lit ''Claude Code'') = Some (AGENTS ! 0)"
  by code_simp+

lemma hooks_gs: "lit ''g'' = gs (Suc 0)" "gs (Suc 0) \<noteq> gs 5" "gs (Suc 0) \<noteq> gs 6"
  by code_simp+

lemma hooks_render: "render_block_hash (\<lambda>b. b) hooks_machine (AGENTS ! Suc 0) demo_bin demo_bin = Some (gs 5)"
  by (simp add: render_block_hash_def hooks_spec hooks_bytes render_claude_code_hook_block_def CLAUDE_HOOK_EVENT_MATCHERS_def
      eval_nat_numeral)

lemma hooks_legacy: "gs (Suc 0) \<notin> set (legacy_render_hashes (\<lambda>b. b) hooks_machine (AGENTS ! Suc 0) demo_bin)"
  using hooks_gs(2,3)
  by (simp add: legacy_render_hashes_def hooks_spec hooks_bytes legacy_claude_code_hook_blocks_def legacy_claude_tables_def Let_def comp_def
      eval_nat_numeral)

lemma hooks_on_disk: "\<exists>w. on_disk_block_hash (\<lambda>b. b) hooks_machine (AGENTS ! Suc 0) odd_files = (Inr (Some (gs (Suc 0))), w)
    \<and> files (db w) = files (db odd_files)"
proof -
  have "fst (on_disk_block_hash (\<lambda>b. b) hooks_machine (AGENTS ! Suc 0) odd_files) = Inr (Some (lit ''g''))" by code_simp
  then show ?thesis using on_disk_files prod.collapse by (metis hooks_gs(1))
qed

lemma hooks_install: "install hooks_machine (AGENTS ! 0) demo_bin demo_bin False w
    = (Inr (skipped_outcome (lit ''Claude Code'') (lit ''`claude` CLI not on PATH'')), w)"
proof -
  have "as_detect (AGENTS ! 0) = CliSignal (lit ''claude'') (lit ''`claude` CLI not on PATH'')" "as_name (AGENTS ! 0) = lit ''Claude Code''"
    by code_simp+
  moreover have "\<not> on_path hooks_machine c" for c by (simp add: hooks_machine_def demo_machine_def)
  ultimately show ?thesis by (simp add: install_def detect_gate_def Let_def andthen_def ret_def)
qed

theorem skipped_upgrade_is_stamped:
  "case hooks_update (old_row ''Claude Code hooks'' 6) of
     (Inr (t, changed, a), w) \<Rightarrow> changed \<and> a = Some (Upgrade 6 7) \<and> mt_block_version t = 7 \<and> files (db w) = files (db odd_files)
       \<and> (case hooks_update t of (Inr (_, _, a'), _) \<Rightarrow> a' = Some SkippedLocalEdits | _ \<Rightarrow> False)
   | _ \<Rightarrow> False"
proof -
  obtain w where disk: "on_disk_block_hash (\<lambda>b. b) hooks_machine (AGENTS ! Suc 0) odd_files = (Inr (Some (gs (Suc 0))), w)"
    and same: "files (db w) = files (db odd_files)" using hooks_on_disk by blast
  let ?t = "old_row ''Claude Code hooks'' 6"
  let ?t' = "stamped hooks_machine (AGENTS ! Suc 0) ?t 7 (Some (gs 5)) (lit ''t1'')"
  have t: "mt_name ?t = lit ''Claude Code hooks''" "mt_block_hash ?t = Some (gs (Suc 0))" "mt_block_version ?t = 6"
    by (simp_all add: old_row_def Let_def hooks_gs(1))
  have spec: "effective_install_spec (AGENTS ! Suc 0) = AGENTS ! 0" by (simp add: effective_install_spec_def hooks_spec)
  have first: "hooks_update ?t = (Inr (?t', True, Some (Upgrade 6 7)), w)"
    unfolding hooks_update_def update_target_def t hooks_spec option.case Let_def
    by (simp add: andthen_result disk plan_update_target_def t hooks_legacy hooks_render apply_update_action_def rerender_def spec
        hooks_install is_error_def skipped_outcome_def stamped_def ret_def)
  have t': "mt_name ?t' = lit ''Claude Code hooks''" "mt_block_hash ?t' = Some (gs 5)" "mt_block_version ?t' = 7"
    by (simp_all add: stamped_def hooks_spec)
  have "hooks_update ?t' = (Inr (?t', False, Some SkippedLocalEdits), w)"
    unfolding hooks_update_def update_target_def t' hooks_spec option.case Let_def
    using hooks_gs(2) by (simp add: andthen_result disk plan_update_target_def t' hooks_legacy hooks_render apply_update_action_def ret_def)
  with first same t' show ?thesis by simp
qed

end
