(* ===== verification/Spec2Isabelle.thy ===== *)
theory Spec2Isabelle
  imports Outbox_Batch Outbox_Concurrency Diff_Context Review_Merge Classifier Autopilot_Schedule
    Export_Writeback Path_Safety Memory_Run Agent_Update
begin

text \<open>
  Verification library for \<^verbatim>\<open>difflore-cli\<close>, a tool that remembers the review rules of a team and
  brings them back to reviewers and coding agents. The Rust workspace has a core crate
  (\<^verbatim>\<open>crates/difflore-core\<close>) with the storage, the cloud queue and the review engine, and a command
  line crate (\<^verbatim>\<open>crates/difflore-cli\<close>) with the commands, hooks and installers. The library models the
  parts of the core that carry state or decide something, and the installers, which write into files
  the user owns. Paths below are relative to \<^verbatim>\<open>crates/difflore-core/src\<close>, those of the installers to
  \<^verbatim>\<open>crates/difflore-cli/src/installer\<close>.

  \<^bold>\<open>Shared base.\<close> \<open>Prelude\<close> has Rust strings as lists of Unicode scalar values (type \<open>ustr\<close>, written
  \<open>lit ''..''\<close> for a literal), the operations of \<^verbatim>\<open>str\<close> and \<^verbatim>\<open>char\<close> the sources call, and saturating
  and wrapping integers. \<open>Effects\<close> has fallible, clock-reading code over a database as explicit state
  passing (type \<open>io\<close>): a statement takes effect as a whole or fails with an error, and the clock and the
  failures are arbitrary. \<open>Json\<close> has the value type of \<^verbatim>\<open>serde_json\<close>; the parser itself is a parameter.
  \<open>Comparators\<close> has \<^verbatim>\<open>Ordering\<close> and the stable \<^verbatim>\<open>sort_by\<close>, with the locale \<open>total_comparator\<close> for
  comparison functions, interpreted on every comparator the code sorts with. In \<open>Effects\<close>,
  \<open>ends_in P Q m\<close> says that \<open>m\<close>, started where \<open>P\<close> holds, ends where \<open>Q\<close> holds whether it
  returns or fails; a transaction is a block that takes effect as a whole. \<open>Text_Ops\<close> has the
  rest of \<^verbatim>\<open>str\<close> (splitting, replacing, trimming by a predicate). \<open>Float32\<close> has binary32 arithmetic
  with rounding to nearest even, and the rational bounds between which a rounded quotient lies.

  \<^bold>\<open>The cloud queue.\<close> Uploads are stored as rows of a SQLite table and drained by any process of the tool.
  \<^item> \<open>Outbox_Core\<close>: \<^verbatim>\<open>cloud/outbox_core.rs\<close>, the retry decision, backoff and jitter.
  \<^item> \<open>Receipts\<close>: \<^verbatim>\<open>cloud/accepted_edit_receipts.rs\<close>, the local receipts of accepted edits and their summary.
  \<^item> \<open>Outbox\<close>: \<^verbatim>\<open>cloud/outbox.rs\<close>, every operation of \<^verbatim>\<open>OutboxQueue\<close>, one definition per SQL statement
    (\<open>.._stmt\<close>) and one per operation; the record \<open>outbox\<close> holds the table, the row identifiers and the
    breaker. Shown: the invariant \<open>outbox_wf\<close>, which row a claim takes, what a failure writes, that the
    breaker blocks claims.
  \<^item> \<open>Outbox_Concurrency\<close>: several processes over one table as an inductive step relation that interleaves
    single statements; the invariant holds in every reachable state, and one interleaving revives an
    abandoned row.
  \<^item> \<open>Session_Mined\<close>: \<^verbatim>\<open>cloud/session_mined.rs\<close>, construction and validation of mined candidates.
  \<^item> \<open>Outbox_Drain\<close>, \<open>Outbox_Batch\<close>: the drain loops of \<^verbatim>\<open>cloud/outbox.rs\<close>, the dispatch to the endpoints
    and the replay of spilled observations. The loops are recursive over the number of items they may
    still take, which is the bound of the Rust loops. The locale \<open>delivery_queue\<close> states what a drain needs of a queue; it is
    interpreted on the queue for all kinds and for one kind.

  \<^bold>\<open>The review engine.\<close> A diff is packed into a prompt, models answer with issues, the issues are checked,
  merged and put on lines.
  \<^item> \<open>Diff_Context\<close>: \<^verbatim>\<open>review_engine/diff_context.rs\<close>, packing patches into a character budget.
  \<^item> \<open>Issue_Parse\<close>: \<^verbatim>\<open>review_engine/parse.rs\<close>, reading issues, verdicts and summaries from an answer.
  \<^item> \<open>Review_Checks\<close>: \<^verbatim>\<open>pipeline/validate.rs\<close> and \<^verbatim>\<open>pipeline/judge.rs\<close>, the advisory model calls; the locale
    \<open>advisory_filter\<close> is what both of them guarantee whatever the model answers.
  \<^item> \<open>Hunk_Resolver\<close>: \<^verbatim>\<open>pipeline/resolver.rs\<close>, parsing hunks and resolving snippets to lines.
  \<^item> \<open>Review_Merge\<close>: the pure steps of \<^verbatim>\<open>pipeline/mod.rs\<close>, merging perspectives and recall pools, splitting a
    diff into files and resolving the lines of issues.

  \<^bold>\<open>What leaves the machine, and what is written on it.\<close>
  \<^item> \<open>Privacy\<close>: \<^verbatim>\<open>observability/privacy.rs\<close>, the scanner that redacts secrets and the removal of tagged
    regions. Both loops are recursive functions whose termination rests on the lemma that every turn
    advances; provider tokens never survive, prose and hashes are left alone, and no tag is left.
  \<^item> \<open>Classifier\<close>: \<^verbatim>\<open>observability/classifier.rs\<close>, from a reported edit to an observation.
  \<^item> \<open>Export_Writeback\<close>: \<^verbatim>\<open>export/writeback.rs\<close> and the block of \<^verbatim>\<open>export/mod.rs\<close>, the insertion of a generated block
    into a file of the user: user text is kept, and a second export changes nothing.
  \<^item> \<open>Path_Safety\<close>: \<^verbatim>\<open>commands/fix/path_safety.rs\<close> of the command line crate, the guards in front of the paths
    and patches a model proposes.

  \<^bold>\<open>The memory of rules.\<close> Drafts of rules and discoveries mined from sessions are grouped, classified,
  judged and enabled, by a person or by the autopilot. The tables are fields of one record that grows
  along the theories: \<open>autopilot_db\<close>, \<open>skill_db\<close>, \<open>conflict_db\<close>, \<open>plan_db\<close>.
  \<^item> \<open>Autopilot_Schedule\<close>: \<^verbatim>\<open>memory_autopilot_schedule.rs\<close>, the row by which processes agree on who runs
    the autopilot, one definition per SQL statement. The locale \<open>lease\<close> states what a lease
    guarantees; it is interpreted on the background and on the manual request. Over arbitrary
    interleavings of statements the lease excludes and no mark is lost; a background run gives its lease back.
  \<^item> \<open>Semantic_Dedup\<close>: \<^verbatim>\<open>skills/semantic_dedup.rs\<close>, when two rules are the same: the similarity of
    titles, texts and files in binary32. Shown: what a match implies, and that the threshold on the
    rounded score is a threshold on the exact quotient.
  \<^item> \<open>Memory_Groups\<close>: \<^verbatim>\<open>memory_autopilot/cluster.rs\<close> and the grouping of \<^verbatim>\<open>memory_autopilot/mod.rs\<close>. The
    union-find loops carry fuel, one more than the number of nodes; the clusters are the connected components
    of the similarity for every input. The locale \<open>tree_key\<close> has what a key of a \<^verbatim>\<open>BTreeMap\<close> must obey; it
    is interpreted on strings and indices.
  \<^item> \<open>Memory_Curator\<close>: \<^verbatim>\<open>memory_curator.rs\<close>, the safety gate of a model's rule and the batch call.
  \<^item> \<open>Memory_Classify\<close>: \<^verbatim>\<open>memory_autopilot/classify.rs\<close> and the checks of \<^verbatim>\<open>memory_autopilot/mod.rs\<close>, which
    groups may be enabled without a person.
  \<^item> \<open>Skill_Candidates\<close>: \<^verbatim>\<open>skills/candidates.rs\<close>, the queue of drafts. The invariant \<open>queue_wf\<close> (a rule
    identifier once, a hash active once) is kept by every sequence of promotions and rejections with any
    statements failing; two promotions whose statements interleave break it.
  \<^item> \<open>Memory_Conflicts\<close>: \<^verbatim>\<open>memory_autopilot/conflicts.rs\<close>, the table of conflicts and the second opinion of
    a model, which never touches a row a person decided.
  \<^item> \<open>Memory_Plan\<close>, \<open>Memory_Run\<close>: \<^verbatim>\<open>memory_autopilot/plan.rs\<close>, \<^verbatim>\<open>memory_autopilot/run.rs\<close> and
    \<^verbatim>\<open>memory_autopilot/log.rs\<close>: building the plan, cached and new answers of the curator, the run and its
    log, and the decisions of a person.

  \<^bold>\<open>The installers.\<close> The tool registers itself in the settings of the coding agents on the machine: as
  hooks, as a server entry in a JSON or YAML file, or through the program of an agent. It probes what is there, installs, uninstalls, and keeps a record from which an update tells its own
  text from that of the user.
  \<^item> \<open>Files\<close>: the file system as a record of files and directories; every call of it may fail.
  \<^item> \<open>Hook_Config\<close>, \<open>Hook_Install\<close>, \<open>Hook_Laws\<close>: \<^verbatim>\<open>hooks_install.rs\<close>. The hook entries of Claude Code, Codex,
    Cursor, Gemini and Windsurf as JSON values, the recognition of own entries, merging and removal,
    and the entry points over files. Shown: the settings after a merge, key by key; that an installation followed by
    a removal leaves what is the user's; that a fresh installation is what the manifest announces.
  \<^item> \<open>Goose_Yaml\<close>, \<open>Goose_Laws\<close>: \<^verbatim>\<open>goose_yaml.rs\<close>, the block of Goose, found and replaced line by line in a
    text that is never parsed. Shown: the text of the user is kept around the block, and the block is found again.
  \<^item> \<open>Mcp_Config\<close>: \<^verbatim>\<open>json_config.rs\<close>, the server entry in the JSON file of an agent.
  \<^item> \<open>Agent_Registry\<close>, \<open>Agent_Laws\<close>: \<^verbatim>\<open>registry.rs\<close> and \<^verbatim>\<open>clients.rs\<close>, the table of the agents, each row with its
    detection, probe, installer and uninstaller, the status of a client over its rows, and the selection of an uninstall. Shown: every
    row touches no file but its own, and a dry run none.
  \<^item> \<open>Agent_Update\<close>: \<^verbatim>\<open>manifest.rs\<close> and the update of \<^verbatim>\<open>install.rs\<close>: which rows are rewritten, what is recorded of
    them, and that a block the user edited is left alone unless he forces it.

  \<^bold>\<open>Parameters.\<close> Code outside the sources is an argument of the definitions that use it: the JSON parser,
  SQLite's JSON functions, the hash, the HTTP calls (an answer per attempt), the model calls and the decimal
  printing of a float; for the installers the JSON and TOML libraries, the hash of a block, the answers of the
  programs run, canonical paths and the listing of a directory. The memory inbox (approving a discovery) and the triage of drafts are arguments of a
  run as well. Nothing is assumed of them unless a theorem says so.

  \<^bold>\<open>Not modelled.\<close> Process effects (git subprocesses, the daemon, terminal output, the texts the installers
  print and their check of the running server), HTTP transport, floating point ranking of the retrieval,
  and the asynchronous orchestration of the
  commands. They are glue around the parts above or rest on code that is not in the repository.
\<close>

section \<open>From the answer of a model to lines of the new file\<close>

lemma resolve_line_issue_line:
  "issue_line (resolve_line sections snip issue) =
     (case Option.bind (issue_file issue) (\<lambda>f. Option.bind (map_option parse_hunks (sections f)) (\<lambda>hs.
        resolve_issue_lines \<lparr>snippet = snip, claimed_line = issue_line issue\<rparr> hs)) of
        Some (start, _) \<Rightarrow> Some start
      | None \<Rightarrow> issue_line issue)"
  by (auto simp: resolve_line_def Let_def resolve_issue_lines_def split: option.split)

text \<open>
  C22. Line resolution works per file. For a diff as git prints it (any number of files with their
  \<^verbatim>\<open>diff --git\<close>, index, mode and \<^verbatim>\<open>---\<close> lines, changed, created, deleted or binary; hunk headers with or
  without lengths and with any heading; context, added and deleted lines, blank context lines whose
  space was stripped, and no-newline remarks; line ends of either kind), the resolved issues are the
  given issues with nothing but their lines changed, and the line of each issue is the one that its
  snippet and its claimed line resolve to in the hunks of the issue's own file. It is left alone if
  the issue names no file of the diff or nothing in that file's hunks resolves it. The diff is assumed
  to name each new side once, by a path without quotes or outer blanks, to hold no carriage return
  within a line, and no added line whose own text starts with \<^verbatim>\<open>++ \<close>.
\<close>

theorem review_lines_resolve_per_file:
  assumes "plain_diff parts" and "lines diff = concat (map file_diff parts)"
    and "resolved = apply_hunk_line_resolution issues snippets diff"
    and "length snippets = length issues" and "k < length issues"
  shows "map (\<lambda>i. i\<lparr>issue_line := None\<rparr>) resolved = map (\<lambda>i. i\<lparr>issue_line := None\<rparr>) issues
    \<and> issue_line (resolved ! k) =
        (case Option.bind (issue_file (issues ! k)) (\<lambda>p. Option.bind (hunks_by_file parts p) (\<lambda>hs.
           resolve_issue_lines \<lparr>snippet = snippets ! k, claimed_line = issue_line (issues ! k)\<rparr> hs)) of
           Some (start, _) \<Rightarrow> Some start
         | None \<Rightarrow> issue_line (issues ! k))"
  using assms(4,5) unfolding assms(3)
  by (simp add: apply_hunk_line_resolution_frame apply_hunk_line_resolution_nth resolve_line_issue_line
      split_diff_printed [OF assms(1,2)])

theorem review_lines_resolve_per_file_witness:
  "issue_line (apply_hunk_line_resolution
     [(demo_issue (lit ''m''))\<lparr>issue_file := Some (lit ''src/b.rs''), issue_line := Some 3\<rparr>]
     [Some (lit ''let secret = read_env();'')] multi_file_diff ! 0) = Some 21"
proof -
  let ?issues = "[(demo_issue (lit ''m''))\<lparr>issue_file := Some (lit ''src/b.rs''), issue_line := Some 3\<rparr>]"
  let ?snips = "[Some (lit ''let secret = read_env();'')]"
  have "hunks_by_file [demo_file_a, demo_file_b] (lit ''src/b.rs'') = Some [hunk_meant demo_hunk_b]" by code_simp
  moreover have "resolve_issue_lines \<lparr>snippet = Some (lit ''let secret = read_env();''), claimed_line = Some 3\<rparr>
      [hunk_meant demo_hunk_b] = Some (21, 21)" by code_simp
  ultimately show ?thesis
    using review_lines_resolve_per_file [OF demo_diff_plain multi_file_diff_lines refl, of ?snips ?issues 0] by simp
qed

end
